(* ===== verification/Prelude.thy ===== *)
theory Prelude
  imports Main "HOL-Library.Word" "HOL-Library.Monad_Syntax"
begin

unbundle bit_operations_syntax

text \<open>
  Shared vocabulary of the development: the machine types of types.h, memory as a function from
  addresses to bytes, byte ranges of memory, little-endian loads, C arrays, and the generic
  lemmas on loops (\<open>fold\<close> over an index range) that the component theories use.

  Conventions.  A byte (\<open>int8_t\<close> and \<open>uint8_t\<close> of types.h) is an \<open>8 word\<close>; where the code
  reads it as a signed char the model writes \<open>sint\<close>.  \<open>uint32_t\<close> values that are registers,
  page table entries or masks are \<open>32 word\<close>.  An \<open>int32_t\<close> that the code only counts or
  compares with is an \<open>int\<close>, and an array index is a \<open>nat\<close>.  A C array (or the bytes a pointer
  points at) is a function from the index, because C does not check the index: what lies past
  the end of an array is the memory that happens to follow it.
\<close>

section \<open>Machine types\<close>

type_synonym byte = "8 word"
type_synonym u16 = "16 word"
type_synonym u32 = "32 word"

text \<open>The bytes a pointer points at, indexed from the pointer.\<close>

type_synonym carray = "nat \<Rightarrow> byte"

text \<open>Memory, indexed by address.\<close>

type_synonym mem = "nat \<Rightarrow> byte"

section \<open>Rule collections\<close>

named_theorems kframe \<open>what an operation leaves unchanged\<close>
named_theorems kinv \<open>an operation keeps an invariant\<close>

section \<open>C strings and arrays\<close>

definition bytes_of :: "string \<Rightarrow> byte list" where
  "bytes_of s = map of_char s"

text \<open>The array that holds the given bytes and zeros after them.\<close>

definition arr_of :: "byte list \<Rightarrow> carray" where
  "arr_of bs = (\<lambda>i. if i < length bs then bs ! i else 0)"

abbreviation NUL :: byte where "NUL \<equiv> 0"

lemma arr_of_nth [simp]: "i < length bs \<Longrightarrow> arr_of bs i = bs ! i"
  by (simp add: arr_of_def)

lemma arr_of_beyond [simp]: "length bs \<le> i \<Longrightarrow> arr_of bs i = 0"
  by (simp add: arr_of_def)

lemma length_bytes_of [simp]: "length (bytes_of s) = length s"
  by (simp add: bytes_of_def)

section \<open>Byte ranges of memory\<close>

definition load_bytes :: "mem \<Rightarrow> nat \<Rightarrow> nat \<Rightarrow> byte list" where
  "load_bytes m a n = map m [a..<a + n]"

definition store_bytes :: "nat \<Rightarrow> byte list \<Rightarrow> mem \<Rightarrow> mem" where
  "store_bytes a bs m = (\<lambda>x. if a \<le> x \<and> x < a + length bs then bs ! (x - a) else m x)"

lemma length_load_bytes [simp]: "length (load_bytes m a n) = n"
  by (simp add: load_bytes_def)

lemma nth_load_bytes [simp]: "i < n \<Longrightarrow> load_bytes m a n ! i = m (a + i)"
  by (simp add: load_bytes_def)

lemma load_store_same [simp]: "load_bytes (store_bytes a bs m) a (length bs) = bs"
  by (rule nth_equalityI) (simp_all add: store_bytes_def)

lemma load_store_disjoint:
  "b + n \<le> a \<or> a + length bs \<le> b \<Longrightarrow> load_bytes (store_bytes a bs m) b n = load_bytes m b n"
  by (rule nth_equalityI) (auto simp add: store_bytes_def)

lemma store_bytes_Nil [simp]: "store_bytes a [] m = m"
  by (rule ext) (auto simp add: store_bytes_def)

lemma store_bytes_outside [simp]:
  "x < a \<or> a + length bs \<le> x \<Longrightarrow> store_bytes a bs m x = m x"
  by (auto simp: store_bytes_def)

lemma store_bytes_inside [simp]:
  "i < length bs \<Longrightarrow> store_bytes a bs m (a + i) = bs ! i"
  by (simp add: store_bytes_def)

section \<open>Little-endian loads\<close>

definition load32 :: "mem \<Rightarrow> nat \<Rightarrow> u32" where
  "load32 m a = ucast (m a) OR push_bit 8 (ucast (m (a + 1)))
     OR push_bit 16 (ucast (m (a + 2))) OR push_bit 24 (ucast (m (a + 3)))"

text \<open>An \<open>int32_t\<close> in memory.\<close>

definition load_i32 :: "mem \<Rightarrow> nat \<Rightarrow> int" where
  "load_i32 m a = sint (load32 m a)"

definition bytes32 :: "u32 \<Rightarrow> byte list" where
  "bytes32 w = [ucast w, ucast (drop_bit 8 w), ucast (drop_bit 16 w), ucast (drop_bit 24 w)]"

lemma length_bytes32 [simp]: "length (bytes32 w) = 4"
  by (simp add: bytes32_def)

text \<open>Four bytes and the word they encode determine each other.\<close>

lemma load32_bytes32:
  assumes "load_bytes m a 4 = bytes32 w"
  shows "load32 m a = w"
proof -
  have nth: "m (a + i) = bytes32 w ! i" if "i < 4" for i
    using that assms by (metis nth_load_bytes)
  have "m a = ucast w" "m (a + 1) = ucast (drop_bit 8 w)"
    "m (a + 2) = ucast (drop_bit 16 w)" "m (a + 3) = ucast (drop_bit 24 w)"
    using nth [of 0] nth [of 1] nth [of 2] nth [of 3]
    by (simp_all add: bytes32_def numeral_2_eq_2 numeral_3_eq_3)
  note bytes = this
  show ?thesis
  proof (rule bit_word_eqI)
    fix n assume "n < LENGTH(32)"
    then consider "n < 8" | "8 \<le> n" "n < 16" | "16 \<le> n" "n < 24" | "24 \<le> n" "n < 32"
      by fastforce
    then show "bit (load32 m a) n = bit w n"
      by cases (auto simp add: load32_def bytes [simplified] bit_simps)
  qed
qed

lemma load32_store_bytes32: "load32 (store_bytes a (bytes32 w) m) a = w"
proof (rule load32_bytes32)
  show "load_bytes (store_bytes a (bytes32 w) m) a 4 = bytes32 w"
    using load_store_same [of a "bytes32 w" m] by simp
qed

section \<open>Loops\<close>

text \<open>The rule for a counting loop: an invariant indexed by the number of iterations done.\<close>

lemma fold_upt_inv:
  assumes "P 0 s"
    and "\<And>i s. i < n \<Longrightarrow> P i s \<Longrightarrow> P (Suc i) (f i s)"
  shows "P n (fold f [0..<n] s)"
  using assms by (induction n) auto

lemma fold_upt_from_inv:
  assumes "a \<le> b" "P a s"
    and "\<And>i s. a \<le> i \<Longrightarrow> i < b \<Longrightarrow> P i s \<Longrightarrow> P (Suc i) (f i s)"
  shows "P b (fold f [a..<b] s)"
  using assms
proof (induction b)
  case 0
  then show ?case by simp
next
  case (Suc b)
  show ?case
  proof (cases "a = Suc b")
    case True
    with Suc.prems show ?thesis by simp
  next
    case False
    with Suc.prems(1) have "a \<le> b" by simp
    with Suc have "P b (fold f [a..<b] s)" by simp
    with Suc.prems(3) \<open>a \<le> b\<close> show ?thesis by simp
  qed
qed

text \<open>A loop that assigns one array element per iteration.\<close>

lemma fold_upt_fun_upd:
  "fold (\<lambda>i g. g(i := h i)) [0..<n] g = (\<lambda>i. if i < n then h i else g i)"
  by (induction n) (auto simp: fun_eq_iff)

end
