(* ===== verification/Ports.thy ===== *)
theory Ports
  imports Prelude
begin

text \<open>
  Port input and output (lib.h), the 8259 interrupt controllers (i8259.c) and the programming of
  the interval timer (pit.c, \<open>pit_init\<close>).

  The hardware behind the ports is not part of the repository, so it is a parameter: a device
  \<open>dev\<close> gives the byte a port returns as a function of everything that was done on the ports
  before.  The state records those accesses in order (\<open>io_log\<close>), which is also what the
  properties of write-only registers speak about.  \<open>iflag\<close> is the processor's interrupt flag,
  which \<open>cli\<close> clears and \<open>sti\<close> sets.
\<close>

section \<open>Ports and the interrupt flag\<close>

datatype io = Out u16 byte | In u16 byte

type_synonym device = "io list \<Rightarrow> u16 \<Rightarrow> byte"

record io_state =
  io_log :: "io list"
  iflag :: bool

definition outb :: "byte \<Rightarrow> u16 \<Rightarrow> 'a io_state_scheme \<Rightarrow> 'a io_state_scheme" where
  "outb data port s = s\<lparr>io_log := io_log s @ [Out port data]\<rparr>"

definition inb :: "device \<Rightarrow> u16 \<Rightarrow> 'a io_state_scheme \<Rightarrow> byte \<times> 'a io_state_scheme" where
  "inb dev port s = (dev (io_log s) port, s\<lparr>io_log := io_log s @ [In port (dev (io_log s) port)]\<rparr>)"

definition cli :: "'a io_state_scheme \<Rightarrow> 'a io_state_scheme" where
  "cli s = s\<lparr>iflag := False\<rparr>"

definition sti :: "'a io_state_scheme \<Rightarrow> 'a io_state_scheme" where
  "sti s = s\<lparr>iflag := True\<rparr>"

lemma inb_simps [simp]:
  "fst (inb dev port s) = dev (io_log s) port"
  "io_log (snd (inb dev port s)) = io_log s @ [In port (dev (io_log s) port)]"
  by (simp_all add: inb_def)

lemma outb_log [simp]: "io_log (outb data port s) = io_log s @ [Out port data]"
  by (simp add: outb_def)

lemma iflag_simps [simp]:
  "iflag (cli s) = False" "iflag (sti s) = True"
  "iflag (outb data port s) = iflag s" "iflag (snd (inb dev port s)) = iflag s"
  "io_log (cli s) = io_log s" "io_log (sti s) = io_log s"
  by (simp_all add: cli_def sti_def outb_def inb_def)

section \<open>The 8259 interrupt controllers\<close>

record pic_state = io_state +
  master_mask :: byte
  slave_mask :: byte

abbreviation MASTER_8259_PORT :: u16 where "MASTER_8259_PORT \<equiv> 0x20"
abbreviation SLAVE_8259_PORT :: u16 where "SLAVE_8259_PORT \<equiv> 0xA0"

definition i8259_init :: "device \<Rightarrow> 'a pic_state_scheme \<Rightarrow> 'a pic_state_scheme" where
  "i8259_init dev s =
     (let (m, s) = inb dev (MASTER_8259_PORT + 1) s;
          s = s\<lparr>master_mask := m\<rparr>;
          (v, s) = inb dev (SLAVE_8259_PORT + 1) s;
          s = s\<lparr>slave_mask := v\<rparr>;
          s = outb 0xFF (MASTER_8259_PORT + 1) s;
          s = outb 0xFF (SLAVE_8259_PORT + 1) s;
          s = outb 0x11 MASTER_8259_PORT s;
          s = outb 0x20 (MASTER_8259_PORT + 1) s;
          s = outb 0x04 (MASTER_8259_PORT + 1) s;
          s = outb 0x01 (MASTER_8259_PORT + 1) s;
          s = outb 0x11 SLAVE_8259_PORT s;
          s = outb 0x28 (SLAVE_8259_PORT + 1) s;
          s = outb 0x02 (SLAVE_8259_PORT + 1) s;
          s = outb 0x01 (SLAVE_8259_PORT + 1) s;
          s = outb (master_mask s) (MASTER_8259_PORT + 1) s;
          s = outb (slave_mask s) (SLAVE_8259_PORT + 1) s
      in s)"

text \<open>
  The data port of the controller an IRQ line belongs to, and the line's number there.  The test
  \<open>irq_num < 0\<close> of the code is never true for a \<open>uint32_t\<close>.
\<close>

definition irq_port :: "u32 \<Rightarrow> u16 \<times> nat" where
  "irq_port irq_num =
     (if irq_num < 8 then (MASTER_8259_PORT + 1, unat irq_num)
      else (SLAVE_8259_PORT + 1, unat (irq_num - 8)))"

definition enable_irq :: "device \<Rightarrow> u32 \<Rightarrow> 'a pic_state_scheme \<Rightarrow> 'a pic_state_scheme" where
  "enable_irq dev irq_num s =
     (if irq_num > 15 then s
      else let (port, n) = irq_port irq_num;
               (v, s) = inb dev port s
           in outb (v AND NOT (push_bit n 1)) port s)"

definition disable_irq :: "device \<Rightarrow> u32 \<Rightarrow> 'a pic_state_scheme \<Rightarrow> 'a pic_state_scheme" where
  "disable_irq dev irq_num s =
     (if irq_num > 15 then s
      else let (port, n) = irq_port irq_num;
               (v, s) = inb dev port s
           in outb (v OR push_bit n 1) port s)"

definition send_eoi :: "u32 \<Rightarrow> 'a pic_state_scheme \<Rightarrow> 'a pic_state_scheme" where
  "send_eoi irq_num s =
     (if irq_num > 15 then s
      else let s = (if irq_num \<ge> 8 then outb 0x20 SLAVE_8259_PORT s else s)
           in outb 0x20 MASTER_8259_PORT s)"

section \<open>The interval timer\<close>

text \<open>
  \<open>divisor\<close> is 1193180 / 100.  The command byte 0x36 goes to port 0x46, as the constants of pit.c
  say; both halves of the divisor go to port 0x40.
\<close>

definition pit_divisor :: nat where
  "pit_divisor = 1193180 div 100"

definition pit_init :: "device \<Rightarrow> 'a pic_state_scheme \<Rightarrow> 'a pic_state_scheme" where
  "pit_init dev s =
     (let s = outb 0x36 0x46 s;
          s = outb (word_of_nat pit_divisor AND 0xFF) 0x40 s;
          s = outb (word_of_nat (pit_divisor div 256)) 0x40 s
      in enable_irq dev 0 s)"

section \<open>Interrupt masks\<close>

text \<open>
  What the code relies on of an initialised 8259: reading a data port returns the mask that was
  last written to it.  \<open>last_out\<close> is the last byte a list of accesses writes to a port.
\<close>

fun last_out :: "u16 \<Rightarrow> io list \<Rightarrow> byte option" where
  "last_out p [] = None"
| "last_out p (x # xs) =
     (case last_out p xs of
        Some v \<Rightarrow> Some v
      | None \<Rightarrow> (case x of Out q v \<Rightarrow> if q = p then Some v else None | In q v \<Rightarrow> None))"

lemma last_out_append:
  "last_out p (xs @ ys) = (case last_out p ys of Some v \<Rightarrow> Some v | None \<Rightarrow> last_out p xs)"
  by (induction xs) (auto split: option.splits)

definition mask_ports :: "u16 set" where
  "mask_ports = {0x21, 0xA1}"

definition masks_readable :: "device \<Rightarrow> io list \<Rightarrow> bool" where
  "masks_readable dev log \<longleftrightarrow>
     (\<forall>p \<in> mask_ports. \<forall>l. dev (log @ l) p = (case last_out p l of Some v \<Rightarrow> v | None \<Rightarrow> dev log p))"

text \<open>An IRQ line is masked when its bit in its controller's mask is set.\<close>

definition irq_masked :: "device \<Rightarrow> nat \<Rightarrow> 'a io_state_scheme \<Rightarrow> bool" where
  "irq_masked dev irq s =
     (if irq < 8 then bit (dev (io_log s) 0x21) irq else bit (dev (io_log s) 0xA1) (irq - 8))"

lemma masks_readable_append: "masks_readable dev log \<Longrightarrow> masks_readable dev (log @ l)"
  unfolding masks_readable_def by (auto simp: last_out_append split: option.splits)

lemma masks_readable_out:
  "masks_readable dev log \<Longrightarrow> p \<in> mask_ports \<Longrightarrow>
     dev (log @ [In q v, Out r w]) p = (if r = p then w else dev log p)"
  by (auto simp: masks_readable_def)

lemma irq_port_nat:
  "irq < 16 \<Longrightarrow> irq_port (word_of_nat irq) = (if irq < 8 then (0x21, irq) else (0xA1, irq - 8))"
  by (auto simp: irq_port_def word_less_nat_alt unat_of_nat unat_sub word_le_nat_alt)

lemma irq_in_range: "irq < 16 \<Longrightarrow> \<not> (15 :: u32) < word_of_nat irq"
  by (simp add: word_less_nat_alt unat_of_nat)

lemma enable_irq_log:
  assumes "irq < 16"
  shows "\<exists>p v. io_log (enable_irq dev (word_of_nat irq) s) =
    io_log s @ [In p v, Out p (v AND NOT (push_bit (irq mod 8) 1))]
    \<and> p = (if irq < 8 then 0x21 else 0xA1) \<and> v = dev (io_log s) p"
  using assms
  by (auto simp: enable_irq_def irq_in_range irq_port_nat Let_def split_beta mod_if)

lemma disable_irq_log:
  assumes "irq < 16"
  shows "\<exists>p v. io_log (disable_irq dev (word_of_nat irq) s) =
    io_log s @ [In p v, Out p (v OR push_bit (irq mod 8) 1)]
    \<and> p = (if irq < 8 then 0x21 else 0xA1) \<and> v = dev (io_log s) p"
  using assms
  by (auto simp: disable_irq_def irq_in_range irq_port_nat Let_def split_beta mod_if)

lemma enable_irq_masked:
  assumes "masks_readable dev (io_log s)" "irq < 16" "j < 16"
  shows "irq_masked dev j (enable_irq dev (word_of_nat irq) s) \<longleftrightarrow> j \<noteq> irq \<and> irq_masked dev j s"
proof -
  from enable_irq_log [OF assms(2), of dev s] obtain p v where
    log: "io_log (enable_irq dev (word_of_nat irq) s) =
      io_log s @ [In p v, Out p (v AND NOT (push_bit (irq mod 8) 1))]"
    and p: "p = (if irq < 8 then 0x21 else 0xA1)" and v: "v = dev (io_log s) p" by blast
  show ?thesis
    using assms p v
    by (auto simp: irq_masked_def log masks_readable_out mask_ports_def bit_simps mod_if)
qed

lemma disable_irq_masked:
  assumes "masks_readable dev (io_log s)" "irq < 16" "j < 16"
  shows "irq_masked dev j (disable_irq dev (word_of_nat irq) s) \<longleftrightarrow> j = irq \<or> irq_masked dev j s"
proof -
  from disable_irq_log [OF assms(2), of dev s] obtain p v where
    log: "io_log (disable_irq dev (word_of_nat irq) s) =
      io_log s @ [In p v, Out p (v OR push_bit (irq mod 8) 1)]"
    and p: "p = (if irq < 8 then 0x21 else 0xA1)" and v: "v = dev (io_log s) p" by blast
  show ?thesis
    using assms p v
    by (auto simp: irq_masked_def log masks_readable_out mask_ports_def bit_simps mod_if)
qed

lemma enable_irq_readable:
  "masks_readable dev (io_log s) \<Longrightarrow> irq < 16 \<Longrightarrow>
     masks_readable dev (io_log (enable_irq dev (word_of_nat irq) s))"
  using enable_irq_log [of irq dev s] by (auto intro: masks_readable_append)

lemma disable_irq_readable:
  "masks_readable dev (io_log s) \<Longrightarrow> irq < 16 \<Longrightarrow>
     masks_readable dev (io_log (disable_irq dev (word_of_nat irq) s))"
  using disable_irq_log [of irq dev s] by (auto intro: masks_readable_append)

section \<open>The interface of an interrupt controller\<close>

locale irq_controller =
  fixes masked :: "'s \<Rightarrow> nat \<Rightarrow> bool"
    and enable disable :: "nat \<Rightarrow> 's \<Rightarrow> 's"
    and ready :: "'s \<Rightarrow> bool"
  assumes masked_enable:
      "ready s \<Longrightarrow> i < 16 \<Longrightarrow> j < 16 \<Longrightarrow> masked (enable i s) j \<longleftrightarrow> j \<noteq> i \<and> masked s j"
    and masked_disable:
      "ready s \<Longrightarrow> i < 16 \<Longrightarrow> j < 16 \<Longrightarrow> masked (disable i s) j \<longleftrightarrow> j = i \<or> masked s j"
    and ready_enable: "ready s \<Longrightarrow> i < 16 \<Longrightarrow> ready (enable i s)"
    and ready_disable: "ready s \<Longrightarrow> i < 16 \<Longrightarrow> ready (disable i s)"
begin

lemma disable_list:
  assumes "ready s" "set xs \<subseteq> {..<16}"
  shows "ready (fold disable xs s) \<and>
    (\<forall>j < 16. masked (fold disable xs s) j \<longleftrightarrow> j \<in> set xs \<or> masked s j)"
  using assms by (induction xs arbitrary: s) (auto simp: masked_disable ready_disable)

lemma enable_list:
  assumes "ready s" "set xs \<subseteq> {..<16}"
  shows "ready (fold enable xs s) \<and>
    (\<forall>j < 16. masked (fold enable xs s) j \<longleftrightarrow> j \<notin> set xs \<and> masked s j)"
  using assms by (induction xs arbitrary: s) (auto simp: masked_enable ready_enable)

text \<open>Masking every line and then unmasking some leaves exactly the others masked.\<close>

lemma only_enabled:
  assumes "ready s" "set ys \<subseteq> {..<16}"
  shows "\<forall>j < 16. masked (fold enable ys (fold disable [0..<16] s)) j \<longleftrightarrow> j \<notin> set ys"
proof -
  have "ready (fold disable [0..<16] s) \<and> (\<forall>j < 16. masked (fold disable [0..<16] s) j)"
    using disable_list [OF assms(1), of "[0..<16]"] by (simp add: atLeast0LessThan)
  with enable_list [OF _ assms(2), of "fold disable [0..<16] s"] show ?thesis by simp
qed

end

text \<open>The controllers of the code, behind a device whose masks can be read back.\<close>

interpretation pic: irq_controller
  "\<lambda>(dev, s). \<lambda>j. irq_masked dev j (s :: 'a pic_state_scheme)"
  "\<lambda>i (dev, s). (dev, enable_irq dev (word_of_nat i) s)"
  "\<lambda>i (dev, s). (dev, disable_irq dev (word_of_nat i) s)"
  "\<lambda>(dev, s). masks_readable dev (io_log s)"
  by unfold_locales
    (auto simp: enable_irq_masked disable_irq_masked enable_irq_readable disable_irq_readable)

text \<open>Loops over the lines, carried through the pair that the interpretation works on.\<close>

lemma fold_pic_pair:
  "fold (\<lambda>i (dev, s). (dev, f dev i s)) xs (dev, s) = (dev, fold (f dev) xs s)"
  by (induction xs arbitrary: s) simp_all

lemma disable_loop:
  assumes "masks_readable dev (io_log (s :: 'a pic_state_scheme))" "set xs \<subseteq> {..<16}"
  shows "masks_readable dev (io_log (fold (\<lambda>i. disable_irq dev (word_of_nat i)) xs s)) \<and>
    (\<forall>j < 16. irq_masked dev j (fold (\<lambda>i. disable_irq dev (word_of_nat i)) xs s) \<longleftrightarrow>
      j \<in> set xs \<or> irq_masked dev j s)"
  using pic.disable_list [of "(dev, s)" xs] assms
  by (simp add: fold_pic_pair [where f = "\<lambda>dev i. disable_irq dev (word_of_nat i)"])

lemma irq_masked_other_ports:
  assumes "masks_readable dev (io_log s)" "io_log s' = io_log s @ l" "\<forall>p \<in> mask_ports. last_out p l = None"
  shows "masks_readable dev (io_log s') \<and> (irq_masked dev j s' \<longleftrightarrow> irq_masked dev j s)"
proof -
  have "dev (io_log s') p = dev (io_log s) p" if "p \<in> mask_ports" for p
    using assms that by (simp add: masks_readable_def)
  then show ?thesis
    using assms masks_readable_append [of dev "io_log s" l] by (auto simp: irq_masked_def mask_ports_def)
qed

end
