(* ===== verification/CLib.thy ===== *)
theory CLib
  imports Prelude
begin

text \<open>
  The string routines of student-distrib/lib.c: strlen, strncmp, strcpy, strncpy, strrev and itoa.

  Strings are pointer views (\<open>carray\<close>).  A routine whose loop only ends at a NUL byte returns
  an \<open>option\<close>: \<open>None\<close> when the loop does not end (or, for itoa, when the division traps).
\<close>

section \<open>Strings\<close>

partial_function (option) strlen_from :: "carray \<Rightarrow> nat \<Rightarrow> nat option" where
  "strlen_from s len = (if s len \<noteq> NUL then strlen_from s (Suc len) else Some len)"

definition strlen :: "carray \<Rightarrow> nat option" where
  "strlen s = strlen_from s 0"

text \<open>\<open>int8_t\<close> is a signed char here, so the difference of two characters is signed.\<close>

function strncmp_from :: "carray \<Rightarrow> carray \<Rightarrow> nat \<Rightarrow> nat \<Rightarrow> int" where
  "strncmp_from s1 s2 n i =
     (if i < n
      then if s1 i \<noteq> s2 i \<or> s1 i = NUL then sint (s1 i) - sint (s2 i)
           else strncmp_from s1 s2 n (Suc i)
      else 0)"
  by pat_completeness auto
termination
  by (relation "measure (\<lambda>(s1, s2, n, i). n - i)") auto

definition strncmp :: "carray \<Rightarrow> carray \<Rightarrow> nat \<Rightarrow> int" where
  "strncmp s1 s2 n = strncmp_from s1 s2 n 0"

partial_function (option) strcpy_from :: "carray \<Rightarrow> carray \<Rightarrow> nat \<Rightarrow> carray option" where
  "strcpy_from dest src i =
     (if src i \<noteq> NUL then strcpy_from (dest(i := src i)) src (Suc i)
      else Some (dest(i := NUL)))"

definition strcpy :: "carray \<Rightarrow> carray \<Rightarrow> carray option" where
  "strcpy dest src = strcpy_from dest src 0"

text \<open>The second loop of strncpy: NUL bytes up to index \<open>n\<close>.\<close>

function strncpy_pad :: "carray \<Rightarrow> nat \<Rightarrow> nat \<Rightarrow> carray" where
  "strncpy_pad dest n i = (if i < n then strncpy_pad (dest(i := NUL)) n (Suc i) else dest)"
  by pat_completeness auto
termination
  by (relation "measure (\<lambda>(dest, n, i). n - i)") auto

function strncpy_copy :: "carray \<Rightarrow> carray \<Rightarrow> nat \<Rightarrow> nat \<Rightarrow> carray" where
  "strncpy_copy dest src n i =
     (if src i \<noteq> NUL \<and> i < n then strncpy_copy (dest(i := src i)) src n (Suc i)
      else strncpy_pad dest n i)"
  by pat_completeness auto
termination
  by (relation "measure (\<lambda>(dest, src, n, i). n - i)") auto

definition strncpy :: "carray \<Rightarrow> carray \<Rightarrow> nat \<Rightarrow> carray" where
  "strncpy dest src n = strncpy_copy dest src n 0"

text \<open>\<open>end\<close> starts at \<open>strlen(s) - 1\<close>, which is -1 for the empty string: an \<open>int\<close>.\<close>

function strrev_loop :: "carray \<Rightarrow> int \<Rightarrow> int \<Rightarrow> carray" where
  "strrev_loop s b e =
     (if b < e
      then strrev_loop (s(nat e := s (nat b), nat b := s (nat e))) (b + 1) (e - 1)
      else s)"
  by pat_completeness auto
termination
  by (relation "measure (\<lambda>(s, b, e). nat (e - b))") auto

definition strrev :: "carray \<Rightarrow> carray option" where
  "strrev s = do { n \<leftarrow> strlen s; Some (strrev_loop s 0 (int n - 1)) }"

declare strncmp_from.simps [simp del] strncpy_pad.simps [simp del]
  strncpy_copy.simps [simp del] strrev_loop.simps [simp del]

definition itoa_lookup :: "byte list" where
  "itoa_lookup = bytes_of ''0123456789ABCDEFGHIJKLMNOPQRSTUVWXYZ'' @ [NUL]"

text \<open>The digits, lowest place first: the buffer and the index of \<open>newbuf\<close> after the loop.\<close>

partial_function (option) itoa_digits :: "carray \<Rightarrow> nat \<Rightarrow> nat \<Rightarrow> nat \<Rightarrow> (carray \<times> nat) option" where
  "itoa_digits buf k newval radix =
     (if newval > 0
      then itoa_digits (buf(k := itoa_lookup ! (newval mod radix))) (Suc k) (newval div radix) radix
      else Some (buf, k))"

text \<open>\<open>newval % radix\<close> converts the radix to unsigned; a radix of 0 is a divide error.\<close>

definition itoa :: "u32 \<Rightarrow> carray \<Rightarrow> int \<Rightarrow> carray option" where
  "itoa value buf radix =
     (let r = unat (word_of_int radix :: u32) in
      if value = 0 then Some (buf(0 := of_char CHR ''0'', 1 := NUL))
      else if r = 0 then None
      else do {
        (buf, k) \<leftarrow> itoa_digits buf 0 (unat value) r;
        strrev (buf(k := NUL))
      })"

text \<open>The string a pointer view holds: the bytes before its first NUL.\<close>

definition cstr :: "carray \<Rightarrow> byte list option" where
  "cstr s = map_option (\<lambda>n. map s [0..<n]) (strlen s)"

subsection \<open>strlen\<close>

lemma strlen_from_Some:
  assumes "i \<le> n" "\<And>j. i \<le> j \<Longrightarrow> j < n \<Longrightarrow> s j \<noteq> NUL" "s n = NUL"
  shows "strlen_from s i = Some n"
  using assms
proof (induction "n - i" arbitrary: i)
  case 0
  then show ?case by (simp add: strlen_from.simps)
next
  case (Suc k)
  then have "s i \<noteq> NUL" by simp
  moreover have "strlen_from s (Suc i) = Some n"
    using Suc.hyps(2) Suc.prems by (intro Suc.hyps(1)) auto
  ultimately show ?case by (simp add: strlen_from.simps [of s i])
qed

lemma strlen_from_SomeD:
  assumes "strlen_from s i = Some n"
  shows "i \<le> n \<and> s n = NUL \<and> (\<forall>j. i \<le> j \<and> j < n \<longrightarrow> s j \<noteq> NUL)"
proof (rule strlen_from.raw_induct
    [where P = "\<lambda>s i n. i \<le> n \<and> s n = NUL \<and> (\<forall>j. i \<le> j \<and> j < n \<longrightarrow> s j \<noteq> NUL)", OF _ assms])
  fix f and s :: carray and i n
  assume IH: "\<And>s i n. f s i = Some n \<Longrightarrow> i \<le> n \<and> s n = NUL \<and> (\<forall>j. i \<le> j \<and> j < n \<longrightarrow> s j \<noteq> NUL)"
    and eq: "(if s i \<noteq> NUL then f s (Suc i) else Some i) = Some n"
  show "i \<le> n \<and> s n = NUL \<and> (\<forall>j. i \<le> j \<and> j < n \<longrightarrow> s j \<noteq> NUL)"
    using eq IH [of s "Suc i" n] by (auto split: if_splits) (metis le_antisym not_less_eq_eq)
qed

lemma strlen_eq_Some:
  "strlen s = Some n \<longleftrightarrow> s n = NUL \<and> (\<forall>j < n. s j \<noteq> NUL)"
  unfolding strlen_def
  using strlen_from_Some [of 0 n s] strlen_from_SomeD [of s 0 n] by auto

lemma strlen_Some_iff: "(\<exists>n. strlen s = Some n) \<longleftrightarrow> (\<exists>i. s i = NUL)"
proof
  assume "\<exists>i. s i = NUL"
  then have "s (LEAST i. s i = NUL) = NUL" by (rule LeastI_ex)
  moreover have "\<forall>j < (LEAST i. s i = NUL). s j \<noteq> NUL" using not_less_Least by blast
  ultimately show "\<exists>n. strlen s = Some n" unfolding strlen_eq_Some by blast
qed (auto simp: strlen_eq_Some)

lemma strlen_arr_of: "NUL \<notin> set bs \<Longrightarrow> strlen (arr_of bs) = Some (length bs)"
  by (auto simp: strlen_eq_Some arr_of_def dest: nth_mem)

lemma cstr_arr_of: "NUL \<notin> set bs \<Longrightarrow> cstr (arr_of bs) = Some bs"
  by (auto simp: cstr_def strlen_arr_of intro!: nth_equalityI)

lemma cstr_eq_Some:
  "cstr s = Some bs \<longleftrightarrow> strlen s = Some (length bs) \<and> (\<forall>i < length bs. s i = bs ! i)"
  by (auto simp: cstr_def list_eq_iff_nth_eq)


subsection \<open>strncmp\<close>

text \<open>
  What strncmp decides: within \<open>n\<close> bytes the strings agree, or they agree up to and including
  a common NUL.
\<close>

definition str_eq_upto :: "carray \<Rightarrow> carray \<Rightarrow> nat \<Rightarrow> bool" where
  "str_eq_upto s1 s2 n \<longleftrightarrow> (\<forall>i < n. s1 i = s2 i \<or> (\<exists>j < i. s1 j = NUL \<and> s2 j = NUL))"

lemma strncmp_from_skip:
  assumes "i \<le> k" "k \<le> n" "\<And>j. i \<le> j \<Longrightarrow> j < k \<Longrightarrow> s1 j = s2 j \<and> s1 j \<noteq> NUL"
  shows "strncmp_from s1 s2 n i = strncmp_from s1 s2 n k"
  using assms
proof (induction "k - i" arbitrary: i)
  case 0
  then show ?case by simp
next
  case (Suc d)
  then have "i < k" by simp
  with Suc.prems(2) Suc.prems(3) [of i] have "s1 i = s2 i" "s1 i \<noteq> NUL" "i < n" by auto
  then have "strncmp_from s1 s2 n i = strncmp_from s1 s2 n (Suc i)"
    by (simp add: strncmp_from.simps [of s1 s2 n i])
  also have "\<dots> = strncmp_from s1 s2 n k"
  proof (rule Suc.hyps(1))
    show "d = k - Suc i" "Suc i \<le> k" using Suc.hyps(2) \<open>i < k\<close> by auto
    show "s1 j = s2 j \<and> s1 j \<noteq> NUL" if "Suc i \<le> j" "j < k" for j
      using Suc.prems(3) [of j] that by (meson Suc_leD)
  qed (rule Suc.prems(2))
  finally show ?case .
qed

lemma strncmp_agree:
  "\<forall>i < n. s1 i = s2 i \<and> s1 i \<noteq> NUL \<Longrightarrow> strncmp s1 s2 n = 0"
  unfolding strncmp_def
  by (subst strncmp_from_skip [of 0 n]) (auto simp: strncmp_from.simps [of s1 s2 n n])

lemma strncmp_at:
  assumes "k < n" "\<forall>i < k. s1 i = s2 i \<and> s1 i \<noteq> NUL" "s1 k \<noteq> s2 k \<or> s1 k = NUL"
  shows "strncmp s1 s2 n = sint (s1 k) - sint (s2 k)"
  unfolding strncmp_def using assms
  by (subst strncmp_from_skip [of 0 k]) (auto simp: strncmp_from.simps [of s1 s2 n k])

text \<open>Either the two strings agree on all \<open>n\<close> bytes without a NUL, or there is a first stop.\<close>

lemma strncmp_cases:
  fixes s1 s2 :: carray
  obtains (agree) "\<forall>i < n. s1 i = s2 i \<and> s1 i \<noteq> NUL"
  | (stop) k where "k < n" "\<forall>i < k. s1 i = s2 i \<and> s1 i \<noteq> NUL" "s1 k \<noteq> s2 k \<or> s1 k = NUL"
proof (cases "\<forall>i < n. s1 i = s2 i \<and> s1 i \<noteq> NUL")
  case True
  then show ?thesis by (rule agree)
next
  case False
  let ?Q = "\<lambda>k :: nat. k < n \<and> (s1 k \<noteq> s2 k \<or> s1 k = NUL)"
  from False have "\<exists>k. ?Q k" by blast
  then have "?Q (LEAST k. ?Q k)" by (rule LeastI_ex [where P = ?Q])
  moreover have "\<forall>i < (LEAST k. ?Q k). s1 i = s2 i \<and> s1 i \<noteq> NUL"
    using calculation not_less_Least [where P = ?Q] by (meson less_trans)
  ultimately show ?thesis using stop by blast
qed

lemma sint_byte_diff_eq_0: "sint (a :: byte) - sint b = 0 \<longleftrightarrow> a = b"
  using signed_word_eqI [of a b] by auto

lemma strncmp_eq_0_iff: "strncmp s1 s2 n = 0 \<longleftrightarrow> str_eq_upto s1 s2 n"
proof (cases rule: strncmp_cases [of n s1 s2])
  case agree
  then have "strncmp s1 s2 n = 0" by (rule strncmp_agree)
  with agree show ?thesis by (simp add: str_eq_upto_def)
next
  case (stop k)
  then have "strncmp s1 s2 n = 0 \<longleftrightarrow> s1 k = s2 k"
    using strncmp_at [OF stop] sint_byte_diff_eq_0 [of "s1 k" "s2 k"] by simp
  also have "\<dots> \<longleftrightarrow> str_eq_upto s1 s2 n"
  proof
    assume "s1 k = s2 k"
    with stop show "str_eq_upto s1 s2 n"
      unfolding str_eq_upto_def by (metis linorder_neqE_nat)
  next
    assume "str_eq_upto s1 s2 n"
    with stop show "s1 k = s2 k" unfolding str_eq_upto_def by blast
  qed
  finally show ?thesis .
qed

subsection \<open>strcpy and strncpy\<close>

lemma strcpy_from_correct:
  assumes "i \<le> n" "\<And>j. i \<le> j \<Longrightarrow> j < n \<Longrightarrow> src j \<noteq> NUL" "src n = NUL"
  shows "strcpy_from dest src i = Some (\<lambda>j. if i \<le> j \<and> j \<le> n then src j else dest j)"
  using assms
proof (induction "n - i" arbitrary: i dest)
  case 0
  then show ?case by (auto simp: strcpy_from.simps fun_eq_iff)
next
  case (Suc k)
  then have ne: "src i \<noteq> NUL" by simp
  have "strcpy_from dest src i = strcpy_from (dest(i := src i)) src (Suc i)"
    using ne by (subst strcpy_from.simps) simp
  also have "\<dots>
      = Some (\<lambda>j. if Suc i \<le> j \<and> j \<le> n then src j else (dest(i := src i)) j)"
    using Suc.hyps(2) Suc.prems by (intro Suc.hyps(1)) auto
  also have "(\<lambda>j. if Suc i \<le> j \<and> j \<le> n then src j else (dest(i := src i)) j)
      = (\<lambda>j. if i \<le> j \<and> j \<le> n then src j else dest j)"
    using Suc.hyps(2) by (auto simp: fun_eq_iff Suc_le_eq)
  finally show ?case .
qed

lemma strcpy_correct:
  "strlen src = Some n \<Longrightarrow> strcpy dest src = Some (\<lambda>j. if j \<le> n then src j else dest j)"
  unfolding strcpy_def strlen_eq_Some using strcpy_from_correct [of 0 n src dest] by auto

lemma strncpy_pad_eq:
  "strncpy_pad dest n i = (\<lambda>j. if i \<le> j \<and> j < n then NUL else dest j)"
proof (induction dest n i rule: strncpy_pad.induct)
  case (1 dest n i)
  show ?case
  proof (cases "i < n")
    case True
    then have "strncpy_pad dest n i = strncpy_pad (dest(i := NUL)) n (Suc i)"
      by (subst strncpy_pad.simps) simp
    also note 1 [OF True]
    finally show ?thesis using True by (auto simp: fun_eq_iff Suc_le_eq)
  next
    case False
    then show ?thesis by (subst strncpy_pad.simps) (auto simp: fun_eq_iff)
  qed
qed

text \<open>
  A byte of the copy is the source byte while no NUL has been met, then NUL; beyond \<open>n\<close> nothing
  is written.
\<close>

lemma strncpy_copy_eq:
  "strncpy_copy dest src n i =
     (\<lambda>j. if i \<le> j \<and> j < n then (if \<exists>k. i \<le> k \<and> k \<le> j \<and> src k = NUL then NUL else src j)
          else dest j)"
proof (induction dest src n i rule: strncpy_copy.induct)
  case (1 dest src n i)
  show ?case
  proof (cases "src i \<noteq> NUL \<and> i < n")
    case True
    have "(\<exists>k. Suc i \<le> k \<and> k \<le> j \<and> src k = NUL) \<longleftrightarrow> (\<exists>k. i \<le> k \<and> k \<le> j \<and> src k = NUL)" for j
      using True by (metis Suc_leD le_antisym not_less_eq_eq)
    note first = this
    from True have "strncpy_copy dest src n i = strncpy_copy (dest(i := src i)) src n (Suc i)"
      by (subst strncpy_copy.simps) simp
    also note 1 [OF True]
    finally show ?thesis using True first by (auto simp: fun_eq_iff Suc_le_eq)
  next
    case False
    then show ?thesis
      by (subst strncpy_copy.simps) (auto simp: strncpy_pad_eq fun_eq_iff)
  qed
qed

lemma strncpy_eq:
  "strncpy dest src n =
     (\<lambda>j. if j < n then (if \<exists>k \<le> j. src k = NUL then NUL else src j) else dest j)"
  unfolding strncpy_def strncpy_copy_eq by (auto simp: fun_eq_iff)

subsection \<open>strrev\<close>

text \<open>
  The swapping loop on the segment from \<open>b\<close> to \<open>e\<close> mirrors the segment and touches nothing
  else.
\<close>

lemma strrev_loop_eq:
  "0 \<le> b \<Longrightarrow> strrev_loop s b e =
     (\<lambda>i. if b \<le> int i \<and> int i \<le> e then s (nat (b + e - int i)) else s i)"
proof (induction s b e rule: strrev_loop.induct)
  case (1 s b e)
  show ?case
  proof (cases "b < e")
    case True
    let ?s = "s(nat e := s (nat b), nat b := s (nat e))"
    from True have "strrev_loop s b e = strrev_loop ?s (b + 1) (e - 1)"
      by (subst strrev_loop.simps) simp
    also have "\<dots> = (\<lambda>i. if b + 1 \<le> int i \<and> int i \<le> e - 1
        then ?s (nat (b + 1 + (e - 1) - int i)) else ?s i)"
      using "1.prems" by (intro "1.IH" True) simp
    also have "\<dots> = (\<lambda>i. if b \<le> int i \<and> int i \<le> e then s (nat (b + e - int i)) else s i)"
      using True "1.prems" by (auto simp: fun_eq_iff nat_eq_iff) 
    finally show ?thesis .
  next
    case False
    then have "strrev_loop s b e = s" by (subst strrev_loop.simps) simp
    moreover have "nat (b + e - int i) = i" if "b \<le> int i" "int i \<le> e" for i
      using False that by simp
    ultimately show ?thesis by (auto simp: fun_eq_iff)
  qed
qed

lemma strrev_eq:
  "strlen s = Some n \<Longrightarrow> strrev s = Some (\<lambda>i. if i < n then s (n - 1 - i) else s i)"
  by (auto simp: strrev_def strrev_loop_eq fun_eq_iff nat_diff_distrib intro!: arg_cong [of _ _ s])

lemma strrev_cstr:
  assumes "cstr s = Some bs"
  shows "\<exists>s'. strrev s = Some s' \<and> cstr s' = Some (rev bs) \<and> (\<forall>i \<ge> length bs. s' i = s i)"
proof -
  from assms have len: "strlen s = Some (length bs)" and nth: "\<forall>i < length bs. s i = bs ! i"
    by (simp_all add: cstr_eq_Some)
  define s' where "s' = (\<lambda>i. if i < length bs then s (length bs - 1 - i) else s i)"
  have "\<forall>i < length bs. bs ! i \<noteq> NUL" "s (length bs) = NUL"
    using len nth by (auto simp: strlen_eq_Some)
  then have "strlen s' = Some (length bs)"
    using nth by (auto simp: strlen_eq_Some s'_def)
  moreover have "\<forall>i < length (rev bs). s' i = rev bs ! i"
    using nth by (simp add: s'_def rev_nth)
  ultimately have "cstr s' = Some (rev bs)" by (simp add: cstr_eq_Some)
  with strrev_eq [OF len] show ?thesis by (auto simp: s'_def)
qed

subsection \<open>itoa\<close>

text \<open>The digits of a number, highest place first, as printing writes them.\<close>

fun digits :: "nat \<Rightarrow> nat \<Rightarrow> nat list" where
  "digits r n = (if r < 2 \<or> n < r then [n] else digits r (n div r) @ [n mod r])"

declare digits.simps [simp del]

definition digit_byte :: "nat \<Rightarrow> byte" where
  "digit_byte d = itoa_lookup ! d"

text \<open>Reading a printed number back: the value of each digit byte is its place in the table.\<close>

definition byte_digit :: "byte \<Rightarrow> nat" where
  "byte_digit b = (if b < 58 then unat b - 48 else unat b - 55)"

definition parse_num :: "nat \<Rightarrow> byte list \<Rightarrow> nat" where
  "parse_num r bs = foldl (\<lambda>acc b. acc * r + byte_digit b) 0 bs"

lemma digits_small: "2 \<le> r \<Longrightarrow> d \<in> set (digits r n) \<Longrightarrow> d < r"
proof (induction r n rule: digits.induct)
  case (1 r n)
  then show ?case by (subst (asm) (2) digits.simps) (auto split: if_splits)
qed

lemma digits_nonempty [simp]: "digits r n \<noteq> []"
  by (subst digits.simps) simp

lemma digits_value: "2 \<le> r \<Longrightarrow> foldl (\<lambda>acc d. acc * r + d) 0 (digits r n) = n"
proof (induction r n rule: digits.induct)
  case (1 r n)
  show ?case
  proof (cases "n < r")
    case True
    then show ?thesis by (subst digits.simps) simp
  next
    case False
    with 1 have "foldl (\<lambda>acc d. acc * r + d) 0 (digits r (n div r)) = n div r" by simp
    with False "1.prems" show ?thesis by (subst digits.simps) simp
  qed
qed

lemma digits_no_leading_zero: "2 \<le> r \<Longrightarrow> 0 < n \<Longrightarrow> hd (digits r n) \<noteq> 0"
proof (induction r n rule: digits.induct)
  case (1 r n)
  show ?case
  proof (cases "n < r")
    case True
    with "1.prems" show ?thesis by (subst digits.simps) simp
  next
    case False
    with "1.prems" have "0 < n div r" by (simp add: div_greater_zero_iff)
    with 1 False have "hd (digits r (n div r)) \<noteq> 0" by simp
    with False "1.prems" show ?thesis by (subst digits.simps) simp
  qed
qed

text \<open>A number below \<open>r ^ k\<close> has at most \<open>k\<close> digits.\<close>

lemma length_digits: "2 \<le> r \<Longrightarrow> n < r ^ k \<Longrightarrow> 0 < k \<Longrightarrow> length (digits r n) \<le> k"
proof (induction r n arbitrary: k rule: digits.induct)
  case (1 r n)
  show ?case
  proof (cases "n < r")
    case True
    with "1.prems" show ?thesis by (subst digits.simps) simp
  next
    case False
    with "1.prems" have "k \<noteq> 1" "k \<noteq> 0" by auto
    then obtain j where k: "k = Suc j" "0 < j" by (cases k) auto
    with "1.prems" have "n div r < r ^ j" by (simp add: less_mult_imp_div_less mult.commute)
    with 1 False k have "length (digits r (n div r)) \<le> j" by simp
    with False k "1.prems" show ?thesis by (subst digits.simps) simp
  qed
qed

lemma digit_byte_cases:
  assumes "d < 36"
  shows "digit_byte d = word_of_nat (if d < 10 then 48 + d else 55 + d)"
proof -
  have "list_all (\<lambda>d. digit_byte d = word_of_nat (if d < 10 then 48 + d else 55 + d)) [0..<36]"
    by code_simp
  with assms show ?thesis by (simp add: list_all_iff)
qed

lemma byte_digit_digit_byte: "d < 36 \<Longrightarrow> byte_digit (digit_byte d) = d"
  by (simp add: digit_byte_cases byte_digit_def word_less_nat_alt unat_of_nat)

lemma digit_byte_not_NUL: "d < 36 \<Longrightarrow> digit_byte d \<noteq> NUL"
  by (simp add: digit_byte_cases word_unat_eq_iff unat_of_nat)


text \<open>The digits as the loop produces them, lowest place first; none for 0.\<close>

definition low_digits :: "nat \<Rightarrow> nat \<Rightarrow> nat list" where
  "low_digits r n = (if n = 0 then [] else rev (digits r n))"

lemma low_digits_Suc:
  "2 \<le> r \<Longrightarrow> 0 < n \<Longrightarrow> low_digits r n = (n mod r) # low_digits r (n div r)"
  by (auto simp: low_digits_def digits.simps [of r n] div_eq_0_iff)

lemma itoa_digits_eq:
  assumes "2 \<le> r"
  shows "itoa_digits buf k n r = Some
    (\<lambda>i. if k \<le> i \<and> i < k + length (low_digits r n)
         then digit_byte (low_digits r n ! (i - k)) else buf i,
     k + length (low_digits r n))"
proof (induction n arbitrary: buf k rule: less_induct)
  case (less n)
  show ?case
  proof (cases "n = 0")
    case True
    then show ?thesis by (subst itoa_digits.simps) (auto simp: low_digits_def fun_eq_iff)
  next
    case False
    let ?buf = "buf(k := itoa_lookup ! (n mod r))"
    from False have "itoa_digits buf k n r = itoa_digits ?buf (Suc k) (n div r) r"
      by (subst itoa_digits.simps) simp
    also note less.IH [of "n div r" ?buf "Suc k"]
    finally show ?thesis using False assms
      by (auto simp: low_digits_Suc [of r n] fun_eq_iff nth_Cons' digit_byte_def Suc_le_eq)
  qed
qed

lemma parse_num_digits:
  assumes "2 \<le> r" "r \<le> 36"
  shows "parse_num r (map digit_byte (digits r n)) = n"
proof -
  have "foldl (\<lambda>acc b. acc * r + byte_digit b) a (map digit_byte ds) = foldl (\<lambda>acc d. acc * r + d) a ds"
    if "\<forall>d \<in> set ds. d < 36" for a ds
    using that by (induction ds arbitrary: a) (simp_all add: byte_digit_digit_byte)
  moreover have "\<forall>d \<in> set (digits r n). d < 36"
    using assms digits_small by fastforce
  ultimately show ?thesis
    using digits_value [OF assms(1)] by (simp add: parse_num_def)
qed

lemma itoa_radix: "2 \<le> radix \<Longrightarrow> radix \<le> 36 \<Longrightarrow> unat (word_of_int radix :: u32) = nat radix"
  by (simp add: unsigned_of_int take_bit_int_eq_self nat_eq_iff2 unat_eq_nat_uint)

lemma itoa_cstr:
  assumes "2 \<le> radix" "radix \<le> 36"
  shows "\<exists>b. itoa value buf radix = Some b
    \<and> cstr b = Some (map digit_byte (digits (nat radix) (unat value)))
    \<and> (\<forall>i > length (digits (nat radix) (unat value)). b i = buf i)"
proof (cases "value = 0")
  case True
  have "digits (nat radix) 0 = [0]" using assms by (subst digits.simps) simp
  moreover have "digit_byte 0 = 48" by (simp add: digit_byte_cases)
  ultimately show ?thesis using True
    by (auto simp: itoa_def cstr_eq_Some strlen_eq_Some)
next
  case False
  define r ds where "r = nat radix" and "ds = digits r (unat value)"
  have r: "2 \<le> r" "r \<le> 36" using assms by (auto simp: r_def)
  have pos: "0 < unat value" using False by (simp add: unat_gt_0)
  define b1 where "b1 = (\<lambda>i. if i < length ds then digit_byte (rev ds ! i)
    else if i = length ds then NUL else buf i)"
  have b1: "itoa_digits buf 0 (unat value) r = Some (b1(length ds := buf (length ds)), length ds)"
    using pos by (auto simp: itoa_digits_eq [OF r(1)] low_digits_def ds_def b1_def fun_eq_iff)
  have "\<forall>d \<in> set ds. d < 36" using r digits_small unfolding ds_def by fastforce
  then have "cstr b1 = Some (map digit_byte (rev ds))"
    by (auto simp: cstr_eq_Some strlen_eq_Some b1_def rev_nth digit_byte_not_NUL)
  from strrev_cstr [OF this] obtain b where b: "strrev b1 = Some b"
    "cstr b = Some (map digit_byte ds)" "\<forall>i \<ge> length ds. b i = b1 i"
    by (auto simp: rev_map [symmetric])
  have "itoa value buf radix = strrev b1"
    using False assms r b1 unfolding itoa_def
    by (simp add: itoa_radix Let_def r_def [symmetric] fun_upd_idem b1_def)
  with b show ?thesis by (auto simp: ds_def r_def b1_def)
qed

text \<open>
  C29. In every radix the digit table covers, itoa returns, and what it wrote is a string of at most
  32 digits that reads back as the number; the buffer past its terminator is untouched.
\<close>

theorem itoa_round_trip:
  assumes "2 \<le> radix" "radix \<le> 36"
  shows "\<exists>b str. itoa value buf radix = Some b \<and> cstr b = Some str
    \<and> parse_num (nat radix) str = unat value \<and> length str \<le> 32
    \<and> (\<forall>i > length str. b i = buf i)"
proof -
  have r: "2 \<le> nat radix" "nat radix \<le> 36" using assms by auto
  have "unat value < 2 ^ 32" using unsigned_less [of "value"] by simp
  also have "\<dots> \<le> nat radix ^ 32" using r(1) by (rule power_mono) simp
  finally have "length (digits (nat radix) (unat value)) \<le> 32"
    using r(1) by (simp add: length_digits)
  with itoa_cstr [OF assms, of "value" buf] parse_num_digits [OF r, of "unat value"] show ?thesis
    by auto
qed

theorem itoa_round_trip_witness:
  "\<exists>b str. itoa 0xBEEF (\<lambda>_. 1) 16 = Some b \<and> cstr b = Some str
    \<and> parse_num 16 str = 0xBEEF \<and> b 33 = 1"
  using itoa_round_trip [of 16 "0xBEEF" "\<lambda>_. 1"] by fastforce

end
