(* ===== verification/CMem.thy ===== *)
theory CMem
  imports CLib
begin

text \<open>
  The memory routines of student-distrib/lib.c, as the registers run through their assembly:
  memcpy and memset copy single bytes until the destination is 4-byte aligned, then whole
  doublewords with \<open>rep movsl\<close> / \<open>rep stosl\<close>, then the bytes that are left; memmove chooses the
  direction of \<open>rep movsb\<close> by comparing the pointers.

  They are written over any store with a byte read \<open>rd\<close> and a byte write \<open>wr\<close>.  The locale
  \<open>byte_store\<close> is what such a store promises on a set of addresses, and the correctness lemmas
  are proved in it once.  Plain memory interprets it at the end of this theory; the paged view of
  memory through the page tables interprets it in theory Console.
\<close>

section \<open>The assembly loops\<close>

text \<open>\<open>movb (%esi),%al; movb %al,(%edi)\<close> and \<open>movsl\<close>, which reads four bytes before it writes.\<close>

definition movsb :: "('s \<Rightarrow> nat \<Rightarrow> byte) \<Rightarrow> (nat \<Rightarrow> byte \<Rightarrow> 's \<Rightarrow> 's) \<Rightarrow> nat \<Rightarrow> nat \<Rightarrow> 's \<Rightarrow> 's" where
  "movsb rd wr d a s = wr d (rd s a) s"

definition movsl :: "('s \<Rightarrow> nat \<Rightarrow> byte) \<Rightarrow> (nat \<Rightarrow> byte \<Rightarrow> 's \<Rightarrow> 's) \<Rightarrow> nat \<Rightarrow> nat \<Rightarrow> 's \<Rightarrow> 's" where
  "movsl rd wr d a s =
     (let b0 = rd s a; b1 = rd s (a + 1); b2 = rd s (a + 2); b3 = rd s (a + 3)
      in wr (d + 3) b3 (wr (d + 2) b2 (wr (d + 1) b1 (wr d b0 s))))"

text \<open>\<open>rep movsl\<close> with the direction flag clear: \<open>ecx\<close> doublewords; the registers afterwards.\<close>

fun rep_movsl :: "('s \<Rightarrow> nat \<Rightarrow> byte) \<Rightarrow> (nat \<Rightarrow> byte \<Rightarrow> 's \<Rightarrow> 's) \<Rightarrow> nat \<Rightarrow> nat \<Rightarrow> nat \<Rightarrow> 's \<Rightarrow> nat \<times> nat \<times> 's" where
  "rep_movsl rd wr 0 d a s = (d, a, s)"
| "rep_movsl rd wr (Suc ecx) d a s = rep_movsl rd wr ecx (d + 4) (a + 4) (movsl rd wr d a s)"

fun memcpy_bottom :: "('s \<Rightarrow> nat \<Rightarrow> byte) \<Rightarrow> (nat \<Rightarrow> byte \<Rightarrow> 's \<Rightarrow> 's) \<Rightarrow> nat \<Rightarrow> nat \<Rightarrow> nat \<Rightarrow> 's \<Rightarrow> 's" where
  "memcpy_bottom rd wr 0 d a s = s"
| "memcpy_bottom rd wr (Suc edx) d a s = memcpy_bottom rd wr edx (d + 1) (a + 1) (movsb rd wr d a s)"

definition memcpy_aligned :: "('s \<Rightarrow> nat \<Rightarrow> byte) \<Rightarrow> (nat \<Rightarrow> byte \<Rightarrow> 's \<Rightarrow> 's) \<Rightarrow> nat \<Rightarrow> nat \<Rightarrow> nat \<Rightarrow> 's \<Rightarrow> 's" where
  "memcpy_aligned rd wr ecx d a s =
     (case rep_movsl rd wr (ecx div 4) d a s of
        (d', a', s') \<Rightarrow> memcpy_bottom rd wr (ecx mod 4) d' a' s')"

fun memcpy_top :: "('s \<Rightarrow> nat \<Rightarrow> byte) \<Rightarrow> (nat \<Rightarrow> byte \<Rightarrow> 's \<Rightarrow> 's) \<Rightarrow> nat \<Rightarrow> nat \<Rightarrow> nat \<Rightarrow> 's \<Rightarrow> 's" where
  "memcpy_top rd wr 0 d a s = s"
| "memcpy_top rd wr (Suc ecx) d a s =
     (if d mod 4 = 0 then memcpy_aligned rd wr (Suc ecx) d a s
      else memcpy_top rd wr ecx (d + 1) (a + 1) (movsb rd wr d a s))"

definition memcpy :: "('s \<Rightarrow> nat \<Rightarrow> byte) \<Rightarrow> (nat \<Rightarrow> byte \<Rightarrow> 's \<Rightarrow> 's) \<Rightarrow> nat \<Rightarrow> nat \<Rightarrow> nat \<Rightarrow> 's \<Rightarrow> 's" where
  "memcpy rd wr dest src n s = memcpy_top rd wr n dest src s"

text \<open>\<open>rep movsb\<close> upwards, and downwards from the last byte (direction flag set).\<close>

fun rep_movsb_up :: "('s \<Rightarrow> nat \<Rightarrow> byte) \<Rightarrow> (nat \<Rightarrow> byte \<Rightarrow> 's \<Rightarrow> 's) \<Rightarrow> nat \<Rightarrow> nat \<Rightarrow> nat \<Rightarrow> 's \<Rightarrow> 's" where
  "rep_movsb_up rd wr 0 d a s = s"
| "rep_movsb_up rd wr (Suc ecx) d a s = rep_movsb_up rd wr ecx (d + 1) (a + 1) (movsb rd wr d a s)"

fun rep_movsb_down :: "('s \<Rightarrow> nat \<Rightarrow> byte) \<Rightarrow> (nat \<Rightarrow> byte \<Rightarrow> 's \<Rightarrow> 's) \<Rightarrow> nat \<Rightarrow> nat \<Rightarrow> nat \<Rightarrow> 's \<Rightarrow> 's" where
  "rep_movsb_down rd wr 0 d a s = s"
| "rep_movsb_down rd wr (Suc ecx) d a s =
     rep_movsb_down rd wr ecx d a (movsb rd wr (d + ecx) (a + ecx) s)"

text \<open>
  memmove: \<open>cmp %edi,%esi; jae\<close> goes upwards when the source is not below the destination,
  otherwise \<open>std\<close> and downwards.  The second component is the direction flag on return; the
  code has a \<open>cld\<close> before the comparison and none after the copy.
\<close>

definition memmove :: "('s \<Rightarrow> nat \<Rightarrow> byte) \<Rightarrow> (nat \<Rightarrow> byte \<Rightarrow> 's \<Rightarrow> 's) \<Rightarrow> nat \<Rightarrow> nat \<Rightarrow> nat \<Rightarrow> 's \<Rightarrow> 's \<times> bool" where
  "memmove rd wr dest src n s =
     (if src \<ge> dest then (rep_movsb_up rd wr n dest src s, False)
      else (rep_movsb_down rd wr n dest src s, True))"

text \<open>\<open>stosl\<close> and \<open>stosw\<close> write \<open>eax\<close> and \<open>ax\<close> low byte first.\<close>

definition stosl :: "(nat \<Rightarrow> byte \<Rightarrow> 's \<Rightarrow> 's) \<Rightarrow> u32 \<Rightarrow> nat \<Rightarrow> 's \<Rightarrow> 's" where
  "stosl wr eax d s =
     wr (d + 3) (ucast (drop_bit 24 eax)) (wr (d + 2) (ucast (drop_bit 16 eax))
       (wr (d + 1) (ucast (drop_bit 8 eax)) (wr d (ucast eax) s)))"

definition stosw :: "(nat \<Rightarrow> byte \<Rightarrow> 's \<Rightarrow> 's) \<Rightarrow> u32 \<Rightarrow> nat \<Rightarrow> 's \<Rightarrow> 's" where
  "stosw wr eax d s = wr (d + 1) (ucast (drop_bit 8 eax)) (wr d (ucast eax) s)"

fun rep_stosl :: "(nat \<Rightarrow> byte \<Rightarrow> 's \<Rightarrow> 's) \<Rightarrow> u32 \<Rightarrow> nat \<Rightarrow> nat \<Rightarrow> 's \<Rightarrow> nat \<times> 's" where
  "rep_stosl wr eax 0 d s = (d, s)"
| "rep_stosl wr eax (Suc ecx) d s = rep_stosl wr eax ecx (d + 4) (stosl wr eax d s)"

fun rep_stosw :: "(nat \<Rightarrow> byte \<Rightarrow> 's \<Rightarrow> 's) \<Rightarrow> u32 \<Rightarrow> nat \<Rightarrow> nat \<Rightarrow> 's \<Rightarrow> 's" where
  "rep_stosw wr eax 0 d s = s"
| "rep_stosw wr eax (Suc ecx) d s = rep_stosw wr eax ecx (d + 2) (stosw wr eax d s)"

fun memset_bottom :: "(nat \<Rightarrow> byte \<Rightarrow> 's \<Rightarrow> 's) \<Rightarrow> u32 \<Rightarrow> nat \<Rightarrow> nat \<Rightarrow> 's \<Rightarrow> 's" where
  "memset_bottom wr eax 0 d s = s"
| "memset_bottom wr eax (Suc edx) d s = memset_bottom wr eax edx (d + 1) (wr d (ucast eax) s)"

definition memset_aligned :: "(nat \<Rightarrow> byte \<Rightarrow> 's \<Rightarrow> 's) \<Rightarrow> u32 \<Rightarrow> nat \<Rightarrow> nat \<Rightarrow> 's \<Rightarrow> 's" where
  "memset_aligned wr eax ecx d s =
     (case rep_stosl wr eax (ecx div 4) d s of
        (d', s') \<Rightarrow> memset_bottom wr eax (ecx mod 4) d' s')"

fun memset_top :: "(nat \<Rightarrow> byte \<Rightarrow> 's \<Rightarrow> 's) \<Rightarrow> u32 \<Rightarrow> nat \<Rightarrow> nat \<Rightarrow> 's \<Rightarrow> 's" where
  "memset_top wr eax 0 d s = s"
| "memset_top wr eax (Suc ecx) d s =
     (if d mod 4 = 0 then memset_aligned wr eax (Suc ecx) d s
      else memset_top wr eax ecx (d + 1) (wr d (ucast eax) s))"

text \<open>\<open>c &= 0xFF\<close>, then \<open>eax\<close> is \<open>c << 24 | c << 16 | c << 8 | c\<close>.\<close>

definition memset :: "(nat \<Rightarrow> byte \<Rightarrow> 's \<Rightarrow> 's) \<Rightarrow> nat \<Rightarrow> u32 \<Rightarrow> nat \<Rightarrow> 's \<Rightarrow> 's" where
  "memset wr dest c n s =
     (let c = c AND 0xFF;
          eax = push_bit 24 c OR push_bit 16 c OR push_bit 8 c OR c
      in memset_top wr eax n dest s)"

definition memset_word :: "(nat \<Rightarrow> byte \<Rightarrow> 's \<Rightarrow> 's) \<Rightarrow> nat \<Rightarrow> u32 \<Rightarrow> nat \<Rightarrow> 's \<Rightarrow> 's" where
  "memset_word wr dest c n s = rep_stosw wr c n dest s"

definition memset_dword :: "(nat \<Rightarrow> byte \<Rightarrow> 's \<Rightarrow> 's) \<Rightarrow> nat \<Rightarrow> u32 \<Rightarrow> nat \<Rightarrow> 's \<Rightarrow> 's" where
  "memset_dword wr dest c n s = snd (rep_stosl wr c n dest s)"

section \<open>What a byte store promises, and what the routines do on it\<close>

locale byte_store =
  fixes rd :: "'s \<Rightarrow> nat \<Rightarrow> byte"
    and wr :: "nat \<Rightarrow> byte \<Rightarrow> 's \<Rightarrow> 's"
    and ok :: "'s \<Rightarrow> bool"
    and A :: "nat set"
  assumes rd_wr: "ok s \<Longrightarrow> a \<in> A \<Longrightarrow> b \<in> A \<Longrightarrow> rd (wr a v s) b = (if b = a then v else rd s b)"
    and ok_wr: "ok s \<Longrightarrow> a \<in> A \<Longrightarrow> ok (wr a v s)"
begin

text \<open>
  \<open>moved d a n s s'\<close>: in \<open>s'\<close> the \<open>n\<close> bytes at \<open>d\<close> are those that \<open>s\<close> has at \<open>a\<close>, and every other
  byte is as in \<open>s\<close>.
\<close>

definition moved :: "nat \<Rightarrow> nat \<Rightarrow> nat \<Rightarrow> 's \<Rightarrow> 's \<Rightarrow> bool" where
  "moved d a n s s' \<longleftrightarrow> ok s' \<and>
     (\<forall>x \<in> A. rd s' x = (if d \<le> x \<and> x < d + n then rd s (a + (x - d)) else rd s x))"

lemma sub_range: "{a..<a + n} \<subseteq> A \<Longrightarrow> m + k \<le> n \<Longrightarrow> {a + m..<a + m + k} \<subseteq> A"
  for a n m k :: nat
  by (auto simp: subset_iff)

lemma first_in_range: "{a..<a + Suc n} \<subseteq> A \<Longrightarrow> a \<in> A"
  for a n :: nat
  by (auto simp: subset_iff)

lemma moved_0: "ok s \<Longrightarrow> moved d a 0 s s"
  by (auto simp: moved_def)

lemma moved_movsb:
  "ok s \<Longrightarrow> d \<in> A \<Longrightarrow> moved d a 1 s (movsb rd wr d a s)"
  by (auto simp: moved_def movsb_def rd_wr ok_wr)

lemma moved_movsl:
  assumes "ok s" "{d..<d + 4} \<subseteq> A"
  shows "moved d a 4 s (movsl rd wr d a s)"
proof -
  have "d \<in> A" "d + 1 \<in> A" "d + 2 \<in> A" "d + 3 \<in> A" using assms(2) by auto
  moreover have "x = d \<or> x = d + 1 \<or> x = d + 2 \<or> x = d + 3" if "d \<le> x" "x < d + 4" for x
    using that by auto
  ultimately show ?thesis using assms(1)
    by (auto simp: moved_def movsl_def Let_def rd_wr ok_wr)
qed

text \<open>Upwards copying composes when the destination does not run into the source ahead of it.\<close>

lemma moved_up:
  assumes "moved d a m s s'" "moved (d + m) (a + m) n s' s''"
    and "d \<le> a \<or> a + (m + n) \<le> d" "{a..<a + (m + n)} \<subseteq> A"
  shows "moved d a (m + n) s s''"
  unfolding moved_def
proof (intro conjI ballI)
  show "ok s''" using assms(2) by (simp add: moved_def)
next
  fix x assume "x \<in> A"
  show "rd s'' x = (if d \<le> x \<and> x < d + (m + n) then rd s (a + (x - d)) else rd s x)"
  proof (cases "d + m \<le> x \<and> x < d + m + n")
    case True
    then have "a + m + (x - (d + m)) = a + (x - d)" by auto
    moreover have "a + (x - d) \<in> A" using True by (intro subsetD [OF assms(4)]) auto
    moreover have "rd s' (a + (x - d)) = rd s (a + (x - d))"
      using True assms(1,3) calculation(2) by (auto simp: moved_def)
    ultimately show ?thesis
      using True assms(2) \<open>x \<in> A\<close> by (simp add: moved_def)
  next
    case False
    then show ?thesis using assms(1,2) \<open>x \<in> A\<close> by (auto simp: moved_def)
  qed
qed

lemma moved_down:
  assumes "moved (d + n) (a + n) m s s'" "moved d a n s' s''"
    and "a \<le> d" "{a..<a + (n + m)} \<subseteq> A"
  shows "moved d a (n + m) s s''"
  unfolding moved_def
proof (intro conjI ballI)
  show "ok s''" using assms(2) by (simp add: moved_def)
next
  fix x assume "x \<in> A"
  show "rd s'' x = (if d \<le> x \<and> x < d + (n + m) then rd s (a + (x - d)) else rd s x)"
  proof (cases "d \<le> x \<and> x < d + n")
    case True
    then have "\<not> d + n \<le> a + (x - d)" using assms(3) by auto
    moreover have "a + (x - d) \<in> A" using True by (intro subsetD [OF assms(4)]) auto
    ultimately show ?thesis using True assms(1,2) \<open>x \<in> A\<close> by (simp add: moved_def)
  next
    case False
    then show ?thesis using assms(1,2) \<open>x \<in> A\<close> by (auto simp: moved_def)
  qed
qed

lemma rep_movsl_moved:
  assumes "ok s" "{d..<d + 4 * k} \<subseteq> A" "{a..<a + 4 * k} \<subseteq> A" "d \<le> a \<or> a + 4 * k \<le> d"
  shows "\<exists>s'. rep_movsl rd wr k d a s = (d + 4 * k, a + 4 * k, s') \<and> moved d a (4 * k) s s'"
  using assms
proof (induction k arbitrary: d a s)
  case 0
  then show ?case by (simp add: moved_0)
next
  case (Suc k)
  let ?s = "movsl rd wr d a s"
  have "{d..<d + 4} \<subseteq> A" using Suc.prems(2) by auto
  with Suc.prems(1) have step: "moved d a 4 s ?s" by (rule moved_movsl)
  then have "ok ?s" by (simp add: moved_def)
  moreover have "{d + 4..<d + 4 + 4 * k} \<subseteq> A" "{a + 4..<a + 4 + 4 * k} \<subseteq> A"
    "d + 4 \<le> a + 4 \<or> a + 4 + 4 * k \<le> d + 4"
    using Suc.prems by auto
  ultimately obtain s' where s': "rep_movsl rd wr k (d + 4) (a + 4) ?s = (d + 4 + 4 * k, a + 4 + 4 * k, s')"
    "moved (d + 4) (a + 4) (4 * k) ?s s'" using Suc.IH by blast
  have "moved d a (4 + 4 * k) s s'"
    using step s'(2) Suc.prems by (intro moved_up) auto
  with s'(1) show ?case by (simp add: algebra_simps)
qed

lemma memcpy_bottom_moved:
  assumes "ok s" "{d..<d + k} \<subseteq> A" "{a..<a + k} \<subseteq> A" "d \<le> a \<or> a + k \<le> d"
  shows "moved d a k s (memcpy_bottom rd wr k d a s)"
  using assms
proof (induction k arbitrary: d a s)
  case 0
  then show ?case by (simp add: moved_0)
next
  case (Suc k)
  have step: "moved d a 1 s (movsb rd wr d a s)" using Suc.prems by (intro moved_movsb) auto
  moreover have "moved (d + 1) (a + 1) k (movsb rd wr d a s)
      (memcpy_bottom rd wr k (d + 1) (a + 1) (movsb rd wr d a s))"
    using step Suc.prems by (intro Suc.IH) (auto simp: moved_def)
  ultimately have "moved d a (1 + k) s (memcpy_bottom rd wr k (d + 1) (a + 1) (movsb rd wr d a s))"
    using Suc.prems by (intro moved_up) auto
  then show ?case by simp
qed

lemma memcpy_aligned_moved:
  assumes "ok s" "{d..<d + n} \<subseteq> A" "{a..<a + n} \<subseteq> A" "d \<le> a \<or> a + n \<le> d"
  shows "moved d a n s (memcpy_aligned rd wr n d a s)"
proof -
  let ?k = "4 * (n div 4)" and ?m = "n mod 4"
  have n: "?k + ?m = n" by simp
  have "\<exists>s'. rep_movsl rd wr (n div 4) d a s = (d + ?k, a + ?k, s') \<and> moved d a ?k s s'"
    using assms(1,4) n sub_range [OF assms(2), of 0 ?k] sub_range [OF assms(3), of 0 ?k]
    by (intro rep_movsl_moved) auto
  then obtain s' where s': "rep_movsl rd wr (n div 4) d a s = (d + ?k, a + ?k, s')"
    "moved d a ?k s s'" by blast
  moreover have "moved (d + ?k) (a + ?k) ?m s' (memcpy_bottom rd wr ?m (d + ?k) (a + ?k) s')"
    using s'(2) assms(4) n sub_range [OF assms(2), of ?k ?m] sub_range [OF assms(3), of ?k ?m]
    by (intro memcpy_bottom_moved) (auto simp: moved_def)
  ultimately have "moved d a (?k + ?m) s (memcpy_bottom rd wr ?m (d + ?k) (a + ?k) s')"
    using assms by (intro moved_up) auto
  with s'(1) show ?thesis by (simp add: memcpy_aligned_def)
qed

lemma memcpy_top_moved:
  assumes "ok s" "{d..<d + n} \<subseteq> A" "{a..<a + n} \<subseteq> A" "d \<le> a \<or> a + n \<le> d"
  shows "moved d a n s (memcpy_top rd wr n d a s)"
  using assms
proof (induction n arbitrary: d a s)
  case 0
  then show ?case by (simp add: moved_0)
next
  case (Suc n)
  show ?case
  proof (cases "d mod 4 = 0")
    case True
    with Suc.prems show ?thesis by (simp add: memcpy_aligned_moved)
  next
    case False
    have step: "moved d a 1 s (movsb rd wr d a s)" using Suc.prems by (intro moved_movsb) auto
    moreover have "moved (d + 1) (a + 1) n (movsb rd wr d a s)
        (memcpy_top rd wr n (d + 1) (a + 1) (movsb rd wr d a s))"
      using step Suc.prems by (intro Suc.IH) (auto simp: moved_def)
    ultimately have "moved d a (1 + n) s (memcpy_top rd wr n (d + 1) (a + 1) (movsb rd wr d a s))"
      using Suc.prems by (intro moved_up) auto
    with False show ?thesis by simp
  qed
qed

lemma memcpy_moved:
  assumes "ok s" "{d..<d + n} \<subseteq> A" "{a..<a + n} \<subseteq> A" "d \<le> a \<or> a + n \<le> d"
  shows "moved d a n s (memcpy rd wr d a n s)"
  unfolding memcpy_def using assms by (rule memcpy_top_moved)

lemma rep_movsb_up_moved:
  assumes "ok s" "{d..<d + n} \<subseteq> A" "{a..<a + n} \<subseteq> A" "d \<le> a"
  shows "moved d a n s (rep_movsb_up rd wr n d a s)"
  using assms
proof (induction n arbitrary: d a s)
  case 0
  then show ?case by (simp add: moved_0)
next
  case (Suc n)
  have step: "moved d a 1 s (movsb rd wr d a s)" using Suc.prems by (intro moved_movsb) auto
  moreover have "moved (d + 1) (a + 1) n (movsb rd wr d a s)
      (rep_movsb_up rd wr n (d + 1) (a + 1) (movsb rd wr d a s))"
    using step Suc.prems by (intro Suc.IH) (auto simp: moved_def)
  ultimately have "moved d a (1 + n) s (rep_movsb_up rd wr n (d + 1) (a + 1) (movsb rd wr d a s))"
    using Suc.prems by (intro moved_up) auto
  then show ?case by simp
qed

lemma rep_movsb_down_moved:
  assumes "ok s" "{d..<d + n} \<subseteq> A" "{a..<a + n} \<subseteq> A" "a \<le> d"
  shows "moved d a n s (rep_movsb_down rd wr n d a s)"
  using assms
proof (induction n arbitrary: s)
  case 0
  then show ?case by (simp add: moved_0)
next
  case (Suc n)
  let ?s = "movsb rd wr (d + n) (a + n) s"
  have step: "moved (d + n) (a + n) 1 s ?s" using Suc.prems by (intro moved_movsb) auto
  moreover have "moved d a n ?s (rep_movsb_down rd wr n d a ?s)"
    using step Suc.prems by (intro Suc.IH) (auto simp: moved_def)
  ultimately have "moved d a (n + 1) s (rep_movsb_down rd wr n d a ?s)"
    using Suc.prems by (intro moved_down) auto
  then show ?case by simp
qed

lemma memmove_moved:
  assumes "ok s" "{d..<d + n} \<subseteq> A" "{a..<a + n} \<subseteq> A"
  shows "moved d a n s (fst (memmove rd wr d a n s))"
  using assms by (simp add: memmove_def rep_movsb_up_moved rep_movsb_down_moved)

text \<open>
  \<open>filled d f n s s'\<close>: in \<open>s'\<close> the \<open>n\<close> bytes at \<open>d\<close> are \<open>f 0, f 1, \<dots>\<close>, and every other byte is
  as in \<open>s\<close>.
\<close>

definition filled :: "nat \<Rightarrow> (nat \<Rightarrow> byte) \<Rightarrow> nat \<Rightarrow> 's \<Rightarrow> 's \<Rightarrow> bool" where
  "filled d f n s s' \<longleftrightarrow> ok s' \<and>
     (\<forall>x \<in> A. rd s' x = (if d \<le> x \<and> x < d + n then f (x - d) else rd s x))"

lemma filled_append:
  assumes "filled d f m s s'" "filled (d + m) g n s' s''" "\<And>i. i < n \<Longrightarrow> g i = f (m + i)"
  shows "filled d f (m + n) s s''"
  using assms by (auto simp: filled_def)

lemma filled_stosl:
  assumes "ok s" "{d..<d + 4} \<subseteq> A"
  shows "filled d (\<lambda>i. ucast (drop_bit (8 * (i mod 4)) eax)) 4 s (stosl wr eax d s)"
proof -
  have "d \<in> A" "d + 1 \<in> A" "d + 2 \<in> A" "d + 3 \<in> A" using assms(2) by auto
  moreover have "x = d \<or> x = d + 1 \<or> x = d + 2 \<or> x = d + 3" if "d \<le> x" "x < d + 4" for x
    using that by auto
  ultimately show ?thesis using assms(1)
    by (auto simp: filled_def stosl_def rd_wr ok_wr)
qed

lemma filled_stosw:
  assumes "ok s" "{d..<d + 2} \<subseteq> A"
  shows "filled d (\<lambda>i. ucast (drop_bit (8 * (i mod 2)) eax)) 2 s (stosw wr eax d s)"
proof -
  have "d \<in> A" "d + 1 \<in> A" using assms(2) by auto
  moreover have "x = d \<or> x = d + 1" if "d \<le> x" "x < d + 2" for x
    using that by auto
  ultimately show ?thesis using assms(1)
    by (auto simp: filled_def stosw_def rd_wr ok_wr)
qed

lemma rep_stosl_filled:
  assumes "ok s" "{d..<d + 4 * k} \<subseteq> A"
  shows "\<exists>s'. rep_stosl wr eax k d s = (d + 4 * k, s')
    \<and> filled d (\<lambda>i. ucast (drop_bit (8 * (i mod 4)) eax)) (4 * k) s s'"
  using assms
proof (induction k arbitrary: d s)
  case 0
  then show ?case by (auto simp: filled_def)
next
  case (Suc k)
  let ?f = "\<lambda>i. ucast (drop_bit (8 * (i mod 4)) eax)"
  have "{d..<d + 4} \<subseteq> A" using Suc.prems(2) by auto
  with Suc.prems(1) have step: "filled d ?f 4 s (stosl wr eax d s)" by (rule filled_stosl)
  then have "ok (stosl wr eax d s)" by (simp add: filled_def)
  moreover have "{d + 4..<d + 4 + 4 * k} \<subseteq> A" using Suc.prems(2) by auto
  ultimately obtain s' where s': "rep_stosl wr eax k (d + 4) (stosl wr eax d s) = (d + 4 + 4 * k, s')"
    "filled (d + 4) ?f (4 * k) (stosl wr eax d s) s'" using Suc.IH by blast
  have "filled d ?f (4 + 4 * k) s s'" using step s'(2) by (rule filled_append) simp
  with s'(1) show ?case by (simp add: algebra_simps)
qed

lemma rep_stosw_filled:
  assumes "ok s" "{d..<d + 2 * k} \<subseteq> A"
  shows "filled d (\<lambda>i. ucast (drop_bit (8 * (i mod 2)) eax)) (2 * k) s (rep_stosw wr eax k d s)"
  using assms
proof (induction k arbitrary: d s)
  case 0
  then show ?case by (auto simp: filled_def)
next
  case (Suc k)
  let ?f = "\<lambda>i. ucast (drop_bit (8 * (i mod 2)) eax)"
  have step: "filled d ?f 2 s (stosw wr eax d s)" using Suc.prems by (intro filled_stosw) auto
  moreover have "filled (d + 2) ?f (2 * k) (stosw wr eax d s) (rep_stosw wr eax k (d + 2) (stosw wr eax d s))"
    using step Suc.prems by (intro Suc.IH) (auto simp: filled_def)
  ultimately have "filled d ?f (2 + 2 * k) s (rep_stosw wr eax k (d + 2) (stosw wr eax d s))"
    by (rule filled_append) simp
  then show ?case by simp
qed

lemma memset_bottom_filled:
  assumes "ok s" "{d..<d + k} \<subseteq> A"
  shows "filled d (\<lambda>_. ucast eax) k s (memset_bottom wr eax k d s)"
  using assms
proof (induction k arbitrary: d s)
  case 0
  then show ?case by (auto simp: filled_def)
next
  case (Suc k)
  have step: "filled d (\<lambda>_. ucast eax) 1 s (wr d (ucast eax) s)"
    using Suc.prems first_in_range [OF Suc.prems(2)] by (auto simp: filled_def rd_wr ok_wr)
  moreover have "filled (d + 1) (\<lambda>_. ucast eax) k (wr d (ucast eax) s)
      (memset_bottom wr eax k (d + 1) (wr d (ucast eax) s))"
    using step Suc.prems by (intro Suc.IH) (auto simp: filled_def)
  ultimately have "filled d (\<lambda>_. ucast eax) (1 + k) s (memset_bottom wr eax k (d + 1) (wr d (ucast eax) s))"
    by (rule filled_append) simp
  then show ?case by simp
qed

text \<open>All four bytes of \<open>eax\<close> are the byte to store.\<close>

definition splat :: "byte \<Rightarrow> u32 \<Rightarrow> bool" where
  "splat c eax \<longleftrightarrow> (\<forall>i < 4. ucast (drop_bit (8 * i) eax) = c)"

lemma memset_top_filled:
  assumes "ok s" "{d..<d + n} \<subseteq> A" "splat c eax"
  shows "filled d (\<lambda>_. c) n s (memset_top wr eax n d s)"
  using assms
proof (induction n arbitrary: d s)
  case 0
  then show ?case by (auto simp: filled_def)
next
  case (Suc n)
  have low: "ucast eax = c" using assms(3) by (auto simp: splat_def dest: spec [of _ 0])
  show ?case
  proof (cases "d mod 4 = 0")
    case True
    let ?k = "4 * (Suc n div 4)" and ?m = "Suc n mod 4"
    have n: "?k + ?m = Suc n" by simp
    have ranges: "{d..<d + ?k} \<subseteq> A" "{d + ?k..<d + ?k + ?m} \<subseteq> A"
      using sub_range [OF Suc.prems(2), of 0 ?k] sub_range [OF Suc.prems(2), of ?k ?m] n by simp_all
    from rep_stosl_filled [OF Suc.prems(1) ranges(1)] obtain s' where
      s': "rep_stosl wr eax (Suc n div 4) d s = (d + ?k, s')"
      "filled d (\<lambda>i. ucast (drop_bit (8 * (i mod 4)) eax)) ?k s s'" by blast
    moreover have "ucast (drop_bit (8 * (i mod 4)) eax) = c" for i
      using assms(3) by (simp add: splat_def)
    ultimately have "filled d (\<lambda>_. c) ?k s s'" by simp
    moreover have "filled (d + ?k) (\<lambda>_. ucast eax) ?m s' (memset_bottom wr eax ?m (d + ?k) s')"
      using s'(2) ranges(2) by (intro memset_bottom_filled) (auto simp: filled_def)
    ultimately have "filled d (\<lambda>_. c) (?k + ?m) s (memset_bottom wr eax ?m (d + ?k) s')"
      by (rule filled_append) (simp add: low)
    with True s'(1) show ?thesis by (simp add: memset_aligned_def)
  next
    case False
    have step: "filled d (\<lambda>_. c) 1 s (wr d (ucast eax) s)"
      using Suc.prems first_in_range [OF Suc.prems(2)] low by (auto simp: filled_def rd_wr ok_wr)
    moreover have "filled (d + 1) (\<lambda>_. c) n (wr d (ucast eax) s)
        (memset_top wr eax n (d + 1) (wr d (ucast eax) s))"
      using step Suc.prems by (intro Suc.IH) (auto simp: filled_def)
    ultimately have "filled d (\<lambda>_. c) (1 + n) s (memset_top wr eax n (d + 1) (wr d (ucast eax) s))"
      by (rule filled_append) simp
    with False show ?thesis by simp
  qed
qed

lemma memset_filled:
  assumes "ok s" "{d..<d + n} \<subseteq> A"
  shows "filled d (\<lambda>_. ucast c) n s (memset wr d c n s)"
proof -
  have low_byte: "c AND 0xFF = take_bit 8 c"
    by (simp add: take_bit_eq_mask mask_eq_exp_minus_1 ac_simps)
  have "splat (ucast c) (let c = c AND 0xFF in push_bit 24 c OR push_bit 16 c OR push_bit 8 c OR c)"
    unfolding splat_def
  proof (intro allI impI)
    fix i :: nat assume "i < 4"
    then consider "i = 0" | "i = 1" | "i = 2" | "i = 3" by linarith
    then show "ucast (drop_bit (8 * i) (let c = c AND 0xFF in
        push_bit 24 c OR push_bit 16 c OR push_bit 8 c OR c)) = (ucast c :: byte)"
      by cases (auto simp: Let_def low_byte bit_simps intro!: bit_word_eqI)
  qed
  then show ?thesis using memset_top_filled [OF assms] by (simp add: memset_def Let_def)
qed

end

section \<open>Plain memory\<close>

definition ram_rd :: "mem \<Rightarrow> nat \<Rightarrow> byte" where
  "ram_rd m a = m a"

definition ram_wr :: "nat \<Rightarrow> byte \<Rightarrow> mem \<Rightarrow> mem" where
  "ram_wr a v m = m(a := v)"

interpretation ram: byte_store ram_rd ram_wr "\<lambda>_. True" UNIV
  by unfold_locales (auto simp: ram_rd_def ram_wr_def)

lemma ram_moved_eq: "ram.moved d a n m m' \<longleftrightarrow> m' = store_bytes d (load_bytes m a n) m"
  by (auto simp: ram.moved_def ram_rd_def store_bytes_def fun_eq_iff)

lemma ram_filled_eq: "ram.filled d (\<lambda>_. c) n m m' \<longleftrightarrow> m' = store_bytes d (replicate n c) m"
  by (auto simp: ram.filled_def ram_rd_def store_bytes_def fun_eq_iff)

text \<open>
  memcpy (the alignment loop, \<open>rep movsl\<close> and the tail loop) writes exactly the \<open>n\<close> source
  bytes at the destination and nothing else, whenever the destination does not start inside the
  source region.
\<close>

theorem memcpy_correct:
  "dest \<le> src \<or> src + n \<le> dest \<Longrightarrow>
     memcpy ram_rd ram_wr dest src n m = store_bytes dest (load_bytes m src n) m"
  using ram.memcpy_moved [where d = dest and n = n and a = src and s = m] by (simp add: ram_moved_eq)

theorem memcpy_correct_witness:
  "(\<lambda>m. memcpy ram_rd ram_wr 3 10 7 m) = (\<lambda>m. store_bytes 3 (load_bytes m 10 7) m)"
  using memcpy_correct [of 3 10 7] by (simp add: fun_eq_iff)

text \<open>
  C28. memmove copies correctly for every overlap of source and destination; the direction flag is
  left set exactly when the source lies below the destination.
\<close>

theorem memmove_correct:
  "memmove ram_rd ram_wr dest src n m = (store_bytes dest (load_bytes m src n) m, src < dest)"
  using ram.memmove_moved [where d = dest and n = n and a = src and s = m]
  by (simp add: ram_moved_eq prod_eq_iff) (simp add: memmove_def)

text \<open>
  memset (alignment loop, \<open>rep stosl\<close> with the byte replicated in all four positions, tail
  loop) fills exactly \<open>n\<close> bytes with the low byte of its argument.
\<close>

theorem memset_correct:
  "memset ram_wr dest c n m = store_bytes dest (replicate n (ucast c)) m"
  using ram.memset_filled [where d = dest and n = n and c = c and s = m] by (simp add: ram_filled_eq)

text \<open>memset_word and memset_dword fill \<open>n\<close> little-endian words and doublewords.\<close>

lemma memset_dword_correct:
  "memset_dword ram_wr dest c n m = store_bytes dest (concat (replicate n (bytes32 c))) m"
proof -
  have len: "length (concat (replicate n (bytes32 c))) = 4 * n"
    by (induction n) auto
  have nth: "concat (replicate n (bytes32 c)) ! i = ucast (drop_bit (8 * (i mod 4)) c)" if "i < 4 * n" for i
    using that
  proof (induction n arbitrary: i)
    case (Suc n)
    show ?case
    proof (cases "i < 4")
      case True
      then consider "i = 0" | "i = 1" | "i = 2" | "i = 3" by linarith
      then show ?thesis by cases (simp_all add: bytes32_def)
    next
      case False
      with Suc.prems Suc.IH [of "i - 4"] show ?thesis
        by (simp add: nth_append mod_if [of i 4])
    qed
  qed simp
  obtain s' where s': "rep_stosl ram_wr c n dest m = (dest + 4 * n, s')"
    "ram.filled dest (\<lambda>i. ucast (drop_bit (8 * (i mod 4)) c)) (4 * n) m s'"
    using ram.rep_stosl_filled [where d = dest and k = n and eax = c and s = m] by auto
  then have "s' = store_bytes dest (concat (replicate n (bytes32 c))) m"
    by (auto simp: ram.filled_def ram_rd_def store_bytes_def fun_eq_iff len nth)
  with s'(1) show ?thesis by (simp add: memset_dword_def)
qed

end
