(* ===== verification/Paging.thy ===== *)
theory Paging
  imports Ports CMem
begin

text \<open>
  Page tables (paging.h, paging.c) and the address translation they stand for.

  The page directory is the array of the union \<open>page_directory_t\<close>, so an entry is a \<open>32 word\<close> whose
  bit fields are read and written in place; a page table entry is a word too.  \<open>mem\<close> is physical
  memory.  The two page tables are arrays of the kernel image: their (link-time) addresses are
  fields that nothing assigns.  \<open>tlb_stale\<close> records that a paging structure changed since CR3 was
  last loaded: the field is not in the code, every assignment to a paging structure sets it and
  reloading CR3 clears it.  Caching of translations is not modelled otherwise.
\<close>

section \<open>Bit fields\<close>

text \<open>A field is its lowest bit and its width; assigning a field leaves the other bits alone.\<close>

type_synonym bitfield = "nat \<times> nat"

definition get_field :: "bitfield \<Rightarrow> u32 \<Rightarrow> u32" where
  "get_field f w = take_bit (snd f) (drop_bit (fst f) w)"

definition set_field :: "bitfield \<Rightarrow> u32 \<Rightarrow> u32 \<Rightarrow> u32" where
  "set_field f v w =
     (w AND NOT (push_bit (fst f) (mask (snd f)))) OR push_bit (fst f) (take_bit (snd f) v)"

definition set_fields :: "(bitfield \<times> u32) list \<Rightarrow> u32 \<Rightarrow> u32" where
  "set_fields = fold (\<lambda>(f, v). set_field f v)"

abbreviation f_present :: bitfield where "f_present \<equiv> (0, 1)"
abbreviation f_rw :: bitfield where "f_rw \<equiv> (1, 1)"
abbreviation f_user :: bitfield where "f_user \<equiv> (2, 1)"
abbreviation f_pwt :: bitfield where "f_pwt \<equiv> (3, 1)"
abbreviation f_pcd :: bitfield where "f_pcd \<equiv> (4, 1)"
abbreviation f_accessed :: bitfield where "f_accessed \<equiv> (5, 1)"
abbreviation f_avl :: bitfield where "f_avl \<equiv> (6, 1)"
abbreviation f_dirty :: bitfield where "f_dirty \<equiv> (6, 1)"
abbreviation f_ps :: bitfield where "f_ps \<equiv> (7, 1)"
abbreviation f_pt_pat :: bitfield where "f_pt_pat \<equiv> (7, 1)"
abbreviation f_global :: bitfield where "f_global \<equiv> (8, 1)"
abbreviation f_available4 :: bitfield where "f_available4 \<equiv> (8, 4)"
abbreviation f_available3 :: bitfield where "f_available3 \<equiv> (9, 3)"
abbreviation f_pat :: bitfield where "f_pat \<equiv> (12, 1)"
abbreviation f_addr :: bitfield where "f_addr \<equiv> (13, 8)"
abbreviation f_rsvd :: bitfield where "f_rsvd \<equiv> (21, 1)"
abbreviation f_frame20 :: bitfield where "f_frame20 \<equiv> (12, 20)"
abbreviation f_frame10 :: bitfield where "f_frame10 \<equiv> (22, 10)"

text \<open>The three layouts of paging.h, in the order the structures declare their fields.\<close>

definition page_directory_entry_4kb :: "bitfield list" where
  "page_directory_entry_4kb = [f_present, f_rw, f_user, f_pwt, f_pcd, f_accessed, f_avl, f_ps,
     f_available4, f_frame20]"

definition page_directory_entry_4mb :: "bitfield list" where
  "page_directory_entry_4mb = [f_present, f_rw, f_user, f_pwt, f_pcd, f_accessed, f_dirty, f_ps,
     f_global, f_available3, f_pat, f_addr, f_rsvd, f_frame10]"

definition page_table_entry_t :: "bitfield list" where
  "page_table_entry_t = [f_present, f_rw, f_user, f_pwt, f_pcd, f_accessed, f_dirty, f_pt_pat,
     f_global, f_available3, f_frame20]"

text \<open>A packed structure: each field starts where the one before it ends, and together they
  are 32 bits wide.\<close>

fun packed_from :: "nat \<Rightarrow> bitfield list \<Rightarrow> bool" where
  "packed_from k [] \<longleftrightarrow> k = 32"
| "packed_from k ((b, w) # fs) \<longleftrightarrow> b = k \<and> packed_from (k + w) fs"

lemma layouts_packed:
  "packed_from 0 page_directory_entry_4kb" "packed_from 0 page_directory_entry_4mb"
  "packed_from 0 page_table_entry_t"
  by (simp_all add: page_directory_entry_4kb_def page_directory_entry_4mb_def page_table_entry_t_def)

section \<open>The paging state\<close>

record paging_state = pic_state +
  mem :: mem
  page_directory :: "nat \<Rightarrow> u32"
  page_table :: "nat \<Rightarrow> u32"
  page_table_vidmap :: "nat \<Rightarrow> u32"
  page_table_addr :: u32
  page_table_vidmap_addr :: u32
  cr3_loaded :: bool
  paging_on :: bool
  tlb_stale :: bool

definition set_pde :: "nat \<Rightarrow> u32 \<Rightarrow> 'a paging_state_scheme \<Rightarrow> 'a paging_state_scheme" where
  "set_pde i w s = s\<lparr>page_directory := (page_directory s)(i := w), tlb_stale := True\<rparr>"

definition set_pte :: "nat \<Rightarrow> u32 \<Rightarrow> 'a paging_state_scheme \<Rightarrow> 'a paging_state_scheme" where
  "set_pte i w s = s\<lparr>page_table := (page_table s)(i := w), tlb_stale := True\<rparr>"

definition set_pte_vidmap :: "nat \<Rightarrow> u32 \<Rightarrow> 'a paging_state_scheme \<Rightarrow> 'a paging_state_scheme" where
  "set_pte_vidmap i w s =
     s\<lparr>page_table_vidmap := (page_table_vidmap s)(i := w), tlb_stale := True\<rparr>"

text \<open>\<open>movl %cr3,%eax; movl %eax,%cr3\<close>\<close>

definition flush_tlb :: "'a paging_state_scheme \<Rightarrow> 'a paging_state_scheme" where
  "flush_tlb s = s\<lparr>tlb_stale := False\<rparr>"

text \<open>Assignments to the \<open>frame\<close> members the rest of the kernel makes.\<close>

definition set_pde_frame4mb :: "nat \<Rightarrow> u32 \<Rightarrow> 'a paging_state_scheme \<Rightarrow> 'a paging_state_scheme" where
  "set_pde_frame4mb i v s = set_pde i (set_field f_frame10 v (page_directory s i)) s"

definition set_pde_frame4kb :: "nat \<Rightarrow> u32 \<Rightarrow> 'a paging_state_scheme \<Rightarrow> 'a paging_state_scheme" where
  "set_pde_frame4kb i v s = set_pde i (set_field f_frame20 v (page_directory s i)) s"

definition set_pte_frame :: "nat \<Rightarrow> u32 \<Rightarrow> 'a paging_state_scheme \<Rightarrow> 'a paging_state_scheme" where
  "set_pte_frame i v s = set_pte i (set_field f_frame20 v (page_table s i)) s"

definition set_pte_vidmap_frame :: "nat \<Rightarrow> u32 \<Rightarrow> 'a paging_state_scheme \<Rightarrow> 'a paging_state_scheme" where
  "set_pte_vidmap_frame i v s = set_pte_vidmap i (set_field f_frame20 v (page_table_vidmap s i)) s"

section \<open>paging_init\<close>

text \<open>The four initialised directory entries; every other entry is zeroed.\<close>

definition init_pde :: "u32 \<Rightarrow> u32 \<Rightarrow> nat \<Rightarrow> u32 \<Rightarrow> u32" where
  "init_pde pt_addr vidmap_addr i w =
     (if i = 0 then
        set_fields [(f_present, 1), (f_rw, 1), (f_user, 0), (f_pwt, 0), (f_pcd, 0), (f_accessed, 0),
          (f_avl, 0), (f_ps, 0), (f_available4, 0), (f_frame20, drop_bit 12 pt_addr)] w
      else if i = 1 then
        set_fields [(f_present, 1), (f_rw, 1), (f_user, 0), (f_pwt, 0), (f_pcd, 0), (f_accessed, 0),
          (f_dirty, 0), (f_ps, 1), (f_global, 0), (f_available3, 0), (f_pat, 0), (f_addr, 0),
          (f_rsvd, 0), (f_frame10, drop_bit 22 0x400000)] w
      else if i = 32 then
        set_fields [(f_present, 1), (f_rw, 1), (f_user, 1), (f_pwt, 0), (f_pcd, 0), (f_accessed, 0),
          (f_dirty, 0), (f_ps, 1), (f_global, 1), (f_available3, 0), (f_pat, 0), (f_addr, 0),
          (f_rsvd, 0), (f_frame10, drop_bit 22 0x8000000)] w
      else if i = 33 then
        set_fields [(f_present, 1), (f_rw, 1), (f_user, 1), (f_pwt, 0), (f_pcd, 1), (f_accessed, 0),
          (f_avl, 0), (f_ps, 0), (f_available4, 0),
          (f_frame20, drop_bit 12 vidmap_addr)] w
      else 0)"

definition init_pte :: "nat \<Rightarrow> u32 \<Rightarrow> u32" where
  "init_pte i w =
     (let w = set_fields [(f_rw, 0), (f_user, 0), (f_pwt, 0), (f_pcd, 0), (f_accessed, 0),
          (f_dirty, 0), (f_pt_pat, 0), (f_global, 0), (f_available3, 0), (f_frame20, 0)] w
      in if i = 0xB8 then set_fields [(f_present, 1), (f_rw, 1), (f_frame20, 0xB8)] w
      else if i = 0xB9 then set_fields [(f_present, 1), (f_rw, 1), (f_frame20, 0xB9)] w
      else if i = 0xBA then set_fields [(f_present, 1), (f_rw, 1), (f_frame20, 0xBA)] w
      else if i = 0xBB then set_fields [(f_present, 1), (f_rw, 1), (f_frame20, 0xBB)] w
      else set_field f_present 0 w)"

definition init_pte_vidmap :: "nat \<Rightarrow> u32 \<Rightarrow> u32" where
  "init_pte_vidmap i w =
     (let w = set_fields [(f_present, 0), (f_rw, 1), (f_user, 1), (f_pwt, 0), (f_pcd, 1),
          (f_accessed, 0), (f_dirty, 0), (f_pt_pat, 0), (f_global, 0), (f_available3, 0),
          (f_frame20, 0)] w
      in if i = 0 then set_fields [(f_present, 1), (f_frame20, 0xB8)] w
      else if i = 1 then set_fields [(f_present, 1), (f_frame20, 0xB9)] w
      else if i = 2 then set_fields [(f_present, 1), (f_frame20, 0xBA)] w
      else if i = 3 then set_fields [(f_present, 1), (f_frame20, 0xBB)] w
      else w)"

text \<open>\<open>loadPageDirectory\<close> points CR3 at the directory, \<open>otherenable\<close> sets the paging bits of CR4 and
  CR0 (paging_asm.S).\<close>

definition loadPageDirectory :: "'a paging_state_scheme \<Rightarrow> 'a paging_state_scheme" where
  "loadPageDirectory s = s\<lparr>cr3_loaded := True, tlb_stale := False\<rparr>"

definition otherenable :: "'a paging_state_scheme \<Rightarrow> 'a paging_state_scheme" where
  "otherenable s = s\<lparr>paging_on := True\<rparr>"

definition paging_init :: "'a paging_state_scheme \<Rightarrow> 'a paging_state_scheme" where
  "paging_init s =
     (let s = fold (\<lambda>i s. 
            set_pde i (init_pde (page_table_addr s) (page_table_vidmap_addr s) i (page_directory s i)) s)
            [0..<1024] s;
          s = fold (\<lambda>i s. set_pte i (init_pte i (page_table s i)) s) [0..<1024] s;
          s = fold (\<lambda>i s. set_pte_vidmap i (init_pte_vidmap i (page_table_vidmap s i)) s) [0..<1024] s;
          s = loadPageDirectory s;
          s = otherenable s;
          s = set_pte 0xBC (set_field f_present 1 (page_table s 0xBC)) s;
          s = set_pte 0xBC (set_field f_rw 1 (page_table s 0xBC)) s;
          s = set_pte_frame 0xBC 0xB8 s
      in flush_tlb s)"

section \<open>Address translation\<close>

text \<open>
  What the processor does with these tables: a directory entry with the page size bit maps 4 MB, any
  other one names a page table by its frame.  Only the two tables of the kernel are known; an entry
  that named another frame would be a table outside the model and counts as not present.
  \<open>mmu\<close> is the translation in kernel mode, \<open>user_mmu\<close> also wants the user bits.
\<close>

definition table_at :: "'a paging_state_scheme \<Rightarrow> u32 \<Rightarrow> nat \<Rightarrow> u32" where
  "table_at s fr =
     (if fr = drop_bit 12 (page_table_addr s) then page_table s
      else if fr = drop_bit 12 (page_table_vidmap_addr s) then page_table_vidmap s
      else (\<lambda>_. 0))"

definition mmu :: "'a paging_state_scheme \<Rightarrow> nat \<Rightarrow> nat option" where
  "mmu s va =
     (let pde = page_directory s (va div 0x400000) in
      if get_field f_present pde = 0 then None
      else if get_field f_ps pde = 1
        then Some (unat (get_field f_frame10 pde) * 0x400000 + va mod 0x400000)
      else let pte = table_at s (get_field f_frame20 pde) (va div 0x1000 mod 1024) in
        if get_field f_present pte = 0 then None
        else Some (unat (get_field f_frame20 pte) * 0x1000 + va mod 0x1000))"

definition user_mmu :: "'a paging_state_scheme \<Rightarrow> nat \<Rightarrow> nat option" where
  "user_mmu s va =
     (let pde = page_directory s (va div 0x400000);
          pte = table_at s (get_field f_frame20 pde) (va div 0x1000 mod 1024) in
      if get_field f_user pde = 1 \<and> (get_field f_ps pde = 1 \<or> get_field f_user pte = 1)
      then mmu s va else None)"

section \<open>Lemmas on bit fields\<close>

lemma get_set_same:
  "fst f + snd f \<le> 32 \<Longrightarrow> get_field f (set_field f v w) = take_bit (snd f) v"
  by (rule bit_word_eqI) (auto simp: get_field_def set_field_def bit_simps)

lemma get_set_other:
  "fst f + snd f \<le> fst g \<or> fst g + snd g \<le> fst f \<Longrightarrow> get_field f (set_field g v w) = get_field f w"
  by (rule bit_word_eqI) (auto simp: get_field_def set_field_def bit_simps dest: bit_imp_le_length)

lemmas field_simps' = get_set_same get_set_other set_fields_def

lemma take_bit_1_simps [simp]: "take_bit 1 (1 :: u32) = 1" "take_bit 1 (0 :: u32) = 0"
  by simp_all

text \<open>The three initialisation loops, as functions of the index.\<close>

lemma fold_set_pde:
  "fold (\<lambda>i s. set_pde i (f (page_table_addr s) (page_table_vidmap_addr s) i (page_directory s i)) s) [0..<n] s =
   (if n = 0 then s else s\<lparr>page_directory := \<lambda>i. if i < n
       then f (page_table_addr s) (page_table_vidmap_addr s) i (page_directory s i)
       else page_directory s i, tlb_stale := True\<rparr>)"
  by (induction n) (auto simp: set_pde_def fun_eq_iff)

lemma fold_set_pte:
  "fold (\<lambda>i s. set_pte i (f i (page_table s i)) s) [0..<n] s =
   (if n = 0 then s else s\<lparr>page_table := \<lambda>i. if i < n then f i (page_table s i) else page_table s i,
       tlb_stale := True\<rparr>)"
  by (induction n) (auto simp: set_pte_def fun_eq_iff)

lemma fold_set_pte_vidmap:
  "fold (\<lambda>i s. set_pte_vidmap i (f i (page_table_vidmap s i)) s) [0..<n] s =
   (if n = 0 then s else s\<lparr>page_table_vidmap := \<lambda>i. if i < n then f i (page_table_vidmap s i)
       else page_table_vidmap s i, tlb_stale := True\<rparr>)"
  by (induction n) (auto simp: set_pte_vidmap_def fun_eq_iff)

lemma paging_init_simps:
  "page_directory (paging_init s) = (\<lambda>i. if i < 1024
     then init_pde (page_table_addr s) (page_table_vidmap_addr s) i (page_directory s i)
     else page_directory s i)"
  "page_table (paging_init s) = (\<lambda>i. if i < 1024 then init_pte i (page_table s i) else page_table s i)
     (0xBC := set_field f_frame20 0xB8 (set_field f_rw 1 (set_field f_present 1 (init_pte 0xBC (page_table s 0xBC)))))"
  "page_table_vidmap (paging_init s) = (\<lambda>i. if i < 1024
     then init_pte_vidmap i (page_table_vidmap s i) else page_table_vidmap s i)"
  "page_table_addr (paging_init s) = page_table_addr s"
  "page_table_vidmap_addr (paging_init s) = page_table_vidmap_addr s"
  "mem (paging_init s) = mem s" "\<not> tlb_stale (paging_init s)" "cr3_loaded (paging_init s)"
  "paging_on (paging_init s)"
  unfolding paging_init_def Let_def fold_set_pde fold_set_pte fold_set_pte_vidmap
  by (simp_all add: loadPageDirectory_def otherenable_def set_pte_frame_def set_pte_def flush_tlb_def fun_eq_iff)

section \<open>The paging invariant\<close>

text \<open>
  What every operation of the kernel keeps of the paging structures: the two tables hang off
  entries 0 and 33, entry 1 maps the kernel's 4 MB to itself, entry 32 is the user window, nothing
  else is mapped; of the first megabyte only the video page 0xB8, the backup pages 0xB9 to 0xBB
  (mapped to themselves) and 0xBC (always the physical video page) are present, none of them for
  the user; the user's video table has four pages, all of them among the video pages.
\<close>

definition video_frames :: "u32 set" where
  "video_frames = {0xB8, 0xB9, 0xBA, 0xBB}"

definition tables_placed :: "'a paging_state_scheme \<Rightarrow> bool" where
  "tables_placed s \<longleftrightarrow> drop_bit 12 (page_table_addr s) \<noteq> drop_bit 12 (page_table_vidmap_addr s)"

definition directory_ok :: "'a paging_state_scheme \<Rightarrow> bool" where
  "directory_ok s \<longleftrightarrow>
     (let pd = page_directory s in
      get_field f_present (pd 0) = 1 \<and> get_field f_user (pd 0) = 0 \<and> get_field f_ps (pd 0) = 0 \<and>
      get_field f_frame20 (pd 0) = drop_bit 12 (page_table_addr s) \<and>
      get_field f_present (pd 1) = 1 \<and> get_field f_user (pd 1) = 0 \<and> get_field f_ps (pd 1) = 1 \<and>
      get_field f_frame10 (pd 1) = 1 \<and>
      get_field f_present (pd 32) = 1 \<and> get_field f_user (pd 32) = 1 \<and> get_field f_ps (pd 32) = 1 \<and>
      get_field f_present (pd 33) = 1 \<and> get_field f_user (pd 33) = 1 \<and> get_field f_ps (pd 33) = 0 \<and>
      get_field f_frame20 (pd 33) = drop_bit 12 (page_table_vidmap_addr s) \<and>
      (\<forall>i < 1024. i \<notin> {0, 1, 32, 33} \<longrightarrow> pd i = 0))"

definition table_ok :: "'a paging_state_scheme \<Rightarrow> bool" where
  "table_ok s \<longleftrightarrow>
     (let pt = page_table s in
      (\<forall>i < 1024. get_field f_user (pt i) = 0 \<and>
         get_field f_present (pt i) = (if 0xB8 \<le> i \<and> i \<le> 0xBC then 1 else 0)) \<and>
      get_field f_frame20 (pt 0xB8) \<in> video_frames \<and>
      get_field f_frame20 (pt 0xB9) = 0xB9 \<and> get_field f_frame20 (pt 0xBA) = 0xBA \<and>
      get_field f_frame20 (pt 0xBB) = 0xBB \<and> get_field f_frame20 (pt 0xBC) = 0xB8)"

definition vidmap_ok :: "'a paging_state_scheme \<Rightarrow> bool" where
  "vidmap_ok s \<longleftrightarrow>
     (\<forall>i < 1024. get_field f_present (page_table_vidmap s i) = (if i < 4 then 1 else 0)) \<and>
     (\<forall>i < 4. get_field f_frame20 (page_table_vidmap s i) \<in> video_frames \<and>
        get_field f_user (page_table_vidmap s i) = 1)"

definition paging_ok :: "'a paging_state_scheme \<Rightarrow> bool" where
  "paging_ok s \<longleftrightarrow> tables_placed s \<and> directory_ok s \<and> table_ok s \<and> vidmap_ok s"

lemma drop_12_take_20: "take_bit 20 (drop_bit 12 (w :: u32)) = drop_bit 12 w"
  by (rule bit_word_eqI) (auto simp: bit_simps dest: bit_imp_le_length)

lemma paging_init_directory: "tables_placed s \<Longrightarrow> directory_ok (paging_init s)"
  by (simp add: directory_ok_def Let_def paging_init_simps init_pde_def field_simps' drop_12_take_20)

lemma paging_init_table: "table_ok (paging_init s)"
  by (auto simp add: table_ok_def Let_def paging_init_simps init_pte_def field_simps' video_frames_def)

lemma paging_init_vidmap: "vidmap_ok (paging_init s)"
  by (auto simp add: vidmap_ok_def Let_def paging_init_simps init_pte_vidmap_def field_simps' video_frames_def)

section \<open>What the tables map\<close>

lemma get_field_0 [simp]: "get_field f 0 = 0"
  by (simp add: get_field_def)

text \<open>The page frame of entry 0xB8, which is where the kernel's \<open>video_mem\<close> writes go.\<close>

definition video_frame :: "'a paging_state_scheme \<Rightarrow> nat" where
  "video_frame s = unat (get_field f_frame20 (page_table s 0xB8))"

text \<open>The 4 MB frame the user window is mapped to.\<close>

definition user_frame :: "'a paging_state_scheme \<Rightarrow> nat" where
  "user_frame s = unat (get_field f_frame10 (page_directory s 32))"

definition vidmap_frame :: "'a paging_state_scheme \<Rightarrow> nat \<Rightarrow> nat" where
  "vidmap_frame s i = unat (get_field f_frame20 (page_table_vidmap s i))"

lemma table_at_page_table [simp]: "table_at s (drop_bit 12 (page_table_addr s)) = page_table s"
  by (simp add: table_at_def)

lemma table_at_vidmap [simp]:
  "tables_placed s \<Longrightarrow> table_at s (drop_bit 12 (page_table_vidmap_addr s)) = page_table_vidmap s"
  by (auto simp: table_at_def tables_placed_def)

lemma mmu_low:
  assumes "paging_ok s" "va < 0x400000"
  shows "mmu s va =
    (if 0xB8 \<le> va div 0x1000 \<and> va div 0x1000 \<le> 0xBC
     then Some (unat (get_field f_frame20 (page_table s (va div 0x1000))) * 0x1000 + va mod 0x1000)
     else None)"
proof -
  have i: "va div 0x400000 = 0" "va div 0x1000 mod 1024 = va div 0x1000" "va div 0x1000 < 1024"
    using assms(2) by (auto simp: less_mult_imp_div_less)
  show ?thesis using assms(1) i
    by (simp add: mmu_def Let_def paging_ok_def directory_ok_def table_ok_def)
qed

lemma mmu_kernel:
  assumes "paging_ok s" "0x400000 \<le> va" "va < 0x800000"
  shows "mmu s va = Some va"
proof -
  have i: "va div 0x400000 = 1" using assms(2,3) by (intro div_nat_eqI) auto
  with assms(1) have "mmu s va = Some (0x400000 + va mod 0x400000)"
    by (simp add: mmu_def Let_def paging_ok_def directory_ok_def)
  moreover have "0x400000 + va mod 0x400000 = va" using div_mult_mod_eq [of va "0x400000"] i by simp
  ultimately show ?thesis by simp
qed

lemma mmu_user:
  assumes "paging_ok s" "0x8000000 \<le> va" "va < 0x8400000"
  shows "mmu s va = Some (user_frame s * 0x400000 + (va - 0x8000000))"
proof -
  have i: "va div 0x400000 = 32" using assms(2,3) by (intro div_nat_eqI) auto
  with assms(1) have "mmu s va = Some (user_frame s * 0x400000 + va mod 0x400000)"
    by (simp add: mmu_def Let_def paging_ok_def directory_ok_def user_frame_def)
  moreover have "va mod 0x400000 = va - 0x8000000" using div_mult_mod_eq [of va "0x400000"] i by simp
  ultimately show ?thesis by simp
qed

lemma mmu_vidmap:
  assumes "paging_ok s" "0x8400000 \<le> va" "va < 0x8800000"
  shows "mmu s va =
    (if va < 0x8404000
     then Some (vidmap_frame s ((va - 0x8400000) div 0x1000) * 0x1000 + va mod 0x1000) else None)"
proof -
  have i: "va div 0x400000 = 33" using assms(2,3) by (intro div_nat_eqI) auto
  define j where "j = (va - 0x8400000) div 0x1000"
  have dj: "va div 0x1000 = 33 * 1024 + j"
    using assms(2) div_mult_self1 [of "0x1000" "va - 0x8400000" "33 * 1024"] by (simp add: j_def)
  moreover have j: "j < 1024" using assms(2,3) by (simp add: j_def less_mult_imp_div_less)
  ultimately have "va div 0x1000 mod 1024 = j"
    unfolding dj mod_mult_self3 by simp
  with assms(1) i j have "mmu s va =
    (if j < 4 then Some (vidmap_frame s j * 0x1000 + va mod 0x1000) else None)"
    by (simp add: mmu_def Let_def paging_ok_def directory_ok_def vidmap_ok_def vidmap_frame_def)
  moreover have "j < 4 \<longleftrightarrow> va < 0x8404000"
    using assms(2) by (auto simp: j_def div_less_iff_less_mult)
  ultimately show ?thesis by (simp add: j_def)
qed

lemma mmu_unmapped:
  assumes "paging_ok s" "va < 2 ^ 32" "0x800000 \<le> va" "va < 0x8000000 \<or> 0x8800000 \<le> va"
  shows "mmu s va = None"
proof -
  let ?i = "va div 0x400000"
  have "?i < 1024" using assms(2) by (simp add: less_mult_imp_div_less)
  moreover have "?i \<notin> {0, 1, 32, 33}"
  proof
    assume "?i \<in> {0, 1, 32, 33}"
    with assms(3,4) show False using div_mult_mod_eq [of va "0x400000"] mod_less_divisor [of "0x400000" va]
      by auto
  qed
  ultimately have "page_directory s ?i = 0"
    using assms(1) by (simp add: paging_ok_def directory_ok_def Let_def)
  then show ?thesis by (simp add: mmu_def)
qed

text \<open>The addresses of the video pages, as the console uses them.\<close>

lemma mmu_video_mem:
  "paging_ok s \<Longrightarrow> 0xB8000 \<le> va \<Longrightarrow> va < 0xB9000 \<Longrightarrow>
     mmu s va = Some (video_frame s * 0x1000 + (va - 0xB8000))"
proof -
  assume "paging_ok s" "0xB8000 \<le> va" "va < 0xB9000"
  moreover from this have "va div 0x1000 = 0xB8" by (intro div_nat_eqI) auto
  moreover from this have "va mod 0x1000 = va - 0xB8000" using div_mult_mod_eq [of va "0x1000"] by simp
  ultimately show ?thesis by (simp add: mmu_low video_frame_def)
qed

lemma mmu_backup:
  assumes "paging_ok s" "0xB9000 \<le> va" "va < 0xBC000"
  shows "mmu s va = Some va"
proof -
  have "va div 0x1000 = 0xB9 \<or> va div 0x1000 = 0xBA \<or> va div 0x1000 = 0xBB"
    using assms(2,3) by linarith
  moreover have "va mod 0x1000 = va - va div 0x1000 * 0x1000" by (rule modulo_nat_def)
  ultimately show ?thesis using assms
    by (auto simp: mmu_low paging_ok_def table_ok_def Let_def)
qed

lemma mmu_putck:
  assumes "paging_ok s" "0xBC000 \<le> va" "va < 0xBD000"
  shows "mmu s va = Some (0xB8000 + (va - 0xBC000))"
proof -
  have i: "va div 0x1000 = 0xBC" using assms(2,3) by (intro div_nat_eqI) auto
  then have "va mod 0x1000 = va - 0xBC000" using div_mult_mod_eq [of va "0x1000"] by simp
  with i assms show ?thesis by (simp add: mmu_low paging_ok_def table_ok_def Let_def)
qed

text \<open>The whole map of the 32-bit address space in one function.\<close>

definition address_map :: "nat \<Rightarrow> nat \<Rightarrow> (nat \<Rightarrow> nat) \<Rightarrow> nat \<Rightarrow> nat option" where
  "address_map vf uf vm va =
     (if 0xB8000 \<le> va \<and> va < 0xB9000 then Some (vf * 0x1000 + (va - 0xB8000))
      else if 0xB9000 \<le> va \<and> va < 0xBC000 then Some va
      else if 0xBC000 \<le> va \<and> va < 0xBD000 then Some (0xB8000 + (va - 0xBC000))
      else if 0x400000 \<le> va \<and> va < 0x800000 then Some va
      else if 0x8000000 \<le> va \<and> va < 0x8400000 then Some (uf * 0x400000 + (va - 0x8000000))
      else if 0x8400000 \<le> va \<and> va < 0x8404000
        then Some (vm ((va - 0x8400000) div 0x1000) * 0x1000 + va mod 0x1000)
      else None)"

lemma mmu_address_map:
  assumes "paging_ok s" "va < 2 ^ 32"
  shows "mmu s va = address_map (video_frame s) (user_frame s) (vidmap_frame s) va"
proof -
  consider "va < 0xB8000" | "0xB8000 \<le> va" "va < 0xB9000" | "0xB9000 \<le> va" "va < 0xBC000"
    | "0xBC000 \<le> va" "va < 0xBD000" | "0xBD000 \<le> va" "va < 0x400000"
    | "0x400000 \<le> va" "va < 0x800000" | "0x800000 \<le> va" "va < 0x8000000"
    | "0x8000000 \<le> va" "va < 0x8400000" | "0x8400000 \<le> va" "va < 0x8800000" | "0x8800000 \<le> va"
    using not_le_imp_less by blast
  then show ?thesis
  proof cases
    case 1
    then have "va div 0x1000 < 0xB8" by (simp add: less_mult_imp_div_less)
    with 1 assms(1) show ?thesis by (simp add: mmu_low address_map_def)
  next
    case 5
    then have "0xBD \<le> va div 0x1000" by (simp add: less_eq_div_iff_mult_less_eq)
    with 5 assms(1) show ?thesis by (simp add: mmu_low address_map_def)
  next
    case 2
    then show ?thesis using mmu_video_mem [OF assms(1), of va] by (simp add: address_map_def)
  next
    case 3
    then show ?thesis using mmu_backup [OF assms(1), of va] by (simp add: address_map_def)
  next
    case 4
    then show ?thesis using mmu_putck [OF assms(1), of va] by (simp add: address_map_def)
  next
    case 6
    then show ?thesis using mmu_kernel [OF assms(1), of va] by (simp add: address_map_def)
  next
    case 8
    then show ?thesis using mmu_user [OF assms(1), of va] by (simp add: address_map_def)
  next
    case 9
    then show ?thesis using mmu_vidmap [OF assms(1), of va] by (simp add: address_map_def)
  next
    case 7
    then show ?thesis using mmu_unmapped [OF assms, simplified] by (simp add: address_map_def)
  next
    case 10
    then show ?thesis using mmu_unmapped [OF assms, simplified] by (simp add: address_map_def)
  qed
qed

lemma paging_init_ok: "tables_placed s \<Longrightarrow> paging_ok (paging_init s)"
  using paging_init_directory [of s] paging_init_table [of s] paging_init_vidmap [of s]
  by (simp add: paging_ok_def tables_placed_def paging_init_simps)

lemma paging_init_frames:
  "video_frame (paging_init s) = 0xB8" "user_frame (paging_init s) = 32"
  "i < 4 \<Longrightarrow> vidmap_frame (paging_init s) i = 0xB8 + i"
proof -
  assume "i < 4"
  then consider "i = 0" | "i = 1" | "i = 2" | "i = 3" by linarith
  then show "vidmap_frame (paging_init s) i = 0xB8 + i"
    by cases (simp_all add: vidmap_frame_def paging_init_simps init_pte_vidmap_def field_simps')
qed (simp_all add: video_frame_def user_frame_def paging_init_simps init_pte_def init_pde_def Let_def field_simps')

text \<open>
  C24. paging_init maps exactly: the video page and its three backup pages to themselves, 0xBC000 to
  the video page, the kernel's 4 MB to themselves, the user window at 128 MB, and four user video
  pages at 132 MB; every other address of the 32-bit space faults.
\<close>

theorem paging_init_address_map:
  assumes "tables_placed s" "va < 2 ^ 32"
  shows "mmu (paging_init s) va = address_map 0xB8 32 (\<lambda>i. 0xB8 + i) va"
proof -
  have "mmu (paging_init s) va = address_map 0xB8 32 (vidmap_frame (paging_init s)) va"
    using mmu_address_map [OF paging_init_ok [OF assms(1)] assms(2)] by (simp add: paging_init_frames)
  moreover have "(va - 0x8400000) div 0x1000 < 4" if "va < 0x8404000"
    using that by (simp add: less_mult_imp_div_less)
  ultimately show ?thesis by (simp add: address_map_def paging_init_frames)
qed

text \<open>A state before \<open>paging_init\<close>, with the tables at two distinct pages of the kernel image.\<close>

definition boot_paging_state :: paging_state where
  "boot_paging_state = \<lparr>io_log = [], iflag = False, master_mask = 0, slave_mask = 0,
     mem = (\<lambda>_. 0), page_directory = (\<lambda>_. 0), page_table = (\<lambda>_. 0), page_table_vidmap = (\<lambda>_. 0),
     page_table_addr = 0x40A000, page_table_vidmap_addr = 0x40B000, cr3_loaded = False,
     paging_on = False, tlb_stale = False\<rparr>"

lemma boot_tables_placed: "tables_placed boot_paging_state"
  by (simp add: tables_placed_def boot_paging_state_def)

theorem paging_init_address_map_witness:
  "mmu (paging_init boot_paging_state) 0xBC004 = Some 0xB8004"
  using paging_init_address_map [OF boot_tables_placed, of "0xBC004"] by (simp add: address_map_def)

section \<open>User accesses\<close>

lemma user_access:
  assumes "paging_ok s" "va < 2 ^ 32" "user_mmu s va = Some pa"
  shows "(0x8000000 \<le> va \<and> va < 0x8400000 \<and> pa = user_frame s * 0x400000 + (va - 0x8000000))
    \<or> (0x8400000 \<le> va \<and> va < 0x8404000 \<and> 0xB8000 \<le> pa \<and> pa < 0xBC000)"
proof -
  let ?i = "va div 0x400000"
  have m: "mmu s va = Some pa" and u: "get_field f_user (page_directory s ?i) = 1"
    using assms(3) by (auto simp: user_mmu_def Let_def split: if_splits)
  have "get_field f_user (page_directory s 0) = 0" "get_field f_user (page_directory s 1) = 0"
    using assms(1) by (simp_all add: paging_ok_def directory_ok_def Let_def)
  with u have "?i \<noteq> 0" "?i \<noteq> 1" by (metis zero_neq_one)+
  then have "0x800000 \<le> va" using div_nat_eqI [of 1 "0x400000" va] by (auto simp: div_eq_0_iff not_less)
  with m mmu_address_map [OF assms(1,2)] have a: "0x8000000 \<le> va" "va < 0x8404000"
    by (auto simp: address_map_def split: if_splits)
  show ?thesis
  proof (cases "va < 0x8400000")
    case True
    with a m assms(1) show ?thesis by (simp add: mmu_user)
  next
    case False
    let ?j = "(va - 0x8400000) div 0x1000"
    have "?j < 4" using a(2) by (simp add: less_mult_imp_div_less)
    with assms(1) have "get_field f_frame20 (page_table_vidmap s ?j) \<in> video_frames"
      by (simp add: paging_ok_def vidmap_ok_def)
    then have "0xB8 \<le> vidmap_frame s ?j" "vidmap_frame s ?j \<le> 0xBB"
      by (auto simp: vidmap_frame_def video_frames_def)
    moreover have "pa = vidmap_frame s ?j * 0x1000 + va mod 0x1000"
      using m a False assms(1) by (simp add: mmu_vidmap)
    moreover have "va mod 0x1000 < 0x1000" by simp
    ultimately have "0xB8000 \<le> pa" "pa < 0xBC000" by linarith+
    with a False show ?thesis by simp
  qed
qed



section \<open>Assignments that keep the invariant\<close>

lemma paging_ok_user_frame [kinv]:
  "paging_ok s \<Longrightarrow> paging_ok (set_pde_frame4mb 32 v s)"
  by (simp add: paging_ok_def set_pde_frame4mb_def set_pde_def tables_placed_def directory_ok_def
      table_ok_def vidmap_ok_def Let_def field_simps')

lemma paging_ok_vidmap_pde [kinv]:
  "paging_ok s \<Longrightarrow> paging_ok (set_pde_frame4kb 33 (drop_bit 12 (page_table_vidmap_addr s)) s)"
  by (simp add: paging_ok_def set_pde_frame4kb_def set_pde_def tables_placed_def directory_ok_def
      table_ok_def vidmap_ok_def Let_def field_simps' drop_12_take_20)

lemma video_frames_20: "v \<in> video_frames \<Longrightarrow> take_bit 20 v = v"
  by (auto simp: video_frames_def)

lemma paging_ok_video_frame [kinv]:
  "paging_ok s \<Longrightarrow> v \<in> video_frames \<Longrightarrow> paging_ok (set_pte_frame 0xB8 v s)"
  by (auto simp add: paging_ok_def set_pte_frame_def set_pte_def tables_placed_def directory_ok_def
      table_ok_def vidmap_ok_def Let_def field_simps' video_frames_20)

lemma paging_ok_vidmap_frame [kinv]:
  "paging_ok s \<Longrightarrow> v \<in> video_frames \<Longrightarrow> paging_ok (set_pte_vidmap_frame i v s)"
  by (auto simp add: paging_ok_def set_pte_vidmap_frame_def set_pte_vidmap_def tables_placed_def
      directory_ok_def table_ok_def vidmap_ok_def Let_def field_simps' video_frames_20)

lemma paging_ok_flush [kinv]: "paging_ok s \<Longrightarrow> paging_ok (flush_tlb s)"
  by (simp add: paging_ok_def flush_tlb_def tables_placed_def directory_ok_def table_ok_def vidmap_ok_def)

lemma user_frame_set:
  "v < 1024 \<Longrightarrow> user_frame (set_pde_frame4mb 32 (word_of_nat v) s) = v"
  by (simp add: user_frame_def set_pde_frame4mb_def set_pde_def field_simps' unsigned_take_bit_eq
      unat_of_nat take_bit_nat_eq_self_iff)

lemma video_frame_set:
  "v \<in> video_frames \<Longrightarrow> video_frame (set_pte_frame 0xB8 v s) = unat v"
  by (simp add: video_frame_def set_pte_frame_def set_pte_def field_simps' video_frames_20)

section \<open>What the invariant depends on\<close>

text \<open>The paging structures of a state; everything defined above is a function of them.\<close>

definition paging_of :: "'a paging_state_scheme \<Rightarrow> (nat \<Rightarrow> u32) \<times> (nat \<Rightarrow> u32) \<times> (nat \<Rightarrow> u32) \<times> u32 \<times> u32" where
  "paging_of s = (page_directory s, page_table s, page_table_vidmap s, page_table_addr s, page_table_vidmap_addr s)"

lemma paging_cong:
  assumes "paging_of s = paging_of t"
  shows "paging_ok s = paging_ok t" "mmu s = mmu t" "user_mmu s = user_mmu t"
    "video_frame s = video_frame t" "user_frame s = user_frame t" "vidmap_frame s = vidmap_frame t"
proof -
  have eq: "page_directory s = page_directory t" "page_table s = page_table t"
    "page_table_vidmap s = page_table_vidmap t" "page_table_addr s = page_table_addr t"
    "page_table_vidmap_addr s = page_table_vidmap_addr t"
    using assms by (simp_all add: paging_of_def)
  have ta: "table_at s = table_at t"
    by (intro ext) (simp add: table_at_def eq)
  show mmu: "mmu s = mmu t"
    by (rule ext) (simp only: mmu_def eq ta)
  show "paging_ok s = paging_ok t"
    by (simp add: paging_ok_def tables_placed_def directory_ok_def table_ok_def vidmap_ok_def eq)
  show "user_mmu s = user_mmu t"
    by (rule ext) (simp only: user_mmu_def eq ta mmu)
  show "video_frame s = video_frame t" "user_frame s = user_frame t" "vidmap_frame s = vidmap_frame t"
    by (simp_all add: video_frame_def user_frame_def vidmap_frame_def eq fun_eq_iff)
qed

end
