(* ===== verification/Console.thy ===== *)
theory Console
  imports Paging
begin

text \<open>
  The text console of lib.c: clear, cleark, update_cursor, putc, putck, puts, scroll, scrollk and
  test_interrupts, with the terminal structures of terminal.h they work on.

  The console writes through the page tables.  \<open>vread\<close> and \<open>vwrite\<close> are the kernel's accesses to a
  virtual address; a write to an address that is not mapped is recorded in \<open>page_faults\<close> (the
  lemmas show that none happens under the paging invariant).  The pointers \<open>video_mem\<close> and
  \<open>putck_vidMem\<close> never change their values, so they are constants here.

  The first part is the code, the second an abstract screen (a cursor and a list of 2000 cells)
  with the proof that the code implements it.
\<close>

section \<open>Terminals\<close>

record terminal_t =
  rtc_interrupt_occured :: int
  rtc_counter :: int
  counter_freqRate :: int
  screen_x :: int
  screen_y :: int
  active_pid :: int
  base_pid :: int
  num_pids :: int
  status :: int
  r_flag :: int
  read_buffer :: carray
  rb_idx :: byte
  VRAM_addr :: u32

record console_state = paging_state +
  terminals :: "nat \<Rightarrow> terminal_t"
  running_term :: nat
  sched_term :: nat
  visible_term :: nat
  next_terminal :: nat
  page_faults :: "nat list"

abbreviation video_mem :: nat where "video_mem \<equiv> 0xB8000"
abbreviation putck_vidMem :: nat where "putck_vidMem \<equiv> 0xBC000"

abbreviation NUM_COLS :: int where "NUM_COLS \<equiv> 80"
abbreviation NUM_ROWS :: int where "NUM_ROWS \<equiv> 25"
abbreviation ATTRIB :: byte where "ATTRIB \<equiv> 0x1F"
abbreviation SPACE :: byte where "SPACE \<equiv> 0x20"

definition upd_term :: "nat \<Rightarrow> (terminal_t \<Rightarrow> terminal_t) \<Rightarrow> 'a console_state_scheme \<Rightarrow> 'a console_state_scheme" where
  "upd_term i f s = s\<lparr>terminals := (terminals s)(i := f (terminals s i))\<rparr>"

section \<open>Accesses through the page tables\<close>

definition vread :: "'a console_state_scheme \<Rightarrow> nat \<Rightarrow> byte" where
  "vread s va = (case mmu s va of None \<Rightarrow> 0 | Some pa \<Rightarrow> mem s pa)"

definition vwrite :: "nat \<Rightarrow> byte \<Rightarrow> 'a console_state_scheme \<Rightarrow> 'a console_state_scheme" where
  "vwrite va v s = (case mmu s va of
     None \<Rightarrow> s\<lparr>page_faults := page_faults s @ [va]\<rparr>
   | Some pa \<Rightarrow> s\<lparr>mem := (mem s)(pa := v)\<rparr>)"

text \<open>The address of the character of screen cell \<open>k\<close>; its attribute byte follows.\<close>

definition cell :: "nat \<Rightarrow> int \<Rightarrow> nat" where
  "cell vm k = unat (word_of_int (int vm + 2 * k) :: u32)"

definition write_cell :: "nat \<Rightarrow> int \<Rightarrow> byte \<Rightarrow> byte \<Rightarrow> 'a console_state_scheme \<Rightarrow> 'a console_state_scheme" where
  "write_cell vm k c a s = vwrite (cell vm k + 1) a (vwrite (cell vm k) c s)"

section \<open>The code\<close>

definition update_cursor :: "'a console_state_scheme \<Rightarrow> 'a console_state_scheme" where
  "update_cursor s =
     (let t = terminals s (visible_term s);
          pos = word_of_int (screen_y t * NUM_COLS + screen_x t) :: u16;
          s = outb 0x0F 0x3D4 s;
          s = outb (ucast (pos AND 0xFF)) 0x3D5 s;
          s = outb 0x0E 0x3D4 s
      in outb (ucast (drop_bit 8 pos AND 0xFF)) 0x3D5 s)"

definition update_cursork :: "'a console_state_scheme \<Rightarrow> 'a console_state_scheme" where
  "update_cursork s =
     (let t = terminals s (visible_term s);
          pos = word_of_int (screen_y t * NUM_COLS + screen_x t) :: u16;
          s = outb 0x0F 0x3D4 s;
          s = outb (ucast (pos AND 0xFF)) 0x3D5 s;
          s = outb 0x0E 0x3D4 s
      in outb (ucast (drop_bit 8 pos AND 0xFF)) 0x3D5 s)"

text \<open>The loops that blank all 2000 cells, or those of the bottom row, seen from one pointer.\<close>

definition blank_cells :: "nat \<Rightarrow> nat \<Rightarrow> nat \<Rightarrow> 'a console_state_scheme \<Rightarrow> 'a console_state_scheme" where
  "blank_cells vm a b s = fold (\<lambda>i. write_cell vm (int i) SPACE ATTRIB) [a..<b] s"

definition clear :: "'a console_state_scheme \<Rightarrow> 'a console_state_scheme" where
  "clear s =
     (let s = upd_term (sched_term s) (\<lambda>t. t\<lparr>screen_x := 0\<rparr>) s;
          s = upd_term (sched_term s) (\<lambda>t. t\<lparr>screen_y := 0\<rparr>) s;
          s = update_cursor s
      in blank_cells video_mem 0 2000 s)"

definition cleark :: "'a console_state_scheme \<Rightarrow> 'a console_state_scheme" where
  "cleark s =
     (let s = upd_term (visible_term s) (\<lambda>t. t\<lparr>screen_x := 0\<rparr>) s;
          s = upd_term (visible_term s) (\<lambda>t. t\<lparr>screen_y := 0\<rparr>) s;
          s = update_cursork s
      in blank_cells putck_vidMem 0 2000 s)"

text \<open>One step of the scroll loops: cell (row - 1, col) receives cell (row, col), byte by byte.\<close>

definition copy_cell :: "nat \<Rightarrow> int \<Rightarrow> int \<Rightarrow> 'a console_state_scheme \<Rightarrow> 'a console_state_scheme" where
  "copy_cell vm row col s =
     (let d = cell vm (NUM_COLS * (row - 1) + col);
          a = cell vm (NUM_COLS * row + col);
          s = vwrite d (vread s a) s
      in vwrite (d + 1) (vread s (a + 1)) s)"

definition scroll_at :: "nat \<Rightarrow> 'a console_state_scheme \<Rightarrow> 'a console_state_scheme" where
  "scroll_at vm s =
     (let s = fold (\<lambda>row. fold (\<lambda>col. copy_cell vm (int row) (int col)) [0..<80]) [1..<25] s
      in fold (\<lambda>col. write_cell vm (NUM_COLS * (NUM_ROWS - 1) + int col) SPACE ATTRIB) [0..<80] s)"

definition scroll :: "'a console_state_scheme \<Rightarrow> 'a console_state_scheme" where
  "scroll = scroll_at video_mem"

definition scrollk :: "'a console_state_scheme \<Rightarrow> 'a console_state_scheme" where
  "scrollk = scroll_at putck_vidMem"

definition cursor_cell :: "nat \<Rightarrow> 'a console_state_scheme \<Rightarrow> int" where
  "cursor_cell i s = NUM_COLS * screen_y (terminals s i) + screen_x (terminals s i)"

definition putc :: "byte \<Rightarrow> 'a console_state_scheme \<Rightarrow> 'a console_state_scheme" where
  "putc c s =
     (let k = sched_term s in
      if c = NUL then s
      else if c = 0x0A \<or> c = 0x0D then
        let s = upd_term k (\<lambda>t. t\<lparr>screen_y := screen_y t + 1\<rparr>) s;
            s = upd_term k (\<lambda>t. t\<lparr>screen_x := 0\<rparr>) s;
            s = update_cursor s
        in if screen_y (terminals s k) \<ge> NUM_ROWS
           then upd_term k (\<lambda>t. t\<lparr>screen_y := NUM_ROWS - 1\<rparr>) (scroll s) else s
      else if c = 0x08 then
        let s = (if screen_x (terminals s k) = 0 then
                   (if screen_y (terminals s k) > 0 then
                      upd_term k (\<lambda>t. t\<lparr>screen_x := NUM_COLS - 1\<rparr>)
                        (upd_term k (\<lambda>t. t\<lparr>screen_y := screen_y t - 1\<rparr>) s)
                    else s)
                 else upd_term k (\<lambda>t. t\<lparr>screen_x := screen_x t - 1\<rparr>) s);
            s = write_cell video_mem (cursor_cell k s) SPACE ATTRIB s
        in update_cursor s
      else
        let s = (if screen_x (terminals s k) \<ge> NUM_COLS then
                   let s = upd_term k (\<lambda>t. t\<lparr>screen_x := 0\<rparr>) s;
                       s = upd_term k (\<lambda>t. t\<lparr>screen_y := screen_y t + 1\<rparr>) s
                   in if screen_y (terminals s k) \<ge> NUM_ROWS
                      then upd_term k (\<lambda>t. t\<lparr>screen_y := NUM_ROWS - 1\<rparr>) (scroll s) else s
                 else s);
            s = write_cell video_mem (cursor_cell k s) c ATTRIB s;
            s = upd_term k (\<lambda>t. t\<lparr>screen_x := screen_x t + 1\<rparr>) s
        in update_cursor s)"

text \<open>
  putck moves the visible terminal's cursor and writes the character through \<open>putck_vidMem\<close>, but
  the attribute byte goes through \<open>video_mem\<close> to the cell of the scheduled terminal's cursor.
\<close>

definition write_cellk :: "byte \<Rightarrow> 'a console_state_scheme \<Rightarrow> 'a console_state_scheme" where
  "write_cellk c s =
     (let s = vwrite (cell putck_vidMem (cursor_cell (visible_term s) s)) c s
      in vwrite (cell video_mem (cursor_cell (sched_term s) s) + 1) ATTRIB s)"

definition putck :: "byte \<Rightarrow> 'a console_state_scheme \<Rightarrow> 'a console_state_scheme" where
  "putck c s =
     (let k = visible_term s in
      if c = 0x0A \<or> c = 0x0D then
        let s = upd_term k (\<lambda>t. t\<lparr>screen_y := screen_y t + 1\<rparr>) s;
            s = upd_term k (\<lambda>t. t\<lparr>screen_x := 0\<rparr>) s;
            s = update_cursork s
        in if screen_y (terminals s k) \<ge> NUM_ROWS
           then upd_term k (\<lambda>t. t\<lparr>screen_y := NUM_ROWS - 1\<rparr>) (scrollk s) else s
      else if c = 0x08 then
        let s = (if screen_x (terminals s k) = 0 then
                   (if screen_y (terminals s k) > 0 then
                      upd_term k (\<lambda>t. t\<lparr>screen_x := NUM_COLS - 1\<rparr>)
                        (upd_term k (\<lambda>t. t\<lparr>screen_y := screen_y t - 1\<rparr>) s)
                    else s)
                 else upd_term k (\<lambda>t. t\<lparr>screen_x := screen_x t - 1\<rparr>) s);
            s = write_cellk SPACE s
        in update_cursork s
      else
        let s = (if screen_x (terminals s k) \<ge> NUM_COLS then
                   let s = upd_term k (\<lambda>t. t\<lparr>screen_x := 0\<rparr>) s;
                       s = upd_term k (\<lambda>t. t\<lparr>screen_y := screen_y t + 1\<rparr>) s
                   in if screen_y (terminals s k) \<ge> NUM_ROWS
                      then upd_term k (\<lambda>t. t\<lparr>screen_y := NUM_ROWS - 1\<rparr>) (scrollk s) else s
                 else s);
            s = write_cellk c s;
            s = upd_term k (\<lambda>t. t\<lparr>screen_x := screen_x t + 1\<rparr>) s
        in update_cursork s)"

definition puts :: "carray \<Rightarrow> 'a console_state_scheme \<Rightarrow> (int \<times> 'a console_state_scheme) option" where
  "puts p s = do { n \<leftarrow> strlen p; Some (int n, fold (\<lambda>i. putc (p i)) [0..<n] s) }"

definition test_interrupts :: "'a console_state_scheme \<Rightarrow> 'a console_state_scheme" where
  "test_interrupts s =
     fold (\<lambda>i s. vwrite (cell video_mem (int i)) (vread s (cell video_mem (int i)) + 1) s) [0..<2000] s"

section \<open>What the steps leave alone\<close>

lemma upd_term_simps [simp]:
  "terminals (upd_term i f s) = (terminals s)(i := f (terminals s i))"
  "sched_term (upd_term i f s) = sched_term s" "visible_term (upd_term i f s) = visible_term s"
  "running_term (upd_term i f s) = running_term s" "next_terminal (upd_term i f s) = next_terminal s"
  "page_faults (upd_term i f s) = page_faults s" "mem (upd_term i f s) = mem s"
  "io_log (upd_term i f s) = io_log s" "iflag (upd_term i f s) = iflag s"
  "paging_of (upd_term i f s) = paging_of s" "console_state.more (upd_term i f s) = console_state.more s"
  by (simp_all add: upd_term_def paging_of_def)

lemma vwrite_simps [simp]:
  "terminals (vwrite va v s) = terminals s"
  "sched_term (vwrite va v s) = sched_term s" "visible_term (vwrite va v s) = visible_term s"
  "running_term (vwrite va v s) = running_term s" "next_terminal (vwrite va v s) = next_terminal s"
  "io_log (vwrite va v s) = io_log s" "iflag (vwrite va v s) = iflag s"
  "paging_of (vwrite va v s) = paging_of s" "console_state.more (vwrite va v s) = console_state.more s"
  by (simp_all add: vwrite_def paging_of_def split: option.split)

lemma update_cursor_simps [simp]:
  "terminals (update_cursor s) = terminals s"
  "sched_term (update_cursor s) = sched_term s" "visible_term (update_cursor s) = visible_term s"
  "running_term (update_cursor s) = running_term s" "next_terminal (update_cursor s) = next_terminal s"
  "page_faults (update_cursor s) = page_faults s" "mem (update_cursor s) = mem s"
  "iflag (update_cursor s) = iflag s" "paging_of (update_cursor s) = paging_of s"
  "console_state.more (update_cursor s) = console_state.more s"
  by (simp_all add: update_cursor_def Let_def outb_def paging_of_def)

lemma update_cursork_eq [simp]: "update_cursork = update_cursor"
  by (simp add: fun_eq_iff update_cursork_def update_cursor_def)

lemmas upd_term_paging [simp] = paging_cong [OF upd_term_simps(10)]
lemmas vwrite_paging [simp] = paging_cong [OF vwrite_simps(8)]
lemmas update_cursor_paging [simp] = paging_cong [OF update_cursor_simps(9)]

lemma paging_of_mem_update [simp]: "paging_of (s\<lparr>mem := m\<rparr>) = paging_of s"
  by (simp add: paging_of_def)

lemmas mem_update_paging [simp] = paging_cong [OF paging_of_mem_update]

section \<open>Windows onto physical pages\<close>

text \<open>The 4 KB seen from \<open>vm\<close> are the physical bytes from \<open>base\<close> on.\<close>

definition window :: "nat \<Rightarrow> nat \<Rightarrow> 'a paging_state_scheme \<Rightarrow> bool" where
  "window vm base s \<longleftrightarrow> vm \<le> 0xBC000 \<and> (\<forall>k < 0x1000. mmu s (vm + k) = Some (base + k))"

definition video_base :: "'a paging_state_scheme \<Rightarrow> nat" where
  "video_base s = video_frame s * 0x1000"

lemma window_video: "paging_ok s \<Longrightarrow> window video_mem (video_base s) s"
  by (simp add: window_def video_base_def mmu_video_mem)

lemma window_putck: "paging_ok s \<Longrightarrow> window putck_vidMem 0xB8000 s"
  by (simp add: window_def mmu_putck)

lemma window_cong: "paging_of s = paging_of t \<Longrightarrow> window vm base s = window vm base t"
  by (simp only: window_def paging_cong(2) [of s t])

lemma cell_eq: "0 \<le> k \<Longrightarrow> k < 2000 \<Longrightarrow> vm \<le> 0xBC000 \<Longrightarrow> cell vm k = vm + 2 * nat k"
proof -
  assume k: "0 \<le> k" "k < 2000" "vm \<le> 0xBC000"
  then have "int vm + 2 * k = int (vm + 2 * nat k)" by simp
  then have "cell vm k = unat (word_of_nat (vm + 2 * nat k) :: u32)"
    by (simp only: cell_def of_int_of_nat_eq)
  also have "\<dots> = vm + 2 * nat k"
    unfolding unat_of_nat by (rule mod_less) (use k in simp)
  finally show ?thesis .
qed

lemma vwrite_window:
  "window vm base s \<Longrightarrow> k < 0x1000 \<Longrightarrow> vwrite (vm + k) v s = s\<lparr>mem := (mem s)(base + k := v)\<rparr>"
  by (simp add: window_def vwrite_def)

lemma vread_window: "window vm base s \<Longrightarrow> k < 0x1000 \<Longrightarrow> vread s (vm + k) = mem s (base + k)"
  by (simp add: window_def vread_def)

lemma window_mem [simp]: "window vm base (s\<lparr>mem := m\<rparr>) = window vm base s"
  by (simp add: window_def)

lemma write_cell_window:
  assumes "window vm base s" "0 \<le> k" "k < 2000"
  shows "write_cell vm k c a s = s\<lparr>mem := (mem s)(base + 2 * nat k := c, base + 2 * nat k + 1 := a)\<rparr>"
proof -
  have vm: "vm \<le> 0xBC000" using assms(1) by (simp add: window_def)
  have "cell vm k = vm + 2 * nat k" using assms vm by (simp add: cell_eq)
  moreover have "2 * nat k + 1 < 0x1000" using assms by simp
  ultimately show ?thesis
    using vwrite_window [OF assms(1), of "2 * nat k" c]
      vwrite_window [of vm base "s\<lparr>mem := (mem s)(base + 2 * nat k := c)\<rparr>" "2 * nat k + 1" a] assms(1)
    by (simp add: write_cell_def add.assoc)
qed

lemma copy_cell_window:
  assumes "window vm base s" "1 \<le> row" "row < 25" "0 \<le> col" "col < 80"
  defines "d \<equiv> 2 * nat (80 * (row - 1) + col)"
  shows "copy_cell vm row col s =
    s\<lparr>mem := (mem s)(base + d := mem s (base + d + 160), base + d + 1 := mem s (base + d + 161))\<rparr>"
proof -
  have vm: "vm \<le> 0xBC000" using assms(1) by (simp add: window_def)
  have dd: "cell vm (80 * (row - 1) + col) = vm + d" using assms vm by (simp add: cell_eq)
  have aa: "cell vm (80 * row + col) = vm + (d + 160)"
    using assms vm by (simp add: cell_eq d_def nat_eq_iff algebra_simps)
  have d: "d + 161 < 0x1000" using assms by simp
  show ?thesis unfolding copy_cell_def dd aa
    using vwrite_window [OF assms(1), of d "mem s (base + d + 160)"] d assms(1)
      vwrite_window [of vm base "s\<lparr>mem := (mem s)(base + d := mem s (base + d + 160))\<rparr>" "d + 1"]
      vread_window [OF assms(1), of "d + 160"]
      vread_window [of vm base "s\<lparr>mem := (mem s)(base + d := mem s (base + d + 160))\<rparr>" "d + 161"]
    by (simp add: Let_def ac_simps)
qed

section \<open>Cells\<close>

text \<open>The 2000 cells in the page at \<open>base\<close>, and the memory with other cells there.\<close>

definition cells_at :: "mem \<Rightarrow> nat \<Rightarrow> (byte \<times> byte) list" where
  "cells_at m base = map (\<lambda>i. (m (base + 2 * i), m (base + 2 * i + 1))) [0..<2000]"

definition put_cells :: "nat \<Rightarrow> (byte \<times> byte) list \<Rightarrow> mem \<Rightarrow> mem" where
  "put_cells base cs m =
     (\<lambda>x. if base \<le> x \<and> x < base + 2 * length cs
          then let p = cs ! ((x - base) div 2) in (if even (x - base) then fst p else snd p)
          else m x)"

abbreviation blank :: "byte \<times> byte" where "blank \<equiv> (SPACE, ATTRIB)"

lemma length_cells_at [simp]: "length (cells_at m base) = 2000"
  by (simp add: cells_at_def)

lemma put_cells_at: "put_cells base (cells_at m base) m = m"
proof
  fix x
  show "put_cells base (cells_at m base) m x = m x"
  proof (cases "base \<le> x \<and> x < base + 4000")
    case True
    then obtain y where "x = base + y" "y < 4000" by (metis le_Suc_ex nat_add_left_cancel_less)
    then show ?thesis
      by (cases "even y") (auto simp: put_cells_def cells_at_def Let_def elim!: evenE oddE)
  qed (auto simp: put_cells_def)
qed

lemma cells_at_put_cells: "length cs = 2000 \<Longrightarrow> cells_at (put_cells base cs m) base = cs"
  by (rule nth_equalityI) (simp_all add: cells_at_def put_cells_def Let_def)

lemma put_cells_nth:
  "j < length cs \<Longrightarrow> put_cells base cs m (base + 2 * j) = fst (cs ! j)"
  "j < length cs \<Longrightarrow> put_cells base cs m (base + 2 * j + 1) = snd (cs ! j)"
  by (simp_all add: put_cells_def Let_def)

lemma put_cells_upd:
  assumes "i < length cs"
  shows "(put_cells base cs m)(base + 2 * i := c, base + 2 * i + 1 := a) = put_cells base (cs[i := (c, a)]) m"
proof
  fix x
  show "((put_cells base cs m)(base + 2 * i := c, base + 2 * i + 1 := a)) x
    = put_cells base (cs[i := (c, a)]) m x"
  proof (cases "base \<le> x \<and> x < base + 2 * length cs")
    case True
    then obtain y where y: "x = base + y" "y < 2 * length cs"
      by (metis le_Suc_ex nat_add_left_cancel_less)
    show ?thesis
    proof (cases "even y")
      case True
      then obtain j where "y = 2 * j" by (elim evenE)
      moreover have "2 * j \<noteq> Suc (2 * i)" by presburger
      ultimately show ?thesis using y assms by (simp add: put_cells_def Let_def nth_list_update)
    next
      case False
      then obtain j where "y = 2 * j + 1" by (elim oddE)
      moreover have "Suc (2 * j) \<noteq> 2 * i" by presburger
      ultimately show ?thesis using y assms by (simp add: put_cells_def Let_def nth_list_update)
    qed
  next
    case False
    with assms show ?thesis by (auto simp: put_cells_def)
  qed
qed

text \<open>A list of cells by its function, so that the loops become function updates.\<close>

definition tab :: "(nat \<Rightarrow> byte \<times> byte) \<Rightarrow> (byte \<times> byte) list" where
  "tab f = map f [0..<2000]"

lemma length_tab [simp]: "length (tab f) = 2000"
  by (simp add: tab_def)

lemma tab_nth [simp]: "i < 2000 \<Longrightarrow> tab f ! i = f i"
  by (simp add: tab_def)

lemma tab_upd: "(tab f)[i := v] = tab (f(i := v))"
  by (rule nth_equalityI) (simp_all add: tab_def nth_list_update)

lemma tab_of_list: "length cs = 2000 \<Longrightarrow> tab ((!) cs) = cs"
  by (rule nth_equalityI) (simp_all add: tab_def)

definition with_cells :: "nat \<Rightarrow> (byte \<times> byte) list \<Rightarrow> 'a console_state_scheme \<Rightarrow> 'a console_state_scheme" where
  "with_cells base cs s = s\<lparr>mem := put_cells base cs (mem s)\<rparr>"

lemma window_with_cells [simp]: "window vm base (with_cells b cs s) = window vm base s"
  by (simp add: with_cells_def)

lemma write_cell_with_cells:
  assumes "window vm base s" "0 \<le> k" "k < 2000"
  shows "write_cell vm k c a (with_cells base (tab f) s) = with_cells base (tab (f(nat k := (c, a)))) s"
  using assms put_cells_upd [of "nat k" "tab f" base "mem s" c a]
  by (simp add: write_cell_window with_cells_def tab_upd)

lemma copy_cell_with_cells:
  assumes "window vm base s" "1 \<le> row" "row < 25" "col < 80"
  shows "copy_cell vm (int row) (int col) (with_cells base (tab f) s) =
    with_cells base (tab (f(80 * (row - 1) + col := f (80 * row + col)))) s"
proof -
  define d where "d = 80 * (row - 1) + col"
  have d: "nat (80 * (int row - 1) + int col) = d"
    using assms(2) by (simp add: nat_eq_iff of_nat_diff d_def)
  have a: "80 * row + col = d + 80" using assms(2) by (simp add: algebra_simps d_def)
  have lt: "d + 80 < 2000" using assms(2-4) by (simp add: d_def)
  have rd: "put_cells base (tab f) (mem s) (base + 2 * d + 160) = fst (f (d + 80))"
    "put_cells base (tab f) (mem s) (base + 2 * d + 161) = snd (f (d + 80))"
    using put_cells_nth [of "d + 80" "tab f" base "mem s"] lt by (simp_all add: algebra_simps)
  have "copy_cell vm (int row) (int col) (with_cells base (tab f) s) =
    s\<lparr>mem := (put_cells base (tab f) (mem s))(base + 2 * d := fst (f (d + 80)), base + 2 * d + 1 := snd (f (d + 80)))\<rparr>"
    using copy_cell_window [of vm base "with_cells base (tab f) s" "int row" "int col"] assms rd
    unfolding d by (simp add: with_cells_def)
  with put_cells_upd [of d "tab f" base "mem s" "fst (f (d + 80))" "snd (f (d + 80))"] lt show ?thesis
    unfolding a d_def [symmetric] by (simp add: with_cells_def tab_upd)
qed

text \<open>The loops: a run of blanks, one row moved up, all rows moved up.\<close>

lemma blank_run:
  assumes "window vm base s" "a + n \<le> 2000"
  shows "fold (\<lambda>i. write_cell vm (int (a + i)) SPACE ATTRIB) [0..<n] (with_cells base (tab f) s) =
    with_cells base (tab (\<lambda>i. if a \<le> i \<and> i < a + n then blank else f i)) s"
  using assms(2)
proof (induction n)
  case 0
  have "(\<lambda>i. if a \<le> i \<and> i < a + 0 then blank else f i) = f" by (auto simp: fun_eq_iff)
  then show ?case by simp
next
  case (Suc n)
  have "(\<lambda>i. if a \<le> i \<and> i < a + n then blank else f i)(a + n := blank) =
    (\<lambda>i. if a \<le> i \<and> i < a + Suc n then blank else f i)"
    by (auto simp: fun_eq_iff)
  with Suc write_cell_with_cells [OF assms(1), of "int (a + n)"] show ?case
    by (simp del: of_nat_add)
qed

lemma row_up:
  assumes "window vm base s" "1 \<le> row" "row < 25" "n \<le> 80"
  shows "fold (\<lambda>col. copy_cell vm (int row) (int col)) [0..<n] (with_cells base (tab f) s) =
    with_cells base (tab (\<lambda>i. if 80 * (row - 1) \<le> i \<and> i < 80 * (row - 1) + n then f (i + 80) else f i)) s"
  using assms(4)
proof (induction n)
  case 0
  have "(\<lambda>i. if 80 * (row - 1) \<le> i \<and> i < 80 * (row - 1) + 0 then f (i + 80) else f i) = f" by (auto simp: fun_eq_iff)
  then show ?case by simp
next
  case (Suc n)
  let ?g = "\<lambda>n i. if 80 * (row - 1) \<le> i \<and> i < 80 * (row - 1) + n then f (i + 80) else f i"
  have row: "80 * row + n = 80 * (row - 1) + n + 80" using assms(2) by (simp add: algebra_simps)
  have "(?g n)(80 * (row - 1) + n := ?g n (80 * row + n)) = ?g (Suc n)"
    unfolding row by (auto simp: fun_eq_iff)
  with Suc copy_cell_with_cells [OF assms(1-3), of n "?g n"] show ?case
    by simp
qed

lemma rows_up:
  assumes "window vm base s" "r \<le> 24"
  shows "fold (\<lambda>row. fold (\<lambda>col. copy_cell vm (int row) (int col)) [0..<80]) [1..<Suc r] (with_cells base (tab f) s) =
    with_cells base (tab (\<lambda>i. if i < 80 * r then f (i + 80) else f i)) s"
  using assms(2)
proof (induction r)
  case 0
  then show ?case by simp
next
  case (Suc r)
  let ?g = "\<lambda>i. if i < 80 * r then f (i + 80) else f i"
  have "(\<lambda>i. if 80 * r \<le> i \<and> i < 80 * r + 80 then ?g (i + 80) else ?g i) =
    (\<lambda>i. if i < 80 * Suc r then f (i + 80) else f i)"
    by (auto simp: fun_eq_iff)
  with Suc row_up [OF assms(1), of "Suc r" 80 ?g] show ?case
    by simp
qed

definition scrolled :: "(byte \<times> byte) list \<Rightarrow> (byte \<times> byte) list" where
  "scrolled cs = drop 80 cs @ replicate 80 blank"

lemma length_scrolled [simp]: "length cs = 2000 \<Longrightarrow> length (scrolled cs) = 2000"
  by (simp add: scrolled_def)

lemma scroll_at_with_cells:
  assumes "window vm base s" "length cs = 2000"
  shows "scroll_at vm (with_cells base cs s) = with_cells base (scrolled cs) s"
proof -
  let ?f = "\<lambda>i. if i < 1920 then cs ! (i + 80) else cs ! i"
  have up: "fold (\<lambda>row. fold (\<lambda>col. copy_cell vm (int row) (int col)) [0..<80]) [1..<25]
      (with_cells base (tab ((!) cs)) s) = with_cells base (tab ?f) s"
    using rows_up [OF assms(1), of 24 "(!) cs"] by (simp cong: if_cong)
  have "fold (\<lambda>col. write_cell vm (1920 + int col) SPACE ATTRIB) [0..<80] (with_cells base (tab ?f) s) =
      with_cells base (tab (\<lambda>i. if 1920 \<le> i \<and> i < 2000 then blank else ?f i)) s"
    using blank_run [OF assms(1), of 1920 80 ?f] by simp
  moreover have "tab (\<lambda>i. if 1920 \<le> i \<and> i < 2000 then blank else ?f i) = scrolled cs"
    using assms(2) by (intro nth_equalityI) (auto simp: scrolled_def nth_append add.commute)
  ultimately show ?thesis
    using up by (simp add: scroll_at_def Let_def tab_of_list [OF assms(2)])
qed

lemma blank_cells_with_cells:
  assumes "window vm base s" "length cs = 2000"
  shows "blank_cells vm 0 2000 (with_cells base cs s) = with_cells base (replicate 2000 blank) s"
proof -
  have "tab (\<lambda>i. if i < 2000 then blank else cs ! i) = replicate 2000 blank"
    by (rule nth_equalityI) simp_all
  with blank_run [OF assms(1), of 0 2000 "(!) cs"] show ?thesis
    by (simp add: blank_cells_def tab_of_list [OF assms(2)])
qed

section \<open>The abstract screen\<close>

text \<open>
  A cursor and 2000 cells.  The column may be 80: the next character then starts a new line.
  \<open>screen_putc\<close> is what putc promises.
\<close>

record screen =
  cur_x :: int
  cur_y :: int
  cells :: "(byte \<times> byte) list"

definition screen_newline :: "screen \<Rightarrow> screen" where
  "screen_newline c =
     (if cur_y c + 1 \<ge> 25 then c\<lparr>cur_x := 0, cur_y := 24, cells := scrolled (cells c)\<rparr>
      else c\<lparr>cur_x := 0, cur_y := cur_y c + 1\<rparr>)"

definition screen_write :: "byte \<Rightarrow> screen \<Rightarrow> screen" where
  "screen_write b c = c\<lparr>cells := (cells c)[nat (80 * cur_y c + cur_x c) := (b, ATTRIB)]\<rparr>"

definition screen_back :: "screen \<Rightarrow> screen" where
  "screen_back c =
     (if cur_x c > 0 then c\<lparr>cur_x := cur_x c - 1\<rparr>
      else if cur_y c > 0 then c\<lparr>cur_x := 79, cur_y := cur_y c - 1\<rparr> else c)"

definition screen_right :: "screen \<Rightarrow> screen" where
  "screen_right c = c\<lparr>cur_x := cur_x c + 1\<rparr>"

definition screen_putc :: "byte \<Rightarrow> screen \<Rightarrow> screen" where
  "screen_putc b c =
     (if b = NUL then c
      else if b = 0x0A \<or> b = 0x0D then screen_newline c
      else if b = 0x08 then screen_write SPACE (screen_back c)
      else screen_right (screen_write b (if cur_x c \<ge> 80 then screen_newline c else c)))"

definition screen_ok :: "screen \<Rightarrow> bool" where
  "screen_ok c \<longleftrightarrow> 0 \<le> cur_x c \<and> cur_x c \<le> 80 \<and> 0 \<le> cur_y c \<and> cur_y c < 25 \<and> length (cells c) = 2000"

definition blank_screen :: screen where
  "blank_screen = \<lparr>cur_x = 0, cur_y = 0, cells = replicate 2000 blank\<rparr>"

lemma screen_updates [simp]:
  "c\<lparr>cur_y := y, cur_x := x\<rparr> = c\<lparr>cur_x := x, cur_y := y\<rparr>"
  "c\<lparr>cells := l, cur_x := x\<rparr> = c\<lparr>cur_x := x, cells := l\<rparr>"
  "c\<lparr>cells := l, cur_y := y\<rparr> = c\<lparr>cur_y := y, cells := l\<rparr>"
  by simp_all

lemma screen_newline_ok: "screen_ok c \<Longrightarrow> screen_ok (screen_newline c)"
  by (simp add: screen_ok_def screen_newline_def)

lemma screen_putc_ok: "screen_ok c \<Longrightarrow> screen_ok (screen_putc b c)"
  by (auto simp: screen_ok_def screen_putc_def screen_newline_def screen_write_def screen_back_def
      screen_right_def)

lemma blank_screen_ok: "screen_ok blank_screen"
  by (simp add: screen_ok_def blank_screen_def)

text \<open>
  Terminal \<open>k\<close>'s screen as the state has it in the page at \<open>base\<close>; and a state with another screen
  there, after some more port output.
\<close>

definition screen_of :: "nat \<Rightarrow> nat \<Rightarrow> 'a console_state_scheme \<Rightarrow> screen" where
  "screen_of k base s =
     \<lparr>cur_x = screen_x (terminals s k), cur_y = screen_y (terminals s k), cells = cells_at (mem s) base\<rparr>"

definition show_screen :: "nat \<Rightarrow> nat \<Rightarrow> screen \<Rightarrow> io list \<Rightarrow> 'a console_state_scheme \<Rightarrow> 'a console_state_scheme" where
  "show_screen k base c out s = with_cells base (cells c)
     (upd_term k (\<lambda>t. t\<lparr>screen_x := cur_x c, screen_y := cur_y c\<rparr>) (s\<lparr>io_log := io_log s @ out\<rparr>))"

lemma show_screen_of: "show_screen k base (screen_of k base s) [] s = s"
  by (simp add: show_screen_def screen_of_def with_cells_def upd_term_def put_cells_at fun_upd_idem)

lemma paging_of_log [simp]: "paging_of (s\<lparr>io_log := l\<rparr>) = paging_of s"
  by (simp add: paging_of_def)

lemma show_screen_simps [simp]:
  "terminals (show_screen k base c out s) =
     (terminals s)(k := (terminals s k)\<lparr>screen_x := cur_x c, screen_y := cur_y c\<rparr>)"
  "sched_term (show_screen k base c out s) = sched_term s"
  "visible_term (show_screen k base c out s) = visible_term s"
  "running_term (show_screen k base c out s) = running_term s"
  "next_terminal (show_screen k base c out s) = next_terminal s"
  "page_faults (show_screen k base c out s) = page_faults s"
  "iflag (show_screen k base c out s) = iflag s"
  "io_log (show_screen k base c out s) = io_log s @ out"
  "paging_of (show_screen k base c out s) = paging_of s"
  "console_state.more (show_screen k base c out s) = console_state.more s"
  by (simp_all add: show_screen_def with_cells_def upd_term_def paging_of_def)

lemmas show_screen_paging [simp] = paging_cong [OF show_screen_simps(9)]

lemma screen_of_show: "length (cells c) = 2000 \<Longrightarrow> screen_of k base (show_screen k base c out s) = c"
  by (simp add: screen_of_def) (simp add: show_screen_def with_cells_def cells_at_put_cells)

lemma show_x: "upd_term k (\<lambda>t. t\<lparr>screen_x := f t\<rparr>) (show_screen k base c out s) =
    show_screen k base (c\<lparr>cur_x := f ((terminals s k)\<lparr>screen_x := cur_x c, screen_y := cur_y c\<rparr>)\<rparr>) out s"
  by (rule console_state.equality) (simp_all add: show_screen_def with_cells_def upd_term_def fun_eq_iff)

lemma show_y: "upd_term k (\<lambda>t. t\<lparr>screen_y := f t\<rparr>) (show_screen k base c out s) =
    show_screen k base (c\<lparr>cur_y := f ((terminals s k)\<lparr>screen_x := cur_x c, screen_y := cur_y c\<rparr>)\<rparr>) out s"
  by (rule console_state.equality) (simp_all add: show_screen_def with_cells_def upd_term_def fun_eq_iff)

lemma show_cell:
  assumes "window vm base s" "0 \<le> i" "i < 2000" "length (cells c) = 2000"
  shows "write_cell vm i b a (show_screen k base c out s) =
    show_screen k base (c\<lparr>cells := (cells c)[nat i := (b, a)]\<rparr>) out s"
proof -
  let ?s = "upd_term k (\<lambda>t. t\<lparr>screen_x := cur_x c, screen_y := cur_y c\<rparr>) (s\<lparr>io_log := io_log s @ out\<rparr>)"
  have "window vm base ?s" using assms(1) window_cong [of ?s s] by (simp add: paging_of_def upd_term_def)
  from write_cell_with_cells [OF this assms(2,3), of b a "(!) (cells c)"]
  show ?thesis
    by (simp add: show_screen_def tab_of_list [OF assms(4)] tab_upd [symmetric])
qed

lemma show_scroll:
  assumes "window vm base s" "length (cells c) = 2000"
  shows "scroll_at vm (show_screen k base c out s) = show_screen k base (c\<lparr>cells := scrolled (cells c)\<rparr>) out s"
proof -
  let ?s = "upd_term k (\<lambda>t. t\<lparr>screen_x := cur_x c, screen_y := cur_y c\<rparr>) (s\<lparr>io_log := io_log s @ out\<rparr>)"
  have "window vm base ?s" using assms(1) window_cong [of ?s s] by (simp add: paging_of_def upd_term_def)
  from scroll_at_with_cells [OF this assms(2)] show ?thesis by (simp add: show_screen_def)
qed

lemma show_clear:
  assumes "window vm base s" "length (cells c) = 2000"
  shows "blank_cells vm 0 2000 (show_screen k base c out s) =
    show_screen k base (c\<lparr>cells := replicate 2000 blank\<rparr>) out s"
proof -
  let ?s = "upd_term k (\<lambda>t. t\<lparr>screen_x := cur_x c, screen_y := cur_y c\<rparr>) (s\<lparr>io_log := io_log s @ out\<rparr>)"
  have "window vm base ?s" using assms(1) window_cong [of ?s s] by (simp add: paging_of_def upd_term_def)
  from blank_cells_with_cells [OF this assms(2)] show ?thesis by (simp add: show_screen_def)
qed

text \<open>What one cursor update sends to the display controller.\<close>

definition cursor_out :: "int \<Rightarrow> int \<Rightarrow> io list" where
  "cursor_out x y = (let pos = word_of_int (y * 80 + x) :: u16 in
     [Out 0x3D4 0x0F, Out 0x3D5 (ucast (pos AND 0xFF)), Out 0x3D4 0x0E,
      Out 0x3D5 (ucast (drop_bit 8 pos AND 0xFF))])"

lemma update_cursor_eq:
  "update_cursor s = s\<lparr>io_log := io_log s @
     cursor_out (screen_x (terminals s (visible_term s))) (screen_y (terminals s (visible_term s)))\<rparr>"
  by (simp add: update_cursor_def Let_def outb_def cursor_out_def)

lemma show_cursor:
  "\<exists>out'. update_cursor (show_screen k base c out s) = show_screen k base c (out @ out') s"
  unfolding update_cursor_eq
  by (intro exI, rule console_state.equality)
    (simp_all add: show_screen_def with_cells_def upd_term_def)

section \<open>putc and the abstract screen\<close>

lemma screen_x_show [simp]: "screen_x (terminals (show_screen k base c out s) k) = cur_x c"
  by simp

lemma screen_y_show [simp]: "screen_y (terminals (show_screen k base c out s) k) = cur_y c"
  by simp

lemma cursor_cell_show [simp]: "cursor_cell k (show_screen k base c out s) = 80 * cur_y c + cur_x c"
  by (simp add: cursor_cell_def)

text \<open>The three branches of putc, over any window onto the screen's page.\<close>

definition newline_at :: "nat \<Rightarrow> nat \<Rightarrow> 'a console_state_scheme \<Rightarrow> 'a console_state_scheme" where
  "newline_at vm k s =
     (if screen_y (terminals s k) \<ge> NUM_ROWS
      then upd_term k (\<lambda>t. t\<lparr>screen_y := NUM_ROWS - 1\<rparr>) (scroll_at vm s) else s)"

lemma show_newline:
  assumes "window vm base s" "screen_ok c"
  shows "newline_at vm k (show_screen k base (c\<lparr>cur_x := 0, cur_y := cur_y c + 1\<rparr>) out s) =
    show_screen k base (screen_newline c) out s"
  using assms by (simp add: newline_at_def screen_newline_def screen_ok_def show_scroll show_y del: show_screen_simps(1))

lemma show_back:
  "(if screen_x (terminals (show_screen k base c out s) k) = 0 then
      (if screen_y (terminals (show_screen k base c out s) k) > 0 then
         upd_term k (\<lambda>t. t\<lparr>screen_x := NUM_COLS - 1\<rparr>)
           (upd_term k (\<lambda>t. t\<lparr>screen_y := screen_y t - 1\<rparr>) (show_screen k base c out s))
       else show_screen k base c out s)
    else upd_term k (\<lambda>t. t\<lparr>screen_x := screen_x t - 1\<rparr>) (show_screen k base c out s)) =
   show_screen k base (if cur_x c = 0 then if cur_y c > 0 then c\<lparr>cur_x := 79, cur_y := cur_y c - 1\<rparr> else c
     else c\<lparr>cur_x := cur_x c - 1\<rparr>) out s"
  by (simp add: show_x show_y)

lemma screen_back_eq: "screen_ok c \<Longrightarrow>
   (if cur_x c = 0 then if cur_y c > 0 then c\<lparr>cur_x := 79, cur_y := cur_y c - 1\<rparr> else c
     else c\<lparr>cur_x := cur_x c - 1\<rparr>) = screen_back c"
  by (simp add: screen_back_def screen_ok_def)

lemma screen_ok_cell:
  "screen_ok c \<Longrightarrow> cur_x c < 80 \<Longrightarrow> 0 \<le> 80 * cur_y c + cur_x c \<and> 80 * cur_y c + cur_x c < 2000"
  by (auto simp: screen_ok_def)

lemma show_write:
  assumes "window vm base s" "screen_ok c" "cur_x c < 80"
  shows "write_cell vm (cursor_cell k (show_screen k base c out s)) b ATTRIB (show_screen k base c out s) =
    show_screen k base (screen_write b c) out s"
  using show_cell [OF assms(1), of "80 * cur_y c + cur_x c" c b ATTRIB k out] screen_ok_cell [OF assms(2,3)] assms(2)
  by (simp add: screen_write_def screen_ok_def)

lemma screen_back_ok: "screen_ok c \<Longrightarrow> screen_ok (screen_back c) \<and> cur_x (screen_back c) < 80"
  by (auto simp: screen_ok_def screen_back_def)

lemma screen_wrap_ok:
  "screen_ok c \<Longrightarrow> screen_ok (if cur_x c \<ge> 80 then screen_newline c else c)
     \<and> cur_x (if cur_x c \<ge> 80 then screen_newline c else c) < 80"
  by (auto simp: screen_ok_def screen_newline_def)

lemma putc_show:
  assumes ok: "paging_ok s" "screen_ok c" and k: "k = sched_term s" and base: "base = video_base s"
  shows "\<exists>out'. putc b (show_screen k base c out s) = show_screen k base (screen_putc b c) (out @ out') s"
proof -
  let ?s = "show_screen k base c out s"
  have w: "window video_mem base s" using ok(1) by (simp add: base window_video)
  have sched: "sched_term ?s = k" by (simp add: k)
  consider "b = NUL" | "b \<noteq> NUL" "b = 0x0A \<or> b = 0x0D" | "b = 0x08"
    | "b \<noteq> NUL" "b \<noteq> 0x0A" "b \<noteq> 0x0D" "b \<noteq> 0x08" by blast
  then show ?thesis
  proof cases
    case 1
    then show ?thesis by (auto simp: putc_def screen_putc_def intro: exI [of _ "[]"])
  next
    case 2
    let ?c = "c\<lparr>cur_x := 0, cur_y := cur_y c + 1\<rparr>"
    obtain out' where "update_cursor (show_screen k base ?c out s) = show_screen k base ?c (out @ out') s"
      using show_cursor by blast
    moreover have "putc b ?s = newline_at video_mem k (update_cursor (show_screen k base ?c out s))"
      using 2 sched by (simp add: putc_def Let_def newline_at_def scroll_def show_x show_y)
    ultimately show ?thesis
      using show_newline [OF w ok(2), of k "out @ out'"] 2 by (auto simp: screen_putc_def)
  next
    case 3
    let ?c = "screen_back c"
    have "putc b ?s = update_cursor (write_cell video_mem (cursor_cell k (show_screen k base ?c out s)) SPACE ATTRIB
        (show_screen k base ?c out s))"
    proof -
      have "(b = NUL) = False" "(b = 0x0A \<or> b = 0x0D) = False" "(b = 0x08) = True" using 3 by auto
      then show ?thesis
        unfolding putc_def Let_def sched show_back screen_back_eq [OF ok(2)] by (simp only: if_True if_False)
    qed
    also have "\<dots> = update_cursor (show_screen k base (screen_write SPACE ?c) out s)"
      using screen_back_ok [OF ok(2)] by (simp only: show_write [OF w])
    finally show ?thesis
      using show_cursor 3 by (fastforce simp: screen_putc_def)
  next
    case 4
    let ?c = "if cur_x c \<ge> 80 then screen_newline c else c"
    have wrap: "(if screen_x (terminals ?s k) \<ge> NUM_COLS then newline_at video_mem k
          (upd_term k (\<lambda>t. t\<lparr>screen_y := screen_y t + 1\<rparr>) (upd_term k (\<lambda>t. t\<lparr>screen_x := 0\<rparr>) ?s)) else ?s) =
        show_screen k base ?c out s"
      using show_newline [OF w ok(2), of k out] by (simp add: show_x show_y)
    have "putc b ?s = update_cursor (upd_term k (\<lambda>t. t\<lparr>screen_x := screen_x t + 1\<rparr>)
        (write_cell video_mem (cursor_cell k (show_screen k base ?c out s)) b ATTRIB (show_screen k base ?c out s)))"
    proof -
      have "(b = NUL) = False" "(b = 0x0A \<or> b = 0x0D) = False" "(b = 0x08) = False" using 4 by auto
      then show ?thesis
        unfolding putc_def Let_def sched scroll_def wrap [symmetric] newline_at_def by (simp only: if_False)
    qed
    also have "\<dots> = update_cursor (show_screen k base (screen_right (screen_write b ?c)) out s)"
      using screen_wrap_ok [OF ok(2)]
      by (simp only: show_write [OF w] show_x screen_right_def) simp
    finally show ?thesis
      using show_cursor 4 by (fastforce simp: screen_putc_def)
  qed
qed

text \<open>Strings: the characters drive the abstract screen one after the other.\<close>

definition screen_puts :: "byte list \<Rightarrow> screen \<Rightarrow> screen" where
  "screen_puts bs = fold screen_putc bs"

lemma putc_list_show:
  assumes "paging_ok s" "screen_ok c"
  shows "\<exists>out'. fold putc bs (show_screen (sched_term s) (video_base s) c out s) =
    show_screen (sched_term s) (video_base s) (screen_puts bs c) (out @ out') s \<and> screen_ok (screen_puts bs c)"
  using assms(2)
proof (induction bs arbitrary: c out)
  case Nil
  then show ?case by (auto simp: screen_puts_def intro: exI [of _ "[]"])
next
  case (Cons b bs)
  obtain o1 where "putc b (show_screen (sched_term s) (video_base s) c out s) =
      show_screen (sched_term s) (video_base s) (screen_putc b c) (out @ o1) s"
    using putc_show [OF assms(1) Cons.prems] by blast
  with Cons.IH [OF screen_putc_ok [OF Cons.prems], of b "out @ o1"] show ?case
    by (auto simp: screen_puts_def)
qed

lemma putc_list:
  assumes "paging_ok s" "screen_ok (screen_of (sched_term s) (video_base s) s)"
  shows "\<exists>out. fold putc bs s = show_screen (sched_term s) (video_base s)
    (screen_puts bs (screen_of (sched_term s) (video_base s) s)) out s"
  using putc_list_show [OF assms, of bs "[]"] by (auto simp: show_screen_of)

lemma fold_chars: "fold (\<lambda>i. putc (p i)) [0..<n] = fold putc (map p [0..<n])"
  by (simp add: fold_map comp_def)

section \<open>The state at boot\<close>

lemma paging_init_console [simp]:
  "terminals (paging_init s) = terminals s" "sched_term (paging_init s) = sched_term s"
  "visible_term (paging_init s) = visible_term s" "running_term (paging_init s) = running_term s"
  "next_terminal (paging_init s) = next_terminal s" "page_faults (paging_init s) = page_faults s"
  "console_state.more (paging_init s) = console_state.more s"
  unfolding paging_init_def Let_def fold_set_pde fold_set_pte fold_set_pte_vidmap
  by (simp_all add: loadPageDirectory_def otherenable_def set_pte_frame_def set_pte_def flush_tlb_def)

text \<open>All data of the kernel image that is not initialised is zero.\<close>

definition zero_terminal :: terminal_t where
  "zero_terminal = \<lparr>rtc_interrupt_occured = 0, rtc_counter = 0, counter_freqRate = 0, screen_x = 0,
     screen_y = 0, active_pid = 0, base_pid = 0, num_pids = 0, status = 0, r_flag = 0,
     read_buffer = (\<lambda>_. 0), rb_idx = 0, VRAM_addr = 0\<rparr>"

definition boot_console_state :: console_state where
  "boot_console_state = paging_init \<lparr>io_log = [], iflag = False, master_mask = 0, slave_mask = 0,
     mem = (\<lambda>_. 0), page_directory = (\<lambda>_. 0), page_table = (\<lambda>_. 0), page_table_vidmap = (\<lambda>_. 0),
     page_table_addr = 0x40A000, page_table_vidmap_addr = 0x40B000, cr3_loaded = False,
     paging_on = False, tlb_stale = False, terminals = (\<lambda>_. zero_terminal), running_term = 0,
     sched_term = 0, visible_term = 0, next_terminal = 0, page_faults = []\<rparr>"

lemma boot_console:
  "paging_ok boot_console_state" "video_frame boot_console_state = 0xB8"
  "video_base boot_console_state = 0xB8000"
  "sched_term boot_console_state = 0" "visible_term boot_console_state = 0"
  "terminals boot_console_state = (\<lambda>_. zero_terminal)"
  by (simp_all add: boot_console_state_def paging_init_ok tables_placed_def paging_init_frames video_base_def)

lemma boot_screen_ok: "screen_ok (screen_of 0 0xB8000 boot_console_state)"
  by (simp add: screen_ok_def screen_of_def boot_console zero_terminal_def)

section \<open>Properties of the console\<close>

text \<open>
  C18. putc implements the abstract screen on the page the video memory is mapped to: characters go to
  the cursor cell, the line wraps after column 79, newline and carriage return start a line, backspace
  steps back and blanks, the bottom line scrolls; nothing else of memory, of the other terminals or
  of the kernel state changes, and no access faults.
\<close>

theorem putc_refines_screen:
  assumes "paging_ok s" "screen_ok (screen_of (sched_term s) (video_base s) s)"
  shows "\<exists>out. putc b s = show_screen (sched_term s) (video_base s)
      (screen_putc b (screen_of (sched_term s) (video_base s) s)) out s"
  using putc_show [OF assms refl refl, of b "[]"] by (auto simp: show_screen_of)

theorem putc_refines_screen_witness:
  "\<exists>out. putc 0x41 boot_console_state = show_screen 0 0xB8000
      (screen_putc 0x41 (screen_of 0 0xB8000 boot_console_state)) out boot_console_state"
  using putc_refines_screen [of boot_console_state "0x41"] boot_screen_ok by (simp add: boot_console)

lemma clear_show:
  assumes "paging_ok s"
  shows "\<exists>out. clear s = show_screen (sched_term s) (video_base s) blank_screen out s"
proof -
  let ?k = "sched_term s" and ?b = "video_base s"
  let ?c = "(screen_of ?k ?b s)\<lparr>cur_x := 0, cur_y := 0\<rparr>"
  have len: "length (cells ?c) = 2000" by (simp add: screen_of_def)
  have "upd_term ?k (\<lambda>t. t\<lparr>screen_y := 0\<rparr>) (upd_term ?k (\<lambda>t. t\<lparr>screen_x := 0\<rparr>) (show_screen ?k ?b (screen_of ?k ?b s) [] s))
      = show_screen ?k ?b ?c [] s" by (simp add: show_x show_y)
  then have "upd_term ?k (\<lambda>t. t\<lparr>screen_y := 0\<rparr>) (upd_term ?k (\<lambda>t. t\<lparr>screen_x := 0\<rparr>) s) = show_screen ?k ?b ?c [] s"
    by (simp add: show_screen_of)
  moreover obtain out where "update_cursor (show_screen ?k ?b ?c [] s) = show_screen ?k ?b ?c out s"
    using show_cursor [of ?k ?b ?c "[]" s] by auto
  ultimately have "clear s = blank_cells video_mem 0 2000 (show_screen ?k ?b ?c out s)"
    by (simp add: clear_def Let_def)
  also have "\<dots> = show_screen ?k ?b (?c\<lparr>cells := replicate 2000 blank\<rparr>) out s"
    by (rule show_clear [OF window_video [OF assms] len])
  also have "?c\<lparr>cells := replicate 2000 blank\<rparr> = blank_screen"
    by (simp add: blank_screen_def screen_of_def)
  finally show ?thesis by blast
qed

text \<open>
  clear blanks the scheduled terminal's whole screen and homes its cursor, wherever the video
  memory is mapped, and changes nothing else.
\<close>

theorem clear_blanks_screen:
  assumes "paging_ok s"
  shows "\<exists>out. clear s = show_screen (sched_term s) (video_base s) blank_screen out s"
  using assms by (rule clear_show)

theorem clear_blanks_screen_witness:
  "\<exists>out. clear boot_console_state = show_screen 0 0xB8000 blank_screen out boot_console_state"
  using clear_blanks_screen [of boot_console_state] by (simp add: boot_console)

subsection \<open>Keyboard echo\<close>

text \<open>Under the video page the two pointers see the same bytes.\<close>

lemma scroll_at_window:
  "window vm base s \<Longrightarrow> scroll_at vm s = with_cells base (scrolled (cells_at (mem s) base)) s"
  using scroll_at_with_cells [of vm base s "cells_at (mem s) base"] by (simp add: with_cells_def put_cells_at)

lemma scrollk_scroll: "paging_ok s \<Longrightarrow> video_frame s = 0xB8 \<Longrightarrow> scrollk s = scroll s"
  using scroll_at_window [OF window_putck, of s] scroll_at_window [OF window_video, of s]
  by (simp add: scroll_def scrollk_def video_base_def)

lemma write_cellk_eq:
  assumes "paging_ok s" "0 \<le> cursor_cell (visible_term s) s" "cursor_cell (visible_term s) s < 2000"
    "0 \<le> cursor_cell (sched_term s) s" "cursor_cell (sched_term s) s < 2000"
  shows "write_cellk c s = s\<lparr>mem := (mem s)(0xB8000 + 2 * nat (cursor_cell (visible_term s) s) := c,
     video_base s + 2 * nat (cursor_cell (sched_term s) s) + 1 := ATTRIB)\<rparr>"
proof -
  let ?v = "nat (cursor_cell (visible_term s) s)" and ?k = "nat (cursor_cell (sched_term s) s)"
  let ?s = "s\<lparr>mem := (mem s)(0xB8000 + 2 * ?v := c)\<rparr>"
  have "write_cellk c s = vwrite (video_mem + (2 * ?k + 1)) ATTRIB (vwrite (putck_vidMem + 2 * ?v) c s)"
    using assms by (simp add: write_cellk_def cell_eq cursor_cell_def)
  also have "vwrite (putck_vidMem + 2 * ?v) c s = ?s"
    using assms by (intro vwrite_window [OF window_putck]) simp_all
  also have "vwrite (video_mem + (2 * ?k + 1)) ATTRIB ?s =
      ?s\<lparr>mem := (mem ?s)(video_base s + (2 * ?k + 1) := ATTRIB)\<rparr>"
    using assms window_video [of s] by (intro vwrite_window) simp_all
  finally show ?thesis by (simp add: add.assoc)
qed

text \<open>
  While the visible terminal is the scheduled one, putck does exactly what putc does (for
  every character but NUL, which putck prints and putc ignores).
\<close>

theorem putck_is_putc_when_scheduled:
  assumes "paging_ok s" "video_frame s = 0xB8" "visible_term s = sched_term s"
    and "screen_ok (screen_of (sched_term s) 0xB8000 s)" "b \<noteq> NUL"
  shows "putck b s = putc b s"
proof -
  have xy: "0 \<le> screen_x (terminals s (sched_term s))" "screen_x (terminals s (sched_term s)) \<le> 80"
    "0 \<le> screen_y (terminals s (sched_term s))" "screen_y (terminals s (sched_term s)) < 25"
    using assms(4) by (simp_all add: screen_ok_def screen_of_def)
  have base: "video_base t = 0xB8000" if "video_frame t = 0xB8" for t :: "'a console_state_scheme"
    using that by (simp add: video_base_def)
  have wr: "write_cellk c t = write_cell video_mem (cursor_cell (sched_term t) t) c ATTRIB t"
    if "paging_ok t" "video_frame t = 0xB8" "visible_term t = sched_term t"
      "0 \<le> cursor_cell (sched_term t) t" "cursor_cell (sched_term t) t < 2000" for c and t :: "'a console_state_scheme"
    using that write_cellk_eq [of t c] write_cell_window [OF window_video [OF that(1)], of _ c ATTRIB]
    by (simp add: base)
  have sc: "paging_ok (scroll t)" "video_frame (scroll t) = 0xB8" "terminals (scroll t) = terminals t"
    "sched_term (scroll t) = sched_term t" "visible_term (scroll t) = visible_term t"
    if "paging_ok t" "video_frame t = 0xB8" for t :: "'a console_state_scheme"
    using that scroll_at_window [OF window_video [OF that(1)]]
    by (simp_all add: scroll_def with_cells_def)
  show ?thesis
    using assms(1-3,5) xy
    by (auto simp: putck_def putc_def Let_def scrollk_scroll sc wr cursor_cell_def)
qed

theorem putck_is_putc_when_scheduled_witness:
  "putck 0x41 boot_console_state = putc 0x41 boot_console_state"
  using putck_is_putc_when_scheduled [of boot_console_state "0x41"] boot_screen_ok by (simp add: boot_console)

text \<open>
  While another terminal is scheduled, echoing a printable character writes the character byte
  to the visible page but not its attribute: the attribute byte lands in the scheduled terminal's
  page, at that terminal's cursor.
\<close>

theorem putck_attribute_misplaced:
  assumes "paging_ok s" "visible_term s \<noteq> sched_term s"
    and "screen_ok (screen_of (visible_term s) 0xB8000 s)" "screen_x (terminals s (visible_term s)) < 80"
    and "screen_ok (screen_of (sched_term s) (video_base s) s)" "screen_x (terminals s (sched_term s)) < 80"
    and "b \<noteq> 0x0A" "b \<noteq> 0x0D" "b \<noteq> 0x08"
  shows "mem (putck b s) = (mem s)
    (0xB8000 + 2 * nat (cursor_cell (visible_term s) s) := b,
     video_base s + 2 * nat (cursor_cell (sched_term s) s) + 1 := ATTRIB)"
  using assms by (simp add: putck_def Let_def write_cellk_eq cursor_cell_def screen_ok_def screen_of_def)

text \<open>The boot state with terminal 1 scheduled on its backup page.\<close>

definition background_console_state :: console_state where
  "background_console_state = (set_pte_frame 0xB8 0xBA boot_console_state)\<lparr>sched_term := 1\<rparr>"

lemma background_console:
  "paging_ok background_console_state" "video_base background_console_state = 0xBA000"
  "sched_term background_console_state = 1" "visible_term background_console_state = 0"
  "terminals background_console_state = (\<lambda>_. zero_terminal)"
proof -
  have p: "paging_of background_console_state = paging_of (set_pte_frame 0xB8 0xBA boot_console_state)"
    by (simp add: background_console_state_def paging_of_def)
  have "paging_ok (set_pte_frame 0xB8 0xBA boot_console_state)"
    by (rule paging_ok_video_frame) (simp_all add: boot_console video_frames_def)
  then show "paging_ok background_console_state" using paging_cong(1) [OF p] by simp
  have "video_frame (set_pte_frame 0xB8 0xBA boot_console_state) = 0xBA"
    by (simp add: video_frame_def set_pte_frame_def set_pte_def field_simps')
  then show "video_base background_console_state = 0xBA000"
    using paging_cong(4) [OF p] by (simp add: video_base_def)
  show "sched_term background_console_state = 1" "visible_term background_console_state = 0"
    "terminals background_console_state = (\<lambda>_. zero_terminal)"
    by (simp_all add: background_console_state_def set_pte_frame_def set_pte_def boot_console)
qed

theorem putck_attribute_misplaced_witness:
  "mem (putck 0x41 background_console_state) = (mem background_console_state)(0xB8000 := 0x41, 0xBA001 := ATTRIB)"
  using putck_attribute_misplaced [of background_console_state "0x41"]
  by (simp add: background_console screen_ok_def screen_of_def zero_terminal_def cursor_cell_def)

subsection \<open>The hardware cursor\<close>

text \<open>
  The display controller as the code drives it: a byte written to port 0x3D4 selects a register,
  a byte written to 0x3D5 goes to it.  \<open>crtc\<close> is the selected register, and the low (0x0F) and
  high (0x0E) cursor position registers.
\<close>

fun crtc :: "io list \<Rightarrow> byte \<times> byte \<times> byte \<Rightarrow> byte \<times> byte \<times> byte" where
  "crtc [] r = r"
| "crtc (Out p v # l) (idx, lo, hi) =
     crtc l (if p = 0x3D4 then (v, lo, hi)
             else if p = 0x3D5 \<and> idx = 0x0F then (idx, v, hi)
             else if p = 0x3D5 \<and> idx = 0x0E then (idx, lo, v) else (idx, lo, hi))"
| "crtc (In p v # l) r = crtc l r"

definition crtc_pos :: "io list \<Rightarrow> nat" where
  "crtc_pos l = (case crtc l (0, 0, 0) of (idx, lo, hi) \<Rightarrow> unat lo + 256 * unat hi)"

lemma crtc_append: "crtc (l @ l') r = crtc l' (crtc l r)"
  by (induction l r rule: crtc.induct) (auto split: if_splits)

lemma u16_bytes:
  fixes w :: u16
  shows "unat (ucast (w AND 0xFF) :: byte) + 256 * unat (ucast (drop_bit 8 w AND 0xFF) :: byte) = unat w"
proof -
  have lt: "unat w < 65536" using unsigned_less [where ?'a = nat and w = w] by simp
  have m: "x AND 0xFF = take_bit 8 x" for x :: u16
    by (simp add: take_bit_eq_mask mask_eq_exp_minus_1)
  have "unat (ucast (w AND 0xFF) :: byte) = unat w mod 256"
    unfolding m by (simp add: unsigned_ucast_eq unsigned_take_bit_eq) (simp add: take_bit_eq_mod)
  moreover have "unat (ucast (drop_bit 8 w AND 0xFF) :: byte) = unat w div 256 mod 256"
    unfolding m by (simp add: unsigned_ucast_eq unsigned_take_bit_eq unsigned_drop_bit_eq)
      (use lt in \<open>simp add: take_bit_eq_mod drop_bit_eq_div\<close>)
  moreover have "unat w div 256 < 256" using lt by simp
  ultimately show ?thesis by simp
qed

lemma crtc_update_cursor:
  assumes "0 \<le> screen_x (terminals s (visible_term s))" "screen_x (terminals s (visible_term s)) \<le> 80"
    and "0 \<le> screen_y (terminals s (visible_term s))" "screen_y (terminals s (visible_term s)) \<le> 25"
  shows "int (crtc_pos (io_log (update_cursor s))) = cursor_cell (visible_term s) s"
proof -
  let ?pos = "word_of_int (screen_y (terminals s (visible_term s)) * 80 + screen_x (terminals s (visible_term s))) :: u16"
  obtain idx lo hi where c: "crtc (io_log s) (0, 0, 0) = (idx, lo, hi)" by (metis prod_cases3)
  have "crtc_pos (io_log (update_cursor s)) = unat ?pos"
    by (simp add: update_cursor_eq crtc_pos_def crtc_append c cursor_out_def Let_def u16_bytes
        del: of_int_add of_int_mult)
  moreover have "int (unat ?pos) = cursor_cell (visible_term s) s"
    using assms by (simp add: cursor_cell_def unsigned_of_int take_bit_int_eq_self del: of_int_add of_int_mult)
  ultimately show ?thesis by simp
qed

text \<open>The state after putc, for the facts about the last cursor update.\<close>

lemma putc_ends_in_update:
  assumes "b \<noteq> NUL" "b \<noteq> 0x0A" "b \<noteq> 0x0D"
  shows "\<exists>t. putc b s = update_cursor t"
  using assms by (auto simp: putc_def Let_def)

lemma crtc_after_putc:
  assumes "paging_ok s" "screen_ok (screen_of (sched_term s) (video_base s) s)"
    and "visible_term s = sched_term s" "b \<noteq> NUL" "b \<noteq> 0x0A" "b \<noteq> 0x0D"
  shows "int (crtc_pos (io_log (putc b s))) = cursor_cell (sched_term s) (putc b s)"
proof -
  let ?c = "screen_putc b (screen_of (sched_term s) (video_base s) s)"
  obtain t where t: "putc b s = update_cursor t" using putc_ends_in_update assms(4-6) by blast
  obtain out where out: "putc b s = show_screen (sched_term s) (video_base s) ?c out s"
    using putc_show [OF assms(1,2) refl refl, of b "[]"] by (auto simp: show_screen_of)
  have "screen_ok ?c" by (rule screen_putc_ok [OF assms(2)])
  moreover have "visible_term (putc b s) = sched_term s" unfolding out using assms(3) by simp
  then have "terminals t = terminals (putc b s)" "visible_term t = sched_term s" by (simp_all add: t)
  moreover have "screen_x (terminals (putc b s) (sched_term s)) = cur_x ?c"
    "screen_y (terminals (putc b s) (sched_term s)) = cur_y ?c"
    unfolding out by simp_all
  ultimately show ?thesis
    using crtc_update_cursor [of t] t by (simp add: cursor_cell_def screen_ok_def)
qed

text \<open>
  On the terminal that is both visible and scheduled, after any character but a line break the
  display controller's cursor registers hold the position of the terminal's cursor.
\<close>

theorem hardware_cursor_follows_putc:
  assumes "paging_ok s" "screen_ok (screen_of (sched_term s) (video_base s) s)"
    and "visible_term s = sched_term s" "b \<noteq> NUL" "b \<noteq> 0x0A" "b \<noteq> 0x0D"
  shows "crtc_pos (io_log (putc b s)) < 2001
    \<and> int (crtc_pos (io_log (putc b s))) = cursor_cell (sched_term s) (putc b s)"
proof -
  let ?c = "screen_putc b (screen_of (sched_term s) (video_base s) s)"
  obtain out where "putc b s = show_screen (sched_term s) (video_base s) ?c out s"
    using putc_show [OF assms(1,2) refl refl, of b "[]"] by (auto simp: show_screen_of)
  then have "cursor_cell (sched_term s) (putc b s) = 80 * cur_y ?c + cur_x ?c" by simp
  moreover have "80 * cur_y ?c + cur_x ?c < 2001"
    using screen_putc_ok [OF assms(2), of b] by (simp add: screen_ok_def)
  ultimately show ?thesis using crtc_after_putc [OF assms] by simp
qed

theorem hardware_cursor_follows_putc_witness:
  "crtc_pos (io_log (putc 0x41 boot_console_state)) < 2001
    \<and> int (crtc_pos (io_log (putc 0x41 boot_console_state))) = cursor_cell 0 (putc 0x41 boot_console_state)"
  using hardware_cursor_follows_putc [of boot_console_state "0x41"] boot_screen_ok by (simp add: boot_console)

text \<open>
  A line break on the bottom line scrolls and leaves the terminal's cursor on line 24, but the
  hardware cursor was set before the scroll: it stays at position 2000, below the last line.
\<close>

theorem newline_leaves_cursor_off_screen:
  assumes "paging_ok s" "screen_ok (screen_of (sched_term s) (video_base s) s)"
    and "visible_term s = sched_term s" "screen_y (terminals s (sched_term s)) = 24"
  shows "crtc_pos (io_log (putc 0x0A s)) = 2000 \<and> cursor_cell (sched_term s) (putc 0x0A s) = 1920"
proof -
  let ?k = "sched_term s"
  define t where "t = upd_term ?k (\<lambda>t. t\<lparr>screen_x := 0\<rparr>) (upd_term ?k (\<lambda>t. t\<lparr>screen_y := screen_y t + 1\<rparr>) s)"
  have t: "paging_ok (update_cursor t)" "visible_term t = ?k" "sched_term t = ?k" "cursor_cell ?k t = 2000"
    "screen_y (terminals t ?k) = 25" "screen_x (terminals t ?k) = 0"
    using assms by (simp_all add: t_def cursor_cell_def)
  have "putc 0x0A s = upd_term ?k (\<lambda>t. t\<lparr>screen_y := 24\<rparr>) (scroll (update_cursor t))"
    using t(5) by (simp add: putc_def Let_def t_def)
  moreover have "scroll (update_cursor t) = with_cells (video_base (update_cursor t))
      (scrolled (cells_at (mem (update_cursor t)) (video_base (update_cursor t)))) (update_cursor t)"
    using scroll_at_window [OF window_video [OF t(1)]] by (simp add: scroll_def)
  ultimately have "io_log (putc 0x0A s) = io_log (update_cursor t)"
    "cursor_cell ?k (putc 0x0A s) = 1920"
    using t(6) by (simp_all add: with_cells_def cursor_cell_def)
  with crtc_update_cursor [of t] t show ?thesis by simp
qed

text \<open>The boot state with the cursor on the bottom line.\<close>

definition bottom_console_state :: console_state where
  "bottom_console_state = upd_term 0 (\<lambda>t. t\<lparr>screen_y := 24\<rparr>) boot_console_state"

theorem newline_leaves_cursor_off_screen_witness:
  "crtc_pos (io_log (putc 0x0A bottom_console_state)) = 2000
    \<and> cursor_cell 0 (putc 0x0A bottom_console_state) = 1920"
proof -
  have "screen_ok (screen_of 0 0xB8000 bottom_console_state)"
    by (simp add: bottom_console_state_def screen_ok_def screen_of_def boot_console zero_terminal_def)
  moreover have "paging_ok bottom_console_state" "video_base bottom_console_state = 0xB8000"
    "sched_term bottom_console_state = 0" "visible_term bottom_console_state = 0"
    "screen_y (terminals bottom_console_state 0) = 24"
    by (simp_all add: bottom_console_state_def boot_console video_base_def)
  ultimately show ?thesis
    using newline_leaves_cursor_off_screen [of bottom_console_state] by simp
qed

section \<open>The video pages as a byte store\<close>

text \<open>
  While the video page is mapped to the screen (as switch_terminal arranges), the four pages from
  0xB8000 on are an ordinary byte store, so the copying routines of lib.c do on them what they do
  on memory.
\<close>

definition screen_mapped :: "'a console_state_scheme \<Rightarrow> bool" where
  "screen_mapped s \<longleftrightarrow> paging_ok s \<and> video_frame s = 0xB8"

lemma mmu_video_pages:
  assumes "screen_mapped s" "0xB8000 \<le> va" "va < 0xBC000"
  shows "mmu s va = Some va"
  using assms mmu_video_mem [of s va] mmu_backup [of s va]
  by (cases "va < 0xB9000") (auto simp: screen_mapped_def)

text \<open>A state that differs from \<open>s0\<close> at most in the bytes of the video pages.\<close>

definition video_differs :: "'a console_state_scheme \<Rightarrow> 'a console_state_scheme \<Rightarrow> bool" where
  "video_differs s0 s \<longleftrightarrow> screen_mapped s \<and>
     (\<exists>m. s = s0\<lparr>mem := m\<rparr> \<and> (\<forall>x. x < 0xB8000 \<or> 0xBC000 \<le> x \<longrightarrow> m x = mem s0 x))"

lemma vwrite_video:
  "screen_mapped s \<Longrightarrow> 0xB8000 \<le> a \<Longrightarrow> a < 0xBC000 \<Longrightarrow> vwrite a v s = s\<lparr>mem := (mem s)(a := v)\<rparr>"
  by (simp add: vwrite_def mmu_video_pages)

lemma vread_video:
  "screen_mapped s \<Longrightarrow> 0xB8000 \<le> a \<Longrightarrow> a < 0xBC000 \<Longrightarrow> vread s a = mem s a"
  by (simp add: vread_def mmu_video_pages)

lemma screen_mapped_mem [simp]: "screen_mapped (s\<lparr>mem := m\<rparr>) = screen_mapped s"
  by (simp add: screen_mapped_def)

interpretation vram: byte_store vread vwrite "video_differs s0" "{0xB8000..<0xBC000}" for s0
proof
  fix s :: "'a console_state_scheme" and a b :: nat and v :: byte
  assume s: "video_differs s0 s" and a: "a \<in> {0xB8000..<0xBC000}"
  from s have mapped: "screen_mapped s" by (simp add: video_differs_def)
  with a have w: "vwrite a v s = s\<lparr>mem := (mem s)(a := v)\<rparr>" by (simp add: vwrite_video)
  show "video_differs s0 (vwrite a v s)"
    using s a by (auto simp: video_differs_def w fun_upd_def)
  assume "b \<in> {0xB8000..<0xBC000}"
  with mapped show "vread (vwrite a v s) b = (if b = a then v else vread s b)"
    by (simp add: w vread_video)
qed

text \<open>A copy of one page to another.\<close>

lemma memcpy_video_page:
  assumes "screen_mapped s" "0xB8000 \<le> d" "d + 0x1000 \<le> 0xBC000" "0xB8000 \<le> a" "a + 0x1000 \<le> 0xBC000"
    and "d + 0x1000 \<le> a \<or> a + 0x1000 \<le> d"
  shows "memcpy vread vwrite d a 0x1000 s = s\<lparr>mem := store_bytes d (load_bytes (mem s) a 0x1000) (mem s)\<rparr>"
proof -
  let ?s = "memcpy vread vwrite d a 0x1000 s"
  have "video_differs s s" using assms(1) by (auto simp: video_differs_def intro: exI [of _ "mem s"])
  then have m: "vram.moved s d a 0x1000 s ?s"
    using assms by (intro vram.memcpy_moved) auto
  then obtain m where s: "?s = s\<lparr>mem := m\<rparr>" and out: "\<And>x. x < 0xB8000 \<or> 0xBC000 \<le> x \<Longrightarrow> m x = mem s x"
    by (auto simp: vram.moved_def video_differs_def)
  have "m x = store_bytes d (load_bytes (mem s) a 0x1000) (mem s) x" for x
  proof (cases "x < 0xB8000 \<or> 0xBC000 \<le> x")
    case True
    with out assms show ?thesis by (auto simp: store_bytes_def)
  next
    case False
    then have x: "0xB8000 \<le> x" "x < 0xBC000" by auto
    with m have "vread ?s x = (if d \<le> x \<and> x < d + 0x1000 then vread s (a + (x - d)) else vread s x)"
      by (simp add: vram.moved_def)
    with x s assms show ?thesis by (auto simp: vread_video store_bytes_def split: if_splits)
  qed
  with s show ?thesis by (simp add: fun_eq_iff)
qed

end
