(* ===== verification/FileSystem.thy ===== *)
theory FileSystem
  imports CLib "HOL-Library.Signed_Division"
begin

text \<open>
  The read-only file system (file_system.c): the boot block, the directory, and reading a file's
  data through its inode.

  The image is bytes of memory (\<open>m\<close>, as the kernel addresses it).  \<open>fs_globals\<close> are the static
  variables that filesys_init sets.  Addresses are computed in 32 bits.  read_data returns its
  result and the bytes it stored in the buffer, which the caller places; the buffer does not overlap
  the image.  The functions that call strlen are partial, because strlen is.

  The second half reads the image abstractly: a file is a list of bytes, a directory entry a name;
  the lemmas show that the code computes on those.
\<close>

section \<open>The code\<close>

record fs_globals =
  fs_start :: int
  num_inodes :: int
  num_direntries :: int
  fs_D :: int
  fs_N :: int

record dentry_t =
  filename :: "byte list"
  filetype :: int
  inode_num :: int
  reserved :: "byte list"

definition addr32 :: "int \<Rightarrow> nat" where
  "addr32 a = unat (word_of_int a :: u32)"

definition filesys_init :: "mem \<Rightarrow> int \<Rightarrow> fs_globals" where
  "filesys_init m start_addr =
     \<lparr>fs_start = start_addr,
      num_inodes = load_i32 m (addr32 (start_addr + 4)),
      num_direntries = load_i32 m (addr32 start_addr),
      fs_D = load_i32 m (addr32 (start_addr + 8)),
      fs_N = load_i32 m (addr32 (start_addr + 4)) + 1\<rparr>"

text \<open>\<open>&(myBoot->direntries[i])\<close>: 64 bytes of statistics, then entries of 64 bytes.\<close>

definition direntry :: "fs_globals \<Rightarrow> int \<Rightarrow> nat" where
  "direntry g i = addr32 (fs_start g + 64 + 64 * i)"

definition load_dentry :: "mem \<Rightarrow> nat \<Rightarrow> dentry_t" where
  "load_dentry m a =
     \<lparr>filename = load_bytes m a 32, filetype = load_i32 m (a + 32), inode_num = load_i32 m (a + 36),
      reserved = load_bytes m (a + 40) 24\<rparr>"

definition ptr :: "mem \<Rightarrow> nat \<Rightarrow> carray" where
  "ptr m a = (\<lambda>i. m (a + i))"

function read_dentry_from :: "mem \<Rightarrow> fs_globals \<Rightarrow> carray \<Rightarrow> int \<Rightarrow> (int \<times> dentry_t option) option" where
  "read_dentry_from m g fname i =
     (if i < num_direntries g then do {
        dentry_len \<leftarrow> strlen (ptr m (direntry g i));
        fname_len \<leftarrow> strlen fname;
        let dentry_len = (if dentry_len > 32 then 32 else dentry_len);
            fname_len = (if fname_len > 32 then 32 else fname_len)
        in if fname_len = dentry_len \<and> strncmp fname (ptr m (direntry g i)) fname_len = 0
           then Some (int dentry_len, Some (load_dentry m (direntry g i)))
           else read_dentry_from m g fname (i + 1)
      }
      else Some (-1, None))"
  by pat_completeness auto
termination
  by (relation "measure (\<lambda>(m, g, fname, i). nat (num_direntries g - i))") auto

declare read_dentry_from.simps [simp del]

definition read_dentry_by_name :: "mem \<Rightarrow> fs_globals \<Rightarrow> carray \<Rightarrow> (int \<times> dentry_t option) option" where
  "read_dentry_by_name m g fname = read_dentry_from m g fname 0"

definition read_dentry_by_index :: "mem \<Rightarrow> fs_globals \<Rightarrow> int \<Rightarrow> (int \<times> dentry_t option) option" where
  "read_dentry_by_index m g index =
     (if index < num_direntries g then do {
        dentry_len \<leftarrow> strlen (ptr m (direntry g index));
        let dentry_len = (if dentry_len > 32 then 32 else dentry_len)
        in Some (int dentry_len, Some (load_dentry m (direntry g index)))
      }
      else Some (-1, None))"

definition inode_addr :: "fs_globals \<Rightarrow> int \<Rightarrow> nat" where
  "inode_addr g inode = addr32 (fs_start g + (inode + 1) * 4096)"

definition inode_length :: "mem \<Rightarrow> fs_globals \<Rightarrow> int \<Rightarrow> int" where
  "inode_length m g inode = load_i32 m (inode_addr g inode)"

definition data_block_num :: "mem \<Rightarrow> fs_globals \<Rightarrow> int \<Rightarrow> int \<Rightarrow> int" where
  "data_block_num m g inode b = load_i32 m (addr32 (int (inode_addr g inode) + 4 + 4 * b))"

definition data_byte :: "mem \<Rightarrow> fs_globals \<Rightarrow> int \<Rightarrow> int \<Rightarrow> byte" where
  "data_byte m g block off = m (addr32 (fs_start g + 4096 * (fs_N g + block) + off))"

text \<open>The loop; \<open>/\<close> and \<open>%\<close> of C round towards zero.\<close>

function read_data_loop :: "mem \<Rightarrow> fs_globals \<Rightarrow> int \<Rightarrow> int \<Rightarrow> int \<Rightarrow> int \<Rightarrow> int \<times> byte list" where
  "read_data_loop m g inode offset len num_written =
     (let num_bytes_in_file = inode_length m g inode in
      if num_written + offset < num_bytes_in_file \<and> num_written < len then
        let block_idx = (num_written + offset) sdiv 4096 in
        if block_idx > num_bytes_in_file sdiv 4096 then (-1, [])
        else
          let curr_block = data_block_num m g inode block_idx in
          if curr_block > fs_D g then (-1, [])
          else
            let curr_byte = data_byte m g curr_block ((num_written + offset) smod 4096);
                (ret, bs) = read_data_loop m g inode offset len (num_written + 1)
            in (ret, curr_byte # bs)
      else (num_written, []))"
  by pat_completeness auto
termination
  by (relation "measure (\<lambda>(m, g, inode, offset, len, num_written). nat (len - num_written))") auto

declare read_data_loop.simps [simp del]

definition read_data :: "mem \<Rightarrow> fs_globals \<Rightarrow> int \<Rightarrow> int \<Rightarrow> int \<Rightarrow> int \<times> byte list" where
  "read_data m g inode offset len =
     (if inode \<ge> num_inodes g then (-1, []) else read_data_loop m g inode offset len 0)"

section \<open>Reading a file\<close>

text \<open>The file an inode stands for, byte by byte.\<close>

definition file_byte :: "mem \<Rightarrow> fs_globals \<Rightarrow> int \<Rightarrow> nat \<Rightarrow> byte" where
  "file_byte m g inode k =
     data_byte m g (data_block_num m g inode (int k div 4096)) (int k mod 4096)"

definition file_content :: "mem \<Rightarrow> fs_globals \<Rightarrow> int \<Rightarrow> byte list" where
  "file_content m g inode = map (file_byte m g inode) [0..<nat (inode_length m g inode)]"

text \<open>The code accepts the block that holds byte \<open>k\<close> of the file.\<close>

definition block_ok :: "mem \<Rightarrow> fs_globals \<Rightarrow> int \<Rightarrow> nat \<Rightarrow> bool" where
  "block_ok m g inode k \<longleftrightarrow> data_block_num m g inode (int k div 4096) \<le> fs_D g"

definition inode_ok :: "mem \<Rightarrow> fs_globals \<Rightarrow> int \<Rightarrow> bool" where
  "inode_ok m g inode \<longleftrightarrow> inode < num_inodes g \<and> (\<forall>k < nat (inode_length m g inode). block_ok m g inode k)"

lemma sdiv_4096: "0 \<le> a \<Longrightarrow> a sdiv 4096 = a div (4096 :: int)"
  by (cases "a = 0") (simp_all add: signed_divide_int_def sgn_if)

lemma smod_4096: "0 \<le> a \<Longrightarrow> a smod 4096 = a mod (4096 :: int)"
  by (cases "a = 0") (simp_all add: signed_modulo_int_def sgn_if)

lemma block_idx_in_range: "0 \<le> a \<Longrightarrow> a < b \<Longrightarrow> \<not> b sdiv 4096 < a sdiv (4096 :: int)"
  using zdiv_mono1 [of a b 4096] by (simp add: sdiv_4096 not_less)

text \<open>One turn of the loop; the test of the block index never fails.\<close>

lemma read_data_loop_step:
  assumes "0 \<le> num_written + offset"
  shows "read_data_loop m g inode offset len num_written =
    (if num_written + offset < inode_length m g inode \<and> num_written < len then
       if block_ok m g inode (nat (num_written + offset))
       then (let (ret, bs) = read_data_loop m g inode offset len (num_written + 1)
             in (ret, file_byte m g inode (nat (num_written + offset)) # bs))
       else (-1, [])
     else (num_written, []))"
proof (cases "num_written + offset < inode_length m g inode \<and> num_written < len")
  case True
  with assms block_idx_in_range [of "num_written + offset" "inode_length m g inode"] show ?thesis
    by (subst read_data_loop.simps)
      (simp add: Let_def file_byte_def block_ok_def sdiv_4096 smod_4096 not_less)
next
  case False
  then show ?thesis by (subst read_data_loop.simps) (auto simp: Let_def)
qed

lemma read_data_loop_good:
  assumes "0 \<le> offset" "0 \<le> num_written"
    and "\<And>k. num_written + offset \<le> int k \<Longrightarrow> int k < inode_length m g inode \<Longrightarrow> int k < offset + len \<Longrightarrow> block_ok m g inode k"
  shows "read_data_loop m g inode offset len num_written =
    (max num_written (min len (inode_length m g inode - offset)),
     map (file_byte m g inode) [nat (num_written + offset)..<nat (min (offset + len) (inode_length m g inode))])"
  using assms
proof (induction m g inode offset len num_written rule: read_data_loop.induct)
  case (1 m g inode offset len n)
  let ?L = "inode_length m g inode"
  show ?case
  proof (cases "n + offset < ?L \<and> n < len")
    case True
    have ok: "block_ok m g inode (nat (n + offset))" using "1.prems" True by simp
    have "read_data_loop m g inode offset len (n + 1) =
      (max (n + 1) (min len (?L - offset)), map (file_byte m g inode) [nat (n + 1 + offset)..<nat (min (offset + len) ?L)])"
    proof (rule "1.IH")
      show "\<not> ?L sdiv 4096 < (n + offset) sdiv 4096"
        using "1.prems" True by (intro block_idx_in_range) auto
      show "\<not> fs_D g < data_block_num m g inode ((n + offset) sdiv 4096)"
        using ok "1.prems" by (simp add: block_ok_def sdiv_4096)
    qed (use True "1.prems" in auto)
    moreover have "nat (n + 1 + offset) = Suc (nat (n + offset))" "nat (n + offset) < nat (min (offset + len) ?L)"
      using "1.prems" True by auto
    ultimately show ?thesis
      using True ok "1.prems" by (simp add: read_data_loop_step [of n offset] upt_conv_Cons Let_def)
  next
    case False
    then have "nat (min (offset + len) ?L) \<le> nat (n + offset)" by auto
    with False "1.prems" show ?thesis by (subst read_data_loop_step) auto
  qed
qed

lemma read_data_loop_bad:
  assumes "0 \<le> offset" "0 \<le> num_written" "num_written + offset \<le> int k"
    and "int k < inode_length m g inode" "int k < offset + len" "\<not> block_ok m g inode k"
  shows "fst (read_data_loop m g inode offset len num_written) = -1"
  using assms
proof (induction m g inode offset len num_written rule: read_data_loop.induct)
  case (1 m g inode offset len n)
  have n: "n + offset < inode_length m g inode" "n < len" using "1.prems" by auto
  show ?case
  proof (cases "block_ok m g inode (nat (n + offset))")
    case True
    then have "n + offset \<noteq> int k" using "1.prems" by auto
    have "fst (read_data_loop m g inode offset len (n + 1)) = -1"
    proof (rule "1.IH")
      show "\<not> inode_length m g inode sdiv 4096 < (n + offset) sdiv 4096"
        using "1.prems" n by (intro block_idx_in_range) auto
      show "\<not> fs_D g < data_block_num m g inode ((n + offset) sdiv 4096)"
        using True "1.prems" by (simp add: block_ok_def sdiv_4096)
    qed (use n "1.prems" \<open>n + offset \<noteq> int k\<close> in auto)
    with n True "1.prems" show ?thesis
      by (simp add: read_data_loop_step [of n offset] Let_def prod.case_eq_if)
  next
    case False
    with n "1.prems" show ?thesis by (simp add: read_data_loop_step [of n offset])
  qed
qed

lemma read_data_good:
  assumes "inode < num_inodes g" "0 \<le> offset" "0 \<le> len"
    and "\<And>k. offset \<le> int k \<Longrightarrow> int k < inode_length m g inode \<Longrightarrow> int k < offset + len \<Longrightarrow> block_ok m g inode k"
  shows "read_data m g inode offset len =
    (let c = take (nat len) (drop (nat offset) (file_content m g inode)) in (int (length c), c))"
proof -
  have "take (nat len) (drop (nat offset) (file_content m g inode)) =
    map (file_byte m g inode) [nat offset..<nat (min (offset + len) (inode_length m g inode))]"
    using assms(2,3)
    by (intro nth_equalityI) (auto simp: file_content_def nat_add_distrib min_def split: if_splits)
  moreover have "max 0 (min len (inode_length m g inode - offset)) =
    int (nat (min (offset + len) (inode_length m g inode)) - nat offset)"
    using assms(2,3) by auto
  ultimately show ?thesis
    using assms read_data_loop_good [of offset 0 m g inode len] by (simp add: read_data_def Let_def)
qed

section \<open>The directory\<close>

text \<open>The name of an entry: its bytes before a NUL, at most 32.\<close>

definition dentry_name :: "mem \<Rightarrow> fs_globals \<Rightarrow> int \<Rightarrow> byte list" where
  "dentry_name m g i = takeWhile (\<lambda>b. b \<noteq> NUL) (filename (load_dentry m (direntry g i)))"

text \<open>
  A name of 32 characters has no NUL in its field, so strlen runs on into the bytes after it; what
  the code needs is that it meets a NUL in the entry (the high bytes of the file type are 0).
\<close>

definition names_end :: "mem \<Rightarrow> fs_globals \<Rightarrow> bool" where
  "names_end m g \<longleftrightarrow> (\<forall>i. 0 \<le> i \<and> i < num_direntries g \<longrightarrow> (\<exists>k < 64. m (direntry g i + k) = NUL))"

lemma names_end_strlen:
  assumes "names_end m g" "0 \<le> i" "i < num_direntries g"
  obtains k where "strlen (ptr m (direntry g i)) = Some k"
proof -
  from assms obtain k where "m (direntry g i + k) = NUL" by (auto simp: names_end_def)
  then have "\<exists>j. ptr m (direntry g i) j = NUL" by (auto simp: ptr_def)
  with that show ?thesis by (auto simp: strlen_Some_iff [symmetric])
qed

lemma trunc_name:
  assumes "strlen p = Some n"
  shows "takeWhile (\<lambda>b. b \<noteq> NUL) (map p [0..<32]) = map p [0..<min n 32]"
proof -
  have p: "p n = NUL" "\<And>j. j < n \<Longrightarrow> p j \<noteq> NUL" using assms by (auto simp: strlen_eq_Some)
  show ?thesis
  proof (cases "n < 32")
    case True
    then have "[0..<32] = [0..<n] @ n # [Suc n..<32]" 
      using upt_add_eq_append [of 0 n "32 - n"] by (simp add: upt_conv_Cons)
    with True p show ?thesis by (simp add: takeWhile_append)
  next
    case False
    with p have "\<forall>b \<in> set (map p [0..<32]). b \<noteq> NUL" by auto
    with False show ?thesis by (simp add: takeWhile_eq_all_conv min_def)
  qed
qed

lemma dentry_name_eq:
  assumes "strlen (ptr m (direntry g i)) = Some n"
  shows "dentry_name m g i = map (ptr m (direntry g i)) [0..<min n 32]"
proof -
  have "load_bytes m (direntry g i) 32 = map (ptr m (direntry g i)) [0..<32]"
    by (rule nth_equalityI) (simp_all add: ptr_def)
  with trunc_name [OF assms] show ?thesis by (simp add: dentry_name_def load_dentry_def)
qed

text \<open>The test of the loop compares the truncated names.\<close>

lemma name_test:
  assumes "strlen p = Some n" "strlen q = Some k"
  shows "(min n 32 = min k 32 \<and> strncmp p q (min n 32) = 0) = (map q [0..<min k 32] = map p [0..<min n 32])"
proof -
  have "p i \<noteq> NUL" if "i < n" for i using assms(1) that by (auto simp: strlen_eq_Some)
  then have "strncmp p q (min n 32) = 0 \<longleftrightarrow> (\<forall>i < min n 32. p i = q i)"
    unfolding strncmp_eq_0_iff str_eq_upto_def by (metis min_less_iff_conj order_less_trans)
  then show ?thesis by (auto simp: list_eq_iff_nth_eq)
qed

lemma read_dentry_from_eq:
  assumes "names_end m g" "strlen fname = Some n" "0 \<le> i"
  shows "read_dentry_from m g fname i = Some
    (case find (\<lambda>i. dentry_name m g i = map fname [0..<min n 32]) [i..num_direntries g - 1] of
       None \<Rightarrow> (-1, None)
     | Some i \<Rightarrow> (int (min n 32), Some (load_dentry m (direntry g i))))"
  using assms(3)
proof (induction "nat (num_direntries g - i)" arbitrary: i)
  case 0
  then show ?case by (subst read_dentry_from.simps) simp
next
  case (Suc d)
  then have i: "i < num_direntries g" by simp
  with names_end_strlen [OF assms(1) Suc.prems] obtain k where k: "strlen (ptr m (direntry g i)) = Some k"
    by blast
  have IH: "read_dentry_from m g fname (i + 1) = Some
      (case find (\<lambda>i. dentry_name m g i = map fname [0..<min n 32]) [i + 1..num_direntries g - 1] of
         None \<Rightarrow> (-1, None)
       | Some i \<Rightarrow> (int (min n 32), Some (load_dentry m (direntry g i))))"
    using Suc by (intro Suc.hyps(1)) auto
  have trunc: "(if x > 32 then 32 else x) = min x 32" for x :: nat by simp
  have "read_dentry_from m g fname i =
      (if dentry_name m g i = map fname [0..<min n 32]
       then Some (int (min k 32), Some (load_dentry m (direntry g i)))
       else read_dentry_from m g fname (i + 1))"
    using i name_test [OF assms(2) k]
    by (subst read_dentry_from.simps) (simp add: k assms(2) trunc Let_def dentry_name_eq [OF k])
  moreover have "min k 32 = min n 32" if "dentry_name m g i = map fname [0..<min n 32]"
    using arg_cong [OF that, of length] by (simp add: dentry_name_eq [OF k])
  ultimately show ?case
    using i IH by (subst upto_rec1) auto
qed

lemma read_dentry_by_name_eq:
  assumes "names_end m g" "cstr fname = Some f"
  shows "read_dentry_by_name m g fname = Some
    (case find (\<lambda>i. dentry_name m g i = take 32 f) [0..num_direntries g - 1] of
       None \<Rightarrow> (-1, None)
     | Some i \<Rightarrow> (int (length (take 32 f)), Some (load_dentry m (direntry g i))))"
proof -
  obtain n where n: "strlen fname = Some n" "f = map fname [0..<n]"
    using assms(2) by (auto simp: cstr_def)
  then have "take 32 f = map fname [0..<min n 32]" "length (take 32 f) = min n 32"
    by (auto intro!: nth_equalityI)
  with read_dentry_from_eq [OF assms(1) n(1), of 0] show ?thesis
    by (simp only: read_dentry_by_name_def order_refl)
qed

lemma read_dentry_by_index_eq:
  assumes "names_end m g" "0 \<le> i" "i < num_direntries g"
  shows "read_dentry_by_index m g i =
    Some (int (length (dentry_name m g i)), Some (load_dentry m (direntry g i)))"
proof -
  obtain k where k: "strlen (ptr m (direntry g i)) = Some k"
    using names_end_strlen [OF assms] .
  then show ?thesis
    using assms(3) by (simp add: read_dentry_by_index_def dentry_name_eq Let_def min_def)
qed

section \<open>Where the image lies\<close>

text \<open>
  The boot loader puts the image into the 4 MB of the kernel.  A file whose block numbers are within
  the image is read from there only, so memory that agrees on those 4 MB holds the same file.
\<close>

definition agree_kernel :: "mem \<Rightarrow> mem \<Rightarrow> bool" where
  "agree_kernel m m' \<longleftrightarrow> (\<forall>a. 0x400000 \<le> a \<and> a < 0x800000 \<longrightarrow> m a = m' a)"

definition fs_placed :: "fs_globals \<Rightarrow> bool" where
  "fs_placed g \<longleftrightarrow> fs_N g = num_inodes g + 1 \<and> 0x400000 \<le> fs_start g \<and> 0 \<le> fs_D g \<and>
     fs_start g + 4096 * (fs_N g + fs_D g + 1) \<le> 0x800000"

definition inode_placed :: "mem \<Rightarrow> fs_globals \<Rightarrow> int \<Rightarrow> bool" where
  "inode_placed m g inode \<longleftrightarrow> fs_placed g \<and> 0 \<le> inode \<and> inode < num_inodes g \<and>
     inode_length m g inode \<le> 1023 * 4096 \<and>
     (\<forall>k < nat (inode_length m g inode). 0 \<le> data_block_num m g inode (int k div 4096) \<and> block_ok m g inode k)"

lemma addr32_eq: "0 \<le> a \<Longrightarrow> a < 2 ^ 32 \<Longrightarrow> addr32 a = nat a"
  by (simp add: addr32_def unsigned_of_int take_bit_int_eq_self)

lemma agree_addr32:
  "agree_kernel m m' \<Longrightarrow> 0x400000 \<le> a \<Longrightarrow> a < 0x800000 \<Longrightarrow> m' (addr32 a) = m (addr32 a)"
  by (simp add: agree_kernel_def addr32_eq nat_less_iff le_nat_iff)

lemma load_i32_agree:
  "agree_kernel m m' \<Longrightarrow> 0x400000 \<le> a \<Longrightarrow> a + 3 < 0x800000 \<Longrightarrow> load_i32 m a = load_i32 m' a"
  by (simp add: load_i32_def load32_def agree_kernel_def)

lemma inode_addr_placed:
  assumes "fs_placed g" "0 \<le> inode" "inode < num_inodes g"
  shows "0x400000 \<le> inode_addr g inode" "inode_addr g inode + 4096 \<le> 0x800000"
proof -
  have a: "0x400000 \<le> fs_start g + (inode + 1) * 4096" "fs_start g + (inode + 1) * 4096 + 4096 \<le> 0x800000"
    using assms by (auto simp: fs_placed_def)
  then have "inode_addr g inode = nat (fs_start g + (inode + 1) * 4096)"
    by (simp add: inode_addr_def addr32_eq)
  with a show "0x400000 \<le> inode_addr g inode" "inode_addr g inode + 4096 \<le> 0x800000" by auto
qed

lemma inode_agree:
  assumes "agree_kernel m m'" "fs_placed g" "0 \<le> inode" "inode < num_inodes g"
  shows "inode_length m g inode = inode_length m' g inode"
    and "0 \<le> b \<Longrightarrow> b < 1023 \<Longrightarrow> data_block_num m g inode b = data_block_num m' g inode b"
proof -
  note p = inode_addr_placed [OF assms(2-4)]
  show "inode_length m g inode = inode_length m' g inode"
    unfolding inode_length_def by (rule load_i32_agree [OF assms(1)]) (use p in auto)
  assume b: "0 \<le> b" "b < 1023"
  then have "addr32 (int (inode_addr g inode) + 4 + 4 * b) = inode_addr g inode + 4 + nat (4 * b)"
    using p by (simp add: addr32_eq nat_add_distrib)
  moreover have "nat (4 * b) \<le> 4088" using b by simp
  ultimately show "data_block_num m g inode b = data_block_num m' g inode b"
    unfolding data_block_num_def by (simp only:) (rule load_i32_agree [OF assms(1)]; use p in linarith)
qed

lemma file_agree:
  assumes "agree_kernel m m'" "inode_placed m g inode"
  shows "inode_length m' g inode = inode_length m g inode" "file_content m' g inode = file_content m g inode"
    "inode_placed m' g inode"
proof -
  have p: "fs_placed g" "0 \<le> inode" "inode < num_inodes g" "inode_length m g inode \<le> 1023 * 4096"
    using assms(2) by (simp_all add: inode_placed_def)
  show len: "inode_length m' g inode = inode_length m g inode"
    using inode_agree(1) [OF assms(1) p(1-3)] by simp
  have num: "data_block_num m' g inode (int k div 4096) = data_block_num m g inode (int k div 4096)"
    if "k < nat (inode_length m g inode)" for k
    using that p(4) inode_agree(2) [OF assms(1) p(1-3), of "int k div 4096"] by simp
  have blk: "0 \<le> data_block_num m g inode (int k div 4096)" "data_block_num m g inode (int k div 4096) \<le> fs_D g"
    if "k < nat (inode_length m g inode)" for k
    using that assms(2) by (auto simp: inode_placed_def block_ok_def)
  show "inode_placed m' g inode"
    using assms(2) num by (simp add: inode_placed_def len block_ok_def)
  have "file_byte m' g inode k = file_byte m g inode k" if k: "k < nat (inode_length m g inode)" for k
  proof -
    let ?b = "data_block_num m g inode (int k div 4096)"
    let ?a = "fs_start g + 4096 * (fs_N g + ?b) + int k mod 4096"
    have "0 \<le> int k mod 4096" "int k mod 4096 < 4096" by simp_all
    then have "0x400000 \<le> ?a" "?a < 0x800000" using p(1-3) blk [OF k] by (auto simp: fs_placed_def)
    then show ?thesis
      unfolding file_byte_def data_byte_def num [OF k] by (rule agree_addr32 [OF assms(1)])
  qed
  then show "file_content m' g inode = file_content m g inode"
    by (simp add: file_content_def len)
qed

text \<open>The directory is in the first page of the image.\<close>

definition dir_placed :: "fs_globals \<Rightarrow> bool" where
  "dir_placed g \<longleftrightarrow> fs_placed g \<and> 0 \<le> num_inodes g \<and> num_direntries g \<le> 63"

lemma direntry_agree:
  assumes "agree_kernel m m'" "dir_placed g" "0 \<le> i" "i < num_direntries g"
  shows "k < 64 \<Longrightarrow> m' (direntry g i + k) = m (direntry g i + k)"
    "load_dentry m' (direntry g i) = load_dentry m (direntry g i)" "dentry_name m' g i = dentry_name m g i"
proof -
  have g: "0x400000 \<le> fs_start g + 64 + 64 * i" "fs_start g + 64 + 64 * i + 64 \<le> 0x800000"
    using assms(2-4) by (auto simp: dir_placed_def fs_placed_def)
  then have eq: "direntry g i = nat (fs_start g + 64 + 64 * i)"
    by (simp add: direntry_def addr32_eq)
  with g have d: "0x400000 \<le> direntry g i" "direntry g i + 64 \<le> 0x800000" by auto
  with assms(1) show byte: "k < 64 \<Longrightarrow> m' (direntry g i + k) = m (direntry g i + k)" for k
    by (simp add: agree_kernel_def)
  have "load_bytes m' (direntry g i) 32 = load_bytes m (direntry g i) 32"
    using byte by (intro nth_equalityI) simp_all
  moreover have "load_bytes m' (direntry g i + 40) 24 = load_bytes m (direntry g i + 40) 24"
  proof (rule nth_equalityI)
    fix j assume "j < length (load_bytes m' (direntry g i + 40) 24)"
    then show "load_bytes m' (direntry g i + 40) 24 ! j = load_bytes m (direntry g i + 40) 24 ! j"
      using byte [of "40 + j"] by (simp add: add.assoc)
  qed simp
  moreover have "load_i32 m' (direntry g i + j) = load_i32 m (direntry g i + j)" if "j < 60" for j
    using load_i32_agree [OF assms(1), of "direntry g i + j"] d that by simp
  ultimately show "load_dentry m' (direntry g i) = load_dentry m (direntry g i)"
    by (simp add: load_dentry_def)
  then show "dentry_name m' g i = dentry_name m g i" by (simp add: dentry_name_def)
qed

lemma names_end_agree:
  "agree_kernel m m' \<Longrightarrow> dir_placed g \<Longrightarrow> names_end m g \<Longrightarrow> names_end m' g"
  unfolding names_end_def using direntry_agree(1) [of m m' g] by metis

lemma read_data_placed:
  assumes "inode_placed m g inode" "0 \<le> offset" "0 \<le> len"
  shows "read_data m g inode offset len =
    (let c = take (nat len) (drop (nat offset) (file_content m g inode)) in (int (length c), c))"
  using assms by (intro read_data_good) (auto simp: inode_placed_def nat_less_iff)

section \<open>A small image\<close>

text \<open>One directory entry \<open>f\<close>, one inode, one data block holding the five bytes of \<open>hello\<close>.\<close>

definition tiny_image :: mem where
  "tiny_image = store_bytes 8192 (bytes_of ''hello'') (store_bytes 4096 (bytes32 5)
     (store_bytes 96 (bytes32 2) (store_bytes 64 (bytes_of ''f'')
       (store_bytes 0 (bytes32 1 @ bytes32 1 @ bytes32 1) (\<lambda>_. 0)))))"

definition tiny_fs :: fs_globals where
  "tiny_fs = filesys_init tiny_image 0"

lemma tiny_words:
  "load_i32 tiny_image 0 = 1" "load_i32 tiny_image 4 = 1" "load_i32 tiny_image 8 = 1"
  "load_i32 tiny_image 4096 = 5" "load_i32 tiny_image 4100 = 0"
  by (simp_all add: load_i32_def load32_def tiny_image_def store_bytes_def bytes32_def bytes_of_def)

lemma tiny_fs_eq: "tiny_fs = \<lparr>fs_start = 0, num_inodes = 1, num_direntries = 1, fs_D = 1, fs_N = 2\<rparr>"
  by (simp add: tiny_fs_def filesys_init_def addr32_eq tiny_words)

lemma tiny_inode:
  "inode_addr tiny_fs 0 = 4096" "inode_length tiny_image tiny_fs 0 = 5" "data_block_num tiny_image tiny_fs 0 0 = 0"
  by (simp_all add: inode_addr_def inode_length_def data_block_num_def tiny_fs_eq addr32_eq tiny_words)

lemma tiny_ok: "k < 5 \<Longrightarrow> block_ok tiny_image tiny_fs 0 k"
  by (simp add: block_ok_def tiny_inode) (simp add: tiny_fs_eq)

lemma tiny_byte: "k < 5 \<Longrightarrow> file_byte tiny_image tiny_fs 0 k = tiny_image (8192 + k)"
  by (simp add: file_byte_def tiny_inode) (simp add: data_byte_def tiny_fs_eq addr32_eq nat_add_distrib)

lemma tiny_content: "file_content tiny_image tiny_fs 0 = bytes_of ''hello''"
proof -
  have "file_content tiny_image tiny_fs 0 = map (file_byte tiny_image tiny_fs 0) [0, 1, 2, 3, 4]"
    by (simp add: file_content_def tiny_inode upt_conv_Cons numeral_eq_Suc)
  then show ?thesis
    by (simp add: tiny_byte) (simp add: tiny_image_def store_bytes_def bytes_of_def)
qed

lemma tiny_names_end: "names_end tiny_image tiny_fs"
proof -
  have "\<exists>k < 64. tiny_image (64 + k) = NUL"
    by (rule exI [of _ 1]) (simp add: tiny_image_def store_bytes_def bytes_of_def)
  then show ?thesis
    by (auto simp: names_end_def tiny_fs_eq direntry_def addr32_eq dest!: antisym)
qed

lemma tiny_name: "dentry_name tiny_image tiny_fs 0 = bytes_of ''f''"
proof -
  have "strlen (ptr tiny_image 64) = Some 1"
    by (simp add: strlen_eq_Some ptr_def tiny_image_def store_bytes_def bytes_of_def)
  then have "strlen (ptr tiny_image (direntry tiny_fs 0)) = Some 1"
    by (simp add: tiny_fs_eq direntry_def addr32_eq)
  from dentry_name_eq [OF this] show ?thesis
    by (simp add: tiny_fs_eq direntry_def addr32_eq ptr_def tiny_image_def store_bytes_def bytes_of_def)
qed

section \<open>Properties of the file system\<close>

text \<open>
  C17. read_data refines reading from a byte list: when the blocks of the requested range are within
  the image, it stores exactly the bytes of the file from the offset on, as many as asked for or as
  remain, across block boundaries, and returns their number.
\<close>

theorem read_data_content:
  assumes "inode < num_inodes g" "0 \<le> offset" "0 \<le> len"
    and "\<And>k. offset \<le> int k \<Longrightarrow> int k < inode_length m g inode \<Longrightarrow> int k < offset + len \<Longrightarrow> block_ok m g inode k"
  shows "read_data m g inode offset len =
    (let c = take (nat len) (drop (nat offset) (file_content m g inode)) in (int (length c), c))"
  by (rule read_data_good [OF assms])

theorem read_data_content_witness:
  "read_data tiny_image tiny_fs 0 1 100 = (4, bytes_of ''ello'')"
  using read_data_content [of 0 tiny_fs 1 100 tiny_image]
  by (simp add: tiny_ok tiny_inode tiny_content) (simp add: tiny_fs_eq bytes_of_def)

text \<open>
  read_data returns -1 for an inode past the last, and whenever a byte of the requested range
  lies in a block whose number is too large, wherever in the range that is.
\<close>

theorem read_data_error:
  assumes "num_inodes g \<le> inode \<or>
    (0 \<le> offset \<and> (\<exists>k. offset \<le> int k \<and> int k < inode_length m g inode \<and> int k < offset + len \<and> \<not> block_ok m g inode k))"
  shows "fst (read_data m g inode offset len) = -1"
  using assms read_data_loop_bad [of offset 0 _ m g inode len] by (auto simp: read_data_def)

theorem read_data_error_witness:
  "fst (read_data tiny_image tiny_fs 7 0 10) = -1"
  using read_data_error [of tiny_fs 7 0 tiny_image 10] by (simp add: tiny_fs_eq)

text \<open>
  read_dentry_by_name finds the first directory entry whose name, cut at 32 characters, is the
  wanted name cut at 32 characters; it returns the length of the name and the entry, and -1 when no
  entry has the name.
\<close>

theorem read_dentry_by_name_first:
  assumes "names_end m g" "cstr fname = Some f"
  shows "read_dentry_by_name m g fname = Some
    (case find (\<lambda>i. dentry_name m g i = take 32 f) [0..num_direntries g - 1] of
       None \<Rightarrow> (-1, None)
     | Some i \<Rightarrow> (int (length (take 32 f)), Some (load_dentry m (direntry g i))))"
  by (rule read_dentry_by_name_eq [OF assms])

theorem read_dentry_by_name_first_witness:
  "read_dentry_by_name tiny_image tiny_fs (arr_of (bytes_of ''f'')) = Some (1, Some (load_dentry tiny_image 64))
    \<and> read_dentry_by_name tiny_image tiny_fs (arr_of (bytes_of ''g'')) = Some (-1, None)"
proof -
  have c: "cstr (arr_of (bytes_of [c])) = Some (bytes_of [c])" if "c \<in> {CHR ''f'', CHR ''g''}" for c
    using that by (intro cstr_arr_of) (auto simp: bytes_of_def)
  have d: "[0..num_direntries tiny_fs - 1] = [0]" "direntry tiny_fs 0 = 64"
    by (simp_all add: tiny_fs_eq direntry_def addr32_eq)
  show ?thesis
    using read_dentry_by_name_first [OF tiny_names_end c [of "CHR ''f''"]]
      read_dentry_by_name_first [OF tiny_names_end c [of "CHR ''g''"]]
    by (simp add: d tiny_name bytes_of_def)
qed

text \<open>
  The test of the block number lets the number of data blocks itself pass: a byte of a file
  whose block number is D is read from the page after the last data block.
\<close>

theorem read_data_past_last_block:
  assumes "0 \<le> inode" "inode < num_inodes g" "0 < inode_length m g inode"
    and "data_block_num m g inode 0 = fs_D g"
  shows "read_data m g inode 0 1 = (1, [m (addr32 (fs_start g + 4096 * (fs_N g + fs_D g)))])"
proof -
  have "block_ok m g inode k" if "int k < 1" for k
    using assms(4) that by (simp add: block_ok_def)
  moreover obtain j where "nat (inode_length m g inode) = Suc j" using assms(3) gr0_implies_Suc by fastforce
  then have "take 1 (file_content m g inode) = [file_byte m g inode 0]"
    by (simp add: file_content_def upt_conv_Cons del: upt_Suc)
  moreover have "file_byte m g inode 0 = m (addr32 (fs_start g + 4096 * (fs_N g + fs_D g)))"
    using assms(4) by (simp add: file_byte_def data_byte_def)
  ultimately show ?thesis using read_data_good [of inode g 0 1 m] assms by (simp add: Let_def)
qed

text \<open>The small image with block number 1, which is D.\<close>

definition bad_image :: mem where
  "bad_image = store_bytes 4100 (bytes32 1) (store_bytes 4096 (bytes32 5) (\<lambda>_. 0x41))"

theorem read_data_past_last_block_witness:
  "read_data bad_image tiny_fs 0 0 1 = (1, [0x41])"
proof -
  have "inode_length bad_image tiny_fs 0 = 5" "data_block_num bad_image tiny_fs 0 0 = 1"
    by (simp_all add: inode_length_def data_block_num_def tiny_inode load_i32_def load32_def addr32_eq
        bad_image_def store_bytes_def bytes32_def)
  then show ?thesis
    using read_data_past_last_block [of 0 tiny_fs bad_image]
    by (simp add: tiny_fs_eq addr32_eq bad_image_def store_bytes_def)
qed

end
