(* ===== verification/Process.thy ===== *)
theory Process
  imports Console FileSystem
begin

text \<open>
  Processes and file descriptors: the process control block (file_system.h), the system calls open
  and close, and starting a program, execute (system_calls.c).  The kernel's remaining global
  variables are declared here too, so that every later theory works on one state.

  Process control blocks live at fixed addresses, one per pid (\<open>get_active_pcb\<close>); the state keeps
  them as a function of the pid, and the lemmas of the section on the kernel stacks show that the
  blocks of different pids do not overlap.  \<open>file_pcb\<close> is the pid of the block the pointer
  points at.  \<open>reg_esp\<close> and \<open>reg_ebp\<close> are the values the stack and frame pointer have where the
  code reads them, and \<open>stack_junk\<close> the contents of local arrays that are not initialised.

  A call that leaves its caller's flow of control says so in its result: execute enters the user
  program by \<open>iret\<close>, and halt returns from the execute call that started the program.
\<close>

section \<open>The kernel state\<close>

datatype file_ops = f_ops | d_ops | rtc_ops | stdin_fops | stdout_fops

text \<open>The \<open>fname\<close> pointer: null, a constant, or the name field of a directory entry on the stack.\<close>

datatype fname_ptr = FNull | FConst string | FStack "byte list"

record fd_t =
  fops :: "file_ops option"
  fd_inode :: int
  file_offset :: int
  flags :: int
  fname :: fname_ptr

record pcb_t =
  pid :: int
  parent_pid :: int
  user_prog_ep :: u32
  args :: carray
  ESP_prev :: u32
  EBP_prev :: u32
  prev_tss_ESP0 :: u32
  tss_esp0 :: u32
  prev_tss_SS :: u32
  pcb_ebp :: u32
  pcb_esp :: u32
  file_desc_arr :: "nat \<Rightarrow> fd_t"
  num_open_descriptors :: int

record kernel_state = console_state +
  fs :: fs_globals
  pid_arr :: "int \<Rightarrow> int"
  pcbs :: "int \<Rightarrow> pcb_t"
  file_pcb :: "int option"
  esp0 :: u32
  ss0 :: u32
  reg_esp :: u32
  reg_ebp :: u32
  stack_junk :: carray
  caps_flag :: byte
  shift_flag :: byte
  ctrl_flag :: byte
  alt_flag :: byte
  line_flag :: byte
  tab_flag :: byte
  f_key_pressed :: byte
  terminalNumber :: int
  enter_pressed :: "nat \<Rightarrow> byte"
  term_buffer :: carray
  buffer_index :: int

datatype flow = Ret int | ToUser u32 u32 | LongRet u32 u32 int

abbreviation MAX_PCBS :: nat where "MAX_PCBS \<equiv> 6"
abbreviation NUM_FDS :: nat where "NUM_FDS \<equiv> 8"
abbreviation KERNEL_DS :: u32 where "KERNEL_DS \<equiv> 0x18"

text \<open>Memory as kernel code addresses it, and a run of bytes stored through the page tables.\<close>

definition kmem :: "'a console_state_scheme \<Rightarrow> mem" where
  "kmem s = vread s"

fun vstore :: "nat \<Rightarrow> byte list \<Rightarrow> 'a console_state_scheme \<Rightarrow> 'a console_state_scheme" where
  "vstore a [] s = s"
| "vstore a (b # bs) s = vstore (Suc a) bs (vwrite a b s)"

definition upd_pcb :: "int \<Rightarrow> (pcb_t \<Rightarrow> pcb_t) \<Rightarrow> 'a kernel_state_scheme \<Rightarrow> 'a kernel_state_scheme" where
  "upd_pcb p f s = s\<lparr>pcbs := (pcbs s)(p := f (pcbs s p))\<rparr>"

definition upd_fd :: "nat \<Rightarrow> (fd_t \<Rightarrow> fd_t) \<Rightarrow> pcb_t \<Rightarrow> pcb_t" where
  "upd_fd i f p = p\<lparr>file_desc_arr := (file_desc_arr p)(i := f (file_desc_arr p i))\<rparr>"

section \<open>Process control blocks and kernel stacks\<close>

definition get_active_pcb :: "int \<Rightarrow> int" where
  "get_active_pcb p = 0x800000 - p * 8192"

definition get_active_kernel_stack_addr :: "int \<Rightarrow> int" where
  "get_active_kernel_stack_addr p = 0x800000 - (p - 1) * 8192 - 4"

definition update_file_pcb :: "int \<Rightarrow> 'a kernel_state_scheme \<Rightarrow> 'a kernel_state_scheme" where
  "update_file_pcb p s = s\<lparr>file_pcb := Some p\<rparr>"

definition cleared_fd :: "fd_t \<Rightarrow> fd_t" where
  "cleared_fd f = f\<lparr>fops := None, fd_inode := 0, file_offset := 0, flags := 0, fname := FConst ''''\<rparr>"

definition build_pcb :: "carray \<Rightarrow> int \<Rightarrow> 'a kernel_state_scheme \<Rightarrow> 'a kernel_state_scheme" where
  "build_pcb arg pid_num s =
     (let k = sched_term s;
          s = upd_pcb pid_num (\<lambda>p. p\<lparr>pid := pid_num\<rparr>) s;
          s = (if pid_num = base_pid (terminals s k)
               then upd_pcb pid_num (\<lambda>p. p\<lparr>parent_pid := pid_num\<rparr>) s
               else upd_pcb pid_num (\<lambda>p. p\<lparr>parent_pid := active_pid (terminals s k)\<rparr>) s);
          s = upd_term k (\<lambda>t. t\<lparr>active_pid := pid_num\<rparr>) s;
          s = upd_pcb pid_num (\<lambda>p. p\<lparr>args := (\<lambda>i. if i < 32 then arg i else args p i)\<rparr>) s;
          s = upd_pcb pid_num (\<lambda>p. p\<lparr>prev_tss_ESP0 := esp0 s, prev_tss_SS := ss0 s\<rparr>) s;
          s = upd_pcb pid_num (\<lambda>p. fold (\<lambda>i. upd_fd i cleared_fd) [2..<NUM_FDS] p) s;
          s = upd_pcb pid_num (upd_fd 0 (\<lambda>f. f\<lparr>fops := Some stdin_fops, fd_inode := 0, file_offset := 0,
                 flags := 1, fname := FConst ''stdin''\<rparr>)) s;
          s = upd_pcb pid_num (upd_fd 1 (\<lambda>f. f\<lparr>fops := Some stdout_fops, fd_inode := 0, file_offset := 0,
                 flags := 1, fname := FConst ''stdout''\<rparr>)) s;
          s = upd_pcb pid_num (\<lambda>p. p\<lparr>num_open_descriptors := 2\<rparr>) s
      in update_file_pcb pid_num s)"

section \<open>open and close\<close>

definition running_pid :: "'a console_state_scheme \<Rightarrow> int" where
  "running_pid s = active_pid (terminals s (sched_term s))"

text \<open>
  The search for a free descriptor; when all are in use it ends at 8, past the array (the count
  is tested before).  USER_FILETYPE is 0, DIR_FILETYPE 1 and FILE_FILETYPE 2.
\<close>

definition free_fd :: "pcb_t \<Rightarrow> nat" where
  "free_fd p = (case find (\<lambda>fd. flags (file_desc_arr p fd) = 0) [2..<NUM_FDS] of
     Some fd \<Rightarrow> fd | None \<Rightarrow> NUM_FDS)"

definition open_ops :: "dentry_t \<Rightarrow> (file_ops \<times> int) option" where
  "open_ops d =
     (if filetype d = 0 then Some (rtc_ops, 0)
      else if filetype d = 1 then Some (d_ops, 0)
      else if filetype d = 2 then Some (f_ops, inode_num d)
      else None)"

definition open_file :: "carray \<Rightarrow> 'a kernel_state_scheme \<Rightarrow> (int \<times> 'a kernel_state_scheme) option" where
  "open_file name s =
     (let p = running_pid s in
      if num_open_descriptors (pcbs s p) \<ge> int NUM_FDS then Some (-1, s)
      else do {
        (r, d) \<leftarrow> read_dentry_by_name (kmem s) (fs s) name;
        case d of None \<Rightarrow> Some (-1, s)
        | Some d \<Rightarrow>
          let fd = free_fd (pcbs s p) in
          (case open_ops d of
             None \<Rightarrow> Some (-1, s)
           | Some (ops, inode) \<Rightarrow>
             let s = upd_pcb p (upd_fd fd (\<lambda>f. f\<lparr>fops := Some ops, fd_inode := inode\<rparr>)) s;
                 s = upd_pcb p (upd_fd fd (\<lambda>f. f\<lparr>file_offset := 0, flags := 1, fname := FStack (filename d)\<rparr>)) s;
                 s = upd_pcb p (\<lambda>p. p\<lparr>num_open_descriptors := num_open_descriptors p + 1\<rparr>) s
             in Some (int fd, s))
      })"

definition close_fd :: "int \<Rightarrow> 'a kernel_state_scheme \<Rightarrow> int \<times> 'a kernel_state_scheme" where
  "close_fd fd s =
     (let p = running_pid s; pcb = pcbs s p in
      if fd < 2 \<or> fd \<ge> num_open_descriptors pcb then (-1, s)
      else if flags (file_desc_arr pcb (nat fd)) = 0 then (-1, s)
      else
        let s = upd_pcb p (upd_fd (nat fd) (\<lambda>f. f\<lparr>fops := None, fd_inode := 0, file_offset := 0,
                  flags := 0, fname := FNull\<rparr>)) s;
            s = upd_pcb p (\<lambda>p. p\<lparr>num_open_descriptors := num_open_descriptors p - 1\<rparr>) s
        in (0, s))"

section \<open>The command line\<close>

text \<open>Skipping spaces and line feeds: the index of the first other byte.\<close>

partial_function (option) skip_spaces :: "carray \<Rightarrow> nat \<Rightarrow> nat option" where
  "skip_spaces command i =
     (if command i = 0x20 \<or> command i = 0x0A then skip_spaces command (Suc i) else Some i)"

text \<open>
  The command word goes to \<open>cmd\<close>, an array of 32 bytes; the terminator after 32 copied bytes is
  written to index 32.
\<close>

function getCommand_from :: "carray \<Rightarrow> carray \<Rightarrow> nat \<Rightarrow> (nat \<times> carray) option" where
  "getCommand_from command cmd i =
     (if i < 32 then
        if command i \<noteq> 0x20 \<and> command i \<noteq> 0x0A
        then getCommand_from command (cmd(i := command i)) (Suc i)
        else do { j \<leftarrow> skip_spaces command i; Some (j, cmd(i := NUL)) }
      else Some (i, cmd(i := NUL)))"
  by pat_completeness auto
termination
  by (relation "measure (\<lambda>(command, cmd, i). 32 - i)") auto

declare getCommand_from.simps [simp del]

definition getCommand :: "carray \<Rightarrow> carray \<Rightarrow> (nat \<times> carray) option" where
  "getCommand command cmd = getCommand_from command cmd 0"

partial_function (option) getArguments_from :: "carray \<Rightarrow> carray \<Rightarrow> nat \<Rightarrow> nat \<Rightarrow> carray option" where
  "getArguments_from command arg i argIdx =
     (if command i \<noteq> NUL
      then getArguments_from command (arg(argIdx := command i)) (Suc i) (Suc argIdx)
      else Some arg)"

definition getArguments :: "carray \<Rightarrow> carray \<Rightarrow> nat \<Rightarrow> carray option" where
  "getArguments command arg startIndex = getArguments_from command arg startIndex 0"

section \<open>execute\<close>

text \<open>The bytes of a local array after read_data stored \<open>bs\<close> in it.\<close>

definition local_bytes :: "carray \<Rightarrow> byte list \<Rightarrow> carray" where
  "local_bytes junk bs = (\<lambda>i. if i < length bs then bs ! i else junk i)"

definition program_frame :: "int \<Rightarrow> u32" where
  "program_frame p = drop_bit 22 (word_of_int (0x800000 + (p - 1) * 0x400000))"

text \<open>printfk of a string constant without conversions.\<close>

definition printfk_plain :: "string \<Rightarrow> 'a console_state_scheme \<Rightarrow> 'a console_state_scheme" where
  "printfk_plain str s = fold putck (bytes_of str) s"

definition free_pid :: "'a kernel_state_scheme \<Rightarrow> nat option" where
  "free_pid s = find (\<lambda>i. pid_arr s (int i) = 0) [0..<MAX_PCBS]"

text \<open>From the allocation of the pid to the jump into the program.\<close>

definition start_program :: "dentry_t \<Rightarrow> u32 \<Rightarrow> carray \<Rightarrow> 'a kernel_state_scheme \<Rightarrow> flow \<times> 'a kernel_state_scheme" where
  "start_program file prog_eip arg s =
     (case free_pid s of
        None \<Rightarrow> (Ret 256, sti (printfk_plain ''Process Cap Reached: '' s))
      | Some i \<Rightarrow>
        let s = s\<lparr>pid_arr := (pid_arr s)(int i := 1)\<rparr>;
            pid_num = int i + 1;
            s = set_pde_frame4mb 32 (program_frame pid_num) s;
            s = flush_tlb s;
            (r, bs) = read_data (kmem s) (fs s) (inode_num file) 0 10000000;
            s = vstore 0x8048000 bs s
        in if r = -1 then (Ret (-1), sti s)
        else
          let s = build_pcb arg pid_num s;
              s = upd_pcb pid_num (\<lambda>p. p\<lparr>ESP_prev := reg_esp s, EBP_prev := reg_ebp s\<rparr>) s;
              top = word_of_int (get_active_kernel_stack_addr (running_pid s));
              s = s\<lparr>ss0 := KERNEL_DS, esp0 := top\<rparr>;
              s = upd_pcb pid_num (\<lambda>p. p\<lparr>tss_esp0 := top\<rparr>) s;
              s = sti s
          in (ToUser prog_eip (0x8000000 + 0x400000 - 4), s))"

definition execute :: "carray option \<Rightarrow> 'a kernel_state_scheme \<Rightarrow> (flow \<times> 'a kernel_state_scheme) option" where
  "execute command s =
     (let s = cli s in
      case command of None \<Rightarrow> Some (Ret (-1), sti s)
      | Some command \<Rightarrow> do {
          (cmdIndex, cmd) \<leftarrow> getCommand command (\<lambda>i. if i < 32 then NUL else stack_junk s i);
          arg \<leftarrow> getArguments command (\<lambda>i. if i < 32 then NUL else stack_junk s i) cmdIndex;
          (r, d) \<leftarrow> read_dentry_by_name (kmem s) (fs s) cmd;
          case d of None \<Rightarrow> Some (Ret (-1), sti s)
          | Some file \<Rightarrow>
            let (r, bs) = read_data (kmem s) (fs s) (inode_num file) 0 4;
                magic = local_bytes (stack_junk s) bs
            in if r = -1 then Some (Ret (-1), s)
            else if magic 0 \<noteq> 0x7F \<or> magic 1 \<noteq> 0x45 \<or> magic 2 \<noteq> 0x4C \<or> magic 3 \<noteq> 0x46
            then Some (Ret (-1), sti s)
            else
              let (r, bs) = read_data (kmem s) (fs s) (inode_num file) 24 4;
                  prog_eip = load32 (local_bytes (stack_junk s) bs) 0
              in if r = -1 then Some (Ret (-1), sti s)
              else Some (start_program file prog_eip arg s)
        })"

section \<open>halt\<close>

text \<open>The second half of halt: close every descriptor and go back to the parent.\<close>

definition close_all :: "'a kernel_state_scheme \<Rightarrow> 'a kernel_state_scheme" where
  "close_all s = fold (\<lambda>i s. snd (close_fd (int i) s)) [0..<NUM_FDS] s"

definition return_to_parent :: "int \<Rightarrow> int \<Rightarrow> 'a kernel_state_scheme \<Rightarrow> flow \<times> 'a kernel_state_scheme" where
  "return_to_parent pid_num ret_val s =
     (let s = close_all s;
          current = pcbs s pid_num;
          s = set_pde_frame4mb 32 (program_frame (parent_pid current)) s;
          s = flush_tlb s;
          s = s\<lparr>ss0 := prev_tss_SS current, esp0 := prev_tss_ESP0 current\<rparr>;
          s = upd_term (sched_term s) (\<lambda>t. t\<lparr>active_pid := parent_pid current\<rparr>) s;
          s = sti s
      in (LongRet (ESP_prev current) (EBP_prev current) ret_val, s))"

text \<open>A program whose terminal has no other is replaced by a new shell; execute then does not return.\<close>

definition halt :: "int \<Rightarrow> 'a kernel_state_scheme \<Rightarrow> (flow \<times> 'a kernel_state_scheme) option" where
  "halt halt_status s =
     (let s = cli s;
          ret_val = (if halt_status = 100 then 256 else halt_status);
          pid_num = running_pid s;
          s = s\<lparr>pid_arr := (pid_arr s)(pid_num - 1 := 0)\<rparr>
      in if pid (pcbs s pid_num) = base_pid (terminals s (sched_term s)) then do {
           (f, s) \<leftarrow> execute (Some (arr_of (bytes_of ''shell''))) s;
           (case f of Ret _ \<Rightarrow> Some (return_to_parent pid_num ret_val s) | _ \<Rightarrow> Some (f, s))
         }
         else Some (return_to_parent pid_num ret_val s))"

section \<open>What the operations leave alone\<close>

lemma upd_pcb_simps [simp]:
  "pcbs (upd_pcb p f s) = (pcbs s)(p := f (pcbs s p))" "pid_arr (upd_pcb p f s) = pid_arr s"
  "terminals (upd_pcb p f s) = terminals s" "sched_term (upd_pcb p f s) = sched_term s"
  "visible_term (upd_pcb p f s) = visible_term s" "fs (upd_pcb p f s) = fs s"
  "mem (upd_pcb p f s) = mem s" "paging_of (upd_pcb p f s) = paging_of s"
  "esp0 (upd_pcb p f s) = esp0 s" "ss0 (upd_pcb p f s) = ss0 s" "file_pcb (upd_pcb p f s) = file_pcb s"
  "reg_esp (upd_pcb p f s) = reg_esp s" "reg_ebp (upd_pcb p f s) = reg_ebp s"
  "iflag (upd_pcb p f s) = iflag s" "page_faults (upd_pcb p f s) = page_faults s"
  by (simp_all add: upd_pcb_def paging_of_def)

lemmas upd_pcb_paging [simp] = paging_cong [OF upd_pcb_simps(8)]

lemma running_pid_upd_pcb [simp]: "running_pid (upd_pcb p f s) = running_pid s"
  by (simp add: running_pid_def)

lemma kmem_upd_pcb [simp]: "kmem (upd_pcb p f s) = kmem s"
  by (simp add: kmem_def vread_def fun_eq_iff split: option.split)

section \<open>The descriptor table\<close>

definition open_fds :: "pcb_t \<Rightarrow> nat set" where
  "open_fds p = {i. i < NUM_FDS \<and> flags (file_desc_arr p i) = 1}"

text \<open>
  The table is consistent: flags are 0 or 1, stdin and stdout are open on the terminal, a
  descriptor has operations exactly when it is open, and the count is the number of open ones.
\<close>

definition fd_table_ok :: "pcb_t \<Rightarrow> bool" where
  "fd_table_ok p \<longleftrightarrow>
     (\<forall>i < NUM_FDS. flags (file_desc_arr p i) \<in> {0, 1}) \<and>
     flags (file_desc_arr p 0) = 1 \<and> flags (file_desc_arr p 1) = 1 \<and>
     fops (file_desc_arr p 0) = Some stdin_fops \<and> fops (file_desc_arr p 1) = Some stdout_fops \<and>
     (\<forall>i. 2 \<le> i \<and> i < NUM_FDS \<longrightarrow>
        (if flags (file_desc_arr p i) = 1 then fops (file_desc_arr p i) \<in> {Some f_ops, Some d_ops, Some rtc_ops}
         else fops (file_desc_arr p i) = None)) \<and>
     num_open_descriptors p = int (card (open_fds p))"

lemma finite_open_fds [simp]: "finite (open_fds p)"
  by (simp add: open_fds_def)

lemma upd_fd_simps [simp]:
  "file_desc_arr (upd_fd i f p) = (file_desc_arr p)(i := f (file_desc_arr p i))"
  "num_open_descriptors (upd_fd i f p) = num_open_descriptors p"
  "pid (upd_fd i f p) = pid p" "parent_pid (upd_fd i f p) = parent_pid p" "args (upd_fd i f p) = args p"
  "ESP_prev (upd_fd i f p) = ESP_prev p" "EBP_prev (upd_fd i f p) = EBP_prev p"
  "prev_tss_ESP0 (upd_fd i f p) = prev_tss_ESP0 p" "prev_tss_SS (upd_fd i f p) = prev_tss_SS p"
  "tss_esp0 (upd_fd i f p) = tss_esp0 p" "pcb_ebp (upd_fd i f p) = pcb_ebp p" "pcb_esp (upd_fd i f p) = pcb_esp p"
  by (simp_all add: upd_fd_def)

text \<open>The search for a free descriptor finds the lowest.\<close>

lemma free_fd_eq:
  "free_fd p = (if flags (file_desc_arr p 2) = 0 then 2 else if flags (file_desc_arr p 3) = 0 then 3
     else if flags (file_desc_arr p 4) = 0 then 4 else if flags (file_desc_arr p 5) = 0 then 5
     else if flags (file_desc_arr p 6) = 0 then 6 else if flags (file_desc_arr p 7) = 0 then 7 else 8)"
  by (simp add: free_fd_def)

lemma free_fd_lowest:
  assumes "fd_table_ok p" "num_open_descriptors p < 8"
  shows "2 \<le> free_fd p" "free_fd p < NUM_FDS" "flags (file_desc_arr p (free_fd p)) = 0"
    "2 \<le> j \<Longrightarrow> j < free_fd p \<Longrightarrow> flags (file_desc_arr p j) = 1"
proof -
  have "\<exists>i < NUM_FDS. flags (file_desc_arr p i) = 0"
  proof (rule ccontr)
    assume "\<not> ?thesis"
    with assms(1) have "open_fds p = {..<NUM_FDS}" by (auto simp: open_fds_def fd_table_ok_def)
    with assms show False by (simp add: fd_table_ok_def)
  qed
  then obtain i where i: "i < NUM_FDS" "flags (file_desc_arr p i) = 0" by blast
  then have "i \<noteq> 0" "i \<noteq> 1" using assms(1) by (auto simp: fd_table_ok_def)
  with i(1) have "i = 2 \<or> i = 3 \<or> i = 4 \<or> i = 5 \<or> i = 6 \<or> i = 7" by linarith
  with i(2) have "free_fd p \<noteq> 8" by (auto simp: free_fd_eq)
  then show "2 \<le> free_fd p" "free_fd p < NUM_FDS" "flags (file_desc_arr p (free_fd p)) = 0"
    by (auto simp: free_fd_eq split: if_splits)
  assume j: "2 \<le> j" "j < free_fd p"
  moreover have "free_fd p \<le> 8" by (simp add: free_fd_eq)
  ultimately have "j = 2 \<or> j = 3 \<or> j = 4 \<or> j = 5 \<or> j = 6 \<or> j = 7" by linarith
  with j(2) have "flags (file_desc_arr p j) \<noteq> 0" "j < NUM_FDS" by (auto simp: free_fd_eq split: if_splits)
  with assms(1) show "flags (file_desc_arr p j) = 1" by (auto simp: fd_table_ok_def)
qed

lemma card_open_fds_insert:
  assumes "i < NUM_FDS" "flags (file_desc_arr p i) \<noteq> 1" "flags (f (file_desc_arr p i)) = 1"
  shows "card (open_fds (upd_fd i f p)) = Suc (card (open_fds p))"
proof -
  have "open_fds (upd_fd i f p) = insert i (open_fds p)" using assms by (auto simp: open_fds_def)
  with assms show ?thesis by (simp add: open_fds_def)
qed

lemma card_open_fds_remove:
  assumes "i < NUM_FDS" "flags (file_desc_arr p i) = 1" "flags (f (file_desc_arr p i)) \<noteq> 1"
  shows "Suc (card (open_fds (upd_fd i f p))) = card (open_fds p)"
proof -
  have "open_fds (upd_fd i f p) = open_fds p - {i}" using assms by (auto simp: open_fds_def)
  moreover have "i \<in> open_fds p" using assms by (simp add: open_fds_def)
  ultimately show ?thesis using card_Suc_Diff1 [of "open_fds p" i] by simp
qed

lemma open_fds_count [simp]: "open_fds (p\<lparr>num_open_descriptors := n\<rparr>) = open_fds p"
  by (simp add: open_fds_def)

lemma fd_table_ok_open:
  assumes "fd_table_ok p" "2 \<le> i" "i < NUM_FDS" "flags (file_desc_arr p i) = 0"
    and "flags (f (file_desc_arr p i)) = 1" "fops (f (file_desc_arr p i)) \<in> {Some f_ops, Some d_ops, Some rtc_ops}"
  shows "fd_table_ok ((upd_fd i f p)\<lparr>num_open_descriptors := num_open_descriptors p + 1\<rparr>)"
  using assms card_open_fds_insert [of i p f] by (auto simp: fd_table_ok_def)

lemma fd_table_ok_close:
  assumes "fd_table_ok p" "2 \<le> i" "i < NUM_FDS" "flags (file_desc_arr p i) = 1"
    and "flags (f (file_desc_arr p i)) = 0" "fops (f (file_desc_arr p i)) = None"
  shows "fd_table_ok ((upd_fd i f p)\<lparr>num_open_descriptors := num_open_descriptors p - 1\<rparr>)"
  using assms card_open_fds_remove [of i p f] by (auto simp: fd_table_ok_def)

section \<open>What open and close do\<close>

lemma upd_pcb_twice [simp]: "upd_pcb p f (upd_pcb p g s) = upd_pcb p (\<lambda>x. f (g x)) s"
  by (simp add: upd_pcb_def)

lemma open_ops_descriptor: "open_ops d = Some (ops, inode) \<Longrightarrow> Some ops \<in> {Some f_ops, Some d_ops, Some rtc_ops}"
  by (auto simp: open_ops_def split: if_splits)

definition opened_fd :: "file_ops \<Rightarrow> int \<Rightarrow> byte list \<Rightarrow> fd_t" where
  "opened_fd ops inode n =
     \<lparr>fops = Some ops, fd_inode = inode, file_offset = 0, flags = 1, fname = FStack n\<rparr>"

definition open_in :: "nat \<Rightarrow> fd_t \<Rightarrow> pcb_t \<Rightarrow> pcb_t" where
  "open_in fd f p = (upd_fd fd (\<lambda>_. f) p)\<lparr>num_open_descriptors := num_open_descriptors p + 1\<rparr>"

definition closed_fd :: fd_t where
  "closed_fd = \<lparr>fops = None, fd_inode = 0, file_offset = 0, flags = 0, fname = FNull\<rparr>"

definition close_in :: "nat \<Rightarrow> pcb_t \<Rightarrow> pcb_t" where
  "close_in fd p = (upd_fd fd (\<lambda>_. closed_fd) p)\<lparr>num_open_descriptors := num_open_descriptors p - 1\<rparr>"

lemma open_file_eq:
  assumes "num_open_descriptors (pcbs s (running_pid s)) < 8"
    and "read_dentry_by_name (kmem s) (fs s) name = Some (r, Some d)" "open_ops d = Some (ops, inode)"
  shows "open_file name s = Some (int (free_fd (pcbs s (running_pid s))),
    upd_pcb (running_pid s) (open_in (free_fd (pcbs s (running_pid s))) (opened_fd ops inode (filename d))) s)"
proof -
  have eq: "(\<lambda>x. (upd_fd fd (\<lambda>f. f\<lparr>file_offset := 0, flags := 1, fname := FStack (filename d)\<rparr>)
        (upd_fd fd (\<lambda>f. f\<lparr>fops := Some ops, fd_inode := inode\<rparr>) x))
        \<lparr>num_open_descriptors := num_open_descriptors x + 1\<rparr>) = open_in fd (opened_fd ops inode (filename d))" for fd
    by (simp add: fun_eq_iff upd_fd_def open_in_def opened_fd_def)
  show ?thesis
    using assms by (simp add: open_file_def Let_def eq)
qed

lemma close_fd_eq:
  assumes "2 \<le> fd" "fd < num_open_descriptors (pcbs s (running_pid s))"
    and "flags (file_desc_arr (pcbs s (running_pid s)) (nat fd)) \<noteq> 0"
  shows "close_fd fd s = (0, upd_pcb (running_pid s) (close_in (nat fd)) s)"
proof -
  have eq: "(\<lambda>x. (upd_fd i (\<lambda>f. f\<lparr>fops := None, fd_inode := 0, file_offset := 0, flags := 0, fname := FNull\<rparr>) x)
        \<lparr>num_open_descriptors := num_open_descriptors x - 1\<rparr>) = close_in i" for i
    by (simp add: fun_eq_iff upd_fd_def close_in_def closed_fd_def)
  show ?thesis
    using assms by (simp add: close_fd_def Let_def eq)
qed

lemma close_fd_refused:
  assumes "fd < 2 \<or> num_open_descriptors (pcbs s (running_pid s)) \<le> fd
     \<or> flags (file_desc_arr (pcbs s (running_pid s)) (nat fd)) = 0"
  shows "close_fd fd s = (-1, s)"
  using assms by (auto simp: close_fd_def Let_def)

lemma fd_table_ok_open_in:
  assumes "fd_table_ok p" "num_open_descriptors p < 8" "open_ops d = Some (ops, inode)"
  shows "fd_table_ok (open_in (free_fd p) (opened_fd ops inode n) p)"
  unfolding open_in_def
  using free_fd_lowest [OF assms(1,2)] open_ops_descriptor [OF assms(3)]
  by (intro fd_table_ok_open assms(1)) (auto simp: opened_fd_def)

lemma fd_table_ok_close_in:
  assumes "fd_table_ok p" "2 \<le> i" "i < NUM_FDS" "flags (file_desc_arr p i) \<noteq> 0"
  shows "fd_table_ok (close_in i p)"
proof -
  have "flags (file_desc_arr p i) = 1" using assms by (auto simp: fd_table_ok_def)
  then show ?thesis
    unfolding close_in_def by (intro fd_table_ok_close assms) (auto simp: closed_fd_def)
qed

lemma num_open_le: "fd_table_ok p \<Longrightarrow> num_open_descriptors p \<le> 8"
proof -
  assume "fd_table_ok p"
  moreover have "card (open_fds p) \<le> card {..<NUM_FDS}" by (rule card_mono) (auto simp: open_fds_def)
  ultimately show ?thesis by (simp add: fd_table_ok_def)
qed

lemma fd_table_ok_close_fd:
  "fd_table_ok (pcbs s (running_pid s)) \<Longrightarrow> fd_table_ok (pcbs (snd (close_fd fd s)) (running_pid s))"
  using close_fd_eq [of fd s] close_fd_refused [of fd s] num_open_le [of "pcbs s (running_pid s)"]
    fd_table_ok_close_in [of "pcbs s (running_pid s)" "nat fd"]
  by (cases "fd < 2 \<or> num_open_descriptors (pcbs s (running_pid s)) \<le> fd
     \<or> flags (file_desc_arr (pcbs s (running_pid s)) (nat fd)) = 0") auto

text \<open>With the highest open descriptor above a free one, the count is at most that descriptor.\<close>

lemma gap_count:
  assumes "fd_table_ok p" "fd < NUM_FDS" "j < fd" "flags (file_desc_arr p j) = 0"
    and "\<And>i. fd < i \<Longrightarrow> i < NUM_FDS \<Longrightarrow> flags (file_desc_arr p i) = 0"
  shows "num_open_descriptors p \<le> int fd"
proof -
  have "open_fds p \<subseteq> {..fd} - {j}"
    using assms(4,5) by (auto simp: open_fds_def) (metis not_less zero_neq_one)
  then have "card (open_fds p) \<le> card ({..fd} - {j})" by (intro card_mono) auto
  also have "\<dots> = fd" using assms(3) by simp
  finally show ?thesis using assms(1) by (simp add: fd_table_ok_def)
qed

section \<open>A machine\<close>

text \<open>
  A concrete state for the examples: an image at 0x500000 with a program \<open>shell\<close> (an executable of
  28 bytes with entry point 0x8048000), a text file \<open>f\<close> and the directory \<open>.\<close>, paging switched
  on, the terminals as terminal_init leaves them, and no process running yet.
\<close>

definition demo_prog :: "byte list" where
  "demo_prog = [0x7F, 0x45, 0x4C, 0x46] @ replicate 20 0 @ bytes32 0x8048000"

definition demo_mem :: mem where
  "demo_mem = store_bytes 0x504000 (bytes_of ''hello'') (store_bytes 0x503000 demo_prog
     (store_bytes 0x502000 (bytes32 5 @ bytes32 1) (store_bytes 0x501000 (bytes32 28 @ bytes32 0)
     (store_bytes 0x5000E0 (bytes32 1) (store_bytes 0x5000C0 (bytes_of ''.'')
     (store_bytes 0x5000A0 (bytes32 2 @ bytes32 1) (store_bytes 0x500080 (bytes_of ''f'')
     (store_bytes 0x500060 (bytes32 2 @ bytes32 0) (store_bytes 0x500040 (bytes_of ''shell'')
     (store_bytes 0x500000 (bytes32 3 @ bytes32 2 @ bytes32 2) (\<lambda>_. 0)))))))))))"

definition demo_fs :: fs_globals where
  "demo_fs = filesys_init demo_mem 0x500000"

definition zero_fd :: fd_t where
  "zero_fd = \<lparr>fops = None, fd_inode = 0, file_offset = 0, flags = 0, fname = FNull\<rparr>"

definition zero_pcb :: pcb_t where
  "zero_pcb = \<lparr>pid = 0, parent_pid = 0, user_prog_ep = 0, args = (\<lambda>_. 0), ESP_prev = 0, EBP_prev = 0,
     prev_tss_ESP0 = 0, tss_esp0 = 0, prev_tss_SS = 0, pcb_ebp = 0, pcb_esp = 0,
     file_desc_arr = (\<lambda>_. zero_fd), num_open_descriptors = 0\<rparr>"

definition demo_terminal :: "nat \<Rightarrow> terminal_t" where
  "demo_terminal i = zero_terminal\<lparr>counter_freqRate := 512, VRAM_addr := 0xB9000 + 0x1000 * word_of_nat i,
     active_pid := (if i = 0 then 1 else 0), base_pid := (if i = 0 then 1 else 0),
     status := (if i = 0 then 1 else 0), r_flag := (if i = 0 then 1 else 0)\<rparr>"

definition demo_state :: kernel_state where
  "demo_state = paging_init \<lparr>io_log = [], iflag = False, master_mask = 0, slave_mask = 0,
     mem = demo_mem, page_directory = (\<lambda>_. 0), page_table = (\<lambda>_. 0), page_table_vidmap = (\<lambda>_. 0),
     page_table_addr = 0x40A000, page_table_vidmap_addr = 0x40B000, cr3_loaded = False,
     paging_on = False, tlb_stale = False, terminals = demo_terminal, running_term = 0,
     sched_term = 0, visible_term = 0, next_terminal = 0, page_faults = [],
     fs = demo_fs, pid_arr = (\<lambda>_. 0), pcbs = (\<lambda>_. zero_pcb), file_pcb = None, esp0 = 0x7FFFFC,
     ss0 = 0x18, reg_esp = 0x7FFE00, reg_ebp = 0x7FFE40, stack_junk = (\<lambda>_. 0xAA), caps_flag = 0,
     shift_flag = 0, ctrl_flag = 0, alt_flag = 0, line_flag = 0, tab_flag = 0, f_key_pressed = 0,
     terminalNumber = 1, enter_pressed = (\<lambda>_. 0), term_buffer = (\<lambda>_. 0), buffer_index = 0\<rparr>"

lemma demo_words:
  "load_i32 demo_mem 0x500000 = 3" "load_i32 demo_mem 0x500004 = 2" "load_i32 demo_mem 0x500008 = 2"
  "load_i32 demo_mem 0x501000 = 28" "load_i32 demo_mem 0x501004 = 0"
  "load_i32 demo_mem 0x502000 = 5" "load_i32 demo_mem 0x502004 = 1"
  "load_i32 demo_mem 0x500060 = 2" "load_i32 demo_mem 0x500064 = 0"
  "load_i32 demo_mem 0x5000A0 = 2" "load_i32 demo_mem 0x5000A4 = 1"
  "load_i32 demo_mem 0x5000E0 = 1" "load_i32 demo_mem 0x5000E4 = 0"
  by (simp_all add: load_i32_def load32_def demo_mem_def store_bytes_def bytes32_def bytes_of_def demo_prog_def)

lemma demo_fs_eq:
  "demo_fs = \<lparr>fs_start = 0x500000, num_inodes = 2, num_direntries = 3, fs_D = 2, fs_N = 3\<rparr>"
  by (simp add: demo_fs_def filesys_init_def addr32_eq demo_words)

lemma demo_placed: "fs_placed demo_fs" "dir_placed demo_fs"
  by (simp_all add: fs_placed_def dir_placed_def demo_fs_eq)

lemma demo_inodes:
  "inode_length demo_mem demo_fs 0 = 28" "data_block_num demo_mem demo_fs 0 0 = 0"
  "inode_length demo_mem demo_fs 1 = 5" "data_block_num demo_mem demo_fs 1 0 = 1"
  by (simp_all add: inode_length_def data_block_num_def inode_addr_def demo_fs_eq addr32_eq demo_words)

lemma demo_inode_placed: "inode_placed demo_mem demo_fs 0" "inode_placed demo_mem demo_fs 1"
  by (simp_all add: inode_placed_def demo_placed demo_inodes block_ok_def) (simp_all add: demo_fs_eq)

lemma demo_direntry:
  "direntry demo_fs 0 = 0x500040" "direntry demo_fs 1 = 0x500080" "direntry demo_fs 2 = 0x5000C0"
  by (simp_all add: direntry_def demo_fs_eq addr32_eq)

lemma strlen_ptr:
  assumes "load_bytes m a (length bs) = bs" "m (a + length bs) = NUL" "NUL \<notin> set bs"
  shows "strlen (ptr m a) = Some (length bs)"
proof -
  have "m (a + j) = bs ! j" if "j < length bs" for j
    using arg_cong [OF assms(1), of "\<lambda>l. l ! j"] that by simp
  with assms(2,3) show ?thesis by (auto simp: strlen_eq_Some ptr_def dest: nth_mem)
qed

lemma name_in_dir:
  assumes "load_bytes m (direntry g i) (length bs) = bs" "m (direntry g i + length bs) = NUL"
    "NUL \<notin> set bs" "length bs \<le> 32"
  shows "dentry_name m g i = bs"
proof -
  have "map (ptr m (direntry g i)) [0..<length bs] = load_bytes m (direntry g i) (length bs)"
    by (rule nth_equalityI) (simp_all add: ptr_def)
  with dentry_name_eq [OF strlen_ptr [OF assms(1-3)]] assms(1,4) show ?thesis by (simp add: min_def)
qed

lemma load_store_eq: "n = length bs \<Longrightarrow> load_bytes (store_bytes a bs m) a n = bs"
  by simp

lemma demo_name_bytes:
  "load_bytes demo_mem 0x500040 5 = bytes_of ''shell''" "demo_mem 0x500045 = NUL"
  "load_bytes demo_mem 0x500080 1 = bytes_of ''f''" "demo_mem 0x500081 = NUL"
  "load_bytes demo_mem 0x5000C0 1 = bytes_of ''.''" "demo_mem 0x5000C1 = NUL"
  unfolding demo_mem_def demo_prog_def
  by (simp_all add: load_store_disjoint load_store_eq)

lemma demo_names:
  "dentry_name demo_mem demo_fs 0 = bytes_of ''shell''" "dentry_name demo_mem demo_fs 1 = bytes_of ''f''"
  "dentry_name demo_mem demo_fs 2 = bytes_of ''.''"
proof -
  have n: "length bs = n \<Longrightarrow> load_bytes demo_mem (direntry demo_fs i) n = bs \<Longrightarrow>
      demo_mem (direntry demo_fs i + n) = NUL \<Longrightarrow> NUL \<notin> set bs \<Longrightarrow> n \<le> 32 \<Longrightarrow> dentry_name demo_mem demo_fs i = bs"
    for i n bs by (auto intro: name_in_dir)
  show "dentry_name demo_mem demo_fs 0 = bytes_of ''shell''"
    using demo_name_bytes by (intro n [of _ 5]) (simp_all add: demo_direntry, simp add: bytes_of_def)
  show "dentry_name demo_mem demo_fs 1 = bytes_of ''f''"
    using demo_name_bytes by (intro n [of _ 1]) (simp_all add: demo_direntry, simp add: bytes_of_def)
  show "dentry_name demo_mem demo_fs 2 = bytes_of ''.''"
    using demo_name_bytes by (intro n [of _ 1]) (simp_all add: demo_direntry, simp add: bytes_of_def)
qed

lemma demo_names_end: "names_end demo_mem demo_fs"
proof -
  have "i = 0 \<or> i = 1 \<or> i = 2" if "0 \<le> i" "i < 3" for i :: int using that by auto
  moreover have "\<exists>k < 64. demo_mem (0x500040 + k) = NUL" "\<exists>k < 64. demo_mem (0x500080 + k) = NUL"
    "\<exists>k < 64. demo_mem (0x5000C0 + k) = NUL"
    using demo_name_bytes by (auto intro: exI [of _ 5] exI [of _ 1])
  moreover have "num_direntries demo_fs = 3" by (simp add: demo_fs_eq)
  ultimately show ?thesis
    unfolding names_end_def by (metis demo_direntry)
qed

section \<open>A new process control block\<close>

lemma upd_term_kernel [simp]:
  "pcbs (upd_term i f s) = pcbs s" "pid_arr (upd_term i f s) = pid_arr s" "fs (upd_term i f s) = fs s"
  "esp0 (upd_term i f s) = esp0 s" "ss0 (upd_term i f s) = ss0 s" "file_pcb (upd_term i f s) = file_pcb s"
  "reg_esp (upd_term i f s) = reg_esp s" "reg_ebp (upd_term i f s) = reg_ebp s" "stack_junk (upd_term i f s) = stack_junk s"
  by (simp_all add: upd_term_def)

lemma build_pcb_fields:
  "pid (pcbs (build_pcb a p s) p) = p"
  "parent_pid (pcbs (build_pcb a p s) p) =
     (if p = base_pid (terminals s (sched_term s)) then p else active_pid (terminals s (sched_term s)))"
  "i < 32 \<Longrightarrow> args (pcbs (build_pcb a p s) p) i = a i"
  "prev_tss_ESP0 (pcbs (build_pcb a p s) p) = esp0 s" "prev_tss_SS (pcbs (build_pcb a p s) p) = ss0 s"
  "num_open_descriptors (pcbs (build_pcb a p s) p) = 2"
  "q \<noteq> p \<Longrightarrow> pcbs (build_pcb a p s) q = pcbs s q"
  by (simp_all add: build_pcb_def Let_def update_file_pcb_def)

lemma build_pcb_state [simp]:
  "terminals (build_pcb a p s) =
     (terminals s)(sched_term s := (terminals s (sched_term s))\<lparr>active_pid := p\<rparr>)"
  "sched_term (build_pcb a p s) = sched_term s" "visible_term (build_pcb a p s) = visible_term s"
  "pid_arr (build_pcb a p s) = pid_arr s" "fs (build_pcb a p s) = fs s"
  "mem (build_pcb a p s) = mem s" "paging_of (build_pcb a p s) = paging_of s"
  "esp0 (build_pcb a p s) = esp0 s" "ss0 (build_pcb a p s) = ss0 s"
  "reg_esp (build_pcb a p s) = reg_esp s" "reg_ebp (build_pcb a p s) = reg_ebp s"
  "page_faults (build_pcb a p s) = page_faults s"
  by (simp_all add: build_pcb_def Let_def update_file_pcb_def paging_of_def upd_term_def upd_pcb_def)

lemmas build_pcb_paging [simp] = paging_cong [OF build_pcb_state(7)]

lemma fold_cleared_fd:
  "file_desc_arr (fold (\<lambda>i. upd_fd i f) [a..<b] p) i =
     (if a \<le> i \<and> i < b then f (file_desc_arr p i) else file_desc_arr p i)"
proof (induction b)
  case (Suc b)
  then show ?case by (auto simp: less_Suc_eq)
qed simp

lemma build_pcb_fds:
  "file_desc_arr (pcbs (build_pcb a p s) p) i =
     (if i = 0 then \<lparr>fops = Some stdin_fops, fd_inode = 0, file_offset = 0, flags = 1, fname = FConst ''stdin''\<rparr>
      else if i = 1 then \<lparr>fops = Some stdout_fops, fd_inode = 0, file_offset = 0, flags = 1, fname = FConst ''stdout''\<rparr>
      else if i < 8 then \<lparr>fops = None, fd_inode = 0, file_offset = 0, flags = 0, fname = FConst []\<rparr>
      else file_desc_arr (pcbs s p) i)"
proof -
  have "file_desc_arr (pcbs (build_pcb a p s) p) = (\<lambda>i. file_desc_arr
      (fold (\<lambda>i. upd_fd i cleared_fd) [2..<NUM_FDS] (pcbs s p)) i)
      (0 := \<lparr>fops = Some stdin_fops, fd_inode = 0, file_offset = 0, flags = 1, fname = FConst ''stdin''\<rparr>,
       1 := \<lparr>fops = Some stdout_fops, fd_inode = 0, file_offset = 0, flags = 1, fname = FConst ''stdout''\<rparr>)"
    by (rule ext) (simp add: build_pcb_def Let_def update_file_pcb_def cleared_fd_def)
  then show ?thesis
    unfolding fold_cleared_fd by (simp add: cleared_fd_def)
qed

lemma fd_table_ok_build_pcb: "fd_table_ok (pcbs (build_pcb a p s) p)"
proof -
  have "open_fds (pcbs (build_pcb a p s) p) = {0, 1}"
    by (auto simp: open_fds_def build_pcb_fds split: if_splits)
  then show ?thesis
    by (simp add: fd_table_ok_def build_pcb_fds build_pcb_fields)
qed

section \<open>Kernel memory\<close>

lemma kmem_kernel: "paging_ok s \<Longrightarrow> agree_kernel (kmem s) (mem s)"
  by (simp add: agree_kernel_def kmem_def vread_def mmu_kernel)

lemma agree_kernel_sym: "agree_kernel m m' \<Longrightarrow> agree_kernel m' m"
  by (simp add: agree_kernel_def)

lemma agree_kernel_trans: "agree_kernel m m' \<Longrightarrow> agree_kernel m' m'' \<Longrightarrow> agree_kernel m m''"
  by (simp add: agree_kernel_def)

text \<open>The file system of a state: placed in the kernel's memory, with terminated names.\<close>

definition fs_ok :: "'a kernel_state_scheme \<Rightarrow> bool" where
  "fs_ok s \<longleftrightarrow> paging_ok s \<and> dir_placed (fs s) \<and> names_end (mem s) (fs s)"

definition lookup :: "'a kernel_state_scheme \<Rightarrow> byte list \<Rightarrow> dentry_t option" where
  "lookup s n = map_option (\<lambda>i. load_dentry (mem s) (direntry (fs s) i))
     (find (\<lambda>i. dentry_name (mem s) (fs s) i = take 32 n) [0..num_direntries (fs s) - 1])"

lemma find_cong': "(\<And>x. x \<in> set xs \<Longrightarrow> P x = Q x) \<Longrightarrow> find P xs = find Q xs"
  by (induction xs) auto

lemma lookup_eq:
  assumes "fs_ok s" "cstr name = Some n"
  shows "read_dentry_by_name (kmem s) (fs s) name =
    Some (case lookup s n of None \<Rightarrow> (-1, None) | Some d \<Rightarrow> (int (length (take 32 n)), Some d))"
proof -
  have a: "agree_kernel (mem s) (kmem s)" "dir_placed (fs s)" "names_end (mem s) (fs s)"
    using assms(1) kmem_kernel agree_kernel_sym by (auto simp: fs_ok_def)
  have f: "find (\<lambda>i. dentry_name (kmem s) (fs s) i = take 32 n) [0..num_direntries (fs s) - 1] =
      find (\<lambda>i. dentry_name (mem s) (fs s) i = take 32 n) [0..num_direntries (fs s) - 1]"
    using direntry_agree(3) [OF a(1,2)] by (intro find_cong') auto
  show ?thesis
  proof (cases "find (\<lambda>i. dentry_name (mem s) (fs s) i = take 32 n) [0..num_direntries (fs s) - 1]")
    case None
    then show ?thesis
      using read_dentry_by_name_eq [OF names_end_agree [OF a] assms(2)] by (simp add: f lookup_def)
  next
    case (Some i)
    then have "i \<in> set [0..num_direntries (fs s) - 1]" by (metis find_Some_iff nth_mem)
    then have "load_dentry (kmem s) (direntry (fs s) i) = load_dentry (mem s) (direntry (fs s) i)"
      using direntry_agree(2) [OF a(1,2)] by auto
    with Some show ?thesis
      using read_dentry_by_name_eq [OF names_end_agree [OF a] assms(2)] by (simp add: f lookup_def)
  qed
qed

end
