(* ===== verification/Files.thy ===== *)
theory Files
  imports Process
begin

text \<open>
  The file operations behind a descriptor (file_system.c: file_read, dir_read and the operations that
  do nothing), and the properties of descriptors: what open, close and reading do.

  An operation that stores into the caller's buffer returns the stored bytes, which start at the
  buffer's first byte; the system call places them.  \<open>file_pcb\<close> is the pointer the operations use;
  following it while it is null is a page fault, which the functions return as \<open>None\<close>.
\<close>

section \<open>The code\<close>

definition file_open :: "carray \<Rightarrow> int" where
  "file_open name = 0"

definition file_close :: "int \<Rightarrow> int" where
  "file_close fd = 0"

definition file_write :: "int \<Rightarrow> byte list \<Rightarrow> int \<Rightarrow> int" where
  "file_write fd buf nbytes = -1"

definition dir_write :: "int \<Rightarrow> byte list \<Rightarrow> int \<Rightarrow> int" where
  "dir_write fd buf nbytes = -1"

definition file_read :: "int \<Rightarrow> int \<Rightarrow> 'a kernel_state_scheme \<Rightarrow> (int \<times> byte list \<times> 'a kernel_state_scheme) option" where
  "file_read fd nbytes s = do {
     p \<leftarrow> file_pcb s;
     let pcb = pcbs s p in
     if fd < 0 \<or> fd \<ge> num_open_descriptors pcb then Some (-1, [], s)
     else let curr = file_desc_arr pcb (nat fd) in
     if fd_inode curr = 0 then Some (-1, [], s)
     else let (ret_val, bs) = read_data (kmem s) (fs s) (fd_inode curr) (file_offset curr) nbytes in
     if ret_val = -1 then Some (-1, bs, s)
     else Some (ret_val, bs,
       upd_pcb p (upd_fd (nat fd) (\<lambda>f. f\<lparr>file_offset := file_offset f + ret_val\<rparr>)) s)
   }"

definition dir_read :: "int \<Rightarrow> int \<Rightarrow> 'a kernel_state_scheme \<Rightarrow> (int \<times> byte list \<times> 'a kernel_state_scheme) option" where
  "dir_read fd nbytes s = do {
     p \<leftarrow> file_pcb s;
     let pcb = pcbs s p in
     if fd < 0 \<or> fd \<ge> num_open_descriptors pcb then Some (-1, [], s)
     else let curr = file_desc_arr pcb (nat fd) in
     if fd_inode curr \<noteq> 0 then Some (-1, [], s)
     else if file_offset curr \<ge> num_direntries (fs s) then Some (0, [], s)
     else do {
       (ret, d) \<leftarrow> read_dentry_by_index (kmem s) (fs s) (file_offset curr);
       case d of None \<Rightarrow> Some (-1, [], s)
       | Some d \<Rightarrow>
         let buf = strncpy (\<lambda>_. 0) (arr_of (filename d)) 32 in
         Some (ret, map buf [0..<32],
           upd_pcb p (upd_fd (nat fd) (\<lambda>f. f\<lparr>file_offset := file_offset f + 1\<rparr>)) s)
     }
   }"

section \<open>Opening\<close>

text \<open>A state with one process, which has just been given its control block.\<close>

definition demo_running :: kernel_state where
  "demo_running = build_pcb (\<lambda>_. 0) 1 demo_state"

lemma paging_init_kernel [simp]:
  "fs (paging_init s) = fs s" "pid_arr (paging_init s) = pid_arr s" "pcbs (paging_init s) = pcbs s"
  "file_pcb (paging_init s) = file_pcb s" "esp0 (paging_init s) = esp0 s" "ss0 (paging_init s) = ss0 s"
  "reg_esp (paging_init s) = reg_esp s" "reg_ebp (paging_init s) = reg_ebp s"
  "stack_junk (paging_init s) = stack_junk s" "enter_pressed (paging_init s) = enter_pressed s"
  "term_buffer (paging_init s) = term_buffer s" "buffer_index (paging_init s) = buffer_index s"
  unfolding paging_init_def Let_def fold_set_pde fold_set_pte fold_set_pte_vidmap
  by (simp_all add: loadPageDirectory_def otherenable_def set_pte_frame_def set_pte_def flush_tlb_def)

lemma demo_state_simps:
  "paging_ok demo_state" "mem demo_state = demo_mem" "fs demo_state = demo_fs"
  "terminals demo_state = demo_terminal" "sched_term demo_state = 0" "visible_term demo_state = 0"
  "pid_arr demo_state = (\<lambda>_. 0)" "video_frame demo_state = 0xB8" "pcbs demo_state = (\<lambda>_. zero_pcb)"
  "esp0 demo_state = 0x7FFFFC" "ss0 demo_state = 0x18" "reg_esp demo_state = 0x7FFE00"
  "reg_ebp demo_state = 0x7FFE40" "stack_junk demo_state = (\<lambda>_. 0xAA)" "page_faults demo_state = []"
  by (simp_all add: demo_state_def paging_init_ok tables_placed_def paging_init_frames paging_init_simps)

lemma demo_running_simps:
  "running_pid demo_running = 1" "fs_ok demo_running" "fs demo_running = demo_fs" "mem demo_running = demo_mem"
  "fd_table_ok (pcbs demo_running 1)" "num_open_descriptors (pcbs demo_running 1) = 2"
  "file_pcb demo_running = Some 1"
  by (simp_all add: demo_running_def running_pid_def demo_state_simps fs_ok_def demo_placed demo_names_end
      fd_table_ok_build_pcb build_pcb_fields)
    (simp add: build_pcb_def Let_def update_file_pcb_def)

lemma demo_lookup: "lookup demo_running (bytes_of ''f'') = Some (load_dentry demo_mem 0x500080)"
proof -
  have "[0..num_direntries demo_fs - 1] = [0, 1, 2]" by (simp add: demo_fs_eq upto.simps)
  then show ?thesis
    by (simp add: lookup_def demo_running_simps demo_names demo_direntry) (simp add: bytes_of_def)
qed

lemma demo_f: "filetype (load_dentry demo_mem 0x500080) = 2" "inode_num (load_dentry demo_mem 0x500080) = 1"
  by (simp_all add: load_dentry_def demo_words)

lemma cstr_bytes: "NUL \<notin> set bs \<Longrightarrow> cstr (arr_of bs) = Some bs"
  by (rule cstr_arr_of)

text \<open>
  open gives the lowest free descriptor from 2 on to the first file of the name: the descriptor
  gets the operations and the inode of the file's type and offset 0, every other descriptor and every
  other process is untouched, and the table stays consistent.
\<close>

theorem open_lowest_descriptor:
  assumes "fs_ok s" "cstr name = Some n" "lookup s n = Some d" "open_ops d = Some (ops, inode)"
    and "fd_table_ok (pcbs s (running_pid s))" "num_open_descriptors (pcbs s (running_pid s)) < 8"
  shows "\<exists>fd s'. open_file name s = Some (int fd, s') \<and> 2 \<le> fd \<and> fd < 8
    \<and> flags (file_desc_arr (pcbs s (running_pid s)) fd) = 0
    \<and> {j. 2 \<le> j \<and> j < fd} \<subseteq> open_fds (pcbs s (running_pid s))
    \<and> s' = upd_pcb (running_pid s) (open_in fd (opened_fd ops inode (filename d))) s
    \<and> fd_table_ok (pcbs s' (running_pid s))"
proof -
  let ?p = "pcbs s (running_pid s)"
  note low = free_fd_lowest [OF assms(5,6)]
  have "open_file name s = Some (int (free_fd ?p),
      upd_pcb (running_pid s) (open_in (free_fd ?p) (opened_fd ops inode (filename d))) s)"
    using lookup_eq [OF assms(1,2)] assms(3,4,6) by (intro open_file_eq) auto
  moreover have "{j. 2 \<le> j \<and> j < free_fd ?p} \<subseteq> open_fds ?p"
    using low by (auto simp: open_fds_def)
  moreover have "fd_table_ok (open_in (free_fd ?p) (opened_fd ops inode (filename d)) ?p)"
    by (rule fd_table_ok_open_in [OF assms(5,6,4)])
  ultimately show ?thesis using low by (intro exI [of _ "free_fd ?p"] exI conjI) auto
qed

theorem open_lowest_descriptor_witness:
  "\<exists>fd s'. open_file (arr_of (bytes_of ''f'')) demo_running = Some (int fd, s') \<and> fd_table_ok (pcbs s' 1)"
proof -
  have "cstr (arr_of (bytes_of ''f'')) = Some (bytes_of ''f'')"
    by (rule cstr_bytes) (simp add: bytes_of_def)
  moreover have "open_ops (load_dentry demo_mem 0x500080) = Some (f_ops, 1)"
    by (simp add: open_ops_def demo_f)
  ultimately show ?thesis
    using open_lowest_descriptor [OF demo_running_simps(2) _ demo_lookup, of _ f_ops 1]
    by (fastforce simp: demo_running_simps)
qed

text \<open>
  open fails with -1 and changes nothing when all eight descriptors are in use, when no file has
  the name, and when the file is of none of the three types.
\<close>

theorem open_fails_unchanged:
  assumes "fs_ok s" "cstr name = Some n"
    and "num_open_descriptors (pcbs s (running_pid s)) = 8 \<or> lookup s n = None
      \<or> (\<exists>d. lookup s n = Some d \<and> filetype d \<notin> {0, 1, 2})"
  shows "open_file name s = Some (-1, s)"
proof (cases "num_open_descriptors (pcbs s (running_pid s)) \<ge> 8")
  case True
  then show ?thesis by (simp add: open_file_def)
next
  case False
  with assms(3) consider "lookup s n = None" | d where "lookup s n = Some d" "filetype d \<notin> {0, 1, 2}" by auto
  then show ?thesis
    using False lookup_eq [OF assms(1,2)] by cases (simp_all add: open_file_def Let_def open_ops_def)
qed

theorem open_fails_unchanged_witness:
  "open_file (arr_of (bytes_of ''nofile'')) demo_running = Some (-1, demo_running)"
proof -
  have "[0..num_direntries demo_fs - 1] = [0, 1, 2]" by (simp add: demo_fs_eq upto.simps)
  then have "lookup demo_running (bytes_of ''nofile'') = None"
    by (simp add: lookup_def demo_running_simps demo_names demo_direntry) (simp add: bytes_of_def)
  moreover have "cstr (arr_of (bytes_of ''nofile'')) = Some (bytes_of ''nofile'')"
    by (rule cstr_bytes) (simp add: bytes_of_def)
  ultimately show ?thesis
    using open_fails_unchanged [OF demo_running_simps(2)] by blast
qed

section \<open>Closing\<close>

text \<open>
  close closes exactly the open descriptors from 2 on that lie below the count of open
  descriptors: it clears the entry and lowers the count; on every other descriptor it returns -1 and
  changes nothing.  The table stays consistent.
\<close>

theorem close_descriptor:
  assumes "fd_table_ok (pcbs s (running_pid s))"
  shows "close_fd fd s =
      (if 2 \<le> fd \<and> fd < num_open_descriptors (pcbs s (running_pid s)) \<and> nat fd \<in> open_fds (pcbs s (running_pid s))
       then (0, upd_pcb (running_pid s) (close_in (nat fd)) s) else (-1, s))
    \<and> fd_table_ok (pcbs (snd (close_fd fd s)) (running_pid s))"
proof -
  let ?p = "pcbs s (running_pid s)"
  have le: "num_open_descriptors ?p \<le> 8" by (rule num_open_le [OF assms])
  show ?thesis
  proof (cases "2 \<le> fd \<and> fd < num_open_descriptors ?p")
    case True
    with le have "nat fd < NUM_FDS" by auto
    moreover from this assms have "flags (file_desc_arr ?p (nat fd)) \<in> {0, 1}" by (simp only: fd_table_ok_def)
    ultimately have "flags (file_desc_arr ?p (nat fd)) \<noteq> 0 \<longleftrightarrow> nat fd \<in> open_fds ?p"
      by (auto simp: open_fds_def)
    with True show ?thesis
      using close_fd_eq [of fd s] close_fd_refused [of fd s] fd_table_ok_close_fd [OF assms, of fd] by auto
  next
    case False
    then have "fd < 2 \<or> num_open_descriptors ?p \<le> fd" by auto
    with False show ?thesis
      using close_fd_refused [of fd s] fd_table_ok_close_fd [OF assms, of fd] by auto
  qed
qed

theorem close_descriptor_witness:
  "close_fd 5 demo_running = (-1, demo_running)"
  using close_descriptor [of demo_running 5] by (simp add: demo_running_simps)

text \<open>
  The count is not a bound on the descriptors: once a lower descriptor is free, the highest open
  one is refused by close (and it lies past the bound that read and write test too).
\<close>

theorem highest_descriptor_stuck:
  assumes "fd_table_ok (pcbs s (running_pid s))" "fd \<in> open_fds (pcbs s (running_pid s))"
    and "j < fd" "j \<notin> open_fds (pcbs s (running_pid s))"
    and "{i. fd < i} \<inter> open_fds (pcbs s (running_pid s)) = {}"
  shows "close_fd (int fd) s = (-1, s) \<and> num_open_descriptors (pcbs s (running_pid s)) \<le> int fd"
proof -
  let ?p = "pcbs s (running_pid s)"
  have fd: "fd < 8" using assms(2) by (simp add: open_fds_def)
  have "flags (file_desc_arr ?p i) = 0" if "i < 8" "i \<notin> open_fds ?p" for i
    using that assms(1) by (auto simp: open_fds_def fd_table_ok_def)
  then have "num_open_descriptors ?p \<le> int fd"
    using assms(3-5) fd by (intro gap_count [OF assms(1) fd assms(3)]) auto
  then show ?thesis using close_fd_refused [of "int fd" s] by simp
qed

text \<open>The process of the example with descriptors 2 and 3 opened and 2 closed again.\<close>

definition demo_gap :: kernel_state where
  "demo_gap = upd_pcb 1 (\<lambda>p. close_in 2 (open_in 3 (opened_fd f_ops 1 []) (open_in 2 (opened_fd f_ops 1 []) p))) demo_running"

lemma demo_gap_fds: "open_fds (pcbs demo_gap 1) = {0, 1, 3}" "running_pid demo_gap = 1"
  by (auto simp: open_fds_def demo_gap_def demo_running_def build_pcb_fds close_in_def open_in_def closed_fd_def
      opened_fd_def running_pid_def split: if_splits)

lemma demo_gap_ok: "fd_table_ok (pcbs demo_gap 1)"
proof -
  have "num_open_descriptors (pcbs demo_gap 1) = int (card (open_fds (pcbs demo_gap 1)))"
    unfolding demo_gap_fds by (simp add: demo_gap_def demo_running_def close_in_def open_in_def build_pcb_fields)
  then show ?thesis
    by (auto simp: fd_table_ok_def demo_gap_def demo_running_def build_pcb_fds close_in_def open_in_def closed_fd_def
      opened_fd_def)
qed

theorem highest_descriptor_stuck_witness:
  "close_fd 3 demo_gap = (-1, demo_gap) \<and> 3 \<in> open_fds (pcbs demo_gap 1)"
  using highest_descriptor_stuck [of demo_gap 3 2] by (simp add: demo_gap_fds demo_gap_ok)

section \<open>Reading\<close>

text \<open>The file a descriptor of process \<open>p\<close> reads.\<close>

definition fd_content :: "'a kernel_state_scheme \<Rightarrow> int \<Rightarrow> nat \<Rightarrow> byte list" where
  "fd_content s p fd = file_content (mem s) (fs s) (fd_inode (file_desc_arr (pcbs s p) fd))"

definition readable :: "'a kernel_state_scheme \<Rightarrow> int \<Rightarrow> nat \<Rightarrow> bool" where
  "readable s p fd \<longleftrightarrow> paging_ok s \<and> file_pcb s = Some p \<and> int fd < num_open_descriptors (pcbs s p) \<and>
     fd_inode (file_desc_arr (pcbs s p) fd) \<noteq> 0 \<and> 0 \<le> file_offset (file_desc_arr (pcbs s p) fd) \<and>
     inode_placed (mem s) (fs s) (fd_inode (file_desc_arr (pcbs s p) fd))"

definition seek :: "nat \<Rightarrow> int \<Rightarrow> pcb_t \<Rightarrow> pcb_t" where
  "seek fd off = upd_fd fd (\<lambda>f. f\<lparr>file_offset := off\<rparr>)"

lemma file_read_eq:
  assumes "readable s p fd" "0 \<le> n" "off = file_offset (file_desc_arr (pcbs s p) fd)"
    and "c = take (nat n) (drop (nat off) (fd_content s p fd))"
  shows "file_read (int fd) n s = Some (int (length c), c, upd_pcb p (seek fd (off + int (length c))) s)"
proof -
  let ?i = "fd_inode (file_desc_arr (pcbs s p) fd)"
  have r: "paging_ok s" "file_pcb s = Some p" "int fd < num_open_descriptors (pcbs s p)" "?i \<noteq> 0" "0 \<le> off"
    "inode_placed (mem s) (fs s) ?i" using assms by (simp_all add: readable_def)
  have a: "agree_kernel (mem s) (kmem s)" using kmem_kernel [OF r(1)] by (rule agree_kernel_sym)
  have "read_data (kmem s) (fs s) ?i off n = (int (length c), c)"
    using read_data_placed [OF file_agree(3) [OF a r(6)] r(5) assms(2)] file_agree(2) [OF a r(6)] assms(4)
    by (simp add: Let_def fd_content_def)
  with r show ?thesis
    unfolding file_read_def
    by (simp add: Let_def assms(3) [symmetric])
      (simp add: upd_pcb_def upd_fd_def seek_def assms(3))
qed

text \<open>A program that reads with a list of buffer sizes and puts the pieces together.\<close>

fun read_seq :: "int \<Rightarrow> nat list \<Rightarrow> 'a kernel_state_scheme \<Rightarrow> (byte list \<times> 'a kernel_state_scheme) option" where
  "read_seq fd [] s = Some ([], s)"
| "read_seq fd (n # ns) s = do {
     (ret, bs, s) \<leftarrow> file_read fd (int n) s;
     (rest, s) \<leftarrow> read_seq fd ns s;
     Some (bs @ rest, s)
   }"

lemma readable_seek:
  assumes "readable s p fd" "0 \<le> off"
  shows "readable (upd_pcb p (seek fd off) s) p fd" "fd_content (upd_pcb p (seek fd off) s) p fd = fd_content s p fd"
  using assms by (simp_all add: readable_def fd_content_def seek_def)

lemma seek_seek [simp]: "seek fd a (seek fd b x) = seek fd a x"
  by (simp add: seek_def upd_fd_def)

lemma seek_same: "file_offset (file_desc_arr p fd) = off \<Longrightarrow> seek fd off p = p"
  by (auto simp add: seek_def upd_fd_def)

lemma take_drop_append: "take a (drop i xs) @ take b (drop (i + length (take a (drop i xs))) xs) = take (a + b) (drop i xs)"
proof (cases "i + a \<le> length xs")
  case True
  then have "length (take a (drop i xs)) = a" by simp
  then show ?thesis by (simp add: take_add add.commute)
qed simp

lemma read_seq_eq:
  assumes "readable s p fd" "off = file_offset (file_desc_arr (pcbs s p) fd)"
  shows "read_seq (int fd) ns s =
    (let c = take (sum_list ns) (drop (nat off) (fd_content s p fd))
     in Some (c, upd_pcb p (seek fd (off + int (length c))) s))"
  using assms
proof (induction ns arbitrary: s off)
  case Nil
  then have "seek fd off (pcbs s p) = pcbs s p"
    by (simp add: seek_def upd_fd_def)
  then show ?case using Nil by (simp add: upd_pcb_def)
next
  case (Cons n ns)
  let ?xs = "fd_content s p fd"
  let ?c = "take n (drop (nat off) ?xs)"
  let ?s = "upd_pcb p (seek fd (off + int (length ?c))) s"
  have off: "0 \<le> off" using Cons.prems by (simp add: readable_def)
  have r: "readable ?s p fd" "fd_content ?s p fd = ?xs"
    using readable_seek [OF Cons.prems(1)] off by simp_all
  have "file_read (int fd) (int n) s = Some (int (length ?c), ?c, ?s)"
    by (rule file_read_eq [OF Cons.prems(1) _ Cons.prems(2)]) simp_all
  moreover have "read_seq (int fd) ns ?s =
      (let c = take (sum_list ns) (drop (nat (off + int (length ?c))) ?xs)
       in Some (c, upd_pcb p (seek fd (off + int (length ?c) + int (length c))) ?s))"
    using Cons.IH [OF r(1) refl] unfolding r(2) by (simp add: seek_def)
  moreover have "nat (off + int (length ?c)) = nat off + length ?c" using off by simp
  ultimately show ?case
    using take_drop_append [of n "nat off" ?xs "sum_list ns", symmetric]
    by (simp add: Let_def add.assoc del: length_take length_drop)
qed

text \<open>
  Reading a file piece by piece, with any buffer sizes, gives the bytes of the file in order from
  the descriptor's offset on: nothing is skipped or repeated, and the offset ends where the bytes end.
\<close>

theorem reads_concatenate:
  assumes "readable s p fd" "off = file_offset (file_desc_arr (pcbs s p) fd)"
  shows "read_seq (int fd) ns s =
    (let c = take (sum_list ns) (drop (nat off) (fd_content s p fd))
     in Some (c, upd_pcb p (seek fd (off + int (length c))) s))"
  by (rule read_seq_eq [OF assms])

text \<open>The example process with descriptor 2 on the file \<open>f\<close>.\<close>

definition demo_reading :: kernel_state where
  "demo_reading = upd_pcb 1 (open_in 2 (opened_fd f_ops 1 [])) demo_running"

lemma demo_data: "file_content demo_mem demo_fs 1 = bytes_of ''hello''"
proof -
  have "file_byte demo_mem demo_fs 1 k = demo_mem (0x504000 + k)" if "k < 5" for k
    using that by (simp add: file_byte_def demo_inodes)
      (simp add: data_byte_def demo_fs_eq addr32_eq nat_add_distrib)
  then have "file_content demo_mem demo_fs 1 = load_bytes demo_mem 0x504000 5"
    by (intro nth_equalityI) (simp_all add: file_content_def demo_inodes)
  also have "\<dots> = bytes_of ''hello''" by (simp add: demo_mem_def load_store_eq)
  finally show ?thesis .
qed

lemma demo_readable: "readable demo_reading 1 2" "fd_content demo_reading 1 2 = bytes_of ''hello''"
  "file_offset (file_desc_arr (pcbs demo_reading 1) 2) = 0"
  using demo_running_simps(2) demo_inode_placed(2) demo_data
  by (simp_all add: readable_def demo_reading_def demo_running_simps open_in_def opened_fd_def fs_ok_def
      fd_content_def)

theorem reads_concatenate_witness:
  "map_option fst (read_seq 2 [2, 1, 100] demo_reading) = Some (bytes_of ''hello'')"
  using reads_concatenate [OF demo_readable(1), of _ "[2, 1, 100]"]
  by (simp add: demo_readable Let_def bytes_of_def)

text \<open>
  A descriptor whose inode number is 0 cannot be read as a file: file_read takes the 0 for a
  directory or device and returns -1, also for a regular file that has inode 0.
\<close>

theorem inode_zero_unreadable:
  assumes "file_pcb s = Some p" "fd_inode (file_desc_arr (pcbs s p) fd) = 0"
  shows "file_read (int fd) n s = Some (-1, [], s)"
  using assms by (simp add: file_read_def Let_def)

theorem inode_zero_unreadable_witness:
  "file_read 1 100 demo_reading = Some (-1, [], demo_reading)"
  using inode_zero_unreadable [of demo_reading 1 1]
  by (simp add: demo_reading_def demo_running_simps open_in_def)
    (simp add: demo_running_def build_pcb_fds)

section \<open>Listing a directory\<close>

text \<open>What one dir_read stores: the name, padded with NULs to 32 bytes.\<close>

definition padded :: "byte list \<Rightarrow> byte list" where
  "padded n = take 32 n @ replicate (32 - length n) NUL"

fun list_dir :: "int \<Rightarrow> nat \<Rightarrow> 'a kernel_state_scheme \<Rightarrow> (byte list list \<times> int \<times> 'a kernel_state_scheme) option" where
  "list_dir fd 0 s = Some ([], -1, s)"
| "list_dir fd (Suc k) s = do {
     (ret, bs, s) \<leftarrow> dir_read fd 32 s;
     if ret \<le> 0 then Some ([], ret, s)
     else do { (rest, r, s) \<leftarrow> list_dir fd k s; Some (bs # rest, r, s) }
   }"

definition listable :: "'a kernel_state_scheme \<Rightarrow> int \<Rightarrow> nat \<Rightarrow> bool" where
  "listable s p fd \<longleftrightarrow> fs_ok s \<and> file_pcb s = Some p \<and> int fd < num_open_descriptors (pcbs s p) \<and>
     fd_inode (file_desc_arr (pcbs s p) fd) = 0"

lemma strncpy_name:
  assumes "length f = 32"
  shows "map (strncpy (\<lambda>_. 0) (arr_of f) 32) [0..<32] = padded (takeWhile (\<lambda>b. b \<noteq> NUL) f)"
proof (rule nth_equalityI)
  let ?t = "takeWhile (\<lambda>b. b \<noteq> NUL) f"
  have t: "length ?t \<le> 32" using assms length_takeWhile_le [of _ f] by simp
  then show "length (map (strncpy (\<lambda>_. 0) (arr_of f) 32) [0..<32]) = length (padded ?t)"
    by (simp add: padded_def)
  fix j assume "j < length (map (strncpy (\<lambda>_. 0) (arr_of f) 32) [0..<32])"
  then have j: "j < 32" by simp
  have "(\<exists>k \<le> j. arr_of f k = NUL) \<longleftrightarrow> length ?t \<le> j"
  proof
    assume "\<exists>k \<le> j. arr_of f k = NUL"
    then obtain k where k: "k \<le> j" "f ! k = NUL" using j assms by auto
    show "length ?t \<le> j"
    proof (rule ccontr)
      assume "\<not> length ?t \<le> j"
      with k have "k < length ?t" by simp
      then have "?t ! k \<in> set ?t" by (rule nth_mem)
      moreover have "?t ! k = f ! k" using \<open>k < length ?t\<close> by (rule takeWhile_nth)
      ultimately have "f ! k \<noteq> NUL" using set_takeWhileD by metis
      with k(2) show False by simp
    qed
  next
    assume "length ?t \<le> j"
    with j assms have "f ! length ?t = NUL" using nth_length_takeWhile [of "\<lambda>b. b \<noteq> NUL" f] by simp
    with \<open>length ?t \<le> j\<close> j assms show "\<exists>k \<le> j. arr_of f k = NUL"
      by (intro exI [of _ "length ?t"]) simp
  qed
  with j t assms show "map (strncpy (\<lambda>_. 0) (arr_of f) 32) [0..<32] ! j = padded ?t ! j"
    by (simp add: strncpy_eq padded_def nth_append takeWhile_nth)
qed

lemma length_filename [simp]: "length (filename (load_dentry m a)) = 32"
  by (simp add: load_dentry_def)

lemma dir_read_entry:
  assumes "listable s p fd" "i = file_offset (file_desc_arr (pcbs s p) fd)" "0 \<le> i" "i < num_direntries (fs s)"
  shows "dir_read (int fd) n s = Some (int (length (dentry_name (mem s) (fs s) i)),
    padded (dentry_name (mem s) (fs s) i), upd_pcb p (seek fd (i + 1)) s)"
proof -
  have a: "agree_kernel (mem s) (kmem s)" "dir_placed (fs s)" "names_end (mem s) (fs s)"
    using assms(1) kmem_kernel agree_kernel_sym by (auto simp: listable_def fs_ok_def)
  have "read_dentry_by_index (kmem s) (fs s) i =
      Some (int (length (dentry_name (mem s) (fs s) i)), Some (load_dentry (mem s) (direntry (fs s) i)))"
    using read_dentry_by_index_eq [OF names_end_agree [OF a] assms(3,4)] direntry_agree [OF a(1,2) assms(3,4)]
    by simp
  then show ?thesis
    using assms strncpy_name [of "filename (load_dentry (mem s) (direntry (fs s) i))"]
    unfolding dir_read_def
    by (simp add: listable_def Let_def dentry_name_def)
      (simp add: upd_pcb_def upd_fd_def seek_def)
qed

lemma dir_read_end:
  assumes "listable s p fd" "num_direntries (fs s) \<le> file_offset (file_desc_arr (pcbs s p) fd)"
  shows "dir_read (int fd) n s = Some (0, [], s)"
  using assms by (simp add: dir_read_def listable_def Let_def)

lemma fs_ok_upd_pcb [simp]: "fs_ok (upd_pcb p f s) = fs_ok s"
  by (simp add: fs_ok_def)

lemma list_dir_eq:
  assumes "listable s p fd" "i = file_offset (file_desc_arr (pcbs s p) fd)" "0 \<le> i" "i \<le> num_direntries (fs s)"
    and "\<And>j. 0 \<le> j \<Longrightarrow> j < num_direntries (fs s) \<Longrightarrow> dentry_name (mem s) (fs s) j \<noteq> []"
    and "num_direntries (fs s) - i < int k"
  shows "list_dir (int fd) k s =
    Some (map (\<lambda>j. padded (dentry_name (mem s) (fs s) j)) [i..num_direntries (fs s) - 1], 0,
      upd_pcb p (seek fd (num_direntries (fs s))) s)"
  using assms
proof (induction k arbitrary: i s)
  case 0
  then show ?case by simp
next
  case (Suc k)
  let ?n = "num_direntries (fs s)"
  show ?case
  proof (cases "i < ?n")
    case True
    let ?s = "upd_pcb p (seek fd (i + 1)) s"
    have "list_dir (int fd) k ?s = Some (map (\<lambda>j. padded (dentry_name (mem ?s) (fs ?s) j)) [i + 1..num_direntries (fs ?s) - 1], 0,
        upd_pcb p (seek fd (num_direntries (fs ?s))) ?s)"
      by (rule Suc.IH) (use Suc.prems True in \<open>auto simp: listable_def seek_def\<close>)
    moreover have "[i..?n - 1] = i # [i + 1..?n - 1]" using True by (subst upto_rec1) auto
    ultimately show ?thesis
      using dir_read_entry [OF Suc.prems(1-3) True] Suc.prems(5) [OF Suc.prems(3) True] by simp
  next
    case False
    with Suc.prems(4) have i: "i = ?n" by simp
    then have "seek fd ?n (pcbs s p) = pcbs s p"
      using Suc.prems(2) by (simp add: seek_same)
    then have "upd_pcb p (seek fd ?n) s = s" by (simp add: upd_pcb_def)
    with dir_read_end [OF Suc.prems(1)] i Suc.prems(2) show ?thesis by simp
  qed
qed

text \<open>
  Reading a directory descriptor until it returns 0 lists the names of all entries in order, each
  padded with NULs to 32 bytes, and then stays at the end.
\<close>

theorem directory_listing:
  assumes "listable s p fd" "file_offset (file_desc_arr (pcbs s p) fd) = 0" "0 \<le> num_direntries (fs s)"
    and "\<And>j. 0 \<le> j \<Longrightarrow> j < num_direntries (fs s) \<Longrightarrow> dentry_name (mem s) (fs s) j \<noteq> []"
    and "num_direntries (fs s) < int k"
  shows "list_dir (int fd) k s =
    Some (map (\<lambda>j. padded (dentry_name (mem s) (fs s) j)) [0..num_direntries (fs s) - 1], 0,
      upd_pcb p (seek fd (num_direntries (fs s))) s)"
  using assms by (intro list_dir_eq) auto

definition demo_listing :: kernel_state where
  "demo_listing = upd_pcb 1 (open_in 2 (opened_fd d_ops 0 [])) demo_running"

theorem directory_listing_witness:
  "map_option fst (list_dir 2 10 demo_listing) =
     Some [padded (bytes_of ''shell''), padded (bytes_of ''f''), padded (bytes_of ''.'')]"
proof -
  have l: "listable demo_listing 1 2" "file_offset (file_desc_arr (pcbs demo_listing 1) 2) = 0"
    "fs demo_listing = demo_fs" "mem demo_listing = demo_mem"
    by (simp_all add: demo_listing_def listable_def demo_running_simps open_in_def opened_fd_def)
  have n: "num_direntries demo_fs = 3" "[0..2] = [0, 1, 2 :: int]" by (simp_all add: demo_fs_eq upto.simps)
  have "dentry_name demo_mem demo_fs j \<noteq> []" if "0 \<le> j" "j < 3" for j :: int
  proof -
    from that have "j = 0 \<or> j = 1 \<or> j = 2" by auto
    then show ?thesis by (auto simp: demo_names) (simp_all add: bytes_of_def)
  qed
  with directory_listing [OF l(1,2), of 10] show ?thesis
    by (simp add: l n demo_names)
qed

end
