(* ===== verification/Execute.thy ===== *)
theory Execute
  imports Files
begin

text \<open>
  Properties of execute and halt: the command line, loading a program, the error exits, the address
  spaces and kernel stacks of processes, and the return to the parent.
\<close>

section \<open>The command line\<close>

lemma skip_spaces_eq:
  assumes "i \<le> n" "\<And>j. i \<le> j \<Longrightarrow> j < n \<Longrightarrow> c j = 0x20 \<or> c j = 0x0A" "c n \<noteq> 0x20" "c n \<noteq> 0x0A"
  shows "skip_spaces c i = Some n"
  using assms
proof (induction "n - i" arbitrary: i)
  case 0
  then show ?case by (subst skip_spaces.simps) simp
next
  case (Suc d)
  then have "skip_spaces c (Suc i) = Some n" by (intro Suc.hyps(1)) auto
  moreover have "c i = 0x20 \<or> c i = 0x0A" using Suc by (intro Suc.prems(2)) auto
  ultimately show ?case by (subst skip_spaces.simps) simp
qed

lemma getCommand_from_word:
  assumes "i \<le> n" "n < 32" "\<And>j. i \<le> j \<Longrightarrow> j < n \<Longrightarrow> c j \<noteq> 0x20 \<and> c j \<noteq> 0x0A" "c n = 0x20 \<or> c n = 0x0A"
    and "skip_spaces c n = Some k"
  shows "getCommand_from c cmd i = Some (k, \<lambda>j. if i \<le> j \<and> j < n then c j else if j = n then NUL else cmd j)"
  using assms(1-3)
proof (induction "n - i" arbitrary: i cmd)
  case 0
  then have "i = n" by simp
  with assms(2,4,5) show ?case by (subst getCommand_from.simps) (auto simp: fun_eq_iff)
next
  case (Suc d)
  have "getCommand_from c (cmd(i := c i)) (Suc i) =
      Some (k, \<lambda>j. if Suc i \<le> j \<and> j < n then c j else if j = n then NUL else (cmd(i := c i)) j)"
    using Suc by (intro Suc.hyps(1)) auto
  moreover have "c i \<noteq> 0x20 \<and> c i \<noteq> 0x0A" using Suc by (intro Suc.prems(3)) auto
  moreover have "i < 32" "i < n" using Suc assms(2) by auto
  ultimately show ?case by (subst getCommand_from.simps) (auto simp: fun_eq_iff)
qed

lemma getCommand_from_full:
  assumes "i \<le> 32" "\<And>j. i \<le> j \<Longrightarrow> j < 32 \<Longrightarrow> c j \<noteq> 0x20 \<and> c j \<noteq> 0x0A"
  shows "getCommand_from c cmd i = Some (32, \<lambda>j. if i \<le> j \<and> j < 32 then c j else if j = 32 then NUL else cmd j)"
  using assms
proof (induction "32 - i" arbitrary: i cmd)
  case 0
  then have "i = 32" by simp
  then show ?case by (subst getCommand_from.simps) (auto simp: fun_eq_iff)
next
  case (Suc d)
  have "getCommand_from c (cmd(i := c i)) (Suc i) =
      Some (32, \<lambda>j. if Suc i \<le> j \<and> j < 32 then c j else if j = 32 then NUL else (cmd(i := c i)) j)"
    using Suc by (intro Suc.hyps(1)) auto
  moreover have "i < 32" using Suc by auto
  moreover from this have "c i \<noteq> 0x20 \<and> c i \<noteq> 0x0A" by (intro Suc.prems(2)) auto
  ultimately show ?case by (subst getCommand_from.simps) (auto simp: fun_eq_iff)
qed

lemma getArguments_from_eq:
  assumes "\<And>j. j < n \<Longrightarrow> c (i + j) \<noteq> NUL" "c (i + n) = NUL"
  shows "getArguments_from c a i k = Some (\<lambda>j. if k \<le> j \<and> j < k + n then c (i + (j - k)) else a j)"
  using assms
proof (induction n arbitrary: i k a)
  case 0
  then show ?case by (subst getArguments_from.simps) (auto simp: fun_eq_iff)
next
  case (Suc n)
  have "getArguments_from c (a(k := c i)) (Suc i) (Suc k) =
      Some (\<lambda>j. if Suc k \<le> j \<and> j < Suc k + n then c (Suc i + (j - Suc k)) else (a(k := c i)) j)"
  proof (rule Suc.IH)
    show "c (Suc i + j) \<noteq> NUL" if "j < n" for j using Suc.prems(1) [of "Suc j"] that by simp
    show "c (Suc i + n) = NUL" using Suc.prems(2) by simp
  qed
  moreover have "c i \<noteq> NUL" using Suc.prems(1) [of 0] by simp
  moreover have "(if Suc k \<le> j \<and> j < Suc k + n then c (Suc i + (j - Suc k)) else (a(k := c i)) j) =
      (if k \<le> j \<and> j < k + Suc n then c (i + (j - k)) else a j)" for j
  proof -
    have "i + j - k = Suc (i + j - Suc k)" if "Suc k \<le> j" using that by simp
    then show ?thesis by (cases "j = k") auto
  qed
  ultimately show ?case by (subst getArguments_from.simps) simp
qed

text \<open>A byte that ends the command word.\<close>

definition is_blank :: "byte \<Rightarrow> bool" where
  "is_blank b \<longleftrightarrow> b = 0x20 \<or> b = 0x0A"

text \<open>
  A command line: a word, then blanks, then the arguments up to the NUL; or a word alone in a buffer
  without blanks in its first 32 bytes.
\<close>

definition command_line :: "carray \<Rightarrow> byte list \<Rightarrow> byte list \<Rightarrow> bool" where
  "command_line c w a \<longleftrightarrow>
     (\<forall>b \<in> set w. \<not> is_blank b \<and> b \<noteq> NUL) \<and> (\<forall>b \<in> set a. b \<noteq> NUL) \<and>
     (\<forall>i < length w. c i = w ! i) \<and>
     (if \<exists>k < 32. is_blank (c k)
      then length w < 32 \<and> (\<exists>n. length w < n \<and> (\<forall>j. length w \<le> j \<and> j < n \<longrightarrow> is_blank (c j)) \<and>
        \<not> is_blank (c n) \<and> (\<forall>i < length a. c (n + i) = a ! i) \<and> c (n + length a) = NUL)
      else length w \<le> 32 \<and> (length w < 32 \<longrightarrow> c (length w) = NUL) \<and> 
        (\<forall>i < length a. c (32 + i) = a ! i) \<and> c (32 + length a) = NUL)"

lemma command_line_parse:
  assumes "command_line c w a"
  obtains k cmd where "getCommand c cmd0 = Some (k, cmd)" "cstr cmd = Some w"
    "getArguments c arg0 k = Some (\<lambda>i. if i < length a then a ! i else arg0 i)"
proof (cases "\<exists>k < 32. is_blank (c k)")
  case True
  with assms obtain n where w: "length w < 32" "\<forall>b \<in> set w. \<not> is_blank b \<and> b \<noteq> NUL" "\<forall>i < length w. c i = w ! i"
    and n: "length w < n" "\<forall>j. length w \<le> j \<and> j < n \<longrightarrow> is_blank (c j)" "\<not> is_blank (c n)"
    and a: "\<forall>i < length a. c (n + i) = a ! i" "c (n + length a) = NUL" "\<forall>b \<in> set a. b \<noteq> NUL"
    by (auto simp: command_line_def)
  have skip: "skip_spaces c (length w) = Some n"
    using n by (intro skip_spaces_eq) (auto simp: is_blank_def)
  let ?cmd = "\<lambda>j. if 0 \<le> j \<and> j < length w then c j else if j = length w then NUL else cmd0 j"
  have "getCommand c cmd0 = Some (n, ?cmd)"
    unfolding getCommand_def
  proof (rule getCommand_from_word [OF _ w(1) _ _ skip])
    show "c j \<noteq> 0x20 \<and> c j \<noteq> 0x0A" if "j < length w" for j
      using that w(2,3) by (auto simp: is_blank_def dest: nth_mem)
    show "c (length w) = 0x20 \<or> c (length w) = 0x0A" using n(1,2) by (auto simp: is_blank_def)
  qed simp
  moreover have "cstr ?cmd = Some w"
    using w(2,3) by (auto simp: cstr_eq_Some strlen_eq_Some dest: nth_mem)
  moreover have "getArguments c arg0 n = Some (\<lambda>i. if i < length a then a ! i else arg0 i)"
    using a getArguments_from_eq [of "length a" c n arg0 0]
    by (auto simp: getArguments_def fun_eq_iff dest: nth_mem)
  ultimately show ?thesis by (rule that)
next
  case False
  with assms have w: "length w \<le> 32" "length w < 32 \<longrightarrow> c (length w) = NUL"
    "\<forall>b \<in> set w. \<not> is_blank b \<and> b \<noteq> NUL" "\<forall>i < length w. c i = w ! i"
    and a: "\<forall>i < length a. c (32 + i) = a ! i" "c (32 + length a) = NUL" "\<forall>b \<in> set a. b \<noteq> NUL"
    by (auto simp: command_line_def)
  let ?cmd = "\<lambda>j. if 0 \<le> j \<and> j < 32 then c j else if j = 32 then NUL else cmd0 j"
  have "getCommand c cmd0 = Some (32, ?cmd)"
    unfolding getCommand_def using False by (intro getCommand_from_full) (auto simp: is_blank_def)
  moreover have "cstr ?cmd = Some w"
    using w by (auto simp: cstr_eq_Some strlen_eq_Some dest: nth_mem)
  moreover have "getArguments c arg0 32 = Some (\<lambda>i. if i < length a then a ! i else arg0 i)"
    using a getArguments_from_eq [of "length a" c 32 arg0 0]
    by (auto simp: getArguments_def fun_eq_iff dest: nth_mem)
  ultimately show ?thesis by (rule that)
qed

section \<open>Loading\<close>

lemma set_pde_simps [simp]:
  "terminals (set_pde_frame4mb i v s) = terminals s" "sched_term (set_pde_frame4mb i v s) = sched_term s"
  "visible_term (set_pde_frame4mb i v s) = visible_term s" "pcbs (set_pde_frame4mb i v s) = pcbs s"
  "pid_arr (set_pde_frame4mb i v s) = pid_arr s" "fs (set_pde_frame4mb i v s) = fs s"
  "mem (set_pde_frame4mb i v s) = mem s" "esp0 (set_pde_frame4mb i v s) = esp0 s"
  "ss0 (set_pde_frame4mb i v s) = ss0 s" "reg_esp (set_pde_frame4mb i v s) = reg_esp s"
  "reg_ebp (set_pde_frame4mb i v s) = reg_ebp s" "page_faults (set_pde_frame4mb i v s) = page_faults s"
  "file_pcb (set_pde_frame4mb i v s) = file_pcb s" "iflag (set_pde_frame4mb i v s) = iflag s"
  by (simp_all add: set_pde_frame4mb_def set_pde_def)

lemma set_pde_tables [simp]:
  "page_table (set_pde_frame4mb i v s) = page_table s"
  "page_table_vidmap (set_pde_frame4mb i v s) = page_table_vidmap s"
  by (simp_all add: set_pde_frame4mb_def set_pde_def)

lemma flush_tlb_simps [simp]:
  "terminals (flush_tlb s) = terminals s" "sched_term (flush_tlb s) = sched_term s"
  "visible_term (flush_tlb s) = visible_term s" "pcbs (flush_tlb s) = pcbs s"
  "pid_arr (flush_tlb s) = pid_arr s" "fs (flush_tlb s) = fs s"
  "mem (flush_tlb s) = mem s" "esp0 (flush_tlb s) = esp0 s"
  "ss0 (flush_tlb s) = ss0 s" "reg_esp (flush_tlb s) = reg_esp s"
  "reg_ebp (flush_tlb s) = reg_ebp s" "page_faults (flush_tlb s) = page_faults s"
  "file_pcb (flush_tlb s) = file_pcb s" "iflag (flush_tlb s) = iflag s" "paging_of (flush_tlb s) = paging_of s"
  by (simp_all add: flush_tlb_def paging_of_def)

lemma cli_sti_simps [simp]:
  "terminals (cli s) = terminals s" "sched_term (cli s) = sched_term s" "pcbs (cli s) = pcbs s"
  "pid_arr (cli s) = pid_arr s" "fs (cli s) = fs s" "mem (cli s) = mem s" "esp0 (cli s) = esp0 s"
  "ss0 (cli s) = ss0 s" "reg_esp (cli s) = reg_esp s" "reg_ebp (cli s) = reg_ebp s"
  "page_faults (cli s) = page_faults s" "file_pcb (cli s) = file_pcb s" "paging_of (cli s) = paging_of s"
  "visible_term (cli s) = visible_term s" "stack_junk (cli s) = stack_junk s"
  "terminals (sti s) = terminals s" "sched_term (sti s) = sched_term s" "pcbs (sti s) = pcbs s"
  "pid_arr (sti s) = pid_arr s" "fs (sti s) = fs s" "mem (sti s) = mem s" "esp0 (sti s) = esp0 s"
  "ss0 (sti s) = ss0 s" "reg_esp (sti s) = reg_esp s" "reg_ebp (sti s) = reg_ebp s"
  "page_faults (sti s) = page_faults s" "file_pcb (sti s) = file_pcb s" "paging_of (sti s) = paging_of s"
  "visible_term (sti s) = visible_term s" "stack_junk (sti s) = stack_junk s"
  by (simp_all add: cli_def sti_def paging_of_def)

lemmas flush_tlb_paging [simp] = paging_cong [OF flush_tlb_simps(15)]
lemmas cli_paging [simp] = paging_cong [OF cli_sti_simps(13)]
lemmas sti_paging [simp] = paging_cong [OF cli_sti_simps(28)]

lemma paging_of_kernel_updates [simp]:
  "paging_of (s\<lparr>pid_arr := a\<rparr>) = paging_of s" "paging_of (s\<lparr>esp0 := x\<rparr>) = paging_of s"
  "paging_of (s\<lparr>ss0 := x\<rparr>) = paging_of s" "paging_of (s\<lparr>file_pcb := f\<rparr>) = paging_of s"
  by (simp_all add: paging_of_def)

lemmas pid_arr_paging [simp] = paging_cong [OF paging_of_kernel_updates(1)]
lemmas esp0_paging [simp] = paging_cong [OF paging_of_kernel_updates(2)]
lemmas ss0_paging [simp] = paging_cong [OF paging_of_kernel_updates(3)]

lemma store_bytes_Cons: "store_bytes (Suc a) bs (m(a := b)) = store_bytes a (b # bs) m"
  by (auto simp: store_bytes_def fun_eq_iff nth_Cons')

text \<open>Bytes stored in the user window go to the frame it is mapped to.\<close>

lemma vstore_user:
  assumes "paging_ok s" "k + length bs \<le> 0x400000"
  shows "vstore (0x8000000 + k) bs s = s\<lparr>mem := store_bytes (user_frame s * 0x400000 + k) bs (mem s)\<rparr>"
  using assms
proof (induction bs arbitrary: k s)
  case Nil
  then show ?case by simp
next
  case (Cons b bs)
  let ?s = "s\<lparr>mem := (mem s)(user_frame s * 0x400000 + k := b)\<rparr>"
  have "vwrite (0x8000000 + k) b s = ?s"
    using Cons.prems by (simp add: vwrite_def mmu_user)
  moreover have "vstore (0x8000000 + Suc k) bs ?s =
      ?s\<lparr>mem := store_bytes (user_frame ?s * 0x400000 + Suc k) bs (mem ?s)\<rparr>"
    by (rule Cons.IH) (use Cons.prems in simp_all)
  ultimately show ?case by (simp add: store_bytes_Cons)
qed

section \<open>Frames and kernel stacks\<close>

lemma program_frame_eq:
  assumes "1 \<le> p" "p \<le> 6"
  shows "program_frame p = word_of_nat (nat p + 1)"
proof -
  from assms have "p = 1 \<or> p = 2 \<or> p = 3 \<or> p = 4 \<or> p = 5 \<or> p = 6" by auto
  then show ?thesis by (auto simp: program_frame_def)
qed

lemma user_frame_program:
  assumes "1 \<le> p" "p \<le> 6"
  shows "user_frame (set_pde_frame4mb 32 (program_frame p) s) = nat p + 1"
  unfolding program_frame_eq [OF assms] using assms by (intro user_frame_set) auto

lemma other_frames_program:
  "video_frame (set_pde_frame4mb 32 v s) = video_frame s"
  "vidmap_frame (set_pde_frame4mb 32 v s) = vidmap_frame s"
  by (simp_all add: video_frame_def vidmap_frame_def fun_eq_iff)

lemma agree_kernel_refl: "agree_kernel m m"
  by (simp add: agree_kernel_def)

lemma agree_user_store:
  "8388608 \<le> a \<Longrightarrow> agree_kernel m (store_bytes a bs m)"
  by (simp add: agree_kernel_def)

section \<open>A program is started\<close>

text \<open>
  What starting the program with contents \<open>prog\<close> as process \<open>p\<close> does to the state: the pid is taken,
  the user window is process \<open>p\<close>'s frame, the program is in it from 0x8048000 on and no other byte of
  memory changes, the control block is filled in, and interrupts on the way back into the kernel use
  the stack of \<open>p\<close>.
\<close>

definition process_started :: "int \<Rightarrow> carray \<Rightarrow> byte list \<Rightarrow> 'a kernel_state_scheme \<Rightarrow> 'a kernel_state_scheme \<Rightarrow> bool" where
  "process_started p arg prog s s' \<longleftrightarrow>
     paging_ok s' \<and> user_frame s' = nat p + 1 \<and> video_frame s' = video_frame s \<and> fs s' = fs s \<and>
     mem s' = store_bytes ((nat p + 1) * 0x400000 + 0x48000) prog (mem s) \<and> page_faults s' = page_faults s \<and>
     pid_arr s' = (pid_arr s)(p - 1 := 1) \<and> sched_term s' = sched_term s \<and> visible_term s' = visible_term s \<and>
     terminals s' = (terminals s)(sched_term s := (terminals s (sched_term s))\<lparr>active_pid := p\<rparr>) \<and>
     pid (pcbs s' p) = p \<and> fd_table_ok (pcbs s' p) \<and> num_open_descriptors (pcbs s' p) = 2 \<and>
     parent_pid (pcbs s' p) = (if p = base_pid (terminals s (sched_term s)) then p else running_pid s) \<and>
     (\<forall>i < 32. args (pcbs s' p) i = arg i) \<and>
     ESP_prev (pcbs s' p) = reg_esp s \<and> EBP_prev (pcbs s' p) = reg_ebp s \<and>
     prev_tss_ESP0 (pcbs s' p) = esp0 s \<and> prev_tss_SS (pcbs s' p) = ss0 s \<and>
     tss_esp0 (pcbs s' p) = word_of_int (get_active_kernel_stack_addr p) \<and>
     esp0 s' = word_of_int (get_active_kernel_stack_addr p) \<and> ss0 s' = KERNEL_DS \<and>
     (\<forall>q. q \<noteq> p \<longrightarrow> pcbs s' q = pcbs s q) \<and> iflag s'"

lemma fd_table_ok_regs [simp]:
  "fd_table_ok (p\<lparr>ESP_prev := a\<rparr>) = fd_table_ok p" "fd_table_ok (p\<lparr>EBP_prev := a\<rparr>) = fd_table_ok p"
  "fd_table_ok (p\<lparr>tss_esp0 := a\<rparr>) = fd_table_ok p" "fd_table_ok (p\<lparr>pcb_esp := a\<rparr>) = fd_table_ok p"
  "fd_table_ok (p\<lparr>pcb_ebp := a\<rparr>) = fd_table_ok p"
  by (simp_all add: fd_table_ok_def open_fds_def)

lemma free_pid_bound: "free_pid s = Some i \<Longrightarrow> i < 6 \<and> pid_arr s (int i) = 0"
  unfolding free_pid_def by (auto simp del: upt_conv_Cons upt_rec_numeral simp: find_Some_iff)

lemma start_program_ok:
  assumes "paging_ok s" "inode_placed (mem s) (fs s) (inode_num file)" "free_pid s = Some i"
    and prog: "prog = file_content (mem s) (fs s) (inode_num file)" "0x48000 + length prog \<le> 0x400000"
  shows "\<exists>s'. start_program file eip arg s = (ToUser eip 0x83FFFFC, s') \<and> process_started (int i + 1) arg prog s s'"
proof -
  define p where "p = int i + 1"
  have i: "i < 6" using free_pid_bound [OF assms(3)] by simp
  then have p: "1 \<le> p" "p \<le> 6" "nat p = i + 1" "p - 1 = int i" by (auto simp: p_def)
  define s1 where "s1 = flush_tlb (set_pde_frame4mb 32 (program_frame p) (s\<lparr>pid_arr := (pid_arr s)(int i := 1)\<rparr>))"
  have s1: "paging_ok s1" "user_frame s1 = nat p + 1" "video_frame s1 = video_frame s" "mem s1 = mem s" "fs s1 = fs s"
    using assms(1) user_frame_program [OF p(1,2)]
    by (simp_all add: s1_def paging_ok_user_frame other_frames_program)
  define s2 where "s2 = s1\<lparr>mem := store_bytes ((nat p + 1) * 0x400000 + 0x48000) prog (mem s)\<rparr>"
  have a: "agree_kernel (mem s) (kmem s1)"
    using agree_kernel_sym [OF kmem_kernel [OF s1(1)]] by (simp add: s1)
  have "read_data (kmem s1) (fs s1) (inode_num file) 0 10000000 = (int (length prog), prog)"
    using read_data_placed [OF file_agree(3) [OF a assms(2)], of 0 10000000] file_agree(2) [OF a assms(2)] prog
    by (simp add: s1 Let_def)
  moreover have "vstore 0x8048000 prog s1 = s2"
    using vstore_user [OF s1(1), of "0x48000" prog] prog(2) by (simp add: s1 s2_def)
  moreover have "start_program file eip arg s = (let (r, bs) = read_data (kmem s1) (fs s1) (inode_num file) 0 10000000;
           s = vstore 0x8048000 bs s1
        in if r = -1 then (Ret (-1), sti s)
        else
          let s = build_pcb arg p s;
              s = upd_pcb p (\<lambda>p. p\<lparr>ESP_prev := reg_esp s, EBP_prev := reg_ebp s\<rparr>) s;
              top = word_of_int (get_active_kernel_stack_addr (running_pid s));
              s = s\<lparr>ss0 := KERNEL_DS, esp0 := top\<rparr>;
              s = upd_pcb p (\<lambda>p. p\<lparr>tss_esp0 := top\<rparr>) s;
              s = sti s
          in (ToUser eip (0x8000000 + 0x400000 - 4), s))"
    unfolding p_def start_program_def assms(3) option.case by (simp add: Let_def s1_def p_def cong: if_cong)
  ultimately obtain s' where s': "start_program file eip arg s = (ToUser eip 0x83FFFFC, s')"
    and s'_eq: "s' = (let s = build_pcb arg p s2;
              s = upd_pcb p (\<lambda>p. p\<lparr>ESP_prev := reg_esp s, EBP_prev := reg_ebp s\<rparr>) s;
              top = word_of_int (get_active_kernel_stack_addr (running_pid s));
              s = s\<lparr>ss0 := KERNEL_DS, esp0 := top\<rparr>;
              s = upd_pcb p (\<lambda>p. p\<lparr>tss_esp0 := top\<rparr>) s
          in sti s)"
    by (simp add: Let_def)
  have run: "running_pid (build_pcb arg p s2) = p" by (simp add: running_pid_def)
  have s2: "paging_ok s2" "user_frame s2 = nat p + 1" "video_frame s2 = video_frame s" "fs s2 = fs s"
    "mem s2 = store_bytes ((nat p + 1) * 0x400000 + 0x48000) prog (mem s)"
    "terminals s2 = terminals s" "sched_term s2 = sched_term s" "visible_term s2 = visible_term s"
    "pid_arr s2 = (pid_arr s)(p - 1 := 1)" "page_faults s2 = page_faults s" "pcbs s2 = pcbs s"
    "esp0 s2 = esp0 s" "ss0 s2 = ss0 s" "reg_esp s2 = reg_esp s" "reg_ebp s2 = reg_ebp s"
    using s1 p by (simp_all add: s2_def) (simp_all add: s1_def)
  have "fd_table_ok (pcbs s' p)"
    using fd_table_ok_build_pcb [of arg p s2] by (simp add: s'_eq Let_def)
  then have "process_started p arg prog s s'"
    unfolding process_started_def s'_eq
    by (simp add: Let_def run s2 build_pcb_fields running_pid_def)
  with s' show ?thesis by (auto simp: p_def)
qed

section \<open>execute\<close>

lemma vread_cong: "paging_of s = paging_of t \<Longrightarrow> mem s = mem t \<Longrightarrow> vread s = vread t"
  by (rule ext) (simp only: vread_def paging_cong(2) [of s t])

lemma cli_sti_console [simp]:
  "mem (cli s) = mem s" "mem (sti s) = mem s" "paging_of (cli s) = paging_of s" "paging_of (sti s) = paging_of s"
  by (simp_all add: cli_def sti_def paging_of_def)

lemma kmem_cli [simp]: "kmem (cli s) = kmem s"
  unfolding kmem_def by (rule vread_cong) simp_all

lemma running_pid_cli [simp]: "running_pid (cli s) = running_pid s" "running_pid (sti s) = running_pid s"
  by (simp_all add: running_pid_def cli_def sti_def)

lemma fs_ok_cli [simp]: "fs_ok (cli s) = fs_ok s"
  by (simp add: fs_ok_def)

lemma lookup_cli [simp]: "lookup (cli s) n = lookup s n"
  by (simp add: lookup_def)

lemma free_pid_cli [simp]: "free_pid (cli s) = free_pid s"
  by (simp add: free_pid_def)

lemma sti_cli: "sti (cli s) = s\<lparr>iflag := True\<rparr>"
  by (simp add: sti_def cli_def)

lemma process_started_cli: "process_started p arg prog (cli s) s' = process_started p arg prog s s'"
  by (simp add: process_started_def running_pid_def)

definition elf_magic :: "byte list" where
  "elf_magic = [0x7F, 0x45, 0x4C, 0x46]"

text \<open>An executable file: its bytes, and the entry point at offset 24.\<close>

definition program_file :: "'a kernel_state_scheme \<Rightarrow> dentry_t \<Rightarrow> byte list \<Rightarrow> bool" where
  "program_file s d prog \<longleftrightarrow> inode_placed (mem s) (fs s) (inode_num d) \<and>
     prog = file_content (mem s) (fs s) (inode_num d) \<and> 28 \<le> length prog \<and> take 4 prog = elf_magic \<and>
     0x48000 + length prog \<le> 0x400000"

definition entry_point :: "byte list \<Rightarrow> u32" where
  "entry_point prog = load32 (arr_of prog) 24"

lemma local_bytes_load32:
  assumes "length bs = 4"
  shows "load32 (local_bytes junk bs) 0 = load32 (arr_of bs) 0"
  using assms by (simp add: load32_def local_bytes_def)

lemma load32_take_drop:
  assumes "n + 4 \<le> length bs"
  shows "load32 (arr_of (take 4 (drop n bs))) 0 = load32 (arr_of bs) n"
  using assms by (simp add: load32_def)

lemma read_prefix:
  assumes "paging_ok s" "inode_placed (mem s) (fs s) inode" "0 \<le> off" "0 \<le> len"
  shows "read_data (kmem s) (fs s) inode off len =
    (let c = take (nat len) (drop (nat off) (file_content (mem s) (fs s) inode)) in (int (length c), c))"
proof -
  have a: "agree_kernel (mem s) (kmem s)" using kmem_kernel [OF assms(1)] by (rule agree_kernel_sym)
  show ?thesis
    using read_data_placed [OF file_agree(3) [OF a assms(2)] assms(3,4)] file_agree(2) [OF a assms(2)] by simp
qed

lemma start_program_file:
  assumes "fs_ok s" "program_file s d prog" "free_pid s = Some i"
  obtains s' where "start_program d eip arg s = (ToUser eip 0x83FFFFC, s')" "process_started (int i + 1) arg prog s s'"
  using assms start_program_ok [of s d i prog eip arg] unfolding fs_ok_def program_file_def by auto

text \<open>The checks before a pid is allocated.\<close>

lemma execute_checked:
  assumes "fs_ok s" "command_line c w a" "lookup s w = Some d" "program_file s d prog"
  shows "\<exists>arg. execute (Some c) s = Some (start_program d (entry_point prog) arg (cli s)) \<and>
    (\<forall>i < 32. arg i = (if i < length a then a ! i else NUL))"
proof -
  let ?junk = "\<lambda>i. if i < 32 then NUL else stack_junk s i"
  obtain k cmd where g: "getCommand c ?junk = Some (k, cmd)" "cstr cmd = Some w"
    and ga: "getArguments c ?junk k = Some (\<lambda>i. if i < length a then a ! i else ?junk i)"
    using command_line_parse [OF assms(2), of ?junk ?junk] .
  have ok: "paging_ok s" using assms(1) by (simp add: fs_ok_def)
  have pf: "inode_placed (mem s) (fs s) (inode_num d)" "prog = file_content (mem s) (fs s) (inode_num d)"
    "28 \<le> length prog" "take 4 prog = elf_magic" using assms(4) unfolding program_file_def by auto
  have m: "read_data (kmem s) (fs s) (inode_num d) 0 4 = (4, elf_magic)"
    using read_prefix [OF ok pf(1), of 0 4] pf by (simp add: Let_def elf_magic_def)
  have e: "read_data (kmem s) (fs s) (inode_num d) 24 4 = (4, take 4 (drop 24 prog))"
    using read_prefix [OF ok pf(1), of 24 4] pf by (simp add: Let_def)
  have ep: "load32 (local_bytes (stack_junk s) (take 4 (drop 24 prog))) 0 = entry_point prog"
    using pf(3) by (simp add: local_bytes_load32 load32_take_drop entry_point_def)
  have mg: "local_bytes (stack_junk s) elf_magic 0 = 0x7F" "local_bytes (stack_junk s) elf_magic (Suc 0) = 0x45"
    "local_bytes (stack_junk s) elf_magic 2 = 0x4C" "local_bytes (stack_junk s) elf_magic 3 = 0x46"
    by (simp_all add: local_bytes_def elf_magic_def)
  have "execute (Some c) s = Some (start_program d (entry_point prog)
      (\<lambda>i. if i < length a then a ! i else ?junk i) (cli s))"
    using lookup_eq [OF assms(1) g(2)] assms(3)
    by (simp add: execute_def Let_def g ga m e ep mg cong: if_cong)
  then show ?thesis by auto
qed

lemma execute_starts:
  assumes "fs_ok s" "command_line c w a" "lookup s w = Some d" "program_file s d prog" "free_pid s = Some i"
  shows "\<exists>s'. execute (Some c) s = Some (ToUser (entry_point prog) 0x83FFFFC, s')
    \<and> process_started (int i + 1) (\<lambda>j. if j < length a then a ! j else NUL) prog s s'"
proof -
  obtain arg where x: "execute (Some c) s = Some (start_program d (entry_point prog) arg (cli s))"
    and arg: "\<forall>j < 32. arg j = (if j < length a then a ! j else NUL)"
    using execute_checked [OF assms(1-4)] by blast
  obtain s' where s': "start_program d (entry_point prog) arg (cli s) = (ToUser (entry_point prog) 0x83FFFFC, s')"
    "process_started (int i + 1) arg prog (cli s) s'"
    using start_program_ok [of "cli s" d i prog "entry_point prog" arg] assms(1,4,5)
    by (auto simp: fs_ok_def program_file_def)
  from s'(2) arg have "process_started (int i + 1) (\<lambda>j. if j < length a then a ! j else NUL) prog s s'"
    by (simp add: process_started_cli process_started_def)
  with x s'(1) show ?thesis by auto
qed


subsection \<open>The example\<close>

lemma demo_fs_ok: "fs_ok demo_state"
  by (simp add: fs_ok_def demo_state_simps demo_placed demo_names_end)

lemma demo_lookup_shell: "lookup demo_state (bytes_of ''shell'') = Some (load_dentry demo_mem 0x500040)"
proof -
  have "[0..num_direntries demo_fs - 1] = [0, 1, 2]" by (simp add: demo_fs_eq upto.simps)
  then show ?thesis
    by (simp add: lookup_def demo_state_simps demo_names demo_direntry)
qed

lemma demo_prog_bytes: "file_content demo_mem demo_fs 0 = demo_prog"
proof -
  have len: "length demo_prog = 28" by (simp add: demo_prog_def)
  have "file_byte demo_mem demo_fs 0 k = demo_mem (0x503000 + k)" if "k < 28" for k
    using that by (simp add: file_byte_def demo_inodes)
      (simp add: data_byte_def demo_fs_eq addr32_eq nat_add_distrib)
  then have "file_content demo_mem demo_fs 0 = load_bytes demo_mem 0x503000 28"
    by (intro nth_equalityI) (simp_all add: file_content_def demo_inodes)
  also have "\<dots> = demo_prog" using len by (simp add: demo_mem_def load_store_eq load_store_disjoint)
  finally show ?thesis .
qed

lemma demo_program: "program_file demo_state (load_dentry demo_mem 0x500040) demo_prog"
  using demo_inode_placed(1) demo_prog_bytes
  by (simp add: program_file_def demo_state_simps load_dentry_def demo_words demo_prog_def elf_magic_def)

lemma word_command:
  assumes "\<forall>b \<in> set w. \<not> is_blank b \<and> b \<noteq> NUL" "length w < 32"
  shows "command_line (arr_of w) w []"
proof -
  have "\<not> is_blank (arr_of w k)" for k
    using assms(1) by (auto simp: arr_of_def is_blank_def dest: nth_mem)
  with assms show ?thesis by (auto simp: command_line_def)
qed

lemma demo_command: "command_line (arr_of (bytes_of ''shell'')) (bytes_of ''shell'') []"
  by (rule word_command) (simp_all add: bytes_of_def is_blank_def)

lemma demo_free: "free_pid demo_state = Some 0"
  by (simp add: free_pid_def demo_state_simps upt_conv_Cons)


subsection \<open>Failures\<close>

text \<open>
  execute returns -1, with interrupts enabled and nothing else changed, when the command is
  null, when no file has the name, and when the first four bytes of the file are not those of an
  executable.
\<close>

theorem execute_fails_unchanged:
  assumes "fs_ok s" "cmd = None \<or> (\<exists>c w a. cmd = Some c \<and> command_line c w a \<and>
      (lookup s w = None \<or> (\<exists>d. lookup s w = Some d \<and> inode_placed (mem s) (fs s) (inode_num d)
        \<and> 4 \<le> inode_length (mem s) (fs s) (inode_num d)
        \<and> take 4 (file_content (mem s) (fs s) (inode_num d)) \<noteq> elf_magic)))"
  shows "execute cmd s = Some (Ret (-1), s\<lparr>iflag := True\<rparr>)"
proof (cases cmd)
  case None
  then show ?thesis by (simp add: execute_def Let_def sti_cli)
next
  case (Some c)
  with assms(2) obtain w a where c: "command_line c w a"
    and l: "lookup s w = None \<or> (\<exists>d. lookup s w = Some d \<and> inode_placed (mem s) (fs s) (inode_num d)
        \<and> 4 \<le> inode_length (mem s) (fs s) (inode_num d)
        \<and> take 4 (file_content (mem s) (fs s) (inode_num d)) \<noteq> elf_magic)" by auto
  let ?junk = "\<lambda>i. if i < 32 then NUL else stack_junk s i"
  obtain k cm where g: "getCommand c ?junk = Some (k, cm)" "cstr cm = Some w"
    and ga: "getArguments c ?junk k = Some (\<lambda>i. if i < length a then a ! i else ?junk i)"
    using command_line_parse [OF c, of ?junk ?junk] .
  from l show ?thesis
  proof
    assume "lookup s w = None"
    then show ?thesis
      using lookup_eq [OF assms(1) g(2)] Some
      by (simp add: execute_def Let_def g ga sti_cli cong: if_cong)
  next
    assume "\<exists>d. lookup s w = Some d \<and> inode_placed (mem s) (fs s) (inode_num d)
        \<and> 4 \<le> inode_length (mem s) (fs s) (inode_num d)
        \<and> take 4 (file_content (mem s) (fs s) (inode_num d)) \<noteq> elf_magic"
    then obtain d where d: "lookup s w = Some d" "inode_placed (mem s) (fs s) (inode_num d)"
      "4 \<le> length (file_content (mem s) (fs s) (inode_num d))"
      "take 4 (file_content (mem s) (fs s) (inode_num d)) \<noteq> elf_magic"
      by (auto simp: file_content_def)
    define m where "m = take 4 (file_content (mem s) (fs s) (inode_num d))"
    have r: "read_data (kmem s) (fs s) (inode_num d) 0 4 = (4, m)"
      using read_prefix [of s "inode_num d" 0 4] d assms(1) by (simp add: Let_def m_def fs_ok_def)
    have "length m = 4" using d(3) by (simp add: m_def)
    then obtain b0 b1 b2 b3 where "m = [b0, b1, b2, b3]"
      by (auto simp: length_Suc_conv numeral_eq_Suc)
    with d(4) have bad: "local_bytes (stack_junk s) m 0 \<noteq> 0x7F \<or> local_bytes (stack_junk s) m (Suc 0) \<noteq> 0x45 \<or>
        local_bytes (stack_junk s) m 2 \<noteq> 0x4C \<or> local_bytes (stack_junk s) m 3 \<noteq> 0x46"
      by (auto simp: m_def [symmetric] elf_magic_def local_bytes_def)
    show ?thesis
      using lookup_eq [OF assms(1) g(2)] d(1) Some bad
      by (simp add: execute_def Let_def g ga r sti_cli cong: if_cong)
  qed
qed

theorem execute_fails_unchanged_witness:
  "execute (Some (arr_of (bytes_of ''nofile''))) demo_state = Some (Ret (-1), demo_state\<lparr>iflag := True\<rparr>)"
proof -
  have "[0..num_direntries demo_fs - 1] = [0, 1, 2]" by (simp add: demo_fs_eq upto.simps)
  then have "lookup demo_state (bytes_of ''nofile'') = None"
    by (simp add: lookup_def demo_state_simps demo_names demo_direntry) (simp add: bytes_of_def)
  moreover have "command_line (arr_of (bytes_of ''nofile'')) (bytes_of ''nofile'') []"
    by (rule word_command) (simp_all add: bytes_of_def is_blank_def)
  ultimately show ?thesis
    using execute_fails_unchanged [OF demo_fs_ok] by blast
qed

text \<open>
  When the inode number of the named file is out of range, the read of the magic bytes fails and
  execute returns -1 without enabling interrupts again.
\<close>

theorem execute_leaves_interrupts_off:
  assumes "fs_ok s" "command_line c w a" "lookup s w = Some d" "num_inodes (fs s) \<le> inode_num d"
  shows "execute (Some c) s = Some (Ret (-1), s\<lparr>iflag := False\<rparr>)"
proof -
  let ?junk = "\<lambda>i. if i < 32 then NUL else stack_junk s i"
  obtain k cm where g: "getCommand c ?junk = Some (k, cm)" "cstr cm = Some w"
    and ga: "getArguments c ?junk k = Some (\<lambda>i. if i < length a then a ! i else ?junk i)"
    using command_line_parse [OF assms(2), of ?junk ?junk] .
  have "read_data (kmem s) (fs s) (inode_num d) 0 4 = (-1, [])"
    using assms(4) by (simp add: read_data_def)
  then have "execute (Some c) s = Some (Ret (-1), cli s)"
    using lookup_eq [OF assms(1) g(2)] assms(3)
    by (simp add: execute_def Let_def g ga cong: if_cong)
  then show ?thesis by (simp add: cli_def)
qed

text \<open>The example image with a boot block that claims no inodes.\<close>

definition demo_no_inodes :: kernel_state where
  "demo_no_inodes = demo_state\<lparr>fs := demo_fs\<lparr>num_inodes := 0, fs_N := 1\<rparr>\<rparr>"

lemma paging_of_fs [simp]: "paging_of (s\<lparr>fs := g\<rparr>) = paging_of s"
  by (simp add: paging_of_def)

lemmas fs_paging [simp] = paging_cong [OF paging_of_fs]

theorem execute_leaves_interrupts_off_witness:
  "execute (Some (arr_of (bytes_of ''shell''))) demo_no_inodes = Some (Ret (-1), demo_no_inodes\<lparr>iflag := False\<rparr>)"
proof -
  let ?g = "demo_fs\<lparr>num_inodes := 0, fs_N := 1\<rparr>"
  have d: "direntry ?g = direntry demo_fs" by (simp add: fun_eq_iff direntry_def)
  have n: "dentry_name m ?g = dentry_name m demo_fs" "names_end m ?g = names_end m demo_fs" for m
    by (simp_all add: fun_eq_iff dentry_name_def names_end_def d)
  have "fs_ok demo_no_inodes"
    by (simp add: fs_ok_def demo_no_inodes_def demo_state_simps n demo_names_end dir_placed_def fs_placed_def)
      (simp add: demo_fs_eq)
  moreover have "lookup demo_no_inodes (bytes_of ''shell'') = Some (load_dentry demo_mem 0x500040)"
    using demo_lookup_shell by (simp add: lookup_def demo_no_inodes_def demo_state_simps n d)
  moreover have "num_inodes (fs demo_no_inodes) \<le> inode_num (load_dentry demo_mem 0x500040)"
    by (simp add: load_dentry_def demo_words demo_no_inodes_def)
  ultimately show ?thesis
    by (intro execute_leaves_interrupts_off [OF _ demo_command])
qed

section \<open>Address spaces and kernel stacks\<close>

text \<open>
  The size of a control block: three words, the 32 argument bytes, seven words, eight descriptors of
  20 bytes, and the count.
\<close>

definition pcb_size :: int where
  "pcb_size = 12 + 32 + 28 + 8 * 20 + 4"

text \<open>
  The six processes do not share memory: distinct pids have distinct user frames, none of them
  the kernel's or the first megabytes'; each pid owns an 8 KB block of the kernel's 4 MB, with its
  control block at the bottom and its kernel stack growing down from the top, and the blocks are
  disjoint.
\<close>

theorem processes_disjoint:
  assumes "1 \<le> p" "p \<le> 6" "1 \<le> q" "q \<le> 6" "p \<noteq> q"
  shows "program_frame p \<noteq> program_frame q \<and> program_frame p \<notin> {0, 1}
    \<and> {get_active_pcb p..<get_active_pcb p + 8192} \<inter> {get_active_pcb q..<get_active_pcb q + 8192} = {}
    \<and> 0x400000 < get_active_pcb p \<and> get_active_pcb p + 8192 \<le> 0x800000
    \<and> get_active_pcb p + pcb_size < get_active_kernel_stack_addr p
    \<and> get_active_kernel_stack_addr p + 4 = get_active_pcb p + 8192"
proof -
  have "nat p + 1 < 2 ^ LENGTH(32)" "nat q + 1 < 2 ^ LENGTH(32)" using assms by auto
  then have f: "unat (program_frame p) = nat p + 1" "unat (program_frame q) = nat q + 1"
    using assms by (simp_all add: program_frame_eq unat_of_nat take_bit_nat_eq_self del: of_nat_Suc of_nat_add)
  then have "program_frame p \<noteq> program_frame q" using assms by (metis add_right_cancel eq_nat_nat_iff order_trans zero_le_one)
  moreover have "program_frame p \<notin> {0, 1}" using f assms by (auto simp: word_unat_eq_iff)
  moreover have "{get_active_pcb p..<get_active_pcb p + 8192} \<inter> {get_active_pcb q..<get_active_pcb q + 8192} = {}"
  proof -
    have "p + 1 \<le> q \<or> q + 1 \<le> p" using assms(5) by auto
    then show ?thesis by (auto simp: get_active_pcb_def)
  qed
  ultimately show ?thesis
    using assms by (simp add: get_active_pcb_def get_active_kernel_stack_addr_def pcb_size_def)
qed

theorem processes_disjoint_witness:
  "program_frame 1 \<noteq> program_frame 2 \<and> get_active_pcb 1 + pcb_size < get_active_kernel_stack_addr 1"
  using processes_disjoint [of 1 2] by simp

section \<open>halt\<close>

text \<open>Closing touches nothing but the descriptor table of the running process.\<close>

definition set_files :: "(nat \<Rightarrow> fd_t) \<Rightarrow> int \<Rightarrow> pcb_t \<Rightarrow> pcb_t" where
  "set_files a n p = p\<lparr>file_desc_arr := a, num_open_descriptors := n\<rparr>"

lemma set_files_simps [simp]:
  "pid (set_files a n p) = pid p" "parent_pid (set_files a n p) = parent_pid p"
  "ESP_prev (set_files a n p) = ESP_prev p" "EBP_prev (set_files a n p) = EBP_prev p"
  "prev_tss_ESP0 (set_files a n p) = prev_tss_ESP0 p" "prev_tss_SS (set_files a n p) = prev_tss_SS p"
  "tss_esp0 (set_files a n p) = tss_esp0 p"
  "set_files a n (set_files b k p) = set_files a n p"
  by (simp_all add: set_files_def)

lemma upd_pcb_same: "f (pcbs s p) = pcbs s p \<Longrightarrow> upd_pcb p f s = s"
  by (simp add: upd_pcb_def)

lemma close_fd_files:
  "\<exists>a n. snd (close_fd fd s) = upd_pcb (running_pid s) (set_files a n) s"
proof (cases "fd < 2 \<or> num_open_descriptors (pcbs s (running_pid s)) \<le> fd
     \<or> flags (file_desc_arr (pcbs s (running_pid s)) (nat fd)) = 0")
  case True
  have "set_files (file_desc_arr p) (num_open_descriptors p) p = p" for p by (simp add: set_files_def)
  then have "snd (close_fd fd s) = upd_pcb (running_pid s) (set_files
      (file_desc_arr (pcbs s (running_pid s))) (num_open_descriptors (pcbs s (running_pid s)))) s"
    using close_fd_refused [OF True] by (simp add: upd_pcb_same)
  then show ?thesis by blast
next
  case False
  have "close_in i p = set_files (file_desc_arr (close_in i p)) (num_open_descriptors (close_in i p)) p" for i p
    by (simp add: close_in_def upd_fd_def set_files_def)
  then have "upd_pcb q (close_in i) s = upd_pcb q (set_files (file_desc_arr (close_in i (pcbs s q)))
      (num_open_descriptors (close_in i (pcbs s q)))) s" for i q
    unfolding upd_pcb_def by (metis (no_types, lifting))
  with False close_fd_eq [of fd s] show ?thesis by auto
qed

lemma close_all_files: "\<exists>a n. close_all s = upd_pcb (running_pid s) (set_files a n) s"
proof -
  have "\<exists>a n. fold (\<lambda>i s. snd (close_fd (int i) s)) [0..<k] s = upd_pcb (running_pid s) (set_files a n) s" for k
  proof (induction k)
    case 0
    have "set_files (file_desc_arr p) (num_open_descriptors p) p = p" for p by (simp add: set_files_def)
    then show ?case by (metis fold_simps(1) upd_pcb_same upt_0)
  next
    case (Suc k)
    then obtain a n where "fold (\<lambda>i s. snd (close_fd (int i) s)) [0..<k] s = upd_pcb (running_pid s) (set_files a n) s"
      by blast
    with close_fd_files [of "int k" "upd_pcb (running_pid s) (set_files a n) s"] show ?case by simp
  qed
  then show ?thesis by (simp add: close_all_def)
qed

text \<open>The state halt leaves for the parent.\<close>

lemma return_to_parent_ok:
  assumes "paging_ok s" "pcb = pcbs s (running_pid s)" "1 \<le> parent_pid pcb" "parent_pid pcb \<le> 6"
  shows "\<exists>s'. return_to_parent (running_pid s) r s = (LongRet (ESP_prev pcb) (EBP_prev pcb) r, s')
    \<and> paging_ok s' \<and> user_frame s' = nat (parent_pid pcb) + 1 \<and> video_frame s' = video_frame s
    \<and> esp0 s' = prev_tss_ESP0 pcb \<and> ss0 s' = prev_tss_SS pcb \<and> iflag s'
    \<and> terminals s' = (terminals s)(sched_term s := (terminals s (sched_term s))\<lparr>active_pid := parent_pid pcb\<rparr>)
    \<and> pid_arr s' = pid_arr s \<and> mem s' = mem s \<and> fs s' = fs s \<and> sched_term s' = sched_term s
    \<and> visible_term s' = visible_term s \<and> page_faults s' = page_faults s \<and> (\<forall>q. q \<noteq> running_pid s \<longrightarrow> pcbs s' q = pcbs s q)"
proof -
  obtain a n where c: "close_all s = upd_pcb (running_pid s) (set_files a n) s" using close_all_files by blast
  show ?thesis
    using assms by (simp add: return_to_parent_def c Let_def paging_ok_user_frame user_frame_program
        other_frames_program)
qed

text \<open>halt of a process that is not its terminal's first.\<close>

lemma halt_returns:
  assumes "paging_ok s" "pcb = pcbs s (running_pid s)" "pid pcb \<noteq> base_pid (terminals s (sched_term s))"
    and "1 \<le> parent_pid pcb" "parent_pid pcb \<le> 6" "r = (if st = 100 then 256 else st)"
  shows "\<exists>s'. halt st s = Some (LongRet (ESP_prev pcb) (EBP_prev pcb) r, s')
    \<and> paging_ok s' \<and> user_frame s' = nat (parent_pid pcb) + 1 \<and> video_frame s' = video_frame s
    \<and> esp0 s' = prev_tss_ESP0 pcb \<and> ss0 s' = prev_tss_SS pcb \<and> iflag s'
    \<and> terminals s' = (terminals s)(sched_term s := (terminals s (sched_term s))\<lparr>active_pid := parent_pid pcb\<rparr>)
    \<and> pid_arr s' = (pid_arr s)(running_pid s - 1 := 0) \<and> mem s' = mem s \<and> fs s' = fs s \<and> sched_term s' = sched_term s
    \<and> visible_term s' = visible_term s \<and> page_faults s' = page_faults s \<and> (\<forall>q. q \<noteq> running_pid s \<longrightarrow> pcbs s' q = pcbs s q)"
proof -
  define s1 where "s1 = (cli s)\<lparr>pid_arr := (pid_arr s)(running_pid s - 1 := 0)\<rparr>"
  have r: "running_pid s1 = running_pid s" by (simp add: s1_def running_pid_def)
  have "halt st s = Some (return_to_parent (running_pid s1) r s1)"
    using assms(2,3,6) by (simp add: halt_def Let_def s1_def running_pid_def)
  moreover have "paging_ok s1" "pcb = pcbs s1 (running_pid s1)" using assms(1,2) r by (simp_all add: s1_def)
  note return_to_parent_ok [OF this assms(4,5), of r]
  ultimately show ?thesis unfolding r by (simp add: s1_def)
qed

text \<open>
  halt undoes execute: when the started program ends, the caller's execute returns with the status
  (256 for the status of an exception) on the caller's kernel stack, and the running process, the
  user window, the kernel stack of the task state segment and the pid table are as before the call;
  memory is as the program left it.
\<close>

theorem execute_halt_round_trip:
  assumes "process_started p arg prog s s1" "p \<noteq> base_pid (terminals s (sched_term s))"
    and "pid_arr s (p - 1) = 0" "1 \<le> running_pid s" "running_pid s \<le> 6"
  shows "\<exists>s2. halt st s1 = Some (LongRet (reg_esp s) (reg_ebp s) (if st = 100 then 256 else st), s2)
    \<and> terminals s2 = terminals s \<and> pid_arr s2 = pid_arr s \<and> user_frame s2 = nat (running_pid s) + 1
    \<and> esp0 s2 = esp0 s \<and> ss0 s2 = ss0 s \<and> paging_ok s2 \<and> iflag s2 \<and> mem s2 = mem s1
    \<and> (\<forall>q. q \<noteq> p \<longrightarrow> pcbs s2 q = pcbs s q)"
proof -
  let ?r = "if st = 100 then 256 else st"
  have run: "running_pid s1 = p" using assms(1) by (simp add: process_started_def running_pid_def)
  have s1: "paging_ok s1" "pid (pcbs s1 p) \<noteq> base_pid (terminals s1 (sched_term s1))" "parent_pid (pcbs s1 p) = running_pid s"
    using assms(1,2) by (auto simp: process_started_def)
  from halt_returns [of s1 "pcbs s1 p" ?r st] s1 assms(4,5)
  obtain s2 where "halt st s1 = Some (LongRet (ESP_prev (pcbs s1 p)) (EBP_prev (pcbs s1 p)) ?r, s2)"
    and s2: "paging_ok s2" "user_frame s2 = nat (running_pid s) + 1" "esp0 s2 = prev_tss_ESP0 (pcbs s1 p)"
      "ss0 s2 = prev_tss_SS (pcbs s1 p)" "iflag s2"
      "terminals s2 = (terminals s1)(sched_term s1 := (terminals s1 (sched_term s1))\<lparr>active_pid := running_pid s\<rparr>)"
      "pid_arr s2 = (pid_arr s1)(p - 1 := 0)" "mem s2 = mem s1" "\<forall>q. q \<noteq> p \<longrightarrow> pcbs s2 q = pcbs s1 q"
    unfolding run s1(3) by auto
  moreover have "terminals s2 = terminals s" "pid_arr s2 = pid_arr s"
    using assms(1,3) s2(6,7) by (auto simp: process_started_def running_pid_def fun_eq_iff)
  ultimately show ?thesis using assms(1) by (auto simp: process_started_def)
qed

text \<open>The example with the terminal's first process running.\<close>

definition demo_busy :: kernel_state where
  "demo_busy = demo_state\<lparr>pid_arr := (\<lambda>_. 0)(0 := 1)\<rparr>"

lemma demo_busy_simps:
  "fs_ok demo_busy" "running_pid demo_busy = 1" "base_pid (terminals demo_busy (sched_term demo_busy)) = 1"
  "pid_arr demo_busy = (\<lambda>_. 0)(0 := 1)" "reg_esp demo_busy = 0x7FFE00" "reg_ebp demo_busy = 0x7FFE40"
  "lookup demo_busy n = lookup demo_state n" "program_file demo_busy d prog = program_file demo_state d prog"
  "free_pid demo_busy = Some 1"
  using demo_fs_ok
  by (simp_all add: demo_busy_def fs_ok_def running_pid_def demo_state_simps demo_terminal_def lookup_def
      program_file_def free_pid_def upt_conv_Cons)

theorem execute_halt_round_trip_witness:
  "\<exists>s1 s2. process_started 2 (\<lambda>_. NUL) demo_prog demo_busy s1
    \<and> halt 7 s1 = Some (LongRet 0x7FFE00 0x7FFE40 7, s2) \<and> terminals s2 = terminals demo_busy"
proof -
  have "program_file demo_busy (load_dentry demo_mem 0x500040) demo_prog"
    using demo_program by (simp add: demo_busy_simps)
  from start_program_file [OF demo_busy_simps(1) this demo_busy_simps(9)]
  obtain s1 where "process_started (int 1 + 1) (\<lambda>_. NUL) demo_prog demo_busy s1" by metis
  then have "process_started 2 (\<lambda>_. NUL) demo_prog demo_busy s1" by simp
  with execute_halt_round_trip [of 2 "\<lambda>_. NUL" demo_prog demo_busy s1 7] show ?thesis
    by (auto simp: demo_busy_simps)
qed

lemma halt_restarts:
  assumes "fs_ok s" "pid (pcbs s (running_pid s)) = base_pid (terminals s (sched_term s))"
    and "lookup s (bytes_of ''shell'') = Some d" "program_file s d prog" "1 \<le> running_pid s" "running_pid s \<le> 6"
  shows "\<exists>i s'. halt st s = Some (ToUser (entry_point prog) 0x83FFFFC, s')
    \<and> int i < running_pid s \<and> {j. j < i} \<inter> {j. pid_arr s (int j) = 0} = {}
    \<and> (int i + 1 = running_pid s \<or> pid_arr s (int i) = 0)
    \<and> process_started (int i + 1) (\<lambda>_. NUL) prog (s\<lparr>pid_arr := (pid_arr s)(running_pid s - 1 := 0)\<rparr>) s'"
proof -
  let ?p = "running_pid s"
  define s0 where "s0 = s\<lparr>pid_arr := (pid_arr s)(?p - 1 := 0)\<rparr>"
  have "fs_ok s0 = fs_ok s" "lookup s0 n = lookup s n" "program_file s0 d prog = program_file s d prog" for n
    by (simp_all add: s0_def fs_ok_def lookup_def program_file_def)
  with assms(1,4) have s0: "fs_ok s0" "lookup s0 n = lookup s n" "program_file s0 d prog" for n by auto
  have freed: "pid_arr s0 (int (nat (?p - 1))) = 0" "nat (?p - 1) \<in> set [0..<6]"
    using assms(5,6) by (auto simp: s0_def)
  then have "free_pid s0 \<noteq> None" unfolding free_pid_def find_None_iff by blast
  then obtain i where i: "free_pid s0 = Some i" by blast
  then have low: "pid_arr s0 (int i) = 0" "\<forall>j < i. pid_arr s0 (int j) \<noteq> 0" "i < 6"
    unfolding free_pid_def find_Some_iff by (auto simp del: upt_conv_Cons)
  have le: "i \<le> nat (?p - 1)" using low(2) freed(1) by (metis not_le)
  have before: "pid_arr s (int j) \<noteq> 0" if "j < i" for j
  proof -
    have "int j \<noteq> ?p - 1" using that le by auto
    moreover have "pid_arr s0 (int j) \<noteq> 0" using low(2) that by blast
    ultimately show ?thesis by (simp add: s0_def)
  qed
  obtain arg where x: "execute (Some (arr_of (bytes_of ''shell''))) s0 =
      Some (start_program d (entry_point prog) arg (cli s0))" "\<forall>j < 32. arg j = NUL"
    using execute_checked [OF s0(1) demo_command _ s0(3)] assms(3) s0(2) by auto
  have "program_file (cli s0) d prog = program_file s0 d prog" by (simp add: program_file_def)
  with s0 i have "fs_ok (cli s0)" "program_file (cli s0) d prog" "free_pid (cli s0) = Some i" by simp_all
  then obtain s' where s': "start_program d (entry_point prog) arg (cli s0) = (ToUser (entry_point prog) 0x83FFFFC, s')"
    "process_started (int i + 1) arg prog (cli s0) s'"
    by (rule start_program_file)
  have ps: "process_started (int i + 1) (\<lambda>_. NUL) prog s0 s'"
    using s'(2) x(2) by (simp add: process_started_cli) (simp add: process_started_def)
  have "cli (cli s) = cli s" by (simp add: cli_def)
  then have "execute c ((cli s)\<lparr>pid_arr := (pid_arr s)(?p - 1 := 0)\<rparr>) = execute c s0" for c
    by (simp add: execute_def s0_def cli_def)
  then have "halt st s = Some (ToUser (entry_point prog) 0x83FFFFC, s')"
    using x s' assms(2) by (simp add: halt_def Let_def)
  moreover have "int i < ?p" using le assms(5) by linarith
  moreover have "int i + 1 = ?p \<or> pid_arr s (int i) = 0" using low(1) by (auto simp: s0_def split: if_splits)
  moreover have "{j. j < i} \<inter> {j. pid_arr s (int j) = 0} = {}" using before by auto
  ultimately show ?thesis using ps unfolding s0_def by blast
qed


definition demo_base :: kernel_state where
  "demo_base = upd_pcb 1 (\<lambda>p. p\<lparr>pid := 1\<rparr>) demo_busy"


section \<open>Stale bytes on the command line\<close>

text \<open>
  The parser does not stop at the end of the string: when the command word is ended by a NUL and
  the buffer still holds a blank within its first 32 bytes (left from an earlier, longer line), the
  bytes after that blank become the program's arguments.
\<close>

theorem stale_bytes_become_arguments:
  assumes "n < k" "k < 32" "c n = NUL" "{j. j < k} \<inter> {j. is_blank (c j)} = {}" "is_blank (c k)"
    and "\<not> is_blank (c (Suc k))" "{j. j < m} \<inter> {j. c (Suc k + j) = NUL} = {}" "c (Suc k + m) = NUL"
  shows "\<exists>cmd. getCommand c cmd0 = Some (Suc k, cmd) \<and> cmd n = NUL
    \<and> getArguments c arg0 (Suc k) = Some (\<lambda>j. if j < m then c (Suc k + j) else arg0 j)"
proof -
  have blanks: "\<not> is_blank (c j)" if "j < k" for j using assms(4) that by blast
  have "skip_spaces c k = Some (Suc k)"
    using assms(5,6) by (intro skip_spaces_eq) (auto simp: is_blank_def le_less_Suc_eq)
  then have "getCommand c cmd0 = Some (Suc k, \<lambda>j. if 0 \<le> j \<and> j < k then c j else if j = k then NUL else cmd0 j)"
    unfolding getCommand_def using assms(2,5) blanks
    by (intro getCommand_from_word) (auto simp: is_blank_def)
  moreover have "getArguments c arg0 (Suc k) = Some (\<lambda>j. if 0 \<le> j \<and> j < 0 + m then c (Suc k + (j - 0)) else arg0 j)"
    unfolding getArguments_def using assms(7,8) by (intro getArguments_from_eq) auto
  ultimately show ?thesis using assms(1,3) by auto
qed

text \<open>The line \<open>ls\<close> typed over \<open>cat f\<close>: the program gets the argument \<open>f\<close>.\<close>

theorem stale_bytes_become_arguments_witness:
  "\<exists>cmd. getCommand (arr_of (bytes_of ''ls'' @ [NUL, 0x20] @ bytes_of ''f'')) (\<lambda>_. 0) = Some (4, cmd) \<and> cmd 2 = NUL"
proof -
  obtain c where eq: "c = arr_of (bytes_of ''ls'' @ [NUL, 0x20] @ bytes_of ''f'')" by blast
  then have c: "c 0 = 0x6C" "c 1 = 0x73" "c 2 = 0" "c 3 = 0x20" "c 4 = 0x66" "c 5 = 0"
    by (simp_all add: arr_of_def bytes_of_def)
  have "j = 0 \<or> j = 1 \<or> j = 2" if "j < 3" for j :: nat using that by linarith
  then have "{j. j < 3} \<inter> {j. is_blank (c j)} = {}" using c by (fastforce simp: is_blank_def)
  moreover have "{j. j < 1} \<inter> {j. c (Suc 3 + j) = NUL} = {}" using c by auto
  ultimately show ?thesis
    using stale_bytes_become_arguments [of 2 3 c 1 "\<lambda>_. 0"] c unfolding eq [symmetric] by (simp add: is_blank_def) metis
qed

end
