(* ===== verification/Terminal.thy ===== *)
theory Terminal
  imports Execute
begin

text \<open>
  The three terminals (terminal.c): terminal_init, switch_terminal and the scheduler, with the timer
  interrupt (pit.c, pit_handler) that calls it.

  The arrays that are not in video memory (the line buffers) are copied by memcpy; since the two
  arrays are different objects, memcpy is on them the plain copy \<open>copy_buffer\<close> (theory CMem shows
  that it is for memory).  The copies between video pages go through the page tables.  The assembly at
  the end of the scheduler loads the next process's stack and frame pointer: the model puts them into
  \<open>reg_esp\<close> and \<open>reg_ebp\<close>, and the scheduler then returns on that stack.
\<close>

section \<open>The code\<close>

definition get_visible_term :: "'a console_state_scheme \<Rightarrow> terminal_t" where
  "get_visible_term s = terminals s (visible_term s)"

definition get_running_term :: "'a console_state_scheme \<Rightarrow> terminal_t" where
  "get_running_term s = terminals s (sched_term s)"

definition init_terminal :: "nat \<Rightarrow> terminal_t \<Rightarrow> terminal_t" where
  "init_terminal idx t = t\<lparr>status := 0, r_flag := 0, screen_x := 0, screen_y := 0, active_pid := 0,
     num_pids := 0, rb_idx := 0, counter_freqRate := 1024 div 2, rtc_counter := 0,
     rtc_interrupt_occured := 0, VRAM_addr := (0xB9 + word_of_nat idx) * 4096\<rparr>"

definition terminal_init :: "'a console_state_scheme \<Rightarrow> 'a console_state_scheme" where
  "terminal_init s =
     (let s = fold (\<lambda>idx s.
                let s = upd_term idx (init_terminal idx) s;
                    s = clear s
                in upd_term idx (\<lambda>t. t\<lparr>read_buffer := (\<lambda>i. if i < 128 then NUL else read_buffer t i)\<rparr>) s)
              [0..<3] s;
          s = upd_term 0 (\<lambda>t. t\<lparr>status := 1, active_pid := 1, base_pid := 1, r_flag := 1\<rparr>) s;
          s = upd_term 0 (\<lambda>t. t\<lparr>VRAM_addr := 0xB9000\<rparr>) s;
          s = upd_term 1 (\<lambda>t. t\<lparr>VRAM_addr := 0xBA000\<rparr>) s;
          s = upd_term 2 (\<lambda>t. t\<lparr>VRAM_addr := 0xBB000\<rparr>) s
      in s\<lparr>visible_term := 0, next_terminal := 0, running_term := 0, sched_term := 0\<rparr>)"

text \<open>memcpy of BUFFER_LIMIT bytes between two line buffers.\<close>

definition copy_buffer :: "carray \<Rightarrow> carray \<Rightarrow> carray" where
  "copy_buffer dest src = (\<lambda>i. if i < 128 then src i else dest i)"

definition switch_terminal :: "nat \<Rightarrow> 'a kernel_state_scheme \<Rightarrow> 'a kernel_state_scheme" where
  "switch_terminal n s =
     (let s = cli s;
          s = s\<lparr>next_terminal := n\<rparr>;
          v = visible_term s
      in if n = v then sti s
      else
        let temp = get_field f_frame20 (page_table s 0xB8);
            s = set_pte_frame 0xB8 0xB8 s;
            s = flush_tlb s;
            s = upd_term v (\<lambda>t. t\<lparr>rb_idx := word_of_int (buffer_index s)\<rparr>) s;
            s = upd_term v (\<lambda>t. t\<lparr>read_buffer := copy_buffer (read_buffer t) (term_buffer s)\<rparr>) s;
            s = memcpy vread vwrite (unat (VRAM_addr (terminals s v))) 0xB8000 4096 s;
            s = s\<lparr>buffer_index := uint (rb_idx (terminals s n))\<rparr>;
            s = memcpy vread vwrite 0xB8000 (unat (VRAM_addr (terminals s n))) 4096 s;
            s = s\<lparr>term_buffer := copy_buffer (term_buffer s) (read_buffer (terminals s n))\<rparr>;
            s = upd_term v (\<lambda>t. t\<lparr>r_flag := 0\<rparr>) s;
            s = upd_term n (\<lambda>t. t\<lparr>r_flag := 1\<rparr>) s;
            s = s\<lparr>visible_term := n\<rparr>;
            s = update_cursor s;
            s = set_pte_frame 0xB8 temp s;
            s = flush_tlb s
        in sti s)"

text \<open>The page a terminal's output goes to.\<close>

definition terminal_page :: "nat \<Rightarrow> 'a console_state_scheme \<Rightarrow> u32" where
  "terminal_page k s =
     (if k = visible_term s then 0xB8 else if k = 0 then 0xB9 else if k = 1 then 0xBA else 0xBB)"

definition map_video :: "'a console_state_scheme \<Rightarrow> 'a console_state_scheme" where
  "map_video s =
     (let page = terminal_page (sched_term s) s;
          s = set_pte_frame 0xB8 page s;
          s = set_pte_vidmap_frame (sched_term s) page s
      in flush_tlb s)"

text \<open>
  The loop that looks for a free pid leaves 6 in the variable when there is none.
\<close>

definition next_pid :: "'a kernel_state_scheme \<Rightarrow> int" where
  "next_pid s = (case free_pid s of Some i \<Rightarrow> int i + 1 | None \<Rightarrow> int MAX_PCBS)"

definition scheduler :: "'a kernel_state_scheme \<Rightarrow> (flow \<times> 'a kernel_state_scheme) option" where
  "scheduler s =
     (let s = s\<lparr>running_term := sched_term s\<rparr>;
          s = s\<lparr>sched_term := (sched_term s + 1) mod 3\<rparr>;
          s = map_video s;
          k = sched_term s
      in if status (terminals s k) = 0 then
           let s = upd_term k (\<lambda>t. t\<lparr>status := 1\<rparr>) s;
               pid_num = next_pid s;
               s = upd_term k (\<lambda>t. t\<lparr>base_pid := pid_num\<rparr>) s;
               s = upd_term k (\<lambda>t. t\<lparr>active_pid := pid_num\<rparr>) s;
               s = upd_pcb (active_pid (terminals s (running_term s)))
                     (\<lambda>p. p\<lparr>pcb_esp := reg_esp s, pcb_ebp := reg_ebp s, tss_esp0 := esp0 s\<rparr>) s;
               s = clear s
           in execute (Some (arr_of (bytes_of ''shell''))) s
         else
           let curr = active_pid (terminals s (running_term s));
               nxt = active_pid (terminals s k);
               s = set_pde_frame4mb 32 (program_frame (pid (pcbs s nxt))) s;
               s = flush_tlb s;
               s = upd_pcb curr (\<lambda>p. p\<lparr>tss_esp0 := esp0 s\<rparr>) s;
               s = s\<lparr>ss0 := KERNEL_DS\<rparr>;
               s = s\<lparr>esp0 := tss_esp0 (pcbs s nxt)\<rparr>;
               s = upd_pcb curr (\<lambda>p. p\<lparr>pcb_esp := reg_esp s\<rparr>) s;
               s = upd_pcb curr (\<lambda>p. p\<lparr>pcb_ebp := reg_ebp s\<rparr>) s
           in Some (Ret 0, s\<lparr>reg_ebp := pcb_ebp (pcbs s nxt), reg_esp := pcb_esp (pcbs s nxt)\<rparr>))"

definition pit_handler :: "'a kernel_state_scheme \<Rightarrow> (flow \<times> 'a kernel_state_scheme) option" where
  "pit_handler s =
     (let s = cli s;
          s = send_eoi 0 s;
          s = sti s
      in scheduler s)"

section \<open>Mapping a terminal's page\<close>

lemma set_pte_simps [simp]:
  "terminals (set_pte_frame i v s) = terminals s" "sched_term (set_pte_frame i v s) = sched_term s"
  "visible_term (set_pte_frame i v s) = visible_term s" "running_term (set_pte_frame i v s) = running_term s"
  "mem (set_pte_frame i v s) = mem s" "page_faults (set_pte_frame i v s) = page_faults s"
  by (simp_all add: set_pte_frame_def set_pte_def)

lemma set_pte_kernel_simps [simp]:
  "pcbs (set_pte_frame i v s) = pcbs s" "pid_arr (set_pte_frame i v s) = pid_arr s" "fs (set_pte_frame i v s) = fs s"
  "esp0 (set_pte_frame i v s) = esp0 s" "ss0 (set_pte_frame i v s) = ss0 s"
  "reg_esp (set_pte_frame i v s) = reg_esp s" "reg_ebp (set_pte_frame i v s) = reg_ebp s"
  "term_buffer (set_pte_frame i v s) = term_buffer s" "buffer_index (set_pte_frame i v s) = buffer_index s"
  "stack_junk (set_pte_frame i v s) = stack_junk s"
  by (simp_all add: set_pte_frame_def set_pte_def)

lemma set_pte_vidmap_simps [simp]:
  "terminals (set_pte_vidmap_frame i v s) = terminals s" "sched_term (set_pte_vidmap_frame i v s) = sched_term s"
  "visible_term (set_pte_vidmap_frame i v s) = visible_term s" "running_term (set_pte_vidmap_frame i v s) = running_term s"
  "mem (set_pte_vidmap_frame i v s) = mem s" "page_faults (set_pte_vidmap_frame i v s) = page_faults s"
  by (simp_all add: set_pte_vidmap_frame_def set_pte_vidmap_def)

lemma set_pte_vidmap_kernel_simps [simp]:
  "pcbs (set_pte_vidmap_frame i v s) = pcbs s" "pid_arr (set_pte_vidmap_frame i v s) = pid_arr s" "fs (set_pte_vidmap_frame i v s) = fs s"
  "esp0 (set_pte_vidmap_frame i v s) = esp0 s" "ss0 (set_pte_vidmap_frame i v s) = ss0 s"
  "reg_esp (set_pte_vidmap_frame i v s) = reg_esp s" "reg_ebp (set_pte_vidmap_frame i v s) = reg_ebp s"
  "term_buffer (set_pte_vidmap_frame i v s) = term_buffer s" "buffer_index (set_pte_vidmap_frame i v s) = buffer_index s"
  "stack_junk (set_pte_vidmap_frame i v s) = stack_junk s"
  by (simp_all add: set_pte_vidmap_frame_def set_pte_vidmap_def)

lemma flush_tlb_console [simp]:
  "terminals (flush_tlb s) = terminals s" "sched_term (flush_tlb s) = sched_term s"
  "visible_term (flush_tlb s) = visible_term s" "running_term (flush_tlb s) = running_term s"
  "mem (flush_tlb s) = mem s" "page_faults (flush_tlb s) = page_faults s"
  "video_frame (flush_tlb s) = video_frame s" "vidmap_frame (flush_tlb s) = vidmap_frame s"
  "user_frame (flush_tlb s) = user_frame s"
  by (simp_all add: flush_tlb_def video_frame_def vidmap_frame_def user_frame_def fun_eq_iff)

lemma flush_tlb_more [simp]:
  "term_buffer (flush_tlb s) = term_buffer s"
  "buffer_index (flush_tlb s) = buffer_index s" "stack_junk (flush_tlb s) = stack_junk s"
  by (simp_all add: flush_tlb_def)

lemma set_pde_running [simp]: "running_term (set_pde_frame4mb i v s) = running_term s"
  by (simp add: set_pde_frame4mb_def set_pde_def)

lemma upd_pcb_running [simp]: "running_term (upd_pcb p f s) = running_term s"
  by (simp add: upd_pcb_def)

lemma frames_after_pte:
  "v \<in> video_frames \<Longrightarrow> video_frame (set_pte_frame 0xB8 v s) = unat v"
  "user_frame (set_pte_frame i v s) = user_frame s" "vidmap_frame (set_pte_frame i v s) = vidmap_frame s"
  by (simp_all add: video_frame_def user_frame_def vidmap_frame_def set_pte_frame_def set_pte_def field_simps'
      video_frames_20 fun_eq_iff)

lemma frames_after_vidmap:
  "video_frame (set_pte_vidmap_frame i v s) = video_frame s" "user_frame (set_pte_vidmap_frame i v s) = user_frame s"
  "v \<in> video_frames \<Longrightarrow> vidmap_frame (set_pte_vidmap_frame i v s) = (vidmap_frame s)(i := unat v)"
  by (simp_all add: video_frame_def user_frame_def vidmap_frame_def set_pte_vidmap_frame_def set_pte_vidmap_def
      field_simps' video_frames_20 fun_eq_iff)

text \<open>The page of the kernel's video memory, as a page number: on screen for the visible terminal.\<close>

definition page_of :: "nat \<Rightarrow> nat \<Rightarrow> nat" where
  "page_of v k = (if k = v then 0xB8 else 0xB9 + k)"

lemma terminal_page:
  "k < 3 \<Longrightarrow> terminal_page k s \<in> video_frames \<and> unat (terminal_page k s) = page_of (visible_term s) k"
  by (auto simp: terminal_page_def video_frames_def page_of_def)

lemma map_video_ok:
  assumes "paging_ok s" "sched_term s < 3"
  shows "paging_ok (map_video s)" "video_frame (map_video s) = page_of (visible_term s) (sched_term s)"
    "vidmap_frame (map_video s) = (vidmap_frame s)(sched_term s := page_of (visible_term s) (sched_term s))"
    "user_frame (map_video s) = user_frame s"
proof -
  let ?p = "terminal_page (sched_term s) s"
  have p: "?p \<in> video_frames" "unat ?p = page_of (visible_term s) (sched_term s)"
    using terminal_page [OF assms(2), of s] by auto
  show "paging_ok (map_video s)"
    using assms(1) p(1) by (simp add: map_video_def Let_def paging_ok_video_frame paging_ok_vidmap_frame paging_ok_flush)
  show "video_frame (map_video s) = page_of (visible_term s) (sched_term s)"
    "vidmap_frame (map_video s) = (vidmap_frame s)(sched_term s := page_of (visible_term s) (sched_term s))"
    "user_frame (map_video s) = user_frame s"
    using p by (simp_all add: map_video_def Let_def frames_after_pte frames_after_vidmap)
qed

lemma map_video_simps [simp]:
  "terminals (map_video s) = terminals s" "sched_term (map_video s) = sched_term s"
  "visible_term (map_video s) = visible_term s" "running_term (map_video s) = running_term s"
  "mem (map_video s) = mem s" "page_faults (map_video s) = page_faults s"
  by (simp_all add: map_video_def Let_def)

lemma map_video_kernel_simps [simp]:
  "pcbs (map_video s) = pcbs s" "pid_arr (map_video s) = pid_arr s" "fs (map_video s) = fs s"
  "esp0 (map_video s) = esp0 s" "ss0 (map_video s) = ss0 s"
  "reg_esp (map_video s) = reg_esp s" "reg_ebp (map_video s) = reg_ebp s"
  "term_buffer (map_video s) = term_buffer s" "buffer_index (map_video s) = buffer_index s"
  "stack_junk (map_video s) = stack_junk s"
  by (simp_all add: map_video_def Let_def)


section \<open>The scheduler\<close>

text \<open>The frames a state maps, and the record of a process that is set aside.\<close>

definition frames_of :: "'a paging_state_scheme \<Rightarrow> nat \<times> nat \<times> (nat \<Rightarrow> nat)" where
  "frames_of s = (video_frame s, user_frame s, vidmap_frame s)"

definition next_term :: "'a console_state_scheme \<Rightarrow> nat" where
  "next_term s = (sched_term s + 1) mod 3"

definition saved_context :: "'a kernel_state_scheme \<Rightarrow> pcb_t \<Rightarrow> pcb_t" where
  "saved_context s p = p\<lparr>tss_esp0 := esp0 s, pcb_esp := reg_esp s, pcb_ebp := reg_ebp s\<rparr>"

lemma next_term_less [simp]: "next_term s < 3"
  by (simp add: next_term_def)

lemma kernel_paging_updates [simp]:
  "paging_of (s\<lparr>sched_term := k\<rparr>) = paging_of s" "paging_of (s\<lparr>running_term := k\<rparr>) = paging_of s"
  "paging_of (s\<lparr>visible_term := k\<rparr>) = paging_of s" "paging_of (s\<lparr>next_terminal := k\<rparr>) = paging_of s"
  by (simp_all add: paging_of_def)

lemmas sched_paging [simp] = paging_cong [OF kernel_paging_updates(1)]
lemmas running_paging [simp] = paging_cong [OF kernel_paging_updates(2)]

lemma paging_of_regs [simp]:
  "paging_of (s\<lparr>reg_esp := a\<rparr>) = paging_of s" "paging_of (s\<lparr>reg_ebp := a\<rparr>) = paging_of s"
  by (simp_all add: paging_of_def)

lemmas reg_esp_paging [simp] = paging_cong [OF paging_of_regs(1)]
lemmas reg_ebp_paging [simp] = paging_cong [OF paging_of_regs(2)]

text \<open>What a tick does when the next terminal has a process.\<close>

definition switched :: "'a kernel_state_scheme \<Rightarrow> 'a kernel_state_scheme \<Rightarrow> bool" where
  "switched s s' \<longleftrightarrow>
     (let k = next_term s; cur = running_pid s; nxt = active_pid (terminals s k);
          page = page_of (visible_term s) k
      in paging_ok s' \<and> frames_of s' = (page, nat nxt + 1, (vidmap_frame s)(k := page)) \<and>
         sched_term s' = k \<and> running_term s' = sched_term s \<and> visible_term s' = visible_term s \<and>
         terminals s' = terminals s \<and> pid_arr s' = pid_arr s \<and> fs s' = fs s \<and> mem s' = mem s \<and>
         pcbs s' = (pcbs s)(cur := saved_context s (pcbs s cur)) \<and>
         esp0 s' = tss_esp0 (pcbs s' nxt) \<and> ss0 s' = KERNEL_DS \<and>
         reg_esp s' = pcb_esp (pcbs s' nxt) \<and> reg_ebp s' = pcb_ebp (pcbs s' nxt))"

lemma scheduler_switches:
  assumes "paging_ok s" "sched_term s < 3" "status (terminals s (next_term s)) \<noteq> 0"
    and "nxt = active_pid (terminals s (next_term s))" "pid (pcbs s nxt) = nxt" "1 \<le> nxt" "nxt \<le> 6"
  shows "\<exists>s'. scheduler s = Some (Ret 0, s') \<and> switched s s'"
proof -
  define s1 where "s1 = map_video (s\<lparr>running_term := sched_term s, sched_term := next_term s\<rparr>)"
  define s2 where "s2 = flush_tlb (set_pde_frame4mb 32 (program_frame nxt) s1)"
  have s1: "paging_ok s1" "video_frame s1 = page_of (visible_term s) (next_term s)"
    "vidmap_frame s1 = (vidmap_frame s)(next_term s := page_of (visible_term s) (next_term s))"
    unfolding s1_def using map_video_ok [of "s\<lparr>running_term := sched_term s, sched_term := next_term s\<rparr>"] assms(1)
    by simp_all
  have k1: "terminals s1 = terminals s" "pcbs s1 = pcbs s" "sched_term s1 = next_term s" "running_term s1 = sched_term s"
    by (simp_all add: s1_def)
  have s2: "paging_ok s2" "video_frame s2 = video_frame s1" "vidmap_frame s2 = vidmap_frame s1"
    "user_frame s2 = nat nxt + 1"
    using s1(1) user_frame_program [OF assms(6,7)] by (simp_all add: s2_def paging_ok_user_frame other_frames_program)
  have k2: "terminals s2 = terminals s" "pcbs s2 = pcbs s" "sched_term s2 = next_term s" "running_term s2 = sched_term s"
    "visible_term s2 = visible_term s" "pid_arr s2 = pid_arr s" "fs s2 = fs s" "mem s2 = mem s" "esp0 s2 = esp0 s"
    "reg_esp s2 = reg_esp s" "reg_ebp s2 = reg_ebp s"
    by (simp_all add: s2_def s1_def)
  let ?cur = "active_pid (terminals s (sched_term s))"
  define s3 where "s3 = upd_pcb ?cur (\<lambda>p. p\<lparr>tss_esp0 := esp0 s2\<rparr>) s2"
  define s4 where "s4 = s3\<lparr>ss0 := KERNEL_DS, esp0 := tss_esp0 (pcbs s3 nxt)\<rparr>"
  define s5 where "s5 = upd_pcb ?cur (\<lambda>p. p\<lparr>pcb_esp := reg_esp s\<rparr>) s4"
  define s6 where "s6 = upd_pcb ?cur (\<lambda>p. p\<lparr>pcb_ebp := reg_ebp s\<rparr>) s5"
  define s' where "s' = s6\<lparr>reg_ebp := pcb_ebp (pcbs s6 nxt), reg_esp := pcb_esp (pcbs s6 nxt)\<rparr>"
  have n: "active_pid (terminals s (Suc (sched_term s) mod 3)) = nxt" using assms(4) by (simp add: next_term_def)
  then have "scheduler s = Some (Ret 0, s')"
    using assms(3,5) k1 k2
    by (simp add: scheduler_def Let_def s'_def s6_def s5_def s4_def s3_def s2_def s1_def next_term_def)
  moreover have "paging_ok s'" "frames_of s' = frames_of s2"
    using s2 by (simp_all add: s'_def s6_def s5_def s4_def s3_def frames_of_def)
  moreover have "switched s s'"
    unfolding switched_def using calculation(2,3) s1 s2 k2 assms(4)
    by (simp add: Let_def frames_of_def running_pid_def saved_context_def)
      (simp add: s'_def s6_def s5_def s4_def s3_def k2)
  ultimately show ?thesis by blast
qed


section \<open>A timer tick\<close>

lemma eoi_simps [simp]:
  "terminals (send_eoi i s) = terminals s" "sched_term (send_eoi i s) = sched_term s"
  "visible_term (send_eoi i s) = visible_term s" "mem (send_eoi i s) = mem s"
  "paging_of (send_eoi i s) = paging_of s"
  by (auto simp: send_eoi_def outb_def Let_def paging_of_def)

lemma eoi_kernel_simps [simp]:
  "pcbs (send_eoi i s) = pcbs s" "pid_arr (send_eoi i s) = pid_arr s" "fs (send_eoi i s) = fs s"
  "esp0 (send_eoi i s) = esp0 s" "ss0 (send_eoi i s) = ss0 s" "reg_esp (send_eoi i s) = reg_esp s"
  "reg_ebp (send_eoi i s) = reg_ebp s" "stack_junk (send_eoi i s) = stack_junk s"
  by (auto simp: send_eoi_def outb_def Let_def)

lemmas eoi_paging [simp] = paging_cong [OF eoi_simps(5)]

lemma pit_handler_switches:
  assumes "paging_ok s" "sched_term s < 3" "status (terminals s (next_term s)) \<noteq> 0"
    and "nxt = active_pid (terminals s (next_term s))" "pid (pcbs s nxt) = nxt" "1 \<le> nxt" "nxt \<le> 6"
  shows "\<exists>s'. pit_handler s = Some (Ret 0, s') \<and> switched s s'"
proof -
  let ?s = "sti (send_eoi 0 (cli s))"
  have n: "next_term ?s = next_term s" by (simp add: next_term_def)
  have "\<exists>s'. scheduler ?s = Some (Ret 0, s') \<and> switched ?s s'"
    using scheduler_switches [of ?s nxt] assms by (simp add: n)
  moreover have "switched ?s s' = switched s s'" for s'
    by (simp add: switched_def n running_pid_def Let_def saved_context_def)
  ultimately show ?thesis by (simp add: pit_handler_def Let_def)
qed

text \<open>
  C21. A timer tick when the next terminal has a process: that process's frame becomes the user
  window, the video page and the terminal's vidmap page become the screen if the terminal is visible
  and its backup page otherwise, the interrupted process's stack pointers go into its control block,
  and the scheduler returns on the next process's stack. Memory, the terminals and all other control
  blocks stay as they are.
\<close>

theorem tick_switches_process:
  assumes "paging_ok s" "sched_term s < 3" "status (terminals s (next_term s)) \<noteq> 0"
    and "nxt = active_pid (terminals s (next_term s))" "pid (pcbs s nxt) = nxt" "1 \<le> nxt" "nxt \<le> 6"
  shows "\<exists>s'. pit_handler s = Some (Ret 0, s') \<and> switched s s'"
  using assms by (rule pit_handler_switches)

text \<open>Three terminals, each with a process: the example's processes 1, 2 and 3.\<close>

definition demo_three :: kernel_state where
  "demo_three = demo_state
     \<lparr>terminals := (\<lambda>k. (terminals demo_state k)\<lparr>status := 1, active_pid := int k + 1, base_pid := int k + 1,
         VRAM_addr := 0xB9000 + 0x1000 * word_of_nat k\<rparr>),
      pcbs := (\<lambda>p. (pcbs demo_state p)\<lparr>pid := p, pcb_esp := 0x100 * word_of_int p\<rparr>),
      visible_term := 0, sched_term := 0\<rparr>"

lemma demo_three_paging: "paging_of demo_three = paging_of demo_state"
  by (simp add: demo_three_def paging_of_def)

lemma demo_three_simps [simp]:
  "status (terminals demo_three k) = 1" "active_pid (terminals demo_three k) = int k + 1"
  "pid (pcbs demo_three p) = p" "pcb_esp (pcbs demo_three p) = 0x100 * word_of_int p"
  "sched_term demo_three = 0" "visible_term demo_three = 0"
  "VRAM_addr (terminals demo_three k) = 0xB9000 + 0x1000 * word_of_nat k"
  by (simp_all add: demo_three_def)

lemma demo_three_ok: "paging_ok demo_three"
  using demo_fs_ok paging_cong(1) [OF demo_three_paging] by (simp add: fs_ok_def)

theorem tick_switches_process_witness:
  "\<exists>s'. pit_handler demo_three = Some (Ret 0, s') \<and> switched demo_three s' \<and> sched_term s' = 1
    \<and> user_frame s' = 3 \<and> video_frame s' = 0xBA \<and> reg_esp s' = 0x200"
proof -
  have n: "next_term demo_three = 1" by (simp add: next_term_def)
  obtain s' where s': "pit_handler demo_three = Some (Ret 0, s')" "switched demo_three s'"
    using tick_switches_process [OF demo_three_ok, of 2] by (auto simp: n)
  moreover have "sched_term s' = 1" "user_frame s' = 3" "video_frame s' = 0xBA" "reg_esp s' = 0x200"
    using s'(2) by (auto simp: switched_def Let_def n frames_of_def page_of_def running_pid_def)
  ultimately show ?thesis by blast
qed



section \<open>A terminal's first tick\<close>

text \<open>The file system reads the same in two states whose kernel memory agrees.\<close>

lemma fs_views:
  assumes "agree_kernel (mem s) (mem s')" "fs s' = fs s" "fs_ok s" "paging_ok s'"
  shows "fs_ok s'" "lookup s' n = lookup s n" "program_file s d prog \<Longrightarrow> program_file s' d prog"
proof -
  have d: "dir_placed (fs s)" "names_end (mem s) (fs s)" using assms(3) by (simp_all add: fs_ok_def)
  show "fs_ok s'" using names_end_agree [OF assms(1) d] d(1) assms(2,4) by (simp add: fs_ok_def)
  have f: "find (\<lambda>i. dentry_name (mem s') (fs s) i = take 32 n) [0..num_direntries (fs s) - 1] =
      find (\<lambda>i. dentry_name (mem s) (fs s) i = take 32 n) [0..num_direntries (fs s) - 1]"
    using direntry_agree(3) [OF assms(1) d(1)] by (intro find_cong') auto
  show "lookup s' n = lookup s n"
  proof (cases "find (\<lambda>i. dentry_name (mem s) (fs s) i = take 32 n) [0..num_direntries (fs s) - 1]")
    case None
    then show ?thesis by (simp add: lookup_def assms(2) f)
  next
    case (Some i)
    then have "i \<in> set [0..num_direntries (fs s) - 1]" by (metis find_Some_iff nth_mem)
    then have "load_dentry (mem s') (direntry (fs s) i) = load_dentry (mem s) (direntry (fs s) i)"
      using direntry_agree(2) [OF assms(1) d(1)] by auto
    with Some show ?thesis by (simp add: lookup_def assms(2) f)
  qed
  assume "program_file s d prog"
  then have "inode_placed (mem s) (fs s) (inode_num d)" "28 \<le> length prog" "take 4 prog = elf_magic"
    "0x48000 + length prog \<le> 0x400000" "prog = file_content (mem s) (fs s) (inode_num d)"
    unfolding program_file_def by auto
  then show "program_file s' d prog"
    using file_agree [OF assms(1), of "fs s" "inode_num d"] unfolding program_file_def by (simp add: assms(2))
qed

lemma program_file_cli: "program_file (cli s) = program_file s"
  by (simp add: fun_eq_iff program_file_def)

lemma show_screen_kernel [simp]:
  "pcbs (show_screen k b c out s) = pcbs s" "pid_arr (show_screen k b c out s) = pid_arr s"
  "fs (show_screen k b c out s) = fs s" "esp0 (show_screen k b c out s) = esp0 s" "ss0 (show_screen k b c out s) = ss0 s"
  "reg_esp (show_screen k b c out s) = reg_esp s" "reg_ebp (show_screen k b c out s) = reg_ebp s"
  "stack_junk (show_screen k b c out s) = stack_junk s"
  by (simp_all add: show_screen_def with_cells_def upd_term_def)

lemma mem_show_screen: "mem (show_screen k b c out s) = put_cells b (cells c) (mem s)"
  by (simp add: show_screen_def with_cells_def)

lemma agree_put_cells:
  "length cs = 2000 \<Longrightarrow> b + 4000 \<le> 0x400000 \<Longrightarrow> agree_kernel m (put_cells b cs m)"
  by (simp add: agree_kernel_def put_cells_def)

lemma upd_term_upd_term: "upd_term k f (upd_term k g s) = upd_term k (\<lambda>t. f (g t)) s"
  by (simp add: upd_term_def)

lemma next_pid_upd_term: "next_pid (upd_term k f s) = next_pid s"
  by (simp add: next_pid_def free_pid_def)

lemma save_in_order:
  "(\<lambda>p. p\<lparr>pcb_esp := reg_esp s, pcb_ebp := reg_ebp s, tss_esp0 := esp0 s\<rparr>) = saved_context s"
  by (simp add: saved_context_def fun_eq_iff)

text \<open>
  What the tick leaves: process \<open>p\<close> with no arguments on terminal \<open>k\<close>, whose page is blank.
\<close>

definition shell_started :: "nat \<Rightarrow> int \<Rightarrow> byte list \<Rightarrow> 'a kernel_state_scheme \<Rightarrow> 'a kernel_state_scheme \<Rightarrow> bool" where
  "shell_started k p prog s s' \<longleftrightarrow>
     (let page = page_of (visible_term s) k
      in paging_ok s' \<and> user_frame s' = nat p + 1 \<and> video_frame s' = page \<and> fs s' = fs s \<and>
         mem s' = store_bytes ((nat p + 1) * 0x400000 + 0x48000) prog
           (put_cells (page * 0x1000) (replicate 2000 blank) (mem s)) \<and>
         sched_term s' = k \<and> visible_term s' = visible_term s \<and> pid_arr s' = (pid_arr s)(p - 1 := 1) \<and>
         terminals s' = (terminals s)(k := (terminals s k)\<lparr>status := 1, base_pid := p,
           screen_x := 0, screen_y := 0, active_pid := p\<rparr>) \<and>
         pid (pcbs s' p) = p \<and> parent_pid (pcbs s' p) = p \<and> fd_table_ok (pcbs s' p) \<and>
         (\<forall>i < 32. args (pcbs s' p) i = NUL) \<and> esp0 s' = word_of_int (get_active_kernel_stack_addr p) \<and>
         pcbs s' (running_pid s) = saved_context s (pcbs s (running_pid s)) \<and>
         (\<forall>q. q \<noteq> p \<longrightarrow> q \<noteq> running_pid s \<longrightarrow> pcbs s' q = pcbs s q) \<and> iflag s')"

lemma scheduler_starts_shell:
  assumes "fs_ok s" "sched_term s < 3" "k = next_term s" "status (terminals s k) = 0"
    and "free_pid s = Some i" "pid_arr s (running_pid s - 1) \<noteq> 0"
    and "lookup s (bytes_of ''shell'') = Some d" "program_file s d prog"
  shows "\<exists>s'. scheduler s = Some (ToUser (entry_point prog) 0x83FFFFC, s') \<and> shell_started k (int i + 1) prog s s'"
proof -
  define s1 where "s1 = map_video (s\<lparr>running_term := sched_term s, sched_term := k\<rparr>)"
  define p where "p = int i + 1"
  define s2 where "s2 = upd_pcb (running_pid s) (saved_context s)
      (upd_term k (\<lambda>t. t\<lparr>status := 1, base_pid := p, active_pid := p\<rparr>) s1)"
  have ok: "paging_ok s" using assms(1) by (simp add: fs_ok_def)
  have k: "k < 3" using assms(3) by simp
  let ?page = "page_of (visible_term s) k"
  have p1: "paging_ok s1" "video_frame s1 = ?page"
    unfolding s1_def using map_video_ok [of "s\<lparr>running_term := sched_term s, sched_term := k\<rparr>"] ok k by simp_all
  have k1: "terminals s1 = terminals s" "pcbs s1 = pcbs s" "sched_term s1 = k" "running_term s1 = sched_term s"
    "free_pid s1 = free_pid s" "reg_esp s1 = reg_esp s" "reg_ebp s1 = reg_ebp s" "esp0 s1 = esp0 s"
    "mem s1 = mem s" "fs s1 = fs s" "pid_arr s1 = pid_arr s" "visible_term s1 = visible_term s"
    by (simp_all add: s1_def free_pid_def)
  have p2: "paging_ok s2" "video_base s2 = ?page * 0x1000" "sched_term s2 = k" "mem s2 = mem s" "fs s2 = fs s"
    "pid_arr s2 = pid_arr s"
    using p1 k1 by (simp_all add: s2_def video_base_def)
  obtain out where c: "clear s2 = show_screen k (?page * 0x1000) blank_screen out s2"
    using clear_show [OF p2(1)] p2 by auto
  let ?s3 = "show_screen k (?page * 0x1000) blank_screen out s2"
  have pg: "?page * 0x1000 + 4000 \<le> 0x400000" using k by (simp add: page_of_def)
  have m3: "mem ?s3 = put_cells (?page * 0x1000) (replicate 2000 blank) (mem s)"
    by (simp add: mem_show_screen p2 blank_screen_def)
  then have a: "agree_kernel (mem s) (mem ?s3)" using agree_put_cells [OF _ pg] by simp
  have v: "fs_ok ?s3" "lookup ?s3 (bytes_of ''shell'') = Some d" "program_file ?s3 d prog"
    using fs_views [OF a _ assms(1)] p2 assms(7,8) by simp_all
  obtain arg where x: "execute (Some (arr_of (bytes_of ''shell''))) ?s3 =
      Some (start_program d (entry_point prog) arg (cli ?s3))" "\<forall>j < 32. arg j = NUL"
    using execute_checked [OF v(1) demo_command v(2,3)] by auto
  have "fs_ok (cli ?s3)" "program_file (cli ?s3) d prog" "free_pid (cli ?s3) = Some i"
    using v assms(5) p2 by (simp_all add: program_file_cli free_pid_def)
  then obtain s' where s': "start_program d (entry_point prog) arg (cli ?s3) = (ToUser (entry_point prog) 0x83FFFFC, s')"
    "process_started p arg prog (cli ?s3) s'"
    unfolding p_def by (rule start_program_file)
  have "next_pid s1 = p" using assms(5) k1 by (simp add: next_pid_def p_def)
  moreover have "(sched_term s + 1) mod 3 = k" using assms(3) by (simp add: next_term_def)
  moreover have ne: "sched_term s \<noteq> k" using assms(2,3) unfolding next_term_def by presburger
  ultimately have "scheduler s = execute (Some (arr_of (bytes_of ''shell''))) (clear s2)"
    using assms(4) k1 save_in_order [of s]
    by (simp add: scheduler_def Let_def upd_term_upd_term next_pid_upd_term s2_def running_pid_def
        flip: s1_def)
  with c x s' have "scheduler s = Some (ToUser (entry_point prog) 0x83FFFFC, s')" by simp
  moreover have "running_pid s \<noteq> p" using assms(6) free_pid_bound [OF assms(5)] by (auto simp: p_def)
  then have "shell_started k p prog s s'"
    using s'(2) x(2) assms(6) p1 k1 p2 m3
    unfolding shell_started_def process_started_def Let_def
    by (simp add: s2_def blank_screen_def)
  ultimately show ?thesis unfolding p_def by blast
qed


text \<open>
  The first time the scheduler comes to a terminal it starts a shell there: the shell takes the
  lowest free pid and is its own parent and the terminal's base process, the terminal's page is
  blanked with the cursor home, and the interrupted process's context is saved, so that it can be
  resumed later.
\<close>

theorem first_tick_starts_shell:
  assumes "fs_ok s" "sched_term s < 3" "k = next_term s" "status (terminals s k) = 0"
    and "free_pid s = Some i" "pid_arr s (running_pid s - 1) \<noteq> 0"
    and "lookup s (bytes_of ''shell'') = Some d" "program_file s d prog"
  shows "\<exists>s'. scheduler s = Some (ToUser (entry_point prog) 0x83FFFFC, s') \<and> shell_started k (int i + 1) prog s s'"
  using assms by (rule scheduler_starts_shell)

lemma demo_busy_terminals [simp]: "terminals demo_busy = demo_terminal" "sched_term demo_busy = 0" "visible_term demo_busy = 0"
  by (simp_all add: demo_busy_def demo_state_simps)

theorem first_tick_starts_shell_witness:
  "\<exists>s'. scheduler demo_busy = Some (ToUser 0x8048000 0x83FFFFC, s') \<and> base_pid (terminals s' 1) = 2 \<and> user_frame s' = 3"
proof -
  have "entry_point demo_prog = 0x8048000"
    by (simp add: entry_point_def load32_def demo_prog_def bytes32_def nth_append)
  moreover have "program_file demo_busy (load_dentry demo_mem 0x500040) demo_prog"
    "lookup demo_busy (bytes_of ''shell'') = Some (load_dentry demo_mem 0x500040)"
    using demo_program demo_lookup_shell by (simp_all add: demo_busy_simps)
  moreover have n: "1 = next_term demo_busy" by (simp add: next_term_def)
  moreover have "status (terminals demo_busy 1) = 0" by (simp add: demo_terminal_def zero_terminal_def)
  moreover have "pid_arr demo_busy (running_pid demo_busy - 1) \<noteq> 0" by (simp add: demo_busy_simps)
  ultimately obtain s' where "scheduler demo_busy = Some (ToUser 0x8048000 0x83FFFFC, s')"
    "shell_started 1 (int 1 + 1) demo_prog demo_busy s'"
    using first_tick_starts_shell [OF demo_busy_simps(1) _ n _ demo_busy_simps(9)] by (metis demo_busy_terminals(2) zero_less_numeral)
  then show ?thesis by (auto simp: shell_started_def Let_def)
qed

section \<open>Switching the visible terminal\<close>

text \<open>
  What a terminal shows and has typed, wherever the state keeps it: the visible terminal's page is
  the screen and its line is in the keyboard's buffer, the others have theirs in the backup page and
  the terminal's own buffer.
\<close>

definition term_view :: "nat \<Rightarrow> 'a kernel_state_scheme \<Rightarrow> byte list \<times> byte list \<times> int \<times> int \<times> int" where
  "term_view i s =
     (let t = terminals s i; vis = (i = visible_term s)
      in (load_bytes (mem s) (page_of (visible_term s) i * 0x1000) 0x1000,
          map (if vis then term_buffer s else read_buffer t) [0..<128],
          if vis then buffer_index s else uint (rb_idx t), screen_x t, screen_y t))"

definition backed_up :: "'a console_state_scheme \<Rightarrow> bool" where
  "backed_up s \<longleftrightarrow> (\<forall>i < 3. VRAM_addr (terminals s i) = 0xB9000 + 0x1000 * word_of_nat i)"

lemma backed_up_addr:
  assumes "backed_up s" "i < 3"
  shows "unat (VRAM_addr (terminals s i)) = 0xB9000 + 0x1000 * i"
proof -
  from assms(2) have "i = 0 \<or> i = 1 \<or> i = 2" by auto
  with assms show ?thesis by (auto simp: backed_up_def)
qed

lemma kernel_console_updates [simp]:
  "paging_of (s\<lparr>buffer_index := i\<rparr>) = paging_of s" "paging_of (s\<lparr>term_buffer := b\<rparr>) = paging_of s"
  by (simp_all add: paging_of_def)

lemmas buffer_index_paging [simp] = paging_cong [OF kernel_console_updates(1)]
lemmas term_buffer_paging [simp] = paging_cong [OF kernel_console_updates(2)]
lemmas visible_paging [simp] = paging_cong [OF kernel_paging_updates(3)]
lemmas next_terminal_paging [simp] = paging_cong [OF kernel_paging_updates(4)]

lemma screen_mapped_cong: "paging_of s = paging_of t \<Longrightarrow> screen_mapped s = screen_mapped t"
  by (simp add: screen_mapped_def paging_cong(1,4) [of s t])

lemma set_screen_page:
  "paging_ok s \<Longrightarrow> screen_mapped (flush_tlb (set_pte_frame 0xB8 0xB8 s))"
  by (simp add: screen_mapped_def paging_ok_flush paging_ok_video_frame frames_after_pte video_frames_def)

lemma set_field_back: "set_field f (get_field f w) (set_field f v w) = w"
  by (rule bit_word_eqI) (auto simp: get_field_def set_field_def bit_simps dest: bit_imp_le_length)

lemma restore_video_page:
  assumes "paging_of s' = paging_of (set_pte_frame 0xB8 0xB8 s)"
  shows "paging_of (set_pte_frame 0xB8 (get_field f_frame20 (page_table s 0xB8)) s') = paging_of s"
  using assms by (auto simp: paging_of_def set_pte_frame_def set_pte_def set_field_back)


text \<open>The state after a switch from the visible terminal to another, \<open>n\<close>.\<close>

definition switched_to :: "nat \<Rightarrow> 'a kernel_state_scheme \<Rightarrow> 'a kernel_state_scheme \<Rightarrow> bool" where
  "switched_to n s s' \<longleftrightarrow>
     (let v = visible_term s; screen = load_bytes (mem s) 0xB8000 0x1000;
          backup = load_bytes (mem s) (0xB9000 + 0x1000 * n) 0x1000
      in paging_of s' = paging_of s \<and> visible_term s' = n \<and> sched_term s' = sched_term s \<and>
         mem s' = store_bytes 0xB8000 backup (store_bytes (0xB9000 + 0x1000 * v) screen (mem s)) \<and>
         terminals s' = (terminals s)
           (v := (terminals s v)\<lparr>rb_idx := word_of_int (buffer_index s),
                read_buffer := copy_buffer (read_buffer (terminals s v)) (term_buffer s), r_flag := 0\<rparr>,
            n := (terminals s n)\<lparr>r_flag := 1\<rparr>) \<and>
         term_buffer s' = copy_buffer (term_buffer s) (read_buffer (terminals s n)) \<and>
         buffer_index s' = uint (rb_idx (terminals s n)) \<and>
         pcbs s' = pcbs s \<and> pid_arr s' = pid_arr s \<and> fs s' = fs s \<and> esp0 s' = esp0 s \<and>
         page_faults s' = page_faults s \<and> iflag s')"

lemma update_cursor_kernel [simp]:
  "pcbs (update_cursor s) = pcbs s" "pid_arr (update_cursor s) = pid_arr s" "fs (update_cursor s) = fs s"
  "esp0 (update_cursor s) = esp0 s" "term_buffer (update_cursor s) = term_buffer s"
  "buffer_index (update_cursor s) = buffer_index s"
  by (simp_all add: update_cursor_eq)

lemma upd_term_line [simp]:
  "term_buffer (upd_term k f s) = term_buffer s" "buffer_index (upd_term k f s) = buffer_index s"
  by (simp_all add: upd_term_def)

lemma cli_sti_line [simp]:
  "term_buffer (cli s) = term_buffer s" "buffer_index (cli s) = buffer_index s"
  "term_buffer (sti s) = term_buffer s" "buffer_index (sti s) = buffer_index s"
  by (simp_all add: cli_def sti_def)

lemma sti_iflag [simp]: "iflag (sti s)"
  by (simp add: sti_def)

lemma switch_terminal_ok:
  assumes "paging_ok s" "backed_up s" "visible_term s < 3" "n < 3" "n \<noteq> visible_term s"
  shows "switched_to n s (switch_terminal n s)"
proof -
  let ?v = "visible_term s"
  define s2 where "s2 = flush_tlb (set_pte_frame 0xB8 0xB8 ((cli s)\<lparr>next_terminal := n\<rparr>))"
  define s4 where "s4 = upd_term ?v (\<lambda>t. t\<lparr>read_buffer := copy_buffer (read_buffer t) (term_buffer s)\<rparr>)
      (upd_term ?v (\<lambda>t. t\<lparr>rb_idx := word_of_int (buffer_index s)\<rparr>) s2)"
  have s2: "screen_mapped s2" unfolding s2_def by (rule set_screen_page) (simp add: assms(1))
  have k2: "terminals s2 = terminals s" "visible_term s2 = ?v" "term_buffer s2 = term_buffer s"
    "buffer_index s2 = buffer_index s"
    by (simp_all add: s2_def)
  from s2 have m4: "screen_mapped s4" using screen_mapped_cong [of s4 s2] by (simp add: s4_def)
  have k4: "mem s4 = mem s" "terminals s4 = (terminals s)(?v := (terminals s ?v)
      \<lparr>rb_idx := word_of_int (buffer_index s), read_buffer := copy_buffer (read_buffer (terminals s ?v)) (term_buffer s)\<rparr>)"
    "visible_term s4 = ?v" "term_buffer s4 = term_buffer s" "sched_term s4 = sched_term s"
    "pcbs s4 = pcbs s" "pid_arr s4 = pid_arr s" "fs s4 = fs s" "esp0 s4 = esp0 s" "page_faults s4 = page_faults s"
    by (simp_all add: s4_def s2_def)
  have va: "unat (VRAM_addr (terminals s4 ?v)) = 0xB9000 + 0x1000 * ?v"
    "unat (VRAM_addr (terminals s4 n)) = 0xB9000 + 0x1000 * n"
    using backed_up_addr [OF assms(2)] assms(3-5) by (simp_all add: k4)
  define m1 where "m1 = store_bytes (0xB9000 + 0x1000 * ?v) (load_bytes (mem s) 0xB8000 0x1000) (mem s)"
  define m2 where "m2 = store_bytes 0xB8000 (load_bytes (mem s) (0xB9000 + 0x1000 * n) 0x1000) m1"
  have c1: "memcpy vread vwrite (0xB9000 + 0x1000 * ?v) 0xB8000 0x1000 s4 = s4\<lparr>mem := m1\<rparr>"
    using memcpy_video_page [OF m4, of "0xB9000 + 0x1000 * ?v" "0xB8000"] assms(3) by (simp add: k4 m1_def)
  define s5 where "s5 = s4\<lparr>mem := m1, buffer_index := uint (rb_idx (terminals s n))\<rparr>"
  have m5: "screen_mapped s5" using m4 screen_mapped_cong [of s5 s4] by (simp add: s5_def)
  have "load_bytes m1 (0xB9000 + 0x1000 * n) 0x1000 = load_bytes (mem s) (0xB9000 + 0x1000 * n) 0x1000"
    unfolding m1_def using assms(3-5) by (intro load_store_disjoint) auto
  then have c2: "memcpy vread vwrite 0xB8000 (0xB9000 + 0x1000 * n) 0x1000 s5 = s5\<lparr>mem := m2\<rparr>"
    using memcpy_video_page [OF m5, of "0xB8000" "0xB9000 + 0x1000 * n"] assms(4) by (simp add: m2_def s5_def)
  define s6 where "s6 = upd_term n (\<lambda>t. t\<lparr>r_flag := 1\<rparr>) (upd_term ?v (\<lambda>t. t\<lparr>r_flag := 0\<rparr>)
      (s5\<lparr>mem := m2, term_buffer := copy_buffer (term_buffer s) (read_buffer (terminals s n))\<rparr>))"
  define s7 where "s7 = update_cursor (s6\<lparr>visible_term := n\<rparr>)"
  let ?temp = "get_field f_frame20 (page_table s 0xB8)"
  have "page_table (cli s) = page_table s" by (simp add: cli_def)
  then have eq: "switch_terminal n s = sti (flush_tlb (set_pte_frame 0xB8 ?temp s7))"
    using assms(5) va c1 c2 k4 k2
    unfolding switch_terminal_def s7_def s6_def Let_def
    by (simp add: s5_def flip: s2_def s4_def)
  have "paging_of s7 = paging_of s2"
    by (simp add: s7_def s6_def s5_def s4_def)
  moreover have "paging_of s2 = paging_of (set_pte_frame 0xB8 0xB8 s)"
    by (simp add: s2_def) (simp add: paging_of_def set_pte_frame_def set_pte_def cli_def)
  ultimately have "paging_of (switch_terminal n s) = paging_of s"
    unfolding eq by (simp add: restore_video_page)
  then show ?thesis
    unfolding switched_to_def Let_def
    by (simp add: eq s7_def s6_def s5_def k4 assms(5) m2_def m1_def)
qed


lemma load_page_other:
  "\<lbrakk>i \<noteq> j; length bs = 0x1000\<rbrakk> \<Longrightarrow>
    load_bytes (store_bytes (0xB9000 + 0x1000 * i) bs m) (0xB9000 + 0x1000 * j) 0x1000 = load_bytes m (0xB9000 + 0x1000 * j) 0x1000"
  "length bs = 0x1000 \<Longrightarrow>
    load_bytes (store_bytes 0xB8000 bs m) (0xB9000 + 0x1000 * j) 0x1000 = load_bytes m (0xB9000 + 0x1000 * j) 0x1000"
  by (rule load_store_disjoint, force)+

lemma load_store_page: "length bs = n \<Longrightarrow> load_bytes (store_bytes a bs m) a n = bs"
  by auto

lemma copy_buffer_line: "map (copy_buffer d b) [0..<128] = map b [0..<128]"
  by (simp add: copy_buffer_def)

lemma page_of_simps: "page_of v v * 0x1000 = 0xB8000" "i \<noteq> v \<Longrightarrow> page_of v i * 0x1000 = 0xB9000 + 0x1000 * i"
  by (simp_all add: page_of_def)

lemma switched_to_views:
  assumes "switched_to n s s'" "n \<noteq> visible_term s" "0 \<le> buffer_index s" "buffer_index s < 256" "i < 3" "n < 3" "visible_term s < 3"
  shows "term_view i s' = term_view i s"
proof -
  have b: "uint (word_of_int (buffer_index s) :: byte) = buffer_index s"
    using assms(3,4) by (simp add: unsigned_of_int take_bit_int_eq_self)
  consider "i = visible_term s" | "i = n" | "i \<noteq> visible_term s" "i \<noteq> n" by blast
  then show ?thesis
  proof cases
    case 1
    with assms(1,2) b show ?thesis
      by (simp add: term_view_def Let_def switched_to_def page_of_simps load_page_other load_store_page copy_buffer_line)
  next
    case 2
    with assms(1,2) show ?thesis
      by (simp add: term_view_def Let_def switched_to_def page_of_simps load_page_other load_store_page copy_buffer_line)
  next
    case 3
    with assms(1,2) show ?thesis
      by (simp add: term_view_def Let_def switched_to_def page_of_simps load_page_other)
  qed
qed

text \<open>
  C20. Switching the visible terminal changes no terminal: every terminal keeps the contents of its
  page, its cursor and the line typed so far, whether they are on screen and in the keyboard's buffer
  or in the backup page and the terminal's own buffer.  The scheduled process, the page tables and
  all control blocks are untouched.
\<close>

theorem switch_keeps_terminals:
  assumes "paging_ok s" "backed_up s" "visible_term s < 3" "n < 3" "0 \<le> buffer_index s" "buffer_index s < 256"
  shows "visible_term (switch_terminal n s) = n \<and> (\<forall>i < 3. term_view i (switch_terminal n s) = term_view i s)
    \<and> paging_of (switch_terminal n s) = paging_of s \<and> sched_term (switch_terminal n s) = sched_term s
    \<and> pcbs (switch_terminal n s) = pcbs s \<and> backed_up (switch_terminal n s) \<and> iflag (switch_terminal n s)"
proof (cases "n = visible_term s")
  case True
  then have "switch_terminal n s = sti ((cli s)\<lparr>next_terminal := n\<rparr>)"
    by (simp add: switch_terminal_def Let_def)
  with True assms(2) show ?thesis
    by (simp add: sti_def cli_def term_view_def Let_def backed_up_def paging_of_def)
next
  case False
  note sw = switch_terminal_ok [OF assms(1-4) False]
  from sw assms(2) False show ?thesis
    using switched_to_views [OF sw False assms(5,6) _ assms(4,3)]
    by (simp add: switched_to_def Let_def backed_up_def)
qed

lemma demo_backed_up: "backed_up demo_three"
  by (simp add: backed_up_def)

theorem switch_keeps_terminals_witness:
  "visible_term (switch_terminal 2 (switch_terminal 1 demo_three)) = 2
    \<and> term_view 1 (switch_terminal 1 demo_three) = term_view 1 demo_three"
proof -
  have b: "buffer_index demo_three = 0" by (simp add: demo_three_def demo_state_def paging_init_simps)
  have 1: "visible_term (switch_terminal 1 demo_three) = 1" "term_view 1 (switch_terminal 1 demo_three) = term_view 1 demo_three"
    using switch_keeps_terminals [OF demo_three_ok demo_backed_up, of 1] b by simp_all
  have "switched_to 2 (switch_terminal 1 demo_three) (switch_terminal 2 (switch_terminal 1 demo_three))"
    if "paging_ok (switch_terminal 1 demo_three)" "backed_up (switch_terminal 1 demo_three)"
    using that 1 by (intro switch_terminal_ok) simp_all
  moreover have "paging_ok (switch_terminal 1 demo_three)" "backed_up (switch_terminal 1 demo_three)"
    using switch_keeps_terminals [OF demo_three_ok demo_backed_up, of 1] b demo_three_ok paging_cong(1) by auto
  ultimately show ?thesis using 1 by (simp add: switched_to_def Let_def)
qed

text \<open>
  The switch puts the video page back where it was, not where the scheduled terminal's output now
  belongs: when the scheduled terminal is the one that leaves or comes to the screen, its output goes
  to the other terminal's page until the next tick maps the page again.
\<close>

theorem switch_leaves_page_mapped:
  assumes "paging_ok s" "backed_up s" "visible_term s < 3" "n < 3" "n \<noteq> visible_term s"
    and "sched_term s = visible_term s \<or> sched_term s = n"
    and "video_frame s = page_of (visible_term s) (sched_term s)"
  shows "video_frame (switch_terminal n s) \<noteq> page_of (visible_term (switch_terminal n s)) (sched_term (switch_terminal n s))"
proof -
  have "switched_to n s (switch_terminal n s)" by (rule switch_terminal_ok) (use assms in auto)
  then have "paging_of (switch_terminal n s) = paging_of s" "visible_term (switch_terminal n s) = n"
    "sched_term (switch_terminal n s) = sched_term s"
    by (simp_all add: switched_to_def Let_def)
  with assms(5-7) paging_cong(4) [of "switch_terminal n s" s] show ?thesis
    by (auto simp: page_of_def)
qed

theorem switch_leaves_page_mapped_witness:
  "video_frame (switch_terminal 1 demo_three) \<noteq> page_of 1 0"
proof -
  have f: "video_frame demo_three = 0xB8" using paging_cong(4) [OF demo_three_paging] by (simp add: demo_state_simps)
  have "switched_to 1 demo_three (switch_terminal 1 demo_three)"
    by (rule switch_terminal_ok) (simp_all add: demo_three_ok demo_backed_up)
  then have "visible_term (switch_terminal 1 demo_three) = 1" "sched_term (switch_terminal 1 demo_three) = 0"
    by (simp_all add: switched_to_def Let_def)
  then show ?thesis
    using switch_leaves_page_mapped [OF demo_three_ok demo_backed_up, of 1] f by (simp add: page_of_def)
qed


section \<open>Initialisation\<close>

definition fresh_terminal :: "nat \<Rightarrow> terminal_t \<Rightarrow> bool" where
  "fresh_terminal i t \<longleftrightarrow> screen_x t = 0 \<and> screen_y t = 0 \<and> num_pids t = 0 \<and> rb_idx t = 0 \<and>
     counter_freqRate t = 512 \<and> rtc_counter t = 0 \<and> rtc_interrupt_occured t = 0 \<and>
     VRAM_addr t = 0xB9000 + 0x1000 * word_of_nat i \<and> (\<forall>j < 128. read_buffer t j = NUL)"

definition unused_terminal :: "terminal_t \<Rightarrow> bool" where
  "unused_terminal t \<longleftrightarrow> status t = 0 \<and> r_flag t = 0 \<and> active_pid t = 0"

definition init_inv :: "'a console_state_scheme \<Rightarrow> nat \<Rightarrow> 'a console_state_scheme \<Rightarrow> bool" where
  "init_inv s0 i s \<longleftrightarrow> paging_of s = paging_of s0 \<and> sched_term s = sched_term s0 \<and>
     page_faults s = page_faults s0 \<and>
     mem s = (if i = 0 then mem s0 else put_cells (video_base s0) (replicate 2000 blank) (mem s0)) \<and>
     (\<forall>j < i. fresh_terminal j (terminals s j) \<and> unused_terminal (terminals s j))"

lemma put_cells_twice: "length cs = length ds \<Longrightarrow> put_cells b cs (put_cells b ds m) = put_cells b cs m"
  by (rule ext) (simp add: put_cells_def)

lemma vram_start: "(0xB9 + word_of_nat i) * 4096 = (0xB9000 + 0x1000 * word_of_nat i :: u32)"
  by (simp add: algebra_simps)

lemma init_terminal_step:
  assumes "paging_ok s0" "init_inv s0 i s"
  shows "init_inv s0 (Suc i)
    (let s = upd_term i (init_terminal i) s;
         s = clear s
     in upd_term i (\<lambda>t. t\<lparr>read_buffer := (\<lambda>j. if j < 128 then NUL else read_buffer t j)\<rparr>) s)"
proof -
  let ?s = "upd_term i (init_terminal i) s"
  have p: "paging_of ?s = paging_of s0" using assms(2) by (simp add: init_inv_def)
  then have ok: "paging_ok ?s" "video_base ?s = video_base s0"
    using paging_cong(1,4) [OF p] assms(1) by (simp_all add: video_base_def)
  obtain out where c: "clear ?s = show_screen (sched_term ?s) (video_base s0) blank_screen out ?s"
    using clear_show [OF ok(1)] ok(2) by auto
  from assms(2) p show ?thesis
    unfolding Let_def c
    by (auto simp: init_inv_def mem_show_screen put_cells_twice blank_screen_def fresh_terminal_def
        unused_terminal_def init_terminal_def vram_start less_Suc_eq)
qed

lemma terminal_init_inv:
  assumes "paging_ok s"
  shows "init_inv s 3 (fold (\<lambda>idx s.
     let s = upd_term idx (init_terminal idx) s;
         s = clear s
     in upd_term idx (\<lambda>t. t\<lparr>read_buffer := (\<lambda>i. if i < 128 then NUL else read_buffer t i)\<rparr>) s) [0..<3] s)"
  by (rule fold_upt_inv [where P = "init_inv s"])
    (simp add: init_inv_def, rule init_terminal_step [OF assms])

text \<open>
  terminal_init blanks the screen and leaves three fresh terminals with their backup pages and
  empty lines, of which only the first is started, visible and scheduled, as process 1.
\<close>

lemma terminal_init_state:
  assumes "paging_ok s"
  shows "(\<forall>i < 3. fresh_terminal i (terminals (terminal_init s) i)) \<and> backed_up (terminal_init s)
    \<and> (\<forall>i \<in> {1, 2}. unused_terminal (terminals (terminal_init s) i))
    \<and> status (terminals (terminal_init s) 0) = 1 \<and> active_pid (terminals (terminal_init s) 0) = 1
    \<and> base_pid (terminals (terminal_init s) 0) = 1 \<and> r_flag (terminals (terminal_init s) 0) = 1
    \<and> visible_term (terminal_init s) = 0 \<and> sched_term (terminal_init s) = 0 \<and> running_term (terminal_init s) = 0
    \<and> mem (terminal_init s) = put_cells (video_base s) (replicate 2000 blank) (mem s)
    \<and> paging_of (terminal_init s) = paging_of s \<and> page_faults (terminal_init s) = page_faults s"
proof -
  note i = terminal_init_inv [OF assms]
  then have "fresh_terminal j (terminals (terminal_init s) j)" if "j < 3" for j
  proof -
    from that have "j = 0 \<or> j = 1 \<or> j = 2" by auto
    with i show ?thesis by (auto simp: terminal_init_def Let_def init_inv_def fresh_terminal_def)
  qed
  moreover have "unused_terminal (terminals (terminal_init s) 1)" "unused_terminal (terminals (terminal_init s) 2)"
    using i by (auto simp: terminal_init_def Let_def init_inv_def unused_terminal_def)
  moreover have "backed_up (terminal_init s)"
    using calculation(1) by (simp add: backed_up_def fresh_terminal_def)
  ultimately show ?thesis
    using i by (simp add: terminal_init_def Let_def init_inv_def)
qed

end
