(* ===== verification/Rtc.thy ===== *)
theory Rtc
  imports Terminal
begin

text \<open>
  The real-time clock (rtc.c).  The hardware interrupts at 1024 Hz; every terminal has a virtual
  clock, a counter of interrupts and the number of them in a virtual period.

  rtc_read waits for an interrupt in a loop without a body.  What happens while the processor loops
  is not in the code of the loop: the interrupts taken between two tests are an argument of the
  model, \<open>irq n\<close> being what they do between the \<open>n\<close>-th test and the next one.
\<close>

section \<open>Waiting for an interrupt\<close>

partial_function (option) wait_until ::
  "('s \<Rightarrow> bool) \<Rightarrow> (nat \<Rightarrow> 's \<Rightarrow> 's) \<Rightarrow> nat \<Rightarrow> 's \<Rightarrow> 's option" where
  "wait_until ready irq n s = (if ready s then Some s else wait_until ready irq (Suc n) (irq n s))"

text \<open>The state after the interrupts from the \<open>n\<close>-th test on to \<open>k\<close> tests later.\<close>

primrec after_irqs :: "(nat \<Rightarrow> 's \<Rightarrow> 's) \<Rightarrow> nat \<Rightarrow> nat \<Rightarrow> 's \<Rightarrow> 's" where
  "after_irqs irq n 0 s = s"
| "after_irqs irq n (Suc k) s = after_irqs irq (Suc n) k (irq n s)"

text \<open>The loop returns when some test succeeds, in the state of the first one that does.\<close>

lemma wait_until_first:
  assumes "ready (after_irqs irq n k s)" "\<And>j. j < k \<Longrightarrow> \<not> ready (after_irqs irq n j s)"
  shows "wait_until ready irq n s = Some (after_irqs irq n k s)"
  using assms
proof (induction k arbitrary: n s)
  case 0
  then show ?case by (subst wait_until.simps) simp
next
  case (Suc k)
  have "\<not> ready s" using Suc.prems(2) [of 0] by simp
  moreover have "\<not> ready (after_irqs irq (Suc n) j (irq n s))" if "j < k" for j
    using Suc.prems(2) [of "Suc j"] that by simp
  then have "wait_until ready irq (Suc n) (irq n s) = Some (after_irqs irq (Suc n) k (irq n s))"
    using Suc.prems(1) by (intro Suc.IH) simp_all
  ultimately show ?case by (subst wait_until.simps) simp
qed

lemma wait_until_ready: "ready s \<Longrightarrow> wait_until ready irq n s = Some s"
  by (subst wait_until.simps) simp

lemma wait_until_result: "wait_until ready irq n s = Some s' \<Longrightarrow> ready s'"
  by (rule wait_until.raw_induct [where P = "\<lambda>ready irq n s s'. ready s'"]) (auto split: if_splits)

section \<open>The code\<close>

definition rtc_init :: "device \<Rightarrow> 'a pic_state_scheme \<Rightarrow> 'a pic_state_scheme" where
  "rtc_init dev s =
     (let s = outb 0x8A 0x70 s;
          (prev, s) = inb dev 0x71 s;
          s = outb 0x8B 0x70 s;
          s = outb (prev OR 0x40) 0x71 s
      in enable_irq dev 8 s)"

definition rtc_handler :: "device \<Rightarrow> 'a console_state_scheme \<Rightarrow> 'a console_state_scheme" where
  "rtc_handler dev s =
     (let s = upd_term 0 (\<lambda>t. t\<lparr>rtc_counter := rtc_counter t + 1\<rparr>) s;
          s = upd_term 1 (\<lambda>t. t\<lparr>rtc_counter := rtc_counter t + 1\<rparr>) s;
          s = upd_term 2 (\<lambda>t. t\<lparr>rtc_counter := rtc_counter t + 1\<rparr>) s;
          k = sched_term s;
          s = (if rtc_counter (terminals s k) \<ge> counter_freqRate (terminals s k)
               then upd_term k (\<lambda>t. t\<lparr>rtc_interrupt_occured := 1, rtc_counter := 0\<rparr>) s
               else upd_term k (\<lambda>t. t\<lparr>rtc_interrupt_occured := 0\<rparr>) s);
          s = outb 0x8C 0x70 s;
          s = snd (inb dev 0x71 s)
      in send_eoi 8 s)"

definition rtc_open :: "'a console_state_scheme \<Rightarrow> int \<times> 'a console_state_scheme" where
  "rtc_open s = (0, upd_term (sched_term s) (\<lambda>t. t\<lparr>counter_freqRate := 1024 div 2\<rparr>) s)"

definition rtc_close :: "'a console_state_scheme \<Rightarrow> int \<times> 'a console_state_scheme" where
  "rtc_close s = (0, s)"

text \<open>
  \<open>buf\<close> is null or the 32-bit integer it points at.  The comparison of the sizes of a pointer and an
  integer never fails on a 32-bit machine.  \<open>(*buf - 1) & 1\<close> is zero for the odd values.
\<close>

definition rtc_write :: "int option \<Rightarrow> 'a console_state_scheme \<Rightarrow> int \<times> 'a console_state_scheme" where
  "rtc_write buf s =
     (case buf of None \<Rightarrow> (-1, s)
      | Some frequency \<Rightarrow>
        if frequency < 2 \<or> frequency > 1024 then (-1, s)
        else if (frequency - 1) mod 2 = 0 then (-1, s)
        else
          let s = upd_term (sched_term s) (\<lambda>t. t\<lparr>counter_freqRate := 1024 div frequency\<rparr>) s;
              s = upd_term (sched_term s) (\<lambda>t. t\<lparr>rtc_counter := 0\<rparr>) s
          in (0, s))"

text \<open>The loop tests the flag of the terminal that is scheduled at the moment of the test.\<close>

definition rtc_read :: "(nat \<Rightarrow> 'a console_state_scheme \<Rightarrow> 'a console_state_scheme) \<Rightarrow>
    'a console_state_scheme \<Rightarrow> (int \<times> 'a console_state_scheme) option" where
  "rtc_read irq s = do {
     s \<leftarrow> wait_until (\<lambda>s. rtc_interrupt_occured (terminals s (sched_term s)) = 1) irq 0 s;
     Some (0, upd_term (sched_term s) (\<lambda>t. t\<lparr>rtc_interrupt_occured := 0\<rparr>) s)
   }"

section \<open>The virtual clock\<close>

lemma rtc_handler_term:
  assumes "sched_term s < 3"
  shows "sched_term (rtc_handler dev s) = sched_term s"
    and "terminals (rtc_handler dev s) (sched_term s) =
      (let t = terminals s (sched_term s) in
       if rtc_counter t + 1 \<ge> counter_freqRate t then t\<lparr>rtc_interrupt_occured := 1, rtc_counter := 0\<rparr>
       else t\<lparr>rtc_interrupt_occured := 0, rtc_counter := rtc_counter t + 1\<rparr>)"
proof -
  show "sched_term (rtc_handler dev s) = sched_term s"
    by (simp add: rtc_handler_def Let_def) (simp add: outb_def inb_def)
  from assms have "sched_term s = 0 \<or> sched_term s = 1 \<or> sched_term s = 2" by auto
  then show "terminals (rtc_handler dev s) (sched_term s) =
      (let t = terminals s (sched_term s) in
       if rtc_counter t + 1 \<ge> counter_freqRate t then t\<lparr>rtc_interrupt_occured := 1, rtc_counter := 0\<rparr>
       else t\<lparr>rtc_interrupt_occured := 0, rtc_counter := rtc_counter t + 1\<rparr>)"
    by (elim disjE; simp add: rtc_handler_def Let_def; simp add: outb_def inb_def)
qed


definition clock_at :: "int \<Rightarrow> int \<Rightarrow> terminal_t \<Rightarrow> bool" where
  "clock_at p c t \<longleftrightarrow> counter_freqRate t = p \<and> rtc_counter t = c"

lemma mod_step: "(0 :: int) < p \<Longrightarrow> (if n mod p + 1 \<ge> p then 0 else n mod p + 1) = (n + 1) mod p"
proof -
  assume p: "0 < p"
  have m: "(n + 1) mod p = (n mod p + 1) mod p" by (simp add: mod_add_left_eq)
  have b: "0 \<le> n mod p" "n mod p < p" using p by simp_all
  show ?thesis
  proof (cases "n mod p + 1 = p")
    case True
    then show ?thesis using m by simp
  next
    case False
    with b have "n mod p + 1 < p" by simp
    with b m show ?thesis by simp
  qed
qed

lemma rtc_handler_clock:
  assumes "sched_term s < 3" "0 < p" "clock_at p (c mod p) (terminals s (sched_term s))"
  shows "clock_at p ((c + 1) mod p) (terminals (rtc_handler dev s) (sched_term s))
    \<and> rtc_interrupt_occured (terminals (rtc_handler dev s) (sched_term s)) = (if (c + 1) mod p = 0 then 1 else 0)"
proof -
  have "c mod p + 1 \<ge> p \<longleftrightarrow> (c + 1) mod p = 0"
    using mod_step [OF assms(2), of c] pos_mod_sign [OF assms(2), of c] by (auto split: if_splits)
  with rtc_handler_term(2) [OF assms(1), of dev] assms(3) mod_step [OF assms(2), of c] show ?thesis
    by (auto simp: clock_at_def Let_def)
qed

lemma rtc_ticks_sched: "sched_term s < 3 \<Longrightarrow> sched_term ((rtc_handler dev ^^ n) s) = sched_term s"
  by (induction n) (simp_all add: rtc_handler_term(1))

lemma rtc_ticks_clock:
  assumes "sched_term s < 3" "0 < p" "clock_at p (c mod p) (terminals s (sched_term s))"
  shows "clock_at p ((c + int n) mod p) (terminals ((rtc_handler dev ^^ n) s) (sched_term s))
    \<and> (0 < n \<longrightarrow> rtc_interrupt_occured (terminals ((rtc_handler dev ^^ n) s) (sched_term s))
         = (if (c + int n) mod p = 0 then 1 else 0))"
proof (induction n)
  case 0
  with assms(3) show ?case by simp
next
  case (Suc n)
  let ?s = "(rtc_handler dev ^^ n) s"
  have t: "sched_term ?s = sched_term s" using rtc_ticks_sched [OF assms(1)] .
  have "clock_at p ((c + int n + 1) mod p) (terminals (rtc_handler dev ?s) (sched_term ?s))
    \<and> rtc_interrupt_occured (terminals (rtc_handler dev ?s) (sched_term ?s)) = (if (c + int n + 1) mod p = 0 then 1 else 0)"
    by (rule rtc_handler_clock) (use Suc assms(1,2) t in auto)
  with t show ?case by (simp add: algebra_simps)
qed

lemma rtc_write_ok:
  "rtc_write (Some f) s = (0, s') \<Longrightarrow> 2 \<le> f \<and> f \<le> 1024 \<and> even f \<and>
     s' = upd_term (sched_term s) (\<lambda>t. t\<lparr>counter_freqRate := 1024 div f, rtc_counter := 0\<rparr>) s"
  by (auto simp: rtc_write_def Let_def upd_term_upd_term even_iff_mod_2_eq_zero split: if_splits) presburger

lemma period_positive: "2 \<le> f \<Longrightarrow> f \<le> 1024 \<Longrightarrow> (0 :: int) < 1024 div f"
  using zdiv_mono2 [of 1024 f 1024] by simp

text \<open>
  C22. After a program has set frequency \<open>f\<close>, its virtual clock ticks every \<open>1024 div f\<close>-th hardware
  interrupt: while the terminal stays scheduled, its flag is set after the \<open>n\<close>-th interrupt exactly
  when the period divides \<open>n\<close>, and its counter is the position in the period.
\<close>

theorem virtual_clock_period:
  assumes "sched_term s < 3" "rtc_write (Some f) s = (0, s0)" "t = terminals ((rtc_handler dev ^^ n) s0) (sched_term s)"
  shows "rtc_counter t = int n mod (1024 div f)
    \<and> (0 < n \<longrightarrow> rtc_interrupt_occured t = (if (1024 div f) dvd int n then 1 else 0))"
proof -
  note w = rtc_write_ok [OF assms(2)]
  then have "0 < 1024 div f" using period_positive by simp
  moreover have "clock_at (1024 div f) (0 mod (1024 div f)) (terminals s0 (sched_term s0))" "sched_term s0 = sched_term s"
    using w by (auto simp: clock_at_def)
  ultimately show ?thesis
    using rtc_ticks_clock [of s0 "1024 div f" 0 n dev] assms(1,3)
    by (simp add: clock_at_def dvd_eq_mod_eq_0)
qed

theorem virtual_clock_period_witness:
  "rtc_interrupt_occured (terminals ((rtc_handler (\<lambda>_ _. 0) ^^ 64) (snd (rtc_write (Some 32) boot_console_state))) 0) = 1"
proof -
  have "rtc_write (Some 32) boot_console_state = (0, snd (rtc_write (Some 32) boot_console_state))"
    by (simp add: rtc_write_def Let_def)
  from virtual_clock_period [OF _ this refl, where n = 64 and dev = "\<lambda>_ _. 0"] show ?thesis by (simp add: boot_console)
qed

text \<open>
  rtc_write accepts exactly the even frequencies from 2 to 1024, powers of two or not; any other
  value, and a null pointer, is refused without an effect.
\<close>

theorem rtc_write_accepts_even:
  "rtc_write b s = (case b of
      Some f \<Rightarrow> if 2 \<le> f \<and> f \<le> 1024 \<and> even f
        then (0, upd_term (sched_term s) (\<lambda>t. t\<lparr>counter_freqRate := 1024 div f, rtc_counter := 0\<rparr>) s) else (-1, s)
    | None \<Rightarrow> (-1, s))"
proof -
  have "(f - 1) mod 2 = 0 \<longleftrightarrow> odd f" for f :: int by presburger
  then show ?thesis by (simp add: rtc_write_def Let_def upd_term_upd_term split: option.split)
qed

section \<open>Waiting for the clock\<close>

lemma after_irqs_const: "after_irqs (\<lambda>_. h) n k s = (h ^^ k) s"
  by (induction k arbitrary: n s) (simp_all add: funpow_swap1)

text \<open>
  C23. rtc_read returns: when only clock interrupts come while it waits, it returns 0 at the end of the
  running virtual period, not before, and leaves the flag clear.
\<close>

theorem rtc_read_waits_one_period:
  assumes "sched_term s < 3" "t = terminals s (sched_term s)" "rtc_interrupt_occured t = 0"
    and "0 \<le> rtc_counter t" "rtc_counter t < counter_freqRate t"
    and "k = nat (counter_freqRate t - rtc_counter t)"
  shows "rtc_read (\<lambda>_. rtc_handler dev) s =
      Some (0, upd_term (sched_term s) (\<lambda>t. t\<lparr>rtc_interrupt_occured := 0\<rparr>) ((rtc_handler dev ^^ k) s))"
proof -
  let ?p = "counter_freqRate t" and ?c = "rtc_counter t"
  have p: "0 < ?p" using assms(4,5) by simp
  have c: "clock_at ?p (?c mod ?p) (terminals s (sched_term s))"
    using assms(2,4,5) by (simp add: clock_at_def)
  note ticks = rtc_ticks_clock [OF assms(1) p c, of _ dev]
  let ?ready = "\<lambda>s. rtc_interrupt_occured (terminals s (sched_term s)) = 1"
  have "?c + int k = ?p" "0 < k" using assms(4-6) by auto
  then have "?ready ((rtc_handler dev ^^ k) s)"
    using ticks [of k] by (simp add: rtc_ticks_sched [OF assms(1)])
  moreover have "\<not> ?ready ((rtc_handler dev ^^ j) s)" if "j < k" for j
  proof (cases "j = 0")
    case True
    with assms(2,3) show ?thesis by simp
  next
    case False
    have "0 < ?c + int j" "?c + int j < ?p" using that False assms(4-6) by auto
    then show ?thesis using ticks [of j] False by (simp add: rtc_ticks_sched [OF assms(1)])
  qed
  ultimately have "wait_until ?ready (\<lambda>_. rtc_handler dev) 0 s = Some ((rtc_handler dev ^^ k) s)"
    using wait_until_first [of ?ready "\<lambda>_. rtc_handler dev" 0 k s] by (simp add: after_irqs_const)
  then show ?thesis by (simp add: rtc_read_def rtc_ticks_sched [OF assms(1)])
qed

definition clock_demo :: console_state where
  "clock_demo = snd (rtc_write (Some 256) boot_console_state)"

theorem rtc_read_waits_one_period_witness:
  "rtc_read (\<lambda>_. rtc_handler (\<lambda>_ _. 0)) clock_demo =
     Some (0, upd_term 0 (\<lambda>t. t\<lparr>rtc_interrupt_occured := 0\<rparr>) ((rtc_handler (\<lambda>_ _. 0) ^^ 4) clock_demo))"
  using rtc_read_waits_one_period [of clock_demo _ 4 "\<lambda>_ _. 0"]
  by (simp add: clock_demo_def rtc_write_def Let_def boot_console zero_terminal_def)

end
