(* ===== verification/Keyboard.thy ===== *)
theory Keyboard
  imports Rtc
begin

text \<open>
  The keyboard and the terminal driver (keyboard.c): the interrupt handler with its line editor, and
  the read and write functions of the stdin and stdout descriptors.

  The line is \<open>term_buffer\<close>, an array of 128 bytes with \<open>buffer_index\<close> the number typed.  The model's
  array has no end: index 128, which the code writes in one case and may read, is the byte after the
  array.  The handler's early returns are the branches of nested conditionals; the parts of the
  handler have a definition each, in the order of the code.
\<close>

section \<open>Scan codes\<close>

definition scan_to_ascii :: carray where
  "scan_to_ascii = arr_of ([0, 0] @ bytes_of ''1234567890-='' @ [0x08, 0x09] @ bytes_of ''qwertyuiop[]'' @
     [0, 0] @ bytes_of ''asdfghjkl;'' @ [0x27, 0x60, 0, 0x5C] @ bytes_of ''zxcvbnm,./'' @ [0, 0x2A, 0, 0x20, 0])"

definition scan_to_ascii_caps :: carray where
  "scan_to_ascii_caps = arr_of ([0, 0] @ bytes_of ''1234567890-='' @ [0x08, 0x09] @ bytes_of ''QWERTYUIOP[]'' @
     [0, 0] @ bytes_of ''ASDFGHJKL;'' @ [0x27, 0x60, 0, 0x5C] @ bytes_of ''ZXCVBNM,./'' @ [0, 0x2A, 0, 0x20, 0])"

definition scan_to_ascii_shift :: carray where
  "scan_to_ascii_shift = arr_of ([0, 0] @ bytes_of ''!@#$%^&*()_+'' @ [0x08, 0x09] @ bytes_of ''QWERTYUIOP{}'' @
     [0, 0] @ bytes_of ''ASDFGHJKL:'' @ [0x22, 0x7E, 0, 0x7C] @ bytes_of ''ZXCVBNM<>?'' @ [0, 0x2A, 0, 0x20, 0])"

abbreviation CHAR_LIMIT :: byte where "CHAR_LIMIT \<equiv> 0x59"
abbreviation BUFFER_LIMIT :: int where "BUFFER_LIMIT \<equiv> 128"
abbreviation BACKSPACE_PRESS :: byte where "BACKSPACE_PRESS \<equiv> 0x0E"
abbreviation CAPS_PRESSED :: byte where "CAPS_PRESSED \<equiv> 0x3A"
abbreviation L_KEY_PRESS :: byte where "L_KEY_PRESS \<equiv> 0x26"
abbreviation C_KEY_PRESS :: byte where "C_KEY_PRESS \<equiv> 0x2E"

section \<open>The handler\<close>

definition keyboard_init :: "device \<Rightarrow> 'a kernel_state_scheme \<Rightarrow> 'a kernel_state_scheme" where
  "keyboard_init dev s = (enable_irq dev 1 s)\<lparr>caps_flag := 0\<rparr>"

definition set_line :: "int \<Rightarrow> byte \<Rightarrow> 'a kernel_state_scheme \<Rightarrow> 'a kernel_state_scheme" where
  "set_line i b s = s\<lparr>term_buffer := (term_buffer s)(nat i := b)\<rparr>"

text \<open>Echo a character and append it to the line.\<close>

definition type_char :: "byte \<Rightarrow> 'a kernel_state_scheme \<Rightarrow> 'a kernel_state_scheme" where
  "type_char b s =
     (let s = putck b s;
          s = set_line (buffer_index s) b s;
          s = s\<lparr>buffer_index := buffer_index s + 1\<rparr>
      in if buffer_index s < BUFFER_LIMIT then set_line (buffer_index s) NUL s else s)"

text \<open>The end of the handler, which is reached when no branch returned.\<close>

definition end_of_handler :: "'a kernel_state_scheme \<Rightarrow> 'a kernel_state_scheme" where
  "end_of_handler s = (if buffer_index s = 0 then set_line 0 NUL s else s)"

definition is_letter_key :: "byte \<Rightarrow> bool" where
  "is_letter_key c \<longleftrightarrow> 0x10 \<le> c \<and> c \<le> 0x19 \<or> 0x1E \<le> c \<and> c \<le> 0x26 \<or> 0x2C \<le> c \<and> c \<le> 0x32"

text \<open>With shift held; every path returns.\<close>

definition shift_key :: "byte \<Rightarrow> 'a kernel_state_scheme \<Rightarrow> 'a kernel_state_scheme" where
  "shift_key c s =
     (if c = BACKSPACE_PRESS then s
      else if is_letter_key c then
        let s = s\<lparr>caps_flag := NOT (caps_flag s)\<rparr>;
            s = (if caps_flag s = 0 then type_char (scan_to_ascii (unat c)) s
                 else if c \<noteq> CAPS_PRESSED then type_char (scan_to_ascii_caps (unat c)) s else s)
        in s\<lparr>caps_flag := NOT (caps_flag s)\<rparr>
      else type_char (scan_to_ascii_shift (unat c)) s)"

text \<open>A backspace: the last character goes, unless the line is empty.\<close>

definition erase_char :: "byte \<Rightarrow> 'a kernel_state_scheme \<Rightarrow> 'a kernel_state_scheme" where
  "erase_char b s =
     (if buffer_index s > 0 then
        let s = s\<lparr>buffer_index := buffer_index s - 1\<rparr>;
            s = putck b s;
            s = set_line (buffer_index s) NUL s
        in s\<lparr>line_flag := line_flag s - 1\<rparr>
      else s)"

text \<open>A key without shift and control.\<close>

definition plain_key :: "byte \<Rightarrow> 'a kernel_state_scheme \<Rightarrow> 'a kernel_state_scheme" where
  "plain_key c s =
     (if caps_flag s \<noteq> 0 \<and> c \<noteq> CAPS_PRESSED \<and> line_flag s > 0 \<and> c = BACKSPACE_PRESS
      then erase_char (scan_to_ascii_caps (unat c)) s
      else
        let s = (if caps_flag s = 0
                 then (if c \<noteq> BACKSPACE_PRESS then type_char (scan_to_ascii (unat c)) s else s)
                 else if c \<noteq> CAPS_PRESSED \<and> line_flag s > 0
                 then type_char (scan_to_ascii_caps (unat c)) s else s);
            s = (if c = BACKSPACE_PRESS \<and> line_flag s > 0
                 then erase_char (scan_to_ascii (unat c)) s else s)
        in end_of_handler s)"

definition clear_line :: "'a kernel_state_scheme \<Rightarrow> 'a kernel_state_scheme" where
  "clear_line s = (cleark s)\<lparr>line_flag := 0, buffer_index := 0\<rparr>"

text \<open>The keys of the tables: while the line has room, and when it is full.\<close>

definition char_key :: "byte \<Rightarrow> 'a kernel_state_scheme \<Rightarrow> (flow \<times> 'a kernel_state_scheme) option" where
  "char_key c s =
     (if buffer_index s < BUFFER_LIMIT then
        let s = s\<lparr>line_flag := line_flag s + 1\<rparr>
        in if shift_flag s = 1 then Some (Ret 0, shift_key c s)
           else if ctrl_flag s = 1 then
             (if c = L_KEY_PRESS then Some (Ret 0, (clear_line s)\<lparr>shift_flag := 0\<rparr>)
              else if c = C_KEY_PRESS then halt 0 s
              else Some (Ret 0, s\<lparr>shift_flag := 0\<rparr>))
           else Some (Ret 0, plain_key c s)
      else if c = BACKSPACE_PRESS then
        let s = s\<lparr>buffer_index := buffer_index s - 1\<rparr>;
            s = putck (scan_to_ascii (unat c)) s;
            s = (if buffer_index s < BUFFER_LIMIT then set_line (buffer_index s) NUL s else s);
            s = s\<lparr>line_flag := line_flag s - 1\<rparr>
        in Some (Ret 0, end_of_handler s)
      else if ctrl_flag s = 1 then
        (if c = L_KEY_PRESS then Some (Ret 0, end_of_handler (clear_line s))
         else if c = C_KEY_PRESS then halt 0 s
         else Some (Ret 0, end_of_handler s))
      else Some (Ret 0, end_of_handler s))"

text \<open>The rest of the handler from the test for function keys on.\<close>

definition tab_key :: "'a kernel_state_scheme \<Rightarrow> 'a kernel_state_scheme" where
  "tab_key s =
     (if tab_flag s = 0 then
        let s = s\<lparr>tab_flag := 1\<rparr>
        in if buffer_index s + 4 < BUFFER_LIMIT then
             let s = printfk_plain ''    '' s;
                 s = fold (\<lambda>i s. set_line (buffer_index s + int i) SPACE s) [0..<4] s;
                 s = s\<lparr>buffer_index := buffer_index s + 4\<rparr>
             in set_line (buffer_index s) NUL s
           else s
      else s)"

definition enter_key :: "'a kernel_state_scheme \<Rightarrow> 'a kernel_state_scheme" where
  "enter_key s =
     (let s = set_line (buffer_index s) 0x0A s;
          s = s\<lparr>buffer_index := buffer_index s + 1\<rparr>;
          s = putck 0x0A s;
          s = s\<lparr>line_flag := 0, buffer_index := 0\<rparr>
      in s\<lparr>enter_pressed := (enter_pressed s)(visible_term s := 1)\<rparr>)"

definition line_key :: "byte \<Rightarrow> 'a kernel_state_scheme \<Rightarrow> (flow \<times> 'a kernel_state_scheme) option" where
  "line_key c s =
     (if 0x3B \<le> c \<and> c \<le> 0x58 \<or> 0xBB \<le> c \<and> c \<le> 0xD8 \<or> c = 0x01 \<or> c = 0x81 then Some (Ret 0, s)
      else if c = 0x0F then Some (Ret 0, tab_key s)
      else if c = 0x8F then Some (Ret 0, s\<lparr>tab_flag := 0\<rparr>)
      else if c = 0x1C then Some (Ret 0, enter_key s)
      else if c = 0x9C then Some (Ret 0, s\<lparr>enter_pressed := (enter_pressed s)(visible_term s := 0)\<rparr>)
      else if c < CHAR_LIMIT then char_key c s
      else Some (Ret 0, end_of_handler s))"

text \<open>Control, alt and a function key switch terminals; the number is an 8-bit integer.\<close>

definition function_key :: "byte \<Rightarrow> 'a kernel_state_scheme \<Rightarrow> (flow \<times> 'a kernel_state_scheme) option" where
  "function_key c s =
     (if ctrl_flag s \<noteq> 0 \<and> alt_flag s \<noteq> 0 \<and> f_key_pressed s \<noteq> 0 then
        let s = s\<lparr>f_key_pressed := 0\<rparr>;
            s = s\<lparr>terminalNumber := sint (c - 0x3B)\<rparr>
        in if terminalNumber s < 0 \<or> terminalNumber s > 2 then Some (Ret 0, s)
           else line_key c (switch_terminal (nat (terminalNumber s)) s)
      else line_key c s)"

definition keyboard_scan :: "byte \<Rightarrow> 'a kernel_state_scheme \<Rightarrow> (flow \<times> 'a kernel_state_scheme) option" where
  "keyboard_scan c s =
     (if c = CAPS_PRESSED then Some (Ret 0, s\<lparr>caps_flag := NOT (caps_flag s)\<rparr>)
      else if c = 0x1D then function_key c (s\<lparr>ctrl_flag := 1\<rparr>)
      else if c = 0x9D then Some (Ret 0, s\<lparr>ctrl_flag := 0\<rparr>)
      else if c = 0x2A \<or> c = 0x36 then Some (Ret 0, s\<lparr>shift_flag := 1\<rparr>)
      else if c = 0xAA \<or> c = 0xB6 then Some (Ret 0, s\<lparr>shift_flag := 0\<rparr>)
      else if c = 0x38 then Some (Ret 0, s\<lparr>alt_flag := 1\<rparr>)
      else if c = 0xB8 then Some (Ret 0, s\<lparr>alt_flag := 0\<rparr>)
      else if c = 0x3B \<or> c = 0x3C \<or> c = 0x3D then function_key c (s\<lparr>f_key_pressed := 1\<rparr>)
      else function_key c s)"

definition keyboard_handler :: "device \<Rightarrow> 'a kernel_state_scheme \<Rightarrow> (flow \<times> 'a kernel_state_scheme) option" where
  "keyboard_handler dev s =
     (let s = send_eoi 1 s;
          (scan_code, s) = inb dev 0x60 s
      in keyboard_scan scan_code s)"

section \<open>terminal_read and terminal_write\<close>

text \<open>
  The copying loop: it ends after it has stored a NUL or the byte at index 128, and returns the index
  it ended at.
\<close>

definition line_end :: "carray \<Rightarrow> nat \<Rightarrow> nat" where
  "line_end b n = (case find (\<lambda>i. i = 128 \<or> b i = NUL) [0..<n] of Some i \<Rightarrow> i | None \<Rightarrow> n)"

definition terminal_read :: "(nat \<Rightarrow> 'a kernel_state_scheme \<Rightarrow> 'a kernel_state_scheme) \<Rightarrow>
    nat \<Rightarrow> int \<Rightarrow> 'a kernel_state_scheme \<Rightarrow> (int \<times> 'a kernel_state_scheme) option" where
  "terminal_read irq buf nbytes s = do {
     s \<leftarrow> wait_until (\<lambda>s. enter_pressed s (sched_term s) \<noteq> 0) irq 0 s;
     let n = nat nbytes;
     let i = line_end (term_buffer s) n;
     let s = vstore buf (map (term_buffer s) [0..<min n (i + 1)]) s;
     let s = s\<lparr>term_buffer := (\<lambda>i. if i < n then NUL else term_buffer s i)\<rparr>;
     let s = s\<lparr>enter_pressed := (enter_pressed s)(visible_term s := 0)\<rparr>;
     Some (int i, s)
   }"

definition write_char :: "nat \<Rightarrow> nat \<Rightarrow> 'a console_state_scheme \<Rightarrow> 'a console_state_scheme" where
  "write_char buf i s =
     (let c = vread s (buf + i);
          s = cli s;
          s = (if c \<noteq> NUL then putc c s else s)
      in sti s)"

definition terminal_write :: "nat option \<Rightarrow> int \<Rightarrow> 'a console_state_scheme \<Rightarrow> int \<times> 'a console_state_scheme" where
  "terminal_write buf nbytes s =
     (case buf of None \<Rightarrow> (-1, s)
      | Some buf \<Rightarrow> (nbytes, fold (write_char buf) [0..<nat nbytes] s))"

definition terminal_open :: int where "terminal_open = 0"
definition terminal_close :: int where "terminal_close = 0"


section \<open>What the echo leaves alone\<close>

text \<open>All of the kernel's fields are in the record's more part, seen from the console.\<close>

lemma kernel_fields:
  assumes "console_state.more s' = console_state.more s"
  shows "term_buffer s' = term_buffer s" "buffer_index s' = buffer_index s" "line_flag s' = line_flag s"
    "shift_flag s' = shift_flag s" "ctrl_flag s' = ctrl_flag s" "caps_flag s' = caps_flag s"
    "alt_flag s' = alt_flag s" "tab_flag s' = tab_flag s" "f_key_pressed s' = f_key_pressed s"
    "enter_pressed s' = enter_pressed s" "pcbs s' = pcbs s" "pid_arr s' = pid_arr s" "fs s' = fs s"
  using assms by (cases s, cases s', simp)+

text \<open>The part of the console the echo does not change.\<close>

definition console_frame :: "'a console_state_scheme \<Rightarrow> nat \<times> nat \<times> 'a \<times> _" where
  "console_frame s = (sched_term s, visible_term s, console_state.more s, paging_of s)"

lemma console_frame_steps [simp]:
  "console_frame (upd_term k f s) = console_frame s" "console_frame (vwrite a v s) = console_frame s"
  "console_frame (update_cursor s) = console_frame s"
  by (simp_all add: console_frame_def)

lemma fold_frame: "(\<And>x s. x \<in> set xs \<Longrightarrow> frm (f x s) = frm s) \<Longrightarrow> frm (fold f xs s) = frm s"
  by (induction xs arbitrary: s) auto

lemma console_frame_cells [simp]:
  "console_frame (write_cell vm k c a s) = console_frame s" "console_frame (copy_cell vm r c' s) = console_frame s"
  "console_frame (write_cellk c s) = console_frame s"
  by (simp_all add: write_cell_def copy_cell_def write_cellk_def Let_def)

lemma console_frame_scroll [simp]: "console_frame (scroll_at vm s) = console_frame s"
  unfolding scroll_at_def Let_def
  by (rule trans [OF fold_frame [where frm = console_frame] fold_frame [where frm = console_frame]])
    (simp_all, rule fold_frame [where frm = console_frame], simp)

lemma console_frame_blank [simp]: "console_frame (blank_cells vm a b s) = console_frame s"
  unfolding blank_cells_def by (rule fold_frame [where frm = console_frame]) simp

lemma console_frame_putc [simp]: "console_frame (putc c s) = console_frame s"
  by (simp add: putc_def Let_def scroll_def)

lemma console_frame_putck [simp]: "console_frame (putck c s) = console_frame s"
  by (simp add: putck_def Let_def scrollk_def)

lemma console_frame_cleark [simp]: "console_frame (cleark s) = console_frame s"
  by (simp add: cleark_def Let_def)

lemma putck_frame [simp]:
  "sched_term (putck c s) = sched_term s" "visible_term (putck c s) = visible_term s"
  "paging_of (putck c s) = paging_of s" "console_state.more (putck c s) = console_state.more s"
  using console_frame_putck [of c s] by (simp_all add: console_frame_def)

lemma cleark_frame [simp]:
  "sched_term (cleark s) = sched_term s" "visible_term (cleark s) = visible_term s"
  "paging_of (cleark s) = paging_of s" "console_state.more (cleark s) = console_state.more s"
  using console_frame_cleark [of s] by (simp_all add: console_frame_def)

lemmas putck_kernel [simp] = kernel_fields [OF putck_frame(4)]
lemmas cleark_kernel [simp] = kernel_fields [OF cleark_frame(4)]


text \<open>The console operations do the same whatever the kernel's other fields are.\<close>

abbreviation console_of :: "'a console_state_scheme \<Rightarrow> console_state" where
  "console_of \<equiv> console_state.truncate"

lemma console_of_fields [simp]:
  "terminals (console_of s) = terminals s" "sched_term (console_of s) = sched_term s"
  "visible_term (console_of s) = visible_term s" "mem (console_of s) = mem s"
  "paging_of (console_of s) = paging_of s" "iflag (console_of s) = iflag s"
  by (simp_all add: console_state.truncate_def paging_of_def)

lemmas console_of_paging [simp] = paging_cong [OF console_of_fields(5)]

lemma vread_console_of [simp]: "vread (console_of s) = vread s"
  by (simp add: fun_eq_iff vread_def split: option.split)

lemma console_of_steps:
  "console_of (upd_term k f s) = upd_term k f (console_of s)"
  "console_of (vwrite a v s) = vwrite a v (console_of s)"
  "console_of (update_cursor s) = update_cursor (console_of s)"
  by (simp add: upd_term_def console_state.truncate_def)
    (simp add: vwrite_def split: option.split, simp add: console_state.truncate_def,
     simp add: update_cursor_eq, simp add: console_state.truncate_def)

lemma console_of_cells:
  "console_of (write_cell vm k c a s) = write_cell vm k c a (console_of s)"
  "console_of (copy_cell vm r c' s) = copy_cell vm r c' (console_of s)"
  "console_of (write_cellk c s) = write_cellk c (console_of s)"
  by (simp_all add: write_cell_def copy_cell_def write_cellk_def Let_def cursor_cell_def flip: console_of_steps)

lemma fold_console_of:
  "(\<And>x s. console_of (f x s) = g x (console_of s)) \<Longrightarrow> console_of (fold f xs s) = fold g xs (console_of s)"
  by (induction xs arbitrary: s) simp_all

lemma console_of_scroll: "console_of (scroll_at vm s) = scroll_at vm (console_of s)"
  unfolding scroll_at_def Let_def
  by (subst fold_console_of [where g = "\<lambda>col. write_cell vm (NUM_COLS * (NUM_ROWS - 1) + int col) SPACE ATTRIB"],
      rule console_of_cells, subst fold_console_of [where g = "\<lambda>row. fold (\<lambda>col. copy_cell vm (int row) (int col)) [0..<80]"],
      rule fold_console_of, rule console_of_cells, rule refl)

lemma console_of_putck: "console_of (putck c s) = putck c (console_of s)"
  by (simp add: putck_def Let_def scrollk_def console_of_steps console_of_cells console_of_scroll)

lemma console_of_updates [simp]:
  "console_of (s\<lparr>buffer_index := i\<rparr>) = console_of s" "console_of (s\<lparr>term_buffer := b\<rparr>) = console_of s"
  "console_of (s\<lparr>line_flag := x\<rparr>) = console_of s" "console_of (s\<lparr>caps_flag := x\<rparr>) = console_of s"
  "console_of (s\<lparr>shift_flag := x\<rparr>) = console_of s" "console_of (s\<lparr>enter_pressed := e\<rparr>) = console_of s"
  by (simp_all add: console_state.truncate_def)

lemma paging_of_line [simp]:
  "paging_of (s\<lparr>line_flag := x\<rparr>) = paging_of s" "paging_of (s\<lparr>caps_flag := x\<rparr>) = paging_of s"
  "paging_of (s\<lparr>enter_pressed := e\<rparr>) = paging_of s"
  by (simp_all add: paging_of_def)

lemmas line_flag_paging [simp] = paging_cong [OF paging_of_line(1)]
lemmas enter_pressed_paging [simp] = paging_cong [OF paging_of_line(3)]

section \<open>The line editor\<close>

definition line_of :: "'a kernel_state_scheme \<Rightarrow> byte list" where
  "line_of s = map (term_buffer s) [0..<nat (buffer_index s)]"

text \<open>A line being typed: the rest of the buffer is clear.\<close>

definition line_ok :: "'a kernel_state_scheme \<Rightarrow> bool" where
  "line_ok s \<longleftrightarrow> 0 \<le> buffer_index s \<and> buffer_index s \<le> 128 \<and>
     (\<forall>i < 128. nat (buffer_index s) \<le> i \<longrightarrow> term_buffer s i = NUL)"

text \<open>The keys that type a character, and the character, given the shift and caps lock state.\<close>

definition text_key :: "byte \<Rightarrow> bool" where
  "text_key c \<longleftrightarrow> c < 0x3A \<and> scan_to_ascii (unat c) \<notin> {0, 0x08, 0x09}"

definition key_char :: "byte \<Rightarrow> byte \<Rightarrow> byte \<Rightarrow> byte" where
  "key_char shift caps c =
     (if shift = 1 then
        (if is_letter_key c then
           (if NOT caps = 0 then scan_to_ascii (unat c) else scan_to_ascii_caps (unat c))
         else scan_to_ascii_shift (unat c))
      else if caps = 0 then scan_to_ascii (unat c) else scan_to_ascii_caps (unat c))"

definition same_modifiers :: "'a kernel_state_scheme \<Rightarrow> 'a kernel_state_scheme \<Rightarrow> bool" where
  "same_modifiers s s' \<longleftrightarrow> shift_flag s' = shift_flag s \<and> ctrl_flag s' = ctrl_flag s \<and> caps_flag s' = caps_flag s \<and>
     enter_pressed s' = enter_pressed s \<and> visible_term s' = visible_term s \<and> sched_term s' = sched_term s \<and>
     paging_of s' = paging_of s \<and> pcbs s' = pcbs s \<and> fs s' = fs s \<and> pid_arr s' = pid_arr s"

text \<open>The effect of one edit: the line, the echo, and nothing else of the console.\<close>

definition edited :: "byte list \<Rightarrow> (console_state \<Rightarrow> console_state) \<Rightarrow> 'a kernel_state_scheme \<Rightarrow> 'a kernel_state_scheme \<Rightarrow> bool" where
  "edited l echo s s' \<longleftrightarrow> line_of s' = l \<and> line_ok s' \<and> console_of s' = echo (console_of s) \<and> same_modifiers s s'"

lemma set_line_simps [simp]:
  "console_of (set_line i b s) = console_of s" "buffer_index (set_line i b s) = buffer_index s"
  "term_buffer (set_line i b s) = (term_buffer s)(nat i := b)" "same_modifiers s' (set_line i b s) = same_modifiers s' s"
  "shift_flag (set_line i b s) = shift_flag s" "caps_flag (set_line i b s) = caps_flag s" "line_flag (set_line i b s) = line_flag s"
  "ctrl_flag (set_line i b s) = ctrl_flag s" "enter_pressed (set_line i b s) = enter_pressed s"
  "visible_term (set_line i b s) = visible_term s" "sched_term (set_line i b s) = sched_term s"
  "paging_of (set_line i b s) = paging_of s" "pcbs (set_line i b s) = pcbs s" "fs (set_line i b s) = fs s"
  "pid_arr (set_line i b s) = pid_arr s" "mem (set_line i b s) = mem s"
  by (simp_all add: set_line_def console_state.truncate_def same_modifiers_def paging_of_def)

lemma line_snoc:
  assumes "0 \<le> buffer_index s" "term_buffer s' = (term_buffer s)(nat (buffer_index s) := b, Suc (nat (buffer_index s)) := x)
      \<or> term_buffer s' = (term_buffer s)(nat (buffer_index s) := b)"
    and "buffer_index s' = buffer_index s + 1"
  shows "line_of s' = line_of s @ [b]"
proof -
  have "nat (buffer_index s + 1) = Suc (nat (buffer_index s))" using assms(1) by simp
  with assms(2,3) show ?thesis by (auto simp: line_of_def)
qed

lemma type_char_edits:
  assumes "line_ok s" "buffer_index s < 128"
  shows "edited (line_of s @ [b]) (putck b) s (type_char b s)"
    and "buffer_index (type_char b s) = buffer_index s + 1" "line_flag (type_char b s) = line_flag s"
proof -
  have i: "0 \<le> buffer_index s" using assms(1) by (simp add: line_ok_def)
  then have n: "nat (buffer_index s + 1) = Suc (nat (buffer_index s))" by simp
  show bi: "buffer_index (type_char b s) = buffer_index s + 1" "line_flag (type_char b s) = line_flag s"
    by (simp_all add: type_char_def Let_def)
  have tb: "term_buffer (type_char b s) = (if buffer_index s + 1 < 128
      then (term_buffer s)(nat (buffer_index s) := b, Suc (nat (buffer_index s)) := NUL)
      else (term_buffer s)(nat (buffer_index s) := b))"
    by (simp add: type_char_def Let_def n)
  then have "line_of (type_char b s) = line_of s @ [b]"
    by (intro line_snoc [OF i _ bi(1), where x = NUL]) auto
  moreover have "line_ok (type_char b s)"
    using assms i n unfolding line_ok_def bi tb by (auto simp: n)
  moreover have "console_of (type_char b s) = putck b (console_of s)"
    by (simp add: type_char_def Let_def flip: console_of_putck)
  moreover have "same_modifiers s (type_char b s)"
    by (simp add: type_char_def Let_def) (simp add: same_modifiers_def)
  ultimately show "edited (line_of s @ [b]) (putck b) s (type_char b s)" by (simp add: edited_def)
qed


lemma scan_special:
  "scan_to_ascii 0x01 = 0" "scan_to_ascii 0x0E = 0x08" "scan_to_ascii 0x0F = 0x09" "scan_to_ascii 0x1C = 0"
  "scan_to_ascii 0x1D = 0" "scan_to_ascii 0x2A = 0" "scan_to_ascii 0x36 = 0" "scan_to_ascii 0x38 = 0"
  "scan_to_ascii (Suc 0) = 0"
  by (simp_all add: scan_to_ascii_def arr_of_def bytes_of_def)

lemma text_key_not_special:
  assumes "text_key c"
  shows "c \<notin> {0x01, 0x0E, 0x0F, 0x1C, 0x1D, 0x2A, 0x36, 0x38}"
  using assms scan_special by (auto simp: text_key_def)

lemma text_key_scan:
  assumes "text_key c" "ctrl_flag s = 0"
  shows "keyboard_scan c s = char_key c s"
proof -
  have "c < 0x3A" using assms(1) by (simp add: text_key_def)
  then have "c < 0x59" "\<not> 0x3B \<le> c" "\<not> 0xBB \<le> c" "c \<notin> {0x3A, 0x9D, 0xAA, 0xB6, 0xB8, 0x3B, 0x3C, 0x3D, 0x8F, 0x9C, 0x81}"
    by (auto simp: word_less_nat_alt word_le_nat_alt)
  with text_key_not_special [OF assms(1)] assms(2) show ?thesis
    by (simp add: keyboard_scan_def function_key_def line_key_def)
qed

lemma backspace_scan:
  "ctrl_flag s = 0 \<Longrightarrow> keyboard_scan BACKSPACE_PRESS s = char_key BACKSPACE_PRESS s"
  by (simp add: keyboard_scan_def function_key_def line_key_def)

lemma edited_updates [simp]:
  "edited l e (s\<lparr>line_flag := x\<rparr>) s' = edited l e s s'" "edited l e s (s'\<lparr>line_flag := x\<rparr>) = edited l e s s'"
  "line_of (s\<lparr>line_flag := x\<rparr>) = line_of s" "line_of (s\<lparr>caps_flag := x\<rparr>) = line_of s"
  "line_ok (s\<lparr>line_flag := x\<rparr>) = line_ok s" "line_ok (s\<lparr>caps_flag := x\<rparr>) = line_ok s"
  by (simp_all add: edited_def same_modifiers_def line_of_def line_ok_def paging_of_def)

lemma edited_caps_twice:
  assumes "edited l e (s\<lparr>caps_flag := NOT (caps_flag s)\<rparr>) s'"
  shows "edited l e s (s'\<lparr>caps_flag := NOT (caps_flag s')\<rparr>)"
  using assms by (simp add: edited_def same_modifiers_def)

lemma word_succ_pos: "x \<noteq> (255 :: byte) \<Longrightarrow> 0 < x + 1"
proof -
  assume x: "x \<noteq> 255"
  have "x + 1 \<noteq> 0"
  proof
    assume "x + 1 = 0"
    then have "x = -1" by (simp add: eq_neg_iff_add_eq_0)
    with x show False by simp
  qed
  then show ?thesis by (simp add: word_gt_0)
qed

lemma text_key_types:
  assumes "text_key c" "line_ok s" "ctrl_flag s = 0" "buffer_index s < 128" "line_flag s \<noteq> 255"
  shows "\<exists>s'. keyboard_scan c s = Some (Ret 0, s') \<and> line_flag s' = line_flag s + 1 \<and>
    edited (line_of s @ [key_char (shift_flag s) (caps_flag s) c]) (putck (key_char (shift_flag s) (caps_flag s) c)) s s'"
proof -
  let ?s = "s\<lparr>line_flag := line_flag s + 1\<rparr>" and ?b = "key_char (shift_flag s) (caps_flag s) c"
  have c: "c \<noteq> BACKSPACE_PRESS" "c \<noteq> CAPS_PRESSED"
    using text_key_not_special [OF assms(1)] assms(1) by (auto simp: text_key_def)
  have ok: "line_ok ?s" "buffer_index ?s < 128" "0 \<le> buffer_index ?s" using assms(2,4) by (auto simp: line_ok_def)
  note ty = type_char_edits [OF ok(1,2), of ?b]
  have scan: "keyboard_scan c s = char_key c s" by (rule text_key_scan [OF assms(1,3)])
  show ?thesis
  proof (cases "shift_flag s = 1")
    case shift: True
    then have k: "keyboard_scan c s = Some (Ret 0, shift_key c ?s)"
      using assms(4) by (simp add: scan char_key_def Let_def)
    show ?thesis
    proof (cases "is_letter_key c")
      case True
      let ?t = "?s\<lparr>caps_flag := NOT (caps_flag ?s)\<rparr>"
      have "shift_key c ?s = (type_char ?b ?t)\<lparr>caps_flag := NOT (caps_flag (type_char ?b ?t))\<rparr>"
        using True shift c by (simp add: shift_key_def key_char_def Let_def)
      moreover have "edited (line_of ?t @ [?b]) (putck ?b) ?t (type_char ?b ?t)" "line_flag (type_char ?b ?t) = line_flag ?t"
        using type_char_edits [of ?t ?b] ok by auto
      then have "edited (line_of s @ [?b]) (putck ?b) ?s ((type_char ?b ?t)\<lparr>caps_flag := NOT (caps_flag (type_char ?b ?t))\<rparr>)"
        by (intro edited_caps_twice) simp
      ultimately show ?thesis using k \<open>line_flag (type_char ?b ?t) = line_flag ?t\<close> by simp
    next
      case False
      then have "shift_key c ?s = type_char ?b ?s" using shift c by (simp add: shift_key_def key_char_def)
      with k ty show ?thesis by simp
    qed
  next
    case shift: False
    then have k: "keyboard_scan c s = Some (Ret 0, plain_key c ?s)"
      using assms(3,4) by (simp add: scan char_key_def Let_def)
    have "plain_key c ?s = end_of_handler (type_char ?b ?s)"
      using c shift word_succ_pos [OF assms(5)] by (simp add: plain_key_def key_char_def Let_def)
    also have "\<dots> = type_char ?b ?s" using ty(2) ok(3) by (simp add: end_of_handler_def)
    finally show ?thesis using k ty by simp
  qed
qed


lemma end_of_handler_ok: "line_ok s \<Longrightarrow> end_of_handler s = s"
  by (auto simp: end_of_handler_def line_ok_def set_line_def fun_upd_idem)

lemma erase_char_edits:
  assumes "line_ok s" "0 < buffer_index s"
  shows "edited (butlast (line_of s)) (putck b) s (erase_char b s)" "line_flag (erase_char b s) = line_flag s - 1"
proof -
  define i where "i = nat (buffer_index s - 1)"
  have i: "nat (buffer_index s) = Suc i" "nat (buffer_index s - 1) = i" using assms(2) by (auto simp: i_def)
  have bi: "buffer_index (erase_char b s) = buffer_index s - 1"
    and tb: "term_buffer (erase_char b s) = (term_buffer s)(i := NUL)"
    and lf: "line_flag (erase_char b s) = line_flag s - 1"
    using assms(2) i by (simp_all add: erase_char_def Let_def)
  show "line_flag (erase_char b s) = line_flag s - 1" by (rule lf)
  have "line_of (erase_char b s) = butlast (line_of s)"
    by (simp add: line_of_def bi tb i)
  moreover have "line_ok (erase_char b s)"
    using assms i unfolding line_ok_def bi tb by (auto simp: i)
  moreover have "console_of (erase_char b s) = putck b (console_of s)"
    using assms(2) by (simp add: erase_char_def Let_def console_of_putck)
  moreover have "same_modifiers s (erase_char b s)"
    using assms(2) by (simp add: erase_char_def Let_def) (simp add: same_modifiers_def)
  ultimately show "edited (butlast (line_of s)) (putck b) s (erase_char b s)" by (simp add: edited_def)
qed

definition erase_echo :: "byte list \<Rightarrow> console_state \<Rightarrow> console_state" where
  "erase_echo l = (if l = [] then (\<lambda>c. c) else putck 0x08)"

lemma scan_backspace: "scan_to_ascii 0x0E = 0x08" "scan_to_ascii_caps 0x0E = 0x08"
  by (simp_all add: scan_to_ascii_def scan_to_ascii_caps_def arr_of_def bytes_of_def)

lemma backspace_erases:
  assumes "line_ok s" "ctrl_flag s = 0" "shift_flag s \<noteq> 1" "buffer_index s < 128" "line_flag s \<noteq> 255"
  shows "\<exists>s'. keyboard_scan BACKSPACE_PRESS s = Some (Ret 0, s') \<and> edited (butlast (line_of s)) (erase_echo (line_of s)) s s'
    \<and> line_flag s' = (if line_of s = [] then line_flag s + 1 else line_flag s)"
proof -
  let ?s = "s\<lparr>line_flag := line_flag s + 1\<rparr>"
  have ok: "line_ok ?s" using assms(1) by simp
  have k: "keyboard_scan BACKSPACE_PRESS s = Some (Ret 0, plain_key BACKSPACE_PRESS ?s)"
    using assms(2-4) by (simp add: backspace_scan char_key_def Let_def)
  have pos: "0 < line_flag ?s" using word_succ_pos [OF assms(5)] by simp
  have e: "erase_char 0x08 ?s = ?s" if "buffer_index s \<le> 0"
    using that by (simp add: erase_char_def)
  have ok': "line_ok (erase_char 0x08 ?s)"
    using ok e erase_char_edits(1) [OF ok] by (cases "buffer_index s \<le> 0") (auto simp: edited_def)
  have p: "plain_key BACKSPACE_PRESS ?s = erase_char 0x08 ?s"
    using pos end_of_handler_ok [OF ok'] by (simp add: plain_key_def Let_def scan_backspace)
  show ?thesis
  proof (cases "buffer_index s \<le> 0")
    case True
    then have "line_of s = []" by (simp add: line_of_def)
    moreover have "edited [] (\<lambda>c. c) s ?s"
      using ok True by (simp add: edited_def same_modifiers_def line_of_def)
    ultimately show ?thesis using k p e [OF True] by (simp add: erase_echo_def)
  next
    case False
    then have "line_of s \<noteq> []" by (simp add: line_of_def)
    then show ?thesis using k p erase_char_edits [OF ok, of "0x08"] False by (simp add: erase_echo_def)
  qed
qed


section \<open>Typing a line and reading it\<close>

text \<open>The states after a sequence of key presses, none of which leaves the handler otherwise than by returning.\<close>

fun keyboard_scans :: "byte list \<Rightarrow> 'a kernel_state_scheme \<Rightarrow> 'a kernel_state_scheme option" where
  "keyboard_scans [] s = Some s"
| "keyboard_scans (c # cs) s =
     (case keyboard_scan c s of Some (Ret r, s') \<Rightarrow> keyboard_scans cs s' | _ \<Rightarrow> None)"

definition edit_key :: "byte \<Rightarrow> byte \<Rightarrow> byte \<Rightarrow> byte list \<Rightarrow> byte list" where
  "edit_key shift caps c l = (if c = BACKSPACE_PRESS then butlast l else l @ [key_char shift caps c])"

lemma keys_edit:
  assumes "line_ok s" "ctrl_flag s = 0" "shift_flag s \<noteq> 1"
    and "\<forall>c \<in> set ks. text_key c \<or> c = BACKSPACE_PRESS"
    and "length (line_of s) + length ks \<le> 127" "unat (line_flag s) + length ks \<le> 254"
  shows "\<exists>s'. keyboard_scans ks s = Some s' \<and> line_ok s' \<and> same_modifiers s s'
    \<and> line_of s' = fold (edit_key (shift_flag s) (caps_flag s)) ks (line_of s)"
  using assms
proof (induction ks arbitrary: s)
  case Nil
  then show ?case by (simp add: same_modifiers_def)
next
  case (Cons c ks)
  have len: "length (line_of s) = nat (buffer_index s)" by (simp add: line_of_def)
  have pre: "buffer_index s < 128" "line_flag s \<noteq> 255"
    using Cons.prems(1,5,6) len by (auto simp: line_ok_def)
  have f: "unat (line_flag s + 1) = unat (line_flag s) + 1"
    using Cons.prems(6) by (simp add: unat_word_ariths)
  have "\<exists>s1. keyboard_scan c s = Some (Ret 0, s1) \<and> (\<exists>e. edited (edit_key (shift_flag s) (caps_flag s) c (line_of s)) e s s1)
      \<and> unat (line_flag s1) \<le> unat (line_flag s) + 1"
  proof (cases "c = BACKSPACE_PRESS")
    case True
    with backspace_erases [OF Cons.prems(1-3) pre] f show ?thesis
      by (fastforce simp: edit_key_def split: if_splits)
  next
    case False
    with Cons.prems(4) have "text_key c" by simp
    from text_key_types [OF this Cons.prems(1,2) pre] False f show ?thesis by (fastforce simp: edit_key_def)
  qed
  then obtain s1 e where s1: "keyboard_scan c s = Some (Ret 0, s1)"
    "edited (edit_key (shift_flag s) (caps_flag s) c (line_of s)) e s s1" "unat (line_flag s1) \<le> unat (line_flag s) + 1"
    by blast
  have e1: "line_ok s1" "same_modifiers s s1" "line_of s1 = edit_key (shift_flag s) (caps_flag s) c (line_of s)"
    using s1(2) by (auto simp: edited_def)
  then have m: "ctrl_flag s1 = 0" "shift_flag s1 = shift_flag s" "caps_flag s1 = caps_flag s"
    using Cons.prems(2) by (auto simp: same_modifiers_def)
  have "length (line_of s1) \<le> length (line_of s) + 1" using e1(3) by (auto simp: edit_key_def le_diff_conv)
  then have "\<exists>s'. keyboard_scans ks s1 = Some s' \<and> line_ok s' \<and> same_modifiers s1 s'
    \<and> line_of s' = fold (edit_key (shift_flag s1) (caps_flag s1)) ks (line_of s1)"
    using Cons.prems(3-6) m e1(1) s1(3) by (intro Cons.IH) auto
  with s1(1) e1 m show ?case by (auto simp: same_modifiers_def)
qed

lemma tables_zero:
  "\<forall>i \<in> set [0..<58]. scan_to_ascii i \<noteq> 0 \<longrightarrow> scan_to_ascii_caps i \<noteq> 0 \<and> scan_to_ascii_shift i \<noteq> 0"
  by (simp add: upt_conv_Cons scan_to_ascii_def scan_to_ascii_caps_def scan_to_ascii_shift_def arr_of_def bytes_of_def)

lemma key_char_nonzero: "text_key c \<Longrightarrow> key_char shift caps c \<noteq> NUL"
  using tables_zero by (auto simp: text_key_def key_char_def word_less_nat_alt)

lemma edit_keys_nonzero:
  "\<forall>c \<in> set ks. text_key c \<or> c = BACKSPACE_PRESS \<Longrightarrow> NUL \<notin> set l \<Longrightarrow> NUL \<notin> set (fold (edit_key sh cp) ks l)"
  by (induction ks arbitrary: l) (auto simp: edit_key_def key_char_nonzero dest: in_set_butlastD)


lemma edit_keys_length: "length (fold (edit_key sh cp) ks l) \<le> length l + length ks"
proof (induction ks arbitrary: l)
  case (Cons c ks)
  have "length (edit_key sh cp c l) \<le> length l + 1" by (auto simp: edit_key_def le_diff_conv)
  with Cons [of "edit_key sh cp c l"] show ?case by simp
qed simp

lemma keyboard_scans_append:
  "keyboard_scans ks s = Some s' \<Longrightarrow> keyboard_scans (ks @ cs) s = keyboard_scans cs s'"
  by (induction ks arbitrary: s) (auto split: option.splits prod.splits flow.splits)

lemma line_end_eq:
  assumes "m \<le> n" "m \<le> 128" "\<And>i. i < m \<Longrightarrow> b i \<noteq> NUL" "m < n \<Longrightarrow> m = 128 \<or> b m = NUL"
  shows "line_end b n = m"
proof (cases "m < n")
  case True
  then have "find (\<lambda>i. i = 128 \<or> b i = NUL) [0..<n] = Some m"
    unfolding find_Some_iff using assms by (auto intro!: exI [of _ m] simp del: upt_conv_Cons)
  then show ?thesis by (simp add: line_end_def)
next
  case False
  then have "find (\<lambda>i. i = 128 \<or> b i = NUL) [0..<n] = None"
    unfolding find_None_iff using assms by (auto simp del: upt_conv_Cons)
  then show ?thesis using False assms(1) by (simp add: line_end_def)
qed

lemma enter_scan: "ctrl_flag s = 0 \<Longrightarrow> keyboard_scan 0x1C s = Some (Ret 0, enter_key s)"
  by (simp add: keyboard_scan_def function_key_def line_key_def)

lemma enter_key_simps:
  "term_buffer (enter_key s) = (term_buffer s)(nat (buffer_index s) := 0x0A)" "buffer_index (enter_key s) = 0"
  "enter_pressed (enter_key s) = (enter_pressed s)(visible_term s := 1)" "paging_of (enter_key s) = paging_of s"
  "sched_term (enter_key s) = sched_term s" "visible_term (enter_key s) = visible_term s" "line_flag (enter_key s) = 0"
  by (simp_all add: enter_key_def Let_def)

lemma mem_kernel_updates [simp]:
  "line_of (s\<lparr>mem := m\<rparr>) = line_of s" "line_ok (s\<lparr>mem := m\<rparr>) = line_ok s"
  by (simp_all add: line_of_def line_ok_def)

lemma terminal_read_ready:
  assumes "enter_pressed s (sched_term s) \<noteq> 0" "line_end (term_buffer s) (nat n) = e"
    and "vstore buf (map (term_buffer s) [0..<min (nat n) (e + 1)]) s = s\<lparr>mem := m\<rparr>"
  shows "terminal_read irq buf n s = Some (int e, s\<lparr>mem := m,
      term_buffer := (\<lambda>i. if i < nat n then NUL else term_buffer s i),
      enter_pressed := (enter_pressed s)(visible_term s := 0)\<rparr>)"
proof -
  have "wait_until (\<lambda>s. enter_pressed s (sched_term s) \<noteq> 0) irq 0 s = Some s"
    by (rule wait_until_ready) (rule assms(1))
  then show ?thesis
    unfolding terminal_read_def Let_def by (simp only: bind.bind_lunit assms(2,3)) (simp cong: if_cong)
qed

text \<open>A read of 128 bytes when Enter has been pressed: everything up to the first NUL.\<close>

lemma read_entered:
  assumes "paging_ok s" "enter_pressed s (sched_term s) \<noteq> 0" "m \<le> 128" "\<And>i. i < m \<Longrightarrow> term_buffer s i \<noteq> NUL"
    and "m < 128 \<Longrightarrow> term_buffer s m = NUL" "k + 128 \<le> 0x400000"
  shows "\<exists>s'. terminal_read irq (0x8000000 + k) 128 s = Some (int m, s')
    \<and> load_bytes (mem s') (user_frame s * 0x400000 + k) m = map (term_buffer s) [0..<m]
    \<and> (\<forall>i < 128. term_buffer s' i = NUL) \<and> buffer_index s' = buffer_index s \<and> line_flag s' = line_flag s
    \<and> enter_pressed s' = (enter_pressed s)(visible_term s := 0)"
proof -
  have e: "line_end (term_buffer s) 128 = m" using assms(3-5) by (intro line_end_eq) auto
  define bs where "bs = map (term_buffer s) [0..<min 128 (m + 1)]"
  have bs: "length bs \<le> 128" "i < m \<Longrightarrow> i < length bs \<and> bs ! i = term_buffer s i" for i
    using assms(3) unfolding bs_def by (auto simp del: upt_Suc)
  have st: "vstore (0x8000000 + k) bs s = s\<lparr>mem := store_bytes (user_frame s * 0x400000 + k) bs (mem s)\<rparr>"
    using vstore_user [OF assms(1), of k bs] assms(6) bs(1) by simp
  define s' where "s' = (s\<lparr>mem := store_bytes (user_frame s * 0x400000 + k) bs (mem s),
      term_buffer := (\<lambda>i. if i < 128 then NUL else term_buffer s i),
      enter_pressed := (enter_pressed s)(visible_term s := 0)\<rparr>)"
  have "terminal_read irq (0x8000000 + k) 128 s = Some (int m, s')"
    unfolding s'_def
    using terminal_read_ready [OF assms(2), of 128 m "0x8000000 + k" "store_bytes (user_frame s * 0x400000 + k) bs (mem s)" irq] e st
    unfolding bs_def by (simp del: upt_Suc)
  moreover have "load_bytes (mem s') (user_frame s * 0x400000 + k) m = map (term_buffer s) [0..<m]"
    using bs(2) by (intro nth_equalityI) (auto simp: s'_def)
  ultimately show ?thesis by (auto simp: s'_def)
qed

lemma read_line:
  assumes "paging_ok s" "line_of s = l" "line_ok s" "length l \<le> 127" "NUL \<notin> set l" "sched_term s = visible_term s"
    and "k + 128 \<le> 0x400000"
  shows "\<exists>s'. terminal_read irq (0x8000000 + k) 128 (enter_key s) = Some (int (length l) + 1, s')
    \<and> load_bytes (mem s') (user_frame s * 0x400000 + k) (length l + 1) = l @ [0x0A]
    \<and> line_of s' = [] \<and> line_ok s' \<and> enter_pressed s' (visible_term s) = 0 \<and> line_flag s' = 0"
proof -
  let ?s = "enter_key s" and ?n = "length l" and ?b = "term_buffer (enter_key s)"
  have n: "nat (buffer_index s) = ?n" using assms(2) by (auto simp: line_of_def)
  have "term_buffer s i = l ! i" if "i < ?n" for i
    using arg_cong [OF assms(2), of "\<lambda>l. l ! i"] that n by (simp add: line_of_def)
  then have b: "i < ?n \<Longrightarrow> ?b i = l ! i" "?b ?n = 0x0A" "?n < i \<Longrightarrow> i < 128 \<Longrightarrow> ?b i = NUL" for i
    using assms(3) n by (auto simp: enter_key_simps line_ok_def)
  have pg: "paging_ok ?s" "user_frame ?s = user_frame s"
    using paging_cong [OF enter_key_simps(4), of s] assms(1) by simp_all
  have nz: "?b i \<noteq> NUL" if "i < ?n + 1" for i
    using that b assms(5) by (cases "i = ?n") (auto simp: in_set_conv_nth)
  have pre: "enter_pressed ?s (sched_term ?s) \<noteq> 0" "?n + 1 \<le> 128" "?n + 1 < 128 \<Longrightarrow> ?b (?n + 1) = NUL"
    using assms(4,6) b(3) [of "?n + 1"] by (simp_all add: enter_key_simps(3,5,6))
  have "map ?b [0..<?n + 1] = l @ [0x0A]"
    using b by (intro nth_equalityI) (auto simp: nth_append less_Suc_eq simp del: upt_Suc)
  moreover obtain s' where "terminal_read irq (0x8000000 + k) 128 ?s = Some (int (?n + 1), s')"
    "load_bytes (mem s') (user_frame ?s * 0x400000 + k) (?n + 1) = map ?b [0..<?n + 1]"
    "\<forall>i < 128. term_buffer s' i = NUL" "buffer_index s' = buffer_index ?s" "line_flag s' = line_flag ?s"
    "enter_pressed s' = (enter_pressed ?s)(visible_term ?s := 0)"
    using read_entered [OF pg(1) pre(1,2) nz pre(3) assms(7), where irq = irq] by blast
  ultimately show ?thesis
    using pg(2) by (intro exI [of _ s']) (simp add: enter_key_simps line_of_def line_ok_def del: upt_Suc)
qed

text \<open>
  C19. What is typed is what is read: from an empty line, any sequence of text keys and backspaces of
  at most 127 keys followed by Enter makes the read of the terminal's process return the edited line
  with a line feed, whatever interrupts come, and leaves the line empty again.
\<close>

theorem typed_line_is_read:
  assumes "paging_ok s" "line_ok s" "buffer_index s = 0" "line_flag s = 0" "ctrl_flag s = 0" "shift_flag s \<noteq> 1"
    and "sched_term s = visible_term s" "\<forall>c \<in> set ks. text_key c \<or> c = BACKSPACE_PRESS" "length ks \<le> 127"
    and "k + 128 \<le> 0x400000" "line = fold (edit_key (shift_flag s) (caps_flag s)) ks []"
  shows "\<exists>s1 s2. keyboard_scans (ks @ [0x1C]) s = Some s1
    \<and> terminal_read irq (0x8000000 + k) 128 s1 = Some (int (length line) + 1, s2)
    \<and> load_bytes (mem s2) (user_frame s * 0x400000 + k) (length line + 1) = line @ [0x0A]
    \<and> line_of s2 = [] \<and> line_ok s2 \<and> enter_pressed s2 (visible_term s) = 0"
proof -
  have l0: "line_of s = []" using assms(3) by (simp add: line_of_def)
  obtain s0 where s0: "keyboard_scans ks s = Some s0" "line_ok s0" "same_modifiers s s0" "line_of s0 = line"
    using keys_edit [OF assms(2,5,6,8)] l0 assms(4,9,11) by auto
  from edit_keys_length [of "shift_flag s" "caps_flag s" ks "[]"] assms(9,11) have len: "length line \<le> 127" by simp
  have nz: "NUL \<notin> set line" using edit_keys_nonzero [OF assms(8)] assms(11) by simp
  have c: "ctrl_flag s0 = 0" "sched_term s0 = visible_term s0" "visible_term s0 = visible_term s" "paging_of s0 = paging_of s"
    using s0(3) assms(5,7) by (simp_all add: same_modifiers_def)
  then have p: "paging_ok s0" "user_frame s0 = user_frame s"
    using paging_cong [OF c(4)] assms(1) by simp_all
  have "keyboard_scans (ks @ [0x1C]) s = Some (enter_key s0)"
    using keyboard_scans_append [OF s0(1)] enter_scan [OF c(1)] by simp
  then show ?thesis
    using read_line [OF p(1) s0(4,2) len nz c(2) assms(10), of irq] p(2) c(3) by auto
qed


lemmas paging_init_keys [simp] = kernel_fields [OF paging_init_console(7)]

lemma demo_three_keys [simp]:
  "buffer_index demo_three = 0" "line_flag demo_three = 0" "ctrl_flag demo_three = 0" "shift_flag demo_three = 0"
  "caps_flag demo_three = 0" "alt_flag demo_three = 0" "term_buffer demo_three = (\<lambda>_. 0)"
  by (simp_all add: demo_three_def demo_state_def)

lemma demo_three_frame: "user_frame demo_three = user_frame demo_state"
  using paging_cong(5) [OF demo_three_paging] .

theorem typed_line_is_read_witness:
  "\<exists>s1 s2. keyboard_scans [0x23, 0x17, 0x17, 0x0E, 0x1C] demo_three = Some s1
    \<and> terminal_read (\<lambda>_ s. s) 0x8000100 128 s1 = Some (3, s2)
    \<and> load_bytes (mem s2) (user_frame demo_state * 0x400000 + 0x100) 3 = bytes_of [CHR ''h'', CHR ''i'', CHR 0x0A]"
proof -
  have k: "text_key 0x23" "text_key 0x17"
    by (simp_all add: text_key_def scan_to_ascii_def arr_of_def bytes_of_def)
  have l: "fold (edit_key 0 0) [0x23, 0x17, 0x17, 0x0E] [] = bytes_of ''hi''"
    by (simp add: edit_key_def key_char_def scan_to_ascii_def arr_of_def bytes_of_def)
  have ok: "line_ok demo_three" by (simp add: line_ok_def)
  have n: "length (bytes_of ''hi'') = 2" by simp
  have "\<exists>s1 s2. keyboard_scans ([0x23, 0x17, 0x17, 0x0E] @ [0x1C]) demo_three = Some s1
    \<and> terminal_read (\<lambda>_ s. s) (0x8000000 + 0x100) 128 s1 = Some (int (length (bytes_of ''hi'')) + 1, s2)
    \<and> load_bytes (mem s2) (user_frame demo_three * 0x400000 + 0x100) (length (bytes_of ''hi'') + 1) = bytes_of ''hi'' @ [0x0A]
    \<and> line_of s2 = [] \<and> line_ok s2 \<and> enter_pressed s2 (visible_term demo_three) = 0"
    by (rule typed_line_is_read [OF demo_three_ok ok]) (simp_all only: demo_three_keys demo_three_simps l, simp_all add: k)
  then obtain s1 s2 where r: "keyboard_scans ([0x23, 0x17, 0x17, 0x0E] @ [0x1C]) demo_three = Some s1"
    "terminal_read (\<lambda>_ s. s) (0x8000000 + 0x100) 128 s1 = Some (int 2 + 1, s2)"
    "load_bytes (mem s2) (user_frame demo_three * 0x400000 + 0x100) (2 + 1) = bytes_of ''hi'' @ [0x0A]"
    unfolding n by blast
  then have "load_bytes (mem s2) (user_frame demo_state * 0x400000 + 0x100) 3 = bytes_of [CHR ''h'', CHR ''i'', CHR 0x0A]"
    by (simp add: demo_three_frame bytes_of_def)
  with r(1,2) show ?thesis by (intro exI [of _ s1] exI [of _ s2]) (simp del: keyboard_scans.simps)
qed

section \<open>Clearing the screen leaves the line behind\<close>

lemma clear_key_scan:
  assumes "ctrl_flag s = 1" "shift_flag s \<noteq> 1" "alt_flag s = 0" "buffer_index s < 128"
  shows "keyboard_scan L_KEY_PRESS s = Some (Ret 0, (clear_line (s\<lparr>line_flag := line_flag s + 1\<rparr>))\<lparr>shift_flag := 0\<rparr>)"
  using assms by (simp add: keyboard_scan_def function_key_def line_key_def char_key_def Let_def)

lemma ctrl_release_scan: "keyboard_scan 0x9D s = Some (Ret 0, s\<lparr>ctrl_flag := 0\<rparr>)"
  by (simp add: keyboard_scan_def)

lemma clear_line_simps:
  "term_buffer (clear_line s) = term_buffer s" "buffer_index (clear_line s) = 0" "paging_of (clear_line s) = paging_of s"
  "visible_term (clear_line s) = visible_term s" "sched_term (clear_line s) = sched_term s"
  "alt_flag (clear_line s) = alt_flag s"
  by (simp_all add: clear_line_def)

text \<open>
  Control-L empties the screen and resets the line's length but not its bytes: when Enter is pressed
  right after it, the program reads a line feed followed by the cleared line from its second character on.
\<close>

theorem clear_key_leaves_line:
  assumes "paging_ok s" "line_ok s" "line_of s = a # l" "length l < 127" "NUL \<notin> set (a # l)" "sched_term s = visible_term s"
    and "ctrl_flag s = 1" "shift_flag s \<noteq> 1" "alt_flag s = 0" "k + 128 \<le> 0x400000"
  shows "\<exists>s1 s2. keyboard_scans [L_KEY_PRESS, 0x9D, 0x1C] s = Some s1
    \<and> terminal_read irq (0x8000000 + k) 128 s1 = Some (int (length l) + 1, s2)
    \<and> load_bytes (mem s2) (user_frame s * 0x400000 + k) (length l + 1) = 0x0A # l"
proof -
  let ?c = "(clear_line (s\<lparr>line_flag := line_flag s + 1\<rparr>))\<lparr>shift_flag := 0, ctrl_flag := 0\<rparr>"
  let ?s = "enter_key ?c" and ?n = "length l + 1"
  have n: "nat (buffer_index s) = ?n" using arg_cong [OF assms(3), of length] by (simp add: line_of_def)
  have old: "term_buffer s i = (a # l) ! i" if "i < ?n" for i
    using arg_cong [OF assms(3), of "\<lambda>l. l ! i"] that n by (simp add: line_of_def del: upt_Suc)
  have c: "paging_of ?c = paging_of s" "term_buffer ?c = term_buffer s" "buffer_index ?c = 0"
    "visible_term ?c = visible_term s" "sched_term ?c = sched_term s"
    by (simp_all add: clear_line_simps) (simp add: clear_line_simps(3) [unfolded paging_of_def] paging_of_def)
  have "buffer_index s < 128" using n assms(4) by linarith
  then have "keyboard_scans [L_KEY_PRESS, 0x9D, 0x1C] s = Some ?s"
    using clear_key_scan [OF assms(7-9)] by (simp add: ctrl_release_scan enter_scan)
  moreover have pg: "paging_ok ?s" "user_frame ?s = user_frame s"
    using paging_cong [OF enter_key_simps(4), of ?c] paging_cong [OF c(1)] assms(1) by simp_all
  have b: "term_buffer ?s i = (0x0A # l) ! i" if "i < ?n" for i
    using old [OF that] by (simp add: enter_key_simps c nth_Cons')
  have nz: "term_buffer ?s i \<noteq> NUL" if "i < ?n" for i
    using b [OF that] that assms(5) by (cases i) (auto simp: in_set_conv_nth)
  have end': "term_buffer ?s ?n = NUL"
    using assms(2,4) n by (simp add: enter_key_simps c line_ok_def)
  have pre: "enter_pressed ?s (sched_term ?s) \<noteq> 0" "?n \<le> 128"
    using assms(4,6) by (simp_all add: enter_key_simps c)
  obtain s2 where "terminal_read irq (0x8000000 + k) 128 ?s = Some (int ?n, s2)"
    "load_bytes (mem s2) (user_frame ?s * 0x400000 + k) ?n = map (term_buffer ?s) [0..<?n]"
    using read_entered [OF pg(1) pre nz end' assms(10), where irq = irq] by blast
  moreover have "map (term_buffer ?s) [0..<?n] = 0x0A # l"
    using b by (intro nth_equalityI) (auto simp del: upt_Suc)
  ultimately show ?thesis using pg(2) by auto
qed

definition demo_typed :: kernel_state where
  "demo_typed = demo_three\<lparr>term_buffer := arr_of (bytes_of ''hello''), buffer_index := 5, ctrl_flag := 1\<rparr>"

theorem clear_key_leaves_line_witness:
  "\<exists>s1 s2. keyboard_scans [L_KEY_PRESS, 0x9D, 0x1C] demo_typed = Some s1
    \<and> terminal_read (\<lambda>_ s. s) 0x8000100 128 s1 = Some (5, s2)
    \<and> load_bytes (mem s2) (user_frame demo_typed * 0x400000 + 0x100) 5 = 0x0A # bytes_of ''ello''"
proof -
  have "paging_of demo_typed = paging_of demo_three" by (simp add: demo_typed_def paging_of_def)
  then have ok: "paging_ok demo_typed" using paging_cong(1) demo_three_ok by metis
  have "line_of demo_typed = 0x68 # bytes_of ''ello''"
    by (simp add: line_of_def demo_typed_def bytes_of_def arr_of_def upt_conv_Cons)
  moreover have "line_ok demo_typed" by (simp add: line_ok_def demo_typed_def)
  moreover have "sched_term demo_typed = visible_term demo_typed" "ctrl_flag demo_typed = 1" "shift_flag demo_typed \<noteq> 1"
    "alt_flag demo_typed = 0"
    by (simp_all add: demo_typed_def)
  moreover have "NUL \<notin> set (0x68 # bytes_of ''ello'')" "length (bytes_of ''ello'') = 4" by (simp_all add: bytes_of_def)
  ultimately have "\<exists>s1 s2. keyboard_scans [L_KEY_PRESS, 0x9D, 0x1C] demo_typed = Some s1
    \<and> terminal_read (\<lambda>_ s. s) (0x8000000 + 0x100) 128 s1 = Some (int (length (bytes_of ''ello'')) + 1, s2)
    \<and> load_bytes (mem s2) (user_frame demo_typed * 0x400000 + 0x100) (length (bytes_of ''ello'') + 1) = 0x0A # bytes_of ''ello''"
    by (intro clear_key_leaves_line [OF ok, where a = "0x68"]) simp_all
  moreover have n: "length (bytes_of ''ello'') = 4" by simp
  ultimately show ?thesis unfolding n by simp
qed

section \<open>Writing to the terminal\<close>

lemma show_screen_iflag:
  "(show_screen k b c out s)\<lparr>iflag := x\<rparr> = show_screen k b c out (s\<lparr>iflag := x\<rparr>)"
  by (rule console_state.equality) (simp_all add: show_screen_def with_cells_def upd_term_def)

lemma iflag_paging_of [simp]: "paging_of (s\<lparr>iflag := x\<rparr>) = paging_of s"
  by (simp add: paging_of_def)

lemmas iflag_paging [simp] = paging_cong [OF iflag_paging_of]

text \<open>A byte of the user window, while the screen is drawn.\<close>

lemma vread_user_show:
  assumes "paging_ok s" "1 \<le> user_frame s" "a < 0x400000" "b + 4000 \<le> 0x400000" "length (cells c) = 2000"
  shows "vread (show_screen k b c out s) (0x8000000 + a) = mem s (user_frame s * 0x400000 + a)"
proof -
  have "mmu (show_screen k b c out s) (0x8000000 + a) = Some (user_frame s * 0x400000 + a)"
    using mmu_user [of s "0x8000000 + a"] assms(1,3) by simp
  moreover have "0x400000 \<le> user_frame s * 0x400000" using assms(2) by simp
  ultimately show ?thesis
    using assms(4,5) by (simp add: vread_def mem_show_screen put_cells_def)
qed

lemma write_char_show:
  assumes "paging_ok s" "1 \<le> user_frame s" "a + i < 0x400000" "screen_ok c" "sched_term s < 3"
    and "k = sched_term s" "b = video_base s" "b + 4000 \<le> 0x400000"
  shows "\<exists>out'. write_char (0x8000000 + a) i (show_screen k b c out s) =
    show_screen k b (screen_putc (mem s (user_frame s * 0x400000 + a + i)) c) out' (s\<lparr>iflag := True\<rparr>)"
proof -
  let ?b = "mem s (user_frame s * 0x400000 + a + i)" and ?s = "s\<lparr>iflag := False\<rparr>"
  have len: "length (cells c) = 2000" using assms(4) by (simp add: screen_ok_def)
  have r: "vread (show_screen k b c out s) (0x8000000 + a + i) = ?b"
    using vread_user_show [OF assms(1,2,3,8) len, of k out] by (simp add: add.assoc)
  obtain out' where "putc ?b (show_screen k b c out ?s) = show_screen k b (screen_putc ?b c) (out @ out') ?s"
    using putc_show [of ?s c k b ?b out] assms(1,4,6,7) by (auto simp: video_base_def)
  moreover have "putc NUL t = t" for t :: "'a console_state_scheme" by (simp add: putc_def)
  ultimately have "(if ?b \<noteq> NUL then putc ?b (show_screen k b c out ?s) else show_screen k b c out ?s)
      = show_screen k b (screen_putc ?b c) (out @ out') ?s"
    by (auto split: if_splits)
  then show ?thesis
    unfolding write_char_def Let_def r cli_def sti_def show_screen_iflag
    by (intro exI [of _ "out @ out'"]) (simp add: show_screen_iflag)
qed

lemma video_base_bound: "paging_ok s \<Longrightarrow> video_base s + 4000 \<le> 0x400000"
  by (auto simp: video_base_def video_frame_def paging_ok_def table_ok_def Let_def video_frames_def)

lemma write_chars_show:
  assumes "paging_ok s" "1 \<le> user_frame s" "a + n \<le> 0x400000" "sched_term s < 3"
    and "k = sched_term s" "b = video_base s" "screen_ok (screen_of k b s)"
  shows "\<exists>out fl. fold (write_char (0x8000000 + a)) [0..<n] s = show_screen k b
      (screen_puts (load_bytes (mem s) (user_frame s * 0x400000 + a) n) (screen_of k b s)) out (s\<lparr>iflag := fl\<rparr>)
    \<and> (fl \<longleftrightarrow> 0 < n \<or> iflag s) \<and> screen_ok (screen_puts (load_bytes (mem s) (user_frame s * 0x400000 + a) n) (screen_of k b s))"
  using assms(3)
proof (induction n)
  case 0
  have "s = show_screen k b (screen_of k b s) [] (s\<lparr>iflag := iflag s\<rparr>)" by (simp add: show_screen_of)
  with assms(7) show ?case by (auto simp: load_bytes_def screen_puts_def)
next
  case (Suc n)
  let ?l = "\<lambda>n. load_bytes (mem s) (user_frame s * 0x400000 + a) n"
  obtain out fl where IH: "fold (write_char (0x8000000 + a)) [0..<n] s = show_screen k b
      (screen_puts (?l n) (screen_of k b s)) out (s\<lparr>iflag := fl\<rparr>)" "screen_ok (screen_puts (?l n) (screen_of k b s))"
    using Suc by auto
  have l: "?l (Suc n) = ?l n @ [mem s (user_frame s * 0x400000 + a + n)]" by (simp add: load_bytes_def)
  have "\<exists>out'. write_char (0x8000000 + a) n (show_screen k b (screen_puts (?l n) (screen_of k b s)) out (s\<lparr>iflag := fl\<rparr>)) =
      show_screen k b (screen_puts (?l (Suc n)) (screen_of k b s)) out' (s\<lparr>iflag := True\<rparr>)"
    using write_char_show [of "s\<lparr>iflag := fl\<rparr>" a n "screen_puts (?l n) (screen_of k b s)" k b out]
      assms Suc.prems IH(2) video_base_bound [OF assms(1)]
    by (simp add: l screen_puts_def video_base_def)
  then show ?case
    using IH screen_putc_ok [OF IH(2), of "mem s (user_frame s * 0x400000 + a + n)"]
    by (auto simp: l screen_puts_def intro!: exI [of _ True])
qed

text \<open>
  Writing \<open>n\<close> bytes of the program's memory to the terminal shows exactly them, one after the other,
  on the scheduled terminal's page (NUL bytes show nothing), whether that terminal is visible or not,
  changes nothing else of the memory and returns \<open>n\<close>; a null buffer is refused.
\<close>

theorem terminal_write_shows:
  assumes "paging_ok s" "1 \<le> user_frame s" "a + n \<le> 0x400000" "sched_term s < 3"
    and "k = sched_term s" "b = video_base s" "screen_ok (screen_of k b s)"
  shows "(\<exists>out fl. terminal_write (Some (0x8000000 + a)) (int n) s = (int n, show_screen k b
      (screen_puts (load_bytes (mem s) (user_frame s * 0x400000 + a) n) (screen_of k b s)) out (s\<lparr>iflag := fl\<rparr>)))
    \<and> terminal_write None (int n) s = (-1, s)"
  using write_chars_show [OF assms] by (auto simp: terminal_write_def)

lemma demo_three_screen: "screen_ok (screen_of 0 0xB8000 demo_three)" "video_base demo_three = 0xB8000"
  using paging_cong(4) [OF demo_three_paging]
  by (simp_all add: screen_ok_def screen_of_def video_base_def demo_state_simps demo_three_def demo_terminal_def zero_terminal_def)

definition demo_text :: kernel_state where
  "demo_text = demo_three\<lparr>mem := store_bytes (32 * 0x400000) (bytes_of ''hi'') (mem demo_three)\<rparr>"

theorem terminal_write_shows_witness:
  "\<exists>s'. terminal_write (Some 0x8000000) 2 demo_text = (2, s') \<and> cur_x (screen_of 0 0xB8000 s') = 2
    \<and> take 2 (cells (screen_of 0 0xB8000 s')) = [(0x68, ATTRIB), (0x69, ATTRIB)]"
proof -
  have f: "user_frame demo_text = 32" "paging_ok demo_text" "video_base demo_text = 0xB8000"
    using demo_three_frame demo_three_ok demo_three_screen(2)
    by (simp_all add: demo_text_def demo_state_def paging_init_frames video_base_def)
  have c: "cur_x (screen_of 0 0xB8000 demo_text) = 0" "cur_y (screen_of 0 0xB8000 demo_text) = 0"
    "length (cells (screen_of 0 0xB8000 demo_text)) = 2000"
    using demo_three_screen by (simp_all add: screen_of_def demo_text_def demo_three_def demo_state_simps demo_terminal_def zero_terminal_def)
  then have ok: "screen_ok (screen_of 0 0xB8000 demo_text)" by (simp add: screen_ok_def)
  have l: "load_bytes (mem demo_text) (32 * 0x400000 + 0) 2 = [0x68, 0x69]"
    by (simp add: load_bytes_def demo_text_def store_bytes_def bytes_of_def upt_conv_Cons)
  obtain out fl where r: "terminal_write (Some (0x8000000 + 0)) (int 2) demo_text =
      (int 2, show_screen 0 0xB8000 (screen_puts [0x68, 0x69] (screen_of 0 0xB8000 demo_text)) out (demo_text\<lparr>iflag := fl\<rparr>))"
    using terminal_write_shows [of demo_text 0 2 0 "0xB8000"] f ok
    unfolding f(1) l by (auto simp: demo_text_def)
  have "screen_puts [0x68, 0x69] (screen_of 0 0xB8000 demo_text) =
      (screen_of 0 0xB8000 demo_text)\<lparr>cur_x := 2, cells := (cells (screen_of 0 0xB8000 demo_text))[0 := (0x68, ATTRIB), Suc 0 := (0x69, ATTRIB)]\<rparr>"
    using c by (simp add: screen_puts_def screen_putc_def screen_write_def screen_right_def)
  moreover have "take 2 (xs[0 := x, Suc 0 := y]) = [x, y]" if "length xs = 2000" for xs :: "'b list" and x y
    using that by (intro nth_equalityI) (auto simp: less_Suc_eq numeral_2_eq_2)
  ultimately show ?thesis using r c by (simp add: screen_of_show)
qed

end
