(* ===== verification/KeyBounds.thy ===== *)
theory KeyBounds
  imports Keyboard
begin

text \<open>
  The bounds of the keyboard's line buffer (keyboard.c): whatever key comes, the number of characters
  typed stays between 0 and 128, on the visible terminal and in the lines the others have set aside.
\<close>

section \<open>The bounds of the line\<close>

text \<open>Output moves the cursors of the terminals and leaves the rest of them alone.\<close>

definition line_store :: "'a console_state_scheme \<Rightarrow> nat \<Rightarrow> u32 \<times> byte" where
  "line_store s k = (VRAM_addr (terminals s k), rb_idx (terminals s k))"

lemma line_store_steps [simp]:
  "line_store (upd_term k (\<lambda>t. t\<lparr>screen_x := f t\<rparr>) s) = line_store s"
  "line_store (upd_term k (\<lambda>t. t\<lparr>screen_y := f t\<rparr>) s) = line_store s"
  "line_store (vwrite a v s) = line_store s" "line_store (update_cursor s) = line_store s"
  by (simp_all add: line_store_def fun_eq_iff)

lemma line_store_cells [simp]:
  "line_store (write_cell vm k c a s) = line_store s" "line_store (copy_cell vm r c' s) = line_store s"
  "line_store (write_cellk c s) = line_store s"
  by (simp_all add: write_cell_def copy_cell_def write_cellk_def Let_def)

lemma line_store_scroll [simp]: "line_store (scroll_at vm s) = line_store s"
  unfolding scroll_at_def Let_def
  by (rule trans [OF fold_frame [where frm = line_store] fold_frame [where frm = line_store]])
    (simp_all, rule fold_frame [where frm = line_store], simp)

lemma line_store_echo [simp]: "line_store (putck c s) = line_store s" "line_store (cleark s) = line_store s"
proof -
  show "line_store (putck c s) = line_store s"
    using line_store_steps(1) [of _ "\<lambda>_. _"] line_store_steps(2) [of _ "\<lambda>_. _"]
    by (simp add: putck_def Let_def scrollk_def)
  have "line_store (blank_cells vm a b t) = line_store t" for vm a b and t :: "'a console_state_scheme"
    unfolding blank_cells_def by (rule fold_frame [where frm = line_store]) simp
  then show "line_store (cleark s) = line_store s"
    using line_store_steps(1) [of _ "\<lambda>_. 0"] line_store_steps(2) [of _ "\<lambda>_. 0"] by (simp add: cleark_def Let_def)
qed

definition kb_ok :: "carray \<Rightarrow> 'a kernel_state_scheme \<Rightarrow> bool" where
  "kb_ok b s \<longleftrightarrow> paging_ok s \<and> visible_term s < 3 \<and> 0 \<le> buffer_index s \<and> buffer_index s \<le> 128 \<and>
     (\<forall>i < 3. fst (line_store s i) = 0xB9000 + 0x1000 * word_of_nat i \<and> snd (line_store s i) \<le> 128) \<and>
     (\<forall>i > 128. term_buffer s i = b i)"

lemma line_store_updates [simp]:
  "line_store (s\<lparr>line_flag := x\<rparr>) = line_store s" "line_store (s\<lparr>caps_flag := x\<rparr>) = line_store s"
  "line_store (s\<lparr>shift_flag := x\<rparr>) = line_store s" "line_store (s\<lparr>buffer_index := n\<rparr>) = line_store s"
  "line_store (s\<lparr>term_buffer := t\<rparr>) = line_store s" "line_store (s\<lparr>ctrl_flag := x\<rparr>) = line_store s"
  "line_store (s\<lparr>alt_flag := x\<rparr>) = line_store s" "line_store (s\<lparr>tab_flag := x\<rparr>) = line_store s"
  "line_store (s\<lparr>f_key_pressed := x\<rparr>) = line_store s" "line_store (s\<lparr>terminalNumber := n\<rparr>) = line_store s"
  "line_store (s\<lparr>enter_pressed := e\<rparr>) = line_store s"
  by (simp_all add: line_store_def fun_eq_iff)

lemma paging_of_keys [simp]:
  "paging_of (s\<lparr>shift_flag := x\<rparr>) = paging_of s" "paging_of (s\<lparr>ctrl_flag := x\<rparr>) = paging_of s"
  "paging_of (s\<lparr>alt_flag := x\<rparr>) = paging_of s" "paging_of (s\<lparr>tab_flag := x\<rparr>) = paging_of s"
  "paging_of (s\<lparr>f_key_pressed := x\<rparr>) = paging_of s" "paging_of (s\<lparr>terminalNumber := n\<rparr>) = paging_of s"
  by (simp_all add: paging_of_def)

lemma kb_ok_updates [simp]:
  "kb_ok b (s\<lparr>line_flag := x\<rparr>) = kb_ok b s" "kb_ok b (s\<lparr>caps_flag := x\<rparr>) = kb_ok b s"
  "kb_ok b (s\<lparr>shift_flag := x\<rparr>) = kb_ok b s" "kb_ok b (s\<lparr>ctrl_flag := x\<rparr>) = kb_ok b s"
  "kb_ok b (s\<lparr>alt_flag := x\<rparr>) = kb_ok b s" "kb_ok b (s\<lparr>tab_flag := x\<rparr>) = kb_ok b s"
  "kb_ok b (s\<lparr>f_key_pressed := x\<rparr>) = kb_ok b s" "kb_ok b (s\<lparr>terminalNumber := n\<rparr>) = kb_ok b s"
  "kb_ok b (s\<lparr>enter_pressed := e\<rparr>) = kb_ok b s" "kb_ok b (putck c s) = kb_ok b s" "kb_ok b (cleark s) = kb_ok b s"
  by (simp_all add: kb_ok_def paging_cong(1) [OF paging_of_line(1)] paging_cong(1) [OF paging_of_line(2)]
      paging_cong(1) [OF paging_of_line(3)] paging_cong(1) [OF paging_of_keys(1)] paging_cong(1) [OF paging_of_keys(2)]
      paging_cong(1) [OF paging_of_keys(3)] paging_cong(1) [OF paging_of_keys(4)] paging_cong(1) [OF paging_of_keys(5)]
      paging_cong(1) [OF paging_of_keys(6)] paging_cong(1) [OF putck_frame(3)] paging_cong(1) [OF cleark_frame(3)])

lemma line_store_set_line [simp]: "line_store (set_line i x s) = line_store s"
  by (simp add: set_line_def)

lemma kb_ok_set_line: "i \<le> 128 \<Longrightarrow> kb_ok b (set_line i x s) = kb_ok b s"
  using paging_cong(1) [of "set_line i x s" s] by (auto simp: kb_ok_def)

lemma kb_ok_index: "0 \<le> n \<Longrightarrow> n \<le> 128 \<Longrightarrow> kb_ok b s \<Longrightarrow> kb_ok b (s\<lparr>buffer_index := n\<rparr>)"
  by (simp add: kb_ok_def)

lemma kb_ok_bounds: "kb_ok b s \<Longrightarrow> 0 \<le> buffer_index s \<and> buffer_index s \<le> 128"
  by (simp add: kb_ok_def)


lemma kb_ok_type_char:
  assumes "kb_ok b s" "buffer_index s < 128"
  shows "kb_ok b (type_char c s)"
proof -
  have i: "0 \<le> buffer_index s" using assms(1) by (simp add: kb_ok_def)
  with assms show ?thesis
    by (simp add: type_char_def Let_def kb_ok_set_line kb_ok_index)
qed

lemma kb_ok_erase_char: "kb_ok b s \<Longrightarrow> kb_ok b (erase_char c s)"
  using kb_ok_bounds [of b s] by (simp add: erase_char_def Let_def kb_ok_set_line kb_ok_index)

lemma kb_ok_end: "kb_ok b s \<Longrightarrow> kb_ok b (end_of_handler s)"
  by (simp add: end_of_handler_def kb_ok_set_line)

lemma kb_ok_shift_key: "kb_ok b s \<Longrightarrow> buffer_index s < 128 \<Longrightarrow> kb_ok b (shift_key c s)"
  by (auto simp: shift_key_def Let_def kb_ok_type_char)

lemma kb_ok_plain_key: "kb_ok b s \<Longrightarrow> buffer_index s < 128 \<Longrightarrow> kb_ok b (plain_key c s)"
  by (auto simp: plain_key_def Let_def kb_ok_type_char kb_ok_erase_char kb_ok_end)

lemma kb_ok_clear_line: "kb_ok b s \<Longrightarrow> kb_ok b (clear_line s)"
proof -
  assume "kb_ok b s"
  then have "kb_ok b (((cleark s)\<lparr>line_flag := 0\<rparr>)\<lparr>buffer_index := 0\<rparr>)" by (intro kb_ok_index) simp_all
  then show ?thesis by (simp add: clear_line_def)
qed

lemma halt_leaves: "halt st s = Some (f, s') \<Longrightarrow> f \<noteq> Ret r"
  by (auto simp: halt_def return_to_parent_def Let_def bind_eq_Some_conv split: if_splits flow.splits)
    (metis flow.exhaust)+

lemma kb_ok_char_key:
  assumes "kb_ok b s" "char_key c s = Some (Ret r, s')"
  shows "kb_ok b s'"
proof (cases "buffer_index s < 128")
  case True
  with assms show ?thesis
    by (auto simp: char_key_def Let_def kb_ok_shift_key kb_ok_plain_key kb_ok_clear_line split: if_splits dest: halt_leaves)
next
  case False
  then have "buffer_index s = 128" using kb_ok_bounds [OF assms(1)] by simp
  with assms show ?thesis
    by (auto simp: char_key_def Let_def kb_ok_clear_line kb_ok_end kb_ok_set_line kb_ok_index split: if_splits dest: halt_leaves)
qed

lemma kb_ok_tab_key:
  assumes "kb_ok b s"
  shows "kb_ok b (tab_key s)"
proof (cases "tab_flag s = 0 \<and> buffer_index s + 4 < 128")
  case True
  have i: "0 \<le> buffer_index s" using assms by (simp add: kb_ok_def)
  have p: "kb_ok b (fold putck bs t) = kb_ok b t" "buffer_index (fold putck bs t) = buffer_index t" for bs t
    by (induction bs arbitrary: t) simp_all
  let ?s = "printfk_plain ''    '' (s\<lparr>tab_flag := 1\<rparr>)"
  have s: "kb_ok b ?s" "buffer_index ?s = buffer_index s" using assms by (simp_all add: printfk_plain_def p)
  let ?t = "fold (\<lambda>i s. set_line (buffer_index s + int i) SPACE s) [0..<4] ?s"
  have "kb_ok b ?t \<and> buffer_index ?t = buffer_index s"
    by (rule fold_upt_inv [where P = "\<lambda>_ t. kb_ok b t \<and> buffer_index t = buffer_index s"])
      (use s True i in \<open>auto simp: kb_ok_set_line\<close>)
  moreover have "tab_key s = set_line (buffer_index s + 4) NUL (?t\<lparr>buffer_index := buffer_index s + 4\<rparr>)"
    using True calculation by (simp add: tab_key_def Let_def)
  ultimately show ?thesis using True i by (simp add: kb_ok_set_line kb_ok_index)
next
  case False
  with assms show ?thesis by (auto simp: tab_key_def Let_def)
qed

lemma kb_ok_enter_key: "kb_ok b s \<Longrightarrow> kb_ok b (enter_key s)"
proof -
  assume s: "kb_ok b s"
  have i: "0 \<le> buffer_index s" "buffer_index s \<le> 128" using kb_ok_bounds [OF s] by simp_all
  have p: "paging_ok (enter_key s) = paging_ok s" using paging_cong(1) [OF enter_key_simps(4)] .
  have l: "line_store (enter_key s) = line_store s" by (simp add: enter_key_def Let_def)
  show ?thesis using s i by (auto simp: kb_ok_def enter_key_simps p l)
qed

lemma kb_ok_switch:
  assumes "kb_ok b s" "n < 3"
  shows "kb_ok b (switch_terminal n s)"
proof (cases "n = visible_term s")
  case True
  then have eq: "switch_terminal n s = sti ((cli s)\<lparr>next_terminal := n\<rparr>)"
    by (simp add: switch_terminal_def Let_def)
  have "paging_of (switch_terminal n s) = paging_of s" by (simp add: eq)
  from paging_cong(1) [OF this] assms show ?thesis
    by (simp add: kb_ok_def eq line_store_def)
next
  case False
  have v: "visible_term s < 3" "paging_ok s" "0 \<le> buffer_index s" "buffer_index s \<le> 128"
    "\<forall>i < 3. VRAM_addr (terminals s i) = 0xB9000 + 0x1000 * word_of_nat i \<and> rb_idx (terminals s i) \<le> 128"
    "\<forall>i > 128. term_buffer s i = b i"
    using assms(1) by (auto simp: kb_ok_def line_store_def)
  then have sw: "switched_to n s (switch_terminal n s)"
    using assms(2) False by (intro switch_terminal_ok) (auto simp: backed_up_def)
  have idx: "(word_of_int (buffer_index s) :: byte) \<le> 128"
    using v(3,4) by (simp add: word_le_def unsigned_of_int take_bit_int_eq_self)
  have "uint (rb_idx (terminals s n)) \<le> 128"
    using v(5) assms(2) by (simp add: word_le_def)
  then show ?thesis
    using sw v assms(2) False idx paging_cong(1) [of "switch_terminal n s" s]
    by (auto simp: kb_ok_def line_store_def switched_to_def Let_def copy_buffer_def)
qed

lemma kb_ok_line_key: "kb_ok b s \<Longrightarrow> line_key c s = Some (Ret r, s') \<Longrightarrow> kb_ok b s'"
  by (auto simp: line_key_def kb_ok_tab_key kb_ok_enter_key kb_ok_end split: if_splits intro: kb_ok_char_key)

lemma kb_ok_function_key:
  assumes "kb_ok b s" "function_key c s = Some (Ret r, s')"
  shows "kb_ok b s'"
proof (cases "ctrl_flag s \<noteq> 0 \<and> alt_flag s \<noteq> 0 \<and> f_key_pressed s \<noteq> 0")
  case True
  let ?s = "s\<lparr>f_key_pressed := 0, terminalNumber := sint (c - 0x3B)\<rparr>"
  have s: "kb_ok b ?s" using assms(1) by simp
  show ?thesis
  proof (cases "sint (c - 0x3B) < 0 \<or> 2 < sint (c - 0x3B)")
    case True
    then show ?thesis using assms s \<open>ctrl_flag s \<noteq> 0 \<and> _\<close> by (auto simp: function_key_def Let_def)
  next
    case False
    then have "kb_ok b (switch_terminal (nat (sint (c - 0x3B))) ?s)" using s by (intro kb_ok_switch) auto
    then show ?thesis
      using assms(2) True False by (auto simp: function_key_def Let_def intro: kb_ok_line_key)
  qed
next
  case False
  with assms show ?thesis by (auto simp: function_key_def intro: kb_ok_line_key)
qed

text \<open>
  C26. No key makes the line outgrow its buffer: from a state with at most 128 characters typed, in this
  terminal and in the lines set aside, every scan code after which the handler returns leaves it so, and
  no byte beyond index 128 is written.  (Index 128 itself, one past the array, is written by Enter when
  the line is full.)
\<close>

theorem line_stays_bounded:
  assumes "paging_ok s" "backed_up s" "visible_term s < 3" "0 \<le> buffer_index s" "buffer_index s \<le> 128"
    and "\<forall>i < 3. rb_idx (terminals s i) \<le> 128" "keyboard_scan c s = Some (Ret r, s')"
  shows "0 \<le> buffer_index s' \<and> buffer_index s' \<le> 128 \<and> (\<forall>i < 3. rb_idx (terminals s' i) \<le> 128)
    \<and> visible_term s' < 3 \<and> backed_up s' \<and> (\<forall>i > 128. term_buffer s' i = term_buffer s i)"
proof -
  have "kb_ok (term_buffer s) s"
    using assms(1-6) by (simp add: kb_ok_def backed_up_def line_store_def)
  then have "kb_ok (term_buffer s) (s\<lparr>ctrl_flag := x\<rparr>)" "kb_ok (term_buffer s) (s\<lparr>f_key_pressed := x\<rparr>)"
    "kb_ok (term_buffer s) s" for x by simp_all
  note f = this [THEN kb_ok_function_key]
  have "kb_ok (term_buffer s) s'"
    using assms(7) \<open>kb_ok (term_buffer s) s\<close> by (auto simp: keyboard_scan_def split: if_splits dest: f)
  then show ?thesis by (simp add: kb_ok_def backed_up_def line_store_def)
qed

text \<open>A full line, ended by Enter.\<close>

theorem line_stays_bounded_witness:
  "\<exists>s'. keyboard_scan 0x1C (demo_three\<lparr>buffer_index := 128\<rparr>) = Some (Ret 0, s') \<and> buffer_index s' = 0
    \<and> term_buffer s' 128 = 0x0A \<and> term_buffer s' 129 = 0"
proof -
  let ?s = "demo_three\<lparr>buffer_index := 128\<rparr>"
  have k: "keyboard_scan 0x1C ?s = Some (Ret 0, enter_key ?s)" by (simp add: enter_scan)
  have "paging_ok ?s" using demo_three_ok by simp
  moreover have "backed_up ?s" using demo_backed_up by (simp add: backed_up_def)
  moreover have "\<forall>i < 3. rb_idx (terminals ?s i) \<le> 128"
    by (simp add: demo_three_def demo_state_simps demo_terminal_def zero_terminal_def)
  ultimately show ?thesis
    using line_stays_bounded [OF _ _ _ _ _ _ k] k by (simp add: enter_key_simps)
qed

section \<open>Reads that are longer than the buffer\<close>

lemma line_end_le: "line_end b n \<le> 128"
  if "128 < n"
proof (cases "find (\<lambda>i. i = 128 \<or> b i = NUL) [0..<n]")
  case None
  then show ?thesis using that by (auto simp: find_None_iff)
next
  case (Some i)
  then obtain k where k: "i = k" "k < n" "\<forall>j < k. \<not> (j = 128 \<or> b j = NUL)" by (auto simp: find_Some_iff)
  then have "\<not> 128 < k" by blast
  then show ?thesis using Some k(1) by (simp add: line_end_def)
qed

text \<open>
  C40. terminal_read clears as many bytes as it was asked for, not as many as the buffer has: a read of more than
  128 bytes, like those of the shell, returns at most 128 and sets every byte from term_buffer[128] up to
  the count to 0, which are other variables of the kernel.
\<close>

theorem long_read_clears_beyond:
  assumes "enter_pressed s (sched_term s) \<noteq> 0" "128 < n"
  shows "\<exists>r s'. terminal_read irq buf n s = Some (r, s') \<and> 0 \<le> r \<and> r \<le> 128
    \<and> (\<forall>j. term_buffer s' j = (if j < nat n then NUL else term_buffer s j))"
proof -
  have "wait_until (\<lambda>s. enter_pressed s (sched_term s) \<noteq> 0) irq 0 s = Some s"
    by (rule wait_until_ready) (rule assms(1))
  moreover have "term_buffer (vstore b xs s) = term_buffer s" for b xs
    by (induction xs arbitrary: b s) (simp_all add: vwrite_def split: option.split)
  ultimately show ?thesis
    using line_end_le [of "nat n" "term_buffer s"] assms(2) by (simp add: terminal_read_def Let_def)
qed

text \<open>A read of 1023 bytes, with another variable behind the buffer.\<close>

theorem long_read_clears_beyond_witness:
  "\<exists>r s'. terminal_read (\<lambda>_ s. s) 0x8000100 1023
      (demo_three\<lparr>enter_pressed := \<lambda>_. 1, term_buffer := (\<lambda>_. 0)(0 := 0x0A, 600 := 0x41, 1023 := 0x42)\<rparr>) = Some (r, s')
    \<and> term_buffer s' 600 = 0 \<and> term_buffer s' 1023 = 0x42"
  using long_read_clears_beyond [of "demo_three\<lparr>enter_pressed := \<lambda>_. 1, term_buffer := (\<lambda>_. 0)(0 := 0x0A, 600 := 0x41, 1023 := 0x42)\<rparr>"
      1023 "\<lambda>_ s. s" "0x8000100"] by auto

end
