(* ===== verification/Syscalls.thy ===== *)
theory Syscalls
  imports KeyBounds
begin

text \<open>
  The system call interface (system_calls.c, system_call_asm.S): the tables of file operations, read
  and write (\<open>sys_read\<close> and \<open>sys_write\<close> here), getargs, vidmap, and the assembly routine that picks
  a call by the number in eax and passes it ebx, ecx and edx.

  Addresses of the program are looked up in the page tables as they are at the call; a null pointer
  is the address 0.  \<open>irq\<close> stands for the interrupts that come while a call waits.  A call that
  follows a pointer to no mapped page, or waits for ever, has no result.
\<close>

section \<open>The tables of file operations\<close>

type_synonym 'a interrupts = "nat \<Rightarrow> 'a kernel_state_scheme \<Rightarrow> 'a kernel_state_scheme"

type_synonym 'a fd_call = "'a interrupts \<Rightarrow> int \<Rightarrow> nat \<Rightarrow> int \<Rightarrow> 'a kernel_state_scheme \<Rightarrow> (int \<times> 'a kernel_state_scheme) option"

text \<open>The read and write entries of each table; a null entry is \<open>None\<close>.\<close>

fun read_entry :: "file_ops \<Rightarrow> 'a fd_call option" where
  "read_entry f_ops = Some (\<lambda>irq fd buf nbytes s. do { (ret, bs, s) \<leftarrow> file_read fd nbytes s; Some (ret, vstore buf bs s) })"
| "read_entry d_ops = Some (\<lambda>irq fd buf nbytes s. do { (ret, bs, s) \<leftarrow> dir_read fd nbytes s; Some (ret, vstore buf bs s) })"
| "read_entry rtc_ops = Some (\<lambda>irq fd buf nbytes s. rtc_read irq s)"
| "read_entry stdin_fops = Some (\<lambda>irq fd buf nbytes s. terminal_read irq buf nbytes s)"
| "read_entry stdout_fops = None"

fun write_entry :: "file_ops \<Rightarrow> 'a fd_call option" where
  "write_entry f_ops = Some (\<lambda>irq fd buf nbytes s. Some (file_write fd [] nbytes, s))"
| "write_entry d_ops = Some (\<lambda>irq fd buf nbytes s. Some (dir_write fd [] nbytes, s))"
| "write_entry rtc_ops = Some (\<lambda>irq fd buf nbytes s. Some (rtc_write (Some (load_i32 (kmem s) buf)) s))"
| "write_entry stdin_fops = None"
| "write_entry stdout_fops = Some (\<lambda>irq fd buf nbytes s. Some (terminal_write (Some buf) nbytes s))"

text \<open>The open and close entries, which no call uses.\<close>

fun open_entry :: "file_ops \<Rightarrow> carray \<Rightarrow> 'a kernel_state_scheme \<Rightarrow> int \<times> 'a kernel_state_scheme" where
  "open_entry f_ops name s = (file_open name, s)"
| "open_entry d_ops name s = (file_open name, s)"
| "open_entry rtc_ops name s = rtc_open s"
| "open_entry stdin_fops name s = (terminal_open, s)"
| "open_entry stdout_fops name s = (terminal_open, s)"

fun close_entry :: "file_ops \<Rightarrow> int \<Rightarrow> 'a kernel_state_scheme \<Rightarrow> int \<times> 'a kernel_state_scheme" where
  "close_entry f_ops fd s = (file_close fd, s)"
| "close_entry d_ops fd s = (file_close fd, s)"
| "close_entry rtc_ops fd s = rtc_close s"
| "close_entry stdin_fops fd s = (terminal_close, s)"
| "close_entry stdout_fops fd s = (terminal_close, s)"

section \<open>The calls\<close>

definition sys_read :: "'a fd_call" where
  "sys_read irq fd buf nbytes s =
     (let pid_num = running_pid s;
          s = update_file_pcb pid_num s;
          pcb = pcbs s pid_num
      in if fd < 0 \<or> fd \<ge> num_open_descriptors pcb then Some (-1, s)
      else if buf = 0 then Some (-1, s)
      else case Option.bind (fops (file_desc_arr pcb (nat fd))) read_entry of
        Some rd \<Rightarrow> rd irq fd buf nbytes s
      | None \<Rightarrow> Some (-1, s))"

definition sys_write :: "'a fd_call" where
  "sys_write irq fd buf nbytes s =
     (let pid_num = running_pid s;
          s = update_file_pcb pid_num s;
          pcb = pcbs s pid_num
      in if fd < 0 \<or> fd \<ge> num_open_descriptors pcb then Some (-1, s)
      else if buf = 0 then Some (-1, s)
      else case Option.bind (fops (file_desc_arr pcb (nat fd))) write_entry of
        Some wr \<Rightarrow> wr irq fd buf nbytes s
      | None \<Rightarrow> Some (-1, s))"

text \<open>
  The control block of pid 0 would lie at the unmapped address 0x800000, so reading it is a page fault.
\<close>

definition getargs :: "nat \<Rightarrow> int \<Rightarrow> 'a kernel_state_scheme \<Rightarrow> (int \<times> 'a kernel_state_scheme) option" where
  "getargs buf nbytes s =
     (if buf = 0 then Some (-1, s)
      else
        let pid_num = (case free_pid s of Some i \<Rightarrow> int i | None \<Rightarrow> int MAX_PCBS);
            pcb = pcbs s pid_num
        in if pid_num = 0 then None
        else if args pcb 0 = NUL then Some (-1, s)
        else Some (0, vstore buf (map (args pcb) [0..<32]) s))"

definition vidmap :: "nat \<Rightarrow> 'a kernel_state_scheme \<Rightarrow> int \<times> 'a kernel_state_scheme" where
  "vidmap screen_start s =
     (let s = cli s in
      if screen_start = 0 then (-1, s)
      else
        let address = sint (word_of_nat screen_start :: u32) in
        if address < 0x8000000 \<or> address \<ge> 0x8000000 + 0x400000 then (-1, s)
        else
          let s = set_pde_frame4kb 33 (drop_bit 12 (page_table_vidmap_addr s)) s;
              s = flush_tlb s;
              s = vstore screen_start (bytes32 (0x8400000 + 0x1000 * word_of_nat (sched_term s))) s
          in (0, sti s))"

definition set_handler :: "int \<Rightarrow> nat \<Rightarrow> int" where
  "set_handler signum handler_address = 0"

definition sigreturn :: int where
  "sigreturn = 0"

section \<open>The dispatcher\<close>

text \<open>
  The jump table; entry 0 is a null pointer.  A call that returns its value to the program is \<open>Ret\<close>;
  execute and halt may leave for another program instead.
\<close>

definition syscall_table :: "'a interrupts \<Rightarrow> u32 \<Rightarrow> u32 \<Rightarrow> u32 \<Rightarrow>
    ('a kernel_state_scheme \<Rightarrow> (flow \<times> 'a kernel_state_scheme) option) list" where
  "syscall_table irq ebx ecx edx =
    [\<lambda>s. None,
     \<lambda>s. halt (sint (ucast ebx :: byte)) s,
     \<lambda>s. execute (if ebx = 0 then None else Some (\<lambda>i. kmem s (unat ebx + i))) s,
     \<lambda>s. do { (r, s) \<leftarrow> sys_read irq (sint ebx) (unat ecx) (sint edx) s; Some (Ret r, s) },
     \<lambda>s. do { (r, s) \<leftarrow> sys_write irq (sint ebx) (unat ecx) (sint edx) s; Some (Ret r, s) },
     \<lambda>s. do { (r, s) \<leftarrow> open_file (\<lambda>i. kmem s (unat ebx + i)) s; Some (Ret r, s) },
     \<lambda>s. let (r, s) = close_fd (sint ebx) s in Some (Ret r, s),
     \<lambda>s. do { (r, s) \<leftarrow> getargs (unat ebx) (sint ecx) s; Some (Ret r, s) },
     \<lambda>s. let (r, s) = vidmap (unat ebx) s in Some (Ret r, s),
     \<lambda>s. Some (Ret (set_handler (sint ebx) (unat ecx)), s),
     \<lambda>s. Some (Ret sigreturn, s)]"

text \<open>
  The flags are pushed on entry and popped before the return, so a call that returns has the interrupt
  flag of its entry.
\<close>

definition syscall_asm :: "'a interrupts \<Rightarrow> u32 \<Rightarrow> u32 \<Rightarrow> u32 \<Rightarrow> u32 \<Rightarrow> 'a kernel_state_scheme \<Rightarrow>
    (flow \<times> 'a kernel_state_scheme) option" where
  "syscall_asm irq eax ebx ecx edx s =
     (if sint eax < 1 \<or> sint eax > 10 then Some (Ret (-1), s)
      else do {
        (f, s') \<leftarrow> (syscall_table irq ebx ecx edx ! nat (sint eax)) s;
        case f of Ret r \<Rightarrow> Some (Ret r, s'\<lparr>iflag := iflag s\<rparr>) | _ \<Rightarrow> Some (f, s')
      })"

section \<open>Reading a file by system calls\<close>

lemma update_file_pcb_simps [simp]:
  "file_pcb (update_file_pcb p s) = Some p" "pcbs (update_file_pcb p s) = pcbs s" "mem (update_file_pcb p s) = mem s"
  "fs (update_file_pcb p s) = fs s" "iflag (update_file_pcb p s) = iflag s" "terminals (update_file_pcb p s) = terminals s"
  "sched_term (update_file_pcb p s) = sched_term s" "paging_of (update_file_pcb p s) = paging_of s"
  by (simp_all add: update_file_pcb_def paging_of_def)

lemmas update_file_pcb_paging [simp] = paging_cong [OF update_file_pcb_simps(8)]

lemma keep_iflag: "iflag s' = b \<Longrightarrow> s'\<lparr>iflag := b\<rparr> = s'"
  by (cases s') simp

lemma syscall_call:
  assumes "eax \<in> {1, 2, 3, 4, 5, 6, 7, 8, 9, 10 :: nat}"
    and "(syscall_table irq ebx ecx edx ! eax) s = Some (Ret r, s')" "s'' = s'\<lparr>iflag := iflag s\<rparr>"
  shows "syscall_asm irq (word_of_nat eax) ebx ecx edx s = Some (Ret r, s'')"
  using assms by (auto simp: syscall_asm_def)

text \<open>The lowest free descriptor is not above the count.\<close>

lemma free_fd_count:
  assumes "fd_table_ok p" "num_open_descriptors p < 8"
  shows "int (free_fd p) \<le> num_open_descriptors p"
proof -
  have "{0, 1} \<union> {j. 2 \<le> j \<and> j < free_fd p} \<subseteq> open_fds p"
    using assms(1) free_fd_lowest [OF assms] by (auto simp: open_fds_def fd_table_ok_def)
  moreover have "{0, 1} \<union> {j. 2 \<le> j \<and> j < free_fd p} = {..<free_fd p}"
    using free_fd_lowest(1) [OF assms] by auto
  ultimately have "free_fd p \<le> card (open_fds p)"
    using card_mono [OF finite_open_fds, of "{..<free_fd p}" p] by (metis card_lessThan)
  with assms(1) show ?thesis by (simp add: fd_table_ok_def)
qed

lemma sys_open_file:
  assumes "fs_ok s" "cstr (\<lambda>i. kmem s (unat ebx + i)) = Some n" "lookup s n = Some d" "open_ops d = Some (ops, inode)"
    and "pcb = pcbs s (running_pid s)" "num_open_descriptors pcb < 8"
  shows "syscall_asm irq 5 ebx ecx edx s = Some (Ret (int (free_fd pcb)),
    upd_pcb (running_pid s) (open_in (free_fd pcb) (opened_fd ops inode (filename d))) s)"
proof -
  have "open_file (\<lambda>i. kmem s (unat ebx + i)) s = Some (int (free_fd pcb),
      upd_pcb (running_pid s) (open_in (free_fd pcb) (opened_fd ops inode (filename d))) s)"
    unfolding assms(5) using lookup_eq [OF assms(1,2)] assms(3-6) by (intro open_file_eq) auto
  then show ?thesis
    using syscall_call [of 5 irq ebx ecx edx s "int (free_fd pcb)"] by (simp add: syscall_table_def keep_iflag)
qed

lemma sys_read_file:
  assumes "p = running_pid s" "readable (update_file_pcb p s) p fd" "fops (file_desc_arr (pcbs s p) fd) = Some f_ops"
    and "fd < 8" "ebx = word_of_nat fd" "unat ecx = 0x8000000 + k" "0 \<le> sint edx"
    and "off = file_offset (file_desc_arr (pcbs s p) fd)" "c = take (nat (sint edx)) (drop (nat off) (fd_content s p fd))"
    and "k + length c \<le> 0x400000"
  shows "\<exists>s'. syscall_asm irq 3 ebx ecx edx s = Some (Ret (int (length c)), s')
    \<and> mem s' = store_bytes (user_frame s * 0x400000 + k) c (mem s)
    \<and> pcbs s' = (pcbs s)(p := seek fd (off + int (length c)) (pcbs s p))"
proof -
  let ?s = "update_file_pcb p s"
  let ?s1 = "upd_pcb p (seek fd (off + int (length c))) ?s"
  have c: "fd_content ?s p fd = fd_content s p fd" by (simp add: fd_content_def)
  have "fd = 0 \<or> fd = 1 \<or> fd = 2 \<or> fd = 3 \<or> fd = 4 \<or> fd = 5 \<or> fd = 6 \<or> fd = 7" using assms(4) by linarith
  then have fdw: "sint ebx = int fd" using assms(5) by auto
  have "file_read (int fd) (sint edx) ?s = Some (int (length c), c, ?s1)"
    using file_read_eq [OF assms(2,7)] assms(8,9) c by simp
  moreover have "int fd < num_open_descriptors (pcbs s p)" using assms(2) by (simp add: readable_def)
  moreover have "vstore (unat ecx) c ?s1 = ?s1\<lparr>mem := store_bytes (user_frame s * 0x400000 + k) c (mem s)\<rparr>"
    unfolding assms(6) using assms(2,10) by (subst vstore_user) (simp_all add: readable_def)
  ultimately have "sys_read irq (sint ebx) (unat ecx) (sint edx) s =
      Some (int (length c), ?s1\<lparr>mem := store_bytes (user_frame s * 0x400000 + k) c (mem s)\<rparr>)"
    using assms(1,3,6) by (simp add: sys_read_def Let_def fdw)
  then show ?thesis
    using syscall_call [of 3 irq ebx ecx edx s "int (length c)"] by (simp add: syscall_table_def)
qed

text \<open>
  A program reads a file by its name: open, given the name of a regular file whose inode is not 0,
  returns a descriptor, and read on that descriptor returns the number of bytes up to the size of the
  buffer and puts exactly the first bytes of the file at the buffer in the program's frame; no other
  byte of memory changes.
\<close>

theorem open_then_read:
  assumes "fs_ok s" "cstr (\<lambda>i. kmem s (unat ebx + i)) = Some n" "lookup s n = Some d" "filetype d = 2"
    and "inode_num d \<noteq> 0" "inode_placed (mem s) (fs s) (inode_num d)" "p = running_pid s"
    and "fd_table_ok (pcbs s p)" "num_open_descriptors (pcbs s p) < 8"
    and "unat buf = 0x8000000 + k" "0 \<le> sint nbytes" "c = take (nat (sint nbytes)) (file_content (mem s) (fs s) (inode_num d))"
    and "k + length c \<le> 0x400000"
  shows "\<exists>fd s1 s2. 2 \<le> fd \<and> fd < 8 \<and> syscall_asm irq 5 ebx ecx edx s = Some (Ret (int fd), s1)
    \<and> syscall_asm irq 3 (word_of_nat fd) buf nbytes s1 = Some (Ret (int (length c)), s2)
    \<and> mem s2 = store_bytes (user_frame s * 0x400000 + k) c (mem s)
    \<and> file_offset (file_desc_arr (pcbs s2 p) fd) = int (length c)"
proof -
  let ?fd = "free_fd (pcbs s p)"
  let ?s1 = "upd_pcb p (open_in ?fd (opened_fd f_ops (inode_num d) (filename d))) s"
  have ops: "open_ops d = Some (f_ops, inode_num d)" using assms(4) by (simp add: open_ops_def)
  have 1: "syscall_asm irq 5 ebx ecx edx s = Some (Ret (int ?fd), ?s1)"
    using sys_open_file [OF assms(1-3) ops refl] assms(7,9) by simp
  have low: "2 \<le> ?fd" "?fd < 8" using free_fd_lowest [OF assms(8,9)] by simp_all
  have run: "p = running_pid ?s1" using assms(7) by simp
  have "int ?fd < num_open_descriptors (pcbs s p) + 1" using free_fd_count [OF assms(8,9)] by simp
  then have r: "readable (update_file_pcb p ?s1) p ?fd"
    using assms(1,5,6) by (simp add: readable_def fs_ok_def open_in_def opened_fd_def)
  have f: "fops (file_desc_arr (pcbs ?s1 p) ?fd) = Some f_ops" "file_offset (file_desc_arr (pcbs ?s1 p) ?fd) = 0"
    "fd_content ?s1 p ?fd = file_content (mem s) (fs s) (inode_num d)"
    by (simp_all add: open_in_def opened_fd_def fd_content_def)
  have "c = take (nat (sint nbytes)) (drop (nat 0) (fd_content ?s1 p ?fd))" using assms(12) f(3) by simp
  from sys_read_file [OF run r f(1) low(2) refl assms(10,11) f(2) [symmetric] this assms(13), of irq]
  obtain s2 where "syscall_asm irq 3 (word_of_nat ?fd) buf nbytes ?s1 = Some (Ret (int (length c)), s2)"
    "mem s2 = store_bytes (user_frame s * 0x400000 + k) c (mem s)"
    "file_offset (file_desc_arr (pcbs s2 p) ?fd) = int (length c)"
    by (auto simp: seek_def)
  then show ?thesis using 1 low by blast
qed

lemma kmem_low: "paging_ok s \<Longrightarrow> 0x400000 \<le> a \<Longrightarrow> a < 0x800000 \<Longrightarrow> kmem s a = mem s a"
  by (simp add: kmem_def vread_def mmu_kernel)

lemma demo_name_at: "cstr (\<lambda>i. kmem demo_running (0x500080 + i)) = Some (bytes_of ''f'')"
proof -
  have k: "kmem demo_running (0x500080 + i) = demo_mem (0x500080 + i)" if "i < 2" for i
    using that demo_running_simps(2,4) by (simp add: kmem_low fs_ok_def)
  have "demo_mem 0x500080 = 0x66" "demo_mem 0x500081 = NUL"
    using demo_name_bytes(3,4) by (simp_all add: bytes_of_def load_bytes_def)
  then have "strlen (\<lambda>i. kmem demo_running (0x500080 + i)) = Some 1"
    using k [of 0] k [of 1] by (simp add: strlen_eq_Some)
  then show ?thesis using k [of 0] \<open>demo_mem 0x500080 = 0x66\<close> by (simp add: cstr_eq_Some bytes_of_def)
qed

theorem open_then_read_witness:
  "\<exists>fd s1 s2. syscall_asm (\<lambda>_ s. s) 5 0x500080 0 0 demo_running = Some (Ret (int fd), s1)
    \<and> syscall_asm (\<lambda>_ s. s) 3 (word_of_nat fd) 0x8001000 3 s1 = Some (Ret 3, s2)
    \<and> mem s2 = store_bytes (user_frame demo_running * 0x400000 + 0x1000) (bytes_of ''hel'') demo_mem"
proof -
  let ?d = "load_dentry demo_mem 0x500080"
  have "cstr (\<lambda>i. kmem demo_running (unat (0x500080 :: u32) + i)) = Some (bytes_of ''f'')" using demo_name_at by simp
  moreover have "inode_placed (mem demo_running) (fs demo_running) (inode_num ?d)"
    using demo_inode_placed(2) by (simp add: demo_running_simps demo_f)
  moreover have "bytes_of ''hel'' = take (nat (sint (3 :: u32))) (file_content (mem demo_running) (fs demo_running) (inode_num ?d))"
    by (simp add: demo_running_simps demo_f demo_data) (simp add: bytes_of_def)
  moreover have "length (bytes_of ''hel'') = 3" by simp
  ultimately obtain fd s1 s2 where "syscall_asm (\<lambda>_ s. s) 5 0x500080 0 0 demo_running = Some (Ret (int fd), s1)"
    "syscall_asm (\<lambda>_ s. s) 3 (word_of_nat fd) 0x8001000 3 s1 = Some (Ret 3, s2)"
    "mem s2 = store_bytes (user_frame demo_running * 0x400000 + 0x1000) (bytes_of ''hel'') (mem demo_running)"
    using open_then_read [of demo_running "0x500080" "bytes_of ''f''" ?d 1 "0x8001000" "0x1000" 3 "bytes_of ''hel''" "\<lambda>_ s. s" 0 0]
    unfolding demo_running_simps demo_f demo_lookup by (auto simp del: length_bytes_of simp: demo_running_simps)
  then show ?thesis by (auto simp: demo_running_simps)
qed

section \<open>The directions of the standard descriptors\<close>

text \<open>
  The standard descriptors have one direction each, and files cannot be written: for a process with
  a consistent table, write on 0, read on 1, and write on any descriptor opened on a file or directory
  give -1; the process, memory, the screen and the file system stay as they are.
\<close>

theorem one_way_descriptors:
  assumes "p = running_pid s" "fd_table_ok (pcbs s p)" "s' = update_file_pcb p s"
    and "j < num_open_descriptors (pcbs s p)" "0 \<le> j"
    and "fops (file_desc_arr (pcbs s p) (nat j)) \<in> {Some f_ops, Some d_ops}" "sint ebx = j"
  shows "syscall_asm irq 4 0 ecx edx s = Some (Ret (-1), s') \<and> syscall_asm irq 3 1 ecx edx s = Some (Ret (-1), s')
    \<and> syscall_asm irq 4 ebx ecx edx s = Some (Ret (-1), s')"
proof -
  have n: "2 \<le> num_open_descriptors (pcbs s p)"
  proof -
    have "{0, 1} \<subseteq> open_fds (pcbs s p)" using assms(2) by (auto simp: open_fds_def fd_table_ok_def)
    then have "card {0, 1 :: nat} \<le> card (open_fds (pcbs s p))" by (intro card_mono) simp_all
    then show ?thesis using assms(2) by (simp add: fd_table_ok_def)
  qed
  have t: "fops (file_desc_arr (pcbs s p) 0) = Some stdin_fops" "fops (file_desc_arr (pcbs s p) 1) = Some stdout_fops"
    using assms(2) by (simp_all add: fd_table_ok_def)
  have "sys_write irq 0 (unat ecx) (sint edx) s = Some (-1, s')" "sys_read irq 1 (unat ecx) (sint edx) s = Some (-1, s')"
    using assms(1,3) n t by (simp_all add: sys_write_def sys_read_def Let_def)
  moreover have "sys_write irq j (unat ecx) (sint edx) s = Some (-1, s')"
    using assms(1,3-6) by (auto simp: sys_write_def Let_def file_write_def dir_write_def)
  moreover have "s'\<lparr>iflag := iflag s\<rparr> = s'" using assms(3) by (simp add: keep_iflag)
  ultimately show ?thesis
    using syscall_call [of 4 irq 0 ecx edx s "-1" s'] syscall_call [of 3 irq 1 ecx edx s "-1" s']
      syscall_call [of 4 irq ebx ecx edx s "-1" s'] assms(7) by (simp add: syscall_table_def)
qed

theorem one_way_descriptors_witness:
  "syscall_asm (\<lambda>_ s. s) 4 2 0x8000000 5 demo_reading = Some (Ret (-1), update_file_pcb 1 demo_reading)
    \<and> syscall_asm (\<lambda>_ s. s) 4 0 0x8000000 5 demo_reading = Some (Ret (-1), update_file_pcb 1 demo_reading)"
proof -
  have "fd_table_ok (pcbs demo_reading 1)"
  proof -
    have "flags (file_desc_arr (pcbs demo_running 1) 2) = 0"
      by (simp add: demo_running_def build_pcb_fds)
    then show ?thesis
      unfolding demo_reading_def open_in_def
      using demo_running_simps(5) by (simp, intro fd_table_ok_open) (simp_all add: opened_fd_def)
  qed
  moreover have "running_pid demo_reading = 1" "num_open_descriptors (pcbs demo_reading 1) = 3"
    "fops (file_desc_arr (pcbs demo_reading 1) 2) = Some f_ops"
    by (simp_all add: demo_reading_def demo_running_simps open_in_def opened_fd_def)
  ultimately show ?thesis using one_way_descriptors [of 1 demo_reading _ 2 2] by simp
qed

section \<open>Program arguments\<close>

lemma sys_getargs:
  assumes "paging_ok s" "free_pid s = (if p = 6 then None else Some p)" "1 \<le> p" "args (pcbs s (int p)) 0 \<noteq> NUL"
    and "unat ebx = 0x8000000 + k" "k + 32 \<le> 0x400000"
  shows "syscall_asm irq 7 ebx ecx edx s = Some (Ret 0,
    s\<lparr>mem := store_bytes (user_frame s * 0x400000 + k) (map (args (pcbs s (int p))) [0..<32]) (mem s)\<rparr>)"
proof -
  have "vstore (unat ebx) (map (args (pcbs s (int p))) [0..<32]) s =
      s\<lparr>mem := store_bytes (user_frame s * 0x400000 + k) (map (args (pcbs s (int p))) [0..<32]) (mem s)\<rparr>"
    unfolding assms(5) using assms(1,6) by (intro vstore_user) simp_all
  then have "getargs (unat ebx) (sint ecx) s = Some (0,
      s\<lparr>mem := store_bytes (user_frame s * 0x400000 + k) (map (args (pcbs s (int p))) [0..<32]) (mem s)\<rparr>)"
    using assms(2-5) by (auto simp: getargs_def Let_def simp del: upt_conv_Cons)
  then show ?thesis
    using syscall_call [of 7 irq ebx ecx edx s 0] by (simp add: syscall_table_def del: upt_conv_Cons)
qed

lemma free_pid_eq:
  assumes "p \<le> 6" "{j. j < p} \<inter> {j. pid_arr s (int j) = 0} = {}" "p = 6 \<or> pid_arr s (int p) = 0"
  shows "free_pid s = (if p = 6 then None else Some p)"
proof (cases "p = 6")
  case True
  then show ?thesis using assms(2) by (auto simp: free_pid_def find_None_iff simp del: upt_conv_Cons)
next
  case False
  then have "find (\<lambda>i. pid_arr s (int i) = 0) [0..<6] = Some p"
    unfolding find_Some_iff using assms by (intro exI [of _ p]) (auto simp del: upt_conv_Cons)
  then show ?thesis using False by (simp add: free_pid_def)
qed

text \<open>
  A program gets its arguments: when execute has started it from a command line with arguments
  \<open>a\<close> (at most 32 bytes) and the pid after its own is not in use, getargs stores exactly those bytes,
  filled up with NULs to 32, at the given place in the program's frame.
\<close>

theorem arguments_delivered:
  assumes "fs_ok s" "command_line c w a" "lookup s w = Some d" "program_file s d prog" "free_pid s = Some i"
    and "i = 5 \<or> pid_arr s (int i + 1) = 0" "a \<noteq> []" "length a \<le> 32"
    and "unat buf = 0x8000000 + k" "k + 32 \<le> 0x400000"
  shows "\<exists>s1 s2. execute (Some c) s = Some (ToUser (entry_point prog) 0x83FFFFC, s1)
    \<and> syscall_asm irq 7 buf nbytes edx s1 = Some (Ret 0, s2)
    \<and> mem s2 = store_bytes (user_frame s1 * 0x400000 + k) (a @ replicate (32 - length a) NUL) (mem s1)"
proof -
  let ?arg = "\<lambda>j. if j < length a then a ! j else NUL"
  obtain s1 where s1: "execute (Some c) s = Some (ToUser (entry_point prog) 0x83FFFFC, s1)"
    "process_started (int i + 1) ?arg prog s s1"
    using execute_starts [OF assms(1-5)] by blast
  have i: "i < 6" "pid_arr s (int i) = 0" "\<forall>j < i. pid_arr s (int j) \<noteq> 0"
    using assms(5) unfolding free_pid_def find_Some_iff by (auto simp del: upt_conv_Cons)
  have "pid_arr s1 = (pid_arr s)(int i := 1)" using s1(2) by (simp add: process_started_def)
  then have f: "free_pid s1 = (if i + 1 = 6 then None else Some (i + 1))"
    using i assms(6) by (intro free_pid_eq) (auto simp: less_Suc_eq add.commute)
  have arg: "args (pcbs s1 (int (i + 1))) j = ?arg j" if "j < 32" for j
    using s1(2) that by (simp add: process_started_def add.commute)
  have "map (args (pcbs s1 (int (i + 1)))) [0..<32] = a @ replicate (32 - length a) NUL"
    using arg assms(8) by (intro nth_equalityI) (auto simp: nth_append simp del: upt_conv_Cons)
  moreover have "args (pcbs s1 (int (i + 1))) 0 \<noteq> NUL"
  proof -
    have "\<forall>b \<in> set a. b \<noteq> NUL" using assms(2) by (simp add: command_line_def)
    then show ?thesis using arg [of 0] assms(7) by (cases a) auto
  qed
  ultimately show ?thesis
    using s1 f assms(9,10) sys_getargs [of s1 "i + 1" buf k irq nbytes edx] by (auto simp: process_started_def)
qed

lemma demo_args_command: "command_line (arr_of (bytes_of ''shell hi'')) (bytes_of ''shell'') (bytes_of ''hi'')"
proof -
  let ?c = "arr_of (bytes_of ''shell hi'')"
  have c: "?c = arr_of [0x73, 0x68, 0x65, 0x6C, 0x6C, 0x20, 0x68, 0x69]" by (simp add: bytes_of_def)
  have five: "j = 5" if "5 \<le> j" "j < 6" for j :: nat using that by simp
  have "\<exists>k < 32. is_blank (?c k)" by (rule exI [of _ 5]) (simp add: c is_blank_def)
  moreover have "\<forall>j. 5 \<le> j \<and> j < 6 \<longrightarrow> is_blank (?c j)" using five by (auto simp: c is_blank_def)
  moreover have "\<not> is_blank (?c 6)" "\<forall>i < 2. ?c (6 + i) = bytes_of ''hi'' ! i" "?c (6 + 2) = NUL"
    by (simp_all add: c is_blank_def bytes_of_def less_2_cases_iff)
  moreover have "\<forall>i < 5. ?c i = bytes_of ''shell'' ! i"
    by (simp add: c bytes_of_def numeral_eq_Suc less_Suc_eq)
  moreover have "\<forall>b \<in> set (bytes_of ''shell''). \<not> is_blank b \<and> b \<noteq> NUL" "\<forall>b \<in> set (bytes_of ''hi''). b \<noteq> NUL"
    by (simp_all add: bytes_of_def is_blank_def)
  ultimately show ?thesis
    unfolding command_line_def by (auto intro!: exI [of _ 6])
qed

theorem arguments_delivered_witness:
  "\<exists>s1 s2. execute (Some (arr_of (bytes_of ''shell hi''))) demo_state = Some (ToUser (entry_point demo_prog) 0x83FFFFC, s1)
    \<and> syscall_asm (\<lambda>_ s. s) 7 0x8001000 32 0 s1 = Some (Ret 0, s2)
    \<and> load_bytes (mem s2) (user_frame s1 * 0x400000 + 0x1000) 2 = bytes_of ''hi''"
proof -
  let ?a = "bytes_of ''hi''"
  have l: "length ?a = 2" by simp
  have "?a \<noteq> []" "length ?a \<le> 32" by (simp_all add: bytes_of_def)
  moreover have "pid_arr demo_state (int 0 + 1) = 0" by (simp add: demo_state_simps)
  ultimately obtain s1 s2 where s: "execute (Some (arr_of (bytes_of ''shell hi''))) demo_state = Some (ToUser (entry_point demo_prog) 0x83FFFFC, s1)"
    "syscall_asm (\<lambda>_ s. s) 7 0x8001000 32 0 s1 = Some (Ret 0, s2)"
    "mem s2 = store_bytes (user_frame s1 * 0x400000 + 0x1000) (?a @ replicate (32 - length ?a) NUL) (mem s1)"
    using arguments_delivered [OF demo_fs_ok demo_args_command demo_lookup_shell demo_program demo_free, of "0x8001000" "0x1000" "\<lambda>_ s. s" 32 0]
    by (auto simp del: length_bytes_of)
  have "load_bytes (mem s2) (user_frame s1 * 0x400000 + 0x1000) 2 = take 2 (load_bytes (mem s2) (user_frame s1 * 0x400000 + 0x1000) 32)"
    by (rule nth_equalityI) simp_all
  also have "\<dots> = ?a" unfolding s(3) by (subst load_store_eq) (simp_all add: l)
  finally show ?thesis using s(1,2) by blast
qed

text \<open>
  C34. getargs does not look at who calls: when pids 1 to \<open>p\<close> are in use and the next is not, every
  process gets the arguments of process \<open>p\<close>, the last one started, and always 32 bytes of them
  whatever size it gives for its buffer.
\<close>

theorem getargs_newest_process:
  assumes "paging_ok s" "1 \<le> p" "p \<le> 6" "{j. j < p} \<inter> {j. pid_arr s (int j) = 0} = {}" "p = 6 \<or> pid_arr s (int p) = 0"
    and "args (pcbs s (int p)) 0 \<noteq> NUL" "unat buf = 0x8000000 + k" "k + 32 \<le> 0x400000"
  shows "syscall_asm irq 7 buf nbytes edx s = Some (Ret 0,
    s\<lparr>mem := store_bytes (user_frame s * 0x400000 + k) (map (args (pcbs s (int p))) [0..<32]) (mem s)\<rparr>)"
  using sys_getargs [OF assms(1) free_pid_eq [OF assms(3-5)] assms(2,6-8)] .

text \<open>Process 1 runs on terminal 0 with arguments \<open>A\<close>; process 2, on terminal 1, has arguments \<open>B\<close>.\<close>

definition demo_two_args :: kernel_state where
  "demo_two_args = demo_three\<lparr>pid_arr := (\<lambda>_. 0)(0 := 1, 1 := 1),
     pcbs := (\<lambda>p. (pcbs demo_three p)\<lparr>args := (if p = 1 then (\<lambda>_. 0x41) else (\<lambda>_. 0x42))\<rparr>)\<rparr>"

theorem getargs_newest_process_witness:
  "running_pid demo_two_args = 1 \<and> args (pcbs demo_two_args 1) 0 = 0x41
    \<and> (\<exists>s'. syscall_asm (\<lambda>_ s. s) 7 0x8001000 1 0 demo_two_args = Some (Ret 0, s')
      \<and> mem s' = store_bytes (user_frame demo_two_args * 0x400000 + 0x1000) (replicate 32 0x42) (mem demo_two_args))"
proof -
  have ok: "paging_ok demo_two_args"
    using demo_three_ok paging_cong(1) [of demo_two_args demo_three] by (simp add: demo_two_args_def paging_of_def)
  have d: "pid_arr demo_two_args = (\<lambda>_. 0)(0 := 1, 1 := 1)" "args (pcbs demo_two_args 1) = (\<lambda>_. 0x41)"
    "args (pcbs demo_two_args 2) = (\<lambda>_. 0x42)" "running_pid demo_two_args = 1"
    by (simp_all add: demo_two_args_def running_pid_def)
  have "{j. j < 2} \<inter> {j. pid_arr demo_two_args (int j) = 0} = {}" by (auto simp: d less_2_cases_iff)
  moreover have "map (\<lambda>_. 0x42 :: byte) [0..<32] = replicate 32 0x42"
    using map_replicate_const [of "0x42" "[0..<32]"] by (simp only: length_upt diff_zero)
  ultimately show ?thesis
    using getargs_newest_process [OF ok, of 2 "0x8001000" "0x1000" "\<lambda>_ s. s" 1 0] d by (simp del: upt_conv_Cons upt_rec_numeral)
qed

section \<open>The video page\<close>

lemma vidmap_pde_simps [simp]:
  "user_frame (set_pde_frame4kb 33 v s) = user_frame s" "vidmap_frame (set_pde_frame4kb 33 v s) = vidmap_frame s"
  "mem (set_pde_frame4kb 33 v t) = mem t" "sched_term (set_pde_frame4kb 33 v t) = sched_term t"
  "visible_term (set_pde_frame4kb 33 v t) = visible_term t" "iflag (set_pde_frame4kb 33 v s) = iflag s"
  "terminals (set_pde_frame4kb 33 v t) = terminals t" "console_state.more (set_pde_frame4kb 33 v t) = console_state.more t"
  for t :: "'a console_state_scheme"
  by (simp_all add: user_frame_def vidmap_frame_def set_pde_frame4kb_def set_pde_def fun_eq_iff)

text \<open>A mapped user page is accessible to the program.\<close>

lemma user_mmu_vidmap:
  assumes "paging_ok s" "j < 4" "i < 0x1000"
  shows "user_mmu s (0x8400000 + j * 0x1000 + i) = Some (vidmap_frame s j * 0x1000 + i)"
proof -
  let ?va = "0x8400000 + j * 0x1000 + i"
  have d: "(j * 0x1000 + i) div 0x1000 = j" "(j * 0x1000 + i) mod 0x1000 = i" using assms(3) by simp_all
  have pde: "?va div 0x400000 = 33" using assms(2,3) by (intro div_nat_eqI) auto
  have "?va div 0x1000 = 0x8400 + j" using assms(3) by (intro div_nat_eqI) auto
  then have pte: "?va div 0x1000 mod 1024 = j" using assms(2) mod_mult_self3 [of 33 1024 j] by simp
  have "mmu s ?va = Some (vidmap_frame s ((?va - 0x8400000) div 0x1000) * 0x1000 + ?va mod 0x1000)"
    using assms by (subst mmu_vidmap) auto
  moreover have "?va - 0x8400000 = j * 0x1000 + i" by simp
  moreover have "?va mod 0x1000 = i"
    using d(2) mod_mult_self3 [of "0x8400" "0x1000" "j * 0x1000 + i"] by (simp add: add.assoc)
  ultimately have "mmu s ?va = Some (vidmap_frame s j * 0x1000 + i)" using d(1) by simp
  then show ?thesis
    unfolding user_mmu_def Let_def pde pte
    using assms(1,2) by (simp add: paging_ok_def directory_ok_def vidmap_ok_def Let_def)
qed

lemma sint_unat: "sint w = (if unat w < 0x80000000 then int (unat w) else int (unat w) - 0x100000000)" for w :: u32
proof -
  have u: "uint w = int (unat w)" "unat w < 0x100000000" using unsigned_less [of w] by simp_all
  have "sint w = (uint w + 0x80000000) mod 0x100000000 - 0x80000000"
    by (simp add: sint_uint signed_take_bit_eq_take_bit_shift take_bit_eq_mod)
  then have s: "sint w = (int (unat w) + 0x80000000) mod 0x100000000 - 0x80000000" by (simp only: u(1))
  show ?thesis
  proof (cases "unat w < 0x80000000")
    case True
    then show ?thesis using s by (subst (asm) mod_pos_pos_trivial) (simp_all del: of_nat_unat)
  next
    case False
    have "int (unat w) + 0x80000000 = (int (unat w) - 0x80000000) + 1 * 0x100000000" by simp
    then have "(int (unat w) + 0x80000000) mod 0x100000000 = (int (unat w) - 0x80000000) mod 0x100000000"
      by (simp only: mod_mult_self1)
    also have "\<dots> = int (unat w) - 0x80000000" using False u(2) by (intro mod_pos_pos_trivial) linarith+
    finally show ?thesis using False s by simp
  qed
qed

text \<open>The state after vidmap has pointed the directory's entry at the second table and stored the address.\<close>

definition vidmap_done :: "nat \<Rightarrow> 'a kernel_state_scheme \<Rightarrow> 'a kernel_state_scheme" where
  "vidmap_done k s = (flush_tlb (set_pde_frame4kb 33 (drop_bit 12 (page_table_vidmap_addr s)) s))
     \<lparr>mem := store_bytes (user_frame s * 0x400000 + k) (bytes32 (0x8400000 + 0x1000 * word_of_nat (sched_term s))) (mem s)\<rparr>"

lemma vidmap_done_facts:
  assumes "paging_ok s"
  shows "paging_ok (vidmap_done k s)" "user_frame (vidmap_done k s) = user_frame s" "vidmap_frame (vidmap_done k s) = vidmap_frame s"
    "sched_term (vidmap_done k s) = sched_term s"
    "mem (vidmap_done k s) =
      store_bytes (user_frame s * 0x400000 + k) (bytes32 (0x8400000 + 0x1000 * word_of_nat (sched_term s))) (mem s)"
  using assms paging_ok_vidmap_pde [of s] by (simp_all add: vidmap_done_def paging_ok_flush)

lemma vidmap_call:
  assumes "paging_ok s" "k + 4 \<le> 0x400000" "unat dst = 0x8000000 + k"
  shows "syscall_asm irq 8 dst ecx edx s = Some (Ret 0, (vidmap_done k (cli s))\<lparr>iflag := iflag s\<rparr>)"
proof -
  define s1 where "s1 = flush_tlb (set_pde_frame4kb 33 (drop_bit 12 (page_table_vidmap_addr (cli s))) (cli s))"
  let ?w = "0x8400000 + 0x1000 * word_of_nat (sched_term s) :: u32"
  have ok: "paging_ok s1"
    using assms(1) paging_ok_vidmap_pde [of "cli s"] by (simp add: s1_def paging_ok_flush)
  have s1: "user_frame s1 = user_frame s" "mem s1 = mem s" "sched_term s1 = sched_term s"
    using assms(1) by (simp_all add: s1_def)
  have word: "word_of_nat (unat dst) = dst" by simp
  have pos: "sint dst = 0x8000000 + int k" unfolding sint_unat assms(3) using assms(2) by simp
  have at: "0x8000000 + word_of_nat k = dst" using word assms(3) by simp
  have v: "vstore (0x8000000 + k) (bytes32 ?w) s1 = vidmap_done k (cli s)"
    using vstore_user [OF ok, of k "bytes32 ?w"] assms(2) s1 by (simp add: vidmap_done_def s1_def)
  have "vidmap (unat dst) s = (0, sti (vidmap_done k (cli s)))"
    using pos at assms(2,3) v s1(3) by (simp add: vidmap_def Let_def word s1_def [symmetric])
  then show ?thesis
    using syscall_call [of 8 irq dst ecx edx s 0] by (simp add: syscall_table_def sti_def)
qed

lemma vidmap_page: "k < 3 \<Longrightarrow> unat (0x8400000 + 0x1000 * word_of_nat k :: u32) = 0x8400000 + k * 0x1000"
proof -
  assume "k < 3"
  then have "k = 0 \<or> k = 1 \<or> k = 2" by linarith
  then show ?thesis by auto
qed

text \<open>
  vidmap gives a program its terminal's screen: for a pointer in the program's window it stores, at
  that place and nowhere else, the address of a page that the program may access and that is the
  frame the page table has for the program's terminal; a pointer outside the window gives -1 and
  changes nothing.
\<close>

theorem vidmap_gives_screen:
  assumes "paging_ok s" "sched_term s < 3" "k + 4 \<le> 0x400000" "unat dst = 0x8000000 + k"
    and "unat bad < 0x8000000 \<or> unat bad \<ge> 0x8400000"
  shows "\<exists>s'. syscall_asm irq 8 dst ecx edx s = Some (Ret 0, s')
    \<and> mem s' = store_bytes (user_frame s * 0x400000 + k) (bytes32 (0x8400000 + 0x1000 * word_of_nat (sched_term s))) (mem s)
    \<and> (\<forall>i \<in> {..<0x1000}. user_mmu s' (unat (0x8400000 + 0x1000 * word_of_nat (sched_term s) :: u32) + i) =
        Some (vidmap_frame s (sched_term s) * 0x1000 + i))
    \<and> syscall_asm irq 8 bad ecx edx s = Some (Ret (-1), s)"
proof -
  let ?s = "(vidmap_done k (cli s))\<lparr>iflag := iflag s\<rparr>"
  note d = vidmap_done_facts [of "cli s" k]
  have word: "word_of_nat (unat bad) = bad" by simp
  have out: "sint bad < 0x8000000 \<or> sint bad \<ge> 0x8400000"
  proof -
    have "unat bad < 0x100000000" using unsigned_less [of bad] by simp
    then show ?thesis unfolding sint_unat using assms(5) by (simp only: split: if_split) linarith
  qed
  have "vidmap (unat bad) s = (-1, cli s)"
    using out by (auto simp: vidmap_def Let_def word)
  then have "syscall_asm irq 8 bad ecx edx s = Some (Ret (-1), s)"
    using syscall_call [of 8 irq bad ecx edx s "-1"] by (simp add: syscall_table_def cli_def keep_iflag)
  then show ?thesis
    using vidmap_call [OF assms(1,3,4), of irq ecx edx] vidmap_page [OF assms(2)] d assms(1,2)
    by (intro exI [of _ ?s]) (simp add: user_mmu_vidmap)
qed

theorem vidmap_gives_screen_witness:
  "\<exists>s'. syscall_asm (\<lambda>_ s. s) 8 0x8001000 0 0 demo_three = Some (Ret 0, s') \<and> user_mmu s' 0x8400010 = Some 0xB8010
    \<and> syscall_asm (\<lambda>_ s. s) 8 0x400000 0 0 demo_three = Some (Ret (-1), demo_three)"
proof -
  have "vidmap_frame demo_three 0 = 0xB8"
    using paging_cong(6) [OF demo_three_paging] by (simp add: demo_state_def paging_init_frames)
  moreover obtain s' where "syscall_asm (\<lambda>_ s. s) 8 0x8001000 0 0 demo_three = Some (Ret 0, s')"
    "\<forall>i \<in> {..<0x1000}. user_mmu s' (unat (0x8400000 :: u32) + i) = Some (vidmap_frame demo_three 0 * 0x1000 + i)"
    "syscall_asm (\<lambda>_ s. s) 8 0x400000 0 0 demo_three = Some (Ret (-1), demo_three)"
    using vidmap_gives_screen [OF demo_three_ok, of "0x1000" "0x8001000" "0x400000" "\<lambda>_ s. s" 0 0] by auto
  ultimately show ?thesis by (auto dest: bspec [where x = "0x10"])
qed

end
