(* ===== verification/Frames.thy ===== *)
theory Frames
  imports Syscalls
begin

text \<open>
  What output and the keyboard leave alone.  Everything the console and the line editor do to memory
  lies below 4 MB, in the video pages, as long as the cursors are on the screen; the processes, their
  links, the pid table and the file system are not touched.  These are the facts that the process
  forest needs of all operations that are not about processes.
\<close>

section \<open>The view of processes\<close>

text \<open>What links a process to its parent: the pids and the context execute saved for the way back.\<close>

definition links :: "pcb_t \<Rightarrow> int \<times> int \<times> u32 \<times> u32 \<times> u32 \<times> u32" where
  "links p = (pid p, parent_pid p, ESP_prev p, EBP_prev p, prev_tss_ESP0 p, prev_tss_SS p)"

definition procs_of :: "terminal_t \<Rightarrow> int \<times> int \<times> int \<times> u32" where
  "procs_of t = (status t, active_pid t, base_pid t, VRAM_addr t)"

definition kview :: "'a kernel_state_scheme \<Rightarrow> _" where
  "kview s = (sched_term s, (\<lambda>k. procs_of (terminals s k)), pid_arr s, (\<lambda>p. links (pcbs s p)), fs s,
     esp0 s, user_frame s)"

text \<open>Memory except the first 4 MB and the frame of the running program.\<close>

definition bytes_beside :: "nat \<Rightarrow> mem \<Rightarrow> mem" where
  "bytes_beside u m = (\<lambda>a. if a < 0x400000 \<or> a div 0x400000 = u then NUL else m a)"

definition other_bytes :: "'a console_state_scheme \<Rightarrow> mem" where
  "other_bytes s = bytes_beside (user_frame s) (mem s)"

lemma bytes_beside_eq:
  "bytes_beside u m = bytes_beside u m' \<longleftrightarrow> (\<forall>a. 0x400000 \<le> a \<and> a div 0x400000 \<noteq> u \<longrightarrow> m a = m' a)"
  by (auto simp: bytes_beside_def fun_eq_iff)

lemma other_bytes_eq:
  "user_frame s' = user_frame s \<Longrightarrow> other_bytes s' = other_bytes s \<longleftrightarrow>
    (\<forall>a. 0x400000 \<le> a \<and> a div 0x400000 \<noteq> user_frame s \<longrightarrow> mem s' a = mem s a)"
  by (simp add: other_bytes_def bytes_beside_eq)

lemma agree_other_bytes:
  assumes "other_bytes s' = other_bytes s" "user_frame s' = user_frame s" "2 \<le> user_frame s"
  shows "agree_kernel (mem s) (mem s')"
proof -
  have "mem s a = mem s' a" if "0x400000 \<le> a" "a < 0x800000" for a
  proof -
    have "a div 0x400000 = 1" using that by (simp add: div_nat_eqI)
    then show ?thesis using assms that by (simp add: other_bytes_eq)
  qed
  then show ?thesis by (simp add: agree_kernel_def)
qed

text \<open>The cursors are on their screens.\<close>

definition cursor_ok :: "terminal_t \<Rightarrow> bool" where
  "cursor_ok t \<longleftrightarrow> 0 \<le> screen_x t \<and> screen_x t \<le> 80 \<and> 0 \<le> screen_y t \<and> screen_y t < 25"

definition display_ok :: "'a console_state_scheme \<Rightarrow> bool" where
  "display_ok s \<longleftrightarrow> paging_ok s \<and> sched_term s < 3 \<and> visible_term s < 3 \<and>
     backed_up s \<and> (\<forall>k < 3. cursor_ok (terminals s k))"

text \<open>An operation that keeps all of this.\<close>

definition kept :: "'a kernel_state_scheme \<Rightarrow> 'a kernel_state_scheme \<Rightarrow> bool" where
  "kept s s' \<longleftrightarrow> display_ok s' \<and> kview s' = kview s \<and> other_bytes s' = other_bytes s \<and>
     (\<forall>q. q \<noteq> running_pid s \<longrightarrow> pcbs s' q = pcbs s q)"

lemma kview_running: "kview s' = kview s \<Longrightarrow> running_pid s' = running_pid s"
  by (auto simp: kview_def running_pid_def procs_of_def fun_eq_iff)

lemma kept_refl: "display_ok s \<Longrightarrow> kept s s"
  by (simp add: kept_def)

lemma kept_trans: "kept s t \<Longrightarrow> kept t u \<Longrightarrow> kept s u"
  using kview_running [of t s] by (auto simp: kept_def)

lemma kept_display: "kept s t \<Longrightarrow> display_ok t"
  by (simp add: kept_def)

section \<open>Output\<close>

text \<open>Drawing: also the paging structures, the visible terminal and all control blocks stay.\<close>

definition drawn :: "'a kernel_state_scheme \<Rightarrow> 'a kernel_state_scheme \<Rightarrow> bool" where
  "drawn s s' \<longleftrightarrow> paging_of s' = paging_of s \<and> kview s' = kview s \<and> other_bytes s' = other_bytes s \<and>
     pcbs s' = pcbs s \<and> visible_term s' = visible_term s"

lemma drawn_refl: "drawn s s"
  by (simp add: drawn_def)

lemma drawn_trans: "drawn s t \<Longrightarrow> drawn t u \<Longrightarrow> drawn s u"
  by (simp add: drawn_def)

lemma drawn_fold: "(\<And>x t. x \<in> set xs \<Longrightarrow> drawn s t \<Longrightarrow> drawn s (f x t)) \<Longrightarrow> drawn s t \<Longrightarrow> drawn s (fold f xs t)"
  by (induction xs arbitrary: t) auto

lemma drawn_kept:
  assumes "drawn s s'" "display_ok s" "\<forall>k < 3. cursor_ok (terminals s' k)"
  shows "kept s s'"
  using assms paging_cong(1) [of s' s]
  by (auto simp: drawn_def kept_def display_ok_def kview_def backed_up_def procs_of_def fun_eq_iff)

lemma drawn_paging: "drawn s t \<Longrightarrow> paging_ok s \<Longrightarrow> paging_ok t"
  using paging_cong(1) [of t s] by (simp add: drawn_def)

lemma drawn_cursor:
  "drawn s t \<Longrightarrow> drawn s (upd_term k (\<lambda>t. t\<lparr>screen_x := f t\<rparr>) t)"
  "drawn s t \<Longrightarrow> drawn s (upd_term k (\<lambda>t. t\<lparr>screen_y := f t\<rparr>) t)"
  by (auto simp: drawn_def kview_def other_bytes_def procs_of_def fun_eq_iff running_pid_def)

lemma user_frame_updates [simp]:
  "user_frame (s\<lparr>io_log := l\<rparr>) = user_frame s" "user_frame (t\<lparr>page_faults := x\<rparr>) = user_frame t"
  "paging_of (t\<lparr>page_faults := x\<rparr>) = paging_of t"
  by (simp_all add: user_frame_def paging_of_def)

lemma drawn_update_cursor: "drawn s t \<Longrightarrow> drawn s (update_cursor t)"
  by (auto simp: drawn_def kview_def other_bytes_def update_cursor_def Let_def outb_def)

lemma drawn_vwrite:
  assumes "drawn s t" "paging_ok s" "va < 0x400000"
  shows "drawn s (vwrite va b t)"
proof -
  have "pa < 0x400000" if "mmu t va = Some pa" for pa
  proof -
    have p: "table_ok t" using drawn_paging [OF assms(1,2)] by (simp add: paging_ok_def)
    have pt: "mmu t va = (if 0xB8 \<le> va div 0x1000 \<and> va div 0x1000 \<le> 0xBC
        then Some (unat (get_field f_frame20 (page_table t (va div 0x1000))) * 0x1000 + va mod 0x1000) else None)"
      using mmu_low [OF drawn_paging [OF assms(1,2)] assms(3)] .
    then have "0xB8 \<le> va div 0x1000" "va div 0x1000 \<le> 0xBC"
      and pa: "pa = unat (get_field f_frame20 (page_table t (va div 0x1000))) * 0x1000 + va mod 0x1000"
      using that by (simp_all split: if_splits)
    then have "va div 0x1000 \<in> {0xB8, 0xB9, 0xBA, 0xBB, 0xBC}" by auto
    then have "unat (get_field f_frame20 (page_table t (va div 0x1000))) \<le> 0xBB"
      using p by (auto simp: table_ok_def Let_def video_frames_def)
    then have "unat (get_field f_frame20 (page_table t (va div 0x1000))) * 0x1000 \<le> 0xBB000" by simp
    moreover have "va mod 0x1000 < 0x1000" by simp
    ultimately show ?thesis unfolding pa by linarith
  qed
  then show ?thesis
    using assms(1) by (auto simp: vwrite_def drawn_def kview_def other_bytes_def bytes_beside_eq split: option.split)
qed
lemma cell_low:
  assumes "vm \<le> 0xBC000" "0 \<le> k" "k < 4000"
  shows "cell vm k < 0x300000" "cell vm k + 1 < 0x400000"
proof -
  have "uint (word_of_int (int vm + 2 * k) :: u32) = int vm + 2 * k"
    using assms by (simp only: unsigned_of_int) (simp add: take_bit_int_eq_self)
  then have "int (cell vm k) = int vm + 2 * k" unfolding cell_def by (simp only: uint_nat)
  then show "cell vm k < 0x300000" "cell vm k + 1 < 0x400000" using assms by linarith+
qed

lemma drawn_write_cell:
  assumes "drawn s t" "paging_ok s" "vm \<le> 0xBC000" "0 \<le> k" "k < 4000"
  shows "drawn s (write_cell vm k c a t)"
  unfolding write_cell_def using assms cell_low [OF assms(3-5)] by (intro drawn_vwrite) auto

lemma drawn_copy_cell:
  assumes "drawn s t" "paging_ok s" "vm \<le> 0xBC000" "1 \<le> row" "row < 25" "0 \<le> col" "col < 80"
  shows "drawn s (copy_cell vm row col t)"
  unfolding copy_cell_def Let_def using assms cell_low [OF assms(3), of "80 * (row - 1) + col"]
  by (intro drawn_vwrite) auto

lemma drawn_scroll_at:
  assumes "drawn s t" "paging_ok s" "vm \<le> 0xBC000"
  shows "drawn s (scroll_at vm t)"
  unfolding scroll_at_def Let_def using assms
  by (intro drawn_fold drawn_write_cell drawn_copy_cell) auto

lemma drawn_blank_cells:
  "drawn s t \<Longrightarrow> paging_ok s \<Longrightarrow> vm \<le> 0xBC000 \<Longrightarrow> b \<le> 2000 \<Longrightarrow> drawn s (blank_cells vm a b t)"
  unfolding blank_cells_def by (intro drawn_fold drawn_write_cell) auto

lemma drawn_write_cellk:
  assumes "drawn s t" "paging_ok s" "0 \<le> cursor_cell (visible_term t) t" "cursor_cell (visible_term t) t < 4000"
    and "0 \<le> cursor_cell (sched_term t) t" "cursor_cell (sched_term t) t < 4000"
  shows "drawn s (write_cellk c t)"
proof -
  have "cursor_cell k (vwrite a b t) = cursor_cell k t" for k a b by (simp add: cursor_cell_def)
  then show ?thesis
    unfolding write_cellk_def Let_def
    using assms cell_low(1) [OF _ assms(3,4), of putck_vidMem] cell_low(2) [OF _ assms(5,6), of video_mem]
    by (intro drawn_vwrite) auto
qed

section \<open>Characters\<close>

lemma drawn_terms [simp]:
  "terminals (scroll_at vm s) = terminals s" "terminals (write_cell vm k c a s) = terminals s"
  "terminals (write_cellk c s) = terminals s" "terminals (blank_cells vm i j s) = terminals s"
proof -
  have w: "terminals (write_cell vm k c a t) = terminals t" for vm k c a and t :: "'a console_state_scheme"
    by (simp add: write_cell_def)
  have c: "terminals (copy_cell vm r k t) = terminals t" for vm r k and t :: "'a console_state_scheme"
    by (simp add: copy_cell_def Let_def)
  show "terminals (write_cell vm k c a s) = terminals s" by (rule w)
  show "terminals (write_cellk c s) = terminals s" by (simp add: write_cellk_def Let_def)
  show "terminals (blank_cells vm i j s) = terminals s"
    unfolding blank_cells_def by (rule fold_frame [where frm = terminals]) (rule w)
  show "terminals (scroll_at vm s) = terminals s"
    unfolding scroll_at_def Let_def
    by (rule trans [OF fold_frame [where frm = terminals] fold_frame [where frm = terminals]])
      (rule w, rule fold_frame [where frm = terminals], rule c)
qed

lemma drawn_scheds [simp]:
  "sched_term (scroll_at vm s) = sched_term s" "visible_term (scroll_at vm s) = visible_term s"
  "sched_term (write_cell vm k c a s) = sched_term s" "visible_term (write_cell vm k c a s) = visible_term s"
  "sched_term (write_cellk c s) = sched_term s" "visible_term (write_cellk c s) = visible_term s"
  using console_frame_scroll [of vm s] console_frame_cells(1) [of vm k c a s] console_frame_cells(3) [of c s]
  by (simp_all add: console_frame_def)

lemma kept_putck:
  assumes "display_ok s"
  shows "kept s (putck c s)"
proof (rule drawn_kept [OF _ assms])
  have p: "paging_ok s" and v: "visible_term s < 3" and k: "sched_term s < 3"
    and cur: "\<And>k. k < 3 \<Longrightarrow> cursor_ok (terminals s k)"
    using assms by (auto simp: display_ok_def)
  note cv = cur [OF v] and ck = cur [OF k]
  show "\<forall>k < 3. cursor_ok (terminals (putck c s) k)"
    using cur cv by (auto simp: putck_def Let_def scrollk_def cursor_ok_def upd_term_def)
  show "drawn s (putck c s)"
    using p cv ck unfolding putck_def Let_def scrollk_def
    by (auto intro!: drawn_cursor drawn_update_cursor drawn_scroll_at drawn_write_cellk drawn_refl
        simp: cursor_cell_def cursor_ok_def)
qed

lemma kept_putc:
  assumes "display_ok s"
  shows "kept s (putc c s)"
proof (rule drawn_kept [OF _ assms])
  have p: "paging_ok s" and k: "sched_term s < 3" and cur: "\<And>k. k < 3 \<Longrightarrow> cursor_ok (terminals s k)"
    using assms by (auto simp: display_ok_def)
  note ck = cur [OF k]
  show "\<forall>k < 3. cursor_ok (terminals (putc c s) k)"
    using cur ck by (auto simp: putc_def Let_def scroll_def cursor_ok_def upd_term_def)
  show "drawn s (putc c s)"
    using p ck unfolding putc_def Let_def scroll_def
    by (auto intro!: drawn_cursor drawn_update_cursor drawn_scroll_at drawn_write_cell drawn_refl
        simp: cursor_cell_def cursor_ok_def)
qed

lemma kept_clear:
  assumes "display_ok s"
  shows "kept s (clear s)" "kept s (cleark s)"
proof -
  have p: "paging_ok s" and cur: "\<And>k. k < 3 \<Longrightarrow> cursor_ok (terminals s k)" using assms by (auto simp: display_ok_def)
  have "drawn s (clear s)" "drawn s (cleark s)"
    using p unfolding clear_def cleark_def Let_def update_cursork_eq
    by (auto intro!: drawn_cursor drawn_update_cursor drawn_blank_cells drawn_refl)
  moreover have "\<forall>k < 3. cursor_ok (terminals (clear s) k)" "\<forall>k < 3. cursor_ok (terminals (cleark s) k)"
    using cur by (auto simp: clear_def cleark_def Let_def cursor_ok_def upd_term_def)
  ultimately show "kept s (clear s)" "kept s (cleark s)" using drawn_kept assms by blast+
qed

text \<open>Chains of operations.\<close>

lemma kept_then:
  assumes "kept s t"
  shows "kept s (putck c t)" "kept s (putc c t)" "kept s (clear t)" "kept s (cleark t)"
  using kept_trans [OF assms kept_putck] kept_trans [OF assms kept_putc] kept_trans [OF assms kept_clear(1)]
    kept_trans [OF assms kept_clear(2)] kept_display [OF assms] by simp_all

lemma kept_fold: "(\<And>x t. x \<in> set xs \<Longrightarrow> kept s t \<Longrightarrow> kept s (f x t)) \<Longrightarrow> kept s t \<Longrightarrow> kept s (fold f xs t)"
  by (induction xs arbitrary: t) auto

lemma kept_printfk_plain: "kept s t \<Longrightarrow> kept s (printfk_plain x t)"
  unfolding printfk_plain_def by (rule kept_fold) (rule kept_then(1))

text \<open>Assignments to what the view does not show.\<close>

lemma kept_same:
  assumes "kept s t" "kview u = kview t" "pcbs u = pcbs t" "mem u = mem t" "paging_of u = paging_of t"
    and "visible_term u = visible_term t"
    and "\<And>k. screen_x (terminals u k) = screen_x (terminals t k) \<and> screen_y (terminals u k) = screen_y (terminals t k)"
  shows "kept s u"
proof -
  have "other_bytes u = other_bytes t" using assms(4) paging_cong(5) [OF assms(5)] by (simp add: other_bytes_def)
  then show ?thesis
    using assms(1,2,3,5-7) paging_cong(1) [OF assms(5)]
    by (auto simp: kept_def display_ok_def kview_def backed_up_def procs_of_def fun_eq_iff cursor_ok_def)
qed

lemma kept_keys:
  assumes "kept s t"
  shows "kept s (t\<lparr>line_flag := a\<rparr>)" "kept s (t\<lparr>caps_flag := a\<rparr>)" "kept s (t\<lparr>shift_flag := a\<rparr>)"
    "kept s (t\<lparr>ctrl_flag := a\<rparr>)" "kept s (t\<lparr>alt_flag := a\<rparr>)" "kept s (t\<lparr>tab_flag := a\<rparr>)"
    "kept s (t\<lparr>f_key_pressed := a\<rparr>)" "kept s (t\<lparr>terminalNumber := n\<rparr>)" "kept s (t\<lparr>buffer_index := n\<rparr>)"
    "kept s (t\<lparr>term_buffer := b\<rparr>)" "kept s (t\<lparr>enter_pressed := e\<rparr>)" "kept s (t\<lparr>iflag := i\<rparr>)"
    "kept s (t\<lparr>io_log := l\<rparr>)" "kept s (t\<lparr>next_terminal := v\<rparr>)"
  by (rule kept_same [OF assms]; simp add: kview_def user_frame_def paging_of_def)+

section \<open>The keyboard\<close>

lemma kept_set_line: "kept s t \<Longrightarrow> kept s (set_line i b t)"
  unfolding set_line_def by (rule kept_keys)

lemma kept_switch:
  assumes "kept s t" "n < 3"
  shows "kept s (switch_terminal n t)"
proof (cases "n = visible_term t")
  case True
  then have "switch_terminal n t = t\<lparr>next_terminal := n, iflag := True\<rparr>"
    by (simp add: switch_terminal_def Let_def cli_def sti_def)
  then show ?thesis using assms(1) by (simp add: kept_keys(12,14))
next
  case False
  have d: "display_ok t" using assms(1) by (rule kept_display)
  then have "switched_to n t (switch_terminal n t)"
    using False assms(2) by (intro switch_terminal_ok) (auto simp: display_ok_def)
  moreover define u where "u = switch_terminal n t"
  ultimately have u: "paging_of u = paging_of t" "visible_term u = n" "sched_term u = sched_term t"
    "mem u = store_bytes 0xB8000 (load_bytes (mem t) (0xB9000 + 0x1000 * n) 0x1000)
        (store_bytes (0xB9000 + 0x1000 * visible_term t) (load_bytes (mem t) 0xB8000 0x1000) (mem t))"
    "\<And>k. procs_of (terminals u k) = procs_of (terminals t k)"
    "\<And>k. cursor_ok (terminals u k) = cursor_ok (terminals t k)"
    "pcbs u = pcbs t" "pid_arr u = pid_arr t" "fs u = fs t" "esp0 u = esp0 t"
    by (auto simp: switched_to_def Let_def procs_of_def cursor_ok_def)
  have v: "visible_term t < 3" using d by (simp add: display_ok_def)
  have "user_frame u = user_frame t" using paging_cong(5) [OF u(1)] by simp
  then have "other_bytes u = other_bytes t" unfolding other_bytes_def u(4) using v by (auto simp: bytes_beside_eq)
  moreover have "kview u = kview t" using u paging_cong(5) [OF u(1)] by (simp add: kview_def)
  moreover have "display_ok u"
    using d u assms(2) paging_cong(1) [OF u(1)] by (simp add: display_ok_def backed_up_def procs_of_def)
  ultimately have "kept t u" using u(7) by (simp add: kept_def)
  with assms(1) show ?thesis unfolding u_def by (rule kept_trans)
qed

lemmas kept_intros = kept_keys kept_then kept_set_line kept_printfk_plain

lemma kept_type_char: "kept s t \<Longrightarrow> kept s (type_char c t)"
  by (simp add: type_char_def Let_def kept_intros)

lemma kept_erase_char: "kept s t \<Longrightarrow> kept s (erase_char c t)"
  by (simp add: erase_char_def Let_def kept_intros)

lemma kept_end: "kept s t \<Longrightarrow> kept s (end_of_handler t)"
  by (simp add: end_of_handler_def kept_intros)

lemma kept_clear_line: "kept s t \<Longrightarrow> kept s (clear_line t)"
  unfolding clear_line_def using kept_keys(9) [OF kept_keys(1) [OF kept_then(4)], of s t 0 0] by simp

lemma kept_shift_key: "kept s t \<Longrightarrow> kept s (shift_key c t)"
  by (simp add: shift_key_def Let_def kept_intros kept_type_char)

lemma kept_plain_key: "kept s t \<Longrightarrow> kept s (plain_key c t)"
  by (simp add: plain_key_def Let_def kept_intros kept_type_char kept_erase_char kept_end)

text \<open>A key's handler keeps the view, or, for Ctrl-C, is a halt in a state that has it.\<close>

definition kept_or_halted :: "'a kernel_state_scheme \<Rightarrow> flow \<Rightarrow> 'a kernel_state_scheme \<Rightarrow> bool" where
  "kept_or_halted s f u \<longleftrightarrow> kept s u \<or> (\<exists>v. kept s v \<and> halt 0 v = Some (f, u))"

lemma kept_char_key:
  assumes "kept s t" "char_key c t = Some (f, u)"
  shows "kept_or_halted s f u"
  using assms unfolding char_key_def Let_def kept_or_halted_def
  by (auto simp: kept_intros kept_shift_key kept_plain_key kept_clear_line kept_end split: if_splits
      intro: exI [of _ "t\<lparr>line_flag := line_flag t + 1\<rparr>"])

lemma kept_tab_key:
  assumes "kept s t"
  shows "kept s (tab_key t)"
proof -
  have "kept s (fold (\<lambda>i s. set_line (buffer_index s + int i) SPACE s) [0..<4] u)" if "kept s u" for u
    using that by (intro kept_fold) (auto intro: kept_set_line)
  then show ?thesis using assms by (simp add: tab_key_def Let_def kept_intros)
qed

lemma kept_enter_key: "kept s t \<Longrightarrow> kept s (enter_key t)"
  by (simp add: enter_key_def Let_def kept_intros)

lemma kept_line_key:
  assumes "kept s t" "line_key c t = Some (f, u)"
  shows "kept_or_halted s f u"
proof -
  have "kept s u \<Longrightarrow> kept_or_halted s f u" by (simp add: kept_or_halted_def)
  then show ?thesis
    using assms by (auto simp: line_key_def kept_intros kept_tab_key kept_enter_key kept_end split: if_splits intro: kept_char_key)
qed

lemma kept_function_key:
  assumes "kept s t" "function_key c t = Some (f, u)"
  shows "kept_or_halted s f u"
proof (cases "ctrl_flag t \<noteq> 0 \<and> alt_flag t \<noteq> 0 \<and> f_key_pressed t \<noteq> 0")
  case True
  let ?n = "sint (c - 0x3B)"
  let ?t = "t\<lparr>f_key_pressed := 0, terminalNumber := ?n\<rparr>"
  have t: "kept s ?t" using assms(1) by (simp add: kept_intros)
  show ?thesis
  proof (cases "?n < 0 \<or> 2 < ?n")
    case True
    then show ?thesis using assms(2) t \<open>ctrl_flag t \<noteq> 0 \<and> _\<close> by (auto simp: function_key_def Let_def kept_or_halted_def)
  next
    case False
    then have "kept s (switch_terminal (nat ?n) ?t)" using t by (intro kept_switch) auto
    then show ?thesis using assms(2) True False by (auto simp: function_key_def Let_def intro: kept_line_key)
  qed
next
  case False
  with assms show ?thesis by (auto simp: function_key_def intro: kept_line_key)
qed

lemma kept_keyboard:
  assumes "display_ok s" "keyboard_handler dev s = Some (f, s')"
  shows "kept_or_halted s f s'"
proof -
  have "kept s (send_eoi 1 s)"
    using kept_refl [OF assms(1)] by (simp add: send_eoi_def outb_def Let_def kept_intros)
  then have t: "kept s (snd (inb dev 0x60 (send_eoi 1 s)))" by (simp add: inb_def kept_intros)
  then have "kept s ((snd (inb dev 0x60 (send_eoi 1 s)))\<lparr>ctrl_flag := x\<rparr>)" "kept s ((snd (inb dev 0x60 (send_eoi 1 s)))\<lparr>f_key_pressed := x\<rparr>)"
    for x by (simp_all add: kept_intros)
  note f = this [THEN kept_function_key] t [THEN kept_function_key]
  have "kept s s' \<Longrightarrow> kept_or_halted s f s'" by (simp add: kept_or_halted_def)
  then show ?thesis
    using assms(2) t
    by (auto simp: keyboard_handler_def Let_def split_beta keyboard_scan_def kept_intros split: if_splits dest: f)
qed

section \<open>User memory and the other calls\<close>

lemma kept_mem:
  assumes "kept s t" "\<And>a. 0x400000 \<le> a \<Longrightarrow> a div 0x400000 \<noteq> user_frame t \<Longrightarrow> m a = mem t a"
  shows "kept s (t\<lparr>mem := m\<rparr>)"
proof -
  have k: "kview (t\<lparr>mem := m\<rparr>) = kview t" by (simp add: kview_def)
  have d: "display_ok (t\<lparr>mem := m\<rparr>) = display_ok t" by (simp add: display_ok_def backed_up_def)
  have "user_frame (t\<lparr>mem := m\<rparr>) = user_frame t" by simp
  then have b: "other_bytes (t\<lparr>mem := m\<rparr>) = other_bytes t" using assms(2) by (simp add: other_bytes_eq)
  show ?thesis using assms(1) by (simp add: kept_def k d b)
qed

text \<open>A user program's store, to any address it may access.\<close>

lemma kept_user_store:
  assumes "kept s t" "2 \<le> user_frame t" "va < 2 ^ 32" "user_mmu t va = Some pa"
  shows "kept s (t\<lparr>mem := (mem t)(pa := b)\<rparr>)"
proof (rule kept_mem [OF assms(1)])
  have ok: "paging_ok t" using kept_display [OF assms(1)] by (simp add: display_ok_def)
  have "pa < 0x400000 \<or> pa div 0x400000 = user_frame t"
    using user_access [OF ok assms(3,4)] by auto
  then show "((mem t)(pa := b)) a = mem t a" if "0x400000 \<le> a" "a div 0x400000 \<noteq> user_frame t" for a using that by auto
qed

lemma kept_vstore:
  assumes "kept s t" "2 \<le> user_frame t" "0x8000000 \<le> buf" "buf + length bs \<le> 0x8400000"
  shows "kept s (vstore buf bs t)"
proof -
  have ok: "paging_ok t" using kept_display [OF assms(1)] by (simp add: display_ok_def)
  have "vstore (0x8000000 + (buf - 0x8000000)) bs t = t\<lparr>mem := store_bytes (user_frame t * 0x400000 + (buf - 0x8000000)) bs (mem t)\<rparr>"
    using assms(3,4) by (intro vstore_user ok) simp
  then have "vstore buf bs t = t\<lparr>mem := store_bytes (user_frame t * 0x400000 + (buf - 0x8000000)) bs (mem t)\<rparr>"
    using assms(3) by simp
  moreover have "store_bytes (user_frame t * 0x400000 + (buf - 0x8000000)) bs (mem t) a = mem t a"
    if "a div 0x400000 \<noteq> user_frame t" for a
  proof (rule store_bytes_outside)
    have "a div 0x400000 < user_frame t \<or> user_frame t + 1 \<le> a div 0x400000" using that by linarith
    then have "a < user_frame t * 0x400000 \<or> (user_frame t + 1) * 0x400000 \<le> a"
      by (simp add: div_less_iff_less_mult less_eq_div_iff_mult_less_eq)
    then show "a < user_frame t * 0x400000 + (buf - 0x8000000) \<or>
        user_frame t * 0x400000 + (buf - 0x8000000) + length bs \<le> a" using assms(3,4) by auto
  qed
  ultimately show ?thesis using kept_mem [OF assms(1)] by simp
qed

text \<open>Assignments to the running process's control block that leave its links alone.\<close>

lemma kept_upd_pcb:
  assumes "kept s t" "\<And>p. links (f p) = links p"
  shows "kept s (upd_pcb (running_pid t) f t)"
proof -
  let ?u = "upd_pcb (running_pid t) f t"
  have "kview ?u = kview t" using assms(2) by (simp add: kview_def fun_eq_iff)
  moreover have "display_ok ?u = display_ok t" by (simp add: display_ok_def backed_up_def)
  moreover have "other_bytes ?u = other_bytes t" by (simp add: other_bytes_def)
  moreover have "running_pid t = running_pid s" using assms(1) kview_running by (auto simp: kept_def)
  ultimately show ?thesis using assms(1) by (simp add: kept_def)
qed

lemma kept_rtc_term:
  assumes "kept s t" "\<And>x. procs_of (f x) = procs_of x \<and> screen_x (f x) = screen_x x \<and> screen_y (f x) = screen_y x"
  shows "kept s (upd_term k f t)"
  using assms(2) by (intro kept_same [OF assms(1)]) (auto simp: kview_def fun_eq_iff)

lemma kept_rtc_handler:
  assumes "kept s t"
  shows "kept s (rtc_handler dev t)"
proof -
  note r = kept_rtc_term [where s = s]
  have "kept s (upd_term 2 (\<lambda>t. t\<lparr>rtc_counter := rtc_counter t + 1\<rparr>) (upd_term 1 (\<lambda>t. t\<lparr>rtc_counter := rtc_counter t + 1\<rparr>)
      (upd_term 0 (\<lambda>t. t\<lparr>rtc_counter := rtc_counter t + 1\<rparr>) t)))" (is "kept s ?u")
    using assms by (intro r) (simp_all add: procs_of_def)
  then have "kept s (if b then upd_term k (\<lambda>t. t\<lparr>rtc_interrupt_occured := 1, rtc_counter := 0\<rparr>) ?u
      else upd_term k (\<lambda>t. t\<lparr>rtc_interrupt_occured := 0\<rparr>) ?u)" for b k
    by (auto intro: r simp: procs_of_def)
  then show ?thesis
    unfolding rtc_handler_def Let_def by (simp add: send_eoi_def outb_def inb_def Let_def kept_keys(13))
qed

section \<open>System calls\<close>

lemma read_data_length: "length (snd (read_data m g inode offset len)) \<le> nat len"
proof -
  have "length (snd (read_data_loop m g inode offset len n)) \<le> nat (len - n)" for n
  proof (induction m g inode offset len n rule: read_data_loop.induct)
    case (1 m g inode offset len n)
    let ?next = "length (snd (read_data_loop m g inode offset len (n + 1)))"
    have "?next \<le> nat (len - (n + 1))"
      if "n + offset < inode_length m g inode" "n < len" "\<not> (n + offset) sdiv 4096 > inode_length m g inode sdiv 4096"
        "\<not> data_block_num m g inode ((n + offset) sdiv 4096) > fs_D g"
      using 1 [OF refl _ refl _ refl _ refl] that by simp
    moreover have "Suc k \<le> nat (len - n)" if "k \<le> nat (len - (n + 1))" "n < len" for k using that by linarith
    ultimately show ?case by (subst read_data_loop.simps) (simp add: Let_def split_beta)
  qed
  from this [of 0] show ?thesis by (simp add: read_data_def)
qed

lemma links_upd_fd [simp]: "links (upd_fd i f p) = links p" "links (p\<lparr>num_open_descriptors := n\<rparr>) = links p"
  by (simp_all add: links_def)

lemma kept_update_file_pcb: "kept s t \<Longrightarrow> kept s (update_file_pcb p t)"
  by (erule kept_same) (simp_all add: update_file_pcb_def kview_def user_frame_def paging_of_def)

lemma kept_user_frame: "kept s t \<Longrightarrow> user_frame t = user_frame s"
  by (simp add: kept_def kview_def)

lemma kept_running: "kept s t \<Longrightarrow> running_pid t = running_pid s"
  using kview_running by (auto simp: kept_def)

lemma kept_pcb_updates:
  assumes "kept s t" "p = running_pid s"
  shows "kept s (upd_pcb p (upd_fd i f) t)" "kept s (upd_pcb p (\<lambda>x. x\<lparr>num_open_descriptors := g x\<rparr>) t)"
  using kept_upd_pcb [OF assms(1)] kept_running [OF assms(1)] assms(2) by simp_all

text \<open>A buffer of \<open>n\<close> bytes in the program's window.\<close>

definition in_window :: "nat \<Rightarrow> nat \<Rightarrow> bool" where
  "in_window buf n \<longleftrightarrow> 0x8000000 \<le> buf \<and> buf + n \<le> 0x8400000"

lemma kept_store_window:
  assumes "kept s t" "2 \<le> user_frame s" "in_window buf n" "length bs \<le> n"
  shows "kept s (vstore buf bs t)"
  using assms kept_user_frame [OF assms(1)] by (intro kept_vstore) (auto simp: in_window_def)

lemma kept_file_read:
  assumes "kept s t" "file_pcb t = Some (running_pid s)" "file_read fd n t = Some (r, bs, u)"
  shows "kept s u \<and> length bs \<le> nat n"
proof -
  have "length (snd (read_data m g i off n)) \<le> nat n" for m g i off by (rule read_data_length)
  then have l: "read_data m g i off n = (ret, bs) \<Longrightarrow> length bs \<le> nat n" for m g i off ret bs by (metis snd_conv)
  show ?thesis
    using assms l by (auto simp: file_read_def Let_def split: if_splits prod.splits intro: kept_pcb_updates(1))
qed

lemma kept_dir_read:
  assumes "kept s t" "file_pcb t = Some (running_pid s)" "dir_read fd n t = Some (r, bs, u)"
  shows "kept s u \<and> length bs \<le> 32"
  using assms
  by (auto simp: dir_read_def Let_def bind_eq_Some_conv split: if_splits prod.splits option.splits intro: kept_pcb_updates(1))

lemma wait_until_inv:
  assumes "\<And>n t. Q t \<Longrightarrow> Q (irq n t)" "wait_until ready irq n t = Some u" "Q t"
  shows "Q u"
proof -
  from assms(2) have "irq = irq \<longrightarrow> Q t \<longrightarrow> Q u"
    by (rule wait_until.raw_induct [where P = "\<lambda>r i n t u. i = irq \<longrightarrow> Q t \<longrightarrow> Q u", rotated])
      (use assms(1) in \<open>auto split: if_splits\<close>)
  then show ?thesis using assms(3) by blast
qed

lemma kept_cli_sti: "kept s t \<Longrightarrow> kept s (cli t)" "kept s t \<Longrightarrow> kept s (sti t)"
  by (simp_all add: cli_def sti_def kept_keys)

lemma kept_terminal_read:
  assumes "kept s t" "2 \<le> user_frame s" "in_window buf (nat n)" "\<And>n t. kept s t \<Longrightarrow> kept s (irq n t)"
    and "terminal_read irq buf n t = Some (r, u)"
  shows "kept s u"
proof -
  from assms(5) obtain w where w: "wait_until (\<lambda>s. enter_pressed s (sched_term s) \<noteq> 0) irq 0 t = Some w"
    and u: "u = (let i = line_end (term_buffer w) (nat n); s = vstore buf (map (term_buffer w) [0..<min (nat n) (i + 1)]) w;
       s = s\<lparr>term_buffer := (\<lambda>i. if i < nat n then NUL else term_buffer s i)\<rparr>
     in s\<lparr>enter_pressed := (enter_pressed s)(visible_term s := 0)\<rparr>)"
    by (auto simp: terminal_read_def bind_eq_Some_conv Let_def)
  have "kept s w" by (rule wait_until_inv [where Q = "kept s", OF _ w assms(1)]) (rule assms(4))
  then have "kept s (vstore buf (map (term_buffer w) [0..<min (nat n) k]) w)" for k
    using assms(2,3) by (intro kept_store_window [where n = "nat n"]) auto
  then show ?thesis unfolding u Let_def by (intro kept_keys)
qed

lemma kept_terminal_write:
  assumes "kept s t"
  shows "kept s (snd (terminal_write buf n t))"
proof -
  have "kept s (write_char b i u)" if "kept s u" for b i u
    using that by (auto simp: write_char_def Let_def intro: kept_cli_sti kept_then)
  then have "kept s (fold (write_char b) xs t)" for b xs using assms by (intro kept_fold)
  then show ?thesis using assms by (simp add: terminal_write_def split: option.split)
qed

lemma kept_rtc_calls:
  assumes "kept s t"
  shows "kept s (snd (rtc_write buf t))"
    and "(\<And>n t. kept s t \<Longrightarrow> kept s (irq n t)) \<Longrightarrow> rtc_read irq t = Some (r, u) \<Longrightarrow> kept s u"
proof -
  show "kept s (snd (rtc_write buf t))"
    using assms unfolding rtc_write_def Let_def
    by (auto split: option.split intro!: kept_rtc_term simp: procs_of_def)
  assume irq: "\<And>n t. kept s t \<Longrightarrow> kept s (irq n t)" and "rtc_read irq t = Some (r, u)"
  then obtain w where w: "wait_until (\<lambda>s. rtc_interrupt_occured (terminals s (sched_term s)) = 1) irq 0 t = Some w"
    and u: "u = upd_term (sched_term w) (\<lambda>t. t\<lparr>rtc_interrupt_occured := 0\<rparr>) w"
    by (auto simp: rtc_read_def bind_eq_Some_conv)
  have "kept s w" by (rule wait_until_inv [where Q = "kept s", OF _ w assms]) (rule irq)
  then show "kept s u" unfolding u by (intro kept_rtc_term) (simp_all add: procs_of_def)
qed

lemma kept_sys_read:
  assumes "display_ok s" "2 \<le> user_frame s" "in_window buf (max 32 (nat n))" "\<And>n t. kept s t \<Longrightarrow> kept s (irq n t)"
    and "sys_read irq fd buf n s = Some (r, u)"
  shows "kept s u"
proof -
  let ?s = "update_file_pcb (running_pid s) s"
  have k: "kept s ?s" using kept_refl [OF assms(1)] by (rule kept_update_file_pcb)
  have p: "file_pcb ?s = Some (running_pid s)" by simp
  have w: "in_window buf 32" "in_window buf (nat n)" using assms(3) by (auto simp: in_window_def)
  have "kept s v" if "read_entry ops = Some rd" "rd irq fd buf n ?s = Some (r, v)" for ops rd v
  proof (cases ops)
    case f_ops
    with that obtain bs t where "file_read fd n ?s = Some (r, bs, t)" "v = vstore buf bs t"
      by (auto simp: bind_eq_Some_conv)
    with kept_file_read [OF k p] assms(2) w(2) show ?thesis by (auto intro: kept_store_window)
  next
    case d_ops
    with that obtain bs t where "dir_read fd n ?s = Some (r, bs, t)" "v = vstore buf bs t"
      by (auto simp: bind_eq_Some_conv)
    with kept_dir_read [OF k p] assms(2) w(1) show ?thesis by (auto intro: kept_store_window)
  next
    case rtc_ops
    with that have "rtc_read irq ?s = Some (r, v)" by auto
    then show ?thesis by (rule kept_rtc_calls(2) [OF k assms(4), rotated])
  next
    case stdin_fops
    with that have "terminal_read irq buf n ?s = Some (r, v)" by auto
    then show ?thesis by (rule kept_terminal_read [OF k assms(2) w(2) assms(4), rotated])
  qed (use that in auto)
  then show ?thesis
    using assms(5) k by (auto simp: sys_read_def Let_def bind_eq_Some_conv split: if_splits option.splits)
qed

lemma kept_sys_write:
  assumes "display_ok s" "sys_write irq fd buf n s = Some (r, u)"
  shows "kept s u"
proof -
  let ?s = "update_file_pcb (running_pid s) s"
  have k: "kept s ?s" using kept_refl [OF assms(1)] by (rule kept_update_file_pcb)
  have t: "terminal_write (Some buf) n ?s = (r, v) \<Longrightarrow> kept s v" "rtc_write b ?s = (r, v) \<Longrightarrow> kept s v" for v b
    using kept_terminal_write [OF k, of "Some buf" n] kept_rtc_calls(1) [OF k, of b] by (metis snd_conv)+
  have "kept s v" if "write_entry ops = Some wr" "wr irq fd buf n ?s = Some (r, v)" for ops wr v
    using that k t by (cases ops) auto
  then show ?thesis
    using assms(2) k by (auto simp: sys_write_def Let_def bind_eq_Some_conv split: if_splits option.splits)
qed

lemma kept_open_close:
  assumes "display_ok s"
  shows "open_file name s = Some (r, u) \<Longrightarrow> kept s u" "kept s (snd (close_fd fd s))"
proof -
  note k = kept_refl [OF assms]
  assume "open_file name s = Some (r, u)"
  then show "kept s u"
    using k by (auto simp: open_file_def Let_def bind_eq_Some_conv split: if_splits option.splits prod.splits
        intro!: kept_pcb_updates simp del: upd_pcb_twice)
next
  show "kept s (snd (close_fd fd s))"
    using kept_refl [OF assms] by (auto simp: close_fd_def Let_def intro!: kept_pcb_updates simp del: upd_pcb_twice)
qed

lemma kept_getargs:
  assumes "display_ok s" "2 \<le> user_frame s" "in_window buf 32" "getargs buf n s = Some (r, u)"
  shows "kept s u"
  using assms kept_store_window [OF kept_refl [OF assms(1)] assms(2,3)] kept_refl [OF assms(1)]
  by (auto simp: getargs_def Let_def split: if_splits option.splits simp del: upt_conv_Cons)

lemma kept_vidmap:
  assumes "display_ok s" "2 \<le> user_frame s" "buf \<le> 0x83FFFFC"
  shows "kept s (snd (vidmap buf s))"
proof -
  have c: "kept s (cli s)" using kept_refl [OF assms(1)] by (rule kept_cli_sti)
  define t where "t = flush_tlb (set_pde_frame4kb 33 (drop_bit 12 (page_table_vidmap_addr (cli s))) (cli s))"
  have ok: "paging_ok (cli s)" using kept_display [OF c] by (simp add: display_ok_def)
  have "paging_ok t" using paging_ok_vidmap_pde [OF ok] by (simp add: t_def paging_ok_flush)
  moreover have k: "mem t = mem s" "terminals t = terminals s" "sched_term t = sched_term s" "visible_term t = visible_term s"
    "user_frame t = user_frame s" "pcbs t = pcbs s" "pid_arr t = pid_arr s" "fs t = fs s" "esp0 t = esp0 s"
    by (simp_all add: t_def) (simp_all add: set_pde_frame4kb_def set_pde_def flush_tlb_def cli_def)
  ultimately have "kept s t"
    using assms(1) by (simp add: kept_def display_ok_def kview_def other_bytes_def backed_up_def)
  moreover have "in_window buf 4" if "0x8000000 \<le> sint (word_of_nat buf :: u32)"
  proof -
    have "unat (word_of_nat buf :: u32) = buf" using assms(3) by (simp add: unat_of_nat take_bit_nat_eq_self)
    then show ?thesis using that assms(3) by (simp add: in_window_def sint_unat split: if_splits)
  qed
  ultimately show ?thesis
    using c assms(2) by (auto simp: vidmap_def Let_def t_def [symmetric] intro!: kept_cli_sti kept_store_window)
qed

text \<open>The buffers that the calls by number write to lie in the program's window.\<close>

definition call_buffers :: "u32 \<Rightarrow> u32 \<Rightarrow> u32 \<Rightarrow> u32 \<Rightarrow> bool" where
  "call_buffers eax ebx ecx edx \<longleftrightarrow>
     (sint eax = 3 \<longrightarrow> in_window (unat ecx) (max 32 (nat (sint edx)))) \<and>
     (sint eax = 7 \<longrightarrow> in_window (unat ebx) 32) \<and> (sint eax = 8 \<longrightarrow> unat ebx \<le> 0x83FFFFC)"

lemma kept_syscall:
  assumes "display_ok s" "2 \<le> user_frame s" "call_buffers eax ebx ecx edx" "sint eax \<notin> {1, 2}"
    and irq: "\<And>n t. kept s t \<Longrightarrow> kept s (irq n t)"
    and "syscall_asm irq eax ebx ecx edx s = Some (f, s')"
  shows "kept s s'"
proof (cases "sint eax < 1 \<or> sint eax > 10")
  case True
  then show ?thesis using assms(6) kept_refl [OF assms(1)] by (simp add: syscall_asm_def)
next
  case False
  let ?n = "nat (sint eax)"
  obtain g u where u: "(syscall_table irq ebx ecx edx ! ?n) s = Some (g, u)"
    and c: "(case g of Ret r \<Rightarrow> Some (Ret r, u\<lparr>iflag := iflag s\<rparr>) | _ \<Rightarrow> Some (g, u)) = Some (f, s')"
    using assms(6) False unfolding syscall_asm_def by (auto simp only: bind_eq_Some_conv if_False split_paired_Ex prod.case)
  have s': "s' = u\<lparr>iflag := iflag s\<rparr> \<or> s' = u" using c by (cases g) auto
  note calls = kept_sys_read [OF assms(1,2) _ irq] kept_sys_write [OF assms(1)] kept_open_close [OF assms(1)]
    kept_getargs [OF assms(1,2)] kept_vidmap [OF assms(1,2)] kept_refl [OF assms(1)]
  have "?n = 3 \<or> ?n = 4 \<or> ?n = 5 \<or> ?n = 6 \<or> ?n = 7 \<or> ?n = 8 \<or> ?n = 9 \<or> ?n = 10"
  proof -
    have "sint eax \<noteq> 1" "sint eax \<noteq> 2" using assms(4) by simp_all
    then have "3 \<le> sint eax" "sint eax \<le> 10" using False by linarith+
    then have "3 \<le> ?n" "?n \<le> 10" by linarith+
    moreover have "m = 3 \<or> m = 4 \<or> m = 5 \<or> m = 6 \<or> m = 7 \<or> m = 8 \<or> m = 9 \<or> m = 10" if "3 \<le> m" "m \<le> 10" for m :: nat
      using that by linarith
    ultimately show ?thesis by blast
  qed
  then have "kept s u"
  proof (elim disjE)
    assume n: "?n = 3"
    then have "in_window (unat ecx) (max 32 (nat (sint edx)))" using assms(3) False by (simp add: call_buffers_def)
    then show ?thesis using u n calls(1) by (auto simp: syscall_table_def bind_eq_Some_conv)
  next
    assume n: "?n = 6"
    then show ?thesis using u calls(4) [of "sint ebx"] by (simp add: syscall_table_def split_beta)
  next
    assume n: "?n = 7"
    then have "in_window (unat ebx) 32" using assms(3) False by (simp add: call_buffers_def)
    then show ?thesis using u n calls(5) by (auto simp: syscall_table_def bind_eq_Some_conv)
  next
    assume n: "?n = 8"
    then have "unat ebx \<le> 0x83FFFFC" using assms(3) False by (simp add: call_buffers_def)
    then show ?thesis using u n calls(6) by (auto simp: syscall_table_def split_beta)
  qed (use u calls(2,3,7) in \<open>auto simp: syscall_table_def bind_eq_Some_conv\<close>)
  then show ?thesis using s' by (auto intro: kept_keys)
qed

end
