(* ===== verification/Boot.thy ===== *)
theory Boot
  imports KeyBounds
begin

text \<open>
  The start of the kernel (kernel.c, entry): after the boot loader's information has been printed and
  the segment registers are set up, the devices, the file system, paging and the terminals are
  initialised and the first shell is started.

  \<open>filesys_start\<close> is the address of the first module as the boot loader reports it.  The definitions
  begin where the kernel stack is put into the task state segment.
\<close>

section \<open>The code\<close>

definition boot_devices :: "device \<Rightarrow> int \<Rightarrow> 'a kernel_state_scheme \<Rightarrow> 'a kernel_state_scheme" where
  "boot_devices dev filesys_start s =
     (let s = s\<lparr>ss0 := KERNEL_DS, esp0 := 0x800000\<rparr>;
          s = i8259_init dev s;
          s = fold (\<lambda>i. disable_irq dev (word_of_nat i)) [0..<16] s;
          s = enable_irq dev 2 s;
          s = rtc_init dev s;
          s = s\<lparr>fs := filesys_init (mem s) filesys_start\<rparr>;
          s = paging_init s;
          s = keyboard_init dev s;
          s = terminal_init s;
          s = pit_init dev s
      in clear s)"

definition boot :: "device \<Rightarrow> int \<Rightarrow> 'a kernel_state_scheme \<Rightarrow> (flow \<times> 'a kernel_state_scheme) option" where
  "boot dev filesys_start s = do {
     (f, s) \<leftarrow> execute (Some (arr_of (bytes_of ''shell''))) (boot_devices dev filesys_start s);
     case f of Ret r \<Rightarrow> Some (f, sti s) | _ \<Rightarrow> Some (f, s)
   }"

section \<open>Which interrupts are enabled\<close>

text \<open>Operations that write no interrupt mask.\<close>

definition no_mask_out :: "'a io_state_scheme \<Rightarrow> 'b io_state_scheme \<Rightarrow> bool" where
  "no_mask_out s s' \<longleftrightarrow> (\<exists>l. io_log s' = io_log s @ l \<and> (\<forall>p \<in> mask_ports. last_out p l = None))"

lemma no_mask_refl: "io_log s' = io_log s \<Longrightarrow> no_mask_out s s'"
  by (simp add: no_mask_out_def)

lemma no_mask_trans: "no_mask_out s s' \<Longrightarrow> no_mask_out s' s'' \<Longrightarrow> no_mask_out s s''"
  unfolding no_mask_out_def by (auto simp: last_out_append)

lemma no_mask_outb: "p \<notin> mask_ports \<Longrightarrow> no_mask_out s s' \<Longrightarrow> no_mask_out s (outb v p s')"
  unfolding no_mask_out_def by (auto simp: last_out_append)

lemma no_mask_masked:
  assumes "no_mask_out s s'" "masks_readable dev (io_log s)"
  shows "masks_readable dev (io_log s')" "irq_masked dev j s' \<longleftrightarrow> irq_masked dev j s"
proof -
  obtain l where l: "io_log s' = io_log s @ l" "\<forall>p \<in> mask_ports. last_out p l = None"
    using assms(1) unfolding no_mask_out_def by blast
  have "dev (io_log s') p = dev (io_log s) p" if "p \<in> mask_ports" for p
    using assms(2) l that by (simp add: masks_readable_def)
  then show "masks_readable dev (io_log s')" "irq_masked dev j s' \<longleftrightarrow> irq_masked dev j s"
    using assms(2) l masks_readable_append [of dev "io_log s" l] by (auto simp: irq_masked_def mask_ports_def)
qed

lemma no_mask_clear: "no_mask_out s (clear s)"
proof -
  have log: "io_log (write_cell vm k c a t) = io_log t" for vm k c a and t :: "'a console_state_scheme"
    by (simp add: write_cell_def Let_def)
  have blank: "io_log (blank_cells vm a b t) = io_log t" for vm a b and t :: "'a console_state_scheme"
    unfolding blank_cells_def by (rule fold_frame [where frm = io_log]) (rule log)
  have cursor: "no_mask_out t (update_cursor t)" for t :: "'a console_state_scheme"
    unfolding update_cursor_def Let_def by (intro no_mask_outb no_mask_refl) (simp_all add: mask_ports_def)
  have "io_log (upd_term k f (upd_term j g s)) = io_log s" for j k f g by (simp add: upd_term_def)
  then have "no_mask_out s (update_cursor (upd_term k f (upd_term j g s)))" for j k f g
    using no_mask_trans [OF no_mask_refl cursor] by blast
  then show ?thesis
    unfolding clear_def Let_def by (rule no_mask_trans [OF _ no_mask_refl]) (rule blank)
qed

lemma no_mask_terminal_init: "no_mask_out s (terminal_init s)"
proof -
  let ?f = "\<lambda>idx s. let s = upd_term idx (init_terminal idx) s; s = clear s
     in upd_term idx (\<lambda>t. t\<lparr>read_buffer := (\<lambda>i. if i < 128 then NUL else read_buffer t i)\<rparr>) s"
  have step: "no_mask_out t (?f i t)" for i and t :: "'a console_state_scheme"
    using no_mask_clear [of "upd_term i (init_terminal i) t"] by (simp add: Let_def no_mask_out_def)
  have "no_mask_out t (fold ?f xs t)" for xs and t :: "'a console_state_scheme"
  proof (induction xs arbitrary: t)
    case (Cons x xs)
    show ?case using no_mask_trans [OF step Cons.IH] by (simp only: fold_simps)
  qed (simp add: no_mask_refl)
  then show ?thesis unfolding terminal_init_def Let_def no_mask_out_def by simp
qed

lemma no_mask_rtc_start:
  "no_mask_out s (outb v 0x71 (outb w 0x70 (snd (inb dev 0x71 (outb x 0x70 s)))))"
  by (intro no_mask_outb) (auto simp: mask_ports_def no_mask_out_def)
lemma paging_init_log [simp]: "io_log (paging_init s) = io_log s"
  unfolding paging_init_def Let_def fold_set_pde fold_set_pte fold_set_pte_vidmap
  by (simp add: loadPageDirectory_def otherenable_def set_pte_frame_def set_pte_def flush_tlb_def)

lemma masks_enable:
  assumes "masks_readable dev (io_log s)" "irq < 16" "i = word_of_nat irq" "\<forall>j < 16. irq_masked dev j s \<longleftrightarrow> j \<notin> A"
  shows "masks_readable dev (io_log (enable_irq dev i s)) \<and> (\<forall>j < 16. irq_masked dev j (enable_irq dev i s) \<longleftrightarrow> j \<notin> insert irq A)"
  unfolding assms(3) using enable_irq_readable [OF assms(1,2)] enable_irq_masked [OF assms(1,2)] assms(4) by auto

lemma masks_quiet:
  assumes "no_mask_out s s'" "masks_readable dev (io_log s) \<and> (\<forall>j < 16. irq_masked dev j s \<longleftrightarrow> j \<notin> A)"
  shows "masks_readable dev (io_log s') \<and> (\<forall>j < 16. irq_masked dev j s' \<longleftrightarrow> j \<notin> A)"
  using no_mask_masked [OF assms(1)] assms(2) by blast

lemma irq_masked_caps [simp]: "irq_masked dev j (s\<lparr>caps_flag := x\<rparr>) = irq_masked dev j s"
  by (simp add: irq_masked_def)

text \<open>
  Booting lets through exactly the interrupts that have a driver: when the interrupt controllers'
  masks can be read back once they are initialised, the lines of the timer, the keyboard, the second
  controller and the real-time clock are open at the end and the other twelve are masked.
\<close>

theorem boot_opens_four_lines:
  assumes "masks_readable dev (io_log (i8259_init dev (s\<lparr>ss0 := KERNEL_DS, esp0 := 0x800000\<rparr>)))" "j < 16"
  shows "irq_masked dev j (boot_devices dev filesys_start s) \<longleftrightarrow> j \<notin> {0, 1, 2, 8}"
proof -
  let ?m = "\<lambda>A t. masks_readable dev (io_log t) \<and> (\<forall>j < 16. irq_masked dev j t \<longleftrightarrow> j \<notin> A)"
  define s1 where "s1 = i8259_init dev (s\<lparr>ss0 := KERNEL_DS, esp0 := 0x800000\<rparr>)"
  define s2 where "s2 = fold (\<lambda>i. disable_irq dev (word_of_nat i)) [0..<16] s1"
  define s3 where "s3 = rtc_init dev (enable_irq dev 2 s2)"
  define s4 where "s4 = keyboard_init dev (paging_init (s3\<lparr>fs := filesys_init (mem s3) filesys_start\<rparr>))"
  define s5 where "s5 = pit_init dev (terminal_init s4)"
  have "?m {} s2"
    using disable_loop [of dev s1 "[0..<16]"] assms(1) by (simp add: s1_def s2_def atLeast0LessThan)
  then have "?m {2} (enable_irq dev 2 s2)" using masks_enable [of dev s2 2 2 "{}"] by simp
  from masks_quiet [OF no_mask_rtc_start this] have "?m {8, 2} s3"
    unfolding s3_def rtc_init_def Let_def split_beta by (intro masks_enable) auto
  then have "?m {8, 2} (paging_init (s3\<lparr>fs := filesys_init (mem s3) filesys_start\<rparr>))"
    by (rule masks_quiet [OF no_mask_refl, rotated]) simp
  then have "?m {1, 8, 2} (enable_irq dev 1 (paging_init (s3\<lparr>fs := filesys_init (mem s3) filesys_start\<rparr>)))"
    by (intro masks_enable) auto
  then have "?m {1, 8, 2} s4" unfolding s4_def keyboard_init_def by simp
  from masks_quiet [OF no_mask_terminal_init this] have "?m {1, 8, 2} (terminal_init s4)" .
  then have "?m {1, 8, 2} (outb v 0x40 (outb w 0x40 (outb u 0x46 (terminal_init s4))))" for u v w
    by (rule masks_quiet [rotated]) (intro no_mask_outb no_mask_refl, simp_all add: mask_ports_def)
  then have "?m {0, 1, 8, 2} s5"
    unfolding s5_def pit_init_def Let_def by (intro masks_enable) auto
  from masks_quiet [OF no_mask_clear this] have "?m {0, 1, 8, 2} (clear s5)" .
  moreover have "boot_devices dev filesys_start s = clear s5"
    by (simp add: boot_devices_def Let_def s1_def s2_def s3_def s4_def s5_def)
  ultimately show ?thesis using assms(2) by auto
qed

text \<open>A device whose ports hold what was last written to them.\<close>

definition demo_device :: device where
  "demo_device log p = (case last_out p log of Some v \<Rightarrow> v | None \<Rightarrow> 0xFF)"

lemma demo_device_readable: "masks_readable demo_device log"
  by (auto simp: masks_readable_def demo_device_def last_out_append split: option.split)

theorem boot_opens_four_lines_witness:
  "\<not> irq_masked demo_device 1 (boot_devices demo_device 0x500000 demo_state)
    \<and> irq_masked demo_device 14 (boot_devices demo_device 0x500000 demo_state)"
  using boot_opens_four_lines [OF demo_device_readable, where j = 1 and s = demo_state and filesys_start = "0x500000"]
    boot_opens_four_lines [OF demo_device_readable, where j = 14 and s = demo_state and filesys_start = "0x500000"] by simp

section \<open>The first shell\<close>

text \<open>The port operations change the log and the two masks.\<close>

lemma pic_more [simp]:
  "pic_state.more (outb v p s) = pic_state.more s" "pic_state.more (snd (inb dev p s)) = pic_state.more s"
  "pic_state.more (enable_irq dev i s) = pic_state.more s" "pic_state.more (disable_irq dev i s) = pic_state.more s"
  by (simp_all add: outb_def inb_def enable_irq_def disable_irq_def Let_def split_beta)

lemma pic_more_start:
  "pic_state.more (i8259_init dev s) = pic_state.more s" "pic_state.more (rtc_init dev s) = pic_state.more s"
  "pic_state.more (pit_init dev s) = pic_state.more s"
  by (simp_all add: i8259_init_def rtc_init_def pit_init_def Let_def split_beta)

lemma pic_more_disable: "pic_state.more (fold (\<lambda>i. disable_irq dev (f i)) xs s) = pic_state.more s"
  by (rule fold_frame [where frm = pic_state.more]) simp

lemma pic_fields:
  assumes "pic_state.more s' = pic_state.more s"
  shows "mem s' = mem s" "terminals s' = terminals s" "sched_term s' = sched_term s" "visible_term s' = visible_term s"
    "paging_of s' = paging_of s" "page_faults s' = page_faults s" "fs s' = fs s" "pid_arr s' = pid_arr s" "pcbs s' = pcbs s"
    "esp0 s' = esp0 s" "ss0 s' = ss0 s" "reg_esp s' = reg_esp s" "reg_ebp s' = reg_ebp s" "stack_junk s' = stack_junk s"
  using assms by (cases s, cases s', simp add: paging_of_def)+

lemma paging_init_cong: "paging_of s = paging_of t \<Longrightarrow> paging_of (paging_init s) = paging_of (paging_init t)"
  by (simp add: paging_of_def paging_init_simps fun_eq_iff)

lemma caps_fields:
  "mem (s\<lparr>caps_flag := x\<rparr>) = mem s" "paging_of (s\<lparr>caps_flag := x\<rparr>) = paging_of s"
  "pid_arr (s\<lparr>caps_flag := x\<rparr>) = pid_arr s" "fs (s\<lparr>caps_flag := x\<rparr>) = fs s"
  by (simp_all add: paging_of_def)

lemma terminal_init_kernel:
  assumes "paging_ok s"
  shows "console_state.more (terminal_init s) = console_state.more s"
proof -
  have c: "console_state.more (clear t) = console_state.more t" if "paging_ok t" for t :: "'a console_state_scheme"
    using clear_show [OF that] by auto
  let ?f = "\<lambda>idx s. let s = upd_term idx (init_terminal idx) s; s = clear s
     in upd_term idx (\<lambda>t. t\<lparr>read_buffer := (\<lambda>i. if i < 128 then NUL else read_buffer t i)\<rparr>) s"
  have "console_state.more (fold ?f [0..<3] s) = console_state.more s \<and> init_inv s 3 (fold ?f [0..<3] s)"
  proof (rule fold_upt_inv [where P = "\<lambda>i t. console_state.more t = console_state.more s \<and> init_inv s i t"])
    fix i t assume t: "console_state.more t = console_state.more s \<and> init_inv s i t"
    then have "paging_ok (upd_term i (init_terminal i) t)"
      using assms paging_cong(1) [of t s] by (simp add: init_inv_def)
    with t c [of "upd_term i (init_terminal i) t"] init_terminal_step [OF assms, of i t]
    show "console_state.more (?f i t) = console_state.more s \<and> init_inv s (Suc i) (?f i t)"
      by (simp add: Let_def)
  qed (simp add: init_inv_def)
  then show ?thesis by (simp add: terminal_init_def Let_def upd_term_def)
qed

text \<open>
  The state in which the first shell is started: the screen blank, the tables as paging\_init sets
  them up, three terminals of which the first is in use, and the processes and the file system as
  the boot loader left them.
\<close>

definition booted :: "int \<Rightarrow> 'a kernel_state_scheme \<Rightarrow> 'a kernel_state_scheme \<Rightarrow> bool" where
  "booted filesys_start s b \<longleftrightarrow>
     mem b = put_cells 0xB8000 (replicate 2000 blank) (mem s) \<and> paging_of b = paging_of (paging_init s) \<and>
     fs b = filesys_init (mem s) filesys_start \<and> pid_arr b = pid_arr s \<and> pcbs b = pcbs s \<and>
     sched_term b = 0 \<and> visible_term b = 0 \<and> active_pid (terminals b 0) = 1 \<and> base_pid (terminals b 0) = 1 \<and>
     status (terminals b 0) = 1 \<and> backed_up b \<and>
     (\<forall>k < 3. screen_x (terminals b k) = 0 \<and> screen_y (terminals b k) = 0) \<and>
     unused_terminal (terminals b 1) \<and> unused_terminal (terminals b 2)"

lemma boot_devices_booted:
  assumes "tables_placed s"
  shows "booted filesys_start s (boot_devices dev filesys_start s)"
proof -
  define s0 where "s0 = s\<lparr>ss0 := KERNEL_DS, esp0 := 0x800000\<rparr>"
  define s3 where "s3 = rtc_init dev (enable_irq dev 2 (fold (\<lambda>i. disable_irq dev (word_of_nat i)) [0..<16] (i8259_init dev s0)))"
  define p where "p = paging_init (s3\<lparr>fs := filesys_init (mem s3) filesys_start\<rparr>)"
  define s4 where "s4 = keyboard_init dev p"
  define s5 where "s5 = pit_init dev (terminal_init s4)"
  have m3: "pic_state.more s3 = pic_state.more s0"
    by (simp only: s3_def pic_more_start pic_more pic_more_disable)
  note f3 = pic_fields [OF m3]
  have g3: "mem s3 = mem s" "paging_of s3 = paging_of s" "pid_arr s3 = pid_arr s" "pcbs s3 = pcbs s"
    using f3 by (simp_all add: s0_def paging_of_def)
  have pp: "paging_of p = paging_of (paging_init s)"
    unfolding p_def using g3(2) by (intro paging_init_cong) (simp add: paging_of_def)
  have ok: "paging_ok p" "video_frame p = 0xB8"
    using paging_init_ok [OF assms] paging_init_frames [where s = s] paging_cong(1,4) [OF pp] by simp_all
  have fp: "mem p = mem s" "fs p = filesys_init (mem s) filesys_start" "pid_arr p = pid_arr s" "pcbs p = pcbs s"
    by (simp_all add: p_def g3 paging_init_simps)
  have "pic_state.more (enable_irq dev 1 p) = pic_state.more p" by simp
  note fe = pic_fields [OF this]
  have f4: "mem s4 = mem s" "fs s4 = filesys_init (mem s) filesys_start" "pid_arr s4 = pid_arr s" "pcbs s4 = pcbs s"
    "paging_of s4 = paging_of p"
    using fp fe by (simp_all add: s4_def keyboard_init_def caps_fields)
  have ok4: "paging_ok s4" "video_base s4 = 0xB8000"
    using ok paging_cong(1,4) [OF f4(5)] by (simp_all add: video_base_def)
  note t = terminal_init_state [OF ok4(1)]
  note k = kernel_fields [OF terminal_init_kernel [OF ok4(1)]]
  have "pic_state.more s5 = pic_state.more (terminal_init s4)" by (simp add: s5_def pic_more_start)
  note f5 = pic_fields [OF this]
  have p5: "paging_of s5 = paging_of s4" using f5(5) t by simp
  have ok5: "paging_ok s5" "video_base s5 = 0xB8000"
    using ok4 paging_cong(1,4) [OF p5] by (simp_all add: video_base_def)
  obtain out where c: "clear s5 = show_screen (sched_term s5) (video_base s5) blank_screen out s5"
    using clear_show [OF ok5(1)] by blast
  have b: "boot_devices dev filesys_start s = clear s5"
    by (simp add: boot_devices_def Let_def s0_def s3_def p_def s4_def s5_def)
  have "mem (clear s5) = put_cells 0xB8000 (replicate 2000 blank) (mem s)"
    using t f5(1) f4(1) ok4(2) ok5(2) by (simp add: c mem_show_screen put_cells_twice blank_screen_def)
  then show ?thesis
    unfolding b booted_def using t k f5 f4 pp by (simp add: c backed_up_def blank_screen_def fresh_terminal_def)
qed

lemma boot_shell:
  assumes "tables_placed s" "i = paging_init (s\<lparr>fs := filesys_init (mem s) filesys_start\<rparr>)" "fs_ok i"
    and "lookup i (bytes_of ''shell'') = Some d" "program_file i d prog" "pid_arr s = (\<lambda>_. 0)"
  shows "\<exists>b s'. booted filesys_start s b \<and> boot dev filesys_start s = Some (ToUser (entry_point prog) 0x83FFFFC, s')
    \<and> process_started 1 (\<lambda>_. NUL) prog b s' \<and> parent_pid (pcbs s' 1) = 1 \<and> user_frame s' = 2"
proof -
  let ?b = "boot_devices dev filesys_start s"
  have b: "booted filesys_start s ?b" by (rule boot_devices_booted [OF assms(1)])
  have p: "paging_of ?b = paging_of (paging_init s)" using b by (simp add: booted_def)
  have ok: "paging_ok ?b" using paging_init_ok [OF assms(1)] paging_cong(1) [OF p] by simp
  have mi: "mem i = mem s" "fs i = filesys_init (mem s) filesys_start" by (simp_all add: assms(2) paging_init_simps)
  have "agree_kernel (mem i) (mem ?b)" "fs ?b = fs i"
    using b mi by (simp_all add: booted_def agree_put_cells)
  note v = fs_views [OF this assms(3) ok]
  have "free_pid ?b = Some 0" using b assms(6) by (simp add: booted_def free_pid_def upt_conv_Cons)
  moreover have "lookup ?b (bytes_of ''shell'') = Some d" using v(2) assms(4) by simp
  ultimately obtain s' where x: "execute (Some (arr_of (bytes_of ''shell''))) ?b = Some (ToUser (entry_point prog) 0x83FFFFC, s')"
    and ps: "process_started (int 0 + 1) (\<lambda>j. if j < length ([] :: byte list) then [] ! j else NUL) prog ?b s'"
    using execute_starts [OF v(1) demo_command _ v(3) [OF assms(5)]] by blast
  have "process_started 1 (\<lambda>_. NUL) prog ?b s'" using ps by simp
  moreover from this have "parent_pid (pcbs s' 1) = 1" "user_frame s' = 2"
    using b by (simp_all add: process_started_def booted_def)
  moreover have "boot dev filesys_start s = Some (ToUser (entry_point prog) 0x83FFFFC, s')" using x by (simp add: boot_def)
  ultimately show ?thesis using b by blast
qed

text \<open>
  The kernel boots into a shell: with a file system image that holds an executable \<open>shell\<close> and no
  process yet, the initialisation ends in the state described by \<open>booted\<close>, and the shell is loaded
  from the image into the first process's frame and entered, as process 1 on terminal 0, its own
  parent.
\<close>

theorem boot_starts_shell:
  assumes "tables_placed s" "i = paging_init (s\<lparr>fs := filesys_init (mem s) filesys_start\<rparr>)" "fs_ok i"
    and "lookup i (bytes_of ''shell'') = Some d" "program_file i d prog" "pid_arr s = (\<lambda>_. 0)"
  shows "\<exists>b s'. booted filesys_start s b \<and> boot dev filesys_start s = Some (ToUser (entry_point prog) 0x83FFFFC, s')
    \<and> process_started 1 (\<lambda>_. NUL) prog b s' \<and> parent_pid (pcbs s' 1) = 1 \<and> user_frame s' = 2"
  by (rule boot_shell [OF assms])

theorem boot_starts_shell_witness:
  "\<exists>b s'. booted 0x500000 demo_state b \<and> boot dev 0x500000 demo_state = Some (ToUser (entry_point demo_prog) 0x83FFFFC, s')
    \<and> process_started 1 (\<lambda>_. NUL) demo_prog b s'"
proof -
  define i where "i = paging_init (demo_state\<lparr>fs := filesys_init (mem demo_state) 0x500000\<rparr>)"
  have t: "tables_placed demo_state"
    using demo_state_simps(1) by (simp add: paging_ok_def)
  then have "tables_placed (demo_state\<lparr>fs := filesys_init (mem demo_state) 0x500000\<rparr>)" by (simp add: tables_placed_def)
  then have ok: "paging_ok i" unfolding i_def by (rule paging_init_ok)
  have "mem i = mem demo_state" "fs i = fs demo_state"
    using demo_state_simps(2,3) by (simp_all add: i_def paging_init_simps demo_fs_def)
  then have "agree_kernel (mem demo_state) (mem i)" "fs i = fs demo_state" by (simp_all add: agree_kernel_refl)
  note v = fs_views [OF this demo_fs_ok ok]
  have "lookup i (bytes_of ''shell'') = Some (load_dentry demo_mem 0x500040)" using v(2) demo_lookup_shell by simp
  from boot_starts_shell [OF t i_def v(1) this v(3) [OF demo_program] demo_state_simps(7)]
  show ?thesis by blast
qed

end
