(* ===== verification/Printf.thy ===== *)
theory Printf
  imports Console
begin

text \<open>
  Formatted output (lib.c): printf and printfk.  The two functions are the same text but for the
  routine that shows a single character (putc or putck), so they are one definition with that routine
  as an argument; the strings of a conversion are shown by puts, and so by putc, in both.

  The arguments are the 32-bit words above the format on the stack, \<open>args k\<close> the \<open>k\<close>-th of them.  A
  string argument is the address of its bytes.  The buffer for a number is not initialised; \<open>junk\<close> is
  what it holds.  The functions do not return when the format, or a string, has no end.
\<close>

section \<open>The code\<close>

text \<open>The jump back to the switch after a \<open>#\<close>.\<close>

partial_function (option) skip_alt :: "carray \<Rightarrow> nat \<Rightarrow> bool \<Rightarrow> (nat \<times> bool) option" where
  "skip_alt fmt i alt = (if fmt i = 0x23 then skip_alt fmt (Suc i) True else Some (i, alt))"

text \<open>One conversion: whether it used an argument, and the state.\<close>

definition convert_hex :: "carray \<Rightarrow> bool \<Rightarrow> u32 \<Rightarrow> 'a console_state_scheme \<Rightarrow> (int \<times> 'a console_state_scheme) option" where
  "convert_hex junk alternate arg s =
     (if \<not> alternate then do { conv_buf \<leftarrow> itoa arg junk 16; puts conv_buf s }
      else do {
        digits \<leftarrow> itoa arg (\<lambda>i. junk (8 + i)) 16;
        starting_index \<leftarrow> strlen digits;
        let conv_buf = (\<lambda>i. if i < 8 then junk i else digits (i - 8));
        let conv_buf = fold (\<lambda>i b. b(i := 0x30)) [starting_index..<8] conv_buf;
        puts (\<lambda>i. conv_buf (starting_index + i)) s
      })"

definition convert_signed :: "carray \<Rightarrow> u32 \<Rightarrow> 'a console_state_scheme \<Rightarrow> (int \<times> 'a console_state_scheme) option" where
  "convert_signed junk arg s =
     (if sint arg < 0 then do {
        digits \<leftarrow> itoa (- arg) (\<lambda>i. junk (1 + i)) 10;
        puts (\<lambda>i. if i = 0 then 0x2D else digits (i - 1)) s
      }
      else do { conv_buf \<leftarrow> itoa arg junk 10; puts conv_buf s })"

definition convert :: "(byte \<Rightarrow> 'a console_state_scheme \<Rightarrow> 'a console_state_scheme) \<Rightarrow> carray \<Rightarrow> bool \<Rightarrow> byte \<Rightarrow>
    u32 \<Rightarrow> 'a console_state_scheme \<Rightarrow> (bool \<times> 'a console_state_scheme) option" where
  "convert putch junk alternate c arg s =
     (if c = 0x25 then Some (False, putch 0x25 s)
      else if c = 0x78 then do { (_, s) \<leftarrow> convert_hex junk alternate arg s; Some (True, s) }
      else if c = 0x75 then do { conv_buf \<leftarrow> itoa arg junk 10; (_, s) \<leftarrow> puts conv_buf s; Some (True, s) }
      else if c = 0x64 then do { (_, s) \<leftarrow> convert_signed junk arg s; Some (True, s) }
      else if c = 0x63 then Some (True, putch (ucast arg) s)
      else if c = 0x73 then do { (_, s) \<leftarrow> puts (\<lambda>i. vread s (unat arg + i)) s; Some (True, s) }
      else Some (False, s))"

partial_function (option) printf_from ::
  "(byte \<Rightarrow> 'a console_state_scheme \<Rightarrow> 'a console_state_scheme) \<Rightarrow> carray \<Rightarrow> carray \<Rightarrow> (nat \<Rightarrow> u32) \<Rightarrow>
    nat \<Rightarrow> nat \<Rightarrow> 'a console_state_scheme \<Rightarrow> (int \<times> 'a console_state_scheme) option" where
  "printf_from putch junk fmt args i k s =
     (if fmt i = NUL then Some (int i, s)
      else if fmt i = 0x25 then do {
        (j, alternate) \<leftarrow> skip_alt fmt (Suc i) False;
        (used, s) \<leftarrow> convert putch junk alternate (fmt j) (args k) s;
        printf_from putch junk fmt args (Suc j) (if used then Suc k else k) s
      }
      else printf_from putch junk fmt args (Suc i) k (putch (fmt i) s))"

definition printf :: "carray \<Rightarrow> carray \<Rightarrow> (nat \<Rightarrow> u32) \<Rightarrow> 'a console_state_scheme \<Rightarrow> (int \<times> 'a console_state_scheme) option" where
  "printf junk format args s = printf_from putc junk format args 0 0 s"

definition printfk :: "carray \<Rightarrow> carray \<Rightarrow> (nat \<Rightarrow> u32) \<Rightarrow> 'a console_state_scheme \<Rightarrow> (int \<times> 'a console_state_scheme) option" where
  "printfk junk format args s = printf_from putck junk format args 0 0 s"

section \<open>What is printed\<close>

text \<open>The pieces of a format, with their arguments.\<close>

datatype piece =
    Lit byte
  | Percent
  | Hex u32
  | Hex8 u32
  | Unsigned u32
  | Signed u32
  | Char u32
  | Str u32 "byte list"

fun format_of :: "piece \<Rightarrow> byte list" where
  "format_of (Lit b) = [b]"
| "format_of Percent = bytes_of ''%%''"
| "format_of (Hex _) = bytes_of ''%x''"
| "format_of (Hex8 _) = bytes_of ''%#x''"
| "format_of (Unsigned _) = bytes_of ''%u''"
| "format_of (Signed _) = bytes_of ''%d''"
| "format_of (Char _) = bytes_of ''%c''"
| "format_of (Str _ _) = bytes_of ''%s''"

fun args_of :: "piece \<Rightarrow> u32 list" where
  "args_of (Lit _) = []"
| "args_of Percent = []"
| "args_of (Hex v) = [v]"
| "args_of (Hex8 v) = [v]"
| "args_of (Unsigned v) = [v]"
| "args_of (Signed v) = [v]"
| "args_of (Char v) = [v]"
| "args_of (Str a _) = [a]"

definition numeral_of :: "nat \<Rightarrow> nat \<Rightarrow> byte list" where
  "numeral_of r n = map digit_byte (digits r n)"

fun render :: "piece \<Rightarrow> byte list" where
  "render (Lit b) = [b]"
| "render Percent = [0x25]"
| "render (Hex v) = numeral_of 16 (unat v)"
| "render (Hex8 v) = (let d = numeral_of 16 (unat v) in replicate (8 - length d) 0x30 @ d)"
| "render (Unsigned v) = numeral_of 10 (unat v)"
| "render (Signed v) = (if sint v < 0 then 0x2D # numeral_of 10 (nat (- sint v)) else numeral_of 10 (nat (sint v)))"
| "render (Char v) = [ucast v]"
| "render (Str _ bs) = bs"

text \<open>
  Literals are not \<open>%\<close> and not NUL; a string is in the kernel's data or in the process's own memory.
\<close>

definition string_at :: "'a console_state_scheme \<Rightarrow> nat \<Rightarrow> byte list \<Rightarrow> bool" where
  "string_at s a bs \<longleftrightarrow> 0x400000 \<le> a \<and> a + length bs < 0x800000 \<and> NUL \<notin> set bs \<and>
     load_bytes (mem s) a (length bs) = bs \<and> mem s (a + length bs) = NUL"

fun piece_ok :: "'a console_state_scheme \<Rightarrow> piece \<Rightarrow> bool" where
  "piece_ok s (Lit b) = (b \<noteq> NUL \<and> b \<noteq> 0x25)"
| "piece_ok s (Str a bs) = string_at s (unat a) bs"
| "piece_ok s _ = True"


section \<open>Strings and numbers on the screen\<close>

lemma puts_show:
  assumes "paging_ok s" "screen_ok c" "cstr p = Some bs" "k = sched_term s" "b = video_base s"
  shows "\<exists>out'. puts p (show_screen k b c out s) = Some (int (length bs), show_screen k b (screen_puts bs c) (out @ out') s)
    \<and> screen_ok (screen_puts bs c)"
proof -
  from assms(3) have l: "strlen p = Some (length bs)" and m: "map p [0..<length bs] = bs"
    by (auto simp: cstr_eq_Some intro: nth_equalityI)
  show ?thesis
    using putc_list_show [OF assms(1,2), of bs out] assms(4,5) by (auto simp: puts_def l fold_chars m)
qed

lemma puts_shows:
  assumes "paging_ok s" "screen_ok c" "cstr p = Some bs" "k = sched_term s" "b = video_base s"
  shows "\<exists>n out'. puts p (show_screen k b c out s) = Some (n, show_screen k b (screen_puts bs c) (out @ out') s)
    \<and> screen_ok (screen_puts bs c)"
  using puts_show [OF assms, of out] by blast

lemma itoa_numeral:
  assumes "2 \<le> radix" "radix \<le> 36"
  shows "\<exists>b. itoa v buf radix = Some b \<and> cstr b = Some (numeral_of (nat radix) (unat v))"
  using itoa_cstr [OF assms, of v buf] by (auto simp: numeral_of_def)

lemma sint_word:
  "0 \<le> sint v \<Longrightarrow> nat (sint v) = unat v" "sint v < 0 \<Longrightarrow> nat (- sint v) = unat (- v)" for v :: u32
proof -
  have r: "- (2 ^ 31) \<le> sint v" "sint v < 2 ^ 31" using sint_range_size [of v] by (simp_all add: word_size)
  show "nat (sint v) = unat v" if "0 \<le> sint v"
  proof -
    have "uint v = take_bit 32 (sint v)" using uint_word_of_int_eq [of "sint v", where 'a = 32] by simp
    also have "\<dots> = sint v" using that r by (simp add: take_bit_int_eq_self)
    finally show ?thesis by (simp only: unat_eq_nat_uint)
  qed
  show "nat (- sint v) = unat (- v)" if "sint v < 0"
  proof -
    have "uint (- v) = take_bit 32 (- sint v)" using uint_word_of_int_eq [of "- sint v", where 'a = 32] by simp
    also have "\<dots> = - sint v" using that r by (simp add: take_bit_int_eq_self)
    finally show ?thesis by (simp only: unat_eq_nat_uint)
  qed
qed

lemma cstr_Cons: "b \<noteq> NUL \<Longrightarrow> cstr d = Some bs \<Longrightarrow> cstr (\<lambda>i. if i = 0 then b else d (i - 1)) = Some (b # bs)"
  by (auto simp: cstr_eq_Some strlen_eq_Some nth_Cons' less_Suc_eq_0_disj)

lemma convert_signed_show:
  assumes "paging_ok s" "screen_ok c" "k = sched_term s" "b = video_base s"
  shows "\<exists>n out'. convert_signed junk v (show_screen k b c out s) =
      Some (n, show_screen k b (screen_puts (render (Signed v)) c) (out @ out') s) \<and> screen_ok (screen_puts (render (Signed v)) c)"
proof (cases "sint v < 0")
  case True
  obtain d where d: "itoa (- v) (\<lambda>i. junk (1 + i)) 10 = Some d" "cstr d = Some (numeral_of 10 (unat (- v)))"
    using itoa_numeral [of 10 "- v"] by auto
  have "cstr (\<lambda>i. if i = 0 then 0x2D else d (i - 1)) = Some (render (Signed v))"
    using cstr_Cons [OF _ d(2), of "0x2D"] True by (simp add: sint_word(2))
  from puts_shows [OF assms(1,2) this assms(3,4), of out] show ?thesis
    using True d(1) by (auto simp: convert_signed_def)
next
  case False
  obtain d where d: "itoa v junk 10 = Some d" "cstr d = Some (numeral_of 10 (unat v))"
    using itoa_numeral [of 10 v] by auto
  then have "cstr d = Some (render (Signed v))" using False by (simp add: sint_word(1))
  from puts_shows [OF assms(1,2) this assms(3,4), of out] show ?thesis
    using False d(1) by (auto simp: convert_signed_def)
qed

lemma hex_length: "length (numeral_of 16 (unat (v :: u32))) \<le> 8"
proof -
  have "unat v < 2 ^ 32" using unsigned_less [of v] by simp
  then have "unat v < 16 ^ 8" by simp
  then show ?thesis by (simp add: numeral_of_def length_digits)
qed

lemma fold_zero_fill: "fold (\<lambda>i b. b(i := x)) [a..<n] f = (\<lambda>i. if a \<le> i \<and> i < n then x else f i)"
  by (induction n) (auto simp: fun_eq_iff)

lemma convert_hex_show:
  assumes "paging_ok s" "screen_ok c" "k = sched_term s" "b = video_base s" "p = (if alt then Hex8 v else Hex v)"
  shows "\<exists>n out'. convert_hex junk alt v (show_screen k b c out s) =
      Some (n, show_screen k b (screen_puts (render p) c) (out @ out') s) \<and> screen_ok (screen_puts (render p) c)"
proof (cases alt)
  case False
  obtain d where d: "itoa v junk 16 = Some d" "cstr d = Some (render p)"
    using itoa_numeral [of 16 v] False assms(5) by auto
  from puts_shows [OF assms(1,2) d(2) assms(3,4), of out] show ?thesis
    using False d(1) by (auto simp: convert_hex_def)
next
  case True
  let ?n = "numeral_of 16 (unat v)"
  obtain d where d: "itoa v (\<lambda>i. junk (8 + i)) 16 = Some d" "cstr d = Some ?n"
    using itoa_numeral [of 16 v] by auto
  then have l: "strlen d = Some (length ?n)" and m: "i < length ?n \<Longrightarrow> d i = ?n ! i" for i
    by (auto simp: cstr_eq_Some)
  have z: "d (length ?n) = NUL" and nz: "i < length ?n \<Longrightarrow> ?n ! i \<noteq> NUL" for i
    using l m by (auto simp: strlen_eq_Some)
  let ?f = "\<lambda>i. fold (\<lambda>i b. b(i := 0x30)) [length ?n..<8] (\<lambda>i. if i < 8 then junk i else d (i - 8)) (length ?n + i)"
  have f: "?f i = (if i < 8 - length ?n then 0x30 else d (i - (8 - length ?n)))" for i
    using hex_length [of v] by (auto simp: fold_zero_fill intro!: arg_cong [where f = d])
  have "cstr ?f = Some (replicate (8 - length ?n) 0x30 @ ?n)"
    unfolding cstr_eq_Some strlen_eq_Some f using z m nz hex_length [of v] by (auto simp: nth_append)
  then have "cstr ?f = Some (render p)" using True assms(5) by (simp add: Let_def)
  from puts_shows [OF assms(1,2) this assms(3,4), of out] show ?thesis
    using True d(1) l by (auto simp: convert_hex_def Let_def)
qed


section \<open>The format loop\<close>

lemma skip_alt_eq: "fmt i \<noteq> 0x23 \<Longrightarrow> skip_alt fmt i alt = Some (i, alt)"
  "fmt i = 0x23 \<Longrightarrow> skip_alt fmt i alt = skip_alt fmt (Suc i) True"
  by (simp_all add: skip_alt.simps)

text \<open>The bytes \<open>bs\<close> are in the format at \<open>i\<close>, the words \<open>ws\<close> in the arguments at \<open>k\<close>.\<close>

definition at_pos :: "(nat \<Rightarrow> 'b) \<Rightarrow> nat \<Rightarrow> 'b list \<Rightarrow> bool" where
  "at_pos f i xs \<longleftrightarrow> (\<forall>j < length xs. f (i + j) = xs ! j)"

lemma at_pos_append: "at_pos f i (xs @ ys) \<longleftrightarrow> at_pos f i xs \<and> at_pos f (i + length xs) ys"
proof -
  have "(\<forall>j < length xs + length ys. P j) \<longleftrightarrow> (\<forall>j < length xs. P j) \<and> (\<forall>j < length ys. P (length xs + j))" for P
  proof (intro iffI conjI allI impI)
    fix j assume a: "(\<forall>j < length xs. P j) \<and> (\<forall>j < length ys. P (length xs + j))" "j < length xs + length ys"
    show "P j"
    proof (cases "j < length xs")
      case False
      then have "j = length xs + (j - length xs)" "j - length xs < length ys" using a(2) by auto
      with a(1) show ?thesis by metis
    qed (use a(1) in blast)
  qed auto
  then show ?thesis by (auto simp: at_pos_def nth_append add.assoc)
qed

lemma at_pos_Cons: "at_pos f i (x # xs) \<longleftrightarrow> f i = x \<and> at_pos f (Suc i) xs"
  using at_pos_append [of f i "[x]" xs] by (simp add: at_pos_def)

lemma at_pos_Nil [simp]: "at_pos f i []"
  by (simp add: at_pos_def)

lemma mem_show_screen': "mem (show_screen k b c out s) = put_cells b (cells c) (mem s)"
  by (simp add: show_screen_def with_cells_def)

lemma string_on_screen:
  assumes "paging_ok s" "string_at s a bs" "b + 4000 \<le> 0x400000" "length (cells c) = 2000"
  shows "cstr (\<lambda>i. vread (show_screen k b c out s) (a + i)) = Some bs"
proof -
  have a: "0x400000 \<le> a" "a + length bs < 0x800000" "NUL \<notin> set bs" "load_bytes (mem s) a (length bs) = bs"
    "mem s (a + length bs) = NUL"
    using assms(2) by (simp_all add: string_at_def)
  have r: "vread (show_screen k b c out s) (a + i) = mem s (a + i)" if "i \<le> length bs" for i
  proof -
    have "mmu (show_screen k b c out s) (a + i) = Some (a + i)"
      using mmu_kernel [of s "a + i"] assms(1) a that by simp
    then show ?thesis
      using a(1) assms(3,4) by (simp add: vread_def mem_show_screen' put_cells_def)
  qed
  have "mem s (a + i) = bs ! i" if "i < length bs" for i
    using arg_cong [OF a(4), of "\<lambda>l. l ! i"] that by simp
  with r a show ?thesis by (auto simp: cstr_eq_Some strlen_eq_Some in_set_conv_nth)
qed

lemma printf_piece:
  assumes "paging_ok s" "screen_ok c" "kk = sched_term s" "b = video_base s" "piece_ok s p" "b + 4000 \<le> 0x400000"
    and "at_pos fmt i (format_of p)" "at_pos args k (args_of p)"
  shows "\<exists>out'. printf_from putc junk fmt args i k (show_screen kk b c out s) =
      printf_from putc junk fmt args (i + length (format_of p)) (k + length (args_of p))
        (show_screen kk b (screen_puts (render p) c) (out @ out') s)
    \<and> screen_ok (screen_puts (render p) c)"
proof -
  let ?s = "show_screen kk b c out s"
  note pc = putc_show [OF assms(1,2,3,4), of _ out]
  have one: "screen_puts [x] c = screen_putc x c" "screen_ok (screen_putc x c)" for x
    using screen_putc_ok [OF assms(2)] by (simp_all add: screen_puts_def)
  have f: "fmt i = 0x25 \<Longrightarrow> skip_alt fmt (Suc i) False = Some (j, alt) \<Longrightarrow> convert putc junk alt (fmt j) (args k) ?s = Some (u, s')
      \<Longrightarrow> printf_from putc junk fmt args i k ?s = printf_from putc junk fmt args (Suc j) (if u then Suc k else k) s'" for j alt u s'
    by (subst printf_from.simps) simp
  show ?thesis
  proof (cases p)
    case (Lit x)
    then have "fmt i = x" "x \<noteq> NUL" "x \<noteq> 0x25" using assms(5,7) by (simp_all add: at_pos_Cons)
    then have "printf_from putc junk fmt args i k ?s = printf_from putc junk fmt args (Suc i) k (putc x ?s)"
      by (subst printf_from.simps) simp
    with pc [of x] one Lit show ?thesis by auto
  next
    case Percent
    then have "fmt i = 0x25" "fmt (Suc i) = 0x25" using assms(7) by (simp_all add: bytes_of_def at_pos_Cons)
    with f [of "Suc i" False False] pc [of "0x25"] one Percent show ?thesis
      by (auto simp: skip_alt_eq convert_def)
  next
    case (Hex v)
    then have "fmt i = 0x25" "fmt (Suc i) = 0x78" "args k = v" using assms(7,8) by (simp_all add: bytes_of_def at_pos_Cons)
    with f [of "Suc i" False True] convert_hex_show [OF assms(1-4), of p False v junk out] Hex show ?thesis
      by (auto simp: skip_alt_eq convert_def)
  next
    case (Hex8 v)
    then have "fmt i = 0x25" "fmt (Suc i) = 0x23" "fmt (Suc (Suc i)) = 0x78" "args k = v"
      using assms(7,8) by (simp_all add: bytes_of_def at_pos_Cons)
    with f [of "Suc (Suc i)" True True] convert_hex_show [OF assms(1-4), of p True v junk out] Hex8 show ?thesis
      by (auto simp: skip_alt_eq convert_def simp del: render.simps)
  next
    case (Unsigned v)
    then have "fmt i = 0x25" "fmt (Suc i) = 0x75" "args k = v" using assms(7,8) by (simp_all add: bytes_of_def at_pos_Cons)
    moreover obtain d where d: "itoa v junk 10 = Some d" "cstr d = Some (render p)"
      using itoa_numeral [of 10 v] Unsigned by auto
    ultimately show ?thesis
      using f [of "Suc i" False True] puts_shows [OF assms(1,2) d(2) assms(3,4), of out] Unsigned
      by (auto simp: skip_alt_eq convert_def)
  next
    case (Signed v)
    then have "fmt i = 0x25" "fmt (Suc i) = 0x64" "args k = v" using assms(7,8) by (simp_all add: bytes_of_def at_pos_Cons)
    with f [of "Suc i" False True] convert_signed_show [OF assms(1-4), of junk v out] Signed show ?thesis
      by (auto simp: skip_alt_eq convert_def simp del: render.simps)
  next
    case (Char v)
    then have "fmt i = 0x25" "fmt (Suc i) = 0x63" "args k = v" using assms(7,8) by (simp_all add: bytes_of_def at_pos_Cons)
    with f [of "Suc i" False True] pc [of "ucast v"] one Char show ?thesis
      by (auto simp: skip_alt_eq convert_def)
  next
    case (Str a bs)
    then have "fmt i = 0x25" "fmt (Suc i) = 0x73" "args k = a" using assms(7,8) by (simp_all add: bytes_of_def at_pos_Cons)
    moreover have "cstr (\<lambda>i. vread ?s (unat a + i)) = Some bs"
      using Str assms(2,5) by (intro string_on_screen [OF assms(1) _ assms(6)]) (simp_all add: screen_ok_def)
    ultimately show ?thesis
      using f [of "Suc i" False True] puts_shows [OF assms(1,2) _ assms(3,4), of _ bs out] Str
      by (fastforce simp: skip_alt_eq convert_def)
  qed
qed


lemma printf_pieces:
  assumes "paging_ok s" "screen_ok c" "kk = sched_term s" "b = video_base s" "\<forall>p \<in> set ps. piece_ok s p" "b + 4000 \<le> 0x400000"
    and "at_pos fmt i (concat (map format_of ps))" "at_pos args k (concat (map args_of ps))"
    and "fmt (i + length (concat (map format_of ps))) = NUL"
  shows "\<exists>out'. printf_from putc junk fmt args i k (show_screen kk b c out s) =
      Some (int (i + length (concat (map format_of ps))),
        show_screen kk b (screen_puts (concat (map render ps)) c) (out @ out') s)"
  using assms(2,5,7-9)
proof (induction ps arbitrary: c i k out)
  case Nil
  then show ?case by (subst printf_from.simps) (auto simp: screen_puts_def intro: exI [of _ "[]"])
next
  case (Cons p ps)
  have at: "at_pos fmt i (format_of p)" "at_pos fmt (i + length (format_of p)) (concat (map format_of ps))"
    "at_pos args k (args_of p)" "at_pos args (k + length (args_of p)) (concat (map args_of ps))"
    using Cons.prems(3,4) by (simp_all add: at_pos_append)
  obtain o1 where 1: "printf_from putc junk fmt args i k (show_screen kk b c out s) =
      printf_from putc junk fmt args (i + length (format_of p)) (k + length (args_of p))
        (show_screen kk b (screen_puts (render p) c) (out @ o1) s)" "screen_ok (screen_puts (render p) c)"
    using printf_piece [OF assms(1) Cons.prems(1) assms(3,4) _ assms(6) at(1,3), of junk out] Cons.prems(2) by auto
  have "screen_puts (render p @ bs) c = screen_puts bs (screen_puts (render p) c)" for bs
    by (simp add: screen_puts_def)
  then show ?case
    using Cons.IH [OF 1(2) _ at(2,4), of "out @ o1"] Cons.prems(2,5) 1(1) by (auto simp: add.assoc)
qed

lemma video_base_bounds: "paging_ok s \<Longrightarrow> video_base s + 4000 \<le> 0x400000"
  by (auto simp: video_base_def video_frame_def paging_ok_def table_ok_def Let_def video_frames_def)

text \<open>
  C27. printf shows what its format and arguments say: a format made of literal characters and of the
  conversions \<open>%%\<close>, \<open>%x\<close>, \<open>%#x\<close> (eight digits), \<open>%u\<close>, \<open>%d\<close>, \<open>%c\<close> and \<open>%s\<close>, with the arguments in their order,
  puts exactly the rendered text on the scheduled terminal's screen and returns the length of the format.
\<close>

theorem printf_renders:
  assumes "paging_ok s" "screen_ok (screen_of k b s)" "k = sched_term s" "b = video_base s" "\<forall>p \<in> set ps. piece_ok s p"
    and "fmt = concat (map format_of ps)" "args = concat (map args_of ps)"
  shows "\<exists>out. printf junk (arr_of fmt) (\<lambda>i. if i < length args then args ! i else rest i) s =
    Some (int (length fmt), show_screen k b (screen_puts (concat (map render ps)) (screen_of k b s)) out s)"
proof -
  have "at_pos (arr_of fmt) 0 (concat (map format_of ps))"
    "at_pos (\<lambda>i. if i < length args then args ! i else rest i) 0 (concat (map args_of ps))"
    "arr_of fmt (0 + length (concat (map format_of ps))) = NUL"
    using assms(6,7) by (simp_all add: at_pos_def)
  from printf_pieces [OF assms(1,2,3,4,5) _ this, of junk "[]"] video_base_bounds [OF assms(1)] assms(4,6) show ?thesis
    by (simp add: printf_def show_screen_of)
qed

theorem printf_renders_witness:
  "\<exists>out. printf (\<lambda>_. 0xAA) (arr_of (bytes_of ''%d = %#x'')) (\<lambda>i. if i < 2 then [-42, 0xBEEF] ! i else 0) boot_console_state =
    Some (8, show_screen 0 0xB8000 (screen_puts (bytes_of ''-42 = 0000BEEF'') (screen_of 0 0xB8000 boot_console_state)) out boot_console_state)"
proof -
  let ?ps = "[Signed (-42), Lit 0x20, Lit 0x3D, Lit 0x20, Hex8 0xBEEF]"
  have small: "digits 10 4 = [4]" "digits 16 11 = [11]" by (subst digits.simps, simp)+
  then have "digits 16 0xBE = [11, 14]" by (subst digits.simps) simp
  then have "digits 16 0xBEE = [11, 14, 14]" by (subst digits.simps) simp
  with small have d: "digits 10 42 = [4, 2]" "digits 16 0xBEEF = [11, 14, 14, 15]" by (subst digits.simps, simp)+
  have r: "concat (map render ?ps) = bytes_of ''-42 = 0000BEEF''"
  proof -
    have b: "digit_byte 4 = 0x34" "digit_byte 2 = 0x32" "digit_byte 11 = 0x42" "digit_byte 14 = 0x45" "digit_byte 15 = 0x46"
      by (simp_all add: digit_byte_def itoa_lookup_def bytes_of_def)
    have four: "replicate 4 x = [x, x, x, x]" for x :: byte by (simp add: numeral_eq_Suc)
    show ?thesis by (simp add: numeral_of_def d b Let_def four) (simp add: bytes_of_def)
  qed
  have f: "concat (map format_of ?ps) = bytes_of ''%d = %#x''" "concat (map args_of ?ps) = [-42, 0xBEEF]"
    by (simp_all add: bytes_of_def)
  have ok: "\<forall>p \<in> set ?ps. piece_ok boot_console_state p" by simp
  have l: "length [- 42, 0xBEEF :: u32] = 2" "length (bytes_of ''%d = %#x'') = 8" by simp_all
  have "0 = sched_term boot_console_state" "0xB8000 = video_base boot_console_state" by (simp_all add: boot_console)
  from printf_renders [OF boot_console(1) boot_screen_ok this ok f [symmetric], of "\<lambda>_. 0xAA" "\<lambda>_. 0"]
  show ?thesis unfolding r l by simp
qed

section \<open>Formats without conversions\<close>

lemma printf_plain_from:
  assumes "0x25 \<notin> set bs" "NUL \<notin> set bs" "at_pos fmt i bs" "fmt (i + length bs) = NUL"
  shows "printf_from putch junk fmt args i k s = Some (int (i + length bs), fold putch bs s)"
  using assms
proof (induction bs arbitrary: i s)
  case Nil
  then show ?case by (simp add: printf_from.simps)
next
  case (Cons x bs)
  then have "fmt i = x" "x \<noteq> 0x25" "x \<noteq> NUL" by (auto simp: at_pos_Cons)
  with Cons show ?case by (subst printf_from.simps) (simp add: at_pos_Cons)
qed

lemma printf_plain:
  assumes "0x25 \<notin> set bs" "NUL \<notin> set bs"
  shows "printf junk (arr_of bs) args s = Some (int (length bs), fold putc bs s)"
    "printfk junk (arr_of bs) args s = Some (int (length bs), fold putck bs s)"
  using printf_plain_from [OF assms, of "arr_of bs" 0] by (simp_all add: printf_def printfk_def at_pos_def)

text \<open>
  A format that ends in a single \<open>%\<close> is not the end: the conversion takes the terminator for its
  letter, steps over it, and printf goes on with whatever bytes follow the string.
\<close>

theorem printf_reads_past_format:
  assumes "0x25 \<notin> set bs" "NUL \<notin> set bs" "0x25 \<notin> set rest" "NUL \<notin> set rest"
    and "at_pos fmt 0 (bs @ [0x25, NUL] @ rest @ [NUL])"
  shows "printf junk fmt args s = Some (int (length bs + 2 + length rest), fold putc (bs @ rest) s)"
proof -
  have at: "at_pos fmt 0 bs" "fmt (length bs) = 0x25" "fmt (Suc (length bs)) = NUL"
    "at_pos fmt (length bs + 2) rest" "fmt (length bs + 2 + length rest) = NUL"
    using assms(5) by (simp_all add: at_pos_append at_pos_Cons)
  have pre: "printf_from putc junk fmt args i k t = printf_from putc junk fmt args (i + length xs) k (fold putc xs t)"
    if "0x25 \<notin> set xs" "NUL \<notin> set xs" "at_pos fmt i xs" for xs i k and t :: "'a console_state_scheme"
    using that
  proof (induction xs arbitrary: i t)
    case (Cons x xs)
    then have "fmt i = x" "x \<noteq> 0x25" "x \<noteq> NUL" by (auto simp: at_pos_Cons)
    with Cons show ?case by (subst printf_from.simps) (simp add: at_pos_Cons)
  qed simp
  have "printf_from putc junk fmt args (length bs) 0 t = printf_from putc junk fmt args (length bs + 2) 0 t"
    for t :: "'a console_state_scheme"
    using at(2,3) by (subst printf_from.simps) (simp add: skip_alt_eq convert_def)
  then show ?thesis
    using pre [OF assms(1,2) at(1)] printf_plain_from [OF assms(3,4) at(4,5)] by (simp add: printf_def)
qed

theorem printf_reads_past_format_witness:
  "printf (\<lambda>_. 0) (arr_of (bytes_of ''100%'' @ [NUL] @ bytes_of ''secret'')) (\<lambda>_. 0) s =
    Some (11, fold putc (bytes_of ''100secret'') s)"
proof -
  have "at_pos (arr_of (bytes_of ''100%'' @ [NUL] @ bytes_of ''secret'')) 0
      (bytes_of ''100'' @ [0x25, NUL] @ bytes_of ''secret'' @ [NUL])"
    by (simp add: at_pos_def bytes_of_def arr_of_def All_less_Suc numeral_eq_Suc)
  then show ?thesis
    using printf_reads_past_format [of "bytes_of ''100''" "bytes_of ''secret''"] by (simp add: bytes_of_def)
qed

end
