(* ===== verification/Exceptions.thy ===== *)
theory Exceptions
  imports KeyBounds Printf
begin

text \<open>
  The exception handlers (exceptions.c): each prints the name of its exception on the scheduled
  terminal and ends the process with the status kept for exceptions.  \<open>junk\<close> and \<open>args\<close> are the
  uninitialised conversion buffer of printf and the words above its format; no message uses them.
\<close>

section \<open>The code\<close>

abbreviation EXCEPTION_STATUS :: int where
  "EXCEPTION_STATUS \<equiv> 100"

abbreviation newline :: "byte list" where
  "newline \<equiv> [0x0A]"

definition divideException :: "carray \<Rightarrow> (nat \<Rightarrow> u32) \<Rightarrow> 'a kernel_state_scheme \<Rightarrow> (flow \<times> 'a kernel_state_scheme) option" where
  "divideException junk words s =
     do { (_, s) \<leftarrow> printf junk (arr_of (bytes_of ''divide exception'' @ newline)) words s; halt EXCEPTION_STATUS s }"

definition debugException :: "carray \<Rightarrow> (nat \<Rightarrow> u32) \<Rightarrow> 'a kernel_state_scheme \<Rightarrow> (flow \<times> 'a kernel_state_scheme) option" where
  "debugException junk words s =
     do { (_, s) \<leftarrow> printf junk (arr_of (bytes_of ''debug exception'' @ newline)) words s; halt EXCEPTION_STATUS s }"

definition NMIException :: "carray \<Rightarrow> (nat \<Rightarrow> u32) \<Rightarrow> 'a kernel_state_scheme \<Rightarrow> (flow \<times> 'a kernel_state_scheme) option" where
  "NMIException junk words s =
     do { (_, s) \<leftarrow> printf junk (arr_of (bytes_of ''non maskable interrupt exception'' @ newline)) words s; halt EXCEPTION_STATUS s }"

definition breakpointException :: "carray \<Rightarrow> (nat \<Rightarrow> u32) \<Rightarrow> 'a kernel_state_scheme \<Rightarrow> (flow \<times> 'a kernel_state_scheme) option" where
  "breakpointException junk words s =
     do { (_, s) \<leftarrow> printf junk (arr_of (bytes_of ''breakpoint exception'' @ newline)) words s; halt EXCEPTION_STATUS s }"

definition overflowException :: "carray \<Rightarrow> (nat \<Rightarrow> u32) \<Rightarrow> 'a kernel_state_scheme \<Rightarrow> (flow \<times> 'a kernel_state_scheme) option" where
  "overflowException junk words s =
     do { (_, s) \<leftarrow> printf junk (arr_of (bytes_of ''overflow exception'' @ newline)) words s; halt EXCEPTION_STATUS s }"

definition boundRangeExceededException :: "carray \<Rightarrow> (nat \<Rightarrow> u32) \<Rightarrow> 'a kernel_state_scheme \<Rightarrow> (flow \<times> 'a kernel_state_scheme) option" where
  "boundRangeExceededException junk words s =
     do { (_, s) \<leftarrow> printf junk (arr_of (bytes_of ''bound range exceeded exception'' @ newline)) words s; halt EXCEPTION_STATUS s }"

definition invalidOpcodeException :: "carray \<Rightarrow> (nat \<Rightarrow> u32) \<Rightarrow> 'a kernel_state_scheme \<Rightarrow> (flow \<times> 'a kernel_state_scheme) option" where
  "invalidOpcodeException junk words s =
     do { (_, s) \<leftarrow> printf junk (arr_of (bytes_of ''invalid opcode exception'' @ newline)) words s; halt EXCEPTION_STATUS s }"

definition deviceNotAvailableException :: "carray \<Rightarrow> (nat \<Rightarrow> u32) \<Rightarrow> 'a kernel_state_scheme \<Rightarrow> (flow \<times> 'a kernel_state_scheme) option" where
  "deviceNotAvailableException junk words s =
     do { (_, s) \<leftarrow> printf junk (arr_of (bytes_of ''device not available exception'' @ newline)) words s; halt EXCEPTION_STATUS s }"

definition doubleFaultException :: "carray \<Rightarrow> (nat \<Rightarrow> u32) \<Rightarrow> 'a kernel_state_scheme \<Rightarrow> (flow \<times> 'a kernel_state_scheme) option" where
  "doubleFaultException junk words s =
     do { (_, s) \<leftarrow> printf junk (arr_of (bytes_of ''double fault exception'' @ newline)) words s; halt EXCEPTION_STATUS s }"

definition invalidTSSException :: "carray \<Rightarrow> (nat \<Rightarrow> u32) \<Rightarrow> 'a kernel_state_scheme \<Rightarrow> (flow \<times> 'a kernel_state_scheme) option" where
  "invalidTSSException junk words s =
     do { (_, s) \<leftarrow> printf junk (arr_of (bytes_of ''invalid TSS exception'' @ newline)) words s; halt EXCEPTION_STATUS s }"

definition segmentNotPresentException :: "carray \<Rightarrow> (nat \<Rightarrow> u32) \<Rightarrow> 'a kernel_state_scheme \<Rightarrow> (flow \<times> 'a kernel_state_scheme) option" where
  "segmentNotPresentException junk words s =
     do { (_, s) \<leftarrow> printf junk (arr_of (bytes_of ''segment not present exception'' @ newline)) words s; halt EXCEPTION_STATUS s }"

definition stackSegFaultException :: "carray \<Rightarrow> (nat \<Rightarrow> u32) \<Rightarrow> 'a kernel_state_scheme \<Rightarrow> (flow \<times> 'a kernel_state_scheme) option" where
  "stackSegFaultException junk words s =
     do { (_, s) \<leftarrow> printf junk (arr_of (bytes_of ''stack segmentation fault exception'' @ newline)) words s; halt EXCEPTION_STATUS s }"

definition generalProtectionFaultException :: "carray \<Rightarrow> (nat \<Rightarrow> u32) \<Rightarrow> 'a kernel_state_scheme \<Rightarrow> (flow \<times> 'a kernel_state_scheme) option" where
  "generalProtectionFaultException junk words s =
     do { (_, s) \<leftarrow> printf junk (arr_of (bytes_of ''general protection fault exception'' @ newline)) words s; halt EXCEPTION_STATUS s }"

definition pageFaultException :: "carray \<Rightarrow> (nat \<Rightarrow> u32) \<Rightarrow> 'a kernel_state_scheme \<Rightarrow> (flow \<times> 'a kernel_state_scheme) option" where
  "pageFaultException junk words s =
     do { (_, s) \<leftarrow> printf junk (arr_of (bytes_of ''page fault exception'' @ newline)) words s; halt EXCEPTION_STATUS s }"

definition x87floatingPointException :: "carray \<Rightarrow> (nat \<Rightarrow> u32) \<Rightarrow> 'a kernel_state_scheme \<Rightarrow> (flow \<times> 'a kernel_state_scheme) option" where
  "x87floatingPointException junk words s =
     do { (_, s) \<leftarrow> printf junk (arr_of (bytes_of ''x87 floating point exception'' @ newline)) words s; halt EXCEPTION_STATUS s }"

definition alignmentCheckException :: "carray \<Rightarrow> (nat \<Rightarrow> u32) \<Rightarrow> 'a kernel_state_scheme \<Rightarrow> (flow \<times> 'a kernel_state_scheme) option" where
  "alignmentCheckException junk words s =
     do { (_, s) \<leftarrow> printf junk (arr_of (bytes_of ''alignment check exception'' @ newline)) words s; halt EXCEPTION_STATUS s }"

definition machineCheckException :: "carray \<Rightarrow> (nat \<Rightarrow> u32) \<Rightarrow> 'a kernel_state_scheme \<Rightarrow> (flow \<times> 'a kernel_state_scheme) option" where
  "machineCheckException junk words s =
     do { (_, s) \<leftarrow> printf junk (arr_of (bytes_of ''machine check exception'' @ newline)) words s; halt EXCEPTION_STATUS s }"

definition SIMDFPException :: "carray \<Rightarrow> (nat \<Rightarrow> u32) \<Rightarrow> 'a kernel_state_scheme \<Rightarrow> (flow \<times> 'a kernel_state_scheme) option" where
  "SIMDFPException junk words s =
     do { (_, s) \<leftarrow> printf junk (arr_of (bytes_of ''simd floating point exception'' @ newline)) words s; halt EXCEPTION_STATUS s }"

definition virtualizationException :: "carray \<Rightarrow> (nat \<Rightarrow> u32) \<Rightarrow> 'a kernel_state_scheme \<Rightarrow> (flow \<times> 'a kernel_state_scheme) option" where
  "virtualizationException junk words s =
     do { (_, s) \<leftarrow> printf junk (arr_of (bytes_of ''virtualization exception'' @ newline)) words s; halt EXCEPTION_STATUS s }"

definition controlProtectionException :: "carray \<Rightarrow> (nat \<Rightarrow> u32) \<Rightarrow> 'a kernel_state_scheme \<Rightarrow> (flow \<times> 'a kernel_state_scheme) option" where
  "controlProtectionException junk words s =
     do { (_, s) \<leftarrow> printf junk (arr_of (bytes_of ''control protection exception'' @ newline)) words s; halt EXCEPTION_STATUS s }"

definition hypervisorInjectionException :: "carray \<Rightarrow> (nat \<Rightarrow> u32) \<Rightarrow> 'a kernel_state_scheme \<Rightarrow> (flow \<times> 'a kernel_state_scheme) option" where
  "hypervisorInjectionException junk words s =
     do { (_, s) \<leftarrow> printf junk (arr_of (bytes_of ''hypervisor injection exception'' @ newline)) words s; halt EXCEPTION_STATUS s }"

definition VMMCommsException :: "carray \<Rightarrow> (nat \<Rightarrow> u32) \<Rightarrow> 'a kernel_state_scheme \<Rightarrow> (flow \<times> 'a kernel_state_scheme) option" where
  "VMMCommsException junk words s =
     do { (_, s) \<leftarrow> printf junk (arr_of (bytes_of ''VMM communications exception'' @ newline)) words s; halt EXCEPTION_STATUS s }"

definition securityException :: "carray \<Rightarrow> (nat \<Rightarrow> u32) \<Rightarrow> 'a kernel_state_scheme \<Rightarrow> (flow \<times> 'a kernel_state_scheme) option" where
  "securityException junk words s =
     do { (_, s) \<leftarrow> printf junk (arr_of (bytes_of ''security exception'' @ newline)) words s; halt EXCEPTION_STATUS s }"

definition sysCall :: "carray \<Rightarrow> (nat \<Rightarrow> u32) \<Rightarrow> 'a kernel_state_scheme \<Rightarrow> (flow \<times> 'a kernel_state_scheme) option" where
  "sysCall junk words s =
     do { (_, s) \<leftarrow> printf junk (arr_of (bytes_of ''handling system call'')) words s; halt EXCEPTION_STATUS s }"

section \<open>What a handler does\<close>

type_synonym 'a excp_handler = "carray \<Rightarrow> (nat \<Rightarrow> u32) \<Rightarrow> 'a kernel_state_scheme \<Rightarrow> (flow \<times> 'a kernel_state_scheme) option"

text \<open>The handlers of the file, with the text each shows.\<close>

definition exception_texts :: "('a excp_handler \<times> byte list) list" where
  "exception_texts =
    [(divideException, bytes_of ''divide exception'' @ newline),
     (debugException, bytes_of ''debug exception'' @ newline),
     (NMIException, bytes_of ''non maskable interrupt exception'' @ newline),
     (breakpointException, bytes_of ''breakpoint exception'' @ newline),
     (overflowException, bytes_of ''overflow exception'' @ newline),
     (boundRangeExceededException, bytes_of ''bound range exceeded exception'' @ newline),
     (invalidOpcodeException, bytes_of ''invalid opcode exception'' @ newline),
     (deviceNotAvailableException, bytes_of ''device not available exception'' @ newline),
     (doubleFaultException, bytes_of ''double fault exception'' @ newline),
     (invalidTSSException, bytes_of ''invalid TSS exception'' @ newline),
     (segmentNotPresentException, bytes_of ''segment not present exception'' @ newline),
     (stackSegFaultException, bytes_of ''stack segmentation fault exception'' @ newline),
     (generalProtectionFaultException, bytes_of ''general protection fault exception'' @ newline),
     (pageFaultException, bytes_of ''page fault exception'' @ newline),
     (x87floatingPointException, bytes_of ''x87 floating point exception'' @ newline),
     (alignmentCheckException, bytes_of ''alignment check exception'' @ newline),
     (machineCheckException, bytes_of ''machine check exception'' @ newline),
     (SIMDFPException, bytes_of ''simd floating point exception'' @ newline),
     (virtualizationException, bytes_of ''virtualization exception'' @ newline),
     (controlProtectionException, bytes_of ''control protection exception'' @ newline),
     (hypervisorInjectionException, bytes_of ''hypervisor injection exception'' @ newline),
     (VMMCommsException, bytes_of ''VMM communications exception'' @ newline),
     (securityException, bytes_of ''security exception'' @ newline),
     (sysCall, bytes_of ''handling system call'')]"

lemmas exception_defs = divideException_def debugException_def NMIException_def breakpointException_def
  overflowException_def boundRangeExceededException_def invalidOpcodeException_def
  deviceNotAvailableException_def doubleFaultException_def invalidTSSException_def
  segmentNotPresentException_def stackSegFaultException_def generalProtectionFaultException_def
  pageFaultException_def x87floatingPointException_def alignmentCheckException_def
  machineCheckException_def SIMDFPException_def virtualizationException_def
  controlProtectionException_def hypervisorInjectionException_def VMMCommsException_def
  securityException_def sysCall_def

text \<open>
  All of them are one function of their text, and no text holds a conversion or a NUL.
\<close>

definition excp_exit :: "byte list \<Rightarrow> 'a kernel_state_scheme \<Rightarrow> (flow \<times> 'a kernel_state_scheme) option" where
  "excp_exit msg s = halt EXCEPTION_STATUS (fold putc msg s)"

lemma exception_texts_plain:
  assumes "(h, msg) \<in> set exception_texts"
  shows "0x25 \<notin> set msg" "NUL \<notin> set msg"
  using assms by (auto simp: exception_texts_def bytes_of_def)

lemma exception_texts_exit:
  assumes "(h, msg) \<in> set exception_texts"
  shows "h junk words s = excp_exit msg s"
proof -
  have p: "printf junk (arr_of msg) words s = Some (int (length msg), fold putc msg s)"
    using exception_texts_plain [OF assms] by (rule printf_plain)
  have "h junk words s = do { (_, s) \<leftarrow> printf junk (arr_of msg) words s; halt EXCEPTION_STATUS s }"
    using assms unfolding exception_texts_def by (auto simp: exception_defs)
  then show ?thesis by (simp add: p excp_exit_def)
qed

section \<open>An exception ends the program\<close>

text \<open>
  What a handler that shows \<open>msg\<close> leaves when a process that is not its terminal's first takes an
  exception: the text follows what was on the terminal's screen, the pid is free, the parent is
  the terminal's active process again, on its own frame and kernel stack, with interrupts on.
\<close>

definition excp_left :: "byte list \<Rightarrow> 'a kernel_state_scheme \<Rightarrow> 'a kernel_state_scheme \<Rightarrow> bool" where
  "excp_left msg s s' \<longleftrightarrow> (let k = sched_term s; p = running_pid s; pcb = pcbs s p; b = video_base s in
     screen_of k b s' = screen_puts msg (screen_of k b s) \<and>
     pid_arr s' = (pid_arr s)(p - 1 := 0) \<and> running_pid s' = parent_pid pcb \<and>
     paging_ok s' \<and> user_frame s' = nat (parent_pid pcb) + 1 \<and> video_frame s' = video_frame s \<and>
     esp0 s' = prev_tss_ESP0 pcb \<and> ss0 s' = prev_tss_SS pcb \<and> iflag s' \<and>
     (\<forall>q. q \<noteq> p \<longrightarrow> pcbs s' q = pcbs s q))"

lemma base_pid_show [simp]: "base_pid (terminals (show_screen k b c out s) j) = base_pid (terminals s j)"
  "active_pid (terminals (show_screen k b c out s) j) = active_pid (terminals s j)"
  by simp_all

lemma excp_exit_leaves:
  assumes "paging_ok s" "screen_ok (screen_of (sched_term s) (video_base s) s)" "pcb = pcbs s (running_pid s)"
    and "pid pcb \<noteq> base_pid (terminals s (sched_term s))" "1 \<le> parent_pid pcb" "parent_pid pcb \<le> 6"
  shows "\<exists>s'. excp_exit msg s = Some (LongRet (ESP_prev pcb) (EBP_prev pcb) 256, s') \<and> excp_left msg s s'"
proof -
  let ?k = "sched_term s" and ?b = "video_base s"
  obtain out where "fold putc msg (show_screen ?k ?b (screen_of ?k ?b s) [] s) =
      show_screen ?k ?b (screen_puts msg (screen_of ?k ?b s)) out s"
    and ok: "screen_ok (screen_puts msg (screen_of ?k ?b s))"
    using putc_list_show [OF assms(1,2), of msg "[]"] by auto
  moreover define s1 where "s1 = show_screen ?k ?b (screen_puts msg (screen_of ?k ?b s)) out s"
  ultimately have f: "fold putc msg s = s1" by (simp add: show_screen_of)
  have more: "console_state.more s1 = console_state.more s" by (simp add: s1_def)
  have run: "running_pid s1 = running_pid s" "pcbs s1 = pcbs s" "pid_arr s1 = pid_arr s"
    using kernel_fields [OF more] by (simp_all add: running_pid_def s1_def)
  have "paging_ok s1" "pcb = pcbs s1 (running_pid s1)" "pid pcb \<noteq> base_pid (terminals s1 (sched_term s1))"
    using assms(1,3,4) run by (simp_all add: s1_def)
  from halt_returns [OF this assms(5,6) refl, of EXCEPTION_STATUS]
  obtain s' where s': "halt EXCEPTION_STATUS s1 = Some (LongRet (ESP_prev pcb) (EBP_prev pcb) 256, s')"
    "paging_ok s'" "user_frame s' = nat (parent_pid pcb) + 1" "video_frame s' = video_frame s1"
    "esp0 s' = prev_tss_ESP0 pcb" "ss0 s' = prev_tss_SS pcb" "iflag s'" "sched_term s' = sched_term s1"
    "terminals s' = (terminals s1)(sched_term s1 := (terminals s1 (sched_term s1))\<lparr>active_pid := parent_pid pcb\<rparr>)"
    "pid_arr s' = (pid_arr s1)(running_pid s1 - 1 := 0)" "mem s' = mem s1" "\<forall>q. q \<noteq> running_pid s1 \<longrightarrow> pcbs s' q = pcbs s1 q"
    by auto
  have "screen_of ?k ?b s' = screen_of ?k ?b s1" using s' by (simp add: screen_of_def s1_def)
  also have "\<dots> = screen_puts msg (screen_of ?k ?b s)"
    using ok by (simp add: s1_def screen_of_show screen_ok_def)
  finally have "excp_left msg s s'"
    using s' run assms(3) by (simp add: excp_left_def Let_def running_pid_def s1_def)
  then show ?thesis using s'(1) f by (simp add: excp_exit_def)
qed

text \<open>So does every one of the handlers.\<close>

lemma handler_ends_program:
  assumes "(h, msg) \<in> set exception_texts" "paging_ok s" "screen_ok (screen_of (sched_term s) (video_base s) s)"
    and "pcb = pcbs s (running_pid s)" "pid pcb \<noteq> base_pid (terminals s (sched_term s))"
    and "1 \<le> parent_pid pcb" "parent_pid pcb \<le> 6"
  shows "\<exists>s'. h junk words s = Some (LongRet (ESP_prev pcb) (EBP_prev pcb) 256, s') \<and> excp_left msg s s'"
  using excp_exit_leaves [OF assms(2-7)] exception_texts_exit [OF assms(1)] by metis

text \<open>The example with a program running below the shell.\<close>

definition demo_child :: kernel_state where
  "demo_child = upd_term 0 (\<lambda>t. t\<lparr>active_pid := 2\<rparr>)
     (upd_pcb 2 (\<lambda>p. p\<lparr>pid := 2, parent_pid := 1, ESP_prev := 0x7FDE00\<rparr>) demo_base)"

lemma demo_child_simps:
  "paging_ok demo_child" "running_pid demo_child = 2" "sched_term demo_child = 0"
  "pid (pcbs demo_child 2) = 2" "parent_pid (pcbs demo_child 2) = 1" "ESP_prev (pcbs demo_child 2) = 0x7FDE00"
  "base_pid (terminals demo_child 0) = 1" "screen_x (terminals demo_child 0) = 0" "screen_y (terminals demo_child 0) = 0"
  using demo_busy_simps(1)
  by (simp_all add: demo_child_def demo_base_def fs_ok_def running_pid_def demo_state_simps demo_terminal_def
      demo_busy_def zero_terminal_def)

end
