(* ===== verification/Idt.thy ===== *)
theory Idt
  imports Exceptions Syscalls
begin

text \<open>
  The interrupt descriptor table (idt_init.c, idtfunctions_asm.S, the gate layout of x86_desc.h): how
  init_idt fills the 256 gates, the assembly entry points that save the registers and call a C
  handler, and how an interrupt or \<open>int\<close> instruction gets from a vector to its handler.

  The addresses of the entry points are fixed by the linker; they are the argument \<open>link\<close>.
\<close>

section \<open>Gates\<close>

type_synonym bit1 = "1 word"

record idt_desc_t =
  offset_15_00 :: u16
  seg_selector :: u16
  reserved4 :: byte
  reserved3 :: bit1
  reserved2 :: bit1
  reserved1 :: bit1
  gate_size :: bit1
  reserved0 :: bit1
  dpl :: "2 word"
  present :: bit1
  offset_31_16 :: u16

abbreviation KERNEL_CS :: u16 where "KERNEL_CS \<equiv> 0x10"
abbreviation NUM_VEC :: nat where "NUM_VEC \<equiv> 256"

definition zero_gate :: idt_desc_t where
  "zero_gate = \<lparr>offset_15_00 = 0, seg_selector = 0, reserved4 = 0, reserved3 = 0, reserved2 = 0, reserved1 = 0,
     gate_size = 0, reserved0 = 0, dpl = 0, present = 0, offset_31_16 = 0\<rparr>"

text \<open>The assembly entry points.\<close>

datatype asm_entry =
    divideExceptionASM | debugExceptionASM | NMIExceptionASM
  | breakpointExceptionASM | overflowExceptionASM | boundRangeExceededExceptionASM
  | invalidOpcodeExceptionASM | deviceNotAvailableExceptionASM | doubleFaultExceptionASM
  | invalidTSSExceptionASM | segmentNotPresentExceptionASM | stackSegFaultExceptionASM
  | generalProtectionFaultExceptionASM | pageFaultExceptionASM | x87floatingPointExceptionASM
  | alignmentCheckExceptionASM | machineCheckExceptionASM | SIMDFPExceptionASM
  | virtualizationExceptionASM | controlProtectionExceptionASM | hypervisorInjectionExceptionASM
  | VMMCommsExceptionASM | securityExceptionASM
  | rtc_handlerASM | keyboard_handlerASM | pit_handlerASM | syscall_asm_entry

definition asm_entries :: "asm_entry list" where
  "asm_entries =
    [divideExceptionASM, debugExceptionASM, NMIExceptionASM, breakpointExceptionASM,
     overflowExceptionASM, boundRangeExceededExceptionASM, invalidOpcodeExceptionASM,
     deviceNotAvailableExceptionASM, doubleFaultExceptionASM, invalidTSSExceptionASM,
     segmentNotPresentExceptionASM, stackSegFaultExceptionASM, generalProtectionFaultExceptionASM,
     pageFaultExceptionASM, x87floatingPointExceptionASM, alignmentCheckExceptionASM,
     machineCheckExceptionASM, SIMDFPExceptionASM, virtualizationExceptionASM,
     controlProtectionExceptionASM, hypervisorInjectionExceptionASM, VMMCommsExceptionASM,
     securityExceptionASM, rtc_handlerASM, keyboard_handlerASM, pit_handlerASM, syscall_asm_entry]"

section \<open>init\_idt\<close>

definition SET_IDT_ENTRY :: "u32 \<Rightarrow> idt_desc_t \<Rightarrow> idt_desc_t" where
  "SET_IDT_ENTRY handler g =
     g\<lparr>offset_31_16 := ucast (drop_bit 16 (handler AND 0xFFFF0000)), offset_15_00 := ucast (handler AND 0xFFFF)\<rparr>"

text \<open>The body of the loop.\<close>

definition init_gate :: "nat \<Rightarrow> idt_desc_t \<Rightarrow> idt_desc_t" where
  "init_gate i g =
     (let g = g\<lparr>seg_selector := KERNEL_CS, present := 0, gate_size := 1, reserved1 := 1, reserved2 := 1,
                reserved3 := 1, dpl := 0\<rparr>;
          g = (if i \<le> 0x1F then g\<lparr>present := 1, reserved3 := 0\<rparr> else g);
          g = (if i = 0x80 then g\<lparr>dpl := 3, present := 1\<rparr> else g)
      in if i \<le> 0x2F \<and> 0x20 \<le> i then g\<lparr>reserved3 := 0, present := 1\<rparr> else g)"

definition idt_entries :: "(nat \<times> asm_entry) list" where
  "idt_entries =
    [(0, divideExceptionASM), (1, debugExceptionASM), (2, NMIExceptionASM),
     (3, breakpointExceptionASM), (4, overflowExceptionASM), (5, boundRangeExceededExceptionASM),
     (6, invalidOpcodeExceptionASM), (7, deviceNotAvailableExceptionASM),
     (8, doubleFaultExceptionASM), (10, invalidTSSExceptionASM),
     (11, segmentNotPresentExceptionASM), (12, stackSegFaultExceptionASM),
     (13, generalProtectionFaultExceptionASM), (14, pageFaultExceptionASM),
     (16, x87floatingPointExceptionASM), (17, alignmentCheckExceptionASM),
     (18, machineCheckExceptionASM), (19, SIMDFPExceptionASM), (0x80, syscall_asm_entry),
     (0x21, keyboard_handlerASM), (0x28, rtc_handlerASM), (0x20, pit_handlerASM)]"

definition init_idt :: "(asm_entry \<Rightarrow> u32) \<Rightarrow> (nat \<Rightarrow> idt_desc_t) \<Rightarrow> nat \<Rightarrow> idt_desc_t" where
  "init_idt link idt =
     (let idt = fold (\<lambda>i idt. idt(i := init_gate i (idt i))) [0..<NUM_VEC] idt
      in fold (\<lambda>(v, e) idt. idt(v := SET_IDT_ENTRY (link e) (idt v))) idt_entries idt)"

section \<open>Through a gate\<close>

text \<open>The C function an entry point calls; the registers are the ones of the interrupted program.\<close>

record 'a environment =
  device_reads :: device
  waiting_irqs :: "'a interrupts"
  printf_junk :: carray
  stack_words :: "nat \<Rightarrow> u32"
  eax :: u32
  ebx :: u32
  ecx :: u32
  edx :: u32

fun excp_function :: "asm_entry \<Rightarrow> 'a excp_handler option" where
  "excp_function divideExceptionASM = Some divideException"
| "excp_function debugExceptionASM = Some debugException"
| "excp_function NMIExceptionASM = Some NMIException"
| "excp_function breakpointExceptionASM = Some breakpointException"
| "excp_function overflowExceptionASM = Some overflowException"
| "excp_function boundRangeExceededExceptionASM = Some boundRangeExceededException"
| "excp_function invalidOpcodeExceptionASM = Some invalidOpcodeException"
| "excp_function deviceNotAvailableExceptionASM = Some deviceNotAvailableException"
| "excp_function doubleFaultExceptionASM = Some doubleFaultException"
| "excp_function invalidTSSExceptionASM = Some invalidTSSException"
| "excp_function segmentNotPresentExceptionASM = Some segmentNotPresentException"
| "excp_function stackSegFaultExceptionASM = Some stackSegFaultException"
| "excp_function generalProtectionFaultExceptionASM = Some generalProtectionFaultException"
| "excp_function pageFaultExceptionASM = Some pageFaultException"
| "excp_function x87floatingPointExceptionASM = Some x87floatingPointException"
| "excp_function alignmentCheckExceptionASM = Some alignmentCheckException"
| "excp_function machineCheckExceptionASM = Some machineCheckException"
| "excp_function SIMDFPExceptionASM = Some SIMDFPException"
| "excp_function virtualizationExceptionASM = Some virtualizationException"
| "excp_function controlProtectionExceptionASM = Some controlProtectionException"
| "excp_function hypervisorInjectionExceptionASM = Some hypervisorInjectionException"
| "excp_function VMMCommsExceptionASM = Some VMMCommsException"
| "excp_function securityExceptionASM = Some securityException"
| "excp_function _ = None"

text \<open>
  EXCP_LINK saves the registers and the flags, calls the function, restores them and returns from the
  interrupt; syscall\_asm does it for the system calls.
\<close>

definition excp_link :: "('a kernel_state_scheme \<Rightarrow> (flow \<times> 'a kernel_state_scheme) option) \<Rightarrow>
    'a kernel_state_scheme \<Rightarrow> (flow \<times> 'a kernel_state_scheme) option" where
  "excp_link func s = do {
     (f, s') \<leftarrow> func s;
     case f of Ret r \<Rightarrow> Some (Ret r, s'\<lparr>iflag := iflag s\<rparr>) | _ \<Rightarrow> Some (f, s')
   }"

definition run_entry :: "'a environment \<Rightarrow> asm_entry \<Rightarrow> 'a kernel_state_scheme \<Rightarrow> (flow \<times> 'a kernel_state_scheme) option" where
  "run_entry env e s =
     (case e of
        rtc_handlerASM \<Rightarrow> excp_link (\<lambda>s. Some (Ret 0, rtc_handler (device_reads env) s)) s
      | keyboard_handlerASM \<Rightarrow> excp_link (keyboard_handler (device_reads env)) s
      | pit_handlerASM \<Rightarrow> excp_link pit_handler s
      | syscall_asm_entry \<Rightarrow> syscall_asm (waiting_irqs env) (eax env) (ebx env) (ecx env) (edx env) s
      | _ \<Rightarrow> do { h \<leftarrow> excp_function e; excp_link (h (printf_junk env) (stack_words env)) s })"

text \<open>
  The processor: a gate must be present, and an \<open>int\<close> instruction of a user program needs a gate of
  privilege level 3.  An interrupt gate (an even type) switches interrupts off, and the return from the
  interrupt restores the flag.  Without a handler at the gate's offset there is no result.
\<close>

definition gate_type :: "idt_desc_t \<Rightarrow> nat" where
  "gate_type g = 8 * unat (gate_size g) + 4 * unat (reserved1 g) + 2 * unat (reserved2 g) + unat (reserved3 g)"

definition gate_offset :: "idt_desc_t \<Rightarrow> u32" where
  "gate_offset g = push_bit 16 (ucast (offset_31_16 g)) OR ucast (offset_15_00 g)"

definition entry_at :: "(asm_entry \<Rightarrow> u32) \<Rightarrow> u32 \<Rightarrow> asm_entry option" where
  "entry_at link a = find (\<lambda>e. link e = a) asm_entries"

definition user_may_call :: "idt_desc_t \<Rightarrow> bool" where
  "user_may_call g \<longleftrightarrow> present g = 1 \<and> dpl g = 3"

definition interrupt :: "(asm_entry \<Rightarrow> u32) \<Rightarrow> (nat \<Rightarrow> idt_desc_t) \<Rightarrow> 'a environment \<Rightarrow> nat \<Rightarrow>
    'a kernel_state_scheme \<Rightarrow> (flow \<times> 'a kernel_state_scheme) option" where
  "interrupt link idt env v s =
     (if present (idt v) = 0 then None
      else do {
        e \<leftarrow> entry_at link (gate_offset (idt v));
        (f, s') \<leftarrow> run_entry env e (if even (gate_type (idt v)) then cli s else s);
        case f of Ret r \<Rightarrow> Some (Ret r, s'\<lparr>iflag := iflag s\<rparr>) | _ \<Rightarrow> Some (f, s')
      })"

section \<open>The table after init\_idt\<close>

lemma fold_entries:
  assumes "distinct (map fst es)"
  shows "fold (\<lambda>(v, e) t. t(v := f e (t v))) es t v = (case map_of es v of Some e \<Rightarrow> f e (t v) | None \<Rightarrow> t v)"
  using assms
proof (induction es arbitrary: t)
  case (Cons x es)
  obtain w e where x: "x = (w, e)" by (cases x)
  with Cons.prems have "map_of es w = None" by (auto simp: map_of_eq_None_iff)
  with Cons x show ?case by (auto split: option.splits)
qed simp

lemma idt_entries_distinct: "distinct (map fst idt_entries)"
  by (simp add: idt_entries_def)

lemma init_idt_gate:
  assumes "v < 256"
  shows "init_idt link idt0 v =
    (case map_of idt_entries v of Some e \<Rightarrow> SET_IDT_ENTRY (link e) (init_gate v (idt0 v)) | None \<Rightarrow> init_gate v (idt0 v))"
proof -
  have "fold (\<lambda>i idt. idt(i := init_gate i (idt i))) [0..<n] idt0 v = (if v < n then init_gate v (idt0 v) else idt0 v)" for n
    by (induction n) (auto simp: less_Suc_eq)
  then show ?thesis
    unfolding init_idt_def Let_def
    using fold_entries [OF idt_entries_distinct, where f = "\<lambda>e. SET_IDT_ENTRY (link e)"] assms
    by (simp split: option.split)
qed

lemma SET_IDT_ENTRY_offset: "gate_offset (SET_IDT_ENTRY a g) = a"
proof -
  have m: "0xFFFF0000 = (push_bit 16 (mask 16) :: u32)" "0xFFFF = (mask 16 :: u32)" by (simp_all add: mask_eq_exp_minus_1)
  show ?thesis
    unfolding gate_offset_def SET_IDT_ENTRY_def m by (rule bit_word_eqI) (auto simp: bit_simps)
qed

lemma SET_IDT_ENTRY_simps [simp]:
  "present (SET_IDT_ENTRY a g) = present g" "dpl (SET_IDT_ENTRY a g) = dpl g" "gate_type (SET_IDT_ENTRY a g) = gate_type g"
  "seg_selector (SET_IDT_ENTRY a g) = seg_selector g"
  by (simp_all add: SET_IDT_ENTRY_def gate_type_def)

lemma init_gate_simps:
  "present (init_gate v g) = (if v \<le> 0x2F \<or> v = 0x80 then 1 else 0)" "dpl (init_gate v g) = (if v = 0x80 then 3 else 0)"
  "gate_type (init_gate v g) = (if v \<le> 0x2F then 14 else 15)" "seg_selector (init_gate v g) = KERNEL_CS"
  "gate_offset (init_gate v g) = gate_offset g"
  by (simp_all add: init_gate_def Let_def gate_type_def gate_offset_def)

lemma init_idt_simps:
  assumes "v < 256"
  shows "present (init_idt link idt0 v) = (if v \<le> 0x2F \<or> v = 0x80 then 1 else 0)"
    "dpl (init_idt link idt0 v) = (if v = 0x80 then 3 else 0)"
    "gate_type (init_idt link idt0 v) = (if v \<le> 0x2F then 14 else 15)"
    "seg_selector (init_idt link idt0 v) = KERNEL_CS"
    "gate_offset (init_idt link idt0 v) = (case map_of idt_entries v of Some e \<Rightarrow> link e | None \<Rightarrow> gate_offset (idt0 v))"
  by (simp_all add: init_idt_gate [OF assms] init_gate_simps SET_IDT_ENTRY_offset split: option.split)

lemma asm_entries_all: "e \<in> set asm_entries"
  by (cases e) (simp_all add: asm_entries_def)

lemma entry_at_link:
  assumes "inj link"
  shows "entry_at link (link e) = Some e"
proof -
  have "find (\<lambda>x. link x = link e) xs = Some e" if "e \<in> set xs" for xs
    using that assms by (induction xs) (auto dest: injD)
  then show ?thesis using asm_entries_all by (simp add: entry_at_def)
qed

text \<open>
  C25. A user program can enter the kernel by vector 0x80 only: after init\_idt every other gate is
  missing or has privilege level 0, the first 32 gates and the controllers' 16 are interrupt gates
  and 0x80 is a trap gate, and all of them lead into the kernel's code segment.
\<close>

theorem only_syscall_from_user:
  assumes "v < 256" "idt = init_idt link idt0"
  shows "(user_may_call (idt v) \<longleftrightarrow> v = 0x80) \<and> (present (idt v) = 1 \<longleftrightarrow> v \<le> 0x2F \<or> v = 0x80)
    \<and> gate_type (idt v) = (if v \<le> 0x2F then 0xE else 0xF) \<and> seg_selector (idt v) = KERNEL_CS"
  unfolding assms(2) user_may_call_def using assms(1) by (simp add: init_idt_simps)

theorem only_syscall_from_user_witness:
  "user_may_call (init_idt (\<lambda>_. 0x400100) (\<lambda>_. zero_gate) 0x80) \<and> \<not> user_may_call (init_idt (\<lambda>_. 0x400100) (\<lambda>_. zero_gate) 0x0E)"
  using only_syscall_from_user [of "0x80" _ "\<lambda>_. 0x400100" "\<lambda>_. zero_gate"]
    only_syscall_from_user [of "0x0E" _ "\<lambda>_. 0x400100" "\<lambda>_. zero_gate"] by simp

text \<open>An interrupt through an installed gate runs its entry point.\<close>

lemma interrupt_installed:
  assumes "inj link" "(v, e) \<in> set idt_entries"
  shows "interrupt link (init_idt link idt0) env v s = do {
    (f, s') \<leftarrow> run_entry env e (if v = 0x80 then s else cli s);
    case f of Ret r \<Rightarrow> Some (Ret r, s'\<lparr>iflag := iflag s\<rparr>) | _ \<Rightarrow> Some (f, s') }"
proof -
  have v: "v < 256" "v \<le> 0x2F \<or> v = 0x80" "v = 0x80 \<longleftrightarrow> \<not> v \<le> 0x2F" using assms(2) by (auto simp: idt_entries_def)
  have "map_of idt_entries v = Some e" using assms(2) idt_entries_distinct by simp
  then have "gate_offset (init_idt link idt0 v) = link e" using init_idt_simps(5) [OF v(1)] by simp
  then show ?thesis
    using v by (auto simp: interrupt_def init_idt_simps entry_at_link [OF assms(1)])
qed

text \<open>
  Some gates lead nowhere: the vectors 9, 15 and 20 to 31, and the controllers' lines that no driver
  uses, have gates that are present but whose offset init\_idt never sets; with the table zeroed
  before, such an interrupt jumps to address 0.
\<close>

theorem gates_without_handler:
  assumes "v \<in> {9, 15} \<union> {20..31} \<union> {0x22..0x27} \<union> {0x29..0x2F}" "gate_offset (idt0 v) = 0" "0 \<notin> range link"
    and "idt = init_idt link idt0"
  shows "present (idt v) = 1 \<and> gate_offset (idt v) = 0 \<and> interrupt link idt env v s = None"
proof -
  have v: "v < 256" "v \<le> 0x2F" "v \<notin> fst ` set idt_entries"
    using assms(1) by (auto simp: idt_entries_def)
  then have "map_of idt_entries v = None" by (simp add: map_of_eq_None_iff)
  then have "gate_offset (idt v) = 0" "present (idt v) = 1"
    using v(1,2) assms(2,4) by (simp_all add: init_idt_simps)
  moreover have "entry_at link 0 = None" using assms(3) by (auto simp: entry_at_def find_None_iff)
  ultimately show ?thesis by (simp add: interrupt_def)
qed

text \<open>A linking: the entry points one after the other from 0x400100.\<close>

definition demo_link :: "asm_entry \<Rightarrow> u32" where
  "demo_link e = 0x400100 + word_of_nat (length (takeWhile (\<lambda>x. x \<noteq> e) asm_entries))"

lemma demo_link_unat: "unat (demo_link e) = 0x400100 + length (takeWhile (\<lambda>x. x \<noteq> e) asm_entries)"
proof -
  have "length (takeWhile (\<lambda>x. x \<noteq> e) asm_entries) \<le> length asm_entries" by (rule length_takeWhile_le)
  then have l: "length (takeWhile (\<lambda>x. x \<noteq> e) asm_entries) \<le> 27" by (simp add: asm_entries_def)
  have "demo_link e = word_of_nat (0x400100 + length (takeWhile (\<lambda>x. x \<noteq> e) asm_entries))" by (simp add: demo_link_def)
  then show ?thesis using l by (simp add: unat_of_nat take_bit_nat_eq_self del: of_nat_add)
qed

lemma demo_link_nonzero: "0 \<notin> range demo_link"
proof
  assume "0 \<in> range demo_link"
  then obtain e where "demo_link e = 0" by (metis imageE)
  then show False using demo_link_unat [of e] by simp
qed

lemma demo_link_inj: "inj demo_link"
proof (rule injI)
  fix e f assume "demo_link e = demo_link f"
  then have l: "length (takeWhile (\<lambda>x. x \<noteq> e) asm_entries) = length (takeWhile (\<lambda>x. x \<noteq> f) asm_entries)"
    using demo_link_unat [of e] demo_link_unat [of f] by simp
  have "g \<in> set xs \<Longrightarrow> xs ! length (takeWhile (\<lambda>x. x \<noteq> g) xs) = g" for g and xs :: "asm_entry list"
    by (induction xs) auto
  note nth = this [OF asm_entries_all]
  show "e = f" using nth [of e] nth [of f] unfolding l by simp
qed

theorem gates_without_handler_witness:
  "present (init_idt demo_link (\<lambda>_. zero_gate) 0x27) = 1 \<and> interrupt demo_link (init_idt demo_link (\<lambda>_. zero_gate)) env 0x27 s = None"
proof -
  have "gate_offset zero_gate = 0" by (simp add: gate_offset_def zero_gate_def)
  then show ?thesis using gates_without_handler [OF _ _ demo_link_nonzero refl, of "0x27" "\<lambda>_. zero_gate" env s] by simp
qed

section \<open>A fault in a user program\<close>

lemma excp_entries:
  assumes "(v, e) \<in> set idt_entries" "excp_function e = Some h"
  shows "v \<noteq> 0x80" "run_entry env e s = excp_link (h (printf_junk env) (stack_words env)) s"
  using assms by (auto simp: idt_entries_def run_entry_def)

text \<open>
  C15. A program that faults is ended and the rest goes on: whichever of the installed exceptions it
  takes, the handler's text appears on the screen of the program's terminal, its pid is released, and
  the execute call that started it returns 256 in the parent, with the parent's address space, kernel
  stack and control block in place.
\<close>

theorem fault_ends_program:
  fixes s :: "'a kernel_state_scheme" and h :: "'a excp_handler"
  assumes "inj link" "(v, e) \<in> set idt_entries" "excp_function e = Some h" "(h, msg) \<in> set exception_texts"
    and "paging_ok s" "screen_ok (screen_of (sched_term s) (video_base s) s)" "pcb = pcbs s (running_pid s)"
    and "pid pcb \<noteq> base_pid (terminals s (sched_term s))" "1 \<le> parent_pid pcb" "parent_pid pcb \<le> 6"
  shows "\<exists>s'. interrupt link (init_idt link idt0) env v s = Some (LongRet (ESP_prev pcb) (EBP_prev pcb) 256, s')
    \<and> excp_left msg s s'"
proof -
  have c: "running_pid (cli s) = running_pid s" "screen_of k b (cli s) = screen_of k b s" "video_base (cli s) = video_base s"
    for k b by (simp_all add: running_pid_def screen_of_def video_base_def)
  have "excp_left msg (cli s) s' = excp_left msg s s'" for s' unfolding excp_left_def c by simp
  moreover have "\<exists>s'. h (printf_junk env) (stack_words env) (cli s) = Some (LongRet (ESP_prev pcb) (EBP_prev pcb) 256, s')
      \<and> excp_left msg (cli s) s'"
    using assms(5-10) by (intro handler_ends_program [OF assms(4)]) (simp_all add: c)
  ultimately show ?thesis
    using interrupt_installed [OF assms(1,2), of idt0 env s] excp_entries [OF assms(2,3)] by (auto simp: excp_link_def)
qed

definition demo_env :: "unit environment" where
  "demo_env = \<lparr>device_reads = (\<lambda>_ _. 0), waiting_irqs = (\<lambda>_ s. s), printf_junk = (\<lambda>_. 0xAA), stack_words = (\<lambda>_. 0),
     eax = 0, ebx = 0, ecx = 0, edx = 0\<rparr>"

theorem fault_ends_program_witness:
  "\<exists>s'. interrupt demo_link (init_idt demo_link (\<lambda>_. zero_gate)) demo_env 14 demo_child =
      Some (LongRet 0x7FDE00 (EBP_prev (pcbs demo_child 2)) 256, s')
    \<and> running_pid s' = 1 \<and> screen_of 0 (video_base demo_child) s' =
      screen_puts (bytes_of ''page fault exception'' @ newline) (screen_of 0 (video_base demo_child) demo_child)"
proof -
  have "(14, pageFaultExceptionASM) \<in> set idt_entries" by (simp add: idt_entries_def)
  moreover have "(pageFaultException, bytes_of ''page fault exception'' @ newline) \<in> set exception_texts"
    by (simp add: exception_texts_def)
  moreover have "screen_ok (screen_of 0 (video_base demo_child) demo_child)"
    by (simp add: screen_ok_def screen_of_def demo_child_simps)
  ultimately have "\<exists>s'. interrupt demo_link (init_idt demo_link (\<lambda>_. zero_gate)) demo_env 14 demo_child =
      Some (LongRet 0x7FDE00 (EBP_prev (pcbs demo_child 2)) 256, s')
    \<and> excp_left (bytes_of ''page fault exception'' @ newline) demo_child s'"
    using fault_ends_program [OF demo_link_inj, of 14 pageFaultExceptionASM pageFaultException _ demo_child "pcbs demo_child 2" _ demo_env]
    by (simp add: demo_child_simps)
  then show ?thesis by (auto simp: demo_child_simps excp_left_def Let_def)
qed

end
