(* ===== verification/Multitask.thy ===== *)
theory Multitask
  imports Frames Boot Idt
begin

text \<open>
  The processes of the three terminals as a state machine.  Every terminal has a stack of processes,
  the running program on top of the ones that wait for it down to the terminal's shell.  The abstract
  machine pushes, pops and rotates these stacks; the lemmas show that execute, halt, the timer
  interrupt, the keyboard, the clock, the other system calls and the programs' own instructions
  implement it.
\<close>

section \<open>The stacks of processes\<close>

type_synonym forest = "nat \<Rightarrow> int list"

definition live :: "forest \<Rightarrow> int set" where
  "live S = set (S 0) \<union> set (S 1) \<union> set (S 2)"

text \<open>The shells have the pids 1 to 3.\<close>

definition well_formed :: "forest \<Rightarrow> bool" where
  "well_formed S \<longleftrightarrow> (\<forall>k < 3. S k \<noteq> [] \<and> last (S k) \<le> 3) \<and> distinct (S 0 @ S 1 @ S 2) \<and> live S \<subseteq> {1..6}"

inductive forest_step :: "nat \<times> forest \<Rightarrow> nat \<times> forest \<Rightarrow> bool" where
  push: "1 \<le> p \<Longrightarrow> p \<le> 6 \<Longrightarrow> p \<notin> live S \<Longrightarrow> {1..<p} \<subseteq> live S \<Longrightarrow> forest_step (k, S) (k, S(k := p # S k))"
| pop: "tl (S k) \<noteq> [] \<Longrightarrow> forest_step (k, S) (k, S(k := tl (S k)))"
| rotate: "forest_step (k, S) ((k + 1) mod 3, S)"
| stay: "forest_step (k, S) (k, S)"

lemma three: "k < 3 \<Longrightarrow> k = 0 \<or> k = 1 \<or> k = (2 :: nat)"
  by auto

lemma live_iff: "p \<in> live S \<longleftrightarrow> (\<exists>k < 3. p \<in> set (S k))"
  by (auto simp: live_def numeral_eq_Suc less_Suc_eq)

text \<open>A stack is distinct, and two stacks have no process in common.\<close>

lemma well_formed_stacks:
  assumes "well_formed S" "k < 3"
  shows "S k \<noteq> []" "last (S k) \<le> 3" "distinct (S k)" "set (S k) \<subseteq> live S" "hd (S k) \<in> live S" "last (S k) \<in> live S"
    "j < 3 \<Longrightarrow> j \<noteq> k \<Longrightarrow> set (S j) \<inter> set (S k) = {}"
proof -
  show s: "S k \<noteq> []" "last (S k) \<le> 3" "distinct (S k)" "set (S k) \<subseteq> live S"
    using assms three [OF assms(2)] by (auto simp: well_formed_def live_def)
  show "hd (S k) \<in> live S" "last (S k) \<in> live S" using s by (auto dest: hd_in_set last_in_set)
  show "set (S j) \<inter> set (S k) = {}" if "j < 3" "j \<noteq> k"
    using assms three [OF assms(2)] three [OF that(1)] that(2) by (auto simp: well_formed_def)
qed

lemma live_bounds: "well_formed S \<Longrightarrow> p \<in> live S \<Longrightarrow> 1 \<le> p \<and> p \<le> 6"
  by (auto simp: well_formed_def)

text \<open>The three shells are exactly the pids 1 to 3.\<close>

lemma shells:
  assumes "well_formed S"
  shows "{last (S 0), last (S 1), last (S 2)} = {1, 2, 3}"
proof -
  have r: "1 \<le> last (S k) \<and> last (S k) \<le> 3" if "k < 3" for k
    using well_formed_stacks [OF assms that] live_bounds [OF assms] by blast
  have d: "last (S j) \<noteq> last (S k)" if "j < 3" "k < 3" "j \<noteq> k" for j k
  proof -
    have "last (S j) \<in> set (S j)" "last (S k) \<in> set (S k)"
      using well_formed_stacks(1) [OF assms] that by (simp_all add: last_in_set)
    then show ?thesis using well_formed_stacks(7) [OF assms that(2,1)] that(3) by auto
  qed
  have "last (S 0) \<in> {1, 2, 3}" "last (S 1) \<in> {1, 2, 3}" "last (S 2) \<in> {1, 2, 3}"
    using r [of 0] r [of 1] r [of 2] by auto
  then show ?thesis using d [of 0 1] d [of 0 2] d [of 1 2] by auto
qed

lemma well_formed_push:
  assumes "well_formed S" "k < 3" "1 \<le> p" "p \<le> 6" "p \<notin> live S"
  shows "well_formed (S(k := p # S k))"
  using assms three [OF assms(2)] by (auto simp: well_formed_def live_def)

lemma well_formed_pop:
  assumes "well_formed S" "k < 3" "tl (S k) \<noteq> []"
  shows "well_formed (S(k := tl (S k)))"
proof -
  obtain p q ps where "S k = p # q # ps" using assms(3) by (cases "S k"; cases "tl (S k)") auto
  then show ?thesis using assms three [OF assms(2)] by (auto simp: well_formed_def live_def)
qed

section \<open>What the kernel has of the stacks\<close>

definition kstack :: "int \<Rightarrow> u32" where
  "kstack p = word_of_int (get_active_kernel_stack_addr p)"

fun chained :: "(int \<Rightarrow> pcb_t) \<Rightarrow> int list \<Rightarrow> bool" where
  "chained b [] = True"
| "chained b [p] = (parent_pid (b p) = p)"
| "chained b (p # q # ps) = (parent_pid (b p) = q \<and> prev_tss_ESP0 (b p) = kstack q \<and> chained b (q # ps))"

text \<open>
  The control blocks, the pid table and the terminals describe the stacks; the running process has
  the user window and takes interrupts on its own kernel stack, and the processes set aside on the
  other terminals have theirs recorded.
\<close>

definition represents :: "forest \<Rightarrow> 'a kernel_state_scheme \<Rightarrow> bool" where
  "represents S s \<longleftrightarrow>
     (\<forall>k < 3. status (terminals s k) \<noteq> 0 \<and> active_pid (terminals s k) = hd (S k) \<and>
        base_pid (terminals s k) = last (S k) \<and> chained (pcbs s) (S k)) \<and>
     (\<forall>p \<in> live S. pid (pcbs s p) = p) \<and>
     (\<forall>p. 1 \<le> p \<and> p \<le> 6 \<longrightarrow> (pid_arr s (p - 1) \<noteq> 0 \<longleftrightarrow> p \<in> live S)) \<and>
     user_frame s = nat (running_pid s) + 1 \<and> esp0 s = kstack (running_pid s) \<and>
     (\<forall>k < 3. k \<noteq> sched_term s \<longrightarrow> tss_esp0 (pcbs s (hd (S k))) = kstack (hd (S k)))"

text \<open>The image holds a shell, and every file in the directory can be loaded as a program.\<close>

definition disk_ok :: "'a kernel_state_scheme \<Rightarrow> bool" where
  "disk_ok s \<longleftrightarrow> fs_ok s \<and> (\<exists>d prog. lookup s (bytes_of ''shell'') = Some d \<and> program_file s d prog) \<and>
     (\<forall>w d. lookup s w = Some d \<longrightarrow> inode_placed (mem s) (fs s) (inode_num d) \<and>
        0x48000 + length (file_content (mem s) (fs s) (inode_num d)) \<le> 0x400000)"

definition system_ok :: "forest \<Rightarrow> 'a kernel_state_scheme \<Rightarrow> bool" where
  "system_ok S s \<longleftrightarrow> display_ok s \<and> disk_ok s \<and> well_formed S \<and> represents S s"

lemma disk_ok_agree:
  assumes "disk_ok s" "agree_kernel (mem s) (mem s')" "fs s' = fs s" "paging_ok s'"
  shows "disk_ok s'"
proof -
  have f: "fs_ok s" using assms(1) by (simp add: disk_ok_def)
  note v = fs_views [OF assms(2,3) f assms(4)]
  have "inode_placed (mem s') (fs s') i \<and> file_content (mem s') (fs s') i = file_content (mem s) (fs s) i"
    if "inode_placed (mem s) (fs s) i" for i
    using file_agree(2,3) [OF assms(2) that] assms(3) by simp
  then show ?thesis using assms(1) v unfolding disk_ok_def by metis
qed

lemma represents_running:
  assumes "represents S s" "sched_term s < 3"
  shows "running_pid s = hd (S (sched_term s))"
  using assms by (simp add: represents_def running_pid_def)

lemma represents_frame:
  assumes "represents S s" "well_formed S" "sched_term s < 3"
  shows "user_frame s = nat (running_pid s) + 1" "2 \<le> user_frame s" "1 \<le> running_pid s" "running_pid s \<in> live S"
proof -
  show u: "user_frame s = nat (running_pid s) + 1" using assms(1) by (simp add: represents_def)
  show "running_pid s \<in> live S"
    unfolding represents_running [OF assms(1,3)] by (rule well_formed_stacks(5) [OF assms(2,3)])
  then show "1 \<le> running_pid s" using live_bounds [OF assms(2)] by blast
  then show "2 \<le> user_frame s" using u by simp
qed

lemma represents_pid:
  assumes "represents S s" "1 \<le> p" "p \<le> 6"
  shows "pid_arr s (p - 1) \<noteq> 0 \<longleftrightarrow> p \<in> live S"
  using assms by (simp add: represents_def)

lemma chained_cong: "(\<And>p. p \<in> set ps \<Longrightarrow> links (b p) = links (c p)) \<Longrightarrow> chained b ps = chained c ps"
  by (induction ps rule: induct_list012) (auto simp: links_def)

section \<open>Operations that are not about processes\<close>

lemma system_ok_kept:
  assumes "system_ok S s" "kept s s'"
  shows "system_ok S s'" "sched_term s' = sched_term s"
proof -
  have k: "display_ok s'" "kview s' = kview s" "other_bytes s' = other_bytes s"
    and oth: "\<forall>q. q \<noteq> running_pid s \<longrightarrow> pcbs s' q = pcbs s q"
    using assms(2) by (simp_all add: kept_def)
  have v: "sched_term s' = sched_term s" "\<And>j. procs_of (terminals s' j) = procs_of (terminals s j)"
    "pid_arr s' = pid_arr s" "\<And>p. links (pcbs s' p) = links (pcbs s p)" "fs s' = fs s" "esp0 s' = esp0 s"
    "user_frame s' = user_frame s"
    using k(2) by (auto simp: kview_def fun_eq_iff)
  show "sched_term s' = sched_term s" by (rule v(1))
  have s: "display_ok s" "disk_ok s" "well_formed S" "represents S s" using assms(1) by (simp_all add: system_ok_def)
  have sch: "sched_term s < 3" using s(1) by (simp add: display_ok_def)
  have "hd (S j) \<noteq> running_pid s" if "j < 3" "j \<noteq> sched_term s" for j
    using well_formed_stacks(7) [OF s(3) sch that] well_formed_stacks(1) [OF s(3) that(1)]
      well_formed_stacks(1) [OF s(3) sch] represents_running [OF s(4) sch] hd_in_set by fastforce
  then have "tss_esp0 (pcbs s' (hd (S j))) = tss_esp0 (pcbs s (hd (S j)))" if "j < 3" "j \<noteq> sched_term s" for j
    using oth that by simp
  moreover have "running_pid s' = running_pid s" using k(2) by (rule kview_running)
  moreover have "pid (pcbs s' p) = pid (pcbs s p)" for p using v(4) [of p] by (simp add: links_def)
  moreover have "chained (pcbs s') ps = chained (pcbs s) ps" for ps using v(4) by (intro chained_cong)
  moreover have "status (terminals s' j) = status (terminals s j) \<and> active_pid (terminals s' j) = active_pid (terminals s j)
      \<and> base_pid (terminals s' j) = base_pid (terminals s j)" for j
    using v(2) [of j] by (simp add: procs_of_def)
  ultimately have "represents S s'"
    using s(4) v(1,3,6,7) by (simp add: represents_def)
  moreover have "disk_ok s'"
    using k(1) v(5) agree_other_bytes [OF k(3) v(7) represents_frame(2) [OF s(4,3) sch]]
    by (intro disk_ok_agree [OF s(2)]) (simp_all add: display_ok_def)
  ultimately show "system_ok S s'" using k(1) s(3) by (simp add: system_ok_def)
qed

section \<open>The timer tick\<close>

lemma links_saved [simp]: "links (saved_context s p) = links p" "tss_esp0 (saved_context s p) = esp0 s"
  "pid (saved_context s p) = pid p"
  by (simp_all add: links_def saved_context_def)

lemma represents_stack:
  assumes "represents S s" "well_formed S" "k < 3"
  shows "status (terminals s k) \<noteq> 0" "active_pid (terminals s k) = hd (S k)" "base_pid (terminals s k) = last (S k)"
    "chained (pcbs s) (S k)" "pid (pcbs s (hd (S k))) = hd (S k)" "1 \<le> hd (S k)" "hd (S k) \<le> 6"
  using assms(1,3) well_formed_stacks(5) [OF assms(2,3)] live_bounds [OF assms(2), of "hd (S k)"]
  by (auto simp: represents_def)

lemma other_heads:
  assumes "well_formed S" "j < 3" "k < 3" "j \<noteq> k"
  shows "hd (S j) \<noteq> hd (S k)" "hd (S j) \<notin> set (S k)"
proof -
  have "hd (S j) \<in> set (S j)" "hd (S k) \<in> set (S k)"
    using well_formed_stacks(1) [OF assms(1)] assms(2,3) by simp_all
  then show "hd (S j) \<noteq> hd (S k)" "hd (S j) \<notin> set (S k)"
    using well_formed_stacks(7) [OF assms(1,3,2,4)] by auto
qed

lemma next_other: "sched_term s < 3 \<Longrightarrow> next_term s \<noteq> sched_term s"
  using three [of "sched_term s"] by (auto simp: next_term_def)

lemma tick_ok:
  assumes "system_ok S s"
  shows "\<exists>s'. pit_handler s = Some (Ret 0, s') \<and> switched s s' \<and> system_ok S s' \<and> sched_term s' = next_term s"
proof -
  let ?k = "next_term s" and ?c = "sched_term s"
  have s: "display_ok s" "disk_ok s" "well_formed S" "represents S s" using assms by (simp_all add: system_ok_def)
  have p: "paging_ok s" and c: "?c < 3" using s(1) by (simp_all add: display_ok_def)
  have k: "?k < 3" "?k \<noteq> ?c" using next_other [OF c] by simp_all
  note st = represents_stack [OF s(4,3)]
  have "pid (pcbs s (active_pid (terminals s ?k))) = active_pid (terminals s ?k)"
    "1 \<le> active_pid (terminals s ?k)" "active_pid (terminals s ?k) \<le> 6"
    using st(2,5-7) [OF k(1)] by simp_all
  from pit_handler_switches [OF p c st(1) [OF k(1)] refl this]
  obtain s' where s': "pit_handler s = Some (Ret 0, s')" "switched s s'" by blast
  have run: "running_pid s = hd (S ?c)" by (rule represents_running [OF s(4) c])
  have sw: "paging_ok s'" "user_frame s' = nat (hd (S ?k)) + 1" "sched_term s' = ?k" "terminals s' = terminals s"
    "pid_arr s' = pid_arr s" "fs s' = fs s" "mem s' = mem s" "visible_term s' = visible_term s"
    "pcbs s' = (pcbs s)(hd (S ?c) := saved_context s (pcbs s (hd (S ?c))))"
    "esp0 s' = tss_esp0 (pcbs s' (hd (S ?k)))"
    using s'(2) st(2) [OF k(1)] run by (simp_all add: switched_def Let_def frames_of_def)
  have run': "running_pid s' = hd (S ?k)" using sw st(2) [OF k(1)] by (simp add: running_pid_def)
  have tss: "tss_esp0 (pcbs s' (hd (S j))) = kstack (hd (S j))" if "j < 3" for j
  proof (cases "j = ?c")
    case True
    then show ?thesis using s(4) run by (simp add: sw(9) represents_def)
  next
    case False
    then have "hd (S j) \<noteq> hd (S ?c)" using other_heads(1) [OF s(3) that c] by simp
    then show ?thesis using s(4) that False by (simp add: sw(9) represents_def)
  qed
  have l: "links (pcbs s' q) = links (pcbs s q)" and i: "pid (pcbs s' q) = pid (pcbs s q)" for q by (simp_all add: sw(9))
  have ch: "chained (pcbs s') ps = chained (pcbs s) ps" for ps by (rule chained_cong) (rule l)
  have "represents S s'"
    using s(4) sw(1-8) tss [OF k(1)] tss unfolding represents_def run' i ch by (simp add: sw(10))
  moreover have "display_ok s'" using s(1) sw k(1) by (simp add: display_ok_def backed_up_def)
  moreover have "disk_ok s'" using sw by (intro disk_ok_agree [OF s(2)]) (simp_all add: agree_kernel_refl)
  ultimately show ?thesis using s' s(3) sw(3) unfolding system_ok_def by blast
qed

section \<open>execute\<close>

text \<open>The command given to execute is null or a command line.\<close>

definition some_command :: "carray option \<Rightarrow> bool" where
  "some_command cmd \<longleftrightarrow> (\<forall>c. cmd = Some c \<longrightarrow> (\<exists>w a. command_line c w a))"

lemma read_prefix_return:
  assumes "paging_ok s" "inode_placed (mem s) (fs s) inode" "0 \<le> off" "0 \<le> len"
  shows "fst (read_data (kmem s) (fs s) inode off len) \<noteq> -1"
  using read_prefix [OF assms] by (simp add: Let_def)

lemma execute_cases:
  assumes "disk_ok s" "some_command cmd" "execute cmd s = Some (f, s')"
  shows "f = Ret (-1) \<and> s' = s\<lparr>iflag := True\<rparr> \<or>
    (\<exists>d eip arg. inode_placed (mem s) (fs s) (inode_num d) \<and>
       0x48000 + length (file_content (mem s) (fs s) (inode_num d)) \<le> 0x400000 \<and>
       start_program d eip arg (cli s) = (f, s'))"
proof (cases cmd)
  case None
  then show ?thesis using assms(3) by (simp add: execute_def Let_def sti_cli)
next
  case (Some c)
  with assms(2) obtain w a where c: "command_line c w a" by (auto simp: some_command_def)
  have ok: "fs_ok s" "paging_ok s" using assms(1) by (simp_all add: disk_ok_def fs_ok_def)
  let ?junk = "\<lambda>i. if i < 32 then NUL else stack_junk s i"
  obtain k cm where g: "getCommand c ?junk = Some (k, cm)" "cstr cm = Some w"
    and ga: "getArguments c ?junk k = Some (\<lambda>i. if i < length a then a ! i else ?junk i)"
    using command_line_parse [OF c, of ?junk ?junk] .
  show ?thesis
  proof (cases "lookup s w")
    case None
    then show ?thesis
      using assms(3) lookup_eq [OF ok(1) g(2)] Some by (simp add: execute_def Let_def g ga sti_cli cong: if_cong)
  next
    case l: (Some d)
    then have d: "inode_placed (mem s) (fs s) (inode_num d)"
      "0x48000 + length (file_content (mem s) (fs s) (inode_num d)) \<le> 0x400000"
      using assms(1) by (auto simp: disk_ok_def)
    obtain r bs where r: "read_data (kmem s) (fs s) (inode_num d) 0 4 = (r, bs)" by fastforce
    obtain q cs where q: "read_data (kmem s) (fs s) (inode_num d) 24 4 = (q, cs)" by fastforce
    have "r \<noteq> -1" "q \<noteq> -1"
      using read_prefix_return [OF ok(2) d(1), of 0 4] read_prefix_return [OF ok(2) d(1), of 24 4] r q by simp_all
    then have "f = Ret (-1) \<and> s' = s\<lparr>iflag := True\<rparr> \<or> (\<exists>eip arg. start_program d eip arg (cli s) = (f, s'))"
      using assms(3) lookup_eq [OF ok(1) g(2)] l Some
      by (auto simp: execute_def Let_def g ga r q sti_cli cong: if_cong split: if_splits)
    then show ?thesis using d by blast
  qed
qed

lemma process_started_bytes: "process_started p arg prog s s' \<Longrightarrow> 1 \<le> p \<Longrightarrow> agree_kernel (mem s) (mem s')"
  by (auto simp: process_started_def intro!: agree_user_store)

lemma process_started_display:
  assumes "process_started p arg prog s s'" "display_ok s"
  shows "display_ok s'"
  using assms by (auto simp: process_started_def display_ok_def backed_up_def cursor_ok_def)

lemma started_represents:
  assumes "process_started p arg prog s s'" "1 \<le> p" "p \<le> 6" "sched_term s < 3" "well_formed S"
    and t: "\<And>k. k < 3 \<Longrightarrow> status (terminals s k) \<noteq> 0 \<and> base_pid (terminals s k) = last (S k) \<and> chained (pcbs s) (S k)"
    and "\<And>k. k < 3 \<Longrightarrow> k \<noteq> sched_term s \<Longrightarrow> active_pid (terminals s k) = hd (S k) \<and> tss_esp0 (pcbs s (hd (S k))) = kstack (hd (S k))"
    and i: "\<And>q. q \<in> live S \<Longrightarrow> pid (pcbs s q) = q"
    and "\<And>q. 1 \<le> q \<Longrightarrow> q \<le> 6 \<Longrightarrow> q \<noteq> p \<Longrightarrow> pid_arr s (q - 1) \<noteq> 0 \<longleftrightarrow> q \<in> live S"
    and new: "if p \<in> live S then S (sched_term s) = [p] \<and> T = S
      else running_pid s = hd (S (sched_term s)) \<and> esp0 s = kstack (running_pid s) \<and> T = S(sched_term s := p # S (sched_term s))"
  shows "represents T s'"
proof -
  let ?k = "sched_term s"
  have s': "user_frame s' = nat p + 1" "sched_term s' = ?k" "pid_arr s' = (pid_arr s)(p - 1 := 1)"
    "terminals s' = (terminals s)(?k := (terminals s ?k)\<lparr>active_pid := p\<rparr>)" "esp0 s' = kstack p"
    "\<And>q. q \<noteq> p \<Longrightarrow> pcbs s' q = pcbs s q" "pid (pcbs s' p) = p"
    "parent_pid (pcbs s' p) = (if p = base_pid (terminals s ?k) then p else running_pid s)"
    "prev_tss_ESP0 (pcbs s' p) = esp0 s"
    using assms(1) by (auto simp: process_started_def kstack_def)
  note wf = well_formed_stacks [OF assms(5)]
  have run: "running_pid s' = p" by (simp add: running_pid_def s')
  have away: "p \<notin> set (S j)" "hd (S j) \<noteq> p" if "j < 3" "j \<noteq> ?k" for j
  proof -
    show "p \<notin> set (S j)"
    proof (cases "p \<in> live S")
      case True
      with new have "p \<in> set (S ?k)" by simp
      with wf(7) [OF that(1) assms(4)] that(2) show ?thesis by auto
    next
      case False
      then show ?thesis using wf(4) [OF that(1)] by auto
    qed
    then show "hd (S j) \<noteq> p" using wf(1) [OF that(1)] hd_in_set by metis
  qed
  have ch: "chained (pcbs s') ps" if "p \<notin> set ps" "chained (pcbs s) ps" for ps
    using that s'(6) chained_cong [of ps "pcbs s'" "pcbs s"] by (metis links_def)
  have T: "T j = S j" if "j \<noteq> ?k" for j using new that by (auto split: if_splits)
  have Tk: "hd (T ?k) = p \<and> last (T ?k) = last (S ?k) \<and> chained (pcbs s') (T ?k)"
  proof (cases "p \<in> live S")
    case True
    with new t [OF assms(4)] s'(8) show ?thesis by simp
  next
    case False
    obtain q qs where q: "S ?k = q # qs" using wf(1) [OF assms(4)] by (cases "S ?k") auto
    have "p \<notin> set (S ?k)" "p \<noteq> last (S ?k)" using False wf(4,6) [OF assms(4)] by auto
    then show ?thesis using False new t [OF assms(4)] ch [of "S ?k"] s'(8,9) q by auto
  qed
  have live: "live T = insert p (live S)"
    using new three [OF assms(4)] by (auto simp: live_def split: if_splits)
  show ?thesis
    unfolding represents_def run
  proof (intro conjI allI impI ballI)
    fix j :: nat assume j: "j < 3"
    show "status (terminals s' j) \<noteq> 0" using t [OF j] by (cases "j = ?k") (simp_all add: s')
    show "active_pid (terminals s' j) = hd (T j)"
      using Tk T assms(7) [OF j] by (cases "j = ?k") (simp_all add: s')
    show "base_pid (terminals s' j) = last (T j)" using Tk T t [OF j] by (cases "j = ?k") (simp_all add: s')
    show "chained (pcbs s') (T j)" using Tk T ch away(1) [OF j] t [OF j] by (cases "j = ?k") simp_all
    assume n: "j \<noteq> sched_term s'"
    then show "tss_esp0 (pcbs s' (hd (T j))) = kstack (hd (T j))"
      using T assms(7) [OF j] away(2) [OF j] by (simp add: s')
  next
    fix q assume "q \<in> live T"
    then show "pid (pcbs s' q) = q" using i s'(6,7) by (cases "q = p") (auto simp: live)
  next
    fix q :: int assume q: "1 \<le> q \<and> q \<le> 6"
    show "(pid_arr s' (q - 1) \<noteq> 0) = (q \<in> live T)"
      using assms(9) q by (cases "q = p") (auto simp: live s')
  qed (simp_all add: s')
qed

lemma free_pid_least:
  assumes "represents S s" "free_pid s = Some i"
  shows "i < 6" "int i + 1 \<notin> live S" "{1..<int i + 1} \<subseteq> live S"
proof -
  have i: "i < 6" "pid_arr s (int i) = 0" "\<forall>j < i. pid_arr s (int j) \<noteq> 0"
    using assms(2) unfolding free_pid_def by (auto simp: find_Some_iff simp del: upt_conv_Cons upt_rec_numeral)
  note taken = represents_pid [OF assms(1)]
  show "i < 6" by (rule i(1))
  show "int i + 1 \<notin> live S" using taken [of "int i + 1"] i by auto
  show "{1..<int i + 1} \<subseteq> live S"
  proof
    fix p :: int assume p: "p \<in> {1..<int i + 1}"
    then have "nat (p - 1) < i" by auto
    then have "pid_arr s (int (nat (p - 1))) \<noteq> 0" using i(3) by blast
    then show "p \<in> live S" using p i(1) taken [of p] by simp
  qed
qed

lemma started_ok:
  assumes "system_ok S s" "process_started p arg prog s s'" "1 \<le> p" "p \<le> 6" "p \<notin> live S"
  shows "system_ok (S(sched_term s := p # S (sched_term s))) s'"
proof -
  let ?T = "S(sched_term s := p # S (sched_term s))"
  have s: "display_ok s" "disk_ok s" "well_formed S" "represents S s" using assms(1) by (simp_all add: system_ok_def)
  have k: "sched_term s < 3" using s(1) by (simp add: display_ok_def)
  have "represents ?T s'"
    by (rule started_represents [OF assms(2-4) k s(3)])
      (use s(4) assms(5) represents_running [OF s(4) k] in \<open>simp_all add: represents_def\<close>)
  moreover have d: "display_ok s'" by (rule process_started_display [OF assms(2) s(1)])
  moreover have "disk_ok s'"
    using assms(2) d
    by (intro disk_ok_agree [OF s(2) process_started_bytes [OF assms(2,3)]])
      (simp_all add: process_started_def display_ok_def)
  moreover have "well_formed ?T" by (rule well_formed_push [OF s(3) k assms(3-5)])
  ultimately show ?thesis by (simp add: system_ok_def)
qed

text \<open>
  The program that execute starts is recorded with its caller's context.
\<close>

lemma execute_ok:
  assumes "system_ok S s" "some_command cmd" "execute cmd s = Some (f, s')"
  shows "(\<exists>r. f = Ret r) \<and> kept s s' \<or>
    (\<exists>p eip arg prog. f = ToUser eip 0x83FFFFC \<and> 1 \<le> p \<and> p \<le> 6 \<and> p \<notin> live S \<and> {1..<p} \<subseteq> live S \<and>
       0x48000 + length prog \<le> 0x400000 \<and> process_started p arg prog s s' \<and>
       system_ok (S(sched_term s := p # S (sched_term s))) s')"
proof -
  have s: "display_ok s" "disk_ok s" "represents S s" using assms(1) by (simp_all add: system_ok_def)
  have p: "paging_ok s" using s(1) by (simp add: display_ok_def)
  from execute_cases [OF s(2) assms(2,3)] show ?thesis
  proof (elim disjE exE conjE)
    assume "f = Ret (-1)" "s' = s\<lparr>iflag := True\<rparr>"
    then show ?thesis using kept_keys(12) [OF kept_refl [OF s(1)]] by simp
  next
    fix d eip arg
    assume d: "inode_placed (mem s) (fs s) (inode_num d)"
      "0x48000 + length (file_content (mem s) (fs s) (inode_num d)) \<le> 0x400000"
      and x: "start_program d eip arg (cli s) = (f, s')"
    show ?thesis
    proof (cases "free_pid s")
      case None
      then have "f = Ret 256" "s' = sti (printfk_plain ''Process Cap Reached: '' (cli s))"
        using x by (auto simp: start_program_def)
      then show ?thesis
        using kept_cli_sti(2) [OF kept_printfk_plain [OF kept_cli_sti(1) [OF kept_refl [OF s(1)]]]] by simp
    next
      case (Some i)
      note fr = free_pid_least [OF s(3) Some]
      have "f = ToUser eip 0x83FFFFC \<and> process_started (int i + 1) arg (file_content (mem s) (fs s) (inode_num d)) (cli s) s'"
        using start_program_ok [of "cli s" d i _ eip arg] p d Some x by auto
      then have st: "f = ToUser eip 0x83FFFFC" "process_started (int i + 1) arg (file_content (mem s) (fs s) (inode_num d)) s s'"
        by (simp_all add: process_started_cli)
      have "system_ok (S(sched_term s := (int i + 1) # S (sched_term s))) s'"
        using started_ok [OF assms(1) st(2)] fr(1,2) by simp
      then show ?thesis using st fr d(2) by (intro disjI2 exI [of _ "int i + 1"]) auto
    qed
  qed
qed

section \<open>halt\<close>

text \<open>A program that a program started: its terminal goes back to the caller.\<close>

lemma halt_pops:
  assumes "system_ok S s" "S (sched_term s) = p # q # qs"
  shows "\<exists>s'. halt st s = Some (LongRet (ESP_prev (pcbs s p)) (EBP_prev (pcbs s p)) (if st = 100 then 256 else st), s')
    \<and> system_ok (S(sched_term s := q # qs)) s' \<and> sched_term s' = sched_term s \<and> (\<forall>x. x \<noteq> p \<longrightarrow> pcbs s' x = pcbs s x)
    \<and> mem s' = mem s"
proof -
  let ?k = "sched_term s" and ?T = "S(sched_term s := q # qs)"
  have s: "display_ok s" "disk_ok s" "well_formed S" "represents S s" using assms(1) by (simp_all add: system_ok_def)
  have k: "?k < 3" and pg: "paging_ok s" using s(1) by (simp_all add: display_ok_def)
  note wf = well_formed_stacks [OF s(3)]
  have run: "running_pid s = p" using represents_running [OF s(4) k] assms(2) by simp
  have ch: "parent_pid (pcbs s p) = q" "prev_tss_ESP0 (pcbs s p) = kstack q" "chained (pcbs s) (q # qs)"
    and id: "pid (pcbs s p) = p" and b: "base_pid (terminals s ?k) = last (q # qs)"
    using represents_stack [OF s(4,3) k] assms(2) by simp_all
  have pq: "p \<notin> set (q # qs)" "q \<in> live S" using wf(3,4) [OF k] assms(2) by auto
  then have q: "1 \<le> q" "q \<le> 6" "p \<noteq> last (q # qs)" using live_bounds [OF s(3)] by auto
  obtain s' where s': "halt st s = Some (LongRet (ESP_prev (pcbs s p)) (EBP_prev (pcbs s p)) (if st = 100 then 256 else st), s')"
    "paging_ok s'" "user_frame s' = nat q + 1" "esp0 s' = kstack q"
    "terminals s' = (terminals s)(?k := (terminals s ?k)\<lparr>active_pid := q\<rparr>)"
    "pid_arr s' = (pid_arr s)(p - 1 := 0)" "mem s' = mem s" "fs s' = fs s" "sched_term s' = ?k"
    "\<And>x. x \<noteq> p \<Longrightarrow> pcbs s' x = pcbs s x" "visible_term s' = visible_term s"
    using halt_returns [OF pg, of "pcbs s p" "if st = 100 then 256 else st" st] id b q ch(1,2) unfolding run by auto
  have live: "live ?T = live S - {p}"
  proof -
    have "p \<notin> set (S j)" if "j < 3" "j \<noteq> ?k" for j using wf(7) [OF k that(1)] that(2) assms(2) by auto
    then show ?thesis using three [OF k] assms(2) pq(1) by (auto simp: live_def)
  qed
  have wf': "well_formed ?T" using well_formed_pop [OF s(3) k] assms(2) by simp
  have cT: "chained (pcbs s') (?T j)" if "j < 3" for j
  proof -
    have "p \<notin> set (?T j)" using live well_formed_stacks(4) [OF wf' that] by auto
    moreover have "chained (pcbs s) (?T j)" using represents_stack(4) [OF s(4,3) that] ch(3) by simp
    ultimately show ?thesis using s'(10) chained_cong [of "?T j" "pcbs s'" "pcbs s"] by (metis links_def)
  qed
  have run': "running_pid s' = q" by (simp add: running_pid_def s')
  have "represents ?T s'"
    unfolding represents_def run'
  proof (intro conjI allI impI ballI)
    fix j :: nat assume j: "j < 3"
    note r = represents_stack [OF s(4,3) j]
    show "status (terminals s' j) \<noteq> 0" using r(1) by (cases "j = ?k") (simp_all add: s')
    show "active_pid (terminals s' j) = hd (?T j)" using r(2) by (cases "j = ?k") (simp_all add: s')
    show "base_pid (terminals s' j) = last (?T j)" using r(3) b by (cases "j = ?k") (simp_all add: s')
    show "chained (pcbs s') (?T j)" by (rule cT [OF j])
    assume "j \<noteq> sched_term s'"
    then have n: "j \<noteq> ?k" by (simp add: s')
    then have "hd (S j) \<noteq> p" using other_heads(1) [OF s(3) j k n] assms(2) by simp
    then show "tss_esp0 (pcbs s' (hd (?T j))) = kstack (hd (?T j))"
      using s(4) j n by (simp add: s' represents_def)
  next
    fix x assume "x \<in> live ?T"
    then show "pid (pcbs s' x) = x" using s(4) unfolding live by (simp add: s' represents_def)
  next
    fix x :: int assume "1 \<le> x \<and> x \<le> 6"
    then show "(pid_arr s' (x - 1) \<noteq> 0) = (x \<in> live ?T)" using s(4) unfolding live by (simp add: s' represents_def)
  qed (simp_all add: s')
  moreover have "display_ok s'" using s(1) s' by (auto simp: display_ok_def backed_up_def cursor_ok_def)
  moreover have "disk_ok s'" using s' by (intro disk_ok_agree [OF s(2)]) (simp_all add: agree_kernel_refl)
  ultimately show ?thesis using s' wf' unfolding system_ok_def by blast
qed

text \<open>A terminal's shell: a new one takes its place, with the same pid.\<close>

lemma halt_stays:
  assumes "system_ok S s" "S (sched_term s) = [p]"
  shows "\<exists>eip prog s'. halt st s = Some (ToUser eip 0x83FFFFC, s') \<and> system_ok S s' \<and> 0x48000 + length prog \<le> 0x400000
    \<and> process_started p (\<lambda>_. NUL) prog (s\<lparr>pid_arr := (pid_arr s)(p - 1 := 0)\<rparr>) s'"
proof -
  let ?k = "sched_term s" and ?s0 = "s\<lparr>pid_arr := (pid_arr s)(p - 1 := 0)\<rparr>"
  have s: "display_ok s" "disk_ok s" "well_formed S" "represents S s" using assms(1) by (simp_all add: system_ok_def)
  have k: "?k < 3" using s(1) by (simp add: display_ok_def)
  note wf = well_formed_stacks [OF s(3)]
  have run: "running_pid s = p" using represents_running [OF s(4) k] assms(2) by simp
  have pl: "p \<in> live S" and p: "1 \<le> p" "p \<le> 3" and id: "pid (pcbs s p) = base_pid (terminals s ?k)"
    using represents_stack [OF s(4,3) k] wf(2,5) [OF k] assms(2) by simp_all
  obtain d prog where d: "lookup s (bytes_of ''shell'') = Some d" "program_file s d prog"
    using s(2) by (auto simp: disk_ok_def)
  have ok: "fs_ok s" using s(2) by (simp add: disk_ok_def)
  obtain i s' where i: "int i < p" "int i + 1 = p \<or> pid_arr s (int i) = 0"
    and h: "halt st s = Some (ToUser (entry_point prog) 0x83FFFFC, s')"
    and st: "process_started (int i + 1) (\<lambda>_. NUL) prog ?s0 s'"
    using halt_restarts [OF ok _ d, of st] id p unfolding run by auto
  have "int i + 1 = p"
  proof (rule ccontr)
    assume n: "int i + 1 \<noteq> p"
    have "int i + 1 = 1 \<or> int i + 1 = 2 \<or> int i + 1 = 3" using i(1) p by linarith
    then have "int i + 1 \<in> {last (S 0), last (S 1), last (S 2)}" unfolding shells [OF s(3)] by simp
    then have "int i + 1 \<in> live S" using wf(6) [of 0] wf(6) [of 1] wf(6) [of 2] by auto
    moreover have "1 \<le> int i + 1" "int i + 1 \<le> 6" using i(1) p by auto
    ultimately have "pid_arr s (int i) \<noteq> 0" using represents_pid [OF s(4), of "int i + 1"] by simp
    with i(2) n show False by simp
  qed
  with st have st: "process_started p (\<lambda>_. NUL) prog ?s0 s'" by simp
  have "represents S s'"
  proof (rule started_represents [OF st p(1) _ _ s(3)])
    show "p \<le> 6" "sched_term ?s0 < 3" using p k by simp_all
    show "if p \<in> live S then S (sched_term ?s0) = [p] \<and> S = S
        else running_pid ?s0 = hd (S (sched_term ?s0)) \<and> esp0 ?s0 = kstack (running_pid ?s0) \<and>
          S = S(sched_term ?s0 := p # S (sched_term ?s0))" using pl assms(2) by simp
  qed (use s(4) in \<open>auto simp: represents_def\<close>)
  moreover have "display_ok ?s0" using s(1) by (simp add: display_ok_def backed_up_def)
  note d' = process_started_display [OF st this]
  moreover have "disk_ok s'"
    using process_started_bytes [OF st p(1)] st d'
    by (intro disk_ok_agree [OF s(2)]) (simp_all add: process_started_def display_ok_def)
  moreover have "0x48000 + length prog \<le> 0x400000" using d(2) unfolding program_file_def by blast
  ultimately show ?thesis using h st s(3) unfolding system_ok_def by blast
qed

section \<open>One step of the system\<close>

text \<open>A process: its control block, and the 4 MB frame with its program.\<close>

definition program_bytes :: "int \<Rightarrow> mem \<Rightarrow> mem" where
  "program_bytes p m = (\<lambda>k. if k < 0x400000 then m ((nat p + 1) * 0x400000 + k) else NUL)"

definition image_of :: "'a kernel_state_scheme \<Rightarrow> int \<Rightarrow> pcb_t \<times> mem" where
  "image_of s p = (pcbs s p, program_bytes p (mem s))"

lemma program_bytes_cong:
  assumes "\<And>a. a div 0x400000 = nat p + 1 \<Longrightarrow> m a = m' a"
  shows "program_bytes p m = program_bytes p m'"
proof -
  have "((nat p + 1) * 0x400000 + k) div 0x400000 = nat p + 1" if "k < 0x400000" for k
    using that by (intro div_nat_eqI) auto
  then show ?thesis using assms by (simp add: program_bytes_def fun_eq_iff)
qed

lemma program_bytes_other:
  assumes "1 \<le> p" "1 \<le> q" "p \<noteq> q" "off + length bs \<le> 0x400000"
  shows "program_bytes q (store_bytes ((nat p + 1) * 0x400000 + off) bs m) = program_bytes q m"
proof (rule program_bytes_cong, rule store_bytes_outside)
  fix a assume "a div 0x400000 = nat q + 1"
  then have a: "(nat q + 1) * 0x400000 \<le> a" "a < (nat q + 2) * 0x400000"
    using div_times_less_eq_dividend [of a "0x400000"] dividend_less_div_times [of "0x400000" a] by auto
  have "nat q + 1 \<le> nat p \<or> nat p + 1 \<le> nat q" using assms(1-3) by linarith
  then have "(nat q + 2) * 0x400000 \<le> (nat p + 1) * 0x400000 \<or> (nat p + 2) * 0x400000 \<le> (nat q + 1) * 0x400000" by auto
  then show "a < (nat p + 1) * 0x400000 + off \<or> (nat p + 1) * 0x400000 + off + length bs \<le> a"
    using a assms(4) by auto
qed

text \<open>
  A step takes the stacks one step on; the processes that were not running are left exactly as they
  were, and the running process stays linked to its parent as long as it lives, unless it is a shell
  that is restarted.
\<close>

definition advances :: "forest \<Rightarrow> 'a kernel_state_scheme \<Rightarrow> forest \<Rightarrow> 'a kernel_state_scheme \<Rightarrow> bool" where
  "advances S s S' s' \<longleftrightarrow> forest_step (sched_term s, S) (sched_term s', S') \<and> system_ok S' s' \<and>
     (\<forall>x \<in> live S. x \<noteq> running_pid s \<longrightarrow> image_of s' x = image_of s x) \<and>
     (running_pid s \<in> live S' \<and> S (sched_term s) \<noteq> [running_pid s] \<longrightarrow>
        links (pcbs s' (running_pid s)) = links (pcbs s (running_pid s)))"

lemma kept_image:
  assumes "system_ok S s" "kept s s'" "x \<in> live S" "x \<noteq> running_pid s"
  shows "image_of s' x = image_of s x"
proof -
  have s: "well_formed S" "represents S s" "sched_term s < 3" using assms(1) by (simp_all add: system_ok_def display_ok_def)
  note f = represents_frame [OF s(2,1,3)]
  have k: "other_bytes s' = other_bytes s" "user_frame s' = user_frame s" "pcbs s' x = pcbs s x"
    using assms(2,4) by (simp_all add: kept_def kview_def)
  have x: "1 \<le> x" using live_bounds [OF s(1) assms(3)] by simp
  have "mem s' a = mem s a" if a: "a div 0x400000 = nat x + 1" for a
  proof -
    have "nat x + 1 \<noteq> user_frame s" using f(1,3) x assms(4) by auto
    moreover have "0x400000 \<le> a" using a x by (cases "a < 0x400000") auto
    ultimately show ?thesis using k(1) a by (simp add: other_bytes_eq [OF k(2)])
  qed
  then show ?thesis using k(3) by (auto simp: image_of_def intro: program_bytes_cong)
qed

lemma kept_links: "kept s t \<Longrightarrow> links (pcbs t p) = links (pcbs s p)"
  by (auto simp: kept_def kview_def fun_eq_iff)

lemma advances_kept: "system_ok S s \<Longrightarrow> kept s s' \<Longrightarrow> advances S s S s'"
  using system_ok_kept [of S s s'] kept_image [of S s s'] kept_links [of s s']
  by (simp add: advances_def forest_step.stay)

lemma advances_after:
  assumes "system_ok S s" "kept s t" "advances S t S' u"
  shows "advances S s S' u"
proof -
  have r: "running_pid t = running_pid s" by (rule kept_running [OF assms(2)])
  show ?thesis
    using assms(3) system_ok_kept(2) [OF assms(1,2)] kept_image [OF assms(1,2)] kept_links [OF assms(2)]
    unfolding advances_def r by auto
qed

lemma kept_iflag: "display_ok s \<Longrightarrow> kept s (s\<lparr>iflag := b\<rparr>)"
  by (intro kept_keys kept_refl)

lemma advances_iflag:
  assumes "advances S s S' s'"
  shows "advances S s S' (s'\<lparr>iflag := b\<rparr>)"
proof -
  have ok: "system_ok S' s'" using assms by (simp add: advances_def)
  then have "kept s' (s'\<lparr>iflag := b\<rparr>)" by (intro kept_iflag) (simp add: system_ok_def)
  from system_ok_kept(1) [OF ok this] assms show ?thesis by (simp add: advances_def image_of_def)
qed

lemma advances_tick:
  assumes "system_ok S s" "pit_handler s = Some (f, s')"
  shows "advances S s S s'" "f = Ret 0"
proof -
  have s: "well_formed S" "represents S s" "sched_term s < 3" using assms(1) by (simp_all add: system_ok_def display_ok_def)
  obtain t where "pit_handler s = Some (Ret 0, t)" "switched s t" "system_ok S t" "sched_term t = next_term s"
    using tick_ok [OF assms(1)] by blast
  then have s': "f = Ret 0" "switched s s'" "system_ok S s'" "sched_term s' = next_term s" using assms(2) by auto
  show "f = Ret 0" by (rule s'(1))
  have "pcbs s' = (pcbs s)(running_pid s := saved_context s (pcbs s (running_pid s)))" "mem s' = mem s"
    using s'(2) by (simp_all add: switched_def Let_def)
  then show "advances S s S s'"
    using s'(3,4) forest_step.rotate [of "sched_term s" S] by (simp add: advances_def image_of_def next_term_def)
qed

lemma started_image:
  assumes "process_started p arg prog s s'" "1 \<le> p" "0x48000 + length prog \<le> 0x400000" "x \<noteq> p" "1 \<le> x"
  shows "image_of s' x = image_of s x"
proof -
  have "program_bytes x (mem s') = program_bytes x (mem s)"
    using assms program_bytes_other [OF assms(2,5), of "0x48000" prog "mem s"] by (simp add: process_started_def)
  then show ?thesis using assms(1,4) by (simp add: image_of_def process_started_def)
qed

lemma advances_execute:
  assumes "system_ok S s" "some_command cmd" "execute cmd s = Some (f, s')"
  shows "\<exists>S'. advances S s S' s'"
  using execute_ok [OF assms]
proof (elim disjE exE conjE)
  assume "kept s s'"
  then show ?thesis using advances_kept [OF assms(1)] by blast
next
  fix p eip arg prog
  assume p: "1 \<le> p" "p \<le> 6" "p \<notin> live S" "{1..<p} \<subseteq> live S" "0x48000 + length prog \<le> 0x400000"
    and st: "process_started p arg prog s s'" and ok: "system_ok (S(sched_term s := p # S (sched_term s))) s'"
  have s: "well_formed S" "represents S s" "sched_term s < 3" using assms(1) by (simp_all add: system_ok_def display_ok_def)
  have "image_of s' x = image_of s x" if "x \<in> live S" for x
  proof (rule started_image [OF st p(1,5)])
    show "x \<noteq> p" using that p(3) by metis
    show "1 \<le> x" using live_bounds [OF s(1) that] by simp
  qed
  then have im: "\<And>x. x \<in> live S \<Longrightarrow> image_of s' x = image_of s x" .
  then have "pcbs s' (running_pid s) = pcbs s (running_pid s)"
    using represents_frame(4) [OF s(2,1,3)] by (simp add: image_of_def)
  moreover have "sched_term s' = sched_term s" using st by (simp add: process_started_def)
  ultimately have "advances S s (S(sched_term s := p # S (sched_term s))) s'"
    using im ok forest_step.push [OF p(1-4)] by (simp add: advances_def)
  then show ?thesis by blast
qed

lemma advances_halt:
  assumes "system_ok S s" "halt st s = Some (f, s')"
  shows "\<exists>S'. advances S s S' s'"
proof -
  have s: "well_formed S" "represents S s" "sched_term s < 3" using assms(1) by (simp_all add: system_ok_def display_ok_def)
  note run = represents_running [OF s(2,3)]
  obtain p qs where p: "S (sched_term s) = p # qs" using well_formed_stacks(1) [OF s(1,3)] by (cases "S (sched_term s)") auto
  have p1: "1 \<le> p" using represents_stack(6) [OF s(2,1,3)] p by simp
  show ?thesis
  proof (cases qs)
    case Nil
    obtain eip prog where e: "system_ok S s'" "0x48000 + length prog \<le> 0x400000"
      "process_started p (\<lambda>_. NUL) prog (s\<lparr>pid_arr := (pid_arr s)(p - 1 := 0)\<rparr>) s'"
      using halt_stays [OF assms(1) p [unfolded Nil], of st] assms(2) by auto
    have "image_of s' x = image_of s x" if "x \<in> live S" "x \<noteq> running_pid s" for x
      using started_image [OF e(3) p1 e(2), of x] that live_bounds [OF s(1) that(1)] run p by (simp add: image_of_def)
    moreover have "sched_term s' = sched_term s" using e(3) by (simp add: process_started_def)
    ultimately have "advances S s S s'"
      using e(1) run p Nil by (simp add: advances_def forest_step.stay)
    then show ?thesis by blast
  next
    case (Cons q qs')
    from halt_pops [OF assms(1) p [unfolded Cons], of st] assms(2)
    have e: "system_ok (S(sched_term s := q # qs')) s'" "sched_term s' = sched_term s"
      "\<And>x. x \<noteq> p \<Longrightarrow> pcbs s' x = pcbs s x" "mem s' = mem s" by auto
    have st: "forest_step (sched_term s, S) (sched_term s, S(sched_term s := q # qs'))"
      using forest_step.pop [of S "sched_term s"] p Cons by simp
    have "p \<notin> live (S(sched_term s := q # qs'))"
    proof -
      have "p \<notin> set (S j)" if "j < 3" "j \<noteq> sched_term s" for j
        using well_formed_stacks(7) [OF s(1,3) that] p by auto
      moreover have "p \<notin> set (q # qs')" using well_formed_stacks(3) [OF s(1,3)] p Cons by auto
      ultimately show ?thesis using s(3) by (auto simp: live_iff)
    qed
    then have "advances S s (S(sched_term s := q # qs')) s'"
      using e st run p by (simp add: advances_def image_of_def)
    then show ?thesis by blast
  qed
qed

section \<open>Interrupts while a system call waits\<close>

text \<open>
  The keyboard and the clock may interrupt a call that waits; a Ctrl-C, which abandons the call, is
  left out, as are the ticks.
\<close>

datatype event = Key device | Clock device | Nothing

fun while_waiting :: "(nat \<Rightarrow> event) \<Rightarrow> 'a interrupts" where
  "while_waiting ev n s =
     (case ev n of
        Key dev \<Rightarrow> (case keyboard_handler dev s of Some (Ret r, s') \<Rightarrow> s' | _ \<Rightarrow> s)
      | Clock dev \<Rightarrow> rtc_handler dev s
      | Nothing \<Rightarrow> s)"

lemma while_waiting_kept: "kept s t \<Longrightarrow> kept s (while_waiting ev n t)"
proof (cases "ev n")
  case (Key dev)
  assume k: "kept s t"
  have "kept s u" if "keyboard_handler dev t = Some (Ret r, u)" for r u
  proof -
    have "kept t u"
      using kept_keyboard [OF kept_display [OF k] that] halt_leaves unfolding kept_or_halted_def by blast
    with k show ?thesis by (rule kept_trans)
  qed
  with Key k show ?thesis by (auto split: option.split flow.split)
qed (auto intro: kept_rtc_handler)

section \<open>Through the gates\<close>

text \<open>
  What is asked of a system call: its buffers lie in the program's window, execute gets a command
  line, and a call that waits is interrupted as above.
\<close>

definition call_ok :: "'a environment \<Rightarrow> 'a kernel_state_scheme \<Rightarrow> bool" where
  "call_ok env s \<longleftrightarrow> call_buffers (eax env) (ebx env) (ecx env) (edx env) \<and> (\<exists>ev. waiting_irqs env = while_waiting ev) \<and>
     (sint (eax env) = 2 \<longrightarrow> some_command (if ebx env = 0 then None else Some (\<lambda>i. kmem s (unat (ebx env) + i))))"

text \<open>Every way back to the interrupted program restores the interrupt flag.\<close>

lemma advances_return:
  assumes "(case g of Ret r \<Rightarrow> Some (Ret r, u\<lparr>iflag := b\<rparr>) | _ \<Rightarrow> Some (g, u)) = Some (f, s')" "\<exists>S'. advances S s S' u"
  shows "\<exists>S'. advances S s S' s'"
proof -
  have "s' = u \<or> s' = u\<lparr>iflag := b\<rparr>" using assms(1) by (cases g) auto
  then show ?thesis using assms(2) advances_iflag [of S s _ u b] by blast
qed

lemma advances_call:
  assumes "system_ok S s" "call_ok env s"
    and c: "syscall_asm (waiting_irqs env) (eax env) (ebx env) (ecx env) (edx env) s = Some (f, s')"
  shows "\<exists>S'. advances S s S' s'"
proof -
  have s: "display_ok s" "well_formed S" "represents S s" "sched_term s < 3"
    using assms(1) by (simp_all add: system_ok_def display_ok_def)
  let ?cmd = "if ebx env = 0 then None else Some (\<lambda>i. kmem s (unat (ebx env) + i))"
  obtain ev where ev: "waiting_irqs env = while_waiting ev" using assms(2) by (auto simp: call_ok_def)
  consider "sint (eax env) = 1" | "sint (eax env) = 2" | "sint (eax env) \<notin> {1, 2}" by blast
  then show ?thesis
  proof cases
    case 1
    then obtain g u where "halt (sint (ucast (ebx env) :: byte)) s = Some (g, u)"
      and g: "(case g of Ret r \<Rightarrow> Some (Ret r, u\<lparr>iflag := iflag s\<rparr>) | _ \<Rightarrow> Some (g, u)) = Some (f, s')"
      using c by (auto simp: syscall_asm_def syscall_table_def bind_eq_Some_conv)
    from advances_halt [OF assms(1) this(1)] show ?thesis by (rule advances_return [OF g])
  next
    case 2
    then obtain g u where "execute ?cmd s = Some (g, u)"
      and g: "(case g of Ret r \<Rightarrow> Some (Ret r, u\<lparr>iflag := iflag s\<rparr>) | _ \<Rightarrow> Some (g, u)) = Some (f, s')"
      using c by (auto simp: syscall_asm_def syscall_table_def bind_eq_Some_conv)
    moreover have "some_command ?cmd" using assms(2) 2 by (simp add: call_ok_def)
    ultimately show ?thesis using advances_return [OF g] advances_execute [OF assms(1)] by blast
  next
    case 3
    have "kept s s'"
    proof (rule kept_syscall [OF s(1) represents_frame(2) [OF s(3,2,4)] _ 3 _ c])
      show "call_buffers (eax env) (ebx env) (ecx env) (edx env)" using assms(2) by (simp add: call_ok_def)
      show "kept s (waiting_irqs env n t)" if "kept s t" for n t unfolding ev using that by (rule while_waiting_kept)
    qed
    then show ?thesis using advances_kept [OF assms(1)] by blast
  qed
qed

lemma advances_keyboard:
  assumes "system_ok S s" "keyboard_handler dev s = Some (f, s')"
  shows "\<exists>S'. advances S s S' s'"
proof -
  have "display_ok s" using assms(1) by (simp add: system_ok_def)
  from kept_keyboard [OF this assms(2)] show ?thesis
    unfolding kept_or_halted_def
  proof (elim disjE exE conjE)
    fix v assume v: "kept s v" "halt 0 v = Some (f, s')"
    then show ?thesis
      using advances_halt [OF system_ok_kept(1) [OF assms(1) v(1)] v(2)] advances_after [OF assms(1) v(1)] by blast
  qed (use advances_kept [OF assms(1)] in blast)
qed

lemma advances_exception:
  assumes "system_ok S s" "excp_exit msg s = Some (f, s')"
  shows "\<exists>S'. advances S s S' s'"
proof -
  have "display_ok s" using assms(1) by (simp add: system_ok_def)
  then have k: "kept s (fold putc msg s)" by (intro kept_fold kept_then kept_refl)
  then show ?thesis
    using advances_halt [OF system_ok_kept(1) [OF assms(1) k], of EXCEPTION_STATUS f s'] assms(2)
      advances_after [OF assms(1) k] by (auto simp: excp_exit_def)
qed

lemma advances_link:
  assumes "\<And>f t. func s = Some (f, t) \<Longrightarrow> \<exists>S'. advances S s S' t" "excp_link func s = Some (f, s')"
  shows "\<exists>S'. advances S s S' s'"
proof -
  obtain g u where "func s = Some (g, u)"
    and g: "(case g of Ret r \<Rightarrow> Some (Ret r, u\<lparr>iflag := iflag s\<rparr>) | _ \<Rightarrow> Some (g, u)) = Some (f, s')"
    using assms(2) by (auto simp: excp_link_def bind_eq_Some_conv)
  then show ?thesis using advances_return [OF g assms(1)] by blast
qed

lemma excp_function_text:
  assumes "excp_function e = Some h"
  shows "h \<in> fst ` set exception_texts"
  using assms unfolding exception_texts_def list.set image_insert fst_conv
  by (cases e) (simp_all only: excp_function.simps option.inject option.distinct insert_iff simp_thms)

lemma advances_entry:
  fixes env :: "'a environment" and s :: "'a kernel_state_scheme"
  assumes "system_ok S s" "(v, e) \<in> set idt_entries" "v = 0x80 \<longrightarrow> call_ok env s" "run_entry env e s = Some (f, s')"
  shows "\<exists>S'. advances S s S' s'"
proof -
  have "display_ok s" using assms(1) by (simp add: system_ok_def)
  then have clock: "\<exists>S'. advances S s S' (rtc_handler (device_reads env) s)"
    using advances_kept [OF assms(1) kept_rtc_handler [OF kept_refl]] by blast
  have ends: "\<exists>S'. advances S s S' t" if "(h :: 'a excp_handler, msg) \<in> set exception_texts" "h (printf_junk env) (stack_words env) s = Some (g, t)" for h msg g t
    using that(2) advances_exception [OF assms(1)] unfolding exception_texts_exit [OF that(1)] by blast
  consider (clk) "e = rtc_handlerASM" | (key) "e = keyboard_handlerASM" | (pit) "e = pit_handlerASM"
    | (call) "e = syscall_asm_entry" | (exc) h :: "'a excp_handler" where "excp_function e = Some h"
    by (cases e) auto
  then show ?thesis
  proof cases
    case (exc h)
    then have x: "excp_link (h (printf_junk env) (stack_words env)) s = Some (f, s')"
      using assms(4) excp_entries(2) [OF assms(2) exc] by simp
    obtain msg where m: "(h, msg) \<in> set exception_texts" using excp_function_text [OF exc] by auto
    from x show ?thesis by (rule advances_link [rotated]) (rule ends [OF m])
  next
    case call
    then have "v = 0x80" using assms(2) by (auto simp: idt_entries_def)
    then show ?thesis using advances_call [OF assms(1)] assms(3,4) call by (simp add: run_entry_def)
  next
    case clk
    with assms(4) have "excp_link (\<lambda>s. Some (Ret 0, rtc_handler (device_reads env) s)) s = Some (f, s')"
      by (simp add: run_entry_def)
    then show ?thesis by (rule advances_link [rotated]) (use clock in simp)
  next
    case key
    with assms(4) have "excp_link (keyboard_handler (device_reads env)) s = Some (f, s')" by (simp add: run_entry_def)
    then show ?thesis by (rule advances_link [rotated]) (rule advances_keyboard [OF assms(1)])
  next
    case pit
    with assms(4) have "excp_link pit_handler s = Some (f, s')" by (simp add: run_entry_def)
    then show ?thesis by (rule advances_link [rotated]) (use advances_tick(1) [OF assms(1)] in blast)
  qed
qed

lemma advances_interrupt:
  assumes "system_ok S s" "(v, e) \<in> set idt_entries" "v = 0x80 \<longrightarrow> call_ok env s" "inj link"
    and "interrupt link (init_idt link idt0) env v s = Some (f, s')"
  shows "\<exists>S'. advances S s S' s'"
proof -
  let ?s = "if v = 0x80 then s else cli s"
  have k: "kept s ?s" using kept_refl [of s] assms(1) kept_cli_sti(1) [of s s] by (simp add: system_ok_def)
  obtain g u where r: "run_entry env e ?s = Some (g, u)"
    and g: "(case g of Ret r \<Rightarrow> Some (Ret r, u\<lparr>iflag := iflag s\<rparr>) | _ \<Rightarrow> Some (g, u)) = Some (f, s')"
    using assms(5) unfolding interrupt_installed [OF assms(4,2)] by (auto simp: bind_eq_Some_conv split del: if_split)
  have "v = 0x80 \<longrightarrow> call_ok env ?s" using assms(3) by simp
  from advances_entry [OF system_ok_kept(1) [OF assms(1) k] assms(2) this r] advances_after [OF assms(1) k]
  have "\<exists>S'. advances S s S' u" by blast
  then show ?thesis by (rule advances_return [OF g])
qed

text \<open>
  A step: an interrupt or exception of one of the vectors init\_idt installs, or an instruction of the
  running program, which may store to any address it has access to and moves the registers.
\<close>

inductive kernel_step :: "(asm_entry \<Rightarrow> u32) \<Rightarrow> 'a kernel_state_scheme \<Rightarrow> 'a kernel_state_scheme \<Rightarrow> bool" for link where
  trap: "(v, e) \<in> set idt_entries \<Longrightarrow> v = 0x80 \<longrightarrow> call_ok env s \<Longrightarrow>
    interrupt link (init_idt link idt0) env v s = Some (f, s') \<Longrightarrow> kernel_step link s s'"
| store: "va < 2 ^ 32 \<Longrightarrow> user_mmu s va = Some pa \<Longrightarrow> kernel_step link s (s\<lparr>mem := (mem s)(pa := b)\<rparr>)"
| regs: "kernel_step link s (s\<lparr>reg_esp := x, reg_ebp := y\<rparr>)"

lemma kept_regs: "display_ok s \<Longrightarrow> kept s (s\<lparr>reg_esp := x, reg_ebp := y\<rparr>)"
  by (intro kept_same [OF kept_refl]) (simp_all add: kview_def user_frame_def paging_of_def)

lemma kernel_step_advances:
  assumes "kernel_step link s s'" "inj link" "system_ok S s"
  shows "\<exists>S'. advances S s S' s'"
proof -
  have s: "display_ok s" "well_formed S" "represents S s" "sched_term s < 3"
    using assms(3) by (simp_all add: system_ok_def display_ok_def)
  from assms(1) show ?thesis
  proof cases
    case (trap v e env idt0 f)
    then show ?thesis using advances_interrupt [OF assms(3) _ _ assms(2)] by blast
  next
    case (store va pa b)
    then show ?thesis
      using advances_kept [OF assms(3)] kept_user_store [OF kept_refl [OF s(1)] represents_frame(2) [OF s(3,2,4)]] by blast
  next
    case (regs x y)
    then show ?thesis using advances_kept [OF assms(3) kept_regs [OF s(1)]] by blast
  qed
qed

section \<open>Every behaviour of the system\<close>

lemma forest_reachable:
  assumes "(kernel_step link)\<^sup>*\<^sup>* s s'" "inj link" "system_ok S s"
  shows "\<exists>S'. forest_step\<^sup>*\<^sup>* (sched_term s, S) (sched_term s', S') \<and> system_ok S' s'"
  using assms(1)
proof (induction rule: rtranclp_induct)
  case (step t u)
  then obtain T where T: "forest_step\<^sup>*\<^sup>* (sched_term s, S) (sched_term t, T)" "system_ok T t" by blast
  obtain U where "advances T t U u" using kernel_step_advances [OF step.hyps(2) assms(2) T(2)] by blast
  then have "forest_step (sched_term t, T) (sched_term u, U)" "system_ok U u" by (simp_all add: advances_def)
  with T(1) show ?case by (meson rtranclp.rtrancl_into_rtrancl)
qed (use assms(3) in blast)



subsection \<open>A caller waits\<close>

text \<open>The program \<open>p\<close> runs above the processes \<open>ps\<close> that wait for it.\<close>

definition runs_above :: "nat \<Rightarrow> int \<Rightarrow> int list \<Rightarrow> forest \<Rightarrow> bool" where
  "runs_above k p ps S \<longleftrightarrow> k < 3 \<and> ps \<noteq> [] \<and> (\<exists>us. S k = us @ p # ps)"

lemma runs_above_distinct:
  assumes "well_formed S" "runs_above k p ps S" "j < 3"
  shows "p \<in> live S" "p \<notin> set ps" "set ps \<subseteq> live S" "S j \<noteq> [p]" "hd (S j) \<notin> set ps" "hd (S j) = p \<Longrightarrow> j = k \<and> S k = p # ps"
proof -
  obtain us where us: "S k = us @ p # ps" "k < 3" "ps \<noteq> []" using assms(2) by (auto simp: runs_above_def)
  note wf = well_formed_stacks [OF assms(1)]
  have d: "distinct (us @ p # ps)" "set (us @ p # ps) \<subseteq> live S" using wf(3,4) [OF us(2)] us(1) by simp_all
  then show "p \<in> live S" "p \<notin> set ps" "set ps \<subseteq> live S" by auto
  have other: "hd (S j) \<notin> set (S k)" if "j \<noteq> k" using other_heads(2) [OF assms(1,3) us(2) that] .
  show "S j \<noteq> [p]"
  proof
    assume "S j = [p]"
    moreover from this us(1,3) have "j \<noteq> k" by (cases us) auto
    ultimately show False using other us(1) by simp
  qed
  show "hd (S j) \<notin> set ps"
    using other us(1) d(1) by (cases "j = k"; cases us) auto
  show "j = k \<and> S k = p # ps" if "hd (S j) = p"
  proof -
    have "j = k" using that other us(1) by auto
    then show ?thesis using that us(1) d(1) by (cases us) auto
  qed
qed

lemma runs_above_step:
  assumes "advances S s S' s'" "system_ok S s" "runs_above k p ps S" "p \<in> live S'"
  shows "runs_above k p ps S'" "links (pcbs s' p) = links (pcbs s p)" "\<forall>x \<in> set ps. image_of s' x = image_of s x"
proof -
  have s: "well_formed S" "represents S s" "sched_term s < 3" using assms(2) by (simp_all add: system_ok_def display_ok_def)
  note run = represents_running [OF s(2,3)]
  note d = runs_above_distinct [OF s(1) assms(3) s(3)]
  have st: "forest_step (sched_term s, S) (sched_term s', S')"
    and im: "\<And>x. x \<in> live S \<Longrightarrow> x \<noteq> running_pid s \<Longrightarrow> image_of s' x = image_of s x"
    using assms(1) by (simp_all add: advances_def)
  show "links (pcbs s' p) = links (pcbs s p)"
  proof (cases "p = running_pid s")
    case True
    then show ?thesis using assms(1,4) d(4) by (simp add: advances_def)
  next
    case False
    then show ?thesis using im [OF d(1)] by (simp add: image_of_def)
  qed
  show "\<forall>x \<in> set ps. image_of s' x = image_of s x" using im d(3,5) run by auto
  have k: "k < 3" "ps \<noteq> []" using assms(3) by (simp_all add: runs_above_def)
  obtain us where us: "S k = us @ p # ps" using assms(3) by (auto simp: runs_above_def)
  from st show "runs_above k p ps S'"
  proof cases
    case (push x)
    then show ?thesis
      using k us append_Cons [of x us "p # ps"] by (cases "sched_term s = k") (auto simp: runs_above_def)
  next
    case pop
    show ?thesis
    proof (cases "sched_term s = k")
      case True
      have "us \<noteq> []"
      proof
        assume "us = []"
        then have "S' = S(k := ps)" "hd (S k) = p" using pop True us by simp_all
        moreover have "p \<notin> set (S j)" if "j < 3" "j \<noteq> k" for j
          using well_formed_stacks(7) [OF s(1) k(1) that] us by auto
        ultimately have "p \<notin> live S'" using d(2) k(1) by (auto simp: live_iff)
        then show False using assms(4) by simp
      qed
      then show ?thesis using pop True k us by (cases us) (auto simp: runs_above_def)
    next
      case False
      then show ?thesis using pop assms(3) by (auto simp: runs_above_def)
    qed
  qed (use assms(3) in auto)
qed

text \<open>Steps during which the process \<open>p\<close> does not end.\<close>

definition alive_step :: "(asm_entry \<Rightarrow> u32) \<Rightarrow> int \<Rightarrow> 'a kernel_state_scheme \<Rightarrow> 'a kernel_state_scheme \<Rightarrow> bool" where
  "alive_step link p s s' \<longleftrightarrow> kernel_step link s s' \<and> pid_arr s' (p - 1) \<noteq> 0"

lemma runs_above_alive:
  assumes "(alive_step link p)\<^sup>*\<^sup>* s t" "inj link" "system_ok S s" "runs_above k p ps S"
  shows "\<exists>T. system_ok T t \<and> runs_above k p ps T \<and> links (pcbs t p) = links (pcbs s p) \<and>
    (\<forall>x \<in> set ps. image_of t x = image_of s x)"
  using assms(1)
proof (induction rule: rtranclp_induct)
  case (step t u)
  then obtain T where T: "system_ok T t" "runs_above k p ps T" "links (pcbs t p) = links (pcbs s p)"
    "\<forall>x \<in> set ps. image_of t x = image_of s x" by blast
  obtain U where U: "advances T t U u" using kernel_step_advances [OF _ assms(2) T(1)] step.hyps(2) by (auto simp: alive_step_def)
  then have ok: "system_ok U u" by (simp add: advances_def)
  have t: "well_formed T" "sched_term t < 3" using T(1) by (simp_all add: system_ok_def display_ok_def)
  have "p \<in> live T" by (rule runs_above_distinct(1) [OF t(1) T(2) t(2)])
  then have "1 \<le> p" "p \<le> 6" using live_bounds [OF t(1)] by auto
  then have "p \<in> live U"
    using ok represents_pid [of U u p] step.hyps(2) by (simp add: system_ok_def alive_step_def)
  from runs_above_step [OF U T(1,2) this] T(3,4) ok show ?case by auto
qed (use assms(3,4) in blast)


subsection \<open>A preempted process waits for its turn\<close>

definition away_step :: "(asm_entry \<Rightarrow> u32) \<Rightarrow> nat \<Rightarrow> 'a kernel_state_scheme \<Rightarrow> 'a kernel_state_scheme \<Rightarrow> bool" where
  "away_step link k s s' \<longleftrightarrow> kernel_step link s s' \<and> sched_term s' \<noteq> k"

lemma set_aside:
  assumes "(away_step link k)\<^sup>*\<^sup>* s t" "inj link" "system_ok S s" "k < 3" "sched_term s \<noteq> k"
  shows "\<exists>T. system_ok T t \<and> sched_term t \<noteq> k \<and> T k = S k \<and> image_of t (hd (S k)) = image_of s (hd (S k))"
  using assms(1)
proof (induction rule: rtranclp_induct)
  case (step t u)
  then obtain T where T: "system_ok T t" "sched_term t \<noteq> k" "T k = S k" "image_of t (hd (S k)) = image_of s (hd (S k))"
    by blast
  obtain U where U: "advances T t U u" using kernel_step_advances [OF _ assms(2) T(1)] step.hyps(2) by (auto simp: away_step_def)
  have t: "well_formed T" "represents T t" "sched_term t < 3" using T(1) by (simp_all add: system_ok_def display_ok_def)
  have "hd (T k) \<noteq> running_pid t"
    using other_heads(1) [OF t(1) assms(4) t(3)] T(2) represents_running [OF t(2,3)] by auto
  then have "image_of u (hd (T k)) = image_of t (hd (T k))"
    using U well_formed_stacks(5) [OF t(1) assms(4)] by (simp add: advances_def)
  moreover have "forest_step (sched_term t, T) (sched_term u, U)" using U by (simp add: advances_def)
  then have "U k = T k" using T(2) by cases auto
  moreover have "system_ok U u" "sched_term u \<noteq> k" using U step.hyps(2) by (simp_all add: advances_def away_step_def)
  ultimately show ?case using T(3,4) by auto
qed (use assms(3,5) in blast)


section \<open>From power-on to the three shells\<close>

lemma pit_starts_shell:
  assumes "fs_ok s" "sched_term s < 3" "k = next_term s" "status (terminals s k) = 0"
    and "free_pid s = Some i" "pid_arr s (running_pid s - 1) \<noteq> 0"
    and "lookup s (bytes_of ''shell'') = Some d" "program_file s d prog"
  shows "\<exists>s'. pit_handler s = Some (ToUser (entry_point prog) 0x83FFFFC, s') \<and> shell_started k (int i + 1) prog s s'"
proof -
  let ?s = "sti (send_eoi 0 (cli s))"
  have n: "next_term ?s = next_term s" "running_pid ?s = running_pid s" "fs_ok ?s = fs_ok s" "free_pid ?s = free_pid s"
    "lookup ?s w = lookup s w" "program_file ?s d prog = program_file s d prog" for w
    by (simp_all add: next_term_def running_pid_def fs_ok_def free_pid_def lookup_def program_file_def)
  have "\<exists>s'. scheduler ?s = Some (ToUser (entry_point prog) 0x83FFFFC, s') \<and> shell_started k (int i + 1) prog ?s s'"
    by (rule scheduler_starts_shell; (simp only: n)?; fact?) (use assms n in simp_all)
  moreover have "shell_started k p prog ?s s' = shell_started k p prog s s'" for p s'
    by (simp add: shell_started_def running_pid_def Let_def saved_context_def)
  ultimately show ?thesis by (simp add: pit_handler_def Let_def)
qed

text \<open>The terminals up to \<open>n\<close> have their shells, and the newest of them runs.\<close>

definition booting :: "nat \<Rightarrow> 'a kernel_state_scheme \<Rightarrow> bool" where
  "booting n s \<longleftrightarrow> display_ok s \<and> disk_ok s \<and> sched_term s = n \<and> user_frame s = n + 2 \<and> esp0 s = kstack (int n + 1) \<and>
     (\<forall>i < 6. pid_arr s (int i) \<noteq> 0 \<longleftrightarrow> i \<le> n) \<and> (\<forall>j < 3. status (terminals s j) \<noteq> 0 \<longleftrightarrow> j \<le> n) \<and>
     (\<forall>j \<le> n. active_pid (terminals s j) = int j + 1 \<and> base_pid (terminals s j) = int j + 1 \<and>
        pid (pcbs s (int j + 1)) = int j + 1 \<and> parent_pid (pcbs s (int j + 1)) = int j + 1) \<and>
     (\<forall>j < n. tss_esp0 (pcbs s (int j + 1)) = kstack (int j + 1))"

definition three_shells :: forest where
  "three_shells k = [int k + 1]"

lemma booting_forest:
  assumes "booting 2 s"
  shows "system_ok three_shells s"
proof -
  have live: "live three_shells = {1, 2, 3}" by (auto simp: live_def three_shells_def)
  have run: "running_pid s = 3" using assms by (simp add: booting_def running_pid_def)
  have taken: "pid_arr s (p - 1) \<noteq> 0 \<longleftrightarrow> p \<in> {1, 2, 3}" if p: "1 \<le> p" "p \<le> 6" for p
  proof -
    have "\<forall>i < 6. pid_arr s (int i) \<noteq> 0 \<longleftrightarrow> i \<le> 2" using assms by (simp add: booting_def)
    from this [rule_format, of "nat (p - 1)"]
    have "pid_arr s (int (nat (p - 1))) \<noteq> 0 \<longleftrightarrow> nat (p - 1) \<le> 2" using p by simp
    moreover have "nat (p - 1) \<le> 2 \<longleftrightarrow> p = 1 \<or> p = 2 \<or> p = 3" using p by auto
    ultimately show ?thesis using p by simp
  qed
  have b: "active_pid (terminals s j) = int j + 1 \<and> base_pid (terminals s j) = int j + 1 \<and>
      pid (pcbs s (int j + 1)) = int j + 1 \<and> parent_pid (pcbs s (int j + 1)) = int j + 1 \<and> status (terminals s j) \<noteq> 0"
    if "j < 3" for j using that assms by (simp add: booting_def)
  have "represents three_shells s"
    unfolding represents_def run live
  proof (intro conjI allI impI ballI)
    fix j :: nat assume j: "j < 3"
    show "status (terminals s j) \<noteq> 0" "active_pid (terminals s j) = hd (three_shells j)"
      "base_pid (terminals s j) = last (three_shells j)" "chained (pcbs s) (three_shells j)"
      using b [OF j] by (simp_all add: three_shells_def)
    assume "j \<noteq> sched_term s"
    then show "tss_esp0 (pcbs s (hd (three_shells j))) = kstack (hd (three_shells j))"
      using assms j by (simp add: booting_def three_shells_def)
  next
    fix p :: int assume "p \<in> {1, 2, 3}"
    then show "pid (pcbs s p) = p" using b [of 0] b [of 1] b [of 2] by auto
  next
    fix p :: int assume "1 \<le> p \<and> p \<le> 6"
    then show "(pid_arr s (p - 1) \<noteq> 0) = (p \<in> {1, 2, 3})" using taken by simp
  qed (use assms in \<open>simp_all add: booting_def\<close>)
  moreover have "well_formed three_shells"
    by (simp add: well_formed_def live) (auto simp: three_shells_def)
  ultimately show ?thesis using assms by (simp add: system_ok_def booting_def)
qed

lemma booting_tick:
  assumes "booting n s" "n < 2"
  shows "\<exists>f s'. pit_handler s = Some (f, s') \<and> booting (Suc n) s'"
proof -
  have s: "display_ok s" "disk_ok s" "sched_term s = n" "user_frame s = n + 2" "esp0 s = kstack (int n + 1)"
    "\<forall>i < 6. pid_arr s (int i) \<noteq> 0 \<longleftrightarrow> i \<le> n" "\<forall>j < 3. status (terminals s j) \<noteq> 0 \<longleftrightarrow> j \<le> n"
    and old: "\<forall>j \<le> n. active_pid (terminals s j) = int j + 1 \<and> base_pid (terminals s j) = int j + 1 \<and>
        pid (pcbs s (int j + 1)) = int j + 1 \<and> parent_pid (pcbs s (int j + 1)) = int j + 1"
    and tss: "\<forall>j < n. tss_esp0 (pcbs s (int j + 1)) = kstack (int j + 1)"
    using assms(1) by (simp_all add: booting_def)
  have nt: "next_term s = Suc n" using s(3) assms(2) by (simp add: next_term_def)
  have run: "running_pid s = int n + 1" using old s(3) by (simp add: running_pid_def)
  obtain d prog where d: "lookup s (bytes_of ''shell'') = Some d" "program_file s d prog" and fs: "fs_ok s"
    using s(2) by (auto simp: disk_ok_def)
  have "n = 0 \<or> n = 1" using assms(2) by auto
  then have fp: "free_pid s = Some (Suc n)"
    using s(6) [rule_format, of 0] s(6) [rule_format, of 1] s(6) [rule_format, of 2]
    by (auto simp: free_pid_def upt_conv_Cons)
  have "status (terminals s (Suc n)) = 0" "pid_arr s (running_pid s - 1) \<noteq> 0"
    using s(6) [rule_format, of n] s(7) [rule_format, of "Suc n"] assms(2) unfolding run by simp_all
  from pit_starts_shell [OF fs _ nt [symmetric] this(1) fp this(2) d] s(3) assms(2)
  obtain s' where s': "pit_handler s = Some (ToUser (entry_point prog) 0x83FFFFC, s')"
    "shell_started (Suc n) (int n + 2) prog s s'" by (auto simp: add.commute)
  let ?page = "page_of (visible_term s) (Suc n)"
  have sh: "paging_ok s'" "user_frame s' = nat (int n + 2) + 1" "fs s' = fs s" "sched_term s' = Suc n" "visible_term s' = visible_term s"
    "mem s' = store_bytes ((nat (int n + 2) + 1) * 0x400000 + 0x48000) prog (put_cells (?page * 0x1000) (replicate 2000 blank) (mem s))"
    "pid_arr s' = (pid_arr s)(int n + 2 - 1 := 1)"
    "terminals s' = (terminals s)(Suc n := (terminals s (Suc n))\<lparr>status := 1, base_pid := int n + 2, screen_x := 0, screen_y := 0, active_pid := int n + 2\<rparr>)"
    "pid (pcbs s' (int n + 2)) = int n + 2" "parent_pid (pcbs s' (int n + 2)) = int n + 2" "esp0 s' = kstack (int n + 2)"
    "pcbs s' (int n + 1) = saved_context s (pcbs s (int n + 1))"
    "\<And>q. q \<noteq> int n + 2 \<Longrightarrow> q \<noteq> int n + 1 \<Longrightarrow> pcbs s' q = pcbs s q"
    using s'(2) by (simp_all add: shell_started_def run kstack_def Let_def)
  have "agree_kernel (mem s) (put_cells (?page * 0x1000) (replicate 2000 blank) (mem s))"
    using assms(2) by (intro agree_put_cells) (simp_all add: page_of_def)
  moreover have "agree_kernel (put_cells (?page * 0x1000) (replicate 2000 blank) (mem s)) (mem s')"
    unfolding sh(6) by (rule agree_user_store) simp
  ultimately have "agree_kernel (mem s) (mem s')" by (simp add: agree_kernel_def)
  then have "disk_ok s'" using disk_ok_agree [OF s(2) _ sh(3,1)] by simp
  moreover have "display_ok s'"
    using s(1) sh(1,4,5,8) assms(2) by (auto simp: display_ok_def backed_up_def cursor_ok_def)
  moreover have "\<forall>i < 6. pid_arr s' (int i) \<noteq> 0 \<longleftrightarrow> i \<le> Suc n" using s(6) sh(7) by auto
  moreover have "\<forall>j < 3. status (terminals s' j) \<noteq> 0 \<longleftrightarrow> j \<le> Suc n" using s(7) sh(8) by auto
  moreover have "\<forall>j \<le> Suc n. active_pid (terminals s' j) = int j + 1 \<and> base_pid (terminals s' j) = int j + 1 \<and>
        pid (pcbs s' (int j + 1)) = int j + 1 \<and> parent_pid (pcbs s' (int j + 1)) = int j + 1"
  proof (intro allI impI)
    fix j assume "j \<le> Suc n"
    then consider "j = Suc n" | "j = n" | "j < n" by linarith
    then show "active_pid (terminals s' j) = int j + 1 \<and> base_pid (terminals s' j) = int j + 1 \<and>
        pid (pcbs s' (int j + 1)) = int j + 1 \<and> parent_pid (pcbs s' (int j + 1)) = int j + 1"
      using old sh(8-10,12,13) by cases (simp_all add: saved_context_def add.commute)
  qed
  moreover have "\<forall>j < Suc n. tss_esp0 (pcbs s' (int j + 1)) = kstack (int j + 1)"
    using tss sh(12,13) s(5) by (auto simp: less_Suc_eq saved_context_def)
  ultimately have "booting (Suc n) s'" using sh(2,4,11) by (simp add: booting_def add.commute)
  with s'(1) show ?thesis by blast
qed

lemma booting_start:
  assumes "tables_placed s" "i = paging_init (s\<lparr>fs := filesys_init (mem s) filesys_start\<rparr>)" "disk_ok i" "pid_arr s = (\<lambda>_. 0)"
  shows "\<exists>f s'. boot dev filesys_start s = Some (f, s') \<and> booting 0 s'"
proof -
  obtain d prog where d: "lookup i (bytes_of ''shell'') = Some d" "program_file i d prog" "fs_ok i"
    using assms(3) by (auto simp: disk_ok_def)
  obtain b s' where b: "booted filesys_start s b" "boot dev filesys_start s = Some (ToUser (entry_point prog) 0x83FFFFC, s')"
    and st: "process_started 1 (\<lambda>_. NUL) prog b s'" and p: "parent_pid (pcbs s' 1) = 1" "user_frame s' = 2"
    using boot_shell [OF assms(1,2) d(3,1,2) assms(4)] by blast
  have bs: "mem b = put_cells 0xB8000 (replicate 2000 blank) (mem s)" "paging_of b = paging_of (paging_init s)"
    "fs b = filesys_init (mem s) filesys_start" "pid_arr b = (\<lambda>_. 0)" "sched_term b = 0" "visible_term b = 0"
    "active_pid (terminals b 0) = 1" "base_pid (terminals b 0) = 1" "status (terminals b 0) = 1"
    "status (terminals b 1) = 0" "status (terminals b 2) = 0"
    "backed_up b" "\<forall>k < 3. screen_x (terminals b k) = 0 \<and> screen_y (terminals b k) = 0"
    using b(1) assms(4) by (auto simp: booted_def unused_terminal_def)
  have ok: "paging_ok b" using paging_init_ok [OF assms(1)] paging_cong(1) [OF bs(2)] by simp
  have "mem i = mem s" "fs i = fs b" by (simp_all add: assms(2) paging_init_simps bs(3))
  then have db: "disk_ok b"
    using ok by (intro disk_ok_agree [OF assms(3)]) (simp_all add: bs(1) agree_put_cells)
  have "display_ok b" using ok bs by (simp add: display_ok_def cursor_ok_def)
  then have display: "display_ok s'" by (rule process_started_display [OF st])
  have "agree_kernel (mem b) (mem s')" by (rule process_started_bytes [OF st]) simp
  then have "disk_ok s'"
    using st by (intro disk_ok_agree [OF db]) (simp_all add: process_started_def)
  moreover have t: "terminals s' = (terminals b)(0 := (terminals b 0)\<lparr>active_pid := 1\<rparr>)" "sched_term s' = 0"
    "pid_arr s' = (\<lambda>_. 0)(0 := 1)" "esp0 s' = kstack 1" "pid (pcbs s' 1) = 1"
    using st bs(4,5) by (simp_all add: process_started_def kstack_def)
  then have "status (terminals s' j) \<noteq> 0 \<longleftrightarrow> j = 0" if "j < 3" for j
    using three [OF that] bs(9-11) by (elim disjE) simp_all
  ultimately have "booting 0 s'"
    using display t bs(7,8) p unfolding booting_def by simp
  with b(2) show ?thesis by blast
qed

lemma boot_forest:
  assumes "tables_placed s" "i = paging_init (s\<lparr>fs := filesys_init (mem s) filesys_start\<rparr>)" "disk_ok i" "pid_arr s = (\<lambda>_. 0)"
  shows "\<exists>f1 s1 f2 s2 f3 s3. boot dev filesys_start s = Some (f1, s1) \<and> pit_handler s1 = Some (f2, s2)
    \<and> pit_handler s2 = Some (f3, s3) \<and> system_ok three_shells s3 \<and> sched_term s3 = 2"
proof -
  obtain f1 s1 where 1: "boot dev filesys_start s = Some (f1, s1)" "booting 0 s1" using booting_start [OF assms] by blast
  obtain f2 s2 where 2: "pit_handler s1 = Some (f2, s2)" "booting (Suc 0) s2" using booting_tick [OF 1(2)] by auto
  obtain f3 s3 where 3: "pit_handler s2 = Some (f3, s3)" "booting 2 s3"
    using booting_tick [OF 2(2)] by (auto simp: numeral_2_eq_2)
  then have "sched_term s3 = 2" by (simp add: booting_def)
  then show ?thesis using 1(1) 2(1) 3 booting_forest by blast
qed

text \<open>
  C5. The kernel comes up: from the boot loader's hand-over with a file system image whose programs
  fit, the initialisation and the first two timer ticks start the three shells, as the processes 1, 2
  and 3, and leave the state from which the process forest is kept.
\<close>

theorem boot_reaches_three_shells:
  assumes "tables_placed s" "i = paging_init (s\<lparr>fs := filesys_init (mem s) filesys_start\<rparr>)" "disk_ok i" "pid_arr s = (\<lambda>_. 0)"
  shows "\<exists>f1 s1 f2 s2 f3 s3. boot dev filesys_start s = Some (f1, s1) \<and> pit_handler s1 = Some (f2, s2)
    \<and> pit_handler s2 = Some (f3, s3) \<and> system_ok three_shells s3 \<and> sched_term s3 = 2"
  by (rule boot_forest [OF assms])

subsection \<open>The example\<close>

lemma demo_disk: "disk_ok demo_state"
proof -
  have "inode_placed demo_mem demo_fs (inode_num d) \<and> 0x48000 + length (file_content demo_mem demo_fs (inode_num d)) \<le> 0x400000"
    if d: "lookup demo_state w = Some d" for w d
  proof -
    have "[0..num_direntries demo_fs - 1] = [0, 1, 2]" by (simp add: demo_fs_eq upto.simps)
    with d have "d \<in> {load_dentry demo_mem 0x500040, load_dentry demo_mem 0x500080, load_dentry demo_mem 0x5000C0}"
      by (auto simp: lookup_def demo_state_simps demo_direntry split: option.splits if_splits)
    then have "inode_num d = 0 \<or> inode_num d = 1" by (auto simp: load_dentry_def demo_words)
    then show ?thesis
      using demo_inode_placed demo_inodes by (auto simp: file_content_def)
  qed
  moreover have "\<exists>d prog. lookup demo_state (bytes_of ''shell'') = Some d \<and> program_file demo_state d prog"
    using demo_lookup_shell demo_program by blast
  ultimately show ?thesis using demo_fs_ok by (simp add: disk_ok_def demo_state_simps)
qed

lemma demo_image:
  "tables_placed demo_state" "disk_ok (paging_init (demo_state\<lparr>fs := filesys_init (mem demo_state) 0x500000\<rparr>))"
proof -
  show t: "tables_placed demo_state" using demo_state_simps(1) by (simp add: paging_ok_def)
  have "tables_placed (demo_state\<lparr>fs := filesys_init (mem demo_state) 0x500000\<rparr>)" using t by (simp add: tables_placed_def)
  then show "disk_ok (paging_init (demo_state\<lparr>fs := filesys_init (mem demo_state) 0x500000\<rparr>))"
    using paging_init_ok demo_state_simps(2,3)
    by (intro disk_ok_agree [OF demo_disk]) (simp_all add: paging_init_simps demo_fs_def agree_kernel_refl)
qed

theorem boot_reaches_three_shells_witness:
  "\<exists>f1 s1 f2 s2 f3 s3. boot demo_device 0x500000 demo_state = Some (f1, s1) \<and> pit_handler s1 = Some (f2, s2)
    \<and> pit_handler s2 = Some (f3, s3) \<and> system_ok three_shells s3 \<and> sched_term s3 = 2"
  by (rule boot_reaches_three_shells [OF demo_image(1) refl demo_image(2) demo_state_simps(7)])

lemma demo_system: "\<exists>s :: kernel_state. system_ok three_shells s \<and> sched_term s = 2 \<and> running_pid s = 3"
proof -
  obtain s :: kernel_state where s: "system_ok three_shells s" "sched_term s = 2"
    using boot_forest [OF demo_image(1) refl demo_image(2) demo_state_simps(7)] by blast
  then have "represents three_shells s" by (simp add: system_ok_def)
  then show ?thesis using s represents_running [of three_shells s] by (auto simp: three_shells_def)
qed

text \<open>A tick through its gate is a step.\<close>

lemma tick_step:
  assumes "system_ok S s" "inj link"
  shows "\<exists>s'. kernel_step link s s' \<and> system_ok S s' \<and> sched_term s' = next_term s"
proof -
  have k: "kept s (cli s)" using assms(1) by (intro kept_cli_sti(1) kept_refl) (simp add: system_ok_def)
  obtain t where t: "pit_handler (cli s) = Some (Ret 0, t)" "system_ok S t" "sched_term t = next_term (cli s)"
    using tick_ok [OF system_ok_kept(1) [OF assms(1) k]] by blast
  have i: "(0x20, pit_handlerASM) \<in> set idt_entries" by (simp add: idt_entries_def)
  have "interrupt link (init_idt link idt0) env 0x20 s = Some (Ret 0, t\<lparr>iflag := iflag s\<rparr>)" for env idt0
    unfolding interrupt_installed [OF assms(2) i] using t(1) by (simp add: run_entry_def excp_link_def)
  then have "kernel_step link s (t\<lparr>iflag := iflag s\<rparr>)" by (intro kernel_step.trap [OF i]) auto
  moreover have "system_ok S (t\<lparr>iflag := iflag s\<rparr>)"
    using t(2) by (intro system_ok_kept(1) [OF t(2)] kept_iflag) (simp add: system_ok_def)
  ultimately show ?thesis using t(3) by (auto simp: next_term_def)
qed





end
