(* ===== verification/UserLib.thy ===== *)
theory UserLib
  imports CLib
begin

text \<open>
  The support library of the user programs (syscalls/ece391support.c): string length, copy, comparison
  and reversal and the conversion of numbers.  It repeats routines of the kernel's library with other
  types: characters are unsigned here, so the comparisons order strings by unsigned bytes, and
  ece391_strcpy may be given two places in the same array.

  As in \<open>CLib\<close>, a pointer is the function from indices to the bytes from there on, and a loop that
  ends only at a NUL gives an option.
\<close>

section \<open>The code\<close>

partial_function (option) ece391_strlen_from :: "carray \<Rightarrow> nat \<Rightarrow> nat option" where
  "ece391_strlen_from s len = (if s len \<noteq> NUL then ece391_strlen_from s (Suc len) else Some len)"

definition ece391_strlen :: "carray \<Rightarrow> nat option" where
  "ece391_strlen s = ece391_strlen_from s 0"

text \<open>Both pointers as indices into the same bytes; every byte is stored before it is tested.\<close>

partial_function (option) ece391_strcpy :: "carray \<Rightarrow> nat \<Rightarrow> nat \<Rightarrow> carray option" where
  "ece391_strcpy m dst src =
     (let m' = m(dst := m src) in if m' dst \<noteq> NUL then ece391_strcpy m' (Suc dst) (Suc src) else Some m')"

partial_function (option) ece391_strcmp_from :: "carray \<Rightarrow> carray \<Rightarrow> nat \<Rightarrow> int option" where
  "ece391_strcmp_from s1 s2 i =
     (if s1 i = s2 i then if s1 i = NUL then Some 0 else ece391_strcmp_from s1 s2 (Suc i)
      else Some (uint (s1 i) - uint (s2 i)))"

definition ece391_strcmp :: "carray \<Rightarrow> carray \<Rightarrow> int option" where
  "ece391_strcmp s1 s2 = ece391_strcmp_from s1 s2 0"

text \<open>The count is decremented before it is tested; it is not 0 when the loop begins.\<close>

function ece391_strncmp_from :: "carray \<Rightarrow> carray \<Rightarrow> nat \<Rightarrow> nat \<Rightarrow> int" where
  "ece391_strncmp_from s1 s2 i n =
     (if s1 i = s2 i then if s1 i = NUL \<or> n - 1 = 0 then 0 else ece391_strncmp_from s1 s2 (Suc i) (n - 1)
      else uint (s1 i) - uint (s2 i))"
  by pat_completeness auto
termination
  by (relation "measure (\<lambda>(s1, s2, i, n). n)") auto

declare ece391_strncmp_from.simps [simp del]

definition ece391_strncmp :: "carray \<Rightarrow> carray \<Rightarrow> nat \<Rightarrow> int" where
  "ece391_strncmp s1 s2 n = (if n = 0 then 0 else ece391_strncmp_from s1 s2 0 n)"

function ece391_strrev_loop :: "carray \<Rightarrow> int \<Rightarrow> int \<Rightarrow> carray" where
  "ece391_strrev_loop s b e =
     (if b < e then ece391_strrev_loop (s(nat e := s (nat b), nat b := s (nat e))) (b + 1) (e - 1) else s)"
  by pat_completeness auto
termination
  by (relation "measure (\<lambda>(s, b, e). nat (e - b))") auto

declare ece391_strrev_loop.simps [simp del]

definition ece391_strrev :: "carray \<Rightarrow> carray option" where
  "ece391_strrev s = do {
     n \<leftarrow> ece391_strlen s;
     let e = int n - 1 in if e \<le> 0 then Some s else Some (ece391_strrev_loop s 0 e)
   }"

definition ece391_lookup :: "byte list" where
  "ece391_lookup = bytes_of ''0123456789ABCDEFGHIJKLMNOPQRSTUVWXYZ'' @ [NUL]"

text \<open>\<open>newbuf\<close> as an index into the buffer.\<close>

partial_function (option) ece391_itoa_digits :: "carray \<Rightarrow> nat \<Rightarrow> nat \<Rightarrow> nat \<Rightarrow> (carray \<times> nat) option" where
  "ece391_itoa_digits buf newbuf newval radix =
     (if newval > 0 then
        let i = newval mod radix in ece391_itoa_digits (buf(newbuf := ece391_lookup ! i)) (Suc newbuf) (newval div radix) radix
      else Some (buf, newbuf))"

text \<open>A radix of 0 is a divide error.\<close>

definition ece391_itoa :: "u32 \<Rightarrow> carray \<Rightarrow> int \<Rightarrow> carray option" where
  "ece391_itoa value buf radix =
     (if value = 0 then Some (buf(0 := of_char CHR ''0'', 1 := NUL))
      else let r = unat (word_of_int radix :: u32) in
      if r = 0 then None
      else do {
        (buf, newbuf) \<leftarrow> ece391_itoa_digits buf 0 (unat value) r;
        ece391_strrev (buf(newbuf := NUL))
      })"

section \<open>Agreement with the kernel's library\<close>

text \<open>The loops are the same, so one returns what the other does and neither returns otherwise.\<close>

lemma option_eqI: "(\<And>x. a = Some x \<Longrightarrow> b = Some x) \<Longrightarrow> (\<And>x. b = Some x \<Longrightarrow> a = Some x) \<Longrightarrow> a = b"
  by (cases a; cases b) auto

lemma ece391_strlen_from_eq: "ece391_strlen_from = strlen_from"
proof ((rule ext)+, rule option_eqI)
  fix s i n
  show "strlen_from s i = Some n" if "ece391_strlen_from s i = Some n"
    by (rule ece391_strlen_from.raw_induct [where P = "\<lambda>s i n. strlen_from s i = Some n", OF _ that])
      (subst strlen_from.simps, auto split: if_splits)
  show "ece391_strlen_from s i = Some n" if "strlen_from s i = Some n"
    by (rule strlen_from.raw_induct [where P = "\<lambda>s i n. ece391_strlen_from s i = Some n", OF _ that])
      (subst ece391_strlen_from.simps, auto split: if_splits)
qed

lemma ece391_strlen_eq [simp]: "ece391_strlen = strlen"
  by (simp add: fun_eq_iff ece391_strlen_def strlen_def ece391_strlen_from_eq)

lemma ece391_strrev_loop_eq: "ece391_strrev_loop s b e = strrev_loop s b e"
proof (induction s b e rule: strrev_loop.induct)
  case (1 s b e)
  show ?case
    by (subst ece391_strrev_loop.simps, subst strrev_loop.simps) (rule if_cong [OF refl "1.IH" refl])
qed

lemma ece391_strrev_eq [simp]: "ece391_strrev = strrev"
proof
  fix s
  show "ece391_strrev s = strrev s"
    by (cases "strlen s") (auto simp: ece391_strrev_def strrev_def ece391_strrev_loop_eq strrev_loop.simps)
qed

lemma ece391_itoa_digits_eq: "ece391_itoa_digits = itoa_digits"
proof ((rule ext)+, rule option_eqI)
  fix b k v r and x :: "carray \<times> nat"
  have l: "ece391_lookup = itoa_lookup" by (simp add: ece391_lookup_def itoa_lookup_def)
  show "itoa_digits b k v r = Some x" if "ece391_itoa_digits b k v r = Some x"
    by (rule ece391_itoa_digits.raw_induct [where P = "\<lambda>b k v r x. itoa_digits b k v r = Some x", OF _ that])
      (subst itoa_digits.simps, auto simp: l Let_def split: if_splits)
  show "ece391_itoa_digits b k v r = Some x" if "itoa_digits b k v r = Some x"
    by (rule itoa_digits.raw_induct [where P = "\<lambda>b k v r x. ece391_itoa_digits b k v r = Some x", OF _ that])
      (subst ece391_itoa_digits.simps, auto simp: l Let_def split: if_splits)
qed

lemma ece391_itoa_eq [simp]: "ece391_itoa = itoa"
  unfolding fun_eq_iff ece391_itoa_def itoa_def ece391_itoa_digits_eq ece391_strrev_eq by simp



section \<open>Comparison\<close>

text \<open>The order of strings that the sign of the result gives: lexicographic, by unsigned bytes.\<close>

fun bytes_less :: "byte list \<Rightarrow> byte list \<Rightarrow> bool" where
  "bytes_less [] ys = (ys \<noteq> [])"
| "bytes_less (x # xs) [] = False"
| "bytes_less (x # xs) (y # ys) = (x < y \<or> x = y \<and> bytes_less xs ys)"

lemma cstr_Nil: "cstr s = Some [] \<longleftrightarrow> s 0 = NUL"
  by (simp add: cstr_eq_Some strlen_eq_Some)

text \<open>The string from index \<open>i\<close> on, and one step along it.\<close>

definition cstr_at :: "carray \<Rightarrow> nat \<Rightarrow> byte list \<Rightarrow> bool" where
  "cstr_at s i bs \<longleftrightarrow> (\<forall>j < length bs. s (i + j) = bs ! j \<and> bs ! j \<noteq> NUL) \<and> s (i + length bs) = NUL"

lemma cstr_at_0: "cstr_at s 0 bs \<longleftrightarrow> cstr s = Some bs"
  by (auto simp: cstr_at_def cstr_eq_Some strlen_eq_Some)

lemma cstr_at_Nil [simp]: "cstr_at s i [] \<longleftrightarrow> s i = NUL"
  by (simp add: cstr_at_def)

lemma cstr_at_Cons [simp]: "cstr_at s i (b # bs) \<longleftrightarrow> s i = b \<and> b \<noteq> NUL \<and> cstr_at s (Suc i) bs"
  by (auto simp: cstr_at_def All_less_Suc2)

lemma byte_positive: "0 < uint b \<longleftrightarrow> b \<noteq> 0" for b :: byte
  by (metis less_le uint_0_iff unsigned_greater_eq)

lemma ece391_strcmp_from_sign:
  assumes "cstr_at s1 i a" "cstr_at s2 i b"
  shows "\<exists>r. ece391_strcmp_from s1 s2 i = Some r \<and> (r = 0 \<longleftrightarrow> a = b) \<and> (r < 0 \<longleftrightarrow> bytes_less a b)"
  using assms
proof (induction a b arbitrary: i rule: bytes_less.induct)
  case (1 ys)
  then show ?case by (cases ys) (auto simp: ece391_strcmp_from.simps [of s1] byte_positive uint_0_iff)
next
  case (2 x xs)
  then show ?case by (auto simp: ece391_strcmp_from.simps [of s1] byte_positive uint_0_iff)
next
  case (3 x xs y ys)
  show ?case
  proof (cases "x = y")
    case True
    with 3 show ?thesis by (auto simp: ece391_strcmp_from.simps [of s1])
  next
    case False
    then have "uint x \<noteq> uint y" by (simp add: word_uint_eq_iff)
    with 3 False show ?thesis by (auto simp: ece391_strcmp_from.simps [of s1] word_less_def)
  qed
qed

text \<open>
  On two strings ece391_strcmp returns; the result is 0 exactly for equal strings and negative exactly
  when the first comes before the second in the lexicographic order of unsigned bytes.
\<close>

theorem strcmp_orders_strings:
  assumes "cstr s1 = Some a" "cstr s2 = Some b"
  shows "\<exists>r. ece391_strcmp s1 s2 = Some r \<and> (r = 0 \<longleftrightarrow> a = b) \<and> (r < 0 \<longleftrightarrow> bytes_less a b)"
  unfolding ece391_strcmp_def using assms by (intro ece391_strcmp_from_sign) (simp_all add: cstr_at_0)

theorem strcmp_orders_strings_witness:
  "\<exists>r. ece391_strcmp (arr_of (bytes_of ''exit'')) (arr_of (bytes_of ''execute'')) = Some r \<and> 0 < r"
proof -
  let ?a = "bytes_of ''exit''" and ?b = "bytes_of ''execute''"
  have "cstr (arr_of ?a) = Some ?a" "cstr (arr_of ?b) = Some ?b"
    by (intro cstr_arr_of, simp add: bytes_of_def)+
  from strcmp_orders_strings [OF this] show ?thesis by (auto simp: bytes_of_def)
qed


text \<open>The comparison of at most \<open>n\<close> bytes, from index \<open>i\<close> on.\<close>

lemma ece391_strncmp_from_eq_0:
  assumes "0 < n"
  shows "ece391_strncmp_from s1 s2 i n = 0 \<longleftrightarrow> str_eq_upto (\<lambda>j. s1 (i + j)) (\<lambda>j. s2 (i + j)) n"
  using assms
proof (induction s1 s2 i n rule: ece391_strncmp_from.induct)
  case (1 s1 s2 i n)
  then obtain k where k: "n = Suc k" by (cases n) auto
  show ?case
  proof (cases "s1 i = s2 i \<and> s1 i \<noteq> NUL \<and> k \<noteq> 0")
    case True
    with 1 k show ?thesis
      by (subst ece391_strncmp_from.simps) (auto simp: str_eq_upto_def All_less_Suc2 Ex_less_Suc2)
  next
    case False
    have "str_eq_upto (\<lambda>j. s1 (i + j)) (\<lambda>j. s2 (i + j)) n \<longleftrightarrow> s1 i = s2 i"
    proof
      assume "str_eq_upto (\<lambda>j. s1 (i + j)) (\<lambda>j. s2 (i + j)) n"
      then show "s1 i = s2 i" using "1.prems" by (auto simp: str_eq_upto_def dest: spec [of _ 0])
    next
      assume "s1 i = s2 i"
      with False k show "str_eq_upto (\<lambda>j. s1 (i + j)) (\<lambda>j. s2 (i + j)) n"
        unfolding str_eq_upto_def by (metis add.right_neutral gr0I less_Suc0)
    qed
    with False k show ?thesis
      by (subst ece391_strncmp_from.simps) (auto simp: word_uint_eq_iff)
  qed
qed

text \<open>With unsigned characters or with signed ones, the same strings are equal.\<close>

lemma ece391_strncmp_eq_0: "ece391_strncmp s1 s2 n = 0 \<longleftrightarrow> strncmp s1 s2 n = 0"
  using ece391_strncmp_from_eq_0 [of n s1 s2 0]
  by (auto simp: ece391_strncmp_def strncmp_eq_0_iff str_eq_upto_def)

text \<open>
  The programs' library agrees with the kernel's: the length of a string, the reversal and the
  conversion of numbers are the same functions, returning for the same arguments, and the comparisons of
  at most \<open>n\<close> bytes find the same strings equal although their signs may differ.
\<close>

theorem user_library_agrees:
  "ece391_strlen s = strlen s \<and> ece391_strrev s = strrev s \<and> ece391_itoa v s r = itoa v s r
    \<and> (ece391_strncmp s t n = 0 \<longleftrightarrow> strncmp s t n = 0)"
  using ece391_strncmp_eq_0 by simp

section \<open>Copying\<close>

text \<open>Copying a string down within an array, source and destination possibly overlapping.\<close>

lemma ece391_strcpy_down:
  assumes "cstr_at m src bs" "dst \<le> src"
  shows "ece391_strcpy m dst src = Some (\<lambda>i. if dst \<le> i \<and> i \<le> dst + length bs then (bs @ [NUL]) ! (i - dst) else m i)"
  using assms
proof (induction bs arbitrary: m dst src)
  case Nil
  then show ?case by (subst ece391_strcpy.simps) (auto simp: fun_eq_iff)
next
  case (Cons b bs)
  let ?m = "m(dst := b)"
  have "cstr_at ?m (Suc src) bs" using Cons.prems by (auto simp: cstr_at_def All_less_Suc2)
  from Cons.IH [OF this, of "Suc dst"] Cons.prems
  have "ece391_strcpy ?m (Suc dst) (Suc src) =
      Some (\<lambda>i. if Suc dst \<le> i \<and> i \<le> Suc dst + length bs then (bs @ [NUL]) ! (i - Suc dst) else ?m i)" by blast
  also have "(\<lambda>i. if Suc dst \<le> i \<and> i \<le> Suc dst + length bs then (bs @ [NUL]) ! (i - Suc dst) else ?m i) =
      (\<lambda>i. if dst \<le> i \<and> i \<le> dst + length (b # bs) then ((b # bs) @ [NUL]) ! (i - dst) else m i)"
    by (auto simp: fun_eq_iff nth_Cons' Suc_le_eq)
  finally have r: "ece391_strcpy ?m (Suc dst) (Suc src) =
      Some (\<lambda>i. if dst \<le> i \<and> i \<le> dst + length (b # bs) then ((b # bs) @ [NUL]) ! (i - dst) else m i)" .
  have b: "m src = b" "b \<noteq> NUL" using Cons.prems by simp_all
  show ?case by (subst ece391_strcpy.simps) (simp only: Let_def b fun_upd_same if_True not_False_eq_True r)
qed

end
