(* ===== verification/UserPrograms.thy ===== *)
theory UserPrograms
  imports UserLib
begin

text \<open>
  The user programs (syscalls/ece391cat.c, ece391ls.c, ece391grep.c, ece391hello.c, ece391testprint.c,
  ece391counter.c, ece391shell.c, ece391pingpong.c), written against the system calls of ece391syscall.h.

  The system calls are a record of functions on the world \<open>'w\<close> that a program runs in: whatever the
  kernel keeps.  A buffer that a call fills goes in as it is and comes back as the call leaves it.  A
  program is a function of the calls, of the bytes its local arrays happen to hold at the start, and of
  the world; its result is main's return value.  None is a program that does not return, or whose call
  does not.
\<close>

section \<open>System calls\<close>

record 'w user_calls =
  ece391_execute :: "carray \<Rightarrow> 'w \<Rightarrow> (int \<times> 'w) option"
  ece391_read :: "int \<Rightarrow> carray \<Rightarrow> int \<Rightarrow> 'w \<Rightarrow> (int \<times> carray \<times> 'w) option"
  ece391_write :: "int \<Rightarrow> carray \<Rightarrow> int \<Rightarrow> 'w \<Rightarrow> (int \<times> 'w) option"
  ece391_open :: "carray \<Rightarrow> 'w \<Rightarrow> (int \<times> 'w) option"
  ece391_close :: "int \<Rightarrow> 'w \<Rightarrow> (int \<times> 'w) option"
  ece391_getargs :: "carray \<Rightarrow> int \<Rightarrow> 'w \<Rightarrow> (int \<times> carray \<times> 'w) option"
  ece391_vidmap :: "nat \<Rightarrow> 'w \<Rightarrow> (int \<times> 'w) option"
  call_sys :: "int \<Rightarrow> 'w \<Rightarrow> (int \<times> 'w) option"

definition ece391_fdputs :: "'w user_calls \<Rightarrow> int \<Rightarrow> carray \<Rightarrow> 'w \<Rightarrow> 'w option" where
  "ece391_fdputs c fd s w = do {
     n \<leftarrow> ece391_strlen s;
     (_, w) \<leftarrow> ece391_write c fd s (int n) w;
     Some w
   }"

text \<open>A string literal, and one that ends with a line feed.\<close>

abbreviation lit :: "string \<Rightarrow> carray" where "lit s \<equiv> arr_of (bytes_of s)"
abbreviation line_lit :: "string \<Rightarrow> carray" where "line_lit s \<equiv> arr_of (bytes_of s @ [0x0A])"

abbreviation NEWLINE :: byte where "NEWLINE \<equiv> 0x0A"

text \<open>A counting loop whose body may not return.\<close>

fun for_each :: "('i \<Rightarrow> 's \<Rightarrow> 's option) \<Rightarrow> 'i list \<Rightarrow> 's \<Rightarrow> 's option" where
  "for_each f [] s = Some s"
| "for_each f (i # is) s = do { s \<leftarrow> f i s; for_each f is s }"

section \<open>cat\<close>

partial_function (option) cat_loop :: "'w user_calls \<Rightarrow> int \<Rightarrow> carray \<Rightarrow> 'w \<Rightarrow> (int \<times> 'w) option" where
  "cat_loop c fd buf w = do {
     (cnt, buf, w) \<leftarrow> ece391_read c fd buf 1024 w;
     if cnt = 0 then Some (0, w)
     else if cnt = -1 then do { w \<leftarrow> ece391_fdputs c 1 (line_lit ''file read failed'') w; Some (3, w) }
     else do {
       (r, w) \<leftarrow> ece391_write c 1 buf cnt w;
       if r = -1 then Some (3, w) else cat_loop c fd buf w
     }
   }"

definition cat_main :: "'w user_calls \<Rightarrow> carray \<Rightarrow> 'w \<Rightarrow> (int \<times> 'w) option" where
  "cat_main c buf w = do {
     (r, buf, w) \<leftarrow> ece391_getargs c buf 1024 w;
     if r \<noteq> 0 then do { w \<leftarrow> ece391_fdputs c 1 (line_lit ''could not read arguments'') w; Some (3, w) }
     else do {
       (fd, w) \<leftarrow> ece391_open c buf w;
       if fd = -1 then do { w \<leftarrow> ece391_fdputs c 1 (line_lit ''file not found'') w; Some (2, w) }
       else cat_loop c fd buf w
     }
   }"

section \<open>ls\<close>

partial_function (option) ls_loop :: "'w user_calls \<Rightarrow> int \<Rightarrow> carray \<Rightarrow> 'w \<Rightarrow> (int \<times> 'w) option" where
  "ls_loop c fd buf w = do {
     (cnt, buf, w) \<leftarrow> ece391_read c fd buf 32 w;
     if cnt = 0 then Some (0, w)
     else if cnt = -1 then do { w \<leftarrow> ece391_fdputs c 1 (line_lit ''directory entry read failed'') w; Some (3, w) }
     else do {
       let buf = buf(nat cnt := NEWLINE);
       (r, w) \<leftarrow> ece391_write c 1 buf (cnt + 1) w;
       if r = -1 then Some (3, w) else ls_loop c fd buf w
     }
   }"

definition ls_main :: "'w user_calls \<Rightarrow> carray \<Rightarrow> 'w \<Rightarrow> (int \<times> 'w) option" where
  "ls_main c buf w = do {
     (fd, w) \<leftarrow> ece391_open c (lit ''.'') w;
     if fd = -1 then do { w \<leftarrow> ece391_fdputs c 1 (line_lit ''directory open failed'') w; Some (2, w) }
     else ls_loop c fd buf w
   }"

section \<open>hello and testprint\<close>

definition hello_main :: "'w user_calls \<Rightarrow> carray \<Rightarrow> 'w \<Rightarrow> (int \<times> 'w) option" where
  "hello_main c buf w = do {
     w \<leftarrow> ece391_fdputs c 1 (lit ''Hi, what's your name? '') w;
     (cnt, buf, w) \<leftarrow> ece391_read c 0 buf 1023 w;
     if cnt = -1 then do { w \<leftarrow> ece391_fdputs c 1 (line_lit ''Can't read name from keyboard.'') w; Some (3, w) }
     else do {
       let buf = buf(nat cnt := NUL);
       w \<leftarrow> ece391_fdputs c 1 (lit ''Hello, '') w;
       w \<leftarrow> ece391_fdputs c 1 buf w;
       Some (0, w)
     }
   }"

definition testprint_main :: "'w user_calls \<Rightarrow> 'w \<Rightarrow> (int \<times> 'w) option" where
  "testprint_main c w = do {
     w \<leftarrow> ece391_fdputs c 1 (line_lit ''Hello, if this ran, the program was correct. Yay!'') w;
     Some (0, w)
   }"

section \<open>counter\<close>

text \<open>One number: the new contents of the buffer and the world after it is printed.\<close>

definition counter_print :: "'w user_calls \<Rightarrow> nat \<Rightarrow> carray \<times> 'w \<Rightarrow> (carray \<times> 'w) option" where
  "counter_print c i bw = do {
     let (buf, w) = bw;
     buf \<leftarrow> ece391_itoa (word_of_nat i + 1) buf 10;
     w \<leftarrow> ece391_fdputs c 1 buf w;
     w \<leftarrow> ece391_fdputs c 1 (line_lit '''') w;
     Some (buf, w)
   }"

definition counter_main :: "'w user_calls \<Rightarrow> carray \<Rightarrow> 'w \<Rightarrow> (int \<times> 'w) option" where
  "counter_main c buf w = do {
     w \<leftarrow> ece391_fdputs c 1 (line_lit ''Enter the Test Number: (0): 100, (1): 10000, (2): 100000'') w;
     (cnt, buf, w) \<leftarrow> ece391_read c 0 buf 1023 w;
     if cnt = -1 then do { w \<leftarrow> ece391_fdputs c 1 (line_lit ''Can't read the number from keyboard.'') w; Some (3, w) }
     else do {
       let buf = buf(nat cnt := NUL);
       n \<leftarrow> ece391_strlen buf;
       if n > 2 \<or> n = 2 \<and> (buf 0 < of_char CHR ''0'' \<or> buf 0 > of_char CHR ''2'')
       then do { w \<leftarrow> ece391_fdputs c 1 (line_lit ''Wrong Choice!'') w; Some (0, w) }
       else do {
         let max = (if buf 0 = of_char CHR ''0'' then 100 else if buf 0 = of_char CHR ''1'' then 10000
           else if buf 0 = of_char CHR ''2'' then 100000 else 0);
         (buf, w) \<leftarrow> for_each (counter_print c) [0..<max] (buf, w);
         Some (0, w)
       }
     }
   }"

section \<open>The shell\<close>

text \<open>One round of the loop: \<open>Inl\<close> is a return from main, \<open>Inr\<close> the next round.\<close>

definition shell_round :: "'w user_calls \<Rightarrow> carray \<Rightarrow> 'w \<Rightarrow> (int \<times> 'w + carray \<times> 'w) option" where
  "shell_round c buf w = do {
     w \<leftarrow> ece391_fdputs c 1 (lit ''391OS> '') w;
     (cnt, buf, w) \<leftarrow> ece391_read c 0 buf 1023 w;
     if cnt = -1 then do { w \<leftarrow> ece391_fdputs c 1 (line_lit ''read from keyboard failed'') w; Some (Inl (3, w)) }
     else do {
       let cnt = (if cnt > 0 \<and> buf (nat (cnt - 1)) = NEWLINE then cnt - 1 else cnt);
       let buf = buf(nat cnt := NUL);
       r \<leftarrow> ece391_strcmp buf (lit ''exit'');
       if r = 0 then Some (Inl (0, w))
       else if buf 0 = NUL then Some (Inr (buf, w))
       else do {
         (rval, w) \<leftarrow> ece391_execute c buf w;
         w \<leftarrow> (if rval = -1 then ece391_fdputs c 1 (line_lit ''no such command'') w
           else if rval = 256 then ece391_fdputs c 1 (line_lit ''program terminated by exception'') w
           else if rval \<noteq> 0 then ece391_fdputs c 1 (line_lit ''program terminated abnormally'') w
           else Some w);
         Some (Inr (buf, w))
       }
     }
   }"

partial_function (option) shell_loop :: "'w user_calls \<Rightarrow> carray \<Rightarrow> 'w \<Rightarrow> (int \<times> 'w) option" where
  "shell_loop c buf w = do {
     r \<leftarrow> shell_round c buf w;
     case r of Inl result \<Rightarrow> Some result | Inr (buf, w) \<Rightarrow> shell_loop c buf w
   }"

definition shell_main :: "'w user_calls \<Rightarrow> carray \<Rightarrow> 'w \<Rightarrow> (int \<times> 'w) option" where
  "shell_main c buf w = do {
     w \<leftarrow> ece391_fdputs c 1 (line_lit ''Starting 391 Shell'') w;
     shell_loop c buf w
   }"

section \<open>pingpong\<close>

definition pingpong_buf :: carray where
  "pingpong_buf = (\<lambda>i. if i < 81 then of_char CHR '' '' else NUL)(80 := NUL, 79 := NEWLINE, 78 := of_char CHR ''|'', 1 := of_char CHR ''|'')"

text \<open>One picture: the inner part cleared, the character at \<open>j\<close>, a line of output, a tick of the clock.\<close>

definition pingpong_frame :: "'w user_calls \<Rightarrow> int \<Rightarrow> byte \<Rightarrow> nat \<Rightarrow> carray \<times> 'w \<Rightarrow> (carray \<times> 'w) option" where
  "pingpong_frame c rtc_fd curchar j bw = do {
     let (buf, w) = bw;
     let buf = (\<lambda>i. if 2 \<le> i \<and> i < 78 then of_char CHR '' '' else buf i)(j := curchar);
     w \<leftarrow> ece391_fdputs c 1 buf w;
     (_, _, w) \<leftarrow> ece391_read c rtc_fd (\<lambda>_. NUL) 4 w;
     Some (buf, w)
   }"

partial_function (option) pingpong_loop :: "'w user_calls \<Rightarrow> int \<Rightarrow> byte \<Rightarrow> carray \<times> 'w \<Rightarrow> (int \<times> 'w) option" where
  "pingpong_loop c rtc_fd curchar bw = do {
     bw \<leftarrow> for_each (pingpong_frame c rtc_fd curchar) [2..<78] bw;
     bw \<leftarrow> for_each (pingpong_frame c rtc_fd curchar) (rev [2..<78]) bw;
     pingpong_loop c rtc_fd (if curchar = of_char CHR ''Z'' then of_char CHR ''A'' else curchar + 1) bw
   }"

definition pingpong_main :: "'w user_calls \<Rightarrow> 'w \<Rightarrow> (int \<times> 'w) option" where
  "pingpong_main c w = do {
     (rtc_fd, w) \<leftarrow> ece391_open c (lit ''rtc'') w;
     (_, w) \<leftarrow> ece391_write c rtc_fd (arr_of (bytes32 32)) 4 w;
     pingpong_loop c rtc_fd (of_char CHR ''A'') (pingpong_buf, w)
   }"

end
