(* ===== verification/SysErr.thy ===== *)
theory SysErr
  imports UserPrograms
begin

text \<open>
  syscalls/ece391syserr.c: the program that calls the system calls with bad arguments and prints what
  passed.  Every test returns 0, or 2 when some call did not behave as expected.
\<close>

definition NEG_FD :: int where "NEG_FD = -1073741823"
definition BIG_FD :: int where "BIG_FD = 1073741823"
definition BIG_NUM :: int where "BIG_NUM = 1073741823"
definition NEG_NUM :: int where "NEG_NUM = -1073741823"

text \<open>A call that returned \<open>r\<close> and should have returned -1, and the last lines of a test.\<close>

definition expect_error :: "'w user_calls \<Rightarrow> string \<Rightarrow> int \<Rightarrow> int \<Rightarrow> 'w \<Rightarrow> (int \<times> 'w) option" where
  "expect_error c msg r fail w =
     (if -1 \<noteq> r then do { w \<leftarrow> ece391_fdputs c 1 (line_lit msg) w; Some (2, w) } else Some (fail, w))"

definition verdict :: "'w user_calls \<Rightarrow> string \<Rightarrow> int \<Rightarrow> 'w \<Rightarrow> (int \<times> 'w) option" where
  "verdict c test fail w = do {
     w \<leftarrow> ece391_fdputs c 1 (if fail \<noteq> 0 then line_lit (test @ '': FAIL'') else line_lit (test @ '': PASS'')) w;
     Some (fail, w)
   }"

definition err_neg_fd :: "'w user_calls \<Rightarrow> carray \<Rightarrow> 'w \<Rightarrow> (int \<times> 'w) option" where
  "err_neg_fd c buf w = do {
     (r, buf, w) \<leftarrow> ece391_read c NEG_FD buf 31 w;
     (fail, w) \<leftarrow> expect_error c ''read fail'' r 0 w;
     (r, w) \<leftarrow> ece391_write c NEG_FD buf 31 w;
     (fail, w) \<leftarrow> expect_error c ''write fail'' r fail w;
     (r, w) \<leftarrow> ece391_close c NEG_FD w;
     (fail, w) \<leftarrow> expect_error c ''close fail'' r fail w;
     verdict c ''err_neg_fd'' fail w
   }"

definition err_big_fd :: "'w user_calls \<Rightarrow> carray \<Rightarrow> 'w \<Rightarrow> (int \<times> 'w) option" where
  "err_big_fd c buf w = do {
     (r, buf, w) \<leftarrow> ece391_read c BIG_FD buf 31 w;
     (fail, w) \<leftarrow> expect_error c ''read fail'' r 0 w;
     (r, w) \<leftarrow> ece391_write c BIG_FD buf 31 w;
     (fail, w) \<leftarrow> expect_error c ''write fail'' r fail w;
     (r, w) \<leftarrow> ece391_close c BIG_FD w;
     (fail, w) \<leftarrow> expect_error c ''close fail'' r fail w;
     verdict c ''err_big_fd'' fail w
   }"

definition open_lots_step :: "'w user_calls \<Rightarrow> nat \<Rightarrow> int \<times> 'w \<Rightarrow> (int \<times> 'w) option" where
  "open_lots_step c i cw = do {
     let (cnt, w) = cw;
     (r, w) \<leftarrow> ece391_open c (lit ''.'') w;
     Some (if -1 = r then (cnt + 1, w) else (cnt, w))
   }"

definition close_step :: "'w user_calls \<Rightarrow> nat \<Rightarrow> 'w \<Rightarrow> 'w option" where
  "close_step c i w = do { (_, w) \<leftarrow> ece391_close c (int i) w; Some w }"

definition err_open_lots :: "'w user_calls \<Rightarrow> 'w \<Rightarrow> (int \<times> 'w) option" where
  "err_open_lots c w = do {
     (cnt, w) \<leftarrow> for_each (open_lots_step c) [0..<7] (0, w);
     w \<leftarrow> for_each (close_step c) [2..<8] w;
     if cnt = 1 then do { w \<leftarrow> ece391_fdputs c 1 (line_lit ''err_open_lots: PASS'') w; Some (0, w) }
     else do { w \<leftarrow> ece391_fdputs c 1 (line_lit ''err_open_lots: FAIL'') w; Some (2, w) }
   }"

definition err_open :: "'w user_calls \<Rightarrow> 'w \<Rightarrow> (int \<times> 'w) option" where
  "err_open c w = do {
     (r, w) \<leftarrow> ece391_open c (lit ''helloo'') w;
     (fail, w) \<leftarrow> expect_error c '''helloo' fail'' r 0 w;
     (r, w) \<leftarrow> ece391_open c (lit ''shel'') w;
     (fail, w) \<leftarrow> expect_error c '''shel' fail'' r fail w;
     (r, w) \<leftarrow> ece391_open c (lit '''') w;
     (fail, w) \<leftarrow> expect_error c ''empty string fail'' r fail w;
     verdict c ''err_open'' fail w
   }"

text \<open>The bodies of the three loops of err_unopened; the buffer goes from one read to the next.\<close>

definition unopened_close :: "'w user_calls \<Rightarrow> nat \<Rightarrow> int \<times> 'w \<Rightarrow> (int \<times> 'w) option" where
  "unopened_close c i fw = do {
     let (fail, w) = fw;
     (r, w) \<leftarrow> ece391_close c (int i) w;
     expect_error c ''close unopened or invalid fd fail'' r fail w
   }"

definition unopened_read :: "'w user_calls \<Rightarrow> nat \<Rightarrow> int \<times> carray \<times> 'w \<Rightarrow> (int \<times> carray \<times> 'w) option" where
  "unopened_read c i fbw = do {
     let (fail, buf, w) = fbw;
     (r, buf, w) \<leftarrow> ece391_read c (int i) buf 31 w;
     (fail, w) \<leftarrow> expect_error c ''read from unopened fd fail'' r fail w;
     Some (fail, buf, w)
   }"

definition unopened_write :: "'w user_calls \<Rightarrow> carray \<Rightarrow> nat \<Rightarrow> int \<times> 'w \<Rightarrow> (int \<times> 'w) option" where
  "unopened_write c buf i fw = do {
     let (fail, w) = fw;
     (r, w) \<leftarrow> ece391_write c (int i) buf 31 w;
     expect_error c ''write to unopened fd fail'' r fail w
   }"

definition err_unopened :: "'w user_calls \<Rightarrow> carray \<Rightarrow> 'w \<Rightarrow> (int \<times> 'w) option" where
  "err_unopened c buf w = do {
     (fail, w) \<leftarrow> for_each (unopened_close c) [0..<8] (0, w);
     (fail, buf, w) \<leftarrow> for_each (unopened_read c) [2..<8] (fail, buf, w);
     (fail, w) \<leftarrow> for_each (unopened_write c buf) [2..<8] (fail, w);
     verdict c ''err_unopened'' fail w
   }"

definition err_vidmap :: "'w user_calls \<Rightarrow> 'w \<Rightarrow> (int \<times> 'w) option" where
  "err_vidmap c w = do {
     (r, w) \<leftarrow> ece391_vidmap c 0x0 w;
     (fail, w) \<leftarrow> expect_error c ''Null pointer fail'' r 0 w;
     (r, w) \<leftarrow> ece391_vidmap c 0x400000 w;
     (fail, w) \<leftarrow> expect_error c ''Kernel pointer fail fail'' r fail w;
     verdict c ''err_vidmap'' fail w
   }"

definition err_stdin_out :: "'w user_calls \<Rightarrow> carray \<Rightarrow> 'w \<Rightarrow> (int \<times> 'w) option" where
  "err_stdin_out c buf w = do {
     (r, w) \<leftarrow> ece391_write c 0 buf 31 w;
     (fail, w) \<leftarrow> expect_error c ''write to stdin fail'' r 0 w;
     (r, buf, w) \<leftarrow> ece391_read c 1 buf 31 w;
     (fail, w) \<leftarrow> expect_error c ''read from stdout fail'' r fail w;
     verdict c ''err_stdin_out'' fail w
   }"

definition err_syscall_num :: "'w user_calls \<Rightarrow> 'w \<Rightarrow> (int \<times> 'w) option" where
  "err_syscall_num c w = do {
     (r, w) \<leftarrow> call_sys c BIG_NUM w;
     (fail, w) \<leftarrow> expect_error c ''syscall 0 fail'' r 0 w;
     (r, w) \<leftarrow> call_sys c NEG_NUM w;
     (fail, w) \<leftarrow> expect_error c ''big num syscall fail'' r fail w;
     (r, w) \<leftarrow> call_sys c 0 w;
     (fail, w) \<leftarrow> expect_error c ''neg num syscall fail'' r fail w;
     verdict c ''err_syscall_num'' fail w
   }"

text \<open>Choice 0 runs all tests; \<open>junk\<close> is what the tests' buffers hold on the stack.\<close>

definition all_tests :: "'w user_calls \<Rightarrow> carray \<Rightarrow> 'w \<Rightarrow> (int \<times> 'w) option" where
  "all_tests c junk w = do {
     (r, w) \<leftarrow> err_neg_fd c junk w; let fail = r;
     (r, w) \<leftarrow> err_big_fd c junk w; let fail = fail + r;
     (r, w) \<leftarrow> err_open_lots c w; let fail = fail + r;
     (r, w) \<leftarrow> err_open c w; let fail = fail + r;
     (r, w) \<leftarrow> err_unopened c junk w; let fail = fail + r;
     (r, w) \<leftarrow> err_vidmap c w; let fail = fail + r;
     (r, w) \<leftarrow> err_stdin_out c junk w; let fail = fail + r;
     (r, w) \<leftarrow> err_syscall_num c w; let fail = fail + r;
     w \<leftarrow> (if fail \<noteq> 0 then ece391_fdputs c 1 (arr_of ([0x0A] @ bytes_of ''Overall Tests: FAIL'' @ [0x0A])) w
       else ece391_fdputs c 1 (arr_of ([0x0A] @ bytes_of ''Overall Tests: PASS'' @ [0x0A])) w);
     Some (fail, w)
   }"

definition syserr_main :: "'w user_calls \<Rightarrow> carray \<Rightarrow> carray \<Rightarrow> 'w \<Rightarrow> (int \<times> 'w) option" where
  "syserr_main c junk buf w = do {
     w \<leftarrow> ece391_fdputs c 1 (lit ''Choose from tests 1-8. 0 to run all: '') w;
     (cnt, buf, w) \<leftarrow> ece391_read c 0 buf 127 w;
     if cnt = -1 then do { w \<leftarrow> ece391_fdputs c 1 (line_lit ''Can't read test #'') w; Some (2, w) }
     else do {
       let select = uint (buf 0) - uint (of_char CHR ''0'' :: byte);
       if select = 0 then all_tests c junk w
       else if select = 1 then err_neg_fd c junk w
       else if select = 2 then err_big_fd c junk w
       else if select = 3 then err_open_lots c w
       else if select = 4 then err_open c w
       else if select = 5 then err_unopened c junk w
       else if select = 6 then err_vidmap c w
       else if select = 7 then err_stdin_out c junk w
       else if select = 8 then err_syscall_num c w
       else do {
         w \<leftarrow> ece391_fdputs c 1 (lit ''Invalid test number. Choose from tests 1-8 or 0'') w;
         Some (0, w)
       }
     }
   }"

end
