(* ===== verification/UserSpec.thy ===== *)
theory UserSpec
  imports SysErr
begin

text \<open>
  What a program may rely on: the system calls specified as operations on what a program can see
  (\<open>user_view\<close>: its screen, the disk by names, its descriptors, its arguments), stated as the locale
  \<open>user_system\<close>, and what the programs do to that view, proved from the contract alone.

  Correctness is total: \<open>returns m Q\<close> says that \<open>m\<close> has a result and that it satisfies \<open>Q\<close>.
\<close>

section \<open>Total correctness\<close>

definition returns :: "'r option \<Rightarrow> ('r \<Rightarrow> bool) \<Rightarrow> bool" where
  "returns m Q \<longleftrightarrow> (case m of None \<Rightarrow> False | Some x \<Rightarrow> Q x)"

lemma returns_Some [simp]: "returns (Some x) Q \<longleftrightarrow> Q x"
  by (simp add: returns_def)

lemma returns_bind [simp]: "returns (m \<bind> f) Q \<longleftrightarrow> returns m (\<lambda>x. returns (f x) Q)"
  by (cases m) (simp_all add: returns_def)

lemma returns_if [simp]: "returns (if b then m else m') Q \<longleftrightarrow> (if b then returns m Q else returns m' Q)"
  by simp

lemma returns_prod [simp]: "returns (case x of (a, b) \<Rightarrow> f a b) Q \<longleftrightarrow> (case x of (a, b) \<Rightarrow> returns (f a b) Q)"
  by (cases x) simp

lemma returns_Let [simp]: "returns (Let a f) Q \<longleftrightarrow> returns (f a) Q"
  by simp

lemma returns_mono: "returns m P \<Longrightarrow> (\<And>x. P x \<Longrightarrow> Q x) \<Longrightarrow> returns m Q"
  by (cases m) (simp_all add: returns_def)

lemma returns_iff: "returns m Q \<longleftrightarrow> (\<exists>x. m = Some x \<and> Q x)"
  by (cases m) (simp_all add: returns_def)

text \<open>A counting loop, with an invariant indexed by the iterations done.\<close>

lemma returns_for_each:
  assumes "\<And>k s. k < length is \<Longrightarrow> I k s \<Longrightarrow> returns (f (is ! k) s) (I (Suc k))" "I 0 s"
  shows "returns (for_each f is s) (I (length is))"
  using assms
proof (induction "is" arbitrary: s I)
  case Nil
  then show ?case by simp
next
  case (Cons i "is")
  have "returns (f i s) (I (Suc 0))" using Cons.prems(1) [of 0 s] Cons.prems(2) by simp
  moreover have "returns (for_each f is t) (I (length (i # is)))" if "I (Suc 0) t" for t
    using Cons.IH [of "\<lambda>k. I (Suc k)" t] Cons.prems(1) [of "Suc _"] that by simp
  ultimately show ?case by (auto elim: returns_mono)
qed

section \<open>What a program sees\<close>

text \<open>
  A descriptor: closed, the keyboard, the screen, the clock, a file with the bytes not read yet, a
  directory with the names not read yet.
\<close>

datatype desc = Closed | Keys | Display | Clock | File "byte list" | Dir "byte list list"

record 'v user_view =
  shown :: 'v
  disk :: "byte list \<Rightarrow> desc option"
  descs :: "nat \<Rightarrow> desc"
  arguments :: "byte list"

text \<open>The calls compare a descriptor with the number of open ones, which is not a bound on them.\<close>

definition in_use :: "'v user_view \<Rightarrow> int" where
  "in_use v = int (card {i. i < 8 \<and> descs v i \<noteq> Closed})"

definition next_desc :: "'v user_view \<Rightarrow> nat" where
  "next_desc v = hd (filter (\<lambda>i. descs v i = Closed) [2..<8] @ [8])"

definition desc_of :: "'v user_view \<Rightarrow> int \<Rightarrow> desc" where
  "desc_of v fd = (if 0 \<le> fd \<and> fd < in_use v then descs v (nat fd) else Closed)"

definition set_desc :: "int \<Rightarrow> desc \<Rightarrow> 'v user_view \<Rightarrow> 'v user_view" where
  "set_desc fd d v = v\<lparr>descs := (descs v)(nat fd := d)\<rparr>"

definition spec_open :: "byte list \<Rightarrow> 'v user_view \<Rightarrow> int \<times> 'v user_view" where
  "spec_open name v =
     (if in_use v \<ge> 8 then (-1, v)
      else case disk v name of None \<Rightarrow> (-1, v)
      | Some d \<Rightarrow> (int (next_desc v), set_desc (int (next_desc v)) d v))"

definition spec_close :: "int \<Rightarrow> 'v user_view \<Rightarrow> int \<times> 'v user_view" where
  "spec_close fd v = (if 2 \<le> fd \<and> desc_of v fd \<noteq> Closed then (0, set_desc fd Closed v) else (-1, v))"

definition showing :: "(byte \<Rightarrow> 'v \<Rightarrow> 'v) \<Rightarrow> byte list \<Rightarrow> 'v user_view \<Rightarrow> 'v user_view" where
  "showing emit bs v = v\<lparr>shown := fold emit bs (shown v)\<rparr>"

text \<open>The buffer after bytes have been put at its start.\<close>

definition over :: "carray \<Rightarrow> byte list \<Rightarrow> carray" where
  "over buf bs = (\<lambda>i. if i < length bs then bs ! i else buf i)"

text \<open>The values of C's int.\<close>

definition is_int32 :: "int \<Rightarrow> bool" where
  "is_int32 n \<longleftrightarrow> -0x80000000 \<le> n \<and> n < 0x80000000"

text \<open>
  The contract.  \<open>ok\<close> holds of the worlds in which it is kept; buffers have at most 1025 bytes.  A read
  of a directory fills 32 bytes and gives the length of the name; names are not empty.
\<close>

locale user_system =
  fixes c :: "'w user_calls" and ok :: "'w \<Rightarrow> bool" and obs :: "'w \<Rightarrow> 'v user_view" and emit :: "byte \<Rightarrow> 'v \<Rightarrow> 'v"
  assumes write_display: "ok w \<Longrightarrow> desc_of (obs w) fd = Display \<Longrightarrow> 0 \<le> n \<Longrightarrow> n \<le> 1025 \<Longrightarrow>
      returns (ece391_write c fd buf n w) (\<lambda>(r, w'). r = n \<and> ok w' \<and> obs w' = showing emit (map buf [0..<nat n]) (obs w))"
    and write_refused: "ok w \<Longrightarrow> is_int32 fd \<Longrightarrow> desc_of (obs w) fd \<notin> {Display, Clock} \<Longrightarrow> 0 \<le> n \<Longrightarrow> n \<le> 1025 \<Longrightarrow>
      returns (ece391_write c fd buf n w) (\<lambda>(r, w'). r = -1 \<and> ok w' \<and> obs w' = obs w)"
    and read_file: "ok w \<Longrightarrow> desc_of (obs w) fd = File bs \<Longrightarrow> 0 \<le> n \<Longrightarrow> n \<le> 1025 \<Longrightarrow> d = take (nat n) bs \<Longrightarrow>
      returns (ece391_read c fd buf n w)
        (\<lambda>(r, b, w'). r = int (length d) \<and> b = over buf d \<and> ok w' \<and> obs w' = set_desc fd (File (drop (nat n) bs)) (obs w))"
    and read_name: "ok w \<Longrightarrow> desc_of (obs w) fd = Dir (nm # nms) \<Longrightarrow>
      returns (ece391_read c fd buf 32 w) (\<lambda>(r, b, w'). r = int (length nm) \<and> 1 \<le> length nm \<and> length nm \<le> 32 \<and> NUL \<notin> set nm \<and>
        b = over buf (nm @ replicate (32 - length nm) NUL) \<and> ok w' \<and> obs w' = set_desc fd (Dir nms) (obs w))"
    and read_names_end: "ok w \<Longrightarrow> desc_of (obs w) fd = Dir [] \<Longrightarrow>
      returns (ece391_read c fd buf 32 w) (\<lambda>(r, b, w'). r = 0 \<and> ok w' \<and> obs w' = obs w)"
    and read_refused: "ok w \<Longrightarrow> is_int32 fd \<Longrightarrow> desc_of (obs w) fd \<in> {Display, Closed} \<Longrightarrow> 0 \<le> n \<Longrightarrow> n \<le> 1025 \<Longrightarrow>
      returns (ece391_read c fd buf n w) (\<lambda>(r, b, w'). r = -1 \<and> b = buf \<and> ok w' \<and> obs w' = obs w)"
    and open_name: "ok w \<Longrightarrow> cstr name = Some nm \<Longrightarrow> length nm \<le> 1024 \<Longrightarrow>
      returns (ece391_open c name w) (\<lambda>(r, w'). ok w' \<and> (r, obs w') = spec_open nm (obs w))"
    and close_desc: "ok w \<Longrightarrow> is_int32 fd \<Longrightarrow>
      returns (ece391_close c fd w) (\<lambda>(r, w'). ok w' \<and> (r, obs w') = spec_close fd (obs w))"
    and get_arguments: "ok w \<Longrightarrow> arguments (obs w) \<noteq> [] \<Longrightarrow> length (arguments (obs w)) < 32 \<Longrightarrow>
      returns (ece391_getargs c buf 1024 w) (\<lambda>(r, b, w'). r = 0 \<and> cstr b = Some (arguments (obs w)) \<and> ok w' \<and> obs w' = obs w)"
    and no_arguments: "ok w \<Longrightarrow> arguments (obs w) = [] \<Longrightarrow>
      returns (ece391_getargs c buf 1024 w) (\<lambda>(r, b, w'). r = -1 \<and> ok w' \<and> obs w' = obs w)"
    and vidmap_refused: "ok w \<Longrightarrow> a < 0x8000000 \<Longrightarrow>
      returns (ece391_vidmap c a w) (\<lambda>(r, w'). r = -1 \<and> ok w' \<and> obs w' = obs w)"
    and no_such_call: "ok w \<Longrightarrow> n < 1 \<or> 10 < n \<Longrightarrow> is_int32 n \<Longrightarrow>
      returns (call_sys c n w) (\<lambda>(r, w'). r = -1 \<and> ok w' \<and> obs w' = obs w)"

section \<open>Views\<close>

lemma showing_simps [simp]:
  "descs (showing e bs v) = descs v" "disk (showing e bs v) = disk v" "arguments (showing e bs v) = arguments v"
  "shown (showing e bs v) = fold e bs (shown v)" "in_use (showing e bs v) = in_use v"
  "desc_of (showing e bs v) = desc_of v" "next_desc (showing e bs v) = next_desc v"
  "showing e bs (showing e as v) = showing e (as @ bs) v" "showing e [] v = v"
  by (simp_all add: showing_def in_use_def desc_of_def next_desc_def fun_eq_iff)

lemma set_desc_simps [simp]:
  "shown (set_desc fd d v) = shown v" "disk (set_desc fd d v) = disk v" "arguments (set_desc fd d v) = arguments v"
  "descs (set_desc fd d v) = (descs v)(nat fd := d)" "set_desc fd d (set_desc fd d' v) = set_desc fd d v"
  "showing e bs (set_desc fd d v) = set_desc fd d (showing e bs v)"
  by (simp_all add: set_desc_def showing_def)

lemma in_use_le: "in_use v \<le> 8"
proof -
  have "card {i. i < 8 \<and> descs v i \<noteq> Closed} \<le> card {..<8 :: nat}" by (rule card_mono) auto
  then show ?thesis by (simp add: in_use_def)
qed

lemma desc_of_open: "desc_of v fd \<noteq> Closed \<Longrightarrow> 0 \<le> fd \<and> fd < in_use v \<and> fd < 8 \<and> descs v (nat fd) = desc_of v fd"
  using in_use_le [of v] by (auto simp: desc_of_def split: if_splits)

lemma in_use_set_desc:
  assumes "desc_of v fd \<noteq> Closed" "d \<noteq> Closed"
  shows "in_use (set_desc fd d v) = in_use v"
proof -
  have "descs v (nat fd) \<noteq> Closed" using desc_of_open [OF assms(1)] assms(1) by simp
  then have "{i. i < 8 \<and> descs (set_desc fd d v) i \<noteq> Closed} = {i. i < 8 \<and> descs v i \<noteq> Closed}"
    using assms(2) by auto
  then show ?thesis by (simp only: in_use_def)
qed

lemma desc_of_set_desc [simp]:
  assumes "desc_of v fd \<noteq> Closed" "d \<noteq> Closed"
  shows "desc_of (set_desc fd d v) fd' = (if fd' = fd then d else desc_of v fd')"
proof -
  have "0 \<le> fd" "fd < in_use v" using desc_of_open [OF assms(1)] by simp_all
  then show ?thesis
    unfolding desc_of_def in_use_set_desc [OF assms] set_desc_simps by (auto simp: nat_eq_iff)
qed

lemma set_desc_same: "descs v (nat fd) = d \<Longrightarrow> set_desc fd d v = v"
  by (simp add: set_desc_def fun_upd_idem)

lemma over_map [simp]: "map (over buf bs) [0..<length bs] = bs"
  by (rule nth_equalityI) (simp_all add: over_def)

text \<open>A process whose standard descriptors are open.\<close>

definition std :: "'v user_view \<Rightarrow> bool" where
  "std v \<longleftrightarrow> descs v 0 = Keys \<and> descs v 1 = Display"

lemma card_below_first:
  assumes "{..<m} \<subseteq> A" "finite A"
  shows "int m \<le> int (card A)"
  using card_mono [OF assms(2,1)] by simp

lemma std_in_use:
  assumes "std v"
  shows "2 \<le> in_use v"
proof -
  have "{..<2} \<subseteq> {i. i < 8 \<and> descs v i \<noteq> Closed}" using assms by (auto simp: std_def less_2_cases_iff)
  from card_below_first [OF this] show ?thesis by (simp add: in_use_def)
qed

lemma std_display: "std v \<Longrightarrow> desc_of v 1 = Display"
  using std_in_use [of v] by (simp add: std_def desc_of_def)

lemma std_updates [simp]: "std (showing e bs v) = std v" "2 \<le> fd \<Longrightarrow> std (set_desc fd d v) = std v"
  by (auto simp: std_def)

lemma next_desc_free:
  assumes "std v" "in_use v < 8"
  shows "2 \<le> next_desc v" "next_desc v < 8" "descs v (next_desc v) = Closed" "int (next_desc v) \<le> in_use v"
proof -
  have "\<exists>i. 2 \<le> i \<and> i < 8 \<and> descs v i = Closed"
  proof (rule ccontr)
    assume "\<not> ?thesis"
    then have "{i. i < 8 \<and> descs v i \<noteq> Closed} = {..<8}"
      using assms(1) by (auto simp: std_def not_le less_2_cases_iff)
    with assms(2) show False by (simp add: in_use_def)
  qed
  then have "filter (\<lambda>i. descs v i = Closed) [2..<8] \<noteq> []"
    by (auto simp: filter_empty_conv simp del: upt_conv_Cons upt_rec_numeral)
  then obtain i xs where f: "filter (\<lambda>i. descs v i = Closed) [2..<8] = i # xs" by (meson list.exhaust)
  then have n: "next_desc v = i" by (simp add: next_desc_def del: upt_conv_Cons)
  from f obtain us vs where u: "[2..<8] = us @ i # vs" "\<forall>j \<in> set us. descs v j \<noteq> Closed" "descs v i = Closed"
    unfolding filter_eq_Cons_iff by auto
  have l: "length us < 6" using arg_cong [OF u(1), of length] by simp
  have "i = [2..<8] ! length us" unfolding u(1) by simp
  then have i: "i = 2 + length us" using l by (simp del: upt_conv_Cons upt_rec_numeral)
  have "us = take (length us) [2..<8]" unfolding u(1) by simp
  then have us: "us = [2..<i]" using l i by (simp add: take_upt del: upt_conv_Cons upt_rec_numeral)
  show "2 \<le> next_desc v" "next_desc v < 8" "descs v (next_desc v) = Closed" using n i l u(3) by simp_all
  have "descs v j \<noteq> Closed" if "j < i" for j
  proof (cases "j < 2")
    case True
    with assms(1) show ?thesis by (auto simp: std_def less_2_cases_iff)
  next
    case False
    with that us u(2) show ?thesis by simp
  qed
  then have "{..<i} \<subseteq> {i. i < 8 \<and> descs v i \<noteq> Closed}" using i l by auto
  then show "int (next_desc v) \<le> in_use v"
    unfolding n in_use_def by (rule card_below_first) simp
qed

lemma opened_desc:
  assumes "std v" "in_use v < 8" "d \<noteq> Closed" "fd = int (next_desc v)"
  shows "in_use (set_desc fd d v) = in_use v + 1" "desc_of (set_desc fd d v) fd = d"
    "fd' \<noteq> fd \<Longrightarrow> desc_of v fd' \<noteq> Closed \<Longrightarrow> desc_of (set_desc fd d v) fd' = desc_of v fd'"
proof -
  note n = next_desc_free [OF assms(1,2)]
  have "{i. i < 8 \<and> descs (set_desc fd d v) i \<noteq> Closed} = insert (next_desc v) {i. i < 8 \<and> descs v i \<noteq> Closed}"
    using n(2) assms(3,4) by auto
  then show u: "in_use (set_desc fd d v) = in_use v + 1" using n(3) by (simp add: in_use_def)
  show "desc_of (set_desc fd d v) fd = d" using u n(4) unfolding assms(4) by (simp add: desc_of_def)
  show "desc_of (set_desc fd d v) fd' = desc_of v fd'" if "fd' \<noteq> fd" "desc_of v fd' \<noteq> Closed"
    using desc_of_open [OF that(2)] that(1) u unfolding assms(4) by (auto simp: desc_of_def)
qed

section \<open>What the programs do\<close>

context user_system
begin

lemma fdputs_shows:
  assumes "ok w" "desc_of (obs w) 1 = Display" "cstr s = Some bs" "length bs \<le> 1025"
  shows "returns (ece391_fdputs c 1 s w) (\<lambda>w'. ok w' \<and> obs w' = showing emit bs (obs w))"
proof -
  have s: "ece391_strlen s = Some (length bs)" "map s [0..<length bs] = bs"
    using assms(3) by (auto simp: cstr_eq_Some intro: nth_equalityI)
  show ?thesis
    unfolding ece391_fdputs_def s(1)
    using write_display [OF assms(1,2), of "int (length bs)" s] assms(4) s(2)
    by (auto elim!: returns_mono)
qed

lemma fdputs_lit:
  "ok w \<Longrightarrow> desc_of (obs w) 1 = Display \<Longrightarrow> NUL \<notin> set bs \<Longrightarrow> length bs \<le> 1025 \<Longrightarrow>
    returns (ece391_fdputs c 1 (arr_of bs) w) (\<lambda>w'. ok w' \<and> obs w' = showing emit bs (obs w))"
  by (rule fdputs_shows) (simp_all add: cstr_arr_of)

lemma cat_loop_shows:
  assumes "ok w" "desc_of (obs w) 1 = Display" "desc_of (obs w) fd = File bs"
  shows "returns (cat_loop c fd buf w) (\<lambda>(r, w'). r = 0 \<and> ok w' \<and> obs w' = set_desc fd (File []) (showing emit bs (obs w)))"
  using assms
proof (induction "length bs" arbitrary: bs buf w rule: less_induct)
  case less
  let ?d = "take 1024 bs" and ?v = "obs w"
  have fd: "desc_of ?v fd \<noteq> Closed" "fd \<noteq> 1" using less.prems by auto
  have l: "length ?d \<le> 1025" by simp
  have read: "returns (ece391_read c fd buf 1024 w)
      (\<lambda>(r, b, w'). r = int (length ?d) \<and> b = over buf ?d \<and> ok w' \<and> obs w' = set_desc fd (File (drop 1024 bs)) ?v)"
    using read_file [OF less.prems(1,3), of 1024 ?d buf] by simp
  show ?case
  proof (cases "bs = []")
    case True
    then show ?thesis
      using read by (subst cat_loop.simps) (auto elim!: returns_mono)
  next
    case False
    have step: "returns (ece391_write c 1 (over buf ?d) (int (length ?d)) w') (\<lambda>(r, u). r \<noteq> -1 \<and>
        returns (cat_loop c fd (over buf ?d) u) (\<lambda>(r, w'). r = 0 \<and> ok w' \<and> obs w' = set_desc fd (File []) (showing emit bs ?v)))"
      if w': "ok w'" "obs w' = set_desc fd (File (drop 1024 bs)) ?v" for w'
    proof -
      have d1: "desc_of (obs w') 1 = Display" "desc_of (obs w') fd = File (drop 1024 bs)"
        using w'(2) fd less.prems(2) by simp_all
      have rest: "returns (cat_loop c fd (over buf ?d) u) (\<lambda>(r, w'). r = 0 \<and> ok w' \<and> obs w' = set_desc fd (File []) (showing emit bs ?v))"
        if u: "ok u" "obs u = showing emit ?d (obs w')" for u
        using less.hyps [of "drop 1024 bs" u "over buf ?d"] False u fd less.prems(2) w'(2) by simp
      show ?thesis
        using write_display [OF w'(1) d1(1), of "int (length ?d)" "over buf ?d"] rest l
        by (auto elim!: returns_mono simp del: length_take)
    qed
    show ?thesis
      using False by (subst cat_loop.simps) (auto intro!: returns_mono [OF read] returns_mono [OF step] simp del: length_take)
  qed
qed

text \<open>cat: the arguments name a file; all of it is shown.\<close>

lemma cat_main_shows:
  assumes "ok w" "std (obs w)" "in_use (obs w) < 8" "arguments (obs w) = nm" "nm \<noteq> []" "length nm < 32"
    and "disk (obs w) nm = Some (File bs)"
  shows "returns (cat_main c buf w) (\<lambda>(r, w'). r = 0 \<and> ok w' \<and>
    obs w' = set_desc (int (next_desc (obs w))) (File []) (showing emit bs (obs w)))"
proof -
  let ?fd = "int (next_desc (obs w))"
  have args: "returns (ece391_getargs c buf 1024 w) (\<lambda>(r, b, w'). r = 0 \<and> cstr b = Some nm \<and> ok w' \<and> obs w' = obs w)"
    using get_arguments [OF assms(1)] assms(4-6) by simp
  have opens: "returns (ece391_open c b u) (\<lambda>(r, w'). r = ?fd \<and> ok w' \<and> obs w' = set_desc ?fd (File bs) (obs w))"
    if "ok u" "obs u = obs w" "cstr b = Some nm" for b u
    using open_name [OF that(1,3)] assms(3,6,7) that(2) by (auto simp: spec_open_def elim!: returns_mono)
  note fd = opened_desc [OF assms(2,3) _ refl]
  have loop: "returns (cat_loop c ?fd b u) (\<lambda>(r, w'). r = 0 \<and> ok w' \<and> obs w' = set_desc ?fd (File []) (showing emit bs (obs w)))"
    if "ok u" "obs u = set_desc ?fd (File bs) (obs w)" for b u
    using cat_loop_shows [OF that(1), of ?fd bs b] that(2) std_display [OF assms(2)] next_desc_free(1) [OF assms(2,3)] fd
    by simp
  show ?thesis
    unfolding cat_main_def
    by (auto intro!: returns_mono [OF args] returns_mono [OF opens] loop)
qed

lemma cat_main_not_found:
  assumes "ok w" "std (obs w)" "arguments (obs w) = nm" "nm \<noteq> []" "length nm < 32" "disk (obs w) nm = None"
  shows "returns (cat_main c buf w) (\<lambda>(r, w'). r = 2 \<and> ok w' \<and>
    obs w' = showing emit (bytes_of ''file not found'' @ [NEWLINE]) (obs w))"
proof -
  have args: "returns (ece391_getargs c buf 1024 w) (\<lambda>(r, b, w'). r = 0 \<and> cstr b = Some nm \<and> ok w' \<and> obs w' = obs w)"
    using get_arguments [OF assms(1)] assms(3-5) by simp
  have opens: "returns (ece391_open c b u) (\<lambda>(r, w'). r = -1 \<and> ok w' \<and> obs w' = obs w)"
    if "ok u" "obs u = obs w" "cstr b = Some nm" for b u
    using open_name [OF that(1,3)] assms(5,6) that(2) by (auto simp: spec_open_def elim!: returns_mono split: if_splits)
  have puts: "returns (ece391_fdputs c 1 (line_lit ''file not found'') u)
      (\<lambda>w'. ok w' \<and> obs w' = showing emit (bytes_of ''file not found'' @ [NEWLINE]) (obs w))"
    if "ok u" "obs u = obs w" for u
    using fdputs_lit [OF that(1)] that(2) std_display [OF assms(2)] by (simp add: bytes_of_def)
  show ?thesis
    unfolding cat_main_def
    by (auto intro!: returns_mono [OF args] returns_mono [OF opens] returns_mono [OF puts])
qed

text \<open>ls: every name on a line of its own.\<close>

lemma ls_loop_shows:
  assumes "ok w" "desc_of (obs w) 1 = Display" "desc_of (obs w) fd = Dir nms"
  shows "returns (ls_loop c fd buf w) (\<lambda>(r, w'). r = 0 \<and> ok w' \<and>
    obs w' = set_desc fd (Dir []) (showing emit (concat (map (\<lambda>nm. nm @ [NEWLINE]) nms)) (obs w)))"
  using assms
proof (induction nms arbitrary: buf w)
  case Nil
  then have "set_desc fd (Dir []) (obs w) = obs w"
    using desc_of_open [of "obs w" fd] by (intro set_desc_same) simp
  then show ?case
    by (subst ls_loop.simps) (auto intro!: returns_mono [OF read_names_end [OF Nil.prems(1,3)]])
next
  case (Cons nm nms)
  let ?v = "obs w" and ?b = "over buf (nm @ replicate (32 - length nm) NUL)"
  note read = read_name [OF Cons.prems(1,3), of buf]
  have fd: "desc_of ?v fd \<noteq> Closed" "fd \<noteq> 1" using Cons.prems by auto
  have step: "returns (ece391_write c 1 (?b(length nm := NEWLINE)) (int (length nm) + 1) w') (\<lambda>(r, u). r \<noteq> -1 \<and>
      returns (ls_loop c fd (?b(length nm := NEWLINE)) u) (\<lambda>(r, w'). r = 0 \<and> ok w' \<and>
        obs w' = set_desc fd (Dir []) (showing emit (concat (map (\<lambda>nm. nm @ [NEWLINE]) (nm # nms))) ?v)))"
    if w': "ok w'" "obs w' = set_desc fd (Dir nms) ?v" and nm: "length nm \<le> 32" for w'
  proof -
    have bytes: "map (?b(length nm := NEWLINE)) [0..<nat (int (length nm) + 1)] = nm @ [NEWLINE]"
      by (rule nth_equalityI) (auto simp: over_def nth_append nat_add_distrib less_Suc_eq)
    have rest: "returns (ls_loop c fd b u) (\<lambda>(r, w'). r = 0 \<and> ok w' \<and>
        obs w' = set_desc fd (Dir []) (showing emit (concat (map (\<lambda>nm. nm @ [NEWLINE]) (nm # nms))) ?v))"
      if "ok u" "obs u = showing emit (nm @ [NEWLINE]) (obs w')" for u b
      using Cons.IH [of u b] that w'(2) fd Cons.prems(2) by simp
    have w: "desc_of (obs w') 1 = Display" "0 \<le> int (length nm) + 1" "int (length nm) + 1 \<le> 1025"
      using w'(2) fd Cons.prems(2) nm by simp_all
    show ?thesis
      using rest by (auto intro!: returns_mono [OF write_display [OF w'(1) w, of "?b(length nm := NEWLINE)"]] simp: bytes)
  qed
  show ?case
    by (subst ls_loop.simps) (auto intro!: returns_mono [OF read] returns_mono [OF step])
qed

lemma ls_main_shows:
  assumes "ok w" "std (obs w)" "in_use (obs w) < 8" "disk (obs w) (bytes_of ''.'') = Some (Dir nms)"
  shows "returns (ls_main c buf w) (\<lambda>(r, w'). r = 0 \<and> ok w' \<and>
    obs w' = set_desc (int (next_desc (obs w))) (Dir []) (showing emit (concat (map (\<lambda>nm. nm @ [NEWLINE]) nms)) (obs w)))"
proof -
  let ?fd = "int (next_desc (obs w))"
  have "cstr (lit ''.'') = Some (bytes_of ''.'')" by (rule cstr_arr_of) (simp add: bytes_of_def)
  from open_name [OF assms(1) this]
  have opens: "returns (ece391_open c (lit ''.'') w) (\<lambda>(r, w'). r = ?fd \<and> ok w' \<and> obs w' = set_desc ?fd (Dir nms) (obs w))"
    using assms(3,4) by (auto simp: spec_open_def elim!: returns_mono)
  note fd = opened_desc [OF assms(2,3) _ refl]
  have loop: "returns (ls_loop c ?fd b u) (\<lambda>(r, w'). r = 0 \<and> ok w' \<and>
      obs w' = set_desc ?fd (Dir []) (showing emit (concat (map (\<lambda>nm. nm @ [NEWLINE]) nms)) (obs w)))"
    if "ok u" "obs u = set_desc ?fd (Dir nms) (obs w)" for b u
    using ls_loop_shows [OF that(1), of ?fd nms b] that(2) std_display [OF assms(2)] next_desc_free(1) [OF assms(2,3)] fd
    by simp
  show ?thesis
    unfolding ls_main_def by (auto intro!: returns_mono [OF opens] loop)
qed

end

end
