(* ===== verification/SysErrSpec.thy ===== *)
theory SysErrSpec
  imports UserSpec
begin

text \<open>
  The tests of ece391syserr.c pass on every system that keeps the contract, one by one and all in one
  run.  They leave three descriptors open: the loop that closes what \<open>err_open_lots\<close> opened does not
  look at the results, and three of its calls are refused.
\<close>

section \<open>The table of descriptors during the tests\<close>

text \<open>Of the descriptors from 2 on, those from \<open>m\<close> to below \<open>n\<close> are open on the directory.\<close>

definition dirs_open :: "nat \<Rightarrow> nat \<Rightarrow> byte list list \<Rightarrow> 'v user_view \<Rightarrow> 'v user_view" where
  "dirs_open m n nms v = v\<lparr>descs := (\<lambda>i. if 2 \<le> i \<and> i < 8 then (if m \<le> i \<and> i < n then Dir nms else Closed) else descs v i)\<rparr>"

lemma dirs_open_simps [simp]:
  "shown (dirs_open m n nms v) = shown v" "disk (dirs_open m n nms v) = disk v"
  "arguments (dirs_open m n nms v) = arguments v" "std (dirs_open m n nms v) = std v"
  "showing e bs (dirs_open m n nms v) = dirs_open m n nms (showing e bs v)"
  "dirs_open m n nms (dirs_open m' n' nms' v) = dirs_open m n nms v"
  by (auto simp: dirs_open_def std_def showing_def fun_eq_iff)

lemma in_use_dirs_open:
  assumes "std v" "2 \<le> m" "m \<le> n" "n \<le> 8"
  shows "in_use (dirs_open m n nms v) = 2 + int (n - m)"
proof -
  have "{i. i < 8 \<and> descs (dirs_open m n nms v) i \<noteq> Closed} = {0, 1} \<union> {m..<n}"
    using assms by (auto simp: dirs_open_def std_def not_le less_2_cases_iff split: if_splits)
  moreover have "card ({0, 1} \<union> {m..<n}) = 2 + (n - m)"
    using assms(2) by (subst card_Un_disjoint) auto
  ultimately show ?thesis by (simp add: in_use_def)
qed

lemma next_dirs_open:
  assumes "std v" "2 \<le> n" "n < 8"
  shows "next_desc (dirs_open 2 n nms v) = n"
proof -
  have "[2..<8] = [2..<n] @ n # [Suc n..<8]"
    using assms upt_add_eq_append [of 2 n "8 - n"] by (simp add: upt_conv_Cons del: upt_rec_numeral)
  moreover have "filter (\<lambda>i. descs (dirs_open 2 n nms v) i = Closed) [2..<n] = []"
    using assms(3) by (simp add: filter_empty_conv dirs_open_def)
  ultimately show ?thesis using assms by (simp add: next_desc_def dirs_open_def)
qed

lemma open_dir:
  assumes "std v" "2 \<le> n" "n \<le> 8" "disk v nm = Some (Dir nms)"
  shows "spec_open nm (dirs_open 2 n nms v) =
    (if n < 8 then (int n, dirs_open 2 (Suc n) nms v) else (-1, dirs_open 2 n nms v))"
  using assms in_use_dirs_open [of v 2 n nms] next_dirs_open [of v n nms]
  by (auto simp: spec_open_def set_desc_def dirs_open_def fun_eq_iff)

lemma close_dir:
  assumes "std v" "2 \<le> i" "i < 8"
  shows "spec_close (int i) (dirs_open (min i 5) 8 nms v) =
    (if i < 5 then (0, dirs_open (Suc i) 8 nms v) else (-1, dirs_open 5 8 nms v))"
proof -
  let ?v = "dirs_open (min i 5) 8 nms v"
  have "in_use ?v = 2 + int (8 - min i 5)" using assms by (intro in_use_dirs_open) auto
  moreover have "i = 2 \<or> i = 3 \<or> i = 4 \<or> i = 5 \<or> i = 6 \<or> i = 7" using assms(2,3) by linarith
  ultimately show ?thesis
    by (auto simp: spec_close_def desc_of_def set_desc_def dirs_open_def fun_eq_iff)
qed

text \<open>After the loop that closes them, no descriptor from 2 on is below the number of open ones and open.\<close>

lemma desc_of_left_open:
  assumes "std v" "2 \<le> fd" "m = n \<or> m = 5 \<and> n = 8" "2 \<le> m"  "n \<le> 8"
  shows "desc_of (dirs_open m n nms v) fd = Closed"
  using assms in_use_dirs_open [of v m n nms] by (auto simp: desc_of_def dirs_open_def)

section \<open>The tests\<close>

lemma expect_error_ok [simp]: "expect_error c msg (-1) fail w = Some (fail, w)"
  by (simp add: expect_error_def)

definition pass_line :: "string \<Rightarrow> byte list" where
  "pass_line test = bytes_of test @ bytes_of '': PASS'' @ [NEWLINE]"

text \<open>What a run of all tests shows.\<close>

definition all_pass :: "byte list" where
  "all_pass = concat (map pass_line [''err_neg_fd'', ''err_big_fd'', ''err_open_lots'', ''err_open'', ''err_unopened'',
      ''err_vidmap'', ''err_stdin_out'', ''err_syscall_num'']) @ [NEWLINE] @ bytes_of ''Overall Tests: PASS'' @ [NEWLINE]"

context user_system
begin

lemma verdict_pass:
  assumes "ok w" "std (obs w)" "NUL \<notin> set (bytes_of test)" "length test \<le> 100"
  shows "returns (verdict c test 0 w) (\<lambda>(r, w'). r = 0 \<and> ok w' \<and> obs w' = showing emit (pass_line test) (obs w))"
proof -
  have "bytes_of (test @ '': PASS'') @ [NEWLINE] = pass_line test" by (simp add: pass_line_def bytes_of_def)
  moreover have "NUL \<notin> set (pass_line test)" "length (pass_line test) \<le> 1025"
    using assms(3,4) by (simp_all add: pass_line_def bytes_of_def)
  ultimately have "returns (ece391_fdputs c 1 (line_lit (test @ '': PASS'')) w)
      (\<lambda>w'. ok w' \<and> obs w' = showing emit (pass_line test) (obs w))"
    using fdputs_lit [OF assms(1) std_display [OF assms(2)], of "pass_line test"] by simp
  then show ?thesis unfolding verdict_def by (auto elim!: returns_mono)
qed

lemma desc_of_bad: "desc_of v NEG_FD = Closed" "desc_of v BIG_FD = Closed"
  using in_use_le [of v] by (simp_all add: desc_of_def NEG_FD_def BIG_FD_def)

lemma bad_int32: "is_int32 NEG_FD" "is_int32 BIG_FD" "is_int32 BIG_NUM" "is_int32 NEG_NUM" "is_int32 0"
  by (simp_all add: is_int32_def NEG_FD_def BIG_FD_def BIG_NUM_def NEG_NUM_def)

text \<open>Reading, writing and closing a descriptor that is not open.\<close>

lemma closed_refused:
  assumes "ok w" "obs w = v" "is_int32 fd" "desc_of v fd = Closed"
  shows "returns (ece391_read c fd buf 31 w) (\<lambda>(r, b, w'). r = -1 \<and> ok w' \<and> obs w' = v)"
    and "returns (ece391_write c fd buf 31 w) (\<lambda>(r, w'). r = -1 \<and> ok w' \<and> obs w' = v)"
    and "returns (ece391_close c fd w) (\<lambda>(r, w'). r = -1 \<and> ok w' \<and> obs w' = v)"
  using read_refused [OF assms(1,3), of 31 buf] write_refused [OF assms(1,3), of 31 buf] close_desc [OF assms(1,3)] assms(2,4)
  by (auto simp: spec_close_def elim!: returns_mono)

lemma err_neg_fd_passes:
  assumes "ok w" "std (obs w)"
  shows "returns (err_neg_fd c buf w) (\<lambda>(r, w'). r = 0 \<and> ok w' \<and> obs w' = showing emit (pass_line ''err_neg_fd'') (obs w))"
proof -
  note calls = closed_refused [OF _ _ bad_int32(1) desc_of_bad(1)]
  have v: "returns (verdict c ''err_neg_fd'' 0 u) (\<lambda>(r, w'). r = 0 \<and> ok w' \<and> obs w' = showing emit (pass_line ''err_neg_fd'') (obs w))"
    if "ok u" "obs u = obs w" for u
    using verdict_pass [OF that(1)] assms(2) that(2) by (simp add: bytes_of_def)
  show ?thesis
    unfolding err_neg_fd_def
    by (auto intro!: assms v returns_mono [OF calls(1) [where v = "obs w"]] returns_mono [OF calls(2) [where v = "obs w"]]
        returns_mono [OF calls(3) [where v = "obs w"]])
qed

lemma err_big_fd_passes:
  assumes "ok w" "std (obs w)"
  shows "returns (err_big_fd c buf w) (\<lambda>(r, w'). r = 0 \<and> ok w' \<and> obs w' = showing emit (pass_line ''err_big_fd'') (obs w))"
proof -
  note calls = closed_refused [OF _ _ bad_int32(2) desc_of_bad(2)]
  have v: "returns (verdict c ''err_big_fd'' 0 u) (\<lambda>(r, w'). r = 0 \<and> ok w' \<and> obs w' = showing emit (pass_line ''err_big_fd'') (obs w))"
    if "ok u" "obs u = obs w" for u
    using verdict_pass [OF that(1)] assms(2) that(2) by (simp add: bytes_of_def)
  show ?thesis
    unfolding err_big_fd_def
    by (auto intro!: assms v returns_mono [OF calls(1) [where v = "obs w"]] returns_mono [OF calls(2) [where v = "obs w"]]
        returns_mono [OF calls(3) [where v = "obs w"]])
qed

text \<open>Seven opens, of which the last fails; then three closes succeed and three are refused.\<close>

lemma open_lots:
  assumes "ok w" "std v" "obs w = dirs_open 2 2 nms v" "disk v (bytes_of ''.'') = Some (Dir nms)"
  shows "returns (for_each (open_lots_step c) [0..<7] (0, w)) (\<lambda>(cnt, w'). cnt = 1 \<and> ok w' \<and> obs w' = dirs_open 2 8 nms v)"
proof -
  have dot: "cstr (lit ''.'') = Some (bytes_of ''.'')" by (rule cstr_arr_of) (simp add: bytes_of_def)
  let ?I = "\<lambda>k (cnt, w'). cnt = (if k < 7 then 0 else 1 :: int) \<and> ok w' \<and> obs w' = dirs_open 2 (2 + min k 6) nms v"
  have step: "returns (open_lots_step c ([0..<7] ! k) s) (?I (Suc k))" if "k < 7" "?I k s" for k s
  proof -
    obtain cnt u where su: "s = (cnt, u)" by (cases s)
    with that have s: "cnt = 0" "ok u" "obs u = dirs_open 2 (2 + min k 6) nms v" by simp_all
    have "returns (ece391_open c (lit ''.'') u) (\<lambda>(r, w'). ok w' \<and> (r, obs w') =
        (if k < 6 then (int (2 + k), dirs_open 2 (Suc (2 + k)) nms v) else (-1, dirs_open 2 8 nms v)))"
      using open_name [OF s(2) dot] open_dir [OF assms(2) _ _ assms(4), of "2 + min k 6"] s(3) that(1)
      by (cases "k = 6") simp_all
    then show ?thesis
      using that(1) unfolding su s(1) open_lots_step_def by (auto elim!: returns_mono simp: min_def split: if_splits)
  qed
  have "returns (for_each (open_lots_step c) [0..<7] (0, w)) (?I (length [0..<7 :: nat]))"
    by (rule returns_for_each [where I = ?I]) (use step assms in \<open>simp_all del: upt_conv_Cons upt_rec_numeral\<close>)
  then show ?thesis by (rule returns_mono) auto
qed

lemma close_lots:
  assumes "ok w" "std v" "obs w = dirs_open 2 8 nms v"
  shows "returns (for_each (close_step c) [2..<8] w) (\<lambda>w'. ok w' \<and> obs w' = dirs_open 5 8 nms v)"
proof -
  let ?I = "\<lambda>k w'. ok w' \<and> obs w' = dirs_open (min (2 + k) 5) 8 nms v"
  have step: "returns (close_step c ([2..<8] ! k) s) (?I (Suc k))" if "k < 6" "?I k s" for k s
  proof -
    have i: "[2..<8] ! k = 2 + k" "is_int32 (int (2 + k))" using that(1) by (simp_all add: is_int32_def del: upt_conv_Cons upt_rec_numeral)
    show ?thesis
      using close_desc [OF _ i(2), of s] close_dir [OF assms(2), of "2 + k" nms] that
      unfolding i(1) close_step_def by (auto elim!: returns_mono simp: min_def split: if_splits)
  qed
  have "returns (for_each (close_step c) [2..<8] w) (?I (length [2..<8 :: nat]))"
    by (rule returns_for_each [where I = ?I]) (use step assms in \<open>simp_all del: upt_conv_Cons upt_rec_numeral\<close>)
  then show ?thesis by (rule returns_mono) auto
qed

lemma err_open_lots_passes:
  assumes "ok w" "std v" "obs w = dirs_open 2 2 nms v" "disk v (bytes_of ''.'') = Some (Dir nms)"
  shows "returns (err_open_lots c w) (\<lambda>(r, w'). r = 0 \<and> ok w' \<and>
    obs w' = dirs_open 5 8 nms (showing emit (pass_line ''err_open_lots'') v))"
proof -
  have "bytes_of ''err_open_lots: PASS'' @ [NEWLINE] = pass_line ''err_open_lots''" by (simp add: pass_line_def bytes_of_def)
  then have v: "returns (ece391_fdputs c 1 (line_lit ''err_open_lots: PASS'') u)
      (\<lambda>w'. ok w' \<and> obs w' = dirs_open 5 8 nms (showing emit (pass_line ''err_open_lots'') v))"
    if "ok u" "obs u = dirs_open 5 8 nms v" for u
    using fdputs_lit [OF that(1), of "pass_line ''err_open_lots''"] std_display [of "obs u"] assms(2) that(2)
    by (simp add: pass_line_def bytes_of_def)
  show ?thesis
    unfolding err_open_lots_def
    by (auto intro!: returns_mono [OF open_lots [OF assms]] returns_mono [OF close_lots [OF _ assms(2)]] returns_mono [OF v]
        simp del: upt_conv_Cons upt_rec_numeral)
qed

lemma err_open_passes:
  assumes "ok w" "std (obs w)" "\<forall>nm \<in> set [bytes_of ''helloo'', bytes_of ''shel'', []]. disk (obs w) nm = None"
  shows "returns (err_open c w) (\<lambda>(r, w'). r = 0 \<and> ok w' \<and> obs w' = showing emit (pass_line ''err_open'') (obs w))"
proof -
  have opens: "returns (ece391_open c (arr_of nm) u) (\<lambda>(r, w'). r = -1 \<and> ok w' \<and> obs w' = obs w)"
    if "ok u" "obs u = obs w" "nm \<in> set [bytes_of ''helloo'', bytes_of ''shel'', []]" for u nm
  proof -
    have "NUL \<notin> set nm" "length nm \<le> 1024" "disk (obs u) nm = None" using that(2,3) assms(3) by (auto simp: bytes_of_def)
    then show ?thesis
      using open_name [OF that(1) cstr_arr_of, of nm] that(2) by (auto simp: spec_open_def elim!: returns_mono split: if_splits)
  qed
  have v: "returns (verdict c ''err_open'' 0 u) (\<lambda>(r, w'). r = 0 \<and> ok w' \<and> obs w' = showing emit (pass_line ''err_open'') (obs w))"
    if "ok u" "obs u = obs w" for u
    using verdict_pass [OF that(1)] assms(2) that(2) by (simp add: bytes_of_def)
  have e: "bytes_of [] = []" by (simp add: bytes_of_def)
  show ?thesis
    unfolding err_open_def e by (auto intro!: assms(1) v returns_mono [OF opens])
qed

lemma err_unopened_passes:
  assumes "ok w" "std (obs w)" "\<forall>i \<in> {2..<8}. desc_of (obs w) (int i) = Closed"
  shows "returns (err_unopened c buf w) (\<lambda>(r, w'). r = 0 \<and> ok w' \<and> obs w' = showing emit (pass_line ''err_unopened'') (obs w))"
proof -
  let ?I = "\<lambda>(fail, w'). fail = (0 :: int) \<and> ok w' \<and> obs w' = obs w"
  let ?J = "\<lambda>(fail, b, w'). fail = (0 :: int) \<and> ok w' \<and> obs w' = obs w"
  have i32: "is_int32 (int i)" if "i < 8" for i using that by (simp add: is_int32_def)
  have nth: "k < 8 \<Longrightarrow> [0..<8] ! k = k" "k < 6 \<Longrightarrow> [2..<8] ! k = 2 + k" for k :: nat
    by (simp_all del: upt_conv_Cons upt_rec_numeral)
  have len: "length [0..<8 :: nat] = 8" "length [2..<8 :: nat] = 6" by simp_all
  have c: "returns (unopened_close c ([0..<8] ! k) s) ?I" if "k < 8" "?I s" for k s
  proof -
    have "spec_close (int k) (obs w) = (-1, obs w)"
      using assms(3) that(1) by (cases "k < 2") (auto simp: spec_close_def)
    then show ?thesis
      using close_desc [OF _ i32 [OF that(1)], of "snd s"] that
      by (cases s) (auto simp: unopened_close_def nth elim!: returns_mono simp del: upt_conv_Cons upt_rec_numeral)
  qed
  have closed: "desc_of (obs w) (int (2 + k)) = Closed" if "k < 6" for k using bspec [OF assms(3), of "2 + k"] that by simp
  have rd: "returns (unopened_read c ([2..<8] ! k) s) ?J" if "k < 6" "?J s" for k s
    using closed_refused(1) [OF _ _ i32 [of "2 + k"] closed [OF that(1)], of "snd (snd s)" "fst (snd s)"] that
    by (cases s) (auto simp: unopened_read_def nth elim!: returns_mono simp del: upt_conv_Cons upt_rec_numeral)
  have wr: "returns (unopened_write c b ([2..<8] ! k) s) ?I" if "k < 6" "?I s" for k s b
    using closed_refused(2) [OF _ _ i32 [of "2 + k"] closed [OF that(1)], of "snd s" b] that
    by (cases s) (auto simp: unopened_write_def nth elim!: returns_mono simp del: upt_conv_Cons upt_rec_numeral)
  have loops: "ok u \<Longrightarrow> obs u = obs w \<Longrightarrow> returns (for_each (unopened_close c) [0..<8] (0, u)) ?I"
    "ok u \<Longrightarrow> obs u = obs w \<Longrightarrow> returns (for_each (unopened_read c) [2..<8] (0, b, u)) ?J"
    "ok u \<Longrightarrow> obs u = obs w \<Longrightarrow> returns (for_each (unopened_write c b) [2..<8] (0, u)) ?I" for u b
    by (rule returns_for_each [where I = "\<lambda>_. ?I"] returns_for_each [where I = "\<lambda>_. ?J"],
        (rule c rd wr; simp only: len), simp)+
  have v: "returns (verdict c ''err_unopened'' 0 u) (\<lambda>(r, w'). r = 0 \<and> ok w' \<and> obs w' = showing emit (pass_line ''err_unopened'') (obs w))"
    if "ok u" "obs u = obs w" for u
    using verdict_pass [OF that(1)] assms(2) that(2) by (simp add: bytes_of_def)
  show ?thesis
    unfolding err_unopened_def
    by (auto intro!: assms(1) v returns_mono [OF loops(1)] returns_mono [OF loops(2)] returns_mono [OF loops(3)]
        simp del: upt_conv_Cons upt_rec_numeral)
qed

lemma err_vidmap_passes:
  assumes "ok w" "std (obs w)"
  shows "returns (err_vidmap c w) (\<lambda>(r, w'). r = 0 \<and> ok w' \<and> obs w' = showing emit (pass_line ''err_vidmap'') (obs w))"
proof -
  have m: "returns (ece391_vidmap c a u) (\<lambda>(r, w'). r = -1 \<and> ok w' \<and> obs w' = obs w)"
    if "ok u" "obs u = obs w" "a < 0x8000000" for a u
    using vidmap_refused [OF that(1,3)] that(2) by simp
  have v: "returns (verdict c ''err_vidmap'' 0 u) (\<lambda>(r, w'). r = 0 \<and> ok w' \<and> obs w' = showing emit (pass_line ''err_vidmap'') (obs w))"
    if "ok u" "obs u = obs w" for u
    using verdict_pass [OF that(1)] assms(2) that(2) by (simp add: bytes_of_def)
  show ?thesis
    unfolding err_vidmap_def by (auto intro!: assms(1) v returns_mono [OF m])
qed

lemma err_stdin_out_passes:
  assumes "ok w" "std (obs w)"
  shows "returns (err_stdin_out c buf w) (\<lambda>(r, w'). r = 0 \<and> ok w' \<and> obs w' = showing emit (pass_line ''err_stdin_out'') (obs w))"
proof -
  have d: "desc_of (obs w) 0 = Keys" "desc_of (obs w) 1 = Display" "is_int32 0" "is_int32 1"
    using assms(2) std_in_use [OF assms(2)] by (simp_all add: desc_of_def std_def is_int32_def)
  have wr: "returns (ece391_write c 0 buf 31 u) (\<lambda>(r, w'). r = -1 \<and> ok w' \<and> obs w' = obs w)"
    if "ok u" "obs u = obs w" for u
    using write_refused [OF that(1) d(3), of 31 buf] d(1) that(2) by simp
  have rd: "returns (ece391_read c 1 buf 31 u) (\<lambda>(r, b, w'). r = -1 \<and> ok w' \<and> obs w' = obs w)"
    if "ok u" "obs u = obs w" for u
    using read_refused [OF that(1) d(4), of 31 buf] d(2) that(2) by (auto elim!: returns_mono)
  have v: "returns (verdict c ''err_stdin_out'' 0 u) (\<lambda>(r, w'). r = 0 \<and> ok w' \<and> obs w' = showing emit (pass_line ''err_stdin_out'') (obs w))"
    if "ok u" "obs u = obs w" for u
    using verdict_pass [OF that(1)] assms(2) that(2) by (simp add: bytes_of_def)
  show ?thesis
    unfolding err_stdin_out_def by (auto intro!: assms(1) v returns_mono [OF wr] returns_mono [OF rd])
qed

lemma err_syscall_num_passes:
  assumes "ok w" "std (obs w)"
  shows "returns (err_syscall_num c w) (\<lambda>(r, w'). r = 0 \<and> ok w' \<and> obs w' = showing emit (pass_line ''err_syscall_num'') (obs w))"
proof -
  have n: "returns (call_sys c n u) (\<lambda>(r, w'). r = -1 \<and> ok w' \<and> obs w' = obs w)"
    if "ok u" "obs u = obs w" "n \<in> {BIG_NUM, NEG_NUM, 0}" for n u
    using no_such_call [OF that(1), of n] that(2,3) bad_int32(3-5) by (auto simp: BIG_NUM_def NEG_NUM_def)
  have v: "returns (verdict c ''err_syscall_num'' 0 u) (\<lambda>(r, w'). r = 0 \<and> ok w' \<and> obs w' = showing emit (pass_line ''err_syscall_num'') (obs w))"
    if "ok u" "obs u = obs w" for u
    using verdict_pass [OF that(1)] assms(2) that(2) by (simp add: bytes_of_def)
  show ?thesis
    unfolding err_syscall_num_def by (auto intro!: assms(1) v returns_mono [OF n])
qed

lemma all_tests_pass:
  assumes "ok w" "std v" "obs w = dirs_open 2 2 nms v" "disk v (bytes_of ''.'') = Some (Dir nms)"
    and "\<forall>nm \<in> set [bytes_of ''helloo'', bytes_of ''shel'', []]. disk v nm = None"
  shows "returns (all_tests c junk w) (\<lambda>(r, w'). r = 0 \<and> ok w' \<and> obs w' = dirs_open 5 8 nms (showing emit all_pass v))"
proof -
  have lots: "returns (err_open_lots c u) (\<lambda>(r, w'). r = 0 \<and> ok w' \<and>
      obs w' = dirs_open 5 8 nms (showing emit (pass_line ''err_open_lots'') v'))"
    if "ok u" "obs u = dirs_open 2 2 nms v'" "std v'" "disk v' = disk v" for u v'
    using err_open_lots_passes [OF that(1,3,2)] that(4) assms(4) by simp
  have unopened: "returns (err_unopened c junk u) (\<lambda>(r, w'). r = 0 \<and> ok w' \<and>
      obs w' = dirs_open 5 8 nms (showing emit (pass_line ''err_unopened'') v'))"
    if "ok u" "obs u = dirs_open 5 8 nms v'" "std v'" for u v'
    using err_unopened_passes [OF that(1), of junk] that(2,3) desc_of_left_open [OF that(3)] by simp
  have overall: "returns (ece391_fdputs c 1 (arr_of (0x0A # bytes_of ''Overall Tests: PASS'' @ [0x0A])) u)
      (\<lambda>w'. ok w' \<and> obs w' = dirs_open 5 8 nms (showing emit (bs @ 0x0A # bytes_of ''Overall Tests: PASS'' @ [NEWLINE]) v))"
    if "ok u" "obs u = dirs_open 5 8 nms (showing emit bs v)" for u bs
    using fdputs_lit [OF that(1), of "[0x0A] @ bytes_of ''Overall Tests: PASS'' @ [0x0A]"] std_display [of "obs u"] that(2) assms(2)
    by (simp add: bytes_of_def)
  show ?thesis
    unfolding all_tests_def all_pass_def
    by (auto intro!: returns_mono [OF err_neg_fd_passes] returns_mono [OF err_big_fd_passes] returns_mono [OF lots]
        returns_mono [OF err_open_passes] returns_mono [OF unopened] returns_mono [OF err_vidmap_passes]
        returns_mono [OF err_stdin_out_passes] returns_mono [OF err_syscall_num_passes] returns_mono [OF overall]
        simp: assms)
qed

end

end
