(* ===== verification/UserKernel.thy ===== *)
theory UserKernel
  imports SysErrSpec Frames
begin

text \<open>
  User programs on the kernel: the wrappers of ece391syscall.S over the dispatcher of \<open>Syscalls\<close>, the
  view that a state of the kernel gives its running process, and the proof that the kernel keeps the
  contract of \<open>UserSpec\<close>.

  A program's buffer is an array of the program; when it is handed to a call its bytes are those at
  the address \<open>A\<close> in the program's window, where the array was placed by the compiler.
\<close>

section \<open>The wrappers\<close>

text \<open>
  A wrapper loads three words from the stack, one for each argument that the call has; \<open>x\<close> and \<open>y\<close>
  are what lies there instead of a second and third argument.  A call that leaves for another program
  has no result here.
\<close>

definition DO_CALL :: "'a interrupts \<Rightarrow> nat \<Rightarrow> u32 \<Rightarrow> u32 \<Rightarrow> u32 \<Rightarrow> 'a kernel_state_scheme \<Rightarrow> (int \<times> 'a kernel_state_scheme) option" where
  "DO_CALL irq number arg1 arg2 arg3 s = do {
     (f, s) \<leftarrow> syscall_asm irq (word_of_nat number) arg1 arg2 arg3 s;
     case f of Ret r \<Rightarrow> Some (r, s) | _ \<Rightarrow> None
   }"

text \<open>The array in memory: its first \<open>n\<close> bytes as the program has stored them, and as they are read back.\<close>

definition put_buffer :: "nat \<Rightarrow> nat \<Rightarrow> carray \<Rightarrow> 'a kernel_state_scheme \<Rightarrow> 'a kernel_state_scheme" where
  "put_buffer A n buf s = vstore A (map buf [0..<n]) s"

definition get_buffer :: "nat \<Rightarrow> nat \<Rightarrow> carray \<Rightarrow> 'a kernel_state_scheme \<Rightarrow> carray" where
  "get_buffer A n buf s = (\<lambda>i. if i < n then kmem s (A + i) else buf i)"

definition kernel_read :: "'a interrupts \<Rightarrow> nat \<Rightarrow> int \<Rightarrow> carray \<Rightarrow> int \<Rightarrow> 'a kernel_state_scheme \<Rightarrow>
    (int \<times> carray \<times> 'a kernel_state_scheme) option" where
  "kernel_read irq A fd buf n s = do {
     (r, s) \<leftarrow> DO_CALL irq 3 (word_of_int fd) (word_of_nat A) (word_of_int n) (put_buffer A (nat n) buf s);
     Some (r, get_buffer A (nat n) buf s, s)
   }"

definition kernel_write :: "'a interrupts \<Rightarrow> nat \<Rightarrow> int \<Rightarrow> carray \<Rightarrow> int \<Rightarrow> 'a kernel_state_scheme \<Rightarrow>
    (int \<times> 'a kernel_state_scheme) option" where
  "kernel_write irq A fd buf n s =
     DO_CALL irq 4 (word_of_int fd) (word_of_nat A) (word_of_int n) (put_buffer A (nat n) buf s)"

definition kernel_open :: "'a interrupts \<Rightarrow> nat \<Rightarrow> u32 \<Rightarrow> u32 \<Rightarrow> carray \<Rightarrow> 'a kernel_state_scheme \<Rightarrow>
    (int \<times> 'a kernel_state_scheme) option" where
  "kernel_open irq A x y name s = do {
     n \<leftarrow> strlen name;
     DO_CALL irq 5 (word_of_nat A) x y (put_buffer A (n + 1) name s)
   }"

definition kernel_close :: "'a interrupts \<Rightarrow> u32 \<Rightarrow> u32 \<Rightarrow> int \<Rightarrow> 'a kernel_state_scheme \<Rightarrow>
    (int \<times> 'a kernel_state_scheme) option" where
  "kernel_close irq x y fd s = DO_CALL irq 6 (word_of_int fd) x y s"

definition kernel_getargs :: "'a interrupts \<Rightarrow> nat \<Rightarrow> u32 \<Rightarrow> carray \<Rightarrow> int \<Rightarrow> 'a kernel_state_scheme \<Rightarrow>
    (int \<times> carray \<times> 'a kernel_state_scheme) option" where
  "kernel_getargs irq A y buf n s = do {
     (r, s) \<leftarrow> DO_CALL irq 7 (word_of_nat A) (word_of_int n) y (put_buffer A (nat n) buf s);
     Some (r, get_buffer A (nat n) buf s, s)
   }"

definition kernel_vidmap :: "'a interrupts \<Rightarrow> u32 \<Rightarrow> u32 \<Rightarrow> nat \<Rightarrow> 'a kernel_state_scheme \<Rightarrow>
    (int \<times> 'a kernel_state_scheme) option" where
  "kernel_vidmap irq x y screen_start s = DO_CALL irq 8 (word_of_nat screen_start) x y s"

text \<open>
  \<open>run\<close> stands for what happens from the entry of a started program to the return of execute, when
  that program and its children have run.
\<close>

definition kernel_execute :: "'a interrupts \<Rightarrow> nat \<Rightarrow> u32 \<Rightarrow> u32 \<Rightarrow>
    (flow \<Rightarrow> 'a kernel_state_scheme \<Rightarrow> (int \<times> 'a kernel_state_scheme) option) \<Rightarrow> carray \<Rightarrow> 'a kernel_state_scheme \<Rightarrow>
    (int \<times> 'a kernel_state_scheme) option" where
  "kernel_execute irq A x y run command s = do {
     n \<leftarrow> strlen command;
     (f, s) \<leftarrow> syscall_asm irq 2 (word_of_nat A) x y (put_buffer A (n + 1) command s);
     case f of Ret r \<Rightarrow> Some (r, s) | _ \<Rightarrow> run f s
   }"

definition kernel_calls :: "'a interrupts \<Rightarrow> nat \<Rightarrow> u32 \<Rightarrow> u32 \<Rightarrow>
    (flow \<Rightarrow> 'a kernel_state_scheme \<Rightarrow> (int \<times> 'a kernel_state_scheme) option) \<Rightarrow> 'a kernel_state_scheme user_calls" where
  "kernel_calls irq A x y run =
     \<lparr>ece391_execute = kernel_execute irq A x y run, ece391_read = kernel_read irq A, ece391_write = kernel_write irq A,
      ece391_open = kernel_open irq A x y, ece391_close = kernel_close irq x y, ece391_getargs = kernel_getargs irq A y,
      ece391_vidmap = kernel_vidmap irq x y,
      call_sys = (\<lambda>num s. do { (f, s) \<leftarrow> syscall_asm irq (word_of_int num) (word_of_nat A) x y s;
        case f of Ret r \<Rightarrow> Some (r, s) | _ \<Rightarrow> None })\<rparr>"

section \<open>The view of the running process\<close>

definition names_on :: "mem \<Rightarrow> fs_globals \<Rightarrow> byte list list" where
  "names_on m g = map (dentry_name m g) [0..num_direntries g - 1]"

definition fd_desc :: "mem \<Rightarrow> fs_globals \<Rightarrow> fd_t \<Rightarrow> desc" where
  "fd_desc m g f =
     (if flags f = 0 then Closed
      else case fops f of
        None \<Rightarrow> Closed
      | Some stdin_fops \<Rightarrow> Keys
      | Some stdout_fops \<Rightarrow> Display
      | Some rtc_ops \<Rightarrow> Clock
      | Some f_ops \<Rightarrow> File (drop (nat (file_offset f)) (file_content m g (fd_inode f)))
      | Some d_ops \<Rightarrow> Dir (drop (nat (file_offset f)) (names_on m g)))"

definition dentry_desc :: "mem \<Rightarrow> fs_globals \<Rightarrow> dentry_t \<Rightarrow> desc option" where
  "dentry_desc m g d =
     (if filetype d = 0 then Some Clock
      else if filetype d = 1 then Some (Dir (names_on m g))
      else if filetype d = 2 then Some (File (file_content m g (inode_num d)))
      else None)"

text \<open>The process whose arguments getargs gives: the one below the first free slot.\<close>

definition newest_pid :: "'a kernel_state_scheme \<Rightarrow> int" where
  "newest_pid s = (case free_pid s of Some i \<Rightarrow> int i | None \<Rightarrow> int MAX_PCBS)"

definition kernel_view :: "'a kernel_state_scheme \<Rightarrow> screen user_view" where
  "kernel_view s =
     \<lparr>shown = screen_of (sched_term s) (video_base s) s,
      disk = (\<lambda>nm. Option.bind (lookup s nm) (dentry_desc (mem s) (fs s))),
      descs = (\<lambda>i. if i < 8 then fd_desc (mem s) (fs s) (file_desc_arr (pcbs s (running_pid s)) i) else Closed),
      arguments = takeWhile (\<lambda>b. b \<noteq> NUL) (map (args (pcbs s (newest_pid s))) [0..<32])\<rparr>"

text \<open>The states in which the kernel serves its running process.\<close>

definition fd_ok :: "mem \<Rightarrow> fs_globals \<Rightarrow> fd_t \<Rightarrow> bool" where
  "fd_ok m g f \<longleftrightarrow> flags f \<noteq> 0 \<longrightarrow>
     (fops f = Some f_ops \<longrightarrow> fd_inode f \<noteq> 0 \<and> 0 \<le> file_offset f \<and> inode_placed m g (fd_inode f)) \<and>
     (fops f = Some d_ops \<longrightarrow> fd_inode f = 0 \<and> 0 \<le> file_offset f)"

definition dentry_ok :: "mem \<Rightarrow> fs_globals \<Rightarrow> int \<Rightarrow> bool" where
  "dentry_ok m g i \<longleftrightarrow> dentry_name m g i \<noteq> [] \<and>
     (filetype (load_dentry m (direntry g i)) = 2 \<longrightarrow>
        inode_num (load_dentry m (direntry g i)) \<noteq> 0 \<and> inode_placed m g (inode_num (load_dentry m (direntry g i))))"

definition serves :: "'a kernel_state_scheme \<Rightarrow> bool" where
  "serves s \<longleftrightarrow> fs_ok s \<and> sched_term s < 3 \<and> 2 \<le> user_frame s \<and> screen_ok (shown (kernel_view s)) \<and>
     fd_table_ok (pcbs s (running_pid s)) \<and> newest_pid s \<noteq> 0 \<and> 0 \<le> num_direntries (fs s) \<and>
     (\<forall>i < 8. fd_ok (mem s) (fs s) (file_desc_arr (pcbs s (running_pid s)) i)) \<and>
     (\<forall>i \<in> {0..<num_direntries (fs s)}. dentry_ok (mem s) (fs s) i)"

section \<open>What the view depends on\<close>

lemma kernel_view_simps [simp]:
  "shown (kernel_view s) = screen_of (sched_term s) (video_base s) s"
  "disk (kernel_view s) nm = Option.bind (lookup s nm) (dentry_desc (mem s) (fs s))"
  "i < 8 \<Longrightarrow> descs (kernel_view s) i = fd_desc (mem s) (fs s) (file_desc_arr (pcbs s (running_pid s)) i)"
  "arguments (kernel_view s) = takeWhile (\<lambda>b. b \<noteq> NUL) (map (args (pcbs s (newest_pid s))) [0..<32])"
  by (simp_all add: kernel_view_def)

lemma names_on_agree: "agree_kernel m m' \<Longrightarrow> dir_placed g \<Longrightarrow> names_on m' g = names_on m g"
  by (auto simp: names_on_def direntry_agree(3))

lemma fd_agree:
  assumes "agree_kernel m m'" "dir_placed g" "fd_ok m g f"
  shows "fd_desc m' g f = fd_desc m g f" "fd_ok m' g f"
  using assms names_on_agree [OF assms(1,2)] file_agree [OF assms(1)]
  by (auto simp: fd_desc_def fd_ok_def split: option.splits file_ops.splits)

lemma dentry_agree:
  assumes "agree_kernel m m'" "dir_placed g" "0 \<le> i" "i < num_direntries g" "dentry_ok m g i"
  shows "dentry_ok m' g i"
    "dentry_desc m' g (load_dentry m (direntry g i)) = dentry_desc m g (load_dentry m (direntry g i))"
  using assms direntry_agree [OF assms(1-4)] names_on_agree [OF assms(1,2)] file_agree [OF assms(1)]
  by (auto simp: dentry_ok_def dentry_desc_def)

text \<open>What a call may change without the view changing, but for the screen.\<close>

definition same_system :: "'a kernel_state_scheme \<Rightarrow> 'a kernel_state_scheme \<Rightarrow> bool" where
  "same_system s s' \<longleftrightarrow> agree_kernel (mem s) (mem s') \<and> fs s' = fs s \<and> pid_arr s' = pid_arr s \<and> pcbs s' = pcbs s \<and>
     running_pid s' = running_pid s \<and> sched_term s' = sched_term s \<and> paging_of s' = paging_of s"

lemma same_system_paging:
  assumes "same_system s s'"
  shows "paging_ok s' = paging_ok s" "user_frame s' = user_frame s" "video_base s' = video_base s"
  using assms paging_cong [of s' s] by (simp_all add: same_system_def video_base_def)

lemma find_in_set: "find P xs = Some x \<Longrightarrow> x \<in> set xs"
  unfolding find_Some_iff by (metis nth_mem)

lemma lookup_agree:
  assumes "fs_ok s" "agree_kernel (mem s) (mem s')" "fs s' = fs s"
  shows "lookup s' n = lookup s n"
proof -
  have d: "dir_placed (fs s)" using assms(1) by (simp add: fs_ok_def)
  have "find (\<lambda>i. dentry_name (mem s') (fs s) i = take 32 n) [0..num_direntries (fs s) - 1] =
      find (\<lambda>i. dentry_name (mem s) (fs s) i = take 32 n) [0..num_direntries (fs s) - 1]"
    by (rule find_cong') (simp add: direntry_agree(3) [OF assms(2) d])
  moreover have "i \<in> {0..<num_direntries (fs s)}"
    if "find (\<lambda>i. dentry_name (mem s) (fs s) i = take 32 n) [0..num_direntries (fs s) - 1] = Some i" for i
    using find_in_set [OF that] by simp
  ultimately show ?thesis
    using direntry_agree(2) [OF assms(2) d] unfolding lookup_def assms(3)
    by (cases "find (\<lambda>i. dentry_name (mem s) (fs s) i = take 32 n) [0..num_direntries (fs s) - 1]") auto
qed

lemma lookup_entry:
  assumes "lookup s n = Some d"
  shows "\<exists>i. 0 \<le> i \<and> i < num_direntries (fs s) \<and> d = load_dentry (mem s) (direntry (fs s) i)"
proof -
  obtain i where i: "find (\<lambda>i. dentry_name (mem s) (fs s) i = take 32 n) [0..num_direntries (fs s) - 1] = Some i"
    "d = load_dentry (mem s) (direntry (fs s) i)" using assms by (auto simp: lookup_def)
  with find_in_set [OF i(1)] show ?thesis by auto
qed

lemma same_system_view:
  assumes "serves s" "same_system s s'"
  shows "kernel_view s' = (kernel_view s)\<lparr>shown := screen_of (sched_term s) (video_base s) s'\<rparr>"
    and "screen_ok (screen_of (sched_term s) (video_base s) s') \<Longrightarrow> serves s'"
proof -
  note p = same_system_paging [OF assms(2)]
  have s: "fs_ok s" "dir_placed (fs s)" "names_end (mem s) (fs s)" using assms(1) by (simp_all add: serves_def fs_ok_def)
  have a: "agree_kernel (mem s) (mem s')" "fs s' = fs s" "pid_arr s' = pid_arr s" "pcbs s' = pcbs s"
    "running_pid s' = running_pid s" "sched_term s' = sched_term s"
    using assms(2) by (simp_all add: same_system_def)
  have n: "newest_pid s' = newest_pid s" by (simp add: newest_pid_def free_pid_def a)
  have fd: "fd_ok (mem s) (fs s) (file_desc_arr (pcbs s (running_pid s)) i)" if "i < 8" for i
    using assms(1) that by (simp add: serves_def)
  have d: "0 \<le> i \<Longrightarrow> i < num_direntries (fs s) \<Longrightarrow> dentry_ok (mem s) (fs s) i" for i
    using assms(1) by (simp add: serves_def)
  have "Option.bind (lookup s' nm) (dentry_desc (mem s') (fs s')) = Option.bind (lookup s nm) (dentry_desc (mem s) (fs s))" for nm
    unfolding lookup_agree [OF s(1) a(1,2)] a(2)
    using lookup_entry [of s nm] dentry_agree(2) [OF a(1) s(2) _ _ d] by (cases "lookup s nm") auto
  then show "kernel_view s' = (kernel_view s)\<lparr>shown := screen_of (sched_term s) (video_base s) s'\<rparr>"
    using fd_agree(1) [OF a(1) s(2) fd] by (auto simp: kernel_view_def a n p fun_eq_iff)
  show "serves s'" if "screen_ok (screen_of (sched_term s) (video_base s) s')"
    using assms(1) that fd_agree(2) [OF a(1) s(2) fd] dentry_agree(1) [OF a(1) s(2) _ _ d] names_end_agree [OF a(1) s(2,3)] s(1)
    by (simp add: serves_def a n p fs_ok_def)
qed

lemma same_system_refl: "same_system s s"
  by (simp add: same_system_def agree_kernel_def)

text \<open>Changes in the program's own frame, and of the variables that the view does not show.\<close>

lemma cells_store_user:
  assumes "paging_ok s" "1 \<le> u"
  shows "cells_at (store_bytes (u * 0x400000 + k) bs m) (video_base s) = cells_at m (video_base s)"
proof -
  have "0x400000 \<le> u * 0x400000 + k" using assms(2) by simp
  then have "store_bytes (u * 0x400000 + k) bs m a = m a" if "a < video_base s + 4000" for a
    using that video_base_bound [OF assms(1)] by (intro store_bytes_outside) simp
  then show ?thesis by (simp add: cells_at_def)
qed

lemma serves_facts:
  assumes "serves s"
  shows "paging_ok s" "2 \<le> user_frame s" "fs_ok s" "fd_table_ok (pcbs s (running_pid s))"
  using assms by (simp_all add: serves_def fs_ok_def)

lemma store_in_frame:
  assumes "serves s"
  shows "kernel_view (s\<lparr>mem := store_bytes (user_frame s * 0x400000 + k) bs (mem s)\<rparr>) = kernel_view s"
    and "serves (s\<lparr>mem := store_bytes (user_frame s * 0x400000 + k) bs (mem s)\<rparr>)"
proof -
  note f = serves_facts [OF assms]
  let ?s = "s\<lparr>mem := store_bytes (user_frame s * 0x400000 + k) bs (mem s)\<rparr>"
  have "0x800000 \<le> user_frame s * 0x400000 + k" using f(2) by simp
  then have same: "same_system s ?s"
    by (simp add: same_system_def agree_kernel_def running_pid_def)
  have "screen_of (sched_term s) (video_base s) ?s = screen_of (sched_term s) (video_base s) s"
    using cells_store_user [OF f(1), of "user_frame s"] f(2) by (simp add: screen_of_def)
  with same_system_view [OF assms same] assms show "kernel_view ?s = kernel_view s" "serves ?s"
    by (simp_all add: serves_def)
qed

lemma other_variables:
  assumes "serves s"
  shows "kernel_view (update_file_pcb p s) = kernel_view s" "serves (update_file_pcb p s)"
    "kernel_view (s\<lparr>iflag := b\<rparr>) = kernel_view s" "serves (s\<lparr>iflag := b\<rparr>)"
proof -
  have "same_system s (update_file_pcb p s)" "same_system s (s\<lparr>iflag := b\<rparr>)"
    by (simp_all add: same_system_def agree_kernel_def running_pid_def update_file_pcb_def)
  note same = same_system_view [OF assms this(1)] same_system_view [OF assms this(2)]
  have "screen_of k v (update_file_pcb p s) = screen_of k v s" "screen_of k v (s\<lparr>iflag := b\<rparr>) = screen_of k v s" for k v
    by (simp_all add: screen_of_def)
  with same assms show "kernel_view (update_file_pcb p s) = kernel_view s" "serves (update_file_pcb p s)"
    "kernel_view (s\<lparr>iflag := b\<rparr>) = kernel_view s" "serves (s\<lparr>iflag := b\<rparr>)"
    by (simp_all add: serves_def)
qed

section \<open>Descriptors\<close>

lemma fd_desc_open:
  assumes "fd_table_ok p" "i < 8"
  shows "fd_desc m g (file_desc_arr p i) = Closed \<longleftrightarrow> flags (file_desc_arr p i) \<noteq> 1"
proof -
  have "flags (file_desc_arr p i) = 0 \<or> flags (file_desc_arr p i) = 1" using assms by (simp add: fd_table_ok_def)
  moreover have "fops (file_desc_arr p i) \<noteq> None" if "flags (file_desc_arr p i) = 1"
  proof -
    have "i = 0 \<or> i = 1 \<or> 2 \<le> i" by linarith
    moreover have "2 \<le> i \<Longrightarrow> fops (file_desc_arr p i) \<in> {Some f_ops, Some d_ops, Some rtc_ops}"
      using assms that unfolding fd_table_ok_def by presburger
    ultimately show ?thesis using assms(1) by (auto simp: fd_table_ok_def)
  qed
  ultimately show ?thesis by (auto simp: fd_desc_def split: file_ops.splits)
qed

lemma kernel_in_use:
  assumes "serves s"
  shows "in_use (kernel_view s) = num_open_descriptors (pcbs s (running_pid s))"
proof -
  note t = serves_facts(4) [OF assms]
  have "{i. i < 8 \<and> descs (kernel_view s) i \<noteq> Closed} = open_fds (pcbs s (running_pid s))"
    using fd_desc_open [OF t] by (auto simp: open_fds_def)
  then show ?thesis using t by (simp add: in_use_def fd_table_ok_def)
qed

lemma kernel_desc_of:
  "serves s \<Longrightarrow> desc_of (kernel_view s) fd =
    (if 0 \<le> fd \<and> fd < num_open_descriptors (pcbs s (running_pid s))
     then fd_desc (mem s) (fs s) (file_desc_arr (pcbs s (running_pid s)) (nat fd)) else Closed)"
  using num_open_le [OF serves_facts(4), of s] by (auto simp: desc_of_def kernel_in_use nat_less_iff)

lemma kernel_next_desc:
  assumes "serves s"
  shows "next_desc (kernel_view s) = free_fd (pcbs s (running_pid s))"
proof -
  let ?p = "pcbs s (running_pid s)"
  have flag: "descs (kernel_view s) i = Closed \<longleftrightarrow> flags (file_desc_arr ?p i) = 0" if "i < 8" for i
  proof -
    have "flags (file_desc_arr ?p i) = 0 \<or> flags (file_desc_arr ?p i) = 1"
      using serves_facts(4) [OF assms] that by (simp add: fd_table_ok_def)
    then show ?thesis using fd_desc_open [OF serves_facts(4) [OF assms] that] that by auto
  qed
  then show ?thesis by (simp add: next_desc_def free_fd_eq)
qed

lemma kernel_std: "serves s \<Longrightarrow> std (kernel_view s)"
  using serves_facts(4) [of s] by (simp add: std_def fd_table_ok_def fd_desc_def)

text \<open>A change of the running process's descriptors.\<close>

lemma pcb_view:
  assumes "serves s" "p = running_pid s" "fd_table_ok (f (pcbs s p))" "args (f (pcbs s p)) = args (pcbs s p)"
    and "\<And>i. i < 8 \<Longrightarrow> fd_ok (mem s) (fs s) (file_desc_arr (f (pcbs s p)) i)"
  shows "kernel_view (upd_pcb p f s) =
      (kernel_view s)\<lparr>descs := (\<lambda>i. if i < 8 then fd_desc (mem s) (fs s) (file_desc_arr (f (pcbs s p)) i) else Closed)\<rparr>"
    and "serves (upd_pcb p f s)"
proof -
  have n: "newest_pid (upd_pcb p f s) = newest_pid s" by (simp add: newest_pid_def free_pid_def)
  have v: "video_base (upd_pcb p f s) = video_base s" "screen_of k b (upd_pcb p f s) = screen_of k b s" for k b
    by (simp_all add: video_base_def screen_of_def)
  have l: "lookup (upd_pcb p f s) nm = lookup s nm" for nm by (simp add: lookup_def)
  show "kernel_view (upd_pcb p f s) =
      (kernel_view s)\<lparr>descs := (\<lambda>i. if i < 8 then fd_desc (mem s) (fs s) (file_desc_arr (f (pcbs s p)) i) else Closed)\<rparr>"
    by (simp add: kernel_view_def n v l assms(2) [symmetric] assms(4) cong: if_cong)
  show "serves (upd_pcb p f s)"
    using assms(1,3,5) by (simp add: serves_def n v fs_ok_def assms(2) [symmetric])
qed

section \<open>Buffers\<close>

text \<open>An array of 1025 bytes in the window.\<close>

definition placed :: "nat \<Rightarrow> bool" where
  "placed A \<longleftrightarrow> 0x8000000 \<le> A \<and> A + 1025 \<le> 0x8400000"

definition at :: "nat \<Rightarrow> 'a console_state_scheme \<Rightarrow> nat" where
  "at A s = user_frame s * 0x400000 + (A - 0x8000000)"

lemma vstore_buffer:
  assumes "paging_ok s" "placed A" "length bs \<le> 1025"
  shows "vstore A bs s = s\<lparr>mem := store_bytes (at A s) bs (mem s)\<rparr>"
proof -
  have A: "0x8000000 + (A - 0x8000000) = A" "(A - 0x8000000) + length bs \<le> 0x400000"
    using assms(2,3) unfolding placed_def by linarith+
  show ?thesis using vstore_user [OF assms(1) A(2)] unfolding A(1) at_def .
qed

lemma put_buffer_eq:
  assumes "serves s" "placed A" "n \<le> 1025"
  shows "put_buffer A n buf s = s\<lparr>mem := store_bytes (at A s) (map buf [0..<n]) (mem s)\<rparr>"
    "kernel_view (put_buffer A n buf s) = kernel_view s" "serves (put_buffer A n buf s)"
proof -
  show 1: "put_buffer A n buf s = s\<lparr>mem := store_bytes (at A s) (map buf [0..<n]) (mem s)\<rparr>"
    using vstore_buffer [OF serves_facts(1) [OF assms(1)] assms(2)] assms(3) by (simp add: put_buffer_def)
  show "kernel_view (put_buffer A n buf s) = kernel_view s" "serves (put_buffer A n buf s)"
    unfolding 1 at_def using store_in_frame [OF assms(1)] by simp_all
qed

lemma kmem_buffer:
  assumes "paging_ok s" "placed A" "i < 1025"
  shows "kmem s (A + i) = mem s (at A s + i)"
proof -
  have "mmu s (A + i) = Some (at A s + i)"
    using mmu_user [OF assms(1), of "A + i"] assms(2,3) by (simp add: placed_def at_def)
  then show ?thesis by (simp add: kmem_def vread_def)
qed

lemma address_word: "placed A \<Longrightarrow> unat (word_of_nat A :: u32) = A"
  by (simp add: placed_def unat_of_nat take_bit_nat_eq_self)

lemma int32_word: "is_int32 n \<Longrightarrow> sint (word_of_int n :: u32) = n"
  by (simp add: is_int32_def signed_of_int signed_take_bit_int_eq_self)

lemma buffer_size: "0 \<le> n \<Longrightarrow> n \<le> 1025 \<Longrightarrow> is_int32 n"
  by (simp add: is_int32_def)

section \<open>The calls refine their specification\<close>

lemma read_call:
  assumes "sys_read irq fd A n s = Some (r, u)" "is_int32 fd" "0 \<le> n" "n \<le> 1025" "placed A"
  shows "DO_CALL irq 3 (word_of_int fd) (word_of_nat A) (word_of_int n) s = Some (r, u\<lparr>iflag := iflag s\<rparr>)"
  using syscall_call [of 3 irq "word_of_int fd" "word_of_nat A" "word_of_int n" s r u, OF _ _ refl] assms buffer_size [OF assms(3,4)]
  by (simp add: DO_CALL_def syscall_table_def int32_word address_word)

lemma write_call:
  assumes "sys_write irq fd A n s = Some (r, u)" "is_int32 fd" "0 \<le> n" "n \<le> 1025" "placed A"
  shows "DO_CALL irq 4 (word_of_int fd) (word_of_nat A) (word_of_int n) s = Some (r, u\<lparr>iflag := iflag s\<rparr>)"
  using syscall_call [of 4 irq "word_of_int fd" "word_of_nat A" "word_of_int n" s r u, OF _ _ refl] assms buffer_size [OF assms(3,4)]
  by (simp add: DO_CALL_def syscall_table_def int32_word address_word)

lemma open_int32: "serves s \<Longrightarrow> desc_of (kernel_view s) fd \<noteq> Closed \<Longrightarrow> is_int32 fd"
  using desc_of_open [of "kernel_view s" fd] by (simp add: is_int32_def)

lemma placed_not_null: "placed A \<Longrightarrow> A \<noteq> 0"
  by (simp add: placed_def)

text \<open>A write that the descriptor refuses.\<close>

lemma kernel_write_refused:
  assumes "serves s" "placed A" "is_int32 fd" "desc_of (kernel_view s) fd \<notin> {Display, Clock}" "0 \<le> n" "n \<le> 1025"
  shows "returns (kernel_write irq A fd buf n s) (\<lambda>(r, s'). r = -1 \<and> serves s' \<and> kernel_view s' = kernel_view s)"
proof -
  let ?s = "put_buffer A (nat n) buf s"
  note b = put_buffer_eq [OF assms(1,2), of "nat n" buf]
  have s: "serves ?s" "kernel_view ?s = kernel_view s" using b assms(6) by simp_all
  let ?p = "running_pid ?s" let ?f = "file_desc_arr (pcbs ?s ?p) (nat fd)"
  have none: "fops ?f \<in> {None, Some stdin_fops, Some f_ops, Some d_ops}" if "0 \<le> fd" "fd < num_open_descriptors (pcbs ?s ?p)"
  proof -
    have "nat fd < 8" using that num_open_le [OF serves_facts(4) [OF s(1)]] by simp
    moreover have "fd_desc (mem ?s) (fs ?s) ?f \<notin> {Display, Clock}"
      using kernel_desc_of [OF s(1), of fd] that assms(4) s(2) by simp
    moreover have "fops ?f = None" if "flags ?f = 0"
      using serves_facts(4) [OF s(1)] \<open>nat fd < 8\<close> that unfolding fd_table_ok_def
      by (metis (no_types) less_2_cases_iff not_le One_nat_def zero_neq_one)
    ultimately show ?thesis by (auto simp: fd_desc_def split: if_splits option.splits file_ops.splits)
  qed
  have "sys_write irq fd A n ?s = Some (-1, update_file_pcb ?p ?s)"
    using none placed_not_null [OF assms(2)] by (auto simp: sys_write_def Let_def file_write_def dir_write_def)
  from write_call [OF this assms(3,5,6,2)] show ?thesis
    using other_variables(1,2) [OF s(1)] other_variables(3,4) [OF other_variables(2) [OF s(1)]] s(2)
    by (simp add: kernel_write_def)
qed

text \<open>A descriptor that moves to another offset.\<close>

lemma seek_fields [simp]: "args (seek fd off p) = args p" "num_open_descriptors (seek fd off p) = num_open_descriptors p"
  by (simp_all add: seek_def)

lemma fd_table_ok_seek: "fd_table_ok p \<Longrightarrow> fd_table_ok (seek fd off p)"
proof -
  assume ok: "fd_table_ok p"
  have f: "flags (file_desc_arr (seek fd off p) i) = flags (file_desc_arr p i)"
    "fops (file_desc_arr (seek fd off p) i) = fops (file_desc_arr p i)" for i
    by (simp_all add: seek_def)
  have o: "open_fds (seek fd off p) = open_fds p" by (simp add: open_fds_def f)
  show ?thesis using ok unfolding fd_table_ok_def f o seek_fields .
qed

lemma seek_view:
  assumes "serves s" "p = running_pid s" "fd < 8" "0 \<le> off"
    and "d = fd_desc (mem s) (fs s) ((file_desc_arr (pcbs s p) fd)\<lparr>file_offset := off\<rparr>)"
  shows "kernel_view (upd_pcb p (seek fd off) s) = set_desc (int fd) d (kernel_view s)" "serves (upd_pcb p (seek fd off) s)"
proof -
  have fd: "fd_ok (mem s) (fs s) (file_desc_arr (seek fd off (pcbs s p)) i)" if "i < 8" for i
    using assms(1,2,4) that by (auto simp: serves_def fd_ok_def seek_def)
  note v = pcb_view [OF assms(1,2), of "seek fd off"]
  have t: "fd_table_ok (seek fd off (pcbs s p))" using serves_facts(4) [OF assms(1)] assms(2) by (simp add: fd_table_ok_seek)
  have "(\<lambda>i. if i < 8 then fd_desc (mem s) (fs s) (file_desc_arr (seek fd off (pcbs s p)) i) else Closed) =
      (descs (kernel_view s))(fd := d)"
    using assms(2,3,5) by (auto simp: fun_eq_iff seek_def kernel_view_def)
  then show "kernel_view (upd_pcb p (seek fd off) s) = set_desc (int fd) d (kernel_view s)"
    using v(1) fd t by (simp add: set_desc_def)
  show "serves (upd_pcb p (seek fd off) s)"
    using v(2) fd serves_facts(4) [OF assms(1)] assms(2) by (simp add: fd_table_ok_seek)
qed

text \<open>Bytes stored at a buffer by a call, and what the program then finds in the buffer.\<close>

lemma get_buffer_over:
  assumes "serves s" "placed A" "0 \<le> n" "n \<le> 1025" "length c \<le> nat n" "paging_ok u" "user_frame u = user_frame s"
    and "mem u = store_bytes (at A s) c (mem (put_buffer A (nat n) buf s))"
  shows "get_buffer A (nat n) buf u = over buf c"
proof
  fix i
  have m: "mem (put_buffer A (nat n) buf s) = store_bytes (at A s) (map buf [0..<nat n]) (mem s)"
    using put_buffer_eq(1) [OF assms(1,2), of "nat n" buf] assms(4) by simp
  show "get_buffer A (nat n) buf u i = over buf c i"
  proof (cases "i < nat n")
    case True
    then have "kmem u (A + i) = mem u (at A u + i)" using assms(4) by (intro kmem_buffer assms(2,6)) simp
    also have "at A u = at A s" by (simp add: at_def assms(7))
    finally have "kmem u (A + i) = (if i < length c then c ! i else buf i)"
      using True by (auto simp: assms(8) m store_bytes_def)
    then show ?thesis using True by (simp add: get_buffer_def over_def)
  next
    case False
    then show ?thesis using assms(5) by (simp add: get_buffer_def over_def)
  qed
qed

text \<open>A read that the descriptor refuses.\<close>

lemma kernel_read_refused:
  assumes "serves s" "placed A" "is_int32 fd" "desc_of (kernel_view s) fd \<in> {Display, Closed}" "0 \<le> n" "n \<le> 1025"
  shows "returns (kernel_read irq A fd buf n s) (\<lambda>(r, b, s'). r = -1 \<and> b = buf \<and> serves s' \<and> kernel_view s' = kernel_view s)"
proof -
  let ?s = "put_buffer A (nat n) buf s"
  note b = put_buffer_eq [OF assms(1,2), of "nat n" buf]
  have s: "serves ?s" "kernel_view ?s = kernel_view s" using b assms(6) by simp_all
  let ?p = "running_pid ?s" let ?f = "file_desc_arr (pcbs ?s ?p) (nat fd)" let ?u = "(update_file_pcb ?p ?s)\<lparr>iflag := iflag ?s\<rparr>"
  have none: "Option.bind (fops ?f) read_entry = (None :: 'a fd_call option)" if "0 \<le> fd" "fd < num_open_descriptors (pcbs ?s ?p)"
  proof -
    have "nat fd < 8" using that num_open_le [OF serves_facts(4) [OF s(1)]] by simp
    moreover have "fd_desc (mem ?s) (fs ?s) ?f \<in> {Display, Closed}"
      using kernel_desc_of [OF s(1), of fd] that assms(4) s(2) by simp
    moreover have "fops ?f = None" if "flags ?f = 0"
      using serves_facts(4) [OF s(1)] \<open>nat fd < 8\<close> that unfolding fd_table_ok_def
      by (metis (no_types) less_2_cases_iff not_le One_nat_def zero_neq_one)
    ultimately show ?thesis by (auto simp: fd_desc_def split: if_splits option.splits file_ops.splits)
  qed
  have "sys_read irq fd A n ?s = Some (-1, update_file_pcb ?p ?s)"
    using none placed_not_null [OF assms(2)] by (auto simp: sys_read_def Let_def)
  from read_call [OF this assms(3,5,6,2)]
  have call: "DO_CALL irq 3 (word_of_int fd) (word_of_nat A) (word_of_int n) ?s = Some (-1, ?u)" .
  have u: "serves ?u" "kernel_view ?u = kernel_view s"
    using other_variables(1,2) [OF s(1)] other_variables(3,4) [OF other_variables(2) [OF s(1)]] s(2) by simp_all
  have "mem ?s = store_bytes (at A s) (map buf [0..<nat n]) (mem s)" "user_frame ?s = user_frame s" using b(1) assms(6) by simp_all
  then have "get_buffer A (nat n) buf ?u = over buf []"
    using serves_facts(1) [OF u(1)] by (intro get_buffer_over [OF assms(1,2,5,6)]) simp_all
  then show ?thesis using call u by (simp add: kernel_read_def over_def)
qed

lemma read_setup:
  assumes "serves s" "placed A" "desc_of (kernel_view s) fd = d" "d \<noteq> Closed" "0 \<le> n" "n \<le> 1025"
  obtains p u f where "u = update_file_pcb p (put_buffer A (nat n) buf s)" "p = running_pid u"
    "f = file_desc_arr (pcbs u p) (nat fd)" "serves u" "kernel_view u = kernel_view s" "fd_desc (mem u) (fs u) f = d"
    "fd_ok (mem u) (fs u) f" "nat fd < 8" "fd < num_open_descriptors (pcbs u p)" "0 \<le> fd" "user_frame u = user_frame s"
proof -
  let ?t = "put_buffer A (nat n) buf s"
  let ?p = "running_pid ?t"
  let ?u = "update_file_pcb ?p ?t"
  have b: "?t = s\<lparr>mem := store_bytes (at A s) (map buf [0..<nat n]) (mem s)\<rparr>" "kernel_view ?t = kernel_view s" "serves ?t"
    using put_buffer_eq [OF assms(1,2), of "nat n" buf] assms(6) by simp_all
  have p: "running_pid ?u = ?p" by (simp add: running_pid_def)
  have u: "serves ?u" "kernel_view ?u = kernel_view s" using other_variables(1,2) [OF b(3)] b(2) by simp_all
  have fd: "0 \<le> fd" "fd < num_open_descriptors (pcbs ?u ?p)" "fd_desc (mem ?u) (fs ?u) (file_desc_arr (pcbs ?u ?p) (nat fd)) = d"
    using kernel_desc_of [OF u(1), of fd] assms(3,4) u(2) by (simp_all add: p split: if_splits)
  then have "nat fd < 8" using num_open_le [OF serves_facts(4) [OF b(3)]] by simp
  moreover from this u(1) have "fd_ok (mem ?u) (fs ?u) (file_desc_arr (pcbs ?u ?p) (nat fd))"
    unfolding serves_def p by blast
  moreover have "user_frame ?u = user_frame s" using b(1) by simp
  ultimately show ?thesis using that [of ?u ?p "file_desc_arr (pcbs ?u ?p) (nat fd)"] u fd p by simp
qed

lemma read_finish:
  assumes "serves s" "placed A" "0 \<le> n" "n \<le> 1025" "0 \<le> fd" "nat fd < 8"
    and "u = update_file_pcb p (put_buffer A (nat n) buf s)" "p = running_pid u" "fd < num_open_descriptors (pcbs u p)"
    and "Option.bind (fops (file_desc_arr (pcbs u p) (nat fd))) read_entry = Some rd" "rd irq fd A n u = Some (r, vstore A c v)"
    and "serves v" "kernel_view v = view" "mem v = mem u" "user_frame v = user_frame s" "length c \<le> nat n"
  shows "returns (kernel_read irq A fd buf n s) (\<lambda>(r', b, s'). r' = r \<and> b = over buf c \<and> serves s' \<and> kernel_view s' = view)"
proof -
  let ?t = "put_buffer A (nat n) buf s"
  have "running_pid u = running_pid ?t" "pcbs u = pcbs ?t" unfolding assms(7) by (simp_all add: running_pid_def)
  then have p: "running_pid ?t = p" "pcbs u = pcbs ?t" using assms(8) by simp_all
  have int: "is_int32 fd" using assms(5,6) by (simp add: is_int32_def)
  have w_eq: "vstore A c v = v\<lparr>mem := store_bytes (at A v) c (mem v)\<rparr>"
    using vstore_buffer [OF serves_facts(1) [OF assms(12)] assms(2)] assms(4,16) by simp
  have w: "serves (vstore A c v)" "kernel_view (vstore A c v) = view"
    unfolding w_eq at_def using store_in_frame [OF assms(12)] assms(13) by simp_all
  have "sys_read irq fd A n ?t = Some (r, vstore A c v)"
    using placed_not_null [OF assms(2)] assms(5,9-11)
    by (simp add: sys_read_def Let_def p assms(7) [symmetric])
  from read_call [OF this int assms(3,4,2)]
  have call: "DO_CALL irq 3 (word_of_int fd) (word_of_nat A) (word_of_int n) ?t = Some (r, (vstore A c v)\<lparr>iflag := iflag ?t\<rparr>)" .
  have "get_buffer A (nat n) buf ((vstore A c v)\<lparr>iflag := iflag ?t\<rparr>) = over buf c"
    using serves_facts(1) [OF w(1)] assms(7,14,15)
    by (intro get_buffer_over [OF assms(1-4,16)]) (simp_all add: w_eq at_def)
  then show ?thesis
    using call w other_variables(3,4) [OF w(1)] by (simp add: kernel_read_def)
qed

lemma kernel_read_file:
  assumes "serves s" "placed A" "desc_of (kernel_view s) fd = File bs" "0 \<le> n" "n \<le> 1025" "c = take (nat n) bs"
  shows "returns (kernel_read irq A fd buf n s) (\<lambda>(r, b, s'). r = int (length c) \<and> b = over buf c \<and> serves s' \<and>
    kernel_view s' = set_desc fd (File (drop (nat n) bs)) (kernel_view s))"
proof -
  obtain p u f where u: "u = update_file_pcb p (put_buffer A (nat n) buf s)" "p = running_pid u"
    "f = file_desc_arr (pcbs u p) (nat fd)" "serves u" "kernel_view u = kernel_view s" "fd_desc (mem u) (fs u) f = File bs"
    "fd_ok (mem u) (fs u) f" "nat fd < 8" "fd < num_open_descriptors (pcbs u p)" "0 \<le> fd" "user_frame u = user_frame s"
    by (rule read_setup [OF assms(1-3) _ assms(4,5), of buf]) simp
  have f: "flags f \<noteq> 0" "fops f = Some f_ops" "bs = drop (nat (file_offset f)) (file_content (mem u) (fs u) (fd_inode f))"
    using u(6) by (auto simp: fd_desc_def split: if_splits option.splits file_ops.splits)
  then have ok: "fd_inode f \<noteq> 0" "0 \<le> file_offset f" "inode_placed (mem u) (fs u) (fd_inode f)"
    using u(7) by (simp_all add: fd_ok_def)
  let ?off = "file_offset f + int (length c)"
  let ?v = "upd_pcb p (seek (nat fd) ?off) u"
  have "file_pcb u = Some p" unfolding u(1) by simp
  then have "readable u p (nat fd)"
    using serves_facts(1) [OF u(4)] u(9,10) ok unfolding readable_def u(3) [symmetric] by simp
  moreover have "c = take (nat n) (drop (nat (file_offset f)) (fd_content u p (nat fd)))"
    unfolding fd_content_def u(3) [symmetric] using assms(6) f(3) by simp
  ultimately have "file_read fd n u = Some (int (length c), c, ?v)"
    using file_read_eq [of u p "nat fd" n "file_offset f" c] assms(4) u(3,10) by simp
  then have rd: "the (read_entry f_ops) irq fd A n u = Some (int (length c), vstore A c ?v)" by simp
  have "drop (nat n) bs = drop (length c) bs" using assms(6) by (simp add: min_def)
  then have "File (drop (nat n) bs) = fd_desc (mem u) (fs u) ((file_desc_arr (pcbs u p) (nat fd))\<lparr>file_offset := ?off\<rparr>)"
    unfolding u(3) [symmetric] using f ok(2) by (simp add: fd_desc_def nat_add_distrib add.commute)
  from seek_view [OF u(4,2,8) _ this] ok(2)
  have v: "kernel_view ?v = set_desc fd (File (drop (nat n) bs)) (kernel_view s)" "serves ?v"
    using u(5,10) by simp_all
  have "Option.bind (fops (file_desc_arr (pcbs u p) (nat fd))) read_entry = Some (the (read_entry f_ops) :: 'a fd_call)"
    using f(2) u(3) by simp
  moreover have "length c \<le> nat n" using assms(6) by simp
  ultimately show ?thesis
    using read_finish [where rd = "the (read_entry f_ops)", OF assms(1,2,4,5) u(10,8,1,2,9) _ rd v(2,1)] u(11) by simp
qed

lemma names_on_nth: "0 \<le> i \<Longrightarrow> i < num_direntries g \<Longrightarrow> drop (nat i) (names_on m g) = dentry_name m g i # drop (nat (i + 1)) (names_on m g)"
  unfolding names_on_def by (subst Cons_nth_drop_Suc [symmetric]) (simp_all add: nat_add_distrib nat_less_iff)

lemma dentry_name_plain: "length (dentry_name m g i) \<le> 32" "NUL \<notin> set (dentry_name m g i)"
  using length_takeWhile_le [of "\<lambda>b. b \<noteq> NUL" "filename (load_dentry m (direntry g i))"]
  by (auto simp: dentry_name_def dest: set_takeWhileD)

text \<open>The next name of a directory, or its end.\<close>

lemma kernel_read_name:
  assumes "serves s" "placed A" "desc_of (kernel_view s) fd = Dir nms"
  shows "returns (kernel_read irq A fd buf 32 s) (\<lambda>(r, b, s'). serves s' \<and> (case nms of [] \<Rightarrow> r = 0 \<and> kernel_view s' = kernel_view s
    | nm # nms \<Rightarrow> r = int (length nm) \<and> 1 \<le> length nm \<and> length nm \<le> 32 \<and> NUL \<notin> set nm \<and>
        b = over buf (nm @ replicate (32 - length nm) NUL) \<and> kernel_view s' = set_desc fd (Dir nms) (kernel_view s)))"
proof -
  obtain p u f where u: "u = update_file_pcb p (put_buffer A (nat 32) buf s)" "p = running_pid u"
    "f = file_desc_arr (pcbs u p) (nat fd)" "serves u" "kernel_view u = kernel_view s" "fd_desc (mem u) (fs u) f = Dir nms"
    "fd_ok (mem u) (fs u) f" "nat fd < 8" "fd < num_open_descriptors (pcbs u p)" "0 \<le> fd" "user_frame u = user_frame s"
    by (rule read_setup [OF assms, of 32 buf]) simp_all
  have f: "flags f \<noteq> 0" "fops f = Some d_ops" "nms = drop (nat (file_offset f)) (names_on (mem u) (fs u))"
    using u(6) by (auto simp: fd_desc_def split: if_splits option.splits file_ops.splits)
  let ?i = "file_offset f"
  have ok: "fd_inode f = 0" "0 \<le> ?i" using u(7) f(1,2) by (simp_all add: fd_ok_def)
  have "file_pcb u = Some p" unfolding u(1) by simp
  then have l: "listable u p (nat fd)"
    using serves_facts(3) [OF u(4)] u(9,10) ok(1) unfolding listable_def u(3) [symmetric] by simp
  have entry: "Option.bind (fops (file_desc_arr (pcbs u p) (nat fd))) read_entry = Some (the (read_entry d_ops) :: 'a fd_call)"
    using f(2) u(3) by simp
  show ?thesis
  proof (cases "?i < num_direntries (fs u)")
    case True
    let ?nm = "dentry_name (mem u) (fs u) ?i" and ?v = "upd_pcb p (seek (nat fd) (?i + 1)) u"
    have nms: "nms = ?nm # drop (nat (?i + 1)) (names_on (mem u) (fs u))" using names_on_nth [OF ok(2) True] f(3) by simp
    have "dentry_ok (mem u) (fs u) ?i" using u(4) ok(2) True by (simp add: serves_def)
    then have nm: "1 \<le> length ?nm" "length ?nm \<le> 32" "NUL \<notin> set ?nm"
      using dentry_name_plain [of "mem u" "fs u" ?i] by (simp_all add: dentry_ok_def Suc_le_eq)
    have "the (read_entry d_ops) irq fd A 32 u = Some (int (length ?nm), vstore A (padded ?nm) ?v)"
      using dir_read_entry [OF l, of ?i 32] ok(2) True u(3,10) by simp
    moreover have "padded ?nm = ?nm @ replicate (32 - length ?nm) NUL" using nm(2) by (simp add: padded_def)
    ultimately have rd: "the (read_entry d_ops) irq fd A 32 u = Some (int (length ?nm), vstore A (?nm @ replicate (32 - length ?nm) NUL) ?v)"
      by simp
    have "Dir (drop (nat (?i + 1)) (names_on (mem u) (fs u))) =
        fd_desc (mem u) (fs u) ((file_desc_arr (pcbs u p) (nat fd))\<lparr>file_offset := ?i + 1\<rparr>)"
      unfolding u(3) [symmetric] using f(1,2) by (simp add: fd_desc_def)
    from seek_view [OF u(4,2,8) _ this] ok(2)
    have v: "kernel_view ?v = set_desc fd (Dir (drop (nat (?i + 1)) (names_on (mem u) (fs u)))) (kernel_view s)" "serves ?v"
      using u(5,10) by simp_all
    have "returns (kernel_read irq A fd buf 32 s) (\<lambda>(r', b, s'). r' = int (length ?nm) \<and>
        b = over buf (?nm @ replicate (32 - length ?nm) NUL) \<and> serves s' \<and>
        kernel_view s' = set_desc fd (Dir (drop (nat (?i + 1)) (names_on (mem u) (fs u)))) (kernel_view s))"
      using read_finish [where rd = "the (read_entry d_ops)", OF assms(1,2) _ _ u(10,8,1,2,9) entry rd v(2,1)] u(11) nm(2) by simp
    then show ?thesis
      unfolding nms list.case by (rule returns_mono) (use nm in auto)
  next
    case False
    then have "nms = []" using f(3) by (simp add: names_on_def)
    moreover have "the (read_entry d_ops) irq fd A 32 u = Some (0, vstore A [] u)"
      using dir_read_end [OF l, of 32] False u(3,10) by simp
    ultimately have "returns (kernel_read irq A fd buf 32 s) (\<lambda>(r', b, s'). r' = 0 \<and> b = over buf [] \<and> serves s' \<and>
        kernel_view s' = kernel_view s)"
      using read_finish [where rd = "the (read_entry d_ops)", OF assms(1,2) _ _ u(10,8,1,2,9) entry _ u(4,5)] u(11) by simp
    then show ?thesis
      unfolding \<open>nms = []\<close> list.case by (rule returns_mono) auto
  qed
qed

end
