(* ===== verification/UserRefine.thy ===== *)
theory UserRefine
  imports UserKernel
begin

text \<open>
  The kernel keeps the contract of \<open>UserSpec\<close>: each system call, from the wrapper of the program down
  to the handler, does to the view of the running process what the specification says.  The
  interpretation at the end carries every theorem about a program over to the kernel.
\<close>

section \<open>Write, open and close\<close>

lemma show_screen_system:
  assumes "serves s" "screen_ok c" "k = sched_term s" "b = video_base s"
  shows "kernel_view (show_screen k b c out (s\<lparr>iflag := fl\<rparr>)) = (kernel_view s)\<lparr>shown := c\<rparr>"
    "serves (show_screen k b c out (s\<lparr>iflag := fl\<rparr>))"
proof -
  let ?s = "show_screen k b c out (s\<lparr>iflag := fl\<rparr>)"
  have len: "length (cells c) = 2000" using assms(2) by (simp add: screen_ok_def)
  have "agree_kernel (mem s) (mem ?s)"
    using video_base_bound [OF serves_facts(1) [OF assms(1)]] assms(4) len
    by (simp add: agree_kernel_def mem_show_screen put_cells_def)
  then have "same_system s ?s"
    by (simp add: same_system_def running_pid_def show_screen_def with_cells_def upd_term_def paging_of_def)
  note same = same_system_view [OF assms(1) this]
  have "screen_of (sched_term s) (video_base s) ?s = c" using screen_of_show [OF len] assms(3,4) by simp
  then show "kernel_view ?s = (kernel_view s)\<lparr>shown := c\<rparr>" "serves ?s" using same assms(2) by simp_all
qed

lemma kernel_write_display:
  assumes "serves s" "placed A" "desc_of (kernel_view s) fd = Display" "0 \<le> n" "n \<le> 1025"
  shows "returns (kernel_write irq A fd buf n s) (\<lambda>(r, s'). r = n \<and> serves s' \<and>
    kernel_view s' = showing screen_putc (map buf [0..<nat n]) (kernel_view s))"
proof -
  let ?t = "put_buffer A (nat n) buf s"
  obtain p u f where u: "u = update_file_pcb p ?t" "p = running_pid u"
    "f = file_desc_arr (pcbs u p) (nat fd)" "serves u" "kernel_view u = kernel_view s" "fd_desc (mem u) (fs u) f = Display"
    "fd_ok (mem u) (fs u) f" "nat fd < 8" "fd < num_open_descriptors (pcbs u p)" "0 \<le> fd" "user_frame u = user_frame s"
    by (rule read_setup [OF assms(1-3) _ assms(4,5), of buf]) simp
  let ?bs = "map buf [0..<nat n]" and ?k = "sched_term u" and ?b = "video_base u"
  have p: "running_pid ?t = p" "pcbs ?t = pcbs u"
    using u(1,2) by (metis running_pid_def update_file_pcb_simps(6,7)) (simp add: u(1))
  have f: "fops f = Some stdout_fops" using u(6) by (auto simp: fd_desc_def split: if_splits option.splits file_ops.splits)
  have A: "A = 0x8000000 + (A - 0x8000000)" "A - 0x8000000 + nat n \<le> 0x400000"
    using assms(2,5) unfolding placed_def by linarith+
  have mem: "load_bytes (mem u) (user_frame u * 0x400000 + (A - 0x8000000)) (nat n) = ?bs"
    using put_buffer_eq(1) [OF assms(1,2), of "nat n" buf] assms(5) u(11)
    by (simp add: u(1) at_def load_store_eq)
  have scr: "screen_ok (screen_of ?k ?b u)" "?k < 3" "1 \<le> user_frame u" using u(4) by (simp_all add: serves_def)
  from write_chars_show [OF serves_facts(1) [OF u(4)] scr(3) A(2) scr(2) refl refl scr(1)]
  obtain out fl where w: "fold (write_char A) [0..<nat n] u =
      show_screen ?k ?b (screen_puts ?bs (screen_of ?k ?b u)) out (u\<lparr>iflag := fl\<rparr>)"
    "screen_ok (screen_puts ?bs (screen_of ?k ?b u))"
    unfolding mem A(1) [symmetric] by blast
  define v where "v = show_screen ?k ?b (screen_puts ?bs (screen_of ?k ?b u)) out (u\<lparr>iflag := fl\<rparr>)"
  have "kernel_view v = (kernel_view u)\<lparr>shown := screen_puts ?bs (screen_of ?k ?b u)\<rparr>" "serves v"
    unfolding v_def using show_screen_system [OF u(4) w(2) refl refl] by blast+
  then have v: "kernel_view v = showing screen_putc ?bs (kernel_view s)" "serves v"
    unfolding u(5) [symmetric] showing_def by (simp_all add: screen_puts_def)
  have "sys_write irq fd A n ?t = Some (n, v)"
    using placed_not_null [OF assms(2)] u(9,10) f assms(4) w(1)
    by (simp add: sys_write_def Let_def p u(1) [symmetric] u(3) [symmetric] terminal_write_def v_def)
  moreover have "is_int32 fd" using u(8,10) by (simp add: is_int32_def)
  ultimately show ?thesis
    using write_call [of irq fd A n ?t n v] assms(2,4,5) v other_variables(3,4) [OF v(2)] by (simp add: kernel_write_def)
qed

text \<open>Opening and closing.\<close>

lemma name_in_buffer:
  assumes "serves s" "placed A" "cstr name = Some nm" "length nm \<le> 1024"
  shows "cstr (\<lambda>i. kmem (put_buffer A (length nm + 1) name s) (A + i)) = Some nm"
proof -
  let ?t = "put_buffer A (length nm + 1) name s"
  note b = put_buffer_eq [OF assms(1,2), of "length nm + 1" name]
  have t: "paging_ok ?t" "at A ?t = at A s" using serves_facts(1) [OF b(3)] b(1) assms(4) by (simp_all add: at_def)
  have n: "name (length nm) = NUL" "\<forall>i < length nm. name i = nm ! i \<and> nm ! i \<noteq> NUL"
    using assms(3) by (auto simp: cstr_eq_Some strlen_eq_Some)
  have k: "kmem ?t (A + i) = name i" if "i < length nm + 1" for i
  proof -
    have "kmem ?t (A + i) = mem ?t (at A s + i)" using kmem_buffer [OF t(1) assms(2), of i] that assms(4) t(2) by simp
    also have "\<dots> = name i" using b(1) that assms(4) by (simp add: store_bytes_def del: upt_Suc)
    finally show ?thesis .
  qed
  show ?thesis using k n by (simp add: cstr_eq_Some strlen_eq_Some)
qed

lemma dentry_open_desc:
  assumes "serves s" "lookup s nm = Some d"
  shows "open_ops d = None \<Longrightarrow> dentry_desc (mem s) (fs s) d = None"
    "open_ops d = Some (ops, inode) \<Longrightarrow> dentry_desc (mem s) (fs s) d = Some (fd_desc (mem s) (fs s) (opened_fd ops inode n))
      \<and> fd_ok (mem s) (fs s) (opened_fd ops inode n)"
proof -
  show "open_ops d = None \<Longrightarrow> dentry_desc (mem s) (fs s) d = None"
    by (auto simp: open_ops_def dentry_desc_def split: if_splits)
  obtain i where i: "0 \<le> i" "i < num_direntries (fs s)" "d = load_dentry (mem s) (direntry (fs s) i)"
    using lookup_entry [OF assms(2)] by blast
  then have "dentry_ok (mem s) (fs s) i" using assms(1) by (simp add: serves_def)
  then show "open_ops d = Some (ops, inode) \<Longrightarrow> dentry_desc (mem s) (fs s) d = Some (fd_desc (mem s) (fs s) (opened_fd ops inode n))
      \<and> fd_ok (mem s) (fs s) (opened_fd ops inode n)"
    using i(3) by (auto simp: open_ops_def dentry_desc_def fd_desc_def fd_ok_def opened_fd_def dentry_ok_def split: if_splits)
qed

lemma kernel_open_refines:
  assumes "serves s" "placed A" "cstr name = Some nm" "length nm \<le> 1024"
  shows "returns (kernel_open irq A x y name s) (\<lambda>(r, s'). serves s' \<and> (r, kernel_view s') = spec_open nm (kernel_view s))"
proof -
  let ?t = "put_buffer A (length nm + 1) name s"
  let ?p = "running_pid ?t"
  let ?pcb = "pcbs ?t ?p"
  note b = put_buffer_eq(2,3) [OF assms(1,2), of "length nm + 1" name]
  have t: "serves ?t" "kernel_view ?t = kernel_view s" using b assms(4) by simp_all
  note c = name_in_buffer [OF assms]
  have "\<exists>r u. open_file (\<lambda>i. kmem ?t (A + i)) ?t = Some (r, u) \<and> serves u \<and> (r, kernel_view u) = spec_open nm (kernel_view ?t)"
  proof (cases "num_open_descriptors ?pcb < 8 \<and> (\<exists>d. lookup ?t nm = Some d \<and> open_ops d \<noteq> None)")
    case False
    then have "num_open_descriptors ?pcb = 8 \<or> lookup ?t nm = None \<or> (\<exists>d. lookup ?t nm = Some d \<and> open_ops d = None)"
      using num_open_le [OF serves_facts(4) [OF t(1)]] by auto
    then have "open_file (\<lambda>i. kmem ?t (A + i)) ?t = Some (-1, ?t)" "spec_open nm (kernel_view ?t) = (-1, kernel_view ?t)"
      using lookup_eq [OF serves_facts(3) [OF t(1)] c] kernel_in_use [OF t(1)] dentry_open_desc(1) [OF t(1)]
      by (auto simp: open_file_def Let_def spec_open_def split: option.split)
    then show ?thesis using t(1) by simp
  next
    case True
    then obtain d ops inode where d: "num_open_descriptors ?pcb < 8" "lookup ?t nm = Some d" "open_ops d = Some (ops, inode)" by auto
    let ?fd = "free_fd ?pcb" and ?f = "opened_fd ops inode (filename d)"
    let ?u = "upd_pcb ?p (open_in ?fd ?f) ?t"
    note low = free_fd_lowest [OF serves_facts(4) [OF t(1)] d(1)]
    note desc = dentry_open_desc(2) [OF t(1) d(2,3), of "filename d"]
    have "open_file (\<lambda>i. kmem ?t (A + i)) ?t = Some (int ?fd, ?u)"
      using lookup_eq [OF serves_facts(3) [OF t(1)] c] d by (intro open_file_eq) auto
    moreover have fd: "fd_ok (mem ?t) (fs ?t) (file_desc_arr (open_in ?fd ?f ?pcb) i)" if "i < 8" for i
      using desc t(1) that by (simp add: open_in_def serves_def)
    have ok: "fd_table_ok (open_in ?fd ?f ?pcb)" by (rule fd_table_ok_open_in [OF serves_facts(4) [OF t(1)] d(1,3)])
    have args: "args (open_in ?fd ?f ?pcb) = args ?pcb" by (simp add: open_in_def)
    note v = pcb_view [where f = "open_in ?fd ?f", OF t(1) refl ok args fd]
    have "(\<lambda>i. if i < 8 then fd_desc (mem ?t) (fs ?t) (file_desc_arr (open_in ?fd ?f ?pcb) i) else Closed) =
        (descs (kernel_view ?t))(?fd := fd_desc (mem ?t) (fs ?t) ?f)"
      using low(2) by (auto simp: fun_eq_iff open_in_def kernel_view_def)
    then have "(int ?fd, kernel_view ?u) = spec_open nm (kernel_view ?t)"
      using v(1) d(1,2) desc kernel_in_use [OF t(1)] kernel_next_desc [OF t(1)] by (simp add: spec_open_def set_desc_def)
    ultimately show ?thesis using v(2) by blast
  qed
  then obtain r u where u: "open_file (\<lambda>i. kmem ?t (A + i)) ?t = Some (r, u)" "serves u" "(r, kernel_view u) = spec_open nm (kernel_view ?t)"
    by blast
  have "strlen name = Some (length nm)" using assms(3) by (simp add: cstr_eq_Some)
  moreover have "DO_CALL irq 5 (word_of_nat A) x y ?t = Some (r, u\<lparr>iflag := iflag ?t\<rparr>)"
    using syscall_call [of 5 irq "word_of_nat A" x y ?t r u, OF _ _ refl] u(1)
    by (simp add: DO_CALL_def syscall_table_def address_word [OF assms(2)])
  ultimately show ?thesis
    using u(2,3) t(2) other_variables(3,4) [OF u(2)] by (simp add: kernel_open_def)
qed

lemma kernel_close_refines:
  assumes "serves s" "is_int32 fd"
  shows "returns (kernel_close irq x y fd s) (\<lambda>(r, s'). serves s' \<and> (r, kernel_view s') = spec_close fd (kernel_view s))"
proof -
  let ?p = "running_pid s"
  let ?pcb = "pcbs s ?p"
  note ok = serves_facts(4) [OF assms(1)]
  have flag: "fd_desc (mem s) (fs s) (file_desc_arr ?pcb (nat fd)) = Closed \<longleftrightarrow> flags (file_desc_arr ?pcb (nat fd)) = 0"
    if "2 \<le> fd" "fd < num_open_descriptors ?pcb"
  proof -
    have "nat fd < 8" using that num_open_le [OF ok] by simp
    then show ?thesis using fd_desc_open [OF ok] ok by (auto simp: fd_table_ok_def)
  qed
  have "serves (snd (close_fd fd s)) \<and> (fst (close_fd fd s), kernel_view (snd (close_fd fd s))) = spec_close fd (kernel_view s)"
  proof (cases "2 \<le> fd \<and> fd < num_open_descriptors ?pcb \<and> flags (file_desc_arr ?pcb (nat fd)) \<noteq> 0")
    case False
    then have "close_fd fd s = (-1, s)" by (intro close_fd_refused) auto
    moreover have "spec_close fd (kernel_view s) = (-1, kernel_view s)"
      using False flag kernel_desc_of [OF assms(1), of fd] by (auto simp: spec_close_def)
    ultimately show ?thesis using assms(1) by simp
  next
    case True
    then have n: "nat fd < 8" "2 \<le> nat fd" using num_open_le [OF ok] by auto
    have c: "close_fd fd s = (0, upd_pcb ?p (close_in (nat fd)) s)" using close_fd_eq [of fd s] True by simp
    have fd: "fd_ok (mem s) (fs s) (file_desc_arr (close_in (nat fd) ?pcb) i)" if "i < 8" for i
      using assms(1) that by (simp add: close_in_def serves_def) (simp add: fd_ok_def closed_fd_def)
    have args: "args (close_in (nat fd) ?pcb) = args ?pcb" by (simp add: close_in_def)
    have t: "fd_table_ok (close_in (nat fd) ?pcb)" using fd_table_ok_close_in [OF ok n(2,1)] True by simp
    note v = pcb_view [where f = "close_in (nat fd)", OF assms(1) refl t args fd]
    have "(\<lambda>i. if i < 8 then fd_desc (mem s) (fs s) (file_desc_arr (close_in (nat fd) ?pcb) i) else Closed) =
        (descs (kernel_view s))(nat fd := Closed)"
      using n(1) by (auto simp: fun_eq_iff close_in_def kernel_view_def fd_desc_def closed_fd_def)
    then show ?thesis
      using c v True flag kernel_desc_of [OF assms(1), of fd] by (simp add: spec_close_def set_desc_def)
  qed
  moreover have "DO_CALL irq 6 (word_of_int fd) x y s = Some (fst (close_fd fd s), (snd (close_fd fd s))\<lparr>iflag := iflag s\<rparr>)"
    using syscall_call [of 6 irq "word_of_int fd" x y s "fst (close_fd fd s)" "snd (close_fd fd s)", OF _ _ refl]
    by (simp add: DO_CALL_def syscall_table_def int32_word [OF assms(2)] split_beta)
  ultimately show ?thesis
    using other_variables(3,4) [of "snd (close_fd fd s)"] by (simp add: kernel_close_def)
qed


section \<open>Arguments and the refused calls\<close>

lemma newest_pid_cong: "pid_arr s' = pid_arr s \<Longrightarrow> newest_pid s' = newest_pid s"
  by (simp add: newest_pid_def free_pid_def)

lemma takeWhile_upt:
  assumes "takeWhile P (map f [0..<n]) = xs" "length xs < n"
  shows "\<not> P (f (length xs))" "i < length xs \<Longrightarrow> f i = xs ! i \<and> P (xs ! i)"
proof -
  have l: "length (takeWhile P (map f [0..<n])) < length (map f [0..<n])" using assms by simp
  from nth_length_takeWhile [OF l] show "\<not> P (f (length xs))" using assms by simp
  assume i: "i < length xs"
  then have "takeWhile P (map f [0..<n]) ! i = map f [0..<n] ! i" using assms(1) by (intro takeWhile_nth) simp
  then show "f i = xs ! i \<and> P (xs ! i)"
    using i assms set_takeWhileD [of "xs ! i" P "map f [0..<n]"] nth_mem [OF i] by simp
qed

lemma cstr_over_takeWhile:
  assumes "takeWhile (\<lambda>b. b \<noteq> NUL) (map f [0..<n]) = xs" "length xs < n"
  shows "cstr (over buf (map f [0..<n])) = Some xs"
proof -
  note t = takeWhile_upt [OF assms]
  have "over buf (map f [0..<n]) i = f i" if "i \<le> length xs" for i
    using that assms(2) by (simp add: over_def)
  moreover from this have "strlen (over buf (map f [0..<n])) = Some (length xs)"
    using t by (auto simp: strlen_eq_Some)
  ultimately show ?thesis using t(2) by (simp add: cstr_eq_Some)
qed

lemma kernel_getargs_refines:
  assumes "serves s" "placed A" "as = arguments (kernel_view s)" "as \<noteq> []" "length as < 32"
  shows "returns (kernel_getargs irq A y buf 1024 s) (\<lambda>(r, b, s'). r = 0 \<and> cstr b = Some as \<and>
    serves s' \<and> kernel_view s' = kernel_view s)"
proof -
  let ?t = "put_buffer A 1024 buf s"
  let ?f = "args (pcbs ?t (newest_pid ?t))"
  let ?u = "vstore A (map ?f [0..<32]) ?t"
  note b = put_buffer_eq [OF assms(1,2), of 1024 buf]
  have t: "serves ?t" "kernel_view ?t = kernel_view s" using b(2,3) by simp_all
  have as: "takeWhile (\<lambda>b. b \<noteq> NUL) (map ?f [0..<32]) = as" using assms(3) t(2) by (metis kernel_view_simps(4))
  then have "?f 0 \<noteq> NUL" using assms(4) takeWhile_upt(2) [OF as assms(5), of 0] by fastforce
  moreover have "newest_pid ?t \<noteq> 0" using t(1) by (simp add: serves_def)
  moreover have "A \<noteq> 0" using assms(2) by (auto simp: placed_def)
  ultimately have g: "getargs A 1024 ?t = Some (0, ?u)"
    by (simp add: getargs_def Let_def newest_pid_def del: upt_conv_Cons upt_rec_numeral)
  have u_eq: "?u = ?t\<lparr>mem := store_bytes (at A ?t) (map ?f [0..<32]) (mem ?t)\<rparr>"
    by (rule vstore_buffer [OF serves_facts(1) [OF t(1)] assms(2)]) simp
  have u: "serves ?u" "kernel_view ?u = kernel_view s" "user_frame ?u = user_frame s"
    unfolding u_eq at_def using store_in_frame [OF t(1)] t(2) b(1) by simp_all
  let ?v = "?u\<lparr>iflag := iflag ?t\<rparr>"
  have "DO_CALL irq 7 (word_of_nat A) (word_of_int 1024) y ?t = Some (0, ?v)"
    using syscall_call [of 7 irq "word_of_nat A" "word_of_int 1024" y ?t 0 ?u, OF _ _ refl] g
    by (simp add: DO_CALL_def syscall_table_def address_word [OF assms(2)])
  moreover have "get_buffer A (nat 1024) buf ?v = over buf (map ?f [0..<32])"
  proof (rule get_buffer_over [OF assms(1,2)])
    show "mem ?v = store_bytes (at A s) (map ?f [0..<32]) (mem (put_buffer A (nat 1024) buf s))"
      unfolding u_eq using b(1) by (simp add: at_def)
    show "paging_ok ?v" using serves_facts(1) [OF other_variables(4) [OF u(1)]] .
  qed (simp_all add: u(3))
  ultimately have "returns (kernel_getargs irq A y buf 1024 s)
      (\<lambda>(r, b, s'). r = 0 \<and> b = over buf (map ?f [0..<32]) \<and> s' = ?v)"
    by (simp add: kernel_getargs_def)
  then show ?thesis
    using cstr_over_takeWhile [OF as assms(5)] other_variables(3,4) [OF u(1)] u(2) by (auto elim!: returns_mono)
qed

lemma kernel_no_arguments:
  assumes "serves s" "placed A" "arguments (kernel_view s) = []"
  shows "returns (kernel_getargs irq A y buf 1024 s) (\<lambda>(r, b, s'). r = -1 \<and> serves s' \<and> kernel_view s' = kernel_view s)"
proof -
  let ?t = "put_buffer A 1024 buf s"
  have t: "serves ?t" "kernel_view ?t = kernel_view s" using put_buffer_eq(2,3) [OF assms(1,2), of 1024 buf] by simp_all
  have "takeWhile (\<lambda>b. b \<noteq> NUL) (map (args (pcbs ?t (newest_pid ?t))) [0..<32]) = []" using assms(3) t(2) by (metis kernel_view_simps(4))
  then have "args (pcbs ?t (newest_pid ?t)) 0 = NUL" by (simp add: upt_conv_Cons split: if_splits)
  moreover have "newest_pid ?t \<noteq> 0" "A \<noteq> 0" using t(1) assms(2) by (auto simp: serves_def placed_def)
  ultimately have "getargs A 1024 ?t = Some (-1, ?t)" by (simp add: getargs_def Let_def newest_pid_def)
  then have "DO_CALL irq 7 (word_of_nat A) (word_of_int 1024) y ?t = Some (-1, ?t\<lparr>iflag := iflag ?t\<rparr>)"
    using syscall_call [of 7 irq "word_of_nat A" "word_of_int 1024" y ?t "-1" ?t, OF _ _ refl]
    by (simp add: DO_CALL_def syscall_table_def address_word [OF assms(2)])
  then show ?thesis using other_variables(3,4) [OF t(1)] t by (simp add: kernel_getargs_def)
qed

lemma kernel_vidmap_refused:
  assumes "serves s" "a < 0x8000000"
  shows "kernel_vidmap irq x y a s = Some (-1, s)"
proof -
  have "sint (word_of_nat a :: u32) = int a" using assms(2) by (simp add: signed_of_nat signed_take_bit_int_eq_self)
  moreover have "unat (word_of_nat a :: u32) = a" using assms(2) by (simp add: unat_of_nat take_bit_nat_eq_self)
  ultimately have "vidmap (unat (word_of_nat a :: u32)) s = (-1, cli s)" using assms(2) by (simp add: vidmap_def Let_def)
  then show ?thesis
    using syscall_call [of 8 irq "word_of_nat a" x y s "-1" "cli s", OF _ _ refl]
    by (simp add: kernel_vidmap_def DO_CALL_def syscall_table_def cli_def)
qed

lemma kernel_no_such_call:
  "n < 1 \<or> 10 < n \<Longrightarrow> is_int32 n \<Longrightarrow> call_sys (kernel_calls irq A x y run) n s = Some (-1, s)"
  by (auto simp: kernel_calls_def syscall_asm_def int32_word)

section \<open>The contract\<close>

text \<open>With a buffer of 1025 bytes anywhere in the program's window.\<close>

lemma kernel_calls_simps [simp]:
  "ece391_execute (kernel_calls irq A x y run) = kernel_execute irq A x y run"
  "ece391_read (kernel_calls irq A x y run) = kernel_read irq A" "ece391_write (kernel_calls irq A x y run) = kernel_write irq A"
  "ece391_open (kernel_calls irq A x y run) = kernel_open irq A x y" "ece391_close (kernel_calls irq A x y run) = kernel_close irq x y"
  "ece391_getargs (kernel_calls irq A x y run) = kernel_getargs irq A y" "ece391_vidmap (kernel_calls irq A x y run) = kernel_vidmap irq x y"
  by (simp_all add: kernel_calls_def)

interpretation kernel: user_system "kernel_calls irq A x y run" "\<lambda>s. serves s \<and> placed A" kernel_view screen_putc
  for irq :: "'a interrupts" and A x y run
proof (unfold_locales, unfold kernel_calls_simps, elim conjE, goal_cases)
  case 1
  then show ?case by (auto intro!: returns_mono [OF kernel_write_display])
next
  case 2
  then show ?case by (auto intro!: returns_mono [OF kernel_write_refused])
next
  case 3
  then show ?case by (auto intro!: returns_mono [OF kernel_read_file])
next
  case 4
  then show ?case by (auto intro!: returns_mono [OF kernel_read_name])
next
  case 5
  then show ?case by (auto intro!: returns_mono [OF kernel_read_name])
next
  case 6
  then show ?case by (auto intro!: returns_mono [OF kernel_read_refused])
next
  case 7
  then show ?case by (auto intro!: returns_mono [OF kernel_open_refines])
next
  case 8
  then show ?case by (auto intro!: returns_mono [OF kernel_close_refines])
next
  case 9
  then show ?case by (auto intro!: returns_mono [OF kernel_getargs_refines])
next
  case 10
  then show ?case by (auto intro!: returns_mono [OF kernel_no_arguments])
next
  case 11
  then show ?case by (simp add: kernel_vidmap_refused)
next
  case 12
  then show ?case by (simp add: kernel_no_such_call)
qed

end
