(* ===== verification/UserRuns.thy ===== *)
theory UserRuns
  imports UserRefine
begin

text \<open>
  What the user programs do on this kernel: the theorems of \<open>UserSpec\<close> and \<open>SysErrSpec\<close>, read on the
  interpretation of the contract, in terms of the kernel's file system and screen.
\<close>

lemma cstr_plain: "cstr c = Some xs \<Longrightarrow> NUL \<notin> set xs \<and> c (length xs) = NUL"
proof -
  assume "cstr c = Some xs"
  then have "c (length xs) = NUL" "\<forall>j < length xs. xs ! j \<noteq> NUL" by (auto simp: cstr_eq_Some strlen_eq_Some)
  then show ?thesis by (metis in_set_conv_nth)
qed

section \<open>A machine with a program that can run\<close>

text \<open>
  The machine of \<open>Process\<close> with one process and another image: a file \<open>cat\<close> of 28 bytes on inode 2 (below,
  a program), the text file \<open>f\<close> and the directory.  The arguments of the process are \<open>bs\<close>.
\<close>

definition demo_image :: "byte list \<Rightarrow> mem" where
  "demo_image p = store_bytes 0x505000 p (store_bytes 0x503000 (bytes32 28 @ bytes32 1)
     (store_bytes 0x502004 (bytes32 0) (store_bytes 0x500060 (bytes32 2 @ bytes32 2)
     (store_bytes 0x500040 (bytes_of ''cat'' @ [0, 0]) demo_mem))))"

definition demo_dir :: fs_globals where
  "demo_dir = \<lparr>fs_start = 0x500000, num_inodes = 3, num_direntries = 3, fs_D = 2, fs_N = 4\<rparr>"

definition demo_machine :: "byte list \<Rightarrow> byte list \<Rightarrow> kernel_state" where
  "demo_machine p bs = demo_running\<lparr>mem := demo_image p, fs := demo_dir, pid_arr := (\<lambda>_. 0)(0 := 1),
     pcbs := (pcbs demo_running)(1 := (pcbs demo_running 1)\<lparr>args := arr_of bs\<rparr>)\<rparr>"

lemma image_words:
  assumes p: "length p = 28"
  shows "load_i32 (demo_image p) 0x502000 = 5" "load_i32 (demo_image p) 0x502004 = 0"
  "load_i32 (demo_image p) 0x503000 = 28" "load_i32 (demo_image p) 0x503004 = 1"
  "load_i32 (demo_image p) 0x500060 = 2" "load_i32 (demo_image p) 0x500064 = 2"
  "load_i32 (demo_image p) 0x5000A0 = 2" "load_i32 (demo_image p) 0x5000A4 = 1"
  "load_i32 (demo_image p) 0x5000E0 = 1" "load_i32 (demo_image p) 0x5000E4 = 0"
proof -
  have far: "load_i32 (demo_image p) a = load_i32 demo_mem a" if "0x500080 \<le> a \<and> a + 4 \<le> 0x502004" for a
    using that by (simp add: load_i32_def load32_def demo_image_def store_bytes_outside)
  show "load_i32 (demo_image p) 0x5000A0 = 2" "load_i32 (demo_image p) 0x5000A4 = 1"
    "load_i32 (demo_image p) 0x5000E0 = 1" "load_i32 (demo_image p) 0x5000E4 = 0" "load_i32 (demo_image p) 0x502000 = 5"
    using demo_words by (simp_all add: far)
qed (simp_all add: load_i32_def load32_def demo_image_def store_bytes_def bytes32_def p)

lemma image_bytes:
  assumes p: "length p = 28"
  shows "load_bytes (demo_image p) 0x500040 3 = bytes_of ''cat''" "(demo_image p) 0x500043 = NUL"
  "load_bytes (demo_image p) 0x500080 1 = bytes_of ''f''" "(demo_image p) 0x500081 = NUL"
  "load_bytes (demo_image p) 0x5000C0 1 = bytes_of ''.''" "(demo_image p) 0x5000C1 = NUL"
  "load_bytes (demo_image p) 0x504000 5 = bytes_of ''hello''" "load_bytes (demo_image p) 0x505000 28 = p"
proof -
  note l = p
  show "load_bytes (demo_image p) 0x500040 3 = bytes_of ''cat''" "(demo_image p) 0x500043 = NUL"
    by (simp_all add: demo_image_def p load_bytes_def store_bytes_def bytes32_def bytes_of_def upt_conv_Cons)
  show "load_bytes (demo_image p) 0x500080 1 = bytes_of ''f''" "(demo_image p) 0x500081 = NUL"
    "load_bytes (demo_image p) 0x5000C0 1 = bytes_of ''.''" "(demo_image p) 0x5000C1 = NUL"
    unfolding demo_image_def using demo_name_bytes l by (simp_all add: load_store_disjoint store_bytes_outside)
  show "load_bytes (demo_image p) 0x504000 5 = bytes_of ''hello''"
    unfolding demo_image_def demo_mem_def using l by (simp add: load_store_disjoint load_store_eq)
  show "load_bytes (demo_image p) 0x505000 28 = p" unfolding demo_image_def using l by (simp add: load_store_eq)
qed

lemma demo_dir_simps:
  "direntry demo_dir 0 = 0x500040" "direntry demo_dir 1 = 0x500080" "direntry demo_dir 2 = 0x5000C0"
  "[0..num_direntries demo_dir - 1] = [0, 1, 2]" "fs_placed demo_dir" "dir_placed demo_dir" "0 \<le> num_direntries demo_dir"
  by (simp_all add: direntry_def demo_dir_def addr32_eq upto.simps fs_placed_def dir_placed_def)

lemma image_names:
  assumes p: "length p = 28"
  shows "dentry_name (demo_image p) demo_dir 0 = bytes_of ''cat''" "dentry_name (demo_image p) demo_dir 1 = bytes_of ''f''"
  "dentry_name (demo_image p) demo_dir 2 = bytes_of ''.''"
proof -
  have n: "length bs = n \<Longrightarrow> load_bytes (demo_image p) (direntry demo_dir i) n = bs \<Longrightarrow>
      (demo_image p) (direntry demo_dir i + n) = NUL \<Longrightarrow> NUL \<notin> set bs \<Longrightarrow> n \<le> 32 \<Longrightarrow> dentry_name (demo_image p) demo_dir i = bs"
    for i n bs by (auto intro: name_in_dir)
  show "dentry_name (demo_image p) demo_dir 0 = bytes_of ''cat''"
    using image_bytes [OF p] by (intro n [of _ 3]) (simp_all add: demo_dir_simps, simp add: bytes_of_def)
  show "dentry_name (demo_image p) demo_dir 1 = bytes_of ''f''" "dentry_name (demo_image p) demo_dir 2 = bytes_of ''.''"
    using image_bytes [OF p] by (intro n [of _ 1]; simp add: demo_dir_simps; simp add: bytes_of_def)+
qed

lemma image_inodes:
  assumes p: "length p = 28"
  shows "inode_length (demo_image p) demo_dir 1 = 5" "data_block_num (demo_image p) demo_dir 1 0 = 0" "inode_placed (demo_image p) demo_dir 1"
  "inode_length (demo_image p) demo_dir 2 = 28" "data_block_num (demo_image p) demo_dir 2 0 = 1" "inode_placed (demo_image p) demo_dir 2"
proof -
  show i: "inode_length (demo_image p) demo_dir 1 = 5" "data_block_num (demo_image p) demo_dir 1 0 = 0"
    "inode_length (demo_image p) demo_dir 2 = 28" "data_block_num (demo_image p) demo_dir 2 0 = 1"
    by (simp_all add: inode_length_def data_block_num_def inode_addr_def demo_dir_def addr32_eq image_words [OF p])
  show "inode_placed (demo_image p) demo_dir 1" "inode_placed (demo_image p) demo_dir 2"
    by (simp_all add: inode_placed_def demo_dir_simps i block_ok_def) (simp_all add: demo_dir_def)
qed

lemma image_file:
  assumes p: "length p = 28"
  shows "file_content (demo_image p) demo_dir 1 = bytes_of ''hello''" "file_content (demo_image p) demo_dir 2 = p"
proof -
  have "file_byte (demo_image p) demo_dir 1 k = (demo_image p) (0x504000 + k)" if "k < 5" for k
    using that by (simp add: file_byte_def image_inodes [OF p]) (simp add: data_byte_def demo_dir_def addr32_eq nat_add_distrib)
  then have "file_content (demo_image p) demo_dir 1 = load_bytes (demo_image p) 0x504000 5"
    by (intro nth_equalityI) (simp_all add: file_content_def image_inodes [OF p])
  then show "file_content (demo_image p) demo_dir 1 = bytes_of ''hello''" using image_bytes(7) [OF p] by simp
  have "file_byte (demo_image p) demo_dir 2 k = (demo_image p) (0x505000 + k)" if "k < 28" for k
    using that by (simp add: file_byte_def image_inodes [OF p]) (simp add: data_byte_def demo_dir_def addr32_eq nat_add_distrib)
  then have "file_content (demo_image p) demo_dir 2 = load_bytes (demo_image p) 0x505000 28"
    by (intro nth_equalityI) (simp_all add: file_content_def image_inodes [OF p])
  then show "file_content (demo_image p) demo_dir 2 = p" using image_bytes(8) [OF p] by simp
qed

lemma image_ok:
  assumes p: "length p = 28"
  shows "names_end (demo_image p) demo_dir" "0 \<le> i \<Longrightarrow> i < num_direntries demo_dir \<Longrightarrow> dentry_ok (demo_image p) demo_dir i"
proof -
  have cases: "i = 0 \<or> i = 1 \<or> i = 2" if "0 \<le> i" "i < num_direntries demo_dir" for i
    using that by (auto simp: demo_dir_def)
  have "\<exists>k < 64. (demo_image p) (0x500040 + k) = NUL" "\<exists>k < 64. (demo_image p) (0x500080 + k) = NUL"
    "\<exists>k < 64. (demo_image p) (0x5000C0 + k) = NUL"
    using image_bytes [OF p] by (auto intro: exI [of _ 3] exI [of _ 1])
  then show "names_end (demo_image p) demo_dir" unfolding names_end_def by (metis cases demo_dir_simps(1-3))
  assume "0 \<le> i" "i < num_direntries demo_dir"
  from cases [OF this] show "dentry_ok (demo_image p) demo_dir i"
    using image_inodes(3,6) [OF p]
    by (auto simp: dentry_ok_def image_names [OF p] demo_dir_simps load_dentry_def image_words [OF p] bytes_of_def)
qed

lemma machine_simps:
  "mem (demo_machine p bs) = (demo_image p)" "fs (demo_machine p bs) = demo_dir" "running_pid (demo_machine p bs) = 1" "sched_term (demo_machine p bs) = 0"
  "pcbs (demo_machine p bs) 1 = (pcbs demo_running 1)\<lparr>args := arr_of bs\<rparr>" "paging_ok (demo_machine p bs)" "newest_pid (demo_machine p bs) = 1"
  "user_frame (demo_machine p bs) = 32" "video_base (demo_machine p bs) = 0xB8000"
  "terminals (demo_machine p bs) = demo_terminal(0 := (demo_terminal 0)\<lparr>active_pid := 1\<rparr>)"
proof -
  have "paging_of (demo_machine p bs) = paging_of demo_running" by (simp add: demo_machine_def paging_of_def)
  then have p: "paging_of (demo_machine p bs) = paging_of demo_state" by (simp add: demo_running_def)
  show "paging_ok (demo_machine p bs)" "user_frame (demo_machine p bs) = 32" "video_base (demo_machine p bs) = 0xB8000"
    using paging_cong [OF p] demo_state_simps by (simp_all add: video_base_def) (simp_all add: demo_state_def paging_init_frames)
qed (simp_all add: demo_machine_def demo_running_simps demo_running_def running_pid_def demo_state_simps newest_pid_def free_pid_def upt_conv_Cons)

lemma fd_table_ok_args [simp]: "fd_table_ok (p\<lparr>args := a\<rparr>) = fd_table_ok p"
  by (simp add: fd_table_ok_def open_fds_def)

lemma machine_serves:
  assumes p: "length p = 28"
  shows "serves (demo_machine p bs)"
proof -
  have "fd_table_ok (pcbs (demo_machine p bs) 1)" using demo_running_simps(5) by (simp add: machine_simps)
  moreover have "fd_ok m g (file_desc_arr (pcbs (demo_machine p bs) 1) i)" if "i < 8" for m g i
    using that by (simp add: machine_simps fd_ok_def) (simp add: demo_running_def build_pcb_fds)
  moreover have "screen_ok (shown (kernel_view (demo_machine p bs)))"
    by (simp add: machine_simps screen_of_def screen_ok_def cells_at_def demo_terminal_def zero_terminal_def)
  ultimately show ?thesis
    using image_ok [OF p] demo_dir_simps(6,7) by (simp add: serves_def fs_ok_def machine_simps)
qed

lemma machine_view:
  assumes p: "length p = 28"
  shows "num_open_descriptors (pcbs (demo_machine p bs) 1) = 2"
  "NUL \<notin> set bs \<Longrightarrow> length bs < 32 \<Longrightarrow> arguments (kernel_view (demo_machine p bs)) = bs"
  "lookup (demo_machine p bs) (bytes_of ''f'') = Some (load_dentry (demo_image p) 0x500080)"
  "lookup (demo_machine p bs) (bytes_of ''.'') = Some (load_dentry (demo_image p) 0x5000C0)"
  "lookup (demo_machine p bs) (bytes_of ''nofile'') = None"
  "names_on (demo_image p) demo_dir = map bytes_of [''cat'', ''f'', ''.'']"
proof -
  show "num_open_descriptors (pcbs (demo_machine p bs) 1) = 2" using demo_running_simps(6) by (simp add: machine_simps)
  show "arguments (kernel_view (demo_machine p bs)) = bs" if "NUL \<notin> set bs" "length bs < 32"
  proof -
    have "map (arr_of bs) [0..<32] = bs @ map (\<lambda>_. NUL) [length bs..<32]"
      using that(2) by (intro nth_equalityI) (auto simp: arr_of_def nth_append)
    moreover have "[length bs..<32] = length bs # [Suc (length bs)..<32]" using that(2) by (simp add: upt_conv_Cons)
    ultimately have "takeWhile (\<lambda>b. b \<noteq> NUL) (map (arr_of bs) [0..<32]) = takeWhile (\<lambda>b. b \<noteq> NUL) (bs @ NUL # map (\<lambda>_. NUL) [Suc (length bs)..<32])"
      by simp
    also have "\<dots> = bs" using that(1) by (subst takeWhile_append2) auto
    finally show ?thesis by (simp add: machine_simps del: upt_rec_numeral)
  qed
  show "lookup (demo_machine p bs) (bytes_of ''f'') = Some (load_dentry (demo_image p) 0x500080)"
    "lookup (demo_machine p bs) (bytes_of ''.'') = Some (load_dentry (demo_image p) 0x5000C0)"
    "lookup (demo_machine p bs) (bytes_of ''nofile'') = None"
    by (simp_all add: lookup_def machine_simps demo_dir_simps image_names [OF p])
      (simp_all add: bytes_of_def)
  show "names_on (demo_image p) demo_dir = map bytes_of [''cat'', ''f'', ''.'']"
    by (simp add: names_on_def demo_dir_simps image_names [OF p])
qed

lemma demo_prog_length: "length demo_prog = 28"
  by (simp add: demo_prog_def)

abbreviation demo_disk :: mem where
  "demo_disk \<equiv> demo_image demo_prog"

abbreviation demo_user :: "byte list \<Rightarrow> kernel_state" where
  "demo_user \<equiv> demo_machine demo_prog"

lemmas demo_disk_words = image_words [OF demo_prog_length]
lemmas demo_disk_names = image_names [OF demo_prog_length]
lemmas demo_disk_inodes = image_inodes [OF demo_prog_length]
lemmas demo_disk_file = image_file [OF demo_prog_length]
lemmas demo_user_simps = machine_simps [where p = demo_prog]
lemmas demo_user_serves = machine_serves [OF demo_prog_length]
lemmas demo_user_view = machine_view [OF demo_prog_length]

lemma bytes_of_nonempty: "bytes_of (c # cs) \<noteq> []"
  by (simp add: bytes_of_def)

lemma demo_buffer: "placed 0x8001000"
  by (simp add: placed_def)

section \<open>cat and ls\<close>

lemma kernel_disk:
  assumes "serves s" "lookup s nm = Some d"
  shows "disk (kernel_view s) nm = dentry_desc (mem s) (fs s) d"
  using assms by simp

text \<open>
  C9. cat shows the file that its arguments name: started with the name of a regular file, and with a
  descriptor left to open it, it returns 0 and every byte of the file, whatever its length, has been put
  on the screen of its terminal, one after the other.
\<close>

theorem cat_shows_file:
  assumes "serves s" "placed A" "arguments (kernel_view s) = nm" "nm \<noteq> []" "length nm < 32"
    and "lookup s nm = Some d" "filetype d = 2" "num_open_descriptors (pcbs s (running_pid s)) < 8"
  shows "\<exists>s'. cat_main (kernel_calls irq A x y run) buf s = Some (0, s') \<and> serves s'
    \<and> shown (kernel_view s') = screen_puts (file_content (mem s) (fs s) (inode_num d)) (shown (kernel_view s))"
proof -
  have "disk (kernel_view s) nm = Some (File (file_content (mem s) (fs s) (inode_num d)))"
    using assms(6,7) by (simp add: dentry_desc_def)
  moreover have "in_use (kernel_view s) < 8" using assms(1,8) by (simp add: kernel_in_use)
  ultimately show ?thesis
    using kernel.cat_main_shows [OF _ kernel_std [OF assms(1)] _ assms(3-5), where A = A and irq = irq and x = x and y = y and run = run and buf = buf] assms(1,2)
    by (auto simp: returns_iff screen_puts_def simp del: kernel_view_simps)
qed

theorem cat_shows_file_witness:
  "\<exists>s'. cat_main (kernel_calls (\<lambda>_ s. s) 0x8001000 0 0 (\<lambda>_ _. None)) (\<lambda>_. 0) (demo_user (bytes_of ''f'')) = Some (0, s')
    \<and> shown (kernel_view s') = screen_puts (bytes_of ''hello'') (shown (kernel_view (demo_user (bytes_of ''f''))))"
proof -
  let ?s = "demo_user (bytes_of ''f'')" and ?d = "load_dentry demo_disk 0x500080"
  have d: "filetype ?d = 2" "inode_num ?d = 1" by (simp_all add: load_dentry_def demo_disk_words)
  have "arguments (kernel_view ?s) = bytes_of ''f''" by (rule demo_user_view(2)) (simp_all add: bytes_of_def)
  from cat_shows_file [OF demo_user_serves demo_buffer this _ _ demo_user_view(3) d(1)] show ?thesis
    using bytes_of_nonempty [of "CHR ''f''" "[]"] by (simp add: demo_user_simps(1-3) demo_user_view(1) d(2) demo_disk_file del: kernel_view_simps) blast
qed


text \<open>
  C35. ls shows every name of the directory on a line of its own, in the order of the directory, and
  returns 0, also for names that fill all of their 32 bytes.
\<close>

theorem ls_lists_directory:
  assumes "serves s" "placed A" "lookup s (bytes_of ''.'') = Some d" "filetype d = 1"
    and "num_open_descriptors (pcbs s (running_pid s)) < 8"
  shows "\<exists>s'. ls_main (kernel_calls irq A x y run) buf s = Some (0, s') \<and> serves s'
    \<and> shown (kernel_view s') = screen_puts
        (concat (map (\<lambda>i. dentry_name (mem s) (fs s) i @ [NEWLINE]) [0..num_direntries (fs s) - 1])) (shown (kernel_view s))"
proof -
  have "disk (kernel_view s) (bytes_of ''.'') = Some (Dir (names_on (mem s) (fs s)))"
    using assms(3,4) by (simp add: dentry_desc_def)
  moreover have "in_use (kernel_view s) < 8" using assms(1,5) by (simp add: kernel_in_use)
  ultimately show ?thesis
    using kernel.ls_main_shows [OF _ kernel_std [OF assms(1)],
        where A = A and irq = irq and x = x and y = y and run = run and buf = buf] assms(1,2)
    by (auto simp: returns_iff screen_puts_def names_on_def comp_def simp del: kernel_view_simps)
qed

theorem ls_lists_directory_witness:
  "\<exists>s'. ls_main (kernel_calls (\<lambda>_ s. s) 0x8001000 0 0 (\<lambda>_ _. None)) (\<lambda>_. 0) (demo_user []) = Some (0, s')
    \<and> shown (kernel_view s') =
      screen_puts (bytes_of ''cat'' @ [NEWLINE] @ bytes_of ''f'' @ [NEWLINE] @ bytes_of ''.'' @ [NEWLINE]) (shown (kernel_view (demo_user [])))"
proof -
  have d: "filetype (load_dentry demo_disk 0x5000C0) = 1" by (simp add: load_dentry_def demo_disk_words)
  from ls_lists_directory [OF demo_user_serves demo_buffer demo_user_view(4) d] show ?thesis
    by (simp add: demo_user_simps(1-3) demo_user_view(1) demo_dir_simps demo_disk_names del: kernel_view_simps) blast
qed

section \<open>syserr\<close>

lemma fresh_descriptors:
  assumes "serves s" "num_open_descriptors (pcbs s (running_pid s)) = 2"
  shows "dirs_open 2 2 nms (kernel_view s) = kernel_view s"
proof -
  have std: "{0, 1} \<subseteq> {i. i < 8 \<and> descs (kernel_view s) i \<noteq> Closed}"
    using kernel_std [OF assms(1)] by (auto simp: std_def)
  have "card {i. i < 8 \<and> descs (kernel_view s) i \<noteq> Closed} = 2"
    using kernel_in_use [OF assms(1)] assms(2) by (simp add: in_use_def)
  then have "{0, 1} = {i. i < 8 \<and> descs (kernel_view s) i \<noteq> Closed}" by (intro card_subset_eq std) simp_all
  then have none: "i \<notin> {0, 1} \<Longrightarrow> i < 8 \<Longrightarrow> descs (kernel_view s) i = Closed" for i by blast
  have "descs (kernel_view s) i = Closed" if "2 \<le> i" "i < 8" for i by (rule none) (use that in auto)
  then show ?thesis by (simp add: dirs_open_def fun_eq_iff cong: if_cong)
qed

text \<open>
  C36. The tests of syserr pass on this kernel: for a process with only the standard descriptors open, on
  a disk with the directory \<open>.\<close> and without the three names the tests expect to be missing, all eight
  report PASS, and 0 is returned.  They leave three descriptors open all the same, 5, 6 and 7: closing them
  was refused, since by then only five were open.
\<close>

theorem syserr_passes:
  assumes "serves s" "placed A" "num_open_descriptors (pcbs s (running_pid s)) = 2"
    and "lookup s (bytes_of ''.'') = Some d" "filetype d = 1"
    and "lookup s (bytes_of ''helloo'') = None" "lookup s (bytes_of ''shel'') = None" "lookup s [] = None"
  shows "\<exists>s'. all_tests (kernel_calls irq A x y run) junk s = Some (0, s') \<and> serves s'
    \<and> shown (kernel_view s') = screen_puts all_pass (shown (kernel_view s))
    \<and> num_open_descriptors (pcbs s' (running_pid s')) = 5 \<and> descs (kernel_view s') 5 \<noteq> Closed
    \<and> descs (kernel_view s') 6 \<noteq> Closed \<and> descs (kernel_view s') 7 \<noteq> Closed"
proof -
  let ?v = "kernel_view s"
  have disk: "disk ?v (bytes_of ''.'') = Some (Dir (names_on (mem s) (fs s)))"
    "\<forall>nm \<in> set [bytes_of ''helloo'', bytes_of ''shel'', []]. disk ?v nm = None"
    using assms(4-8) by (simp_all add: dentry_desc_def)
  have v: "std ?v" "?v = dirs_open 2 2 (names_on (mem s) (fs s)) ?v"
    using kernel_std [OF assms(1)] fresh_descriptors [OF assms(1,3)] by simp_all
  have n: "in_use (dirs_open 5 8 nms (showing e bs ?v)) = 5" for nms e bs
    using in_use_dirs_open [of "showing e bs ?v" 5 8] v(1) by simp
  obtain s' where s': "all_tests (kernel_calls irq A x y run) junk s = Some (0, s')" "serves s'"
    "kernel_view s' = dirs_open 5 8 (names_on (mem s) (fs s)) (showing screen_putc all_pass ?v)"
    using kernel.all_tests_pass [OF _ v disk, where A = A and irq = irq and x = x and y = y and run = run and junk = junk]
      assms(1,2) unfolding returns_iff by auto
  have "shown (kernel_view s') = screen_puts all_pass (shown ?v)" unfolding s'(3) by (simp add: screen_puts_def del: kernel_view_simps)
  moreover have "num_open_descriptors (pcbs s' (running_pid s')) = 5"
    using kernel_in_use [OF s'(2)] n unfolding s'(3) by simp
  moreover have "descs (kernel_view s') i \<noteq> Closed" if "i \<in> {5, 6, 7}" for i
    using that unfolding s'(3) by (auto simp: dirs_open_def)
  ultimately show ?thesis using s'(1,2) by (simp del: kernel_view_simps)
qed

theorem syserr_passes_witness:
  "\<exists>s'. all_tests (kernel_calls (\<lambda>_ s. s) 0x8001000 0 0 (\<lambda>_ _. None)) (\<lambda>_. 0) (demo_user []) = Some (0, s')
    \<and> shown (kernel_view s') = screen_puts all_pass (shown (kernel_view (demo_user [])))
    \<and> num_open_descriptors (pcbs s' (running_pid s')) = 5"
proof -
  have d: "filetype (load_dentry demo_disk 0x5000C0) = 1" by (simp add: load_dentry_def demo_disk_words)
  have none: "lookup (demo_user []) nm = None" if "nm \<in> {bytes_of ''helloo'', bytes_of ''shel'', []}" for nm
    using that by (auto simp: lookup_def demo_user_simps demo_dir_simps demo_disk_names bytes_of_def)
  from syserr_passes [OF demo_user_serves demo_buffer _ demo_user_view(4) d none none none] show ?thesis
    by (simp add: demo_user_simps(1-3) demo_user_view(1) del: kernel_view_simps) blast
qed


section \<open>counter and pingpong\<close>

definition decimal :: "nat \<Rightarrow> byte list" where
  "decimal n = map digit_byte (digits 10 n)"

lemma itoa_decimal:
  assumes "n < 2 ^ 32"
  shows "\<exists>b. itoa (word_of_nat n) buf 10 = Some b \<and> cstr b = Some (decimal n) \<and> length (decimal n) \<le> 32"
proof -
  have u: "unat (word_of_nat n :: u32) = n" using assms by (simp add: unat_of_nat take_bit_nat_eq_self)
  have "length (digits 10 n) \<le> 32"
    using assms length_digits [of 10 n 32] by (simp add: order.strict_trans2 [OF assms])
  then show ?thesis using itoa_cstr [of 10 "word_of_nat n" buf] u by (auto simp: decimal_def)
qed

context user_system
begin

lemma counter_print_shows:
  assumes "ok w" "desc_of (obs w) 1 = Display" "i + 1 < 2 ^ 32"
  shows "returns (counter_print c i (buf, w)) (\<lambda>(b, w'). ok w' \<and> obs w' = showing emit (decimal (i + 1) @ [NEWLINE]) (obs w))"
proof -
  obtain b where b: "itoa (word_of_nat (i + 1)) buf 10 = Some b" "cstr b = Some (decimal (i + 1))" "length (decimal (i + 1)) \<le> 32"
    using itoa_decimal [OF assms(3)] by blast
  have line: "returns (ece391_fdputs c 1 (line_lit '''') u) (\<lambda>w'. ok w' \<and> obs w' = showing emit (decimal (i + 1) @ [NEWLINE]) (obs w))"
    if "ok u" "obs u = showing emit (decimal (i + 1)) (obs w)" for u
    using fdputs_lit [OF that(1), of "[NEWLINE]"] that(2) assms(2) by (simp add: bytes_of_def)
  have "returns (ece391_fdputs c 1 b w) (\<lambda>w'. ok w' \<and> obs w' = showing emit (decimal (i + 1)) (obs w))"
    using fdputs_shows [OF assms(1,2) b(2)] b(3) by simp
  then show ?thesis
    unfolding counter_print_def using b(1) by (auto simp: add.commute intro!: returns_mono [OF line] elim!: returns_mono)
qed

lemma counter_shows:
  assumes "ok w" "desc_of (obs w) 1 = Display" "m < 2 ^ 32"
  shows "returns (for_each (counter_print c) [0..<m] (buf, w)) (\<lambda>(b, w'). ok w' \<and>
    obs w' = showing emit (concat (map (\<lambda>n. decimal n @ [NEWLINE]) [1..<m + 1])) (obs w))"
proof -
  let ?I = "\<lambda>k (b, w'). ok w' \<and> obs w' = showing emit (concat (map (\<lambda>n. decimal n @ [NEWLINE]) [1..<k + 1])) (obs w)"
  have step: "returns (counter_print c ([0..<m] ! k) bw) (?I (Suc k))" if "k < length [0..<m]" "?I k bw" for k bw
  proof -
    obtain b u where bw: "bw = (b, u)" by (cases bw)
    have "k + 1 < 2 ^ 32" "ok u" "desc_of (obs u) 1 = Display" using that assms(2,3) by (auto simp: bw)
    from counter_print_shows [OF this(2,3,1), of b] show ?thesis
      using that by (auto simp: bw elim!: returns_mono)
  qed
  from returns_for_each [of "[0..<m]" ?I, OF step] assms(1) show ?thesis by simp
qed

end

text \<open>
  counter counts: its loop returns and shows the numbers from 1 to the bound, each as its decimal digits
  on a line of its own.
\<close>

theorem counter_counts:
  assumes "serves s" "placed A" "m < 2 ^ 32"
  shows "\<exists>b s'. for_each (counter_print (kernel_calls irq A x y run)) [0..<m] (buf, s) = Some (b, s') \<and> serves s'
    \<and> shown (kernel_view s') = screen_puts (concat (map (\<lambda>n. decimal n @ [NEWLINE]) [1..<m + 1])) (shown (kernel_view s))"
proof -
  have "desc_of (kernel_view s) 1 = Display" by (rule std_display [OF kernel_std [OF assms(1)]])
  from kernel.counter_shows [OF _ this assms(3), where A = A and irq = irq and x = x and y = y and run = run and buf = buf] assms(1,2)
  obtain b s' where s': "for_each (counter_print (kernel_calls irq A x y run)) [0..<m] (buf, s) = Some (b, s')" "serves s'"
    "kernel_view s' = showing screen_putc (concat (map (\<lambda>n. decimal n @ [NEWLINE]) [1..<m + 1])) (kernel_view s)"
    unfolding returns_iff by blast
  have "shown (kernel_view s') = screen_puts (concat (map (\<lambda>n. decimal n @ [NEWLINE]) [1..<m + 1])) (shown (kernel_view s))"
    unfolding s'(3) by (simp only: showing_simps screen_puts_def)
  with s' show ?thesis by blast
qed

theorem counter_counts_witness:
  "\<exists>b s'. for_each (counter_print (kernel_calls (\<lambda>_ s. s) 0x8001000 0 0 (\<lambda>_ _. None))) [0..<100] (\<lambda>_. 0, demo_user []) = Some (b, s')
    \<and> shown (kernel_view s') = screen_puts (concat (map (\<lambda>n. decimal n @ [NEWLINE]) [1..<101])) (shown (kernel_view (demo_user [])))"
  using counter_counts [OF demo_user_serves demo_buffer, of 100]
  by (simp del: kernel_view_simps upt_conv_Cons upt_rec_numeral) blast

lemma pingpong_loop_None: "pingpong_loop c fd ch bw = None"
proof (rule ccontr)
  assume "pingpong_loop c fd ch bw \<noteq> None"
  then obtain r where "pingpong_loop c fd ch bw = Some r" by auto
  then show False
    by (rule pingpong_loop.raw_induct [where P = "\<lambda>_ _ _ _ _. False", rotated])
      (auto simp: bind_eq_Some_conv simp del: upt_rec_numeral upt_conv_Cons)
qed

text \<open>
  pingpong never returns, whatever the calls do: main ends in a loop without an exit.
\<close>

theorem pingpong_runs_forever: "pingpong_main c w = None"
  by (cases "ece391_open c (lit ''rtc'') w") (auto simp: pingpong_main_def pingpong_loop_None split: bind_splits)


section \<open>The calls of a program\<close>

lemma demo_opened:
  "\<exists>s. kernel_open (\<lambda>_ s. s) 0x8001000 0 0 (lit ''f'') (demo_user []) = Some (2, s) \<and> serves s
    \<and> desc_of (kernel_view s) 2 = File (bytes_of ''hello'')"
proof -
  let ?s = "demo_user []" and ?d = "load_dentry demo_disk 0x500080"
  have d: "dentry_desc demo_disk demo_dir ?d = Some (File (bytes_of ''hello''))"
    by (simp add: dentry_desc_def load_dentry_def demo_disk_words demo_disk_file)
  have nm: "cstr (lit ''f'') = Some (bytes_of ''f'')" by (rule cstr_arr_of) (simp add: bytes_of_def)
  have n: "num_open_descriptors (pcbs ?s (running_pid ?s)) = 2" using demo_user_view(1) by (simp add: demo_user_simps(3))
  have v: "std (kernel_view ?s)" "in_use (kernel_view ?s) = 2" "next_desc (kernel_view ?s) = 2"
    using kernel_std [OF demo_user_serves] kernel_in_use [OF demo_user_serves] n
      next_dirs_open [of "kernel_view ?s" 2] fresh_descriptors [OF demo_user_serves n] by simp_all
  have "disk (kernel_view ?s) (bytes_of ''f'') = Some (File (bytes_of ''hello''))"
    using d by (simp add: demo_user_view demo_user_simps)
  then have "spec_open (bytes_of ''f'') (kernel_view ?s) = (2, set_desc 2 (File (bytes_of ''hello'')) (kernel_view ?s))"
    using v by (simp add: spec_open_def)
  with kernel_open_refines [OF demo_user_serves [of "[]"] demo_buffer nm, where irq = "\<lambda>_ s. s" and x = 0 and y = 0]
  obtain s1 where s1: "kernel_open (\<lambda>_ s. s) 0x8001000 0 0 (lit ''f'') ?s = Some (2, s1)" "serves s1"
    "kernel_view s1 = set_desc 2 (File (bytes_of ''hello'')) (kernel_view ?s)"
    unfolding returns_iff by auto
  have f: "desc_of (kernel_view s1) 2 = File (bytes_of ''hello'')"
    unfolding s1(3) by (rule opened_desc(2) [OF v(1)]) (simp_all add: v(2,3))
  with s1 show ?thesis by blast
qed

lemma demo_name: "cstr (lit ''f'') = Some (bytes_of ''f'')" "length (bytes_of ''f'') \<le> 1024"
  by (rule cstr_arr_of) (simp_all add: bytes_of_def)

text \<open>
  C8. The kernel's open, close, read of a file and write to the screen, called through the program's wrappers,
  refine the operations on named files and descriptors: each returns and does to the view of the
  running process (screen, disk, descriptors, arguments) exactly what the specification says, whatever
  is in the kernel's tables, memory and page directory.
\<close>

theorem calls_refine_view:
  assumes "serves s" "placed A" "cstr name = Some nm" "length nm \<le> 1024" "is_int32 fd" "0 \<le> n" "n \<le> 1025"
    and "desc_of (kernel_view s) fd1 = Display" "desc_of (kernel_view s) fd2 = File bs"
  shows "(\<exists>r s'. kernel_open irq A x y name s = Some (r, s') \<and> (r, kernel_view s') = spec_open nm (kernel_view s))
    \<and> (\<exists>r s'. kernel_close irq x y fd s = Some (r, s') \<and> (r, kernel_view s') = spec_close fd (kernel_view s))
    \<and> (\<exists>s'. kernel_write irq A fd1 buf n s = Some (n, s')
        \<and> kernel_view s' = showing screen_putc (map buf [0..<nat n]) (kernel_view s))
    \<and> (\<exists>s'. kernel_read irq A fd2 buf n s = Some (int (length (take (nat n) bs)), over buf (take (nat n) bs), s')
        \<and> kernel_view s' = set_desc fd2 (File (drop (nat n) bs)) (kernel_view s))"
  using kernel_open_refines [OF assms(1-4), of irq x y] kernel_close_refines [OF assms(1,5), of irq x y]
    kernel_write_display [OF assms(1,2,8,6,7), of irq buf] kernel_read_file [OF assms(1,2,9,6,7) refl, of irq buf]
  unfolding returns_iff by (intro conjI) blast+

theorem calls_refine_view_witness:
  "\<exists>s s'. kernel_open (\<lambda>_ s. s) 0x8001000 0 0 (lit ''f'') (demo_user []) = Some (2, s)
    \<and> desc_of (kernel_view s) 2 = File (bytes_of ''hello'')
    \<and> kernel_read (\<lambda>_ s. s) 0x8001000 2 (\<lambda>_. 0) 3 s = Some (3, over (\<lambda>_. 0) (bytes_of ''hel''), s')"
proof -
  obtain s1 where s1: "kernel_open (\<lambda>_ s. s) 0x8001000 0 0 (lit ''f'') (demo_user []) = Some (2, s1)" "serves s1"
    "desc_of (kernel_view s1) 2 = File (bytes_of ''hello'')" using demo_opened by blast
  note d1 = std_display [OF kernel_std [OF s1(2)]]
  have "take (nat 3) (bytes_of ''hello'') = bytes_of ''hel''" "is_int32 2" by (simp_all add: bytes_of_def is_int32_def)
  with calls_refine_view [OF s1(2) demo_buffer demo_name _ _ _ d1 s1(3), of 2 3 "\<lambda>_ s. s" 0 0 "\<lambda>_. 0"] s1(1,3)
  show ?thesis by auto
qed

text \<open>
  A process's calls one after the other: opens and closes of anything, writes and reads other than
  those of the keyboard, the clock and parts of names, whatever the arguments.
\<close>

inductive call_step :: "'a interrupts \<Rightarrow> nat \<Rightarrow> 'a kernel_state_scheme \<Rightarrow> 'a kernel_state_scheme \<Rightarrow> bool"
  for irq A where
  open_step: "kernel_open irq A x y name s = Some (r, s') \<Longrightarrow> cstr name = Some nm \<Longrightarrow> length nm \<le> 1024 \<Longrightarrow> call_step irq A s s'"
| close_step: "kernel_close irq x y fd s = Some (r, s') \<Longrightarrow> is_int32 fd \<Longrightarrow> call_step irq A s s'"
| write_step: "kernel_write irq A fd buf n s = Some (r, s') \<Longrightarrow> is_int32 fd \<Longrightarrow> desc_of (kernel_view s) fd \<noteq> Clock \<Longrightarrow>
    0 \<le> n \<Longrightarrow> n \<le> 1025 \<Longrightarrow> call_step irq A s s'"
| read_step: "kernel_read irq A fd buf n s = Some (r, b, s') \<Longrightarrow> is_int32 fd \<Longrightarrow> desc_of (kernel_view s) fd \<notin> {Keys, Clock} \<Longrightarrow>
    (\<exists>nms. desc_of (kernel_view s) fd = Dir nms) \<longrightarrow> n = 32 \<Longrightarrow> 0 \<le> n \<Longrightarrow> n \<le> 1025 \<Longrightarrow> call_step irq A s s'"
| vidmap_step: "kernel_vidmap irq x y a s = Some (r, s') \<Longrightarrow> a < 0x8000000 \<Longrightarrow> call_step irq A s s'"

lemma call_step_serves:
  assumes "call_step irq A s s'" "serves s" "placed A"
  shows "serves s'"
  using assms
proof cases
  case (open_step x y name r nm)
  then show ?thesis using kernel_open_refines [OF assms(2,3) open_step(2,3), of irq x y] by simp
next
  case (close_step x y fd r)
  then show ?thesis using kernel_close_refines [OF assms(2) close_step(2), of irq x y] by simp
next
  case (write_step fd buf n r)
  then show ?thesis
    using kernel_write_display [OF assms(2,3), of fd n irq buf] kernel_write_refused [OF assms(2,3), of fd n irq buf]
    by (cases "desc_of (kernel_view s) fd = Display") simp_all
next
  case (read_step fd buf n r b)
  then show ?thesis
    using kernel_read_refused [OF assms(2,3), of fd n irq buf] kernel_read_file [OF assms(2,3) _ _ _ refl, of fd _ n irq buf]
      kernel_read_name [OF assms(2,3), of fd _ irq buf]
    by (cases "desc_of (kernel_view s) fd") auto
next
  case (vidmap_step x y a r)
  then show ?thesis using kernel_vidmap_refused [OF assms(2)] assms(2) by simp
qed



end
