(* ===== verification/UserGrep.thy ===== *)
theory UserGrep
  imports UserRuns "HOL-Library.Sublist"
begin

text \<open>
  syscalls/ece391grep.c: the search of all files of the directory for a string, 1024 bytes at a time.
  A line that is cut at the end of a chunk is copied down to the start of the buffer and completed by
  the next read.
\<close>

section \<open>The code\<close>

text \<open>\<open>lst\<close> is the code's \<open>last\<close>, the number of bytes in the buffer.\<close>

text \<open>The end of the line that starts at \<open>k\<close>: its line feed, or the end of the bytes read.\<close>

function grep_line_end :: "carray \<Rightarrow> nat \<Rightarrow> nat \<Rightarrow> nat" where
  "grep_line_end data lst k = (if k < lst \<and> data k \<noteq> NEWLINE then grep_line_end data lst (Suc k) else k)"
  by pat_completeness auto
termination
  by (relation "measure (\<lambda>(data, lst, k). lst - k)") auto

declare grep_line_end.simps [simp del]

text \<open>The search of one line, at most one report.\<close>

function grep_search :: "'w user_calls \<Rightarrow> carray \<Rightarrow> nat \<Rightarrow> carray \<Rightarrow> carray \<Rightarrow> nat \<Rightarrow> nat \<Rightarrow> nat \<Rightarrow> 'w \<Rightarrow> 'w option" where
  "grep_search c s s_len nm data line_start eol check w =
     (if check < eol then
        if s 0 = data check \<and> ece391_strncmp (\<lambda>i. data (check + i)) s s_len = 0 then do {
          w \<leftarrow> ece391_fdputs c 1 nm w;
          w \<leftarrow> ece391_fdputs c 1 (lit '':'') w;
          w \<leftarrow> ece391_fdputs c 1 (\<lambda>i. data (line_start + i)) w;
          ece391_fdputs c 1 (line_lit '''') w
        } else grep_search c s s_len nm data line_start eol (Suc check) w
      else Some w)"
  by pat_completeness auto
termination
  by (relation "measure (\<lambda>(c, s, s_len, nm, data, line_start, eol, check, w). eol - check)") auto

declare grep_search.simps [simp del]

text \<open>The lines of one chunk; the result is the buffer, what is left of it at its start, and the world.\<close>

partial_function (option) grep_lines :: "'w user_calls \<Rightarrow> carray \<Rightarrow> nat \<Rightarrow> carray \<Rightarrow> int \<Rightarrow> carray \<Rightarrow> nat \<Rightarrow> nat \<Rightarrow> 'w \<Rightarrow>
    (carray \<times> nat \<times> 'w) option" where
  "grep_lines c s s_len nm cnt data lst line_start w = do {
     let eol = grep_line_end data lst line_start;
     if data eol \<noteq> NEWLINE \<and> cnt \<noteq> 0 \<and> line_start \<noteq> 0 then do {
       data \<leftarrow> ece391_strcpy (data(eol := NUL)) 0 line_start;
       Some (data, lst - line_start, w)
     } else do {
       let data = data(eol := NUL);
       w \<leftarrow> grep_search c s s_len nm data line_start eol line_start w;
       let line_start = eol + 1;
       if line_start \<ge> lst then Some (data, 0, w)
       else grep_lines c s s_len nm cnt data lst line_start w
     }
   }"

partial_function (option) grep_chunks :: "'w user_calls \<Rightarrow> carray \<Rightarrow> nat \<Rightarrow> carray \<Rightarrow> int \<Rightarrow> carray \<Rightarrow> nat \<Rightarrow> 'w \<Rightarrow> (int \<times> 'w) option" where
  "grep_chunks c s s_len nm fd data lst w = do {
     (cnt, buf, w) \<leftarrow> ece391_read c fd (\<lambda>i. data (lst + i)) (1024 - int lst) w;
     let data = (\<lambda>i. if i < lst then data i else buf (i - lst));
     if cnt = -1 then do { w \<leftarrow> ece391_fdputs c 1 (line_lit ''file read failed'') w; Some (-1, w) }
     else do {
       (data, lst, w) \<leftarrow> grep_lines c s s_len nm cnt data (lst + nat cnt) 0 w;
       if cnt = 0 then do {
         (r, w) \<leftarrow> ece391_close c fd w;
         if r = -1 then do { w \<leftarrow> ece391_fdputs c 1 (line_lit ''file close failed'') w; Some (-1, w) }
         else Some (0, w)
       } else grep_chunks c s s_len nm fd data lst w
     }
   }"

text \<open>\<open>junk\<close> is what the buffer of 1025 bytes on the stack holds when the function is entered.\<close>

definition do_one_file :: "'w user_calls \<Rightarrow> ('w \<Rightarrow> carray) \<Rightarrow> carray \<Rightarrow> carray \<Rightarrow> 'w \<Rightarrow> (int \<times> 'w) option" where
  "do_one_file c junk s nm w = do {
     let data = junk w;
     s_len \<leftarrow> ece391_strlen s;
     (fd, w) \<leftarrow> ece391_open c nm w;
     if fd = -1 then do { w \<leftarrow> ece391_fdputs c 1 (line_lit ''file open failed'') w; Some (-1, w) }
     else grep_chunks c s s_len nm fd data 0 w
   }"

partial_function (option) grep_files :: "'w user_calls \<Rightarrow> ('w \<Rightarrow> carray) \<Rightarrow> carray \<Rightarrow> int \<Rightarrow> carray \<Rightarrow> 'w \<Rightarrow> (int \<times> 'w) option" where
  "grep_files c junk search fd buf w = do {
     (cnt, buf, w) \<leftarrow> ece391_read c fd buf 32 w;
     if cnt = 0 then Some (0, w)
     else if cnt = -1 then do { w \<leftarrow> ece391_fdputs c 1 (line_lit ''directory entry read failed'') w; Some (3, w) }
     else if buf 0 = of_char CHR ''.'' then grep_files c junk search fd buf w
     else do {
       let buf = buf(nat cnt := NUL);
       (r, w) \<leftarrow> do_one_file c junk search buf w;
       if r \<noteq> 0 then Some (3, w) else grep_files c junk search fd buf w
     }
   }"

definition grep_main :: "'w user_calls \<Rightarrow> ('w \<Rightarrow> carray) \<Rightarrow> carray \<Rightarrow> carray \<Rightarrow> 'w \<Rightarrow> (int \<times> 'w) option" where
  "grep_main c junk search buf w = do {
     (r, search, w) \<leftarrow> ece391_getargs c search 1024 w;
     if r \<noteq> 0 then do { w \<leftarrow> ece391_fdputs c 1 (line_lit ''could not read argument'') w; Some (3, w) }
     else do {
       (fd, w) \<leftarrow> ece391_open c (lit ''.'') w;
       if fd = -1 then do { w \<leftarrow> ece391_fdputs c 1 (line_lit ''directory open failed'') w; Some (2, w) }
       else grep_files c junk search fd buf w
     }
   }"

section \<open>What a search shows\<close>

function lines_of :: "byte list \<Rightarrow> byte list list" where
  "lines_of bs = (if bs = [] then [] else takeWhile (\<lambda>b. b \<noteq> NEWLINE) bs # lines_of (tl (dropWhile (\<lambda>b. b \<noteq> NEWLINE) bs)))"
  by pat_completeness auto
termination
proof (relation "measure length")
  fix bs :: "byte list"
  assume "bs \<noteq> []"
  moreover have "length (dropWhile (\<lambda>b. b \<noteq> NEWLINE) bs) \<le> length bs" by (rule length_dropWhile_le)
  ultimately show "(tl (dropWhile (\<lambda>b. b \<noteq> NEWLINE) bs), bs) \<in> measure length" by (cases bs) auto
qed simp

declare lines_of.simps [simp del]

text \<open>The report of the lines that contain the string.\<close>

definition matches :: "byte list \<Rightarrow> byte list \<Rightarrow> byte list list \<Rightarrow> byte list" where
  "matches nm pat ls = concat (map (\<lambda>l. nm @ bytes_of '':'' @ l @ [NEWLINE]) (filter (sublist pat) ls))"

text \<open>A file whose lines fit the buffer and that has no NUL; what grep reports of a file of the directory.\<close>

definition searchable :: "byte list \<Rightarrow> bool" where
  "searchable bs \<longleftrightarrow> NUL \<notin> set bs \<and> (\<forall>l \<in> set (lines_of bs). length l < 1024)"

definition report :: "byte list \<Rightarrow> (byte list \<Rightarrow> byte list) \<Rightarrow> byte list \<Rightarrow> byte list" where
  "report pat content nm = (if hd nm = of_char CHR ''.'' then [] else matches nm pat (lines_of (content nm)))"

lemma matches_append [simp]: "matches f p (xs @ ys) = matches f p xs @ matches f p ys" "matches f p [] = []"
  by (simp_all add: matches_def)

lemma lines_of_Nil [simp]: "lines_of [] = []"
  by (simp add: lines_of.simps)

lemma split_line:
  "NEWLINE \<notin> set l \<Longrightarrow> takeWhile (\<lambda>b. b \<noteq> NEWLINE) (l @ NEWLINE # bs) = l"
  "NEWLINE \<notin> set l \<Longrightarrow> dropWhile (\<lambda>b. b \<noteq> NEWLINE) (l @ NEWLINE # bs) = NEWLINE # bs"
  "NEWLINE \<notin> set l \<Longrightarrow> takeWhile (\<lambda>b. b \<noteq> NEWLINE) l = l"
  "NEWLINE \<notin> set l \<Longrightarrow> dropWhile (\<lambda>b. b \<noteq> NEWLINE) l = []"
  by (induction l) auto

lemma lines_of_line [simp]: "NEWLINE \<notin> set l \<Longrightarrow> lines_of (l @ NEWLINE # bs) = l # lines_of bs"
  by (subst lines_of.simps) (simp add: split_line)

lemma lines_of_last: "NEWLINE \<notin> set l \<Longrightarrow> lines_of l = (if l = [] then [] else [l])"
  by (subst lines_of.simps) (simp add: split_line)

section \<open>Lines of the buffer\<close>

text \<open>The bytes of the buffer from one index to another.\<close>

abbreviation slice :: "carray \<Rightarrow> nat \<Rightarrow> nat \<Rightarrow> byte list" where
  "slice data a b \<equiv> map data [a..<b]"

lemma slice_split: "a \<le> b \<Longrightarrow> b \<le> e \<Longrightarrow> slice data a e = slice data a b @ slice data b e"
  using upt_add_eq_append [of a b "e - b"] by simp

lemma slice_Cons: "a < b \<Longrightarrow> slice data a b = data a # slice data (Suc a) b"
  by (simp add: upt_conv_Cons)

lemma grep_line_end_prop:
  assumes "k \<le> lst"
  shows "k \<le> grep_line_end data lst k \<and> grep_line_end data lst k \<le> lst \<and> NEWLINE \<notin> set (slice data k (grep_line_end data lst k)) \<and>
    (grep_line_end data lst k < lst \<longrightarrow> data (grep_line_end data lst k) = NEWLINE)"
  using assms
proof (induction data lst k rule: grep_line_end.induct)
  case (1 data lst k)
  show ?case
  proof (cases "k < lst \<and> data k \<noteq> NEWLINE")
    case True
    have e: "grep_line_end data lst k = grep_line_end data lst (Suc k)" using True by (subst grep_line_end.simps) simp
    note IH = "1.IH" [OF True]
    then have "slice data k (grep_line_end data lst (Suc k)) = data k # slice data (Suc k) (grep_line_end data lst (Suc k))"
      using True by (intro slice_Cons) auto
    then show ?thesis using IH True unfolding e by auto
  next
    case False
    then have "grep_line_end data lst k = k" by (subst grep_line_end.simps) auto
    then show ?thesis using False "1.prems" by auto
  qed
qed

lemma sublist_prefix_drop: "pat \<noteq> [] \<Longrightarrow> sublist pat l \<longleftrightarrow> (\<exists>k < length l. prefix pat (drop k l))"
proof
  assume "pat \<noteq> []" "sublist pat l"
  then obtain as bs where l: "l = as @ pat @ bs" by (auto simp: sublist_def)
  then have "length as < length l" "prefix pat (drop (length as) l)" using \<open>pat \<noteq> []\<close> by simp_all
  then show "\<exists>k < length l. prefix pat (drop k l)" by blast
next
  assume "\<exists>k < length l. prefix pat (drop k l)"
  then obtain k zs where "drop k l = pat @ zs" by (auto simp: prefix_def)
  then have "l = take k l @ pat @ zs" using append_take_drop_id [of k l] by simp
  then show "sublist pat l" unfolding sublist_def by blast
qed


lemma match_prefix:
  assumes "cstr_at data k l" "cstr s = Some pat"
  shows "pat \<noteq> [] \<Longrightarrow> ece391_strncmp (\<lambda>i. data (k + i)) s (length pat) = 0 \<longleftrightarrow> prefix pat l"
    and "prefix pat l \<Longrightarrow> pat \<noteq> [] \<Longrightarrow> s 0 = data k"
proof -
  have s: "s i = pat ! i" "pat ! i \<noteq> NUL" if "i < length pat" for i
    using assms(2) that cstr_plain [OF assms(2)] by (auto simp: cstr_eq_Some in_set_conv_nth)
  have d: "data (k + i) = l ! i" "l ! i \<noteq> NUL" if "i < length l" for i using assms(1) that by (simp_all add: cstr_at_def)
  have e: "data (k + length l) = NUL" using assms(1) by (simp add: cstr_at_def)
  have "str_eq_upto (\<lambda>i. data (k + i)) s (length pat) \<longleftrightarrow> (\<forall>i < length pat. data (k + i) = pat ! i)"
    using s unfolding str_eq_upto_def by (metis order.strict_trans)
  also have "\<dots> \<longleftrightarrow> prefix pat l"
  proof
    assume a: "\<forall>i < length pat. data (k + i) = pat ! i"
    have "length pat \<le> length l"
    proof (rule ccontr)
      assume "\<not> length pat \<le> length l"
      then show False using a e s(2) [of "length l"] by (metis not_le)
    qed
    moreover from this have "take (length pat) l = pat" using a d by (intro nth_equalityI) auto
    ultimately show "prefix pat l" by (metis take_is_prefix)
  next
    assume "prefix pat l"
    then obtain zs where "l = pat @ zs" by (auto simp: prefix_def)
    then show "\<forall>i < length pat. data (k + i) = pat ! i" using d by (auto simp: nth_append)
  qed
  finally show "ece391_strncmp (\<lambda>i. data (k + i)) s (length pat) = 0 \<longleftrightarrow> prefix pat l" if "pat \<noteq> []"
    by (simp add: ece391_strncmp_eq_0 strncmp_eq_0_iff)
  show "s 0 = data k" if "prefix pat l" "pat \<noteq> []"
    using that s [of 0] d [of 0] by (auto simp: prefix_def nth_append)
qed

section \<open>What grep shows, from the contract\<close>

context user_system
begin

lemma grep_report:
  assumes "ok w" "desc_of (obs w) 1 = Display" "cstr nm = Some nmb" "length nmb \<le> 1024" "cstr_at data k l" "length l \<le> 1024"
  shows "returns (do { w \<leftarrow> ece391_fdputs c 1 nm w; w \<leftarrow> ece391_fdputs c 1 (lit '':'') w;
      w \<leftarrow> ece391_fdputs c 1 (\<lambda>i. data (k + i)) w; ece391_fdputs c 1 (line_lit '''') w })
    (\<lambda>w'. ok w' \<and> obs w' = showing emit (nmb @ bytes_of '':'' @ l @ [NEWLINE]) (obs w))"
proof -
  have line: "cstr (\<lambda>i. data (k + i)) = Some l" using assms(5) by (auto simp: cstr_at_def cstr_eq_Some strlen_eq_Some)
  have p1: "returns (ece391_fdputs c 1 nm w) (\<lambda>w'. ok w' \<and> obs w' = showing emit nmb (obs w))"
    using fdputs_shows [OF assms(1-3)] assms(4) by simp
  have p2: "returns (ece391_fdputs c 1 (lit '':'') u) (\<lambda>w'. ok w' \<and> obs w' = showing emit (nmb @ bytes_of '':'') (obs w))"
    if "ok u" "obs u = showing emit nmb (obs w)" for u
    using fdputs_lit [OF that(1), of "bytes_of '':''"] that(2) assms(2) by (simp add: bytes_of_def)
  have p3: "returns (ece391_fdputs c 1 (\<lambda>i. data (k + i)) u) (\<lambda>w'. ok w' \<and> obs w' = showing emit (nmb @ bytes_of '':'' @ l) (obs w))"
    if "ok u" "obs u = showing emit (nmb @ bytes_of '':'') (obs w)" for u
    using fdputs_shows [OF that(1) _ line] that(2) assms(2,6) by simp
  have p4: "returns (ece391_fdputs c 1 (line_lit '''') u) (\<lambda>w'. ok w' \<and> obs w' = showing emit (nmb @ bytes_of '':'' @ l @ [NEWLINE]) (obs w))"
    if "ok u" "obs u = showing emit (nmb @ bytes_of '':'' @ l) (obs w)" for u
    using fdputs_lit [OF that(1), of "[NEWLINE]"] that(2) assms(2) by (simp add: bytes_of_def)
  show ?thesis by (auto intro!: returns_mono [OF p1] returns_mono [OF p2] returns_mono [OF p3] p4)
qed

lemma grep_search_shows:
  assumes "ok w" "desc_of (obs w) 1 = Display" "cstr nm = Some nmb" "length nmb \<le> 1024" "cstr s = Some pat" "pat \<noteq> []"
    and "cstr_at data ls l" "length l \<le> 1024" "eol = ls + length l" "ls \<le> k" "k \<le> eol"
    and "\<forall>j < k - ls. \<not> prefix pat (drop j l)"
  shows "returns (grep_search c s (length pat) nm data ls eol k w)
    (\<lambda>w'. ok w' \<and> obs w' = showing emit (matches nmb pat [l]) (obs w))"
  using assms(10-12)
proof (induction "eol - k" arbitrary: k)
  case 0
  then have "k = eol" by simp
  then have "\<not> sublist pat l" using 0 assms(6,9) by (simp add: sublist_prefix_drop)
  then show ?case using \<open>k = eol\<close> assms(1) by (subst grep_search.simps) (simp add: matches_def)
next
  case (Suc m)
  have kl: "k < eol" using Suc.hyps(2) by simp
  have at: "cstr_at data k (drop (k - ls) l)"
  proof -
    obtain i where i: "k = ls + i" using Suc.prems(1) le_Suc_ex by blast
    then have "i < length l" using kl assms(9) by simp
    then show ?thesis using assms(7) i by (auto simp: cstr_at_def add.assoc)
  qed
  note m = match_prefix [OF at assms(5)]
  show ?case
  proof (cases "prefix pat (drop (k - ls) l)")
    case True
    have "k - ls < length l" using kl assms(9) Suc.prems(1) by simp
    then have "sublist pat l" using True assms(6) by (auto simp: sublist_prefix_drop)
    then have "matches nmb pat [l] = nmb @ bytes_of '':'' @ l @ [NEWLINE]" by (simp add: matches_def)
    moreover have "s 0 = data k \<and> ece391_strncmp (\<lambda>i. data (k + i)) s (length pat) = 0" using m True assms(6) by simp
    ultimately show ?thesis
      using kl grep_report [OF assms(1-4,7,8)] by (subst grep_search.simps) simp
  next
    case False
    have "\<forall>j < Suc k - ls. \<not> prefix pat (drop j l)"
    proof (intro allI impI)
      fix j assume "j < Suc k - ls"
      then show "\<not> prefix pat (drop j l)" using Suc.prems(1,3) False by (cases "j = k - ls") auto
    qed
    then have IH: "returns (grep_search c s (length pat) nm data ls eol (Suc k) w)
        (\<lambda>w'. ok w' \<and> obs w' = showing emit (matches nmb pat [l]) (obs w))"
      using Suc.hyps(1) [of "Suc k"] Suc.hyps(2) Suc.prems(1) kl by simp
    have "ece391_strncmp (\<lambda>i. data (k + i)) s (length pat) \<noteq> 0" using m(1) False assms(6) by simp
    then show ?thesis using kl IH by (subst grep_search.simps) simp
  qed
qed

text \<open>
  The lines of a chunk, with \<open>fut\<close> still to come: the lines reported and what is left of the buffer
  together are the lines of the file, provided that a cut line is recognised as one (the byte behind the
  chunk is no line feed, and the chunk is longer than its last line).
\<close>

definition chunk_read :: "byte list \<Rightarrow> byte list \<Rightarrow> int \<Rightarrow> nat \<Rightarrow> byte \<Rightarrow> byte list \<Rightarrow> byte list list \<Rightarrow> 'w \<Rightarrow> carray \<times> nat \<times> 'w \<Rightarrow> bool" where
  "chunk_read nmb pat cnt lst d fut L w = (\<lambda>(data, lst', w'). ok w' \<and> NUL \<notin> set (slice data 0 lst') \<and>
     (cnt = 0 \<longrightarrow> lst' = 0) \<and> (lst' = 0 \<or> lst' < lst) \<and> data 1024 \<in> {d, NUL} \<and>
     (\<exists>Ls. obs w' = showing emit (matches nmb pat Ls) (obs w) \<and> Ls @ lines_of (slice data 0 lst' @ fut) = L))"

lemma grep_lines_shows:
  assumes "cstr nm = Some nmb" "length nmb \<le> 1024" "cstr s = Some pat" "pat \<noteq> []" "ok w" "desc_of (obs w) 1 = Display"
    and "ls \<le> lst" "lst \<le> 1024" "NUL \<notin> set (slice data ls lst)"
    and "fut = [] \<or> cnt \<noteq> 0 \<and> data lst \<noteq> NEWLINE \<and> (ls \<noteq> 0 \<or> NEWLINE \<in> set (slice data ls lst))"
  shows "returns (grep_lines c s (length pat) nm cnt data lst ls w) (chunk_read nmb pat cnt lst (data 1024) fut (lines_of (slice data ls lst @ fut)) w)"
  using assms(5-10)
proof (induction "lst - ls" arbitrary: data ls w rule: less_induct)
  case less
  define eol where "eol = grep_line_end data lst ls"
  define l where "l = slice data ls eol"
  let ?d = "data(eol := NUL)"
  have e: "ls \<le> eol" "eol \<le> lst" "NEWLINE \<notin> set l" "eol < lst \<Longrightarrow> data eol = NEWLINE"
    using grep_line_end_prop [OF less.prems(3), of data] by (simp_all add: eol_def l_def)
  have len: "length l = eol - ls" "length l \<le> 1024" using e(2) less.prems(4) by (simp_all add: l_def)
  have rest: "slice data ls lst = l @ slice data eol lst" unfolding l_def by (rule slice_split [OF e(1,2)])
  have at: "cstr_at ?d ls l"
    using less.prems(5) e(1) len(1) unfolding rest by (auto simp: cstr_at_def l_def)
  show ?case
  proof (cases "data eol \<noteq> NEWLINE \<and> cnt \<noteq> 0 \<and> ls \<noteq> 0")
    case True
    then have eol: "eol = lst" using e(2,4) by fastforce
    let ?m = "\<lambda>i. if 0 \<le> i \<and> i \<le> 0 + length l then (l @ [NUL]) ! (i - 0) else ?d i"
    have "ece391_strcpy ?d 0 ls = Some ?m" by (rule ece391_strcpy_down [OF at]) simp
    then have g: "grep_lines c s (length pat) nm cnt data lst ls w = Some (?m, lst - ls, w)"
      using True by (subst grep_lines.simps) (simp add: eol_def [symmetric] Let_def)
    have n: "lst - ls = length l" using len(1) eol by simp
    have l: "slice ?m 0 (lst - ls) = l" unfolding n by (rule nth_equalityI) (simp_all add: nth_append)
    have "length l < 1024" using n True less.prems(3,4) by linarith
    then have "?m 1024 \<in> {data 1024, NUL}" by auto
    moreover have "lst - ls < lst \<or> lst - ls = 0" using True by linarith
    moreover have "NUL \<notin> set l" using less.prems(5) rest by simp
    moreover have "slice data ls lst = l" using rest eol by simp
    ultimately show ?thesis using less.prems(1) True unfolding g returns_Some chunk_read_def prod.case l
      by (intro conjI) (auto intro: exI [of _ "[]"])
  next
    case False
    have search: "returns (grep_search c s (length pat) nm ?d ls eol ls w) (\<lambda>w'. ok w' \<and> obs w' = showing emit (matches nmb pat [l]) (obs w))"
      using e(1) len by (intro grep_search_shows [OF less.prems(1,2) assms(1-4) at len(2)]) simp_all
    have g: "grep_lines c s (length pat) nm cnt data lst ls w = do {
        w \<leftarrow> grep_search c s (length pat) nm ?d ls eol ls w;
        if Suc eol \<ge> lst then Some (?d, 0, w) else grep_lines c s (length pat) nm cnt ?d lst (Suc eol) w }"
      using False by (subst grep_lines.simps) (auto simp: eol_def [symmetric] Let_def)
    show ?thesis
    proof (cases "Suc eol \<ge> lst")
      case True
      have lines: "matches nmb pat Ls = matches nmb pat [l] \<and> Ls @ lines_of fut = lines_of (slice data ls lst @ fut)"
        if "Ls = lines_of (slice data ls lst)" for Ls
      proof (cases "eol = lst")
        case True
        then have r: "slice data ls lst = l" using rest by simp
        have "fut = []" using less.prems(6) False e(3) True unfolding r by auto
        then show ?thesis
          using that e(3) assms(4) unfolding r by (auto simp: lines_of_last matches_def)
      next
        case f: False
        then have "eol < lst" using e(2) by simp
        then have "slice data eol lst = [NEWLINE]" using slice_Cons [of eol lst data] e(4) True by simp
        then show ?thesis using that e(3) unfolding rest by simp
      qed
      show ?thesis
        unfolding g returns_bind
      proof (rule returns_mono [OF search])
        fix u assume u: "ok u \<and> obs u = showing emit (matches nmb pat [l]) (obs w)"
        have "\<exists>Ls. obs u = showing emit (matches nmb pat Ls) (obs w) \<and>
            Ls @ lines_of (slice ?d 0 0 @ fut) = lines_of (slice data ls lst @ fut)"
          using u lines [OF refl] by (intro exI [of _ "lines_of (slice data ls lst)"]) simp
        with u True show "returns (if lst \<le> Suc eol then Some (?d, 0, u) else grep_lines c s (length pat) nm cnt ?d lst (Suc eol) u)
            (chunk_read nmb pat cnt lst (data 1024) fut (lines_of (slice data ls lst @ fut)) w)" by (simp add: chunk_read_def)
      qed
    next
      case again: False
      have IH: "returns (grep_lines c s (length pat) nm cnt ?d lst (Suc eol) u) (chunk_read nmb pat cnt lst (?d 1024) fut (lines_of (slice ?d (Suc eol) lst @ fut)) u)"
        if "ok u" "desc_of (obs u) 1 = Display" for u
      proof (rule less.hyps [OF _ that])
        show "lst - Suc eol < lst - ls" "Suc eol \<le> lst" "lst \<le> 1024" using again e(1) less.prems(4) by simp_all
        show "NUL \<notin> set (slice ?d (Suc eol) lst)" using less.prems(5) e(1) by auto
        show "fut = [] \<or> cnt \<noteq> 0 \<and> ?d lst \<noteq> NEWLINE \<and> (Suc eol \<noteq> 0 \<or> NEWLINE \<in> set (slice ?d (Suc eol) lst))"
          using less.prems(6) again by auto
      qed
      have "slice data eol lst = NEWLINE # slice data (Suc eol) lst" using slice_Cons [of eol lst data] e(4) again by simp
      moreover have "slice ?d (Suc eol) lst = slice data (Suc eol) lst" by (rule map_cong) auto
      ultimately have lines: "lines_of (slice data ls lst @ fut) = l # lines_of (slice ?d (Suc eol) lst @ fut)"
        unfolding rest using e(3) by simp
      have step: "returns (grep_lines c s (length pat) nm cnt ?d lst (Suc eol) u) (chunk_read nmb pat cnt lst (data 1024) fut (lines_of (slice data ls lst @ fut)) w)"
        if u: "ok u" "obs u = showing emit (matches nmb pat [l]) (obs w)" for u
      proof -
        have o: "obs w' = showing emit (matches nmb pat (l # Ls)) (obs w)" if "obs w' = showing emit (matches nmb pat Ls) (obs u)" for w' Ls
          using that u(2) matches_append(1) [of nmb pat "[l]" Ls] by simp
        have "desc_of (obs u) 1 = Display" using u(2) less.prems(2) by simp
        from IH [OF u(1) this] show ?thesis
          unfolding lines by (rule returns_mono) (auto simp: chunk_read_def intro!: exI [of _ "l # _"] o split: if_splits)
      qed
      show ?thesis
        unfolding g returns_bind
      proof (rule returns_mono [OF search])
        fix u assume "ok u \<and> obs u = showing emit (matches nmb pat [l]) (obs w)"
        then show "returns (if lst \<le> Suc eol then Some (?d, 0, u) else grep_lines c s (length pat) nm cnt ?d lst (Suc eol) u)
            (chunk_read nmb pat cnt lst (data 1024) fut (lines_of (slice data ls lst @ fut)) w)"
          unfolding if_not_P [OF again] using step by blast
      qed
    qed
  qed
qed

lemma grep_chunks_shows:
  assumes "cstr nm = Some nmb" "length nmb \<le> 1024" "cstr s = Some pat" "pat \<noteq> []" "2 \<le> fd"
    and "ok w" "desc_of (obs w) 1 = Display" "desc_of (obs w) fd = File rest" "lst \<le> 1023" "data 1024 \<noteq> NEWLINE"
    and "NUL \<notin> set (slice data 0 lst @ rest)" "\<forall>l \<in> set (lines_of (slice data 0 lst @ rest)). length l < 1024"
  shows "returns (grep_chunks c s (length pat) nm fd data lst w) (\<lambda>(r, w'). r = 0 \<and> ok w' \<and>
    obs w' = showing emit (matches nmb pat (lines_of (slice data 0 lst @ rest))) (set_desc fd Closed (obs w)))"
  using assms(6-12)
proof (induction "length rest" arbitrary: rest data lst w rule: less_induct)
  case less
  define n where "n = 1024 - lst"
  define d where "d = take n rest"
  define fut where "fut = drop n rest"
  define dat where "dat = (\<lambda>i. if i < lst then data i else over (\<lambda>i. data (lst + i)) d (i - lst))"
  have n: "lst + n = 1024" "1024 - int lst = int n" "0 < n" using less.prems(4) by (simp_all add: n_def)
  have d: "length d \<le> n" "d @ fut = rest" by (simp_all add: d_def fut_def)
  have fd8: "is_int32 fd" using desc_of_open [of "obs w" fd] less.prems(3) assms(5) by (simp add: is_int32_def)
  have sl: "slice dat 0 (lst + length d) = slice data 0 lst @ d"
    by (rule nth_equalityI) (auto simp: dat_def over_def nth_append)
  have top: "dat 1024 = data 1024"
  proof -
    have "\<not> 1024 < lst" "\<not> 1024 - lst < length d" "lst + (1024 - lst) = 1024" using n(1) d(1) by linarith+
    then show ?thesis unfolding dat_def over_def by presburger
  qed
  have read: "returns (ece391_read c fd (\<lambda>i. data (lst + i)) (1024 - int lst) w) (\<lambda>(r, b, w'). r = int (length d) \<and>
      b = over (\<lambda>i. data (lst + i)) d \<and> ok w' \<and> obs w' = set_desc fd (File fut) (obs w))"
    using read_file [OF less.prems(1,3), of "int n" d] n by (simp add: d_def fut_def)
  let ?L = "lines_of (slice data 0 lst @ rest)"
  have step: "returns (do {
        (data, lst, w) \<leftarrow> grep_lines c s (length pat) nm (int (length d)) dat (lst + nat (int (length d))) 0 u;
        if int (length d) = 0 then do {
          (r, w) \<leftarrow> ece391_close c fd w;
          if r = -1 then do { w \<leftarrow> ece391_fdputs c 1 (line_lit ''file close failed'') w; Some (-1, w) } else Some (0, w)
        } else grep_chunks c s (length pat) nm fd data lst w })
      (\<lambda>(r, w'). r = 0 \<and> ok w' \<and> obs w' = showing emit (matches nmb pat ?L) (set_desc fd Closed (obs w)))"
    if u: "ok u" "obs u = set_desc fd (File fut) (obs w)" for u
  proof -
    have du: "desc_of (obs u) 1 = Display" "desc_of (obs u) fd = File fut"
      using u(2) less.prems(2,3) assms(5) by simp_all
    have "fut = [] \<or> int (length d) \<noteq> 0 \<and> dat (lst + length d) \<noteq> NEWLINE \<and> (0 \<noteq> (0::nat) \<or> NEWLINE \<in> set (slice dat 0 (lst + length d)))"
    proof (cases "fut = []")
      case False
      then have full: "length d = n" by (simp add: d_def fut_def)
      have "NEWLINE \<in> set (slice data 0 lst @ d)"
      proof (rule ccontr)
        assume no: "NEWLINE \<notin> set (slice data 0 lst @ d)"
        let ?l = "takeWhile (\<lambda>b. b \<noteq> NEWLINE) (slice data 0 lst @ rest)"
        have "length (slice data 0 lst @ d) \<le> length ?l"
          using no unfolding d(2) [symmetric] append_assoc [symmetric] by (subst takeWhile_append2) auto
        then have "1024 \<le> length ?l" using full n(1) by simp
        moreover have "?l \<in> set ?L" using False d(2) by (subst lines_of.simps) auto
        ultimately show False using less.prems(7) by fastforce
      qed
      moreover have "dat (lst + length d) \<noteq> NEWLINE" using full n(1) top less.prems(5) by simp
      ultimately show ?thesis using full n(3) sl by simp
    qed simp
    moreover have "NUL \<notin> set (slice dat 0 (lst + length d))" using less.prems(6) d(2) unfolding sl by auto
    moreover have "lst + length d \<le> 1024" using d(1) n(1) by linarith
    ultimately have lines: "returns (grep_lines c s (length pat) nm (int (length d)) dat (lst + nat (int (length d))) 0 u)
        (chunk_read nmb pat (int (length d)) (lst + length d) (data 1024) fut ?L u)"
      using grep_lines_shows [OF assms(1-4) u(1) du(1), of 0 "lst + length d" dat fut "int (length d)"]
      unfolding sl top append_assoc d(2) by simp
    show ?thesis
      unfolding returns_bind
    proof (rule returns_mono [OF lines], clarify)
      fix data' lst' w'
      assume "chunk_read nmb pat (int (length d)) (lst + length d) (data 1024) fut ?L u (data', lst', w')"
      then obtain Ls where r: "ok w'" "NUL \<notin> set (slice data' 0 lst')" "d = [] \<longrightarrow> lst' = 0" "lst' = 0 \<or> lst' < lst + length d"
          "data' 1024 \<in> {data 1024, NUL}" and Ls: "obs w' = showing emit (matches nmb pat Ls) (obs u)" "Ls @ lines_of (slice data' 0 lst' @ fut) = ?L"
        unfolding chunk_read_def by auto
      have dw: "desc_of (obs w') 1 = Display" "desc_of (obs w') fd = File fut" using Ls(1) du by simp_all
      show "returns (if int (length d) = 0 then do {
          (r, w) \<leftarrow> ece391_close c fd w';
          if r = -1 then do { w \<leftarrow> ece391_fdputs c 1 (line_lit ''file close failed'') w; Some (-1, w) } else Some (0, w)
        } else grep_chunks c s (length pat) nm fd data' lst' w')
        (\<lambda>(r, w'). r = 0 \<and> ok w' \<and> obs w' = showing emit (matches nmb pat ?L) (set_desc fd Closed (obs w)))"
      proof (cases "d = []")
        case True
        then have "fut = []" using n(3) by (auto simp: d_def fut_def)
        then have "Ls = ?L" using Ls(2) r(3) True by simp
        moreover have "spec_close fd (obs w') = (0, set_desc fd Closed (obs w'))" using dw(2) assms(5) by (simp add: spec_close_def)
        ultimately show ?thesis
          using True Ls(1) u(2) by (auto intro!: returns_mono [OF close_desc [OF r(1) fd8]])
      next
        case False
        then have "length fut < length rest" unfolding d(2) [symmetric] by simp
        moreover have "lst' \<le> 1023" using r(4) d(1) n(1) by linarith
        moreover have "data' 1024 \<noteq> NEWLINE" using r(5) less.prems(5) by auto
        moreover have "NUL \<notin> set (slice data' 0 lst' @ fut)" using r(2) less.prems(6) d(2) by auto
        moreover have "\<forall>l \<in> set (lines_of (slice data' 0 lst' @ fut)). length l < 1024" using less.prems(7) unfolding Ls(2) [symmetric] by auto
        ultimately have IH: "returns (grep_chunks c s (length pat) nm fd data' lst' w') (\<lambda>(r, v). r = 0 \<and> ok v \<and>
            obs v = showing emit (matches nmb pat (lines_of (slice data' 0 lst' @ fut))) (set_desc fd Closed (obs w')))"
          using less.hyps [OF _ r(1) dw] by blast
        have "showing emit (matches nmb pat (lines_of (slice data' 0 lst' @ fut))) (set_desc fd Closed (obs w')) =
            showing emit (matches nmb pat ?L) (set_desc fd Closed (obs w))"
          unfolding Ls(2) [symmetric] by (simp add: Ls(1) u(2))
        with IH False show ?thesis by simp
      qed
    qed
  qed
  show ?case
    by (subst grep_chunks.simps, unfold returns_bind, rule returns_mono [OF read], clarify, fold dat_def)
      (use step in \<open>simp add: Let_def\<close>)
qed

lemma do_one_file_shows:
  assumes "ok w" "std (obs w)" "in_use (obs w) < 8" "cstr nm = Some nmb" "length nmb \<le> 1024" "cstr s = Some pat" "pat \<noteq> []"
    and "disk (obs w) nmb = Some (File bs)" "searchable bs" "junk w 1024 \<noteq> NEWLINE"
  shows "returns (do_one_file c junk s nm w) (\<lambda>(r, w'). r = 0 \<and> ok w' \<and> obs w' = showing emit (matches nmb pat (lines_of bs)) (obs w))"
proof -
  let ?fd = "int (next_desc (obs w))"
  note fd = next_desc_free [OF assms(2,3)]
  have len: "ece391_strlen s = Some (length pat)" using assms(6) by (auto simp: cstr_eq_Some)
  have opens: "returns (ece391_open c nm w) (\<lambda>(r, w'). r = ?fd \<and> ok w' \<and> obs w' = set_desc ?fd (File bs) (obs w))"
    using open_name [OF assms(1,4,5)] assms(3,8) by (auto simp: spec_open_def elim!: returns_mono)
  have rest: "returns (grep_chunks c s (length pat) nm ?fd (junk w) 0 u) (\<lambda>(r, w'). r = 0 \<and> ok w' \<and>
      obs w' = showing emit (matches nmb pat (lines_of bs)) (obs w))"
    if u: "ok u" "obs u = set_desc ?fd (File bs) (obs w)" for u
  proof -
    have d: "desc_of (obs u) 1 = Display" "desc_of (obs u) ?fd = File bs"
      using opened_desc(2,3) [OF assms(2,3) _ refl] std_display [OF assms(2)] fd(1) u(2) by simp_all
    have "set_desc ?fd Closed (obs u) = obs w" using u(2) fd(3) by (simp add: set_desc_same)
    then show ?thesis
      using grep_chunks_shows [OF assms(4-7) _ u(1) d, of 0 "junk w"] fd(1) assms(9,10) by (simp add: searchable_def)
  qed
  show ?thesis
    unfolding do_one_file_def len by (auto intro!: returns_mono [OF opens] rest)
qed

lemma grep_files_shows:
  assumes "ok w" "std (obs w)" "in_use (obs w) < 8" "2 \<le> fd" "desc_of (obs w) fd = Dir nms" "cstr s = Some pat" "pat \<noteq> []"
    and "\<forall>nm \<in> set nms. hd nm \<noteq> of_char CHR ''.'' \<longrightarrow> disk (obs w) nm = Some (File (content nm)) \<and> searchable (content nm)"
    and "\<forall>w. junk w 1024 \<noteq> NEWLINE"
  shows "returns (grep_files c junk s fd buf w) (\<lambda>(r, w'). r = 0 \<and> ok w' \<and>
    obs w' = set_desc fd (Dir []) (showing emit (concat (map (report pat content) nms)) (obs w)))"
  using assms(1-3,5,8)
proof (induction nms arbitrary: buf w)
  case Nil
  then have "set_desc fd (Dir []) (obs w) = obs w" using desc_of_open [of "obs w" fd] by (intro set_desc_same) simp
  then show ?case by (subst grep_files.simps) (auto intro!: returns_mono [OF read_names_end [OF Nil.prems(1,4)]])
next
  case (Cons nm nms)
  let ?v = "obs w" and ?b = "over buf (nm @ replicate (32 - length nm) NUL)"
  let ?Q = "\<lambda>(r, w'). r = (0 :: int) \<and> ok w' \<and> obs w' = set_desc fd (Dir []) (showing emit (concat (map (report pat content) (nm # nms))) ?v)"
  note read = read_name [OF Cons.prems(1,4), of buf]
  have fd: "desc_of ?v fd \<noteq> Closed" using Cons.prems by auto
  have again: "returns (grep_files c junk s fd b u) ?Q"
    if "ok u" "obs u = set_desc fd (Dir nms) (showing emit (report pat content nm) ?v)" for b u
    using Cons.IH [of u b] that Cons.prems(2,3,5) assms(4) fd by (simp add: in_use_set_desc)
  have one: "returns (do_one_file c junk s (?b(length nm := NUL)) u) (\<lambda>(r, u'). r = 0 \<and> returns (grep_files c junk s fd (?b(length nm := NUL)) u') ?Q)"
    if u: "ok u" "obs u = set_desc fd (Dir nms) ?v" and nm: "1 \<le> length nm" "length nm \<le> 32" "NUL \<notin> set nm"
      and dot: "hd nm \<noteq> of_char CHR ''.''" for u
  proof -
    have name: "cstr (?b(length nm := NUL)) = Some nm"
    proof -
      have "ece391_strlen (?b(length nm := NUL)) = Some (length nm)"
        using nm(3) by (auto simp: strlen_eq_Some over_def nth_append in_set_conv_nth)
      then show ?thesis by (auto simp: cstr_eq_Some over_def nth_append strlen_eq_Some)
    qed
    have v: "std (obs u)" "in_use (obs u) < 8" "disk (obs u) nm = Some (File (content nm))" "searchable (content nm)"
      using u(2) Cons.prems(2,3,5) assms(4) fd dot by (simp_all add: in_use_set_desc)
    have r: "report pat content nm = matches nm pat (lines_of (content nm))" using dot by (simp add: report_def)
    show ?thesis
      by (rule returns_mono [OF do_one_file_shows [OF u(1) v(1,2) name _ assms(6,7) v(3,4)]])
        (use nm(2) assms(9) again u(2) r in auto)
  qed
  have first: "?b 0 = hd nm" if "1 \<le> length nm" using that by (cases nm) (simp_all add: over_def)
  have skip: "report pat content nm = []" if "hd nm = of_char CHR ''.''" using that by (simp add: report_def)
  show ?case
    unfolding grep_files.simps [of c junk s fd buf w] returns_bind
  proof (rule returns_mono [OF read], clarify)
    fix u
    assume *: "1 \<le> length nm" "length nm \<le> 32" "NUL \<notin> set nm" "ok u" "obs u = set_desc fd (Dir nms) ?v"
    have some: "nm \<noteq> []" using *(1) by auto
    show "returns (if int (length nm) = 0 then Some (0, u)
        else if int (length nm) = -1 then do { w \<leftarrow> ece391_fdputs c 1 (line_lit ''directory entry read failed'') u; Some (3, w) }
        else if ?b 0 = of_char CHR ''.'' then grep_files c junk s fd ?b u
        else do {
          let buf = ?b(nat (int (length nm)) := NUL);
          (r, w) \<leftarrow> do_one_file c junk s buf u;
          if r \<noteq> 0 then Some (3, w) else grep_files c junk s fd buf w
        }) ?Q"
    proof (cases "hd nm = of_char CHR ''.''")
      case True
      then show ?thesis using again [OF *(4)] *(1,5) some skip first by simp
    next
      case False
      then show ?thesis
        using *(1) some first by (auto simp: Let_def intro!: returns_mono [OF one [OF *(4,5,1-3) False]])
    qed
  qed
qed

lemma grep_main_shows:
  assumes "ok w" "std (obs w)" "in_use (obs w) < 7" "arguments (obs w) = pat" "pat \<noteq> []" "length pat < 32"
    and "disk (obs w) (bytes_of ''.'') = Some (Dir nms)"
    and "\<forall>nm \<in> set nms. hd nm \<noteq> of_char CHR ''.'' \<longrightarrow> disk (obs w) nm = Some (File (content nm)) \<and> searchable (content nm)"
    and "\<forall>w. junk w 1024 \<noteq> NEWLINE"
  shows "returns (grep_main c junk search buf w) (\<lambda>(r, w'). r = 0 \<and> ok w' \<and>
    obs w' = set_desc (int (next_desc (obs w))) (Dir []) (showing emit (concat (map (report pat content) nms)) (obs w)))"
proof -
  let ?fd = "int (next_desc (obs w))"
  have free: "in_use (obs w) < 8" using assms(3) by simp
  note fd = opened_desc [OF assms(2) free _ refl] next_desc_free [OF assms(2) free]
  have args: "returns (ece391_getargs c search 1024 w) (\<lambda>(r, b, w'). r = 0 \<and> cstr b = Some pat \<and> ok w' \<and> obs w' = obs w)"
    using get_arguments [OF assms(1)] assms(4-6) by simp
  have dot: "cstr (lit ''.'') = Some (bytes_of ''.'')" "length (bytes_of ''.'') \<le> 1024" by (rule cstr_arr_of) (simp_all add: bytes_of_def)
  have opens: "returns (ece391_open c (lit ''.'') u) (\<lambda>(r, w'). r = ?fd \<and> ok w' \<and> obs w' = set_desc ?fd (Dir nms) (obs w))"
    if "ok u" "obs u = obs w" for u
    using open_name [OF that(1) dot] free assms(7) that(2) by (auto simp: spec_open_def elim!: returns_mono)
  have files: "returns (grep_files c junk s ?fd buf u) (\<lambda>(r, w'). r = 0 \<and> ok w' \<and>
      obs w' = set_desc ?fd (Dir []) (showing emit (concat (map (report pat content) nms)) (obs w)))"
    if "ok u" "obs u = set_desc ?fd (Dir nms) (obs w)" "cstr s = Some pat" for s u
    using grep_files_shows [OF that(1) _ _ _ _ that(3) assms(5), of ?fd nms content junk buf] that(2) assms(2,3,8,9) fd by simp
  show ?thesis
    unfolding grep_main_def by (auto intro!: returns_mono [OF args] returns_mono [OF opens] files)
qed

end

section \<open>What grep shows on the kernel\<close>

text \<open>The bytes of the file that a name stands for.\<close>

definition content_of :: "'a kernel_state_scheme \<Rightarrow> byte list \<Rightarrow> byte list" where
  "content_of s nm = (case lookup s nm of None \<Rightarrow> [] | Some d \<Rightarrow> file_content (mem s) (fs s) (inode_num d))"

definition text_file :: "'a kernel_state_scheme \<Rightarrow> byte list \<Rightarrow> bool" where
  "text_file s nm \<longleftrightarrow> (\<exists>d. lookup s nm = Some d \<and> filetype d = 2) \<and> searchable (content_of s nm)"

text \<open>
  C10. grep finds its string: in a directory whose names that do not begin with a dot are those of text
  files (regular, without NUL, lines of less than 1024 bytes), grep goes through all of them in the order
  of the directory and shows, for each line that contains the string anywhere, the name, a colon and
  the line, once; lines that the reads of 1024 bytes cut are put together again.  The byte behind the
  buffer, which the code reads and never writes, is no line feed.
\<close>

theorem grep_finds_lines:
  assumes "serves s" "placed A" "arguments (kernel_view s) = pat" "pat \<noteq> []" "length pat < 32"
    and "lookup s (bytes_of ''.'') = Some d" "filetype d = 1" "num_open_descriptors (pcbs s (running_pid s)) < 7"
    and "\<forall>nm \<in> set (names_on (mem s) (fs s)). hd nm \<noteq> of_char CHR ''.'' \<longrightarrow> text_file s nm"
    and "\<forall>w. junk w 1024 \<noteq> NEWLINE"
  shows "\<exists>s'. grep_main (kernel_calls irq A x y run) junk search buf s = Some (0, s') \<and> serves s'
    \<and> shown (kernel_view s') =
      screen_puts (concat (map (report pat (content_of s)) (names_on (mem s) (fs s)))) (shown (kernel_view s))"
proof -
  have "disk (kernel_view s) (bytes_of ''.'') = Some (Dir (names_on (mem s) (fs s)))"
    using assms(6,7) by (simp add: dentry_desc_def)
  moreover have "in_use (kernel_view s) < 7" using assms(1,8) by (simp add: kernel_in_use)
  moreover have "disk (kernel_view s) nm = Some (File (content_of s nm)) \<and> searchable (content_of s nm)" if "text_file s nm" for nm
    using that by (auto simp: text_file_def content_of_def dentry_desc_def)
  ultimately show ?thesis
    using kernel.grep_main_shows [where w = s and junk = junk and A = A and irq = irq and x = x and y = y and run = run and buf = buf
        and search = search and content = "content_of s", OF _ kernel_std [OF assms(1)] _ assms(3-5) _ _ assms(10)] assms(1,2,9)
    by (auto simp: returns_iff screen_puts_def simp del: kernel_view_simps)
qed

text \<open>The demonstration machine with a text in the file \<open>cat\<close>.\<close>

definition demo_text :: "byte list" where
  "demo_text = bytes_of ''jell'' @ NEWLINE # bytes_of ''spell it'' @ NEWLINE # bytes_of ''no'' @ NEWLINE # bytes_of ''cell phone'' @ [NEWLINE]"

lemma demo_text_props:
  "length demo_text = 28" "NUL \<notin> set demo_text"
  "lines_of demo_text = map bytes_of [''jell'', ''spell it'', ''no'', ''cell phone'']" "lines_of (bytes_of ''hello'') = [bytes_of ''hello'']"
proof -
  have "NEWLINE \<notin> set (bytes_of ''jell'')" "NEWLINE \<notin> set (bytes_of ''spell it'')" "NEWLINE \<notin> set (bytes_of ''no'')"
    "NEWLINE \<notin> set (bytes_of ''cell phone'')" "NEWLINE \<notin> set (bytes_of ''hello'')"
    by (simp_all add: bytes_of_def)
  then show "lines_of demo_text = map bytes_of [''jell'', ''spell it'', ''no'', ''cell phone'']"
      "lines_of (bytes_of ''hello'') = [bytes_of ''hello'']"
    by (simp_all add: demo_text_def lines_of_last bytes_of_nonempty)
qed (simp_all add: demo_text_def bytes_of_def)

lemma demo_text_files:
  assumes "s = demo_machine demo_text bs"
  shows "content_of s (bytes_of ''cat'') = demo_text" "content_of s (bytes_of ''f'') = bytes_of ''hello''"
    "text_file s (bytes_of ''cat'')" "text_file s (bytes_of ''f'')"
proof -
  note p = demo_text_props(1)
  have l: "lookup s (bytes_of ''cat'') = Some (load_dentry (demo_image demo_text) 0x500040)"
    "lookup s (bytes_of ''f'') = Some (load_dentry (demo_image demo_text) 0x500080)"
    using machine_view(3) [OF p] by (simp_all add: assms) (simp add: lookup_def machine_simps demo_dir_simps image_names [OF p])
  then show c: "content_of s (bytes_of ''cat'') = demo_text" "content_of s (bytes_of ''f'') = bytes_of ''hello''"
    by (simp_all add: content_of_def assms machine_simps load_dentry_def image_words [OF p] image_file [OF p])
  have "searchable demo_text" "searchable (bytes_of ''hello'')"
    using demo_text_props by (simp_all add: searchable_def) (simp_all add: bytes_of_def)
  then show "text_file s (bytes_of ''cat'')" "text_file s (bytes_of ''f'')"
    unfolding text_file_def c using l by (simp_all add: load_dentry_def image_words [OF p])
qed

lemma demo_report:
  assumes "s = demo_machine demo_text bs"
  shows "concat (map (report (bytes_of ''ell'') (content_of s)) (names_on (mem s) (fs s))) =
    bytes_of ''cat:jell'' @ NEWLINE # bytes_of ''cat:spell it'' @ NEWLINE # bytes_of ''cat:cell phone'' @ NEWLINE # bytes_of ''f:hello'' @ [NEWLINE]"
proof -
  have n: "names_on (mem s) (fs s) = map bytes_of [''cat'', ''f'', ''.'']"
    using machine_view(6) [OF demo_text_props(1)] by (simp add: assms machine_simps)
  have h: "hd (bytes_of ''cat'') \<noteq> of_char CHR ''.''" "hd (bytes_of ''f'') \<noteq> of_char CHR ''.''" "hd (bytes_of ''.'') = of_char CHR ''.''"
    by (simp_all add: bytes_of_def)
  have m: "matches nm (bytes_of ''ell'') (map bytes_of [''jell'', ''spell it'', ''no'', ''cell phone'']) =
      concat (map (\<lambda>l. nm @ bytes_of '':'' @ l @ [NEWLINE]) (map bytes_of [''jell'', ''spell it'', ''cell phone'']))"
    "matches nm (bytes_of ''ell'') [bytes_of ''hello''] = nm @ bytes_of '':'' @ bytes_of ''hello'' @ [NEWLINE]" for nm
    by (simp_all add: matches_def bytes_of_def sublist_Cons_right)
  show ?thesis
    unfolding n by (simp add: report_def h demo_text_files [OF assms] demo_text_props(3,4) [simplified] m [simplified]) (simp add: bytes_of_def)
qed

theorem grep_finds_lines_witness:
  "\<exists>s'. grep_main (kernel_calls (\<lambda>_ s. s) 0x8001000 0 0 (\<lambda>_ _. None)) (\<lambda>_ _. 0) (\<lambda>_. 0) (\<lambda>_. 0)
      (demo_machine demo_text (bytes_of ''ell'')) = Some (0, s')
    \<and> shown (kernel_view s') = screen_puts (bytes_of ''cat:jell'' @ NEWLINE # bytes_of ''cat:spell it'' @ NEWLINE #
        bytes_of ''cat:cell phone'' @ NEWLINE # bytes_of ''f:hello'' @ [NEWLINE])
      (shown (kernel_view (demo_machine demo_text (bytes_of ''ell''))))"
proof -
  let ?s = "demo_machine demo_text (bytes_of ''ell'')"
  note p = demo_text_props(1)
  have a: "arguments (kernel_view ?s) = bytes_of ''ell''" by (rule machine_view(2) [OF p]) (simp_all add: bytes_of_def)
  have l: "bytes_of ''ell'' \<noteq> []" "length (bytes_of ''ell'') < 32" by (simp_all add: bytes_of_def)
  have d: "filetype (load_dentry (demo_image demo_text) 0x5000C0) = 1" by (simp add: load_dentry_def image_words [OF p])
  have o: "num_open_descriptors (pcbs ?s (running_pid ?s)) < 7" using machine_view(1) [OF p] by (simp add: machine_simps)
  have n: "names_on (mem ?s) (fs ?s) = map bytes_of [''cat'', ''f'', ''.'']"
    using machine_view(6) [OF p] by (simp add: machine_simps)
  have "\<forall>nm \<in> set (names_on (mem ?s) (fs ?s)). hd nm \<noteq> of_char CHR ''.'' \<longrightarrow> text_file ?s nm"
    unfolding n using demo_text_files(3,4) [OF refl] by (simp add: bytes_of_def)
  from grep_finds_lines [OF machine_serves [OF p] demo_buffer a l machine_view(4) [OF p] d o this, of "\<lambda>_ _. 0"]
  show ?thesis unfolding demo_report [OF refl] by (simp del: kernel_view_simps) blast
qed

end
