(* ===== verification/UserSession.thy ===== *)
theory UserSession
  imports UserRuns
begin

text \<open>
  A program from the command line to its end: execute starts it, it runs against the kernel's calls, its
  return value goes to halt, and the caller's execute returns.

  The programs are proved from the contract \<open>user_system\<close> once; here the contract is interpreted a second
  time, on the states that also keep everything that belongs to other processes (\<open>kept\<close>), which is
  what the way back through halt rests on.
\<close>

section \<open>The start and the end of a program\<close>

text \<open>
  _start calls main and halts with its value.  \<open>run_program\<close> is what a caller's execute sees: the
  entry, main, and halt's return on the caller's kernel stack with the status.
\<close>

definition user_start :: "'a interrupts \<Rightarrow> ('a kernel_state_scheme \<Rightarrow> (int \<times> 'a kernel_state_scheme) option) \<Rightarrow>
    'a kernel_state_scheme \<Rightarrow> (flow \<times> 'a kernel_state_scheme) option" where
  "user_start irq main s = do {
     (r, s) \<leftarrow> main s;
     syscall_asm irq 1 (word_of_int r) 0 0 s
   }"

definition run_program :: "'a interrupts \<Rightarrow> ('a kernel_state_scheme \<Rightarrow> (int \<times> 'a kernel_state_scheme) option) \<Rightarrow>
    flow \<Rightarrow> 'a kernel_state_scheme \<Rightarrow> (int \<times> 'a kernel_state_scheme) option" where
  "run_program irq main f s =
     (case f of ToUser eip esp \<Rightarrow> do {
        (f, s) \<leftarrow> user_start irq main s;
        case f of LongRet esp ebp code \<Rightarrow> Some (code, s) | _ \<Rightarrow> None
      } | _ \<Rightarrow> None)"

section \<open>The contract with an invariant of the calls\<close>

context user_system
begin

lemma with_invariant:
  assumes "\<And>w fd n buf r w'. ok w \<Longrightarrow> K w \<Longrightarrow> 0 \<le> n \<Longrightarrow> n \<le> 1025 \<Longrightarrow> ece391_write c fd buf n w = Some (r, w') \<Longrightarrow> K w'"
    and "\<And>w fd n buf r b w'. ok w \<Longrightarrow> K w \<Longrightarrow> 0 \<le> n \<Longrightarrow> n \<le> 1025 \<Longrightarrow> ece391_read c fd buf n w = Some (r, b, w') \<Longrightarrow> K w'"
    and "\<And>w name nm r w'. ok w \<Longrightarrow> K w \<Longrightarrow> cstr name = Some nm \<Longrightarrow> length nm \<le> 1024 \<Longrightarrow> ece391_open c name w = Some (r, w') \<Longrightarrow> K w'"
    and "\<And>w fd r w'. ok w \<Longrightarrow> K w \<Longrightarrow> ece391_close c fd w = Some (r, w') \<Longrightarrow> K w'"
    and "\<And>w buf r b w'. ok w \<Longrightarrow> K w \<Longrightarrow> ece391_getargs c buf 1024 w = Some (r, b, w') \<Longrightarrow> K w'"
    and "\<And>w a r w'. ok w \<Longrightarrow> K w \<Longrightarrow> a < 0x8000000 \<Longrightarrow> ece391_vidmap c a w = Some (r, w') \<Longrightarrow> K w'"
    and "\<And>w n r w'. ok w \<Longrightarrow> K w \<Longrightarrow> n < 1 \<or> 10 < n \<Longrightarrow> is_int32 n \<Longrightarrow> call_sys c n w = Some (r, w') \<Longrightarrow> K w'"
  shows "user_system c (\<lambda>w. ok w \<and> K w) obs emit"
proof (unfold_locales, goal_cases)
  case (1 w fd n buf)
  then show ?case using write_display [of w fd n buf] assms(1) [of w n fd buf] by (auto simp: returns_iff)
next
  case (2 w fd n buf)
  then show ?case using write_refused [of w fd n buf] assms(1) [of w n fd buf] by (auto simp: returns_iff)
next
  case (3 w fd bs n d buf)
  then show ?case using read_file [of w fd bs n d buf] assms(2) [of w n fd buf] by (auto simp: returns_iff)
next
  case (4 w fd nm nms buf)
  then show ?case using read_name [of w fd nm nms buf] assms(2) [of w 32 fd buf] by (auto simp: returns_iff)
next
  case (5 w fd buf)
  then show ?case using read_names_end [of w fd buf] assms(2) [of w 32 fd buf] by (auto simp: returns_iff)
next
  case (6 w fd n buf)
  then show ?case using read_refused [of w fd n buf] assms(2) [of w n fd buf] by (auto simp: returns_iff)
next
  case (7 w name nm)
  then show ?case using open_name [of w name nm] assms(3) [of w name nm] by (auto simp: returns_iff)
next
  case (8 w fd)
  then show ?case using close_desc [of w fd] assms(4) [of w fd] by (auto simp: returns_iff)
next
  case (9 w buf)
  then show ?case using get_arguments [of w buf] assms(5) [of w buf] by (auto simp: returns_iff)
next
  case (10 w buf)
  then show ?case using no_arguments [of w buf] assms(5) [of w buf] by (auto simp: returns_iff)
next
  case (11 w a)
  then show ?case using vidmap_refused [of w a] assms(6) [of w a] by (auto simp: returns_iff)
next
  case (12 w n)
  then show ?case using no_such_call [of w n] assms(7) [of w n] by (auto simp: returns_iff)
qed

end

section \<open>The calls keep what belongs to others\<close>

text \<open>Interrupts that keep it too, while a call waits.\<close>

definition quiet :: "'a interrupts \<Rightarrow> bool" where
  "quiet irq \<longleftrightarrow> (\<forall>s n t. kept s t \<longrightarrow> kept s (irq n t))"

lemma kept_DO_CALL:
  assumes "kept s0 s" "2 \<le> user_frame s" "quiet irq" "DO_CALL irq num x y z s = Some (r, s')"
    and "num \<in> {3, 4, 5, 6, 7, 8}" "call_buffers (word_of_nat num) x y z"
  shows "kept s0 s'"
proof -
  obtain f where "syscall_asm irq (word_of_nat num) x y z s = Some (f, s')"
    using assms(4) by (cases "syscall_asm irq (word_of_nat num) x y z s") (auto simp: DO_CALL_def split: flow.split_asm)
  moreover have "sint (word_of_nat num :: u32) \<notin> {1, 2}" using assms(5) by auto
  moreover have "kept s (irq n t)" if "kept s t" for n t using assms(3) that by (simp add: quiet_def)
  ultimately have "kept s s'" using kept_syscall [OF kept_display [OF assms(1)] assms(2,6)] by blast
  then show ?thesis by (rule kept_trans [OF assms(1)])
qed

lemma kept_put_buffer:
  "kept s0 s \<Longrightarrow> 2 \<le> user_frame s \<Longrightarrow> placed A \<Longrightarrow> n \<le> 1025 \<Longrightarrow> kept s0 (put_buffer A n buf s)"
  unfolding put_buffer_def by (rule kept_vstore) (simp_all add: placed_def)

definition kept_since :: "'a interrupts \<Rightarrow> 'a kernel_state_scheme \<Rightarrow> 'a kernel_state_scheme \<Rightarrow> bool" where
  "kept_since irq s0 s \<longleftrightarrow> quiet irq \<and> kept s0 s"

lemma kept_call:
  assumes "kept s0 s" "serves s" "placed A" "n \<le> 1025" "quiet irq"
    and "DO_CALL irq num x y z (put_buffer A n buf s) = Some (r, s')" "num \<in> {3, 4, 5, 6, 7, 8}"
    and "call_buffers (word_of_nat num) x y z"
  shows "kept s0 s'"
proof (rule kept_DO_CALL [OF _ _ assms(5-8)])
  show "kept s0 (put_buffer A n buf s)" by (rule kept_put_buffer [OF assms(1) serves_facts(2) [OF assms(2)] assms(3,4)])
  show "2 \<le> user_frame (put_buffer A n buf s)"
    using serves_facts(2) [OF put_buffer_eq(3) [OF assms(2,3,4)]] .
qed

lemma kept_kernel_write:
  assumes "kept s0 s" "serves s" "placed A" "quiet irq" "n \<le> 1025" "kernel_write irq A fd buf n s = Some (r, s')"
  shows "kept s0 s'"
  using assms kept_call [of s0 s A "nat n" irq 4 "word_of_int fd" "word_of_nat A" "word_of_int n" buf r s']
  by (auto simp: kernel_write_def call_buffers_def)

lemma kept_kernel_read:
  assumes "kept s0 s" "serves s" "placed A" "quiet irq" "0 \<le> n" "n \<le> 1025" "kernel_read irq A fd buf n s = Some (r, b, s')"
  shows "kept s0 s'"
proof -
  have "in_window A (max 32 (nat n))" using assms(3,6) by (auto simp: in_window_def placed_def)
  then have "call_buffers (word_of_nat 3) (word_of_int fd) (word_of_nat A) (word_of_int n)"
    using assms(3,5,6) by (simp add: call_buffers_def address_word int32_word buffer_size)
  moreover have "DO_CALL irq 3 (word_of_int fd) (word_of_nat A) (word_of_int n) (put_buffer A (nat n) buf s) = Some (r, s')"
    using assms(7) by (auto simp: kernel_read_def bind_eq_Some_conv)
  ultimately show ?thesis using assms(1-4,6) kept_call [of s0 s A "nat n" irq 3 _ _ _ buf r s'] by auto
qed

interpretation kernel_kept: user_system "kernel_calls irq A x y run"
    "\<lambda>s. (serves s \<and> placed A) \<and> kept_since irq s0 s" kernel_view screen_putc
  for irq :: "'a interrupts" and A x y run s0
proof (rule kernel.with_invariant, unfold kernel_calls_simps kept_since_def, elim conjE, goal_cases)
  case (1 w fd n buf r w')
  then show ?case using kept_kernel_write [of s0 w A irq n] by blast
next
  case (2 w fd n buf r b w')
  then show ?case using kept_kernel_read [of s0 w A irq n] by blast
next
  case (3 w name nm r w')
  then have "DO_CALL irq 5 (word_of_nat A) x y (put_buffer A (length nm + 1) name w) = Some (r, w')"
    by (auto simp: kernel_open_def bind_eq_Some_conv cstr_eq_Some)
  then show ?case using 3 kept_call [of s0 w A "length nm + 1" irq 5] by (auto simp: call_buffers_def)
next
  case (4 w fd r w')
  then show ?case
    using kept_DO_CALL [of s0 w irq 6 "word_of_int fd" x y r w'] serves_facts(2) [of w] by (auto simp: kernel_close_def call_buffers_def)
next
  case (5 w buf r b w')
  then have "DO_CALL irq 7 (word_of_nat A) (word_of_int 1024) y (put_buffer A (nat 1024) buf w) = Some (r, w')"
    by (auto simp: kernel_getargs_def bind_eq_Some_conv)
  moreover have "call_buffers (word_of_nat 7) (word_of_nat A) (word_of_int 1024) y"
    using 5 by (auto simp: call_buffers_def address_word in_window_def placed_def)
  ultimately show ?case using 5 kept_call [of s0 w A "nat 1024" irq 7] by auto
next
  case (6 w a r w')
  then show ?case using kernel_vidmap_refused [of w a irq x y] by simp
next
  case (7 w n r w')
  then show ?case using kernel_no_such_call [of n irq A x y run w] by simp
qed


section \<open>The view across processes\<close>

text \<open>What the disk shows depends on kernel memory and the file system only.\<close>

lemma disk_agree:
  assumes "serves s" "agree_kernel (mem s) (mem s')" "fs s' = fs s"
  shows "disk (kernel_view s') = disk (kernel_view s)" "names_end (mem s') (fs s)"
    "\<forall>i \<in> {0..<num_direntries (fs s)}. dentry_ok (mem s') (fs s) i"
proof -
  have s: "fs_ok s" "dir_placed (fs s)" "names_end (mem s) (fs s)" using assms(1) by (simp_all add: serves_def fs_ok_def)
  have d: "0 \<le> i \<Longrightarrow> i < num_direntries (fs s) \<Longrightarrow> dentry_ok (mem s) (fs s) i" for i
    using assms(1) by (simp add: serves_def)
  have "Option.bind (lookup s' nm) (dentry_desc (mem s') (fs s')) = Option.bind (lookup s nm) (dentry_desc (mem s) (fs s))" for nm
    unfolding lookup_agree [OF s(1) assms(2,3)] assms(3)
    using lookup_entry [of s nm] dentry_agree(2) [OF assms(2) s(2) _ _ d] by (cases "lookup s nm") auto
  then show "disk (kernel_view s') = disk (kernel_view s)" by (simp add: fun_eq_iff)
  show "names_end (mem s') (fs s)" by (rule names_end_agree [OF assms(2) s(2,3)])
  show "\<forall>i \<in> {0..<num_direntries (fs s)}. dentry_ok (mem s') (fs s) i"
    using dentry_agree(1) [OF assms(2) s(2) _ _ d] by auto
qed

lemma serves_intro:
  assumes "serves s" "agree_kernel (mem s) (mem s')" "fs s' = fs s" "sched_term s' = sched_term s"
    and "paging_ok s'" "2 \<le> user_frame s'" "newest_pid s' \<noteq> 0" "screen_ok (screen_of (sched_term s') (video_base s') s')"
    and "fd_table_ok (pcbs s' (running_pid s'))" "\<And>i. i < 8 \<Longrightarrow> fd_ok (mem s') (fs s') (file_desc_arr (pcbs s' (running_pid s')) i)"
  shows "serves s'"
  using assms disk_agree [OF assms(1-3)] by (simp add: serves_def fs_ok_def)

text \<open>The newest process right after one has been started on the lowest free pid.\<close>

lemma newest_started:
  assumes "free_pid s = Some i" "pid_arr s' = (pid_arr s)(int i := 1)" "i = 5 \<or> pid_arr s (int i + 1) = 0"
  shows "newest_pid s' = int i + 1"
proof -
  have i: "i < 6" "pid_arr s (int i) = 0" using free_pid_bound [OF assms(1)] by simp_all
  have below: "pid_arr s (int j) \<noteq> 0" if "j < i" for j
    using assms(1) that i(1) by (auto simp: free_pid_def find_Some_iff simp del: upt_conv_Cons upt_rec_numeral)
  have "{j. j < Suc i} \<inter> {j. pid_arr s' (int j) = 0} = {}"
    using below assms(2) by (auto simp: less_Suc_eq)
  moreover have "Suc i = 6 \<or> pid_arr s' (int (Suc i)) = 0" using assms(2,3) by (auto simp: add.commute)
  ultimately have "free_pid s' = (if Suc i = 6 then None else Some (Suc i))"
    using i(1) by (intro free_pid_eq) simp_all
  then show ?thesis by (auto simp: newest_pid_def)
qed

lemma fd_ok_closed: "flags f = 0 \<Longrightarrow> fd_ok m g f"
  by (simp add: fd_ok_def)

lemma two_open:
  assumes "fd_table_ok p" "num_open_descriptors p = 2" "i < 8" "2 \<le> i"
  shows "flags (file_desc_arr p i) = 0"
proof (rule ccontr)
  assume "flags (file_desc_arr p i) \<noteq> 0"
  then have "{0, 1, i} \<subseteq> open_fds p" using assms by (auto simp: open_fds_def fd_table_ok_def)
  then have "card {0, 1, i} \<le> card (open_fds p)" by (intro card_mono) simp_all
  then show False using assms by (simp add: fd_table_ok_def)
qed

lemma video_base_cong: "video_frame s' = video_frame s \<Longrightarrow> video_base s' = video_base s"
  by (simp add: video_base_def)


lemma started_view:
  assumes "serves s" "process_started (int i + 1) arg prog s s1" "free_pid s = Some i" "i = 5 \<or> pid_arr s (int i + 1) = 0"
  shows "serves s1" "running_pid s1 = int i + 1" "shown (kernel_view s1) = shown (kernel_view s)"
    "disk (kernel_view s1) = disk (kernel_view s)" "in_use (kernel_view s1) = 2"
    "arguments (kernel_view s1) = takeWhile (\<lambda>b. b \<noteq> NUL) (map arg [0..<32])" "agree_kernel (mem s) (mem s1)"
proof -
  let ?p = "int i + 1"
  note f = serves_facts [OF assms(1)]
  have s1: "paging_ok s1" "user_frame s1 = i + 2" "video_frame s1 = video_frame s" "fs s1 = fs s"
    "mem s1 = store_bytes ((i + 2) * 0x400000 + 0x48000) prog (mem s)" "pid_arr s1 = (pid_arr s)(int i := 1)"
    "sched_term s1 = sched_term s" "fd_table_ok (pcbs s1 ?p)" "num_open_descriptors (pcbs s1 ?p) = 2"
    "terminals s1 = (terminals s)(sched_term s := (terminals s (sched_term s))\<lparr>active_pid := ?p\<rparr>)"
    "\<And>k. k < 32 \<Longrightarrow> args (pcbs s1 ?p) k = arg k"
    using assms(2) by (simp_all add: process_started_def nat_add_distrib)
  show run: "running_pid s1 = ?p" using s1(7,10) by (simp add: running_pid_def)
  show agree: "agree_kernel (mem s) (mem s1)" unfolding s1(5) by (intro agree_user_store) simp
  have new: "newest_pid s1 = ?p" by (rule newest_started [OF assms(3) s1(6) assms(4)])
  have "cells_at (mem s1) (video_base s) = cells_at (mem s) (video_base s)"
    unfolding s1(5) by (rule cells_store_user [OF f(1)]) simp
  then have scr: "screen_of (sched_term s1) (video_base s1) s1 = screen_of (sched_term s) (video_base s) s"
    using s1(7,10) video_base_cong [OF s1(3)] by (simp add: screen_of_def)
  show serves: "serves s1"
  proof (rule serves_intro [OF assms(1) agree s1(4,7,1)])
    show "screen_ok (screen_of (sched_term s1) (video_base s1) s1)"
      unfolding scr using assms(1) by (simp add: serves_def)
    show "fd_ok (mem s1) (fs s1) (file_desc_arr (pcbs s1 (running_pid s1)) k)" if "k < 8" for k
    proof (cases "2 \<le> k")
      case True
      then show ?thesis unfolding run using two_open [OF s1(8,9) that] by (simp add: fd_ok_closed)
    next
      case False
      then have "k = 0 \<or> k = 1" by linarith
      then show ?thesis unfolding run using s1(8) by (auto simp: fd_ok_def fd_table_ok_def)
    qed
  qed (use s1(2,8) run new in simp_all)
  show "shown (kernel_view s1) = shown (kernel_view s)" using scr by simp
  show "disk (kernel_view s1) = disk (kernel_view s)" by (rule disk_agree(1) [OF assms(1) agree s1(4)])
  show "in_use (kernel_view s1) = 2" using kernel_in_use [OF serves] run s1(9) by simp
  show "arguments (kernel_view s1) = takeWhile (\<lambda>b. b \<noteq> NUL) (map arg [0..<32])"
  proof -
    have "map (args (pcbs s1 ?p)) [0..<32] = map arg [0..<32]" using s1(11) by simp
    then show ?thesis unfolding kernel_view_simps(4) new by (rule arg_cong)
  qed
qed

text \<open>The arguments of a command line that are shorter than the control block's array.\<close>

lemma padded_arguments:
  assumes "NUL \<notin> set bs" "length bs < 32"
  shows "takeWhile (\<lambda>b. b \<noteq> NUL) (map (\<lambda>j. if j < length bs then bs ! j else NUL) [0..<32]) = bs"
proof -
  have "map (\<lambda>j. if j < length bs then bs ! j else NUL) [0..<32] = bs @ NUL # map (\<lambda>_. NUL) [Suc (length bs)..<32]"
  proof -
    have "[0..<32] = [0..<length bs] @ length bs # [Suc (length bs)..<32]"
      using assms(2) upt_add_eq_append [of 0 "length bs" "32 - length bs"] by (simp add: upt_conv_Cons)
    moreover have "map (\<lambda>j. if j < length bs then bs ! j else NUL) [0..<length bs] = bs" by (rule nth_equalityI) simp_all
    ultimately show ?thesis by simp
  qed
  then show ?thesis using assms(1) by (simp add: takeWhile_append) 
qed


section \<open>From execute to the return of halt\<close>

lemma command_with_argument:
  assumes "cstr c = Some (w @ 0x20 # a)" "\<forall>b \<in> set w. \<not> is_blank b" "length w < 32" "a \<noteq> []" "\<not> is_blank (hd a)"
  shows "command_line c w a"
proof -
  have c: "strlen c = Some (length w + length a + 1)" "\<And>i. i < length w + length a + 1 \<Longrightarrow> c i = (w @ 0x20 # a) ! i"
    using assms(1) by (auto simp: cstr_eq_Some)
  have nul: "c (length w + length a + 1) = NUL" "NUL \<notin> set (w @ 0x20 # a)" using cstr_plain [OF assms(1)] by simp_all
  have w: "c i = w ! i" if "i < length w" for i using c(2) [of i] that by (simp add: nth_append)
  have b: "c (length w) = 0x20" using c(2) [of "length w"] by simp
  have a: "c (length w + 1 + i) = a ! i" if "i < length a" for i
    using c(2) [of "length w + 1 + i"] that by (simp add: nth_append)
  have hd: "c (length w + 1) = hd a" using a [of 0] assms(4) by (simp add: hd_conv_nth)
  have blank: "is_blank (0x20 :: byte)" by (simp add: is_blank_def)
  moreover have "\<exists>k < 32. is_blank (c k)" using b assms(3) blank by (intro exI [of _ "length w"]) simp
  moreover have "\<exists>n. length w < n \<and> (\<forall>j. length w \<le> j \<and> j < n \<longrightarrow> is_blank (c j)) \<and>
      \<not> is_blank (c n) \<and> (\<forall>i < length a. c (n + i) = a ! i) \<and> c (n + length a) = NUL"
    using a hd nul(1) b blank assms(5)
    by (intro exI [of _ "length w + 1"]) (auto simp: less_Suc_eq ac_simps dest: le_less_Suc_eq)
  ultimately show ?thesis using w nul(2) assms(2,3) by (auto simp: command_line_def)
qed

text \<open>The state after the end of a started program, seen from its caller.\<close>

lemma ended_view:
  assumes "serves s" "process_started p arg prog s s1" "free_pid s = Some i" "p = int i + 1" "serves s2" "kept s1 s2"
    and "p \<noteq> base_pid (terminals s (sched_term s))" "1 \<le> running_pid s" "running_pid s \<le> 6" "pid_arr s (running_pid s - 1) \<noteq> 0"
  shows "\<exists>s3. halt st s2 = Some (LongRet (reg_esp s) (reg_ebp s) (if st = 100 then 256 else st), s3) \<and> serves s3
    \<and> kernel_view s3 = (kernel_view s)\<lparr>shown := shown (kernel_view s2)\<rparr>"
proof -
  have free: "pid_arr s (int i) = 0" using free_pid_bound [OF assms(3)] by simp
  have s1: "running_pid s1 = p" "sched_term s1 = sched_term s" "user_frame s1 = i + 2" "fs s1 = fs s"
    "parent_pid (pcbs s1 p) = running_pid s" "pid (pcbs s1 p) = p" "ESP_prev (pcbs s1 p) = reg_esp s" "EBP_prev (pcbs s1 p) = reg_ebp s"
    "base_pid (terminals s1 (sched_term s)) = base_pid (terminals s (sched_term s))"
    "pid_arr s1 = (pid_arr s)(int i := 1)" "\<And>q. q \<noteq> p \<Longrightarrow> pcbs s1 q = pcbs s q"
    using assms(2,4,7) by (simp_all add: process_started_def running_pid_def nat_add_distrib)
  have agree1: "agree_kernel (mem s) (mem s1)"
    using assms(2,4) by (simp add: process_started_def nat_add_distrib agree_user_store)
  have v: "kview s2 = kview s1" "other_bytes s2 = other_bytes s1" "\<And>q. q \<noteq> p \<Longrightarrow> pcbs s2 q = pcbs s1 q"
    using assms(6) s1(1) by (auto simp: kept_def)
  have s2: "running_pid s2 = p" "sched_term s2 = sched_term s" "user_frame s2 = i + 2" "fs s2 = fs s" "pid_arr s2 = pid_arr s1"
    "links (pcbs s2 p) = links (pcbs s1 p)" "procs_of (terminals s2 (sched_term s)) = procs_of (terminals s1 (sched_term s))"
    using v(1) s1(1-4) kview_running [OF v(1)] by (simp_all add: kview_def fun_eq_iff)
  then have l: "parent_pid (pcbs s2 p) = running_pid s" "pid (pcbs s2 p) = p" "ESP_prev (pcbs s2 p) = reg_esp s"
    "EBP_prev (pcbs s2 p) = reg_ebp s" "base_pid (terminals s2 (sched_term s)) = base_pid (terminals s (sched_term s))"
    using s1 by (simp_all add: links_def procs_of_def)
  have agree: "agree_kernel (mem s) (mem s2)"
    using agree_kernel_trans [OF agree1 agree_other_bytes [OF v(2)]] s1(3) s2(3) by simp
  have "pid (pcbs s2 (running_pid s2)) \<noteq> base_pid (terminals s2 (sched_term s2))"
    unfolding s2(1,2) l using assms(7) .
  from halt_returns [OF serves_facts(1) [OF assms(5)] refl this, of "if st = 100 then 256 else st" st] assms(8,9)
  obtain s3 where h: "halt st s2 = Some (LongRet (reg_esp s) (reg_ebp s) (if st = 100 then 256 else st), s3)"
    and s3: "paging_ok s3" "user_frame s3 = nat (running_pid s) + 1" "video_frame s3 = video_frame s2"
      "terminals s3 = (terminals s2)(sched_term s := (terminals s2 (sched_term s))\<lparr>active_pid := running_pid s\<rparr>)"
      "pid_arr s3 = pid_arr s" "mem s3 = mem s2" "fs s3 = fs s" "sched_term s3 = sched_term s"
      "\<And>q. q \<noteq> p \<Longrightarrow> pcbs s3 q = pcbs s q"
    unfolding s2(1,2) l using s1(10,11) s2(4,5) v(3) free assms(4) by (auto simp: fun_upd_idem)
  have run: "running_pid s3 = running_pid s" using s3(4,8) by (simp add: running_pid_def)
  have other: "running_pid s \<noteq> p" using free assms(4,10) by auto
  have new: "newest_pid s3 = newest_pid s" by (rule newest_pid_cong [OF s3(5)])
  have "newest_pid s = int i" using assms(3) by (simp add: newest_pid_def)
  then have newp: "newest_pid s \<noteq> p" using assms(4) by simp
  have scr: "screen_of (sched_term s3) (video_base s3) s3 = screen_of (sched_term s2) (video_base s2) s2"
    using s3(4,6,8) s2(2) video_base_cong [OF s3(3)] by (simp add: screen_of_def)
  have agree3: "agree_kernel (mem s) (mem s3)" using agree s3(6) by simp
  have dir: "dir_placed (fs s)" using serves_facts(3) [OF assms(1)] by (simp add: fs_ok_def)
  have fd: "fd_ok (mem s) (fs s) (file_desc_arr (pcbs s (running_pid s)) k)" if "k < 8" for k
    using assms(1) that by (simp add: serves_def)
  have "serves s3"
  proof (rule serves_intro [OF assms(1) agree3 s3(7,8,1)])
    show "2 \<le> user_frame s3" using s3(2) assms(8) by simp
    show "newest_pid s3 \<noteq> 0" using new assms(1) by (simp add: serves_def)
    show "screen_ok (screen_of (sched_term s3) (video_base s3) s3)"
      unfolding scr using assms(5) by (simp add: serves_def)
    show "fd_table_ok (pcbs s3 (running_pid s3))" using serves_facts(4) [OF assms(1)] run s3(9) [OF other] by simp
    show "fd_ok (mem s3) (fs s3) (file_desc_arr (pcbs s3 (running_pid s3)) k)" if "k < 8" for k
      using fd_agree(2) [OF agree3 dir fd [OF that]] run s3(7,9) other by simp
  qed
  moreover have "kernel_view s3 = (kernel_view s)\<lparr>shown := shown (kernel_view s2)\<rparr>"
    using scr disk_agree(1) [OF assms(1) agree3 s3(7)] fd_agree(1) [OF agree3 dir fd] run s3(7,9) other new newp
    by (auto simp: kernel_view_def fun_eq_iff)
  ultimately show ?thesis using h by blast
qed


lemma started_display:
  assumes "display_ok s" "process_started p arg prog s s1"
  shows "display_ok s1"
proof -
  have "terminals s1 = (terminals s)(sched_term s := (terminals s (sched_term s))\<lparr>active_pid := p\<rparr>)"
    using assms(2) by (simp add: process_started_def)
  then have "backed_up s1 = backed_up s" "cursor_ok (terminals s1 k) = cursor_ok (terminals s k)" for k
    by (auto simp: backed_up_def cursor_ok_def)
  then show ?thesis using assms by (simp add: display_ok_def process_started_def)
qed

lemma put_buffer_fields:
  assumes "serves s" "placed A" "n \<le> 1025"
  shows "fs (put_buffer A n buf s) = fs s" "free_pid (put_buffer A n buf s) = free_pid s" "terminals (put_buffer A n buf s) = terminals s"
    "sched_term (put_buffer A n buf s) = sched_term s" "pid_arr (put_buffer A n buf s) = pid_arr s"
    "running_pid (put_buffer A n buf s) = running_pid s" "agree_kernel (mem s) (mem (put_buffer A n buf s))"
  unfolding put_buffer_eq(1) [OF assms] using serves_facts(2) [OF assms(1)]
  by (simp_all add: free_pid_def running_pid_def agree_user_store at_def)

text \<open>A command with an argument, entered in the caller's buffer.\<close>

definition enters :: "'a kernel_state_scheme \<Rightarrow> carray \<Rightarrow> byte list \<Rightarrow> byte list \<Rightarrow> nat \<Rightarrow> bool" where
  "enters s command w a i \<longleftrightarrow> cstr command = Some (w @ 0x20 # a) \<and> (\<forall>b \<in> set w. \<not> is_blank b) \<and> length w < 32 \<and>
     a \<noteq> [] \<and> length a < 32 \<and> \<not> is_blank (hd a) \<and>
     (\<exists>d prog. lookup s w = Some d \<and> program_file s d prog) \<and> free_pid s = Some i \<and> (i = 5 \<or> pid_arr s (int i + 1) = 0) \<and>
     int i + 1 \<noteq> base_pid (terminals s (sched_term s)) \<and> 1 \<le> running_pid s \<and> running_pid s \<le> 6 \<and>
     pid_arr s (running_pid s - 1) \<noteq> 0"

lemma run_command:
  assumes "serves s" "display_ok s" "placed A" "quiet irq" "enters s command w a i" "0 \<le> st" "st < 100"
    and main: "\<And>s1. serves s1 \<Longrightarrow> kept s1 s1 \<Longrightarrow> shown (kernel_view s1) = shown (kernel_view s) \<Longrightarrow>
      disk (kernel_view s1) = disk (kernel_view s) \<Longrightarrow> in_use (kernel_view s1) = 2 \<Longrightarrow> arguments (kernel_view s1) = a \<Longrightarrow>
      returns (main s1) (\<lambda>(r, s2). r = st \<and> serves s2 \<and> kept s1 s2 \<and> shown (kernel_view s2) = scr)"
  shows "returns (kernel_execute irq A x y (run_program irq main) command s)
    (\<lambda>(r, s'). r = st \<and> serves s' \<and> kernel_view s' = (kernel_view s)\<lparr>shown := scr\<rparr>)"
proof -
  note e = assms(5) [unfolded enters_def]
  let ?n = "length (w @ 0x20 # a)"
  let ?t = "put_buffer A (?n + 1) command s"
  have n: "?n \<le> 1024" using e by simp
  have t: "kernel_view ?t = kernel_view s" "serves ?t" using put_buffer_eq(2,3) [OF assms(1,3), of "?n + 1" command] n by simp_all
  have n1: "?n + 1 \<le> 1025" using n by simp
  note same = put_buffer_fields(1-6) [OF assms(1,3) n1, of command]
  note agree = put_buffer_fields(7) [OF assms(1,3) n1, of command]
  have disp: "display_ok ?t"
    using kept_display [OF kept_put_buffer [OF kept_refl [OF assms(2)] serves_facts(2) [OF assms(1)] assms(3)]] n by simp
  obtain d prog where d: "lookup s w = Some d" "program_file s d prog" using e by blast
  have d': "lookup ?t w = Some d" using lookup_agree [OF serves_facts(3) [OF assms(1)] agree same(1)] d(1) by simp
  have prog: "program_file ?t d prog" using d(2) file_agree [OF agree] same(1) by (auto simp: program_file_def)
  have cmd: "command_line (\<lambda>k. kmem ?t (A + k)) w a"
    using e n by (intro command_with_argument name_in_buffer [OF assms(1,3)]) auto
  have free: "free_pid ?t = Some i" using same(2) e by simp
  obtain s1 where s1: "execute (Some (\<lambda>k. kmem ?t (A + k))) ?t = Some (ToUser (entry_point prog) 0x83FFFFC, s1)"
    "process_started (int i + 1) (\<lambda>j. if j < length a then a ! j else NUL) prog ?t s1"
    using execute_starts [OF serves_facts(3) [OF t(2)] cmd d' prog free] by blast
  have new: "i = 5 \<or> pid_arr ?t (int i + 1) = 0" using e same(5) by simp
  note v = started_view [OF t(2) s1(2) free new]
  have nul: "NUL \<notin> set a" using e cstr_plain [of command "w @ 0x20 # a"] by simp
  have as: "arguments (kernel_view s1) = a" unfolding v(6) using padded_arguments [OF nul] e by blast
  note v34 = v(3,4) [unfolded t(1)]
  from main [OF v(1) kept_refl [OF started_display [OF disp s1(2)]] v34 v(5) as]
  obtain s2 where s2: "main s1 = Some (st, s2)" "serves s2" "kept s1 s2" "shown (kernel_view s2) = scr"
    unfolding returns_iff by blast
  obtain s3 where s3: "halt st s2 = Some (LongRet (reg_esp ?t) (reg_ebp ?t) st, s3)" "serves s3"
    "kernel_view s3 = (kernel_view s)\<lparr>shown := scr\<rparr>"
    using ended_view [OF t(2) s1(2) free refl s2(2,3), of st] e same(3-6) assms(7) t(1) s2(4) by auto
  have "sint (ucast (word_of_int st :: u32) :: byte) = st"
    using assms(6,7) by (simp add: ucast_eq signed_of_int unsigned_of_int signed_take_bit_int_eq_self take_bit_int_eq_self)
  then have "user_start irq main s1 = Some (LongRet (reg_esp ?t) (reg_ebp ?t) st, s3)"
    using s2(1) s3(1) by (simp add: user_start_def syscall_asm_def syscall_table_def)
  moreover have "syscall_asm irq 2 (word_of_nat A) x y ?t = Some (ToUser (entry_point prog) 0x83FFFFC, s1)" (is ?entered)
  proof -
    have "unat (word_of_nat A :: u32) \<noteq> 0" using placed_not_null [OF assms(3)] address_word [OF assms(3)] by simp
    then have "word_of_nat A \<noteq> (0 :: u32)" by (metis unat_0)
    then show ?entered using s1(1) by (simp add: syscall_asm_def syscall_table_def address_word [OF assms(3)])
  qed
  moreover have "strlen command = Some ?n" using e by (simp add: cstr_eq_Some)
  ultimately show ?thesis
    using s3(2,3) by (simp add: kernel_execute_def run_program_def)
qed


lemma run_cat:
  assumes "serves s" "display_ok s" "placed A" "placed B" "quiet irq" "enters s command (bytes_of ''cat'') nm i"
    and "lookup s nm = Some d" "filetype d = 2"
  shows "returns (kernel_execute irq A x y (run_program irq (cat_main (kernel_calls irq B x' y' run) junk)) command s)
    (\<lambda>(r, s'). r = 0 \<and> serves s' \<and> kernel_view s' = showing screen_putc (file_content (mem s) (fs s) (inode_num d)) (kernel_view s))"
proof -
  let ?bs = "file_content (mem s) (fs s) (inode_num d)"
  let ?scr = "fold screen_putc ?bs (shown (kernel_view s))"
  have nm: "nm \<noteq> []" "length nm < 32" using assms(6) by (simp_all add: enters_def)
  have d: "disk (kernel_view s) nm = Some (File ?bs)" using assms(7,8) by (simp add: dentry_desc_def)
  have run: "returns (cat_main (kernel_calls irq B x' y' run) junk s1) (\<lambda>(r, s2). r = 0 \<and> serves s2 \<and> kept s1 s2 \<and> shown (kernel_view s2) = ?scr)"
    if s1: "serves s1" "kept s1 s1" "shown (kernel_view s1) = shown (kernel_view s)"
      "disk (kernel_view s1) = disk (kernel_view s)" "in_use (kernel_view s1) = 2" "arguments (kernel_view s1) = nm" for s1
  proof -
    have "(serves s1 \<and> placed B) \<and> kept_since irq s1 s1" using s1(1,2) assms(4,5) by (simp add: kept_since_def)
    moreover have "in_use (kernel_view s1) < 8" "disk (kernel_view s1) nm = Some (File ?bs)" using s1(4,5) d by simp_all
    ultimately have "returns (cat_main (kernel_calls irq B x' y' run) junk s1) (\<lambda>(r, s2). r = 0 \<and>
        ((serves s2 \<and> placed B) \<and> kept_since irq s1 s2) \<and>
        kernel_view s2 = set_desc (int (next_desc (kernel_view s1))) (File []) (showing screen_putc ?bs (kernel_view s1)))"
      using kernel_kept.cat_main_shows [of s1 B irq s1 nm ?bs x' y' run junk] kernel_std [OF s1(1)] s1(6) nm by blast
    then show ?thesis
      by (rule returns_mono) (simp add: split_beta kept_since_def s1(3) del: kernel_view_simps)
  qed
  show ?thesis unfolding showing_def by (rule run_command [OF assms(1-3,5,6) _ _ run]) simp_all
qed

text \<open>
  C7. A command typed at the shell, from its execute to the return of that call: execute of "cat", a blank and
  the name of a regular file starts cat as a new process, cat shows the whole file on the caller's
  screen, its halt brings the caller back, execute returns 0, and the caller finds its screen
  with the file on it and its descriptors, its arguments and the disk as they were.
\<close>

theorem cat_command:
  assumes "serves s" "display_ok s" "placed A" "placed B" "quiet irq" "enters s command (bytes_of ''cat'') nm i"
    and "lookup s nm = Some d" "filetype d = 2"
  shows "\<exists>s'. kernel_execute irq A x y (run_program irq (cat_main (kernel_calls irq B x' y' run) junk)) command s = Some (0, s')
    \<and> serves s' \<and> kernel_view s' = showing screen_putc (file_content (mem s) (fs s) (inode_num d)) (kernel_view s)"
  using run_cat [OF assms, where x = x and y = y and x' = x' and y' = y' and run = run and junk = junk] unfolding returns_iff by blast

lemma demo_display: "display_ok (demo_user bs)"
proof -
  have "visible_term (demo_user bs) = 0" by (simp add: demo_machine_def demo_running_def demo_state_simps)
  then show ?thesis
    by (simp add: display_ok_def demo_user_simps backed_up_def cursor_ok_def demo_terminal_def zero_terminal_def)
qed

lemma demo_enters:
  assumes "a \<noteq> []" "length a < 32" "\<not> is_blank (hd a)" "NUL \<notin> set a"
  shows "enters (demo_user []) (arr_of (bytes_of ''cat'' @ 0x20 # a)) (bytes_of ''cat'') a 1"
proof -
  let ?s = "demo_user []"
  have "cstr (arr_of (bytes_of ''cat'' @ 0x20 # a)) = Some (bytes_of ''cat'' @ 0x20 # a)"
    using assms(4) by (intro cstr_arr_of) (simp add: bytes_of_def)
  moreover have "\<forall>b \<in> set (bytes_of ''cat''). \<not> is_blank b" by (simp add: bytes_of_def is_blank_def)
  moreover have "lookup ?s (bytes_of ''cat'') = Some (load_dentry demo_disk 0x500040)"
    by (simp add: lookup_def demo_user_simps demo_dir_simps demo_disk_names)
  moreover have "program_file ?s (load_dentry demo_disk 0x500040) demo_prog"
  proof -
    have "take 4 demo_prog = elf_magic" by (simp add: demo_prog_def elf_magic_def)
    then show ?thesis
      using demo_disk_inodes(6) demo_disk_file(2)
      by (simp add: program_file_def demo_user_simps load_dentry_def demo_disk_words demo_prog_length)
  qed
  moreover have "free_pid ?s = Some 1" "pid_arr ?s 2 = 0" "pid_arr ?s 0 = 1"
    by (simp_all add: demo_machine_def free_pid_def upt_conv_Cons)
  moreover have "base_pid (terminals ?s 0) = 1" by (simp add: demo_user_simps demo_terminal_def)
  ultimately show ?thesis using assms by (auto simp: enters_def demo_user_simps(3,4))
qed

theorem cat_command_witness:
  "\<exists>s'. kernel_execute (\<lambda>_ s. s) 0x8001000 0 0
      (run_program (\<lambda>_ s. s) (cat_main (kernel_calls (\<lambda>_ s. s) 0x8001000 0 0 (\<lambda>_ _. None)) (\<lambda>_. 0)))
      (arr_of (bytes_of ''cat f'')) (demo_user []) = Some (0, s')
    \<and> kernel_view s' = showing screen_putc (bytes_of ''hello'') (kernel_view (demo_user []))"
proof -
  let ?d = "load_dentry demo_disk 0x500080"
  have d: "filetype ?d = 2" "inode_num ?d = 1" by (simp_all add: load_dentry_def demo_disk_words)
  have c: "bytes_of ''cat f'' = bytes_of ''cat'' @ 0x20 # bytes_of ''f''" by (simp add: bytes_of_def)
  have "enters (demo_user []) (arr_of (bytes_of ''cat f'')) (bytes_of ''cat'') (bytes_of ''f'') 1"
    unfolding c by (rule demo_enters) (simp_all add: bytes_of_def is_blank_def)
  moreover have "quiet (\<lambda>_ s. s)" by (simp add: quiet_def)
  ultimately show ?thesis
    using cat_command [OF demo_user_serves demo_display demo_buffer demo_buffer _ _ demo_user_view(3) d(1), where irq = "\<lambda>_ s. s"]
    by (simp add: demo_user_simps(1,2) d(2) demo_disk_file(1) del: kernel_view_simps) blast
qed

end
