(* ===== verification/UserShell.thy ===== *)
theory UserShell
  imports UserSession
begin

text \<open>
  The shell on the kernel: one round of its loop, from the prompt and the line that was typed to the
  prompt of the next round.
\<close>

section \<open>Output leaves the typed line alone\<close>

lemma write_char_keys [simp]:
  "term_buffer (write_char A i s) = term_buffer s" "enter_pressed (write_char A i s) = enter_pressed s"
proof -
  have "console_state.more (putc c t) = console_state.more t" for c and t :: "'a kernel_state_scheme"
    using console_frame_putc [of c t] by (simp add: console_frame_def)
  note k = kernel_fields [OF this]
  show "term_buffer (write_char A i s) = term_buffer s" "enter_pressed (write_char A i s) = enter_pressed s"
    by (simp_all add: write_char_def Let_def k cli_def sti_def)
qed

lemma fold_write_char_keys:
  "term_buffer (fold (write_char A) xs s) = term_buffer s" "enter_pressed (fold (write_char A) xs s) = enter_pressed s"
  by (induction xs arbitrary: s) simp_all

lemma sys_write_keys:
  assumes "sys_write irq fd buf n s = Some (r, s')" "fops (file_desc_arr (pcbs s (running_pid s)) (nat fd)) = Some stdout_fops"
  shows "term_buffer s' = term_buffer s \<and> enter_pressed s' = enter_pressed s"
  using assms by (auto simp: sys_write_def Let_def terminal_write_def fold_write_char_keys update_file_pcb_def split: if_splits)

lemma kernel_write_keys:
  assumes "serves s" "placed A" "desc_of (kernel_view s) fd = Display" "0 \<le> n" "n \<le> 1025"
    and "kernel_write irq A fd buf n s = Some (r, s')"
  shows "term_buffer s' = term_buffer s \<and> enter_pressed s' = enter_pressed s"
proof -
  let ?t = "put_buffer A (nat n) buf s"
  have t: "?t = s\<lparr>mem := store_bytes (at A s) (map buf [0..<nat n]) (mem s)\<rparr>"
    using put_buffer_eq(1) [OF assms(1,2), of "nat n" buf] assms(5) by simp
  have fd: "fd_desc (mem s) (fs s) (file_desc_arr (pcbs s (running_pid s)) (nat fd)) = Display" "is_int32 fd"
    using kernel_desc_of [OF assms(1), of fd] assms(3) open_int32 [OF assms(1), of fd] by (auto split: if_splits)
  then have ops: "fops (file_desc_arr (pcbs ?t (running_pid ?t)) (nat fd)) = Some stdout_fops"
    by (auto simp: t running_pid_def fd_desc_def split: if_splits option.splits file_ops.splits)
  obtain u where u: "sys_write irq fd A n ?t = Some (r, u)" "s' = u\<lparr>iflag := iflag ?t\<rparr>"
    using assms(6) fd(2) buffer_size [OF assms(4,5)]
    by (auto simp: kernel_write_def DO_CALL_def syscall_asm_def syscall_table_def bind_eq_Some_conv int32_word address_word [OF assms(2)])
  show ?thesis using sys_write_keys [OF u(1) ops] unfolding u(2) t by simp
qed

section \<open>Reading the typed line\<close>

lemma line_end_cstr:
  assumes "cstr b = Some l" "length l < n" "length l \<le> 127"
  shows "line_end b n = length l"
  using assms by (intro line_end_eq) (auto simp: cstr_eq_Some strlen_eq_Some)

lemma paging_of_typed [simp]: "paging_of (s\<lparr>term_buffer := tb\<rparr>) = paging_of s" "paging_of (s\<lparr>enter_pressed := ep\<rparr>) = paging_of s"
  by (simp_all add: paging_of_def)

lemmas term_buffer_paging [simp] = paging_cong [OF paging_of_typed(1)]
lemmas enter_pressed_paging [simp] = paging_cong [OF paging_of_typed(2)]

lemma line_fields:
  assumes "serves s"
  shows "kernel_view (s\<lparr>term_buffer := tb, enter_pressed := ep\<rparr>) = kernel_view s" "serves (s\<lparr>term_buffer := tb, enter_pressed := ep\<rparr>)"
proof -
  let ?v = "s\<lparr>term_buffer := tb, enter_pressed := ep\<rparr>"
  have same: "same_system s ?v" by (simp add: same_system_def agree_kernel_def running_pid_def)
  have scr: "screen_of k b ?v = screen_of k b s" for k b by (simp add: screen_of_def)
  have "screen_ok (screen_of (sched_term s) (video_base s) s)" using assms by (simp add: serves_def)
  then show "serves ?v" using same_system_view(2) [OF assms same] unfolding scr by blast
  show "kernel_view ?v = kernel_view s" using same_system_view(1) [OF assms same] unfolding scr by simp
qed

lemma kernel_read_line:
  assumes "serves s" "placed A" "desc_of (kernel_view s) fd = Keys" "n \<le> 1025"
    and "enter_pressed s (sched_term s) \<noteq> 0" "cstr (term_buffer s) = Some l" "int (length l) < n" "length l \<le> 127"
  shows "returns (kernel_read irq A fd buf n s) (\<lambda>(r, b, s'). r = int (length l) \<and> b = over buf (l @ [NUL]) \<and> serves s' \<and>
    kernel_view s' = kernel_view s)"
proof -
  have n: "0 \<le> n" using assms(7) by simp
  obtain p u f where u: "u = update_file_pcb p (put_buffer A (nat n) buf s)" "p = running_pid u"
    "f = file_desc_arr (pcbs u p) (nat fd)" "serves u" "kernel_view u = kernel_view s" "fd_desc (mem u) (fs u) f = Keys"
    "fd_ok (mem u) (fs u) f" "nat fd < 8" "fd < num_open_descriptors (pcbs u p)" "0 \<le> fd" "user_frame u = user_frame s"
    by (rule read_setup [OF assms(1-3) _ n assms(4), of buf]) simp
  have ops: "fops f = Some stdin_fops" using u(6) by (auto simp: fd_desc_def split: if_splits option.splits file_ops.splits)
  have t: "put_buffer A (nat n) buf s = s\<lparr>mem := store_bytes (at A s) (map buf [0..<nat n]) (mem s)\<rparr>"
    using put_buffer_eq(1) [OF assms(1,2), of "nat n" buf] assms(4) by simp
  have keys: "term_buffer u = term_buffer s" "enter_pressed u = enter_pressed s" "sched_term u = sched_term s"
    by (simp_all add: u(1) t update_file_pcb_def)
  let ?c = "l @ [NUL]"
  define v where "v = u\<lparr>term_buffer := (\<lambda>i. if i < nat n then NUL else term_buffer u i),
    enter_pressed := (enter_pressed u)(visible_term u := 0)\<rparr>"
  have v: "kernel_view v = kernel_view s" "serves v" "mem v = mem u" "user_frame v = user_frame s"
    using line_fields [OF u(4)] u(5,11) by (simp_all add: v_def)
  have e: "line_end (term_buffer u) (nat n) = length l" using line_end_cstr [OF assms(6)] assms(7,8) keys(1) by simp
  have "map (term_buffer u) [0..<length l + 1] = ?c"
    using assms(6) keys(1) cstr_plain [OF assms(6)] by (intro nth_equalityI) (auto simp: cstr_eq_Some nth_append less_Suc_eq)
  moreover have "min (nat n) (length l + 1) = length l + 1" using assms(7) by simp
  ultimately have bs: "map (term_buffer u) [0..<min (nat n) (length l + 1)] = ?c" by simp
  have fits: "length ?c \<le> 1025" using assms(8) by simp
  have "vstore A ?c u = u\<lparr>mem := store_bytes (at A u) ?c (mem u)\<rparr>" by (rule vstore_buffer [OF serves_facts(1) [OF u(4)] assms(2) fits])
  then have "terminal_read irq A n u = Some (int (length l), v\<lparr>mem := store_bytes (at A u) ?c (mem u)\<rparr>)"
    using terminal_read_ready [of u n "length l" A "store_bytes (at A u) ?c (mem u)" irq] assms(5) keys e bs by (simp add: v_def)
  moreover have "vstore A ?c v = v\<lparr>mem := store_bytes (at A u) ?c (mem u)\<rparr>"
    using vstore_buffer [OF serves_facts(1) [OF v(2)] assms(2) fits] v(3,4) u(11) by (simp add: at_def)
  ultimately have rd: "the (read_entry stdin_fops) irq fd A n u = Some (int (length l), vstore A ?c v)" by simp
  have entry: "Option.bind (fops (file_desc_arr (pcbs u p) (nat fd))) read_entry = Some (the (read_entry stdin_fops) :: 'a fd_call)"
    using ops u(3) by simp
  show ?thesis
    using read_finish [where rd = "the (read_entry stdin_fops)", OF assms(1,2) n assms(4) u(10,8,1,2,9) entry rd v(2,1,3,4)] assms(7) by simp
qed


section \<open>A round of the shell\<close>

lemma kept_facts:
  assumes "kept s s'" "serves s"
  shows "agree_kernel (mem s) (mem s')" "fs s' = fs s" "free_pid s' = free_pid s" "pid_arr s' = pid_arr s" "sched_term s' = sched_term s"
    "running_pid s' = running_pid s" "base_pid (terminals s' k) = base_pid (terminals s k)"
proof -
  have v: "kview s' = kview s" "other_bytes s' = other_bytes s" using assms(1) by (simp_all add: kept_def)
  then have "user_frame s' = user_frame s" by (simp add: kview_def)
  then show "agree_kernel (mem s) (mem s')" by (rule agree_other_bytes [OF v(2) _ serves_facts(2) [OF assms(2)]])
  have "procs_of (terminals s' k) = procs_of (terminals s k)" using v(1) by (simp add: kview_def fun_eq_iff)
  then show "base_pid (terminals s' k) = base_pid (terminals s k)" by (simp add: procs_of_def)
  show "fs s' = fs s" "pid_arr s' = pid_arr s" "sched_term s' = sched_term s" using v(1) by (simp_all add: kview_def)
  then show "free_pid s' = free_pid s" by (simp add: free_pid_def)
  show "running_pid s' = running_pid s" by (rule kview_running [OF v(1)])
qed

lemma lookup_kept: "kept s s' \<Longrightarrow> serves s \<Longrightarrow> lookup s' nm = lookup s nm"
  using kept_facts(1,2) [of s s'] by (intro lookup_agree) (simp_all add: serves_def)

lemma enters_kept:
  assumes "enters s command w a i" "kept s s'" "serves s" "cstr command' = cstr command"
  shows "enters s' command' w a i"
proof -
  note k = kept_facts [OF assms(2,3)]
  obtain d prog where d: "lookup s w = Some d" "program_file s d prog" using assms(1) by (auto simp: enters_def)
  then have "program_file s' d prog" using file_agree [OF k(1)] k(2) by (auto simp: program_file_def)
  then have "\<exists>d prog. lookup s' w = Some d \<and> program_file s' d prog" using d(1) lookup_kept [OF assms(2,3)] by auto
  then show ?thesis using assms(1) unfolding enters_def assms(4) k(3-7) by blast
qed

text \<open>Output of a text, with the typed line and the other processes as they were.\<close>

lemma kernel_puts:
  assumes "serves s" "display_ok s" "placed A" "quiet irq" "NUL \<notin> set bs" "length bs \<le> 1025"
  shows "returns (ece391_fdputs (kernel_calls irq A x y run) 1 (arr_of bs) s) (\<lambda>s'. serves s' \<and> kept s s' \<and>
    kernel_view s' = showing screen_putc bs (kernel_view s) \<and> term_buffer s' = term_buffer s \<and> enter_pressed s' = enter_pressed s)"
proof -
  let ?b = "arr_of bs" and ?n = "int (length bs)"
  have "cstr ?b = Some bs" by (rule cstr_arr_of [OF assms(5)])
  then have l: "ece391_strlen ?b = Some (length bs)" "map ?b [0..<nat ?n] = bs"
    by (auto simp: cstr_eq_Some intro: nth_equalityI)
  have n: "0 \<le> ?n" "?n \<le> 1025" using assms(6) by simp_all
  note d = std_display [OF kernel_std [OF assms(1)]]
  obtain s' where s': "kernel_write irq A 1 ?b ?n s = Some (?n, s')" "serves s'"
    "kernel_view s' = showing screen_putc bs (kernel_view s)"
    using kernel_write_display [OF assms(1,3) d n, of irq ?b] unfolding returns_iff l(2) by auto
  have "kept s s'" by (rule kept_kernel_write [OF kept_refl [OF assms(2)] assms(1,3,4) n(2) s'(1)])
  then show ?thesis
    using s' kernel_write_keys [OF assms(1,3) d n s'(1)] unfolding ece391_fdputs_def l(1) by simp
qed

text \<open>The prompt.\<close>

lemma shell_prompt:
  assumes "serves s" "display_ok s" "placed A" "quiet irq"
  shows "returns (ece391_fdputs (kernel_calls irq A x y run) 1 (lit ''391OS> '') s) (\<lambda>s'. serves s' \<and> kept s s' \<and>
    kernel_view s' = showing screen_putc (bytes_of ''391OS> '') (kernel_view s) \<and> term_buffer s' = term_buffer s \<and>
    enter_pressed s' = enter_pressed s)"
  by (rule kernel_puts [OF assms]) (simp_all add: bytes_of_def)


lemma cstr_over_cut:
  assumes "NUL \<notin> set xs"
  shows "cstr ((over buf (xs @ [NEWLINE, NUL]))(length xs := NUL)) = Some xs"
proof -
  have "((over buf (xs @ [NEWLINE, NUL]))(length xs := NUL)) i = xs ! i" if "i < length xs" for i
    using that by (simp add: over_def nth_append)
  then show ?thesis using assms by (auto simp: cstr_eq_Some strlen_eq_Some in_set_conv_nth)
qed

text \<open>A line that starts with cat is not the command exit.\<close>

lemma not_exit:
  assumes "cstr b = Some (bytes_of ''cat'' @ l)"
  shows "\<exists>r. ece391_strcmp b (lit ''exit'') = Some r \<and> r \<noteq> 0"
proof -
  have "cstr (lit ''exit'') = Some (bytes_of ''exit'')" by (rule cstr_arr_of) (simp add: bytes_of_def)
  moreover have "bytes_of ''cat'' @ l \<noteq> bytes_of ''exit''" by (simp add: bytes_of_def)
  ultimately show ?thesis
    using ece391_strcmp_from_sign [of b 0 "bytes_of ''cat'' @ l" "lit ''exit''" "bytes_of ''exit''"] assms
    by (auto simp: ece391_strcmp_def cstr_at_0)
qed



text \<open>The line "cat f", entered.\<close>

definition demo_typed :: kernel_state where
  "demo_typed = (demo_user [])\<lparr>term_buffer := arr_of (bytes_of ''cat'' @ 0x20 # bytes_of ''f'' @ [NEWLINE]), enter_pressed := \<lambda>_. 1\<rparr>"

lemma demo_typed_ok: "serves demo_typed" "display_ok demo_typed" "kernel_view demo_typed = kernel_view (demo_user [])"
  using line_fields [OF demo_user_serves [of "[]"]] demo_display [of "[]"]
  by (simp_all add: demo_typed_def display_ok_def backed_up_def)


end
