(* ===== verification/UserSignals.thy ===== *)
theory UserSignals
  imports UserShell Idt
begin

text \<open>
  sigtest (syscalls/ece391sigtest.c), which installs handlers of signals, stores through a null pointer and
  expects the handler of the fault to repair the pointer; and what this kernel, whose set\_handler does nothing,
  makes of it.

  A store that faults has no result.  What the system does then is \<open>handles\<close>: whether it calls the
  installed handler and starts the instruction again, with the registers the handler left, or ends the
  program.
\<close>

section \<open>The program\<close>

abbreviation SEGFAULT :: nat where "SEGFAULT \<equiv> 1"
abbreviation ALARM :: nat where "ALARM \<equiv> 3"

text \<open>The static variables; the second is a pointer.\<close>

record sig_vars =
  charbuf :: byte
  badbuf :: u32

text \<open>How main ends: it returns, or an exception that no handler takes ends the program.\<close>

datatype ending = Returned int | Faulted nat

definition show_signum :: "'w user_calls \<Rightarrow> nat \<Rightarrow> 'w \<Rightarrow> 'w option" where
  "show_signum c signum w =
     (case signum of
        0 \<Rightarrow> ece391_fdputs c 1 (line_lit ''0'') w
      | Suc 0 \<Rightarrow> ece391_fdputs c 1 (line_lit ''1'') w
      | Suc (Suc 0) \<Rightarrow> ece391_fdputs c 1 (line_lit ''2'') w
      | Suc (Suc (Suc 0)) \<Rightarrow> ece391_fdputs c 1 (line_lit ''3'') w
      | _ \<Rightarrow> ece391_fdputs c 1 (line_lit ''invalid'') w)"

text \<open>The handler of the fault; \<open>addr\<close> is the address of charbuf, and the first result the saved EAX.\<close>

definition segfault_sighandler :: "'w user_calls \<Rightarrow> u32 \<Rightarrow> carray \<Rightarrow> nat \<Rightarrow> sig_vars \<Rightarrow> 'w \<Rightarrow> (u32 \<times> sig_vars \<times> 'w) option" where
  "segfault_sighandler c addr junk signum g w = do {
     w \<leftarrow> ece391_fdputs c 1 (lit ''Segfault signal handler called, signum: '') w;
     w \<leftarrow> show_signum c signum w;
     w \<leftarrow> ece391_fdputs c 1 (line_lit ''Press enter to continue...'') w;
     (_, _, w) \<leftarrow> ece391_read c 0 junk 1 w;
     let g = g\<lparr>badbuf := addr\<rparr>;
     let eax = addr;
     w \<leftarrow> ece391_fdputs c 1 (line_lit ''Signal handler returning'') w;
     Some (eax, g, w)
   }"

definition alarm_sighandler :: "'w user_calls \<Rightarrow> nat \<Rightarrow> 'w \<Rightarrow> 'w option" where
  "alarm_sighandler c signum w = do {
     w \<leftarrow> ece391_fdputs c 1 (lit ''Alarm signal handler called, signum: '') w;
     show_signum c signum w
   }"

text \<open>A store: to charbuf, or anywhere else by \<open>store\<close>.\<close>

definition store_byte :: "(u32 \<Rightarrow> byte \<Rightarrow> 'w \<Rightarrow> 'w option) \<Rightarrow> u32 \<Rightarrow> u32 \<Rightarrow> byte \<Rightarrow> sig_vars \<Rightarrow> 'w \<Rightarrow> (sig_vars \<times> 'w) option" where
  "store_byte store addr a v g w = (if a = addr then Some (g\<lparr>charbuf := v\<rparr>, w) else map_option (Pair g) (store a v w))"

text \<open>main after the store.\<close>

definition sigtest_end :: "'w user_calls \<Rightarrow> carray \<Rightarrow> int \<Rightarrow> sig_vars \<Rightarrow> 'w \<Rightarrow> (ending \<times> 'w) option" where
  "sigtest_end c buf cnt g w = do {
     let buf = buf(nat cnt := NUL);
     w \<leftarrow> ece391_fdputs c 1 (lit ''Hello, '') w;
     w \<leftarrow> ece391_fdputs c 1 buf w;
     w \<leftarrow> (if charbuf g = 1 then ece391_fdputs c 1 (line_lit ''success'') w else ece391_fdputs c 1 (line_lit ''failure'') w);
     Some (Returned 0, w)
   }"

definition sigtest_store :: "'w user_calls \<Rightarrow> (u32 \<Rightarrow> byte \<Rightarrow> 'w \<Rightarrow> 'w option) \<Rightarrow> (nat \<Rightarrow> 'w \<Rightarrow> bool) \<Rightarrow> u32 \<Rightarrow> carray \<Rightarrow> carray \<Rightarrow> int \<Rightarrow>
    sig_vars \<Rightarrow> 'w \<Rightarrow> (ending \<times> 'w) option" where
  "sigtest_store c store handles addr junk buf cnt g w =
     (case store_byte store addr (badbuf g) 1 g w of
        Some (g, w) \<Rightarrow> sigtest_end c buf cnt g w
      | None \<Rightarrow>
          if \<not> handles SEGFAULT w then Some (Faulted 14, w)
          else do {
            (eax, g, w) \<leftarrow> segfault_sighandler c addr junk SEGFAULT g w;
            case store_byte store addr eax 1 g w of
              Some (g, w) \<Rightarrow> sigtest_end c buf cnt g w
            | None \<Rightarrow> Some (Faulted 14, w)
          })"

definition sigtest_main :: "'w user_calls \<Rightarrow> (nat \<Rightarrow> u32 \<Rightarrow> 'w \<Rightarrow> (int \<times> 'w) option) \<Rightarrow> (u32 \<Rightarrow> byte \<Rightarrow> 'w \<Rightarrow> 'w option) \<Rightarrow>
    (nat \<Rightarrow> 'w \<Rightarrow> bool) \<Rightarrow> u32 \<Rightarrow> u32 \<Rightarrow> u32 \<Rightarrow> carray \<Rightarrow> carray \<Rightarrow> 'w \<Rightarrow> (ending \<times> 'w) option" where
  "sigtest_main c install store handles addr segv alrm junk buf w = do {
     let g = \<lparr>charbuf = 0, badbuf = 0\<rparr>;
     (r, buf, w) \<leftarrow> ece391_getargs c buf 1024 w;
     if r \<noteq> 0 then do { w \<leftarrow> ece391_fdputs c 1 (line_lit ''could not read argument'') w; Some (Returned 3, w) }
     else do {
       w \<leftarrow> (if buf 0 = of_char CHR ''1'' then do {
               w \<leftarrow> ece391_fdputs c 1 (line_lit ''Installing signal handlers'') w;
               (_, w) \<leftarrow> install SEGFAULT segv w;
               (_, w) \<leftarrow> install ALARM alrm w;
               Some w
             } else Some w);
       w \<leftarrow> ece391_fdputs c 1 (lit ''Hi, what's your name? '') w;
       (cnt, buf, w) \<leftarrow> ece391_read c 0 buf 1023 w;
       if cnt = -1 then do { w \<leftarrow> ece391_fdputs c 1 (line_lit ''Can't read name from keyboard.'') w; Some (Returned 3, w) }
       else sigtest_store c store handles addr junk buf cnt g w
     }
   }"

section \<open>On this kernel\<close>

definition kernel_set_handler :: "'a interrupts \<Rightarrow> u32 \<Rightarrow> nat \<Rightarrow> u32 \<Rightarrow> 'a kernel_state_scheme \<Rightarrow> (int \<times> 'a kernel_state_scheme) option" where
  "kernel_set_handler irq z signum handler s = DO_CALL irq 9 (word_of_nat signum) handler z s"

definition kernel_store :: "u32 \<Rightarrow> byte \<Rightarrow> 'a kernel_state_scheme \<Rightarrow> 'a kernel_state_scheme option" where
  "kernel_store a v s = (case user_mmu s (unat a) of None \<Rightarrow> None | Some pa \<Rightarrow> Some (s\<lparr>mem := (mem s)(pa := v)\<rparr>))"

lemma kernel_set_handler_returns: "kernel_set_handler irq z n h s = Some (0, s)"
  by (simp add: kernel_set_handler_def DO_CALL_def syscall_asm_def syscall_table_def set_handler_def)

lemma kernel_store_null:
  assumes "paging_ok s"
  shows "kernel_store 0 v s = None"
  using mmu_low [OF assms, of 0] by (simp add: kernel_store_def user_mmu_def Let_def)

lemma vstore_keys:
  "term_buffer (vstore a bs s) = term_buffer s" "enter_pressed (vstore a bs s) = enter_pressed s"
  by (induction a bs s rule: vstore.induct) (simp_all add: vwrite_def split: option.splits)

lemma kernel_getargs_keys:
  assumes "kernel_getargs irq A y buf 1024 s = Some (r, b, s')" "placed A"
  shows "term_buffer s' = term_buffer s" "enter_pressed s' = enter_pressed s"
proof -
  let ?t = "put_buffer A 1024 buf s"
  obtain u where u: "getargs A 1024 ?t = Some (r, u)" "s' = u\<lparr>iflag := iflag ?t\<rparr>"
    using assms(1) by (auto simp: kernel_getargs_def DO_CALL_def syscall_asm_def syscall_table_def bind_eq_Some_conv address_word [OF assms(2)])
  have "term_buffer u = term_buffer ?t \<and> enter_pressed u = enter_pressed ?t"
    using u(1) by (auto simp: getargs_def Let_def vstore_keys split: if_splits)
  then show "term_buffer s' = term_buffer s" "enter_pressed s' = enter_pressed s"
    unfolding u(2) by (simp_all add: put_buffer_def vstore_keys)
qed

text \<open>A fault that no handler takes ends the program.\<close>

lemma page_fault_ends:
  assumes "inj link" "serves s" "pcb = pcbs s (running_pid s)" "pid pcb \<noteq> base_pid (terminals s (sched_term s))"
    and "1 \<le> parent_pid pcb" "parent_pid pcb \<le> 6"
  shows "\<exists>s'. interrupt link (init_idt link idt0) env 14 s = Some (LongRet (ESP_prev pcb) (EBP_prev pcb) 256, s')
    \<and> excp_left (bytes_of ''page fault exception'' @ newline) s s'"
proof -
  have e: "(14, pageFaultExceptionASM) \<in> set idt_entries" "excp_function pageFaultExceptionASM = Some pageFaultException"
    "(pageFaultException, bytes_of ''page fault exception'' @ newline) \<in> set exception_texts"
    by (simp_all add: idt_entries_def exception_texts_def)
  have c: "running_pid (cli s) = running_pid s" "screen_of k b (cli s) = screen_of k b s" "video_base (cli s) = video_base s" for k b
    by (simp_all add: running_pid_def screen_of_def video_base_def)
  have "excp_left msg (cli s) s' = excp_left msg s s'" for msg s' unfolding excp_left_def c by simp
  moreover have "\<exists>s'. pageFaultException (printf_junk env) (stack_words env) (cli s) = Some (LongRet (ESP_prev pcb) (EBP_prev pcb) 256, s')
      \<and> excp_left (bytes_of ''page fault exception'' @ newline) (cli s) s'"
    using assms(3-6) serves_facts(1) [OF assms(2)] assms(2) by (intro handler_ends_program [OF e(3)]) (simp_all add: c serves_def)
  ultimately show ?thesis
    using interrupt_installed [OF assms(1) e(1), of idt0 env s] excp_entries(2) [OF e(1,2), of env "cli s"]
    by (auto simp: excp_link_def)
qed

text \<open>Up to the store.\<close>

definition sigtest_intro :: "byte list \<Rightarrow> byte list" where
  "sigtest_intro a = (if hd a = of_char CHR ''1'' then bytes_of ''Installing signal handlers'' @ [NEWLINE] else []) @ bytes_of ''Hi, what's your name? ''"

lemma plain_texts:
  "NUL \<notin> set (bytes_of ''Installing signal handlers'' @ [NEWLINE])" "NUL \<notin> set (bytes_of ''Hi, what's your name? '')"
  by (simp_all add: bytes_of_def)


text \<open>A program started with the argument "1" below the shell, and the line "Bob".\<close>

definition demo_line :: "byte list" where
  "demo_line = bytes_of ''Bob'' @ [NEWLINE]"

lemma demo_started:
  obtains s prog where "execute (Some (arr_of (bytes_of ''cat'' @ 0x20 # bytes_of ''1''))) (demo_user []) = Some (ToUser (entry_point prog) 0x83FFFFC, s)"
    "serves s" "display_ok s" "arguments (kernel_view s) = bytes_of ''1''" "sched_term s = 0" "pid (pcbs s (running_pid s)) = 2"
    "parent_pid (pcbs s (running_pid s)) = 1" "base_pid (terminals s 0) = 1"
    "shown (kernel_view s) = shown (kernel_view (demo_user []))"
proof -
  let ?s = "demo_user []" and ?a = "bytes_of ''1''" and ?w = "bytes_of ''cat''"
  have "enters ?s (arr_of (?w @ 0x20 # ?a)) ?w ?a 1" by (rule demo_enters) (simp_all add: bytes_of_def is_blank_def)
  then obtain d prog where e: "cstr (arr_of (?w @ 0x20 # ?a)) = Some (?w @ 0x20 # ?a)" "\<forall>b \<in> set ?w. \<not> is_blank b" "length ?w < 32"
      "?a \<noteq> []" "\<not> is_blank (hd ?a)" "lookup ?s ?w = Some d" "program_file ?s d prog" "free_pid ?s = Some 1" "1 = (5 :: nat) \<or> pid_arr ?s (int 1 + 1) = 0"
    by (auto simp: enters_def)
  note serves = demo_user_serves [of "[]"]
  from execute_starts [OF serves_facts(3) [OF serves] command_with_argument [OF e(1-5)] e(6-8)] obtain s
    where s: "execute (Some (arr_of (?w @ 0x20 # ?a))) ?s = Some (ToUser (entry_point prog) 0x83FFFFC, s)"
      "process_started (int 1 + 1) (\<lambda>j. if j < length ?a then ?a ! j else NUL) prog ?s s"
    by blast
  note v = started_view [OF serves s(2) e(8,9)]
  have nul: "NUL \<notin> set ?a" by (simp add: bytes_of_def)
  have "length ?a < 32" by simp
  then have as: "arguments (kernel_view s) = ?a" unfolding v(6) using padded_arguments [OF nul] by blast
  have "sched_term s = 0" "pid (pcbs s 2) = 2" "parent_pid (pcbs s 2) = 1" "base_pid (terminals s 0) = 1"
    using s(2) by (simp_all add: process_started_def demo_user_simps demo_terminal_def)
  with that [OF s(1) v(1) started_display [OF demo_display s(2)] as] v(2,3) show ?thesis by simp
qed


end
