(* ===== verification/Emulate.thy ===== *)
theory Emulate
  imports UserPrograms
begin

text \<open>
  The emulation of the system calls on Linux (syscalls/ece391emulate.c and its copy under fish): the calls that
  Linux has are passed on, execute splits the command line for execv, getargs joins the arguments again, and
  a directory is a stream of the C library.

  Linux and its C library are the record \<open>linux\<close>; a call of Linux gives EAX.  A fork succeeds; execv gives
  nothing when it fails.
\<close>

section \<open>Linux\<close>

datatype wait_status = Exited int | Signalled nat

record 'w linux =
  linux_read :: "int \<Rightarrow> carray \<Rightarrow> int \<Rightarrow> 'w \<Rightarrow> u32 \<times> carray \<times> 'w"
  linux_write :: "int \<Rightarrow> carray \<Rightarrow> int \<Rightarrow> 'w \<Rightarrow> u32 \<times> 'w"
  linux_open :: "carray \<Rightarrow> 'w \<Rightarrow> u32 \<times> 'w"
  linux_close :: "int \<Rightarrow> 'w \<Rightarrow> u32 \<times> 'w"
  execv :: "carray \<Rightarrow> nat list \<Rightarrow> 'w \<Rightarrow> (wait_status \<times> 'w) option"
  opendir :: "'w \<Rightarrow> nat option \<times> 'w"
  open_null :: "'w \<Rightarrow> int \<times> 'w"
  open_mem :: "'w \<Rightarrow> int \<times> 'w"
  map_low :: "int \<Rightarrow> 'w \<Rightarrow> u32 option \<times> 'w"
  readdir :: "nat \<Rightarrow> 'w \<Rightarrow> carray option \<times> 'w"
  closedir :: "nat \<Rightarrow> 'w \<Rightarrow> 'w"

text \<open>The static variables of the emulation, and its test of EAX.\<close>

record emulation =
  dir_fd :: int
  dir :: "nat option"
  mem_fd :: int

definition start_emulation :: emulation where
  "start_emulation = \<lparr>dir_fd = -1, dir = None, mem_fd = -1\<rparr>"

definition checked :: "u32 \<Rightarrow> int" where
  "checked eax = (if eax \<le> 0xFFFFC000 then sint eax else -1)"

text \<open>ece391\_strcpy between two arrays, from an index of each.\<close>

partial_function (option) strcpy_into :: "carray \<Rightarrow> nat \<Rightarrow> carray \<Rightarrow> nat \<Rightarrow> carray option" where
  "strcpy_into dst i src j =
     (let dst = dst(i := src j) in if dst i \<noteq> NUL then strcpy_into dst (Suc i) src (Suc j) else Some dst)"

section \<open>execute\<close>

abbreviation BLANK :: byte where "BLANK \<equiv> 0x20"

partial_function (option) skip_word :: "carray \<Rightarrow> nat \<Rightarrow> nat option" where
  "skip_word buf scan =
     (if buf scan \<noteq> NUL \<and> buf scan \<noteq> BLANK \<and> buf scan \<noteq> NEWLINE then skip_word buf (Suc scan) else Some scan)"

partial_function (option) skip_blanks :: "carray \<Rightarrow> nat \<Rightarrow> nat option" where
  "skip_blanks buf scan = (if buf scan = BLANK then skip_blanks buf (Suc scan) else Some scan)"

text \<open>The arguments as indices into the buffer; the list \<open>args\<close> is the array up to \<open>n_arg\<close>.\<close>

partial_function (option) parse_args :: "carray \<Rightarrow> nat list \<Rightarrow> nat \<Rightarrow> (carray \<times> nat list) option" where
  "parse_args buf args scan = do {
     scan \<leftarrow> skip_blanks buf scan;
     if buf scan = NUL \<or> buf scan = NEWLINE then Some (buf(scan := NUL), args)
     else do {
       let args = args @ [scan];
       scan \<leftarrow> skip_word buf scan;
       if buf scan \<noteq> NUL then parse_args (buf(scan := NUL)) args (Suc scan) else parse_args buf args scan
     }
   }"

definition emu_execute :: "'w linux \<Rightarrow> carray \<Rightarrow> carray \<Rightarrow> 'w \<Rightarrow> (int \<times> 'w) option" where
  "emu_execute L buf command w = do {
     n \<leftarrow> ece391_strlen command;
     if 1023 < n then Some (-1, w)
     else do {
       let buf = buf(0 := of_char CHR ''.'', 1 := of_char CHR ''/'');
       buf \<leftarrow> strcpy_into buf 2 command 0;
       scan \<leftarrow> skip_word buf 2;
       (buf, args) \<leftarrow> (if buf scan \<noteq> NUL then parse_args (buf(scan := NUL)) [0] (Suc scan) else Some (buf, [0]));
       let (status, w) = (case execv L buf args w of None \<Rightarrow> (Signalled 9, w) | Some x \<Rightarrow> x);
       Some (case status of Exited r \<Rightarrow> r | Signalled sig \<Rightarrow> if sig = 9 then -1 else 256, w)
     }
   }"

section \<open>getargs\<close>

definition end_args :: "carray \<Rightarrow> nat \<Rightarrow> int \<Rightarrow> int \<times> carray" where
  "end_args buf i nbytes = (if nbytes < 1 then (-1, buf) else (0, buf(i := NUL)))"

text \<open>\<open>argv\<close> is the array that main's caller finds on the stack, with argc entries.\<close>

function join_args :: "carray list \<Rightarrow> nat \<Rightarrow> carray \<Rightarrow> nat \<Rightarrow> int \<Rightarrow> (int \<times> carray) option" where
  "join_args argv idx buf i nbytes =
     (if idx < length argv then do {
        len \<leftarrow> ece391_strlen (argv ! idx);
        if int len > nbytes then Some (-1, buf)
        else do {
          buf \<leftarrow> strcpy_into buf i (argv ! idx) 0;
          let i = i + len;
          let nbytes = nbytes - int len;
          if Suc idx \<ge> length argv then Some (end_args buf i nbytes)
          else if nbytes < 1 then Some (-1, buf)
          else join_args argv (Suc idx) (buf(i := BLANK)) (Suc i) (nbytes - 1)
        }
      } else Some (end_args buf i nbytes))"
  by pat_completeness auto
termination
  by (relation "measure (\<lambda>(argv, idx, _). length argv - idx)") auto

definition emu_getargs :: "carray list \<Rightarrow> carray \<Rightarrow> int \<Rightarrow> (int \<times> carray) option" where
  "emu_getargs argv buf nbytes = join_args argv 1 buf 0 nbytes"

section \<open>Files and directories\<close>

definition emu_open :: "'w linux \<Rightarrow> carray \<Rightarrow> emulation \<times> 'w \<Rightarrow> (int \<times> emulation \<times> 'w) option" where
  "emu_open L filename ew = (case ew of (e, w) \<Rightarrow> do {
     r \<leftarrow> ece391_strcmp filename (lit ''.'');
     if r = 0 then
       let (d, w) = opendir L w;
           (fd, w) = open_null L w
       in Some (fd, e\<lparr>dir := d, dir_fd := fd\<rparr>, w)
     else
       let (rval, w) = linux_open L filename w
       in Some (if rval > 0xFFFFC000 then -1 else sint rval, e, w)
   })"

definition in_dir :: "emulation \<Rightarrow> int \<Rightarrow> bool" where
  "in_dir e fd \<longleftrightarrow> \<not> (dir e = None \<or> dir_fd e \<noteq> fd)"

text \<open>The loop that copies the name: a return from within it, or the number of bytes copied.\<close>

partial_function (option) copy_name :: "carray \<Rightarrow> carray \<Rightarrow> nat \<Rightarrow> int \<Rightarrow> ((int + nat) \<times> carray) option" where
  "copy_name from to copied nbytes =
     (if from copied \<noteq> NUL then
        let to = to(copied := from copied);
            copied = Suc copied
        in if int copied = nbytes then Some (Inl nbytes, to)
           else if copied = 32 then Some (Inl 32, to)
           else copy_name from to copied nbytes
      else Some (Inr copied, to))"

function pad_name :: "carray \<Rightarrow> nat \<Rightarrow> int \<Rightarrow> nat \<times> carray" where
  "pad_name to copied nbytes =
     (if nbytes > int copied \<and> 32 > copied then pad_name (to(copied := NUL)) (Suc copied) nbytes else (copied, to))"
  by pat_completeness auto
termination
  by (relation "measure (\<lambda>(_, copied, _). 32 - copied)") auto

definition emu_read :: "'w linux \<Rightarrow> int \<Rightarrow> carray \<Rightarrow> int \<Rightarrow> emulation \<times> 'w \<Rightarrow> (int \<times> carray \<times> emulation \<times> 'w) option" where
  "emu_read L fd buf nbytes ew = (case ew of (e, w) \<Rightarrow>
     if \<not> in_dir e fd then let (eax, buf, w) = linux_read L fd buf nbytes w in Some (checked eax, buf, e, w)
     else case readdir L (the (dir e)) w of
       (None, w) \<Rightarrow> Some (0, buf, e, w)
     | (Some name, w) \<Rightarrow> do {
         (r, buf) \<leftarrow> copy_name name buf 0 nbytes;
         case r of Inl r \<Rightarrow> Some (r, buf, e, w)
         | Inr copied \<Rightarrow> let (copied, buf) = pad_name buf copied nbytes in Some (int copied, buf, e, w)
       })"

definition emu_write :: "'w linux \<Rightarrow> int \<Rightarrow> carray \<Rightarrow> int \<Rightarrow> emulation \<times> 'w \<Rightarrow> int \<times> emulation \<times> 'w" where
  "emu_write L fd buf nbytes ew = (case ew of (e, w) \<Rightarrow>
     if \<not> in_dir e fd then let (eax, w) = linux_write L fd buf nbytes w in (checked eax, e, w) else (-1, e, w))"

definition emu_close :: "'w linux \<Rightarrow> int \<Rightarrow> emulation \<times> 'w \<Rightarrow> int \<times> emulation \<times> 'w" where
  "emu_close L fd ew = (case ew of (e, w) \<Rightarrow>
     if \<not> in_dir e fd then let (eax, w) = linux_close L fd w in (checked eax, e, w)
     else
       let w = closedir L (the (dir e)) w;
           e = e\<lparr>dir := None\<rparr>;
           (_, w) = linux_close L (dir_fd e) w
       in (0, e\<lparr>dir_fd := -1\<rparr>, w))"

text \<open>The page of the screen in the machine's low memory, at the address Linux maps it to.\<close>

definition emu_vidmap :: "'w linux \<Rightarrow> emulation \<times> 'w \<Rightarrow> int \<times> u32 option \<times> emulation \<times> 'w" where
  "emu_vidmap L ew = (case ew of (e, w) \<Rightarrow>
     let (e, w) = (if mem_fd e = -1 then let (fd, w) = open_mem L w in (e\<lparr>mem_fd := fd\<rparr>, w) else (e, w))
     in case map_low L (mem_fd e) w of
       (None, w) \<Rightarrow> (-1, None, e, w)
     | (Some low, w) \<Rightarrow> (0, Some (low + 0xB8000), e, w))"

section \<open>Words of a command line\<close>

function words_of :: "byte list \<Rightarrow> byte list list" where
  "words_of bs =
     (case dropWhile (\<lambda>b. b = BLANK) bs of
        [] \<Rightarrow> []
      | b # r \<Rightarrow> (b # takeWhile (\<lambda>b. b \<noteq> BLANK) r) # words_of (dropWhile (\<lambda>b. b \<noteq> BLANK) r))"
  by pat_completeness auto
termination
proof (relation "measure length")
  fix bs b r
  assume "dropWhile (\<lambda>b. b = BLANK) bs = b # r"
  then have "length (b # r) \<le> length bs" by (metis length_dropWhile_le)
  moreover have "length (dropWhile (\<lambda>b. b \<noteq> BLANK) r) \<le> length r" by (rule length_dropWhile_le)
  ultimately show "(dropWhile (\<lambda>b. b \<noteq> BLANK) r, bs) \<in> measure length" by simp
qed simp

declare words_of.simps [simp del] join_args.simps [simp del] pad_name.simps [simp del]

fun join_words :: "byte list list \<Rightarrow> byte list" where
  "join_words [] = []"
| "join_words [w] = w"
| "join_words (w # ws) = w @ BLANK # join_words ws"

lemma words_of_blank: "words_of (BLANK # bs) = words_of bs"
  by (subst (1 2) words_of.simps) simp

lemma words_of_word:
  assumes "w \<noteq> []" "BLANK \<notin> set w" "t = [] \<or> hd t = BLANK"
  shows "words_of (w @ t) = w # words_of t"
proof -
  obtain b v where w: "w = b # v" using assms(1) by (cases w) auto
  have v: "\<forall>x \<in> set v. x \<noteq> BLANK" using assms(2) w by auto
  have "takeWhile (\<lambda>b. b \<noteq> BLANK) (v @ t) = v" "dropWhile (\<lambda>b. b \<noteq> BLANK) (v @ t) = t"
    using v assms(3) by (cases t; simp add: takeWhile_append dropWhile_append)+
  then show ?thesis using w assms(2) by (subst words_of.simps) auto
qed

section \<open>The loops of execute\<close>

lemma cstr_at_append:
  "cstr_at s i (xs @ ys) \<longleftrightarrow> (\<forall>k < length xs. s (i + k) = xs ! k \<and> xs ! k \<noteq> NUL) \<and> cstr_at s (i + length xs) ys"
  by (induction xs arbitrary: i) (auto simp: All_less_Suc2)

lemma strcpy_into_eq:
  assumes "cstr_at src j bs"
  shows "strcpy_into dst i src j = Some (store_bytes i (bs @ [NUL]) dst)"
  using assms
proof (induction bs arbitrary: dst i j)
  case Nil
  then show ?case by (subst strcpy_into.simps) (auto simp: store_bytes_def fun_eq_iff)
next
  case (Cons b bs)
  have "store_bytes (Suc i) (bs @ [NUL]) (dst(i := b)) = store_bytes i (b # bs @ [NUL]) dst"
    by (auto simp: store_bytes_def fun_eq_iff nth_Cons' not_less_eq_eq Suc_diff_le)
  with Cons show ?case by (subst strcpy_into.simps) (simp add: fun_upd_def)
qed

lemma skip_word_eq:
  assumes "\<forall>k < length w. buf (scan + k) = w ! k" "\<forall>b \<in> set w. b \<noteq> NUL \<and> b \<noteq> BLANK \<and> b \<noteq> NEWLINE"
    and "buf (scan + length w) \<in> {NUL, BLANK, NEWLINE}"
  shows "skip_word buf scan = Some (scan + length w)"
  using assms
proof (induction w arbitrary: scan)
  case (Cons b w)
  then show ?case by (subst skip_word.simps) (auto simp: All_less_Suc2)
qed (subst skip_word.simps, auto)

lemma skip_blanks_eq:
  assumes "\<forall>k < n. buf (scan + k) = BLANK" "buf (scan + n) \<noteq> BLANK"
  shows "skip_blanks buf scan = Some (scan + n)"
  using assms
proof (induction n arbitrary: scan)
  case (Suc n)
  then show ?case by (subst skip_blanks.simps) (auto simp: All_less_Suc2)
qed (subst skip_blanks.simps, auto)

text \<open>A string that starts at an index, after a byte before it or behind it changes.\<close>

lemma cstr_at_cong: "(\<And>k. i \<le> k \<Longrightarrow> k \<le> i + length bs \<Longrightarrow> s k = s' k) \<Longrightarrow> cstr_at s i bs \<longleftrightarrow> cstr_at s' i bs"
  by (simp add: cstr_at_def)

lemma cstr_at_cut:
  assumes "cstr_at s i (w @ t)"
  shows "cstr_at (s(i + length w := NUL)) i w"
  using assms by (auto simp: cstr_at_append) (simp add: cstr_at_def)

lemma split_word:
  obtains w t where "r = w @ t" "BLANK \<notin> set w" "t = [] \<or> hd t = BLANK" "w = [] \<longrightarrow> r = [] \<or> hd r = BLANK"
proof
  show "r = takeWhile (\<lambda>b. b \<noteq> BLANK) r @ dropWhile (\<lambda>b. b \<noteq> BLANK) r" by simp
  show "BLANK \<notin> set (takeWhile (\<lambda>b. b \<noteq> BLANK) r)" using set_takeWhileD by fastforce
  show "dropWhile (\<lambda>b. b \<noteq> BLANK) r = [] \<or> hd (dropWhile (\<lambda>b. b \<noteq> BLANK) r) = BLANK"
    using hd_dropWhile [of "\<lambda>b. b \<noteq> BLANK" r] by auto
  show "takeWhile (\<lambda>b. b \<noteq> BLANK) r = [] \<longrightarrow> r = [] \<or> hd r = BLANK" by (cases r) auto
qed

lemma skip_word_string:
  assumes "cstr_at buf i (w @ t)" "BLANK \<notin> set w" "NEWLINE \<notin> set w" "t = [] \<or> hd t = BLANK"
  shows "skip_word buf i = Some (i + length w)"
proof (rule skip_word_eq)
  have a: "\<forall>k < length w. buf (i + k) = w ! k \<and> w ! k \<noteq> NUL" "cstr_at buf (i + length w) t"
    using assms(1) by (simp_all add: cstr_at_append)
  then show "\<forall>k < length w. buf (i + k) = w ! k" by simp
  show "\<forall>b \<in> set w. b \<noteq> NUL \<and> b \<noteq> BLANK \<and> b \<noteq> NEWLINE" using a(1) assms(2,3) by (auto simp: in_set_conv_nth)
  show "buf (i + length w) \<in> {NUL, BLANK, NEWLINE}" using a(2) assms(4) by (cases t) auto
qed

lemma parse_args_words:
  assumes "cstr_at buf scan bs" "NEWLINE \<notin> set bs"
  shows "\<exists>buf' offs. parse_args buf args scan = Some (buf', args @ offs) \<and> list_all2 (cstr_at buf') offs (words_of bs) \<and>
    (\<forall>k < scan. buf' k = buf k)"
  using assms
proof (induction "length bs" arbitrary: bs buf scan args rule: less_induct)
  case less
  define b r where "b = takeWhile (\<lambda>b. b = BLANK) bs" and "r = dropWhile (\<lambda>b. b = BLANK) bs"
  have bs: "bs = b @ r" "\<forall>x \<in> set b. x = BLANK" by (auto simp: b_def r_def dest: set_takeWhileD)
  have words: "words_of bs = words_of r" by (subst (1 2) words_of.simps) (simp add: r_def)
  have r: "cstr_at buf (scan + length b) r" "\<forall>k < length b. buf (scan + k) = BLANK"
    using less.prems(1) bs by (auto simp: cstr_at_append)
  have rb: "r = [] \<or> hd r \<noteq> BLANK" using hd_dropWhile [of "\<lambda>b. b = BLANK" bs] by (auto simp: r_def)
  then have "buf (scan + length b) \<noteq> BLANK" using r(1) by (cases r) auto
  then have skip: "skip_blanks buf scan = Some (scan + length b)" using skip_blanks_eq r(2) by blast
  let ?i = "scan + length b"
  obtain w t where w: "r = w @ t" "BLANK \<notin> set w" "t = [] \<or> hd t = BLANK" "w = [] \<longrightarrow> r = [] \<or> hd r = BLANK"
    by (rule split_word)
  show ?case
  proof (cases "r = []")
    case True
    then have "buf ?i = NUL" "words_of bs = []" using r(1) words by (simp_all add: words_of.simps)
    then show ?thesis
      by (intro exI [of _ "buf(?i := NUL)"] exI [of _ "[]"]) (subst parse_args.simps, simp add: skip)
  next
    case False
    then have ne: "w \<noteq> []" using w(4) rb by auto
    have ws: "words_of bs = w # words_of t" unfolding words w(1) using ne w(2,3) by (rule words_of_word)
    have nl: "NEWLINE \<notin> set w" "NEWLINE \<notin> set t" using less.prems(2) bs(1) w(1) by auto
    have wt: "cstr_at buf ?i (w @ t)" using r(1) w(1) by simp
    have first: "buf ?i \<noteq> NUL" "buf ?i \<noteq> NEWLINE" using wt ne nl(1) by (cases w; auto)+
    let ?j = "?i + length w"
    have word: "skip_word buf ?i = Some ?j" by (rule skip_word_string [OF wt w(2) nl(1) w(3)])
    have t: "cstr_at buf ?j t" using wt by (simp add: cstr_at_append)
    show ?thesis
    proof (cases t)
      case Nil
      then have end_of: "buf ?j = NUL" using t by simp
      then have "skip_blanks buf ?j = Some ?j" by (subst skip_blanks.simps) simp
      then have "parse_args buf (args @ [?i]) ?j = Some (buf(?j := NUL), args @ [?i])"
        using end_of by (subst parse_args.simps) simp
      then have "parse_args buf args scan = Some (buf(?j := NUL), args @ [?i])"
        by (subst parse_args.simps) (simp add: skip first word end_of)
      then show ?thesis
        using cstr_at_cut [OF wt] Nil ws by (intro exI [of _ "buf(?j := NUL)"] exI [of _ "[?i]"]) (simp add: words_of.simps)
    next
      case (Cons x t')
      have x: "x = BLANK" using w(3) Cons by simp
      let ?b = "buf(?j := NUL)"
      have t': "cstr_at ?b (Suc ?j) t'" using t Cons cstr_at_cong [of "Suc ?j" t' buf ?b] by simp
      have "length t' < length bs" using bs(1) w(1) Cons by simp
      from less.hyps [OF this t', of "args @ [?i]"] nl(2) Cons obtain buf' offs
        where rec: "parse_args ?b (args @ [?i]) (Suc ?j) = Some (buf', (args @ [?i]) @ offs)" "list_all2 (cstr_at buf') offs (words_of t')"
          "\<forall>k < Suc ?j. buf' k = ?b k"
        by auto
      have "buf ?j \<noteq> NUL" using t Cons x by simp
      then have "parse_args buf args scan = Some (buf', args @ (?i # offs))"
        using rec(1) by (subst parse_args.simps) (simp add: skip first word)
      moreover have "cstr_at buf' ?i w" using cstr_at_cut [OF wt] cstr_at_cong [of ?i w buf' ?b] rec(3) by simp
      moreover have "words_of t = words_of t'" using Cons x words_of_blank by simp
      ultimately show ?thesis
        using rec(2,3) ws by (intro exI [of _ buf'] exI [of _ "?i # offs"]) simp
    qed
  qed
qed

section \<open>What execute hands to execv, and getargs to the program\<close>

definition waited :: "(wait_status \<times> 'w) option \<Rightarrow> 'w \<Rightarrow> int \<times> 'w" where
  "waited x w = (case x of None \<Rightarrow> (-1, w) | Some (Exited r, w') \<Rightarrow> (r, w') | Some (Signalled sig, w') \<Rightarrow> (if sig = 9 then -1 else 256, w'))"

lemma emu_execute_words:
  assumes "cstr command = Some bs" "length bs \<le> 1023" "NEWLINE \<notin> set bs" "bs \<noteq> []" "hd bs \<noteq> BLANK"
  shows "\<exists>buf' offs v vs. emu_execute L buf command s = Some (waited (execv L buf' (0 # offs) s) s) \<and> words_of bs = v # vs
    \<and> cstr buf' = Some (bytes_of ''./'' @ v) \<and> list_all2 (cstr_at buf') offs vs"
proof -
  let ?p = "bytes_of ''./''"
  define b0 where "b0 = store_bytes 2 (bs @ [NUL]) (buf(0 := of_char CHR ''.'', 1 := of_char CHR ''/''))"
  have len: "strlen command = Some (length bs)" using assms(1) by (simp add: cstr_eq_Some)
  have "cstr_at command 0 bs" using assms(1) by (simp add: cstr_at_0)
  then have cpy: "strcpy_into (buf(0 := of_char CHR ''.'', 1 := of_char CHR ''/'')) 2 command 0 = Some b0"
    unfolding b0_def by (rule strcpy_into_eq)
  have nul: "NUL \<notin> set bs" using assms(1) by (auto simp: cstr_eq_Some strlen_eq_Some in_set_conv_nth)
  have b0: "cstr_at b0 2 bs" using nul by (auto simp: b0_def cstr_at_def store_bytes_def nth_append in_set_conv_nth)
  have dots: "b0 0 = of_char CHR ''.''" "b0 (Suc 0) = of_char CHR ''/''" by (simp_all add: b0_def)
  obtain w t where w: "bs = w @ t" "BLANK \<notin> set w" "t = [] \<or> hd t = BLANK" "w = [] \<longrightarrow> bs = [] \<or> hd bs = BLANK"
    by (rule split_word)
  have ne: "w \<noteq> []" using w(4) assms(4,5) by auto
  have ws: "words_of bs = w # words_of t" unfolding w(1) using ne w(2,3) by (rule words_of_word)
  have nl: "NEWLINE \<notin> set w" "NEWLINE \<notin> set t" using assms(3) w(1) by auto
  have wt: "cstr_at b0 2 (w @ t)" using b0 w(1) by simp
  let ?j = "2 + length w"
  have word: "skip_word b0 2 = Some ?j" by (rule skip_word_string [OF wt w(2) nl(1) w(3)])
  have t: "cstr_at b0 ?j t" using wt by (simp add: cstr_at_append)
  have path: "cstr b = Some (?p @ w)" if "cstr_at b 2 w" "b 0 = of_char CHR ''.''" "b (Suc 0) = of_char CHR ''/''" for b
    unfolding cstr_at_0 [symmetric] using that by (simp add: bytes_of_def numeral_2_eq_2 [symmetric])
  have wait: "(case (case x of None \<Rightarrow> (Signalled 9, s) | Some x \<Rightarrow> x) of (status, w) \<Rightarrow>
      Some (case status of Exited r \<Rightarrow> r | Signalled sig \<Rightarrow> if sig = 9 then -1 else 256, w)) = Some (waited x s)" for x
    by (auto simp: waited_def split: option.split wait_status.split)
  have "(1023 < length bs) = False" using assms(2) by simp
  then have start: "emu_execute L buf command s = do {
      (buf, args) \<leftarrow> (if b0 ?j \<noteq> NUL then parse_args (b0(?j := NUL)) [0] (Suc ?j) else Some (b0, [0]));
      Some (waited (execv L buf args s) s)
    }"
    unfolding emu_execute_def Let_def ece391_strlen_eq len Option.bind.bind_lunit cpy word wait by simp
  show ?thesis
  proof (cases t)
    case Nil
    then have "b0 ?j = NUL" using t by simp
    then have "emu_execute L buf command s = Some (waited (execv L b0 [0] s) s)"
      unfolding start by simp
    moreover have "words_of bs = [w]" using ws Nil by (simp add: words_of.simps)
    moreover have "cstr_at b0 2 w" using wt Nil by simp
    ultimately show ?thesis using path [OF _ dots] by blast
  next
    case (Cons x t')
    have x: "x = BLANK" using w(3) Cons by simp
    then have not_end: "b0 ?j \<noteq> NUL" using t Cons by simp
    let ?b = "b0(?j := NUL)"
    have t': "cstr_at ?b (Suc ?j) t'" using t Cons cstr_at_cong [of "Suc ?j" t' b0 ?b] by simp
    from parse_args_words [OF this, of "[0]"] nl(2) Cons obtain buf' offs
      where rec: "parse_args ?b [0] (Suc ?j) = Some (buf', 0 # offs)" "list_all2 (cstr_at buf') offs (words_of t')" "\<forall>k < Suc ?j. buf' k = ?b k"
      by auto
    have "emu_execute L buf command s = Some (waited (execv L buf' (0 # offs) s) s)"
      unfolding start using not_end rec(1) by simp
    moreover have "words_of bs = w # words_of t'" using ws Cons x words_of_blank by simp
    moreover have "cstr_at buf' 2 w" using cstr_at_cut [OF wt] cstr_at_cong [of 2 w buf' ?b] rec(3) by simp
    moreover have "buf' 0 = of_char CHR ''.''" "buf' (Suc 0) = of_char CHR ''/''" using rec(3) dots by simp_all
    ultimately show ?thesis using path [of buf'] rec(2) by blast
  qed
qed

lemma join_args_words:
  assumes "list_all2 (\<lambda>v w. cstr v = Some w) (drop idx argv) ws" "ws \<noteq> []" "int (length (join_words ws)) < nbytes"
  shows "\<exists>buf'. join_args argv idx buf i nbytes = Some (0, buf') \<and> cstr_at buf' i (join_words ws) \<and> (\<forall>k < i. buf' k = buf k)"
  using assms
proof (induction ws arbitrary: idx buf i nbytes rule: join_words.induct)
  case 1
  then show ?case by simp
next
  case (2 w)
  have d: "idx < length argv" "Suc idx \<ge> length argv" "cstr (argv ! idx) = Some w"
    using 2(1) list_all2_lengthD [OF 2(1)] by (auto simp: Cons_nth_drop_Suc [symmetric])
  note v = d(3)
  then have a: "cstr_at (argv ! idx) 0 w" "strlen (argv ! idx) = Some (length w)" by (simp_all add: cstr_at_0 cstr_eq_Some)
  let ?b = "store_bytes i (w @ [NUL]) buf"
  have "join_args argv idx buf i nbytes = Some (0, ?b(i + length w := NUL))"
    using 2(3) d(1,2) by (subst join_args.simps) (simp add: a(2) strcpy_into_eq [OF a(1)] end_args_def)
  moreover have "NUL \<notin> set w" using v by (auto simp: cstr_eq_Some strlen_eq_Some in_set_conv_nth)
  then have "cstr_at (?b(i + length w := NUL)) i w" by (auto simp: cstr_at_def store_bytes_def nth_append in_set_conv_nth)
  ultimately show ?case by simp
next
  case (3 w w' ws)
  have d: "idx < length argv" "\<not> Suc idx \<ge> length argv" "cstr (argv ! idx) = Some w"
    "list_all2 (\<lambda>v w. cstr v = Some w) (drop (Suc idx) argv) (w' # ws)"
    using 3(2) list_all2_lengthD [OF 3(2)] by (auto simp: list_all2_Cons2 Cons_nth_drop_Suc [symmetric])
  have a: "cstr_at (argv ! idx) 0 w" "strlen (argv ! idx) = Some (length w)" using d(3) by (simp_all add: cstr_at_0 cstr_eq_Some)
  have n: "int (length (join_words (w' # ws))) < nbytes - int (length w) - 1" using 3(4) by simp
  let ?b = "(store_bytes i (w @ [NUL]) buf)(i + length w := BLANK)"
  obtain buf' where rec: "join_args argv (Suc idx) ?b (Suc (i + length w)) (nbytes - int (length w) - 1) = Some (0, buf')"
    "cstr_at buf' (Suc (i + length w)) (join_words (w' # ws))" "\<forall>k < Suc (i + length w). buf' k = ?b k"
    using "3.IH" [OF d(4) list.distinct(2) n, of ?b "Suc (i + length w)"] by blast
  have "join_args argv idx buf i nbytes = Some (0, buf')"
    using n d(1,2) rec(1) by (subst join_args.simps) (simp add: a(2) strcpy_into_eq [OF a(1)] del: join_words.simps)
  moreover have "NUL \<notin> set w" using d(3) by (auto simp: cstr_eq_Some strlen_eq_Some in_set_conv_nth)
  then have "\<forall>k < length w. buf' (i + k) = w ! k \<and> w ! k \<noteq> NUL" "buf' (i + length w) = BLANK"
    using rec(3) by (auto simp: store_bytes_def nth_append in_set_conv_nth)
  then have "cstr_at buf' i (join_words (w # w' # ws))" using rec(2) by (simp add: cstr_at_append)
  moreover have "\<forall>k < i. buf' k = buf k" using rec(3) by simp
  ultimately show ?case by blast
qed

text \<open>
  C32. On Linux a program gets the words of its command line: execute of a line without line feeds that starts with a
  word runs the file "./" and that word, waits for it, and hands over the other words; getargs of the
  started program, in a buffer with room for them, returns 0 and the words joined by single
  blanks.
\<close>

theorem emulated_arguments:
  assumes "cstr command = Some bs" "length bs \<le> 1023" "NEWLINE \<notin> set bs" "bs \<noteq> []" "hd bs \<noteq> BLANK"
    and "int (length (join_words (tl (words_of bs)))) < nbytes"
  shows "\<exists>buf' argv b. emu_execute L buf command s = Some (waited (execv L buf' argv s) s)
    \<and> cstr buf' = Some (bytes_of ''./'' @ hd (words_of bs))
    \<and> emu_getargs (map (\<lambda>a k. buf' (a + k)) argv) junk nbytes = Some (0, b) \<and> cstr b = Some (join_words (tl (words_of bs)))"
proof -
  obtain buf' offs v vs where x: "emu_execute L buf command s = Some (waited (execv L buf' (0 # offs) s) s)" "words_of bs = v # vs"
    "cstr buf' = Some (bytes_of ''./'' @ v)" "list_all2 (cstr_at buf') offs vs"
    using emu_execute_words [OF assms(1-5), of L buf s] by blast
  let ?argv = "map (\<lambda>a k. buf' (a + k)) (0 # offs)"
  have "\<exists>b. emu_getargs ?argv junk nbytes = Some (0, b) \<and> cstr b = Some (join_words vs)"
  proof (cases "vs = []")
    case True
    then have "emu_getargs ?argv junk nbytes = Some (0, junk(0 := NUL))"
      using x(2,4) assms(6) by (simp add: emu_getargs_def join_args.simps end_args_def)
    then show ?thesis using True by (simp add: cstr_Nil)
  next
    case False
    have "list_all2 (\<lambda>v w. cstr v = Some w) (map (\<lambda>a k. buf' (a + k)) offs) vs"
      unfolding list_all2_map1 using x(4) by (rule list_all2_mono) (simp only: cstr_at_0 [symmetric], simp add: cstr_at_def)
    then have "list_all2 (\<lambda>v w. cstr v = Some w) (drop 1 ?argv) vs" by simp
    from join_args_words [OF this False, of nbytes junk 0] show ?thesis
      using assms(6) x(2) by (auto simp: emu_getargs_def cstr_at_0)
  qed
  then show ?thesis using x(1-3) by - (rule exI [of _ buf'], rule exI [of _ "0 # offs"], simp)
qed

text \<open>A Linux whose programs exit with 7.\<close>

definition demo_linux :: "unit linux" where
  "demo_linux = \<lparr>linux_read = (\<lambda>_ b _ w. (0, b, w)), linux_write = (\<lambda>_ _ n w. (word_of_int n, w)), linux_open = (\<lambda>_ w. (-2, w)),
     linux_close = (\<lambda>_ w. (0, w)), execv = (\<lambda>_ _ w. Some (Exited 7, w)), opendir = (\<lambda>w. (Some 0, w)), open_null = (\<lambda>w. (3, w)),
     open_mem = (\<lambda>w. (4, w)), map_low = (\<lambda>_ w. (None, w)), readdir = (\<lambda>_ w. (None, w)), closedir = (\<lambda>_ w. w)\<rparr>"

theorem emulated_arguments_witness:
  "emu_execute demo_linux (\<lambda>_. 0) (arr_of (bytes_of ''grep  very big'')) () = Some (7, ())
    \<and> (\<exists>argv b. emu_getargs argv (\<lambda>_. 0) 1024 = Some (0, b) \<and> cstr b = Some (bytes_of ''very big''))"
proof -
  let ?bs = "bytes_of ''grep  very big''"
  have c: "cstr (arr_of ?bs) = Some ?bs" by (rule cstr_arr_of) (simp add: bytes_of_def)
  have ws: "words_of ?bs = [bytes_of ''grep'', bytes_of ''very'', bytes_of ''big'']"
    by (simp add: bytes_of_def words_of.simps)
  have j: "join_words (tl (words_of ?bs)) = bytes_of ''very big''" unfolding ws by (simp add: bytes_of_def)
  have p: "length ?bs \<le> 1023" "NEWLINE \<notin> set ?bs" "?bs \<noteq> []" "hd ?bs \<noteq> BLANK" "int (length (join_words (tl (words_of ?bs)))) < 1024"
    unfolding j by (simp_all add: bytes_of_def)
  from emulated_arguments [OF c p, of demo_linux "\<lambda>_. 0" "()" "\<lambda>_. 0"] show ?thesis
    unfolding j by (auto simp: waited_def demo_linux_def)
qed

text \<open>A word that fills the buffer is copied with its NUL, one byte behind the buffer, before getargs fails.\<close>

theorem emulated_getargs_overflows:
  assumes "cstr v = Some w"
  shows "emu_getargs [p, v] buf (int (length w)) = Some (-1, store_bytes 0 (w @ [NUL]) buf)"
proof -
  have a: "cstr_at v 0 w" "strlen v = Some (length w)" using assms by (simp_all add: cstr_at_0 cstr_eq_Some)
  show ?thesis
    unfolding emu_getargs_def by (subst join_args.simps) (simp add: a(2) strcpy_into_eq [OF a(1)] end_args_def)
qed

section \<open>Names of a directory\<close>

lemma store_next:
  "c < length nm \<Longrightarrow> (store_bytes 0 (take c nm) buf)(c := nm ! c) = store_bytes 0 (take (Suc c) nm) buf"
  by (auto simp: store_bytes_def fun_eq_iff take_Suc_conv_app_nth nth_append less_Suc_eq)

lemma copy_name_eq:
  assumes "cstr from = Some nm" "c < 32" "c \<le> length nm" "32 \<le> nbytes"
  shows "copy_name from (store_bytes 0 (take c nm) buf) c nbytes =
    Some (if length nm < 32 then (Inr (length nm), store_bytes 0 nm buf) else (Inl 32, store_bytes 0 (take 32 nm) buf))"
  using assms(2,3)
proof (induction "32 - c" arbitrary: c)
  case (Suc d)
  have nul: "c < length nm \<Longrightarrow> from c = nm ! c \<and> nm ! c \<noteq> NUL" "from (length nm) = NUL"
    using assms(1) by (auto simp: cstr_eq_Some strlen_eq_Some)
  show ?case
  proof (cases "c < length nm")
    case True
    have rec: "copy_name from (store_bytes 0 (take (Suc c) nm) buf) (Suc c) nbytes =
        Some (if length nm < 32 then (Inr (length nm), store_bytes 0 nm buf) else (Inl 32, store_bytes 0 (take 32 nm) buf))" if "Suc c < 32"
      using Suc.hyps(1) [of "Suc c"] Suc.hyps(2) that True by simp
    show ?thesis
    proof (cases "Suc c = 32")
      case last: True
      then show ?thesis
        using nul(1) True assms(4) by (subst copy_name.simps) (auto simp: Let_def store_next simp del: fun_upd_apply)
    next
      case False
      then have "Suc c < 32" "int (Suc c) \<noteq> nbytes" using Suc.prems(1) assms(4) by auto
      then show ?thesis
        using nul(1) True rec by (subst copy_name.simps) (simp add: Let_def store_next del: fun_upd_apply)
    qed
  next
    case False
    then have "c = length nm" using Suc.prems(2) by simp
    then show ?thesis using nul(2) Suc.prems(1) by (subst copy_name.simps) simp
  qed
qed simp

lemma pad_name_eq:
  assumes "c \<le> 32" "32 \<le> nbytes"
  shows "pad_name to c nbytes = (32, store_bytes c (replicate (32 - c) NUL) to)"
  using assms(1)
proof (induction "32 - c" arbitrary: c to)
  case 0
  then show ?case by (subst pad_name.simps) simp
next
  case (Suc d)
  have "store_bytes (Suc c) (replicate d NUL) (to(c := NUL)) = store_bytes c (replicate (Suc d) NUL) to"
    by (auto simp: store_bytes_def fun_eq_iff)
  moreover have "32 - Suc c = d" "c < 32" "int c < nbytes" using Suc.hyps(2) assms(2) by simp_all
  ultimately show ?case
    using Suc.hyps(1) [of "Suc c" "to(c := NUL)"] Suc.hyps(2) Suc.prems by (subst pad_name.simps) (simp del: fun_upd_apply replicate.simps)
qed

text \<open>
  A name is padded to 32 bytes, and the value is 32 whatever its length: the kernel's own read of a directory
  returns the length.
\<close>

theorem emulated_names_padded:
  assumes "in_dir e fd" "readdir L (the (dir e)) w = (Some name, w')" "cstr name = Some nm" "32 \<le> nbytes"
  shows "emu_read L fd buf nbytes (e, w) = Some (32, store_bytes 0 (take 32 (nm @ replicate 32 NUL)) buf, e, w')"
proof -
  have c: "copy_name name buf 0 nbytes =
      Some (if length nm < 32 then (Inr (length nm), store_bytes 0 nm buf) else (Inl 32, store_bytes 0 (take 32 nm) buf))"
    using copy_name_eq [OF assms(3) _ _ assms(4), of 0 buf] by simp
  have "store_bytes (length nm) (replicate (32 - length nm) NUL) (store_bytes 0 nm buf) =
      store_bytes 0 (take 32 (nm @ replicate 32 NUL)) buf" if "length nm < 32"
    using that by (auto simp: store_bytes_def fun_eq_iff nth_append)
  then show ?thesis
    using assms(1,2) c pad_name_eq [OF _ assms(4), of "length nm"] by (auto simp: emu_read_def)
qed

end
