(* ===== verification/Blink.thy ===== *)
theory Blink
  imports Prelude
begin

text \<open>
  fish/blink.S, the blinking characters of the animation, with the allocator of fish/fish.c: a linked
  list through the slots of a static array, each with a place on the screen, two characters and the
  lengths of their turns.  The store to the mapped screen is a parameter (\<open>poke\<close>).

  The list is refined to a HOL list of blinking characters (\<open>shows_list\<close>, after the relational
  abstraction of pointer structures), under which the operations are the obvious ones.
\<close>

section \<open>The structures\<close>

text \<open>A pointer is NULL or a slot of \<open>blink_array\<close>.\<close>

record blink_struct =
  location :: u16
  on_char :: byte
  off_char :: byte
  on_length :: u16
  off_length :: u16
  countdown :: u16
  blink_status :: u16
  blink_next :: "nat option"

definition zero_blink :: blink_struct where
  "zero_blink = \<lparr>location = 0, on_char = 0, off_char = 0, on_length = 0, off_length = 0, countdown = 0, blink_status = 0, blink_next = None\<rparr>"

record mp1_state =
  blink_array :: "nat \<Rightarrow> blink_struct"
  list_head :: "nat option"

abbreviation SLOTS :: nat where "SLOTS \<equiv> 2000"

type_synonym 'w poke = "nat \<Rightarrow> byte \<Rightarrow> 'w \<Rightarrow> 'w option"

definition set_blink :: "nat \<Rightarrow> blink_struct \<Rightarrow> mp1_state \<Rightarrow> mp1_state" where
  "set_blink k b m = m\<lparr>blink_array := (blink_array m)(k := b)\<rparr>"

section \<open>Allocation\<close>

definition mp1_malloc :: "mp1_state \<Rightarrow> nat option" where
  "mp1_malloc m = find (\<lambda>i. location (blink_array m i) = 0) [0..<SLOTS]"

definition mp1_free :: "nat \<Rightarrow> mp1_state \<Rightarrow> mp1_state" where
  "mp1_free k m = set_blink k zero_blink m"

section \<open>The tick\<close>

text \<open>Two bytes for each place, character and attribute.\<close>

definition mp1_poke :: "'w poke \<Rightarrow> u16 \<Rightarrow> byte \<Rightarrow> 'w \<Rightarrow> 'w option" where
  "mp1_poke poke loc ch w = poke (2 * unat loc) ch w"

definition blink_once :: "'w poke \<Rightarrow> blink_struct \<Rightarrow> 'w \<Rightarrow> (blink_struct \<times> 'w) option" where
  "blink_once poke b w =
     (let b = b\<lparr>countdown := countdown b - 1\<rparr> in
      if 0 < sint (countdown b) then Some (b, w)
      else if blink_status b AND 1 \<noteq> 0 then do {
        w \<leftarrow> mp1_poke poke (location b) (off_char b) w;
        Some (b\<lparr>countdown := off_length b, blink_status := blink_status b XOR 1\<rparr>, w)
      } else do {
        w \<leftarrow> mp1_poke poke (location b) (on_char b) w;
        Some (b\<lparr>countdown := on_length b, blink_status := blink_status b XOR 1\<rparr>, w)
      })"

partial_function (option) tasklet_loop :: "'w poke \<Rightarrow> nat option \<Rightarrow> mp1_state \<Rightarrow> 'w \<Rightarrow> (mp1_state \<times> 'w) option" where
  "tasklet_loop poke p m w = (case p of None \<Rightarrow> Some (m, w)
   | Some k \<Rightarrow> do {
       (b, w) \<leftarrow> blink_once poke (blink_array m k) w;
       tasklet_loop poke (blink_next b) (set_blink k b m) w
     })"

definition mp1_rtc_tasklet :: "'w poke \<Rightarrow> mp1_state \<Rightarrow> 'w \<Rightarrow> (mp1_state \<times> 'w) option" where
  "mp1_rtc_tasklet poke m w = tasklet_loop poke (list_head m) m w"

section \<open>The operations\<close>

partial_function (option) find_from :: "mp1_state \<Rightarrow> u16 \<Rightarrow> nat option \<Rightarrow> nat option option" where
  "find_from m loc p = (case p of None \<Rightarrow> Some None
   | Some k \<Rightarrow> if location (blink_array m k) = loc then Some (Some k) else find_from m loc (blink_next (blink_array m k)))"

definition mp1_find_helper :: "mp1_state \<Rightarrow> u16 \<Rightarrow> nat option option" where
  "mp1_find_helper m loc = find_from m loc (list_head m)"

definition mp1_ioctl_add :: "'w poke \<Rightarrow> blink_struct \<Rightarrow> mp1_state \<Rightarrow> 'w \<Rightarrow> (int \<times> mp1_state \<times> 'w) option" where
  "mp1_ioctl_add poke b m w =
     (if location b \<ge> 80 * 25 then Some (-1, m, w)
      else let b = b\<lparr>blink_status := 1, countdown := on_length b\<rparr> in
        case mp1_malloc m of None \<Rightarrow> Some (-1, m, w)
        | Some k \<Rightarrow> do {
            let m = set_blink k b m;
            let m = set_blink k ((blink_array m k)\<lparr>blink_next := list_head m\<rparr>) m;
            let m = m\<lparr>list_head := Some k\<rparr>;
            w \<leftarrow> mp1_poke poke (location b) (on_char b) w;
            Some (0, m, w)
          })"

text \<open>
  The search for the pointer to slot \<open>k\<close>: the head of the list (\<open>None\<close>) or the field of a slot.  At the
  end of the list the code would read through NULL.
\<close>

partial_function (option) find_prev :: "mp1_state \<Rightarrow> nat \<Rightarrow> nat option \<Rightarrow> nat option option" where
  "find_prev m k prev = do {
     p \<leftarrow> (case prev of None \<Rightarrow> list_head m | Some j \<Rightarrow> blink_next (blink_array m j));
     if p = k then Some prev else find_prev m k (Some p)
   }"

definition set_pointer :: "nat option \<Rightarrow> nat option \<Rightarrow> mp1_state \<Rightarrow> mp1_state" where
  "set_pointer prev p m = (case prev of None \<Rightarrow> m\<lparr>list_head := p\<rparr>
   | Some j \<Rightarrow> set_blink j ((blink_array m j)\<lparr>blink_next := p\<rparr>) m)"

definition mp1_ioctl_remove :: "u16 \<Rightarrow> mp1_state \<Rightarrow> (int \<times> mp1_state) option" where
  "mp1_ioctl_remove loc m = do {
     p \<leftarrow> mp1_find_helper m loc;
     case p of None \<Rightarrow> Some (-1, m)
     | Some k \<Rightarrow> do {
         prev \<leftarrow> find_prev m k None;
         let m = set_pointer prev (blink_next (blink_array m k)) m;
         Some (0, mp1_free k m)
       }
   }"

text \<open>
  The character shown after a synchronisation: cmovl looks at the sign and overflow flags, and the test
  of one bit leaves both clear, so that the off character is never replaced.
\<close>

definition sync_char :: "blink_struct \<Rightarrow> byte" where
  "sync_char b =
     (let result = ucast (blink_status b) AND (1 :: byte);
          sf = bit result 7; cf_of = False
      in if sf \<noteq> cf_of then on_char b else off_char b)"

definition mp1_ioctl_sync :: "'w poke \<Rightarrow> u32 \<Rightarrow> mp1_state \<Rightarrow> 'w \<Rightarrow> (int \<times> mp1_state \<times> 'w) option" where
  "mp1_ioctl_sync poke arg m w = do {
     p \<leftarrow> mp1_find_helper m (ucast (drop_bit 16 arg));
     case p of None \<Rightarrow> Some (-1, m, w)
     | Some i \<Rightarrow> do {
         q \<leftarrow> mp1_find_helper m (ucast (arg AND 0xFFFF));
         case q of None \<Rightarrow> Some (-1, m, w)
         | Some j \<Rightarrow> do {
             let a = blink_array m i;
             let b = (blink_array m j)\<lparr>on_length := on_length a, off_length := off_length a, countdown := countdown a,
                 blink_status := blink_status a\<rparr>;
             let m = set_blink j b m;
             w \<leftarrow> mp1_poke poke (location b) (sync_char b) w;
             Some (0, m, w)
           }
       }
   }"

text \<open>The structure the caller points at is filled in.\<close>

definition mp1_ioctl_find :: "blink_struct \<Rightarrow> mp1_state \<Rightarrow> (int \<times> blink_struct) option" where
  "mp1_ioctl_find b m = do {
     p \<leftarrow> mp1_find_helper m (location b);
     case p of None \<Rightarrow> Some (-1, b) | Some k \<Rightarrow> Some (0, blink_array m k)
   }"

section \<open>The list in the array\<close>

text \<open>The slots that a pointer leads to, in order.\<close>

primrec chain :: "(nat \<Rightarrow> blink_struct) \<Rightarrow> nat option \<Rightarrow> nat list \<Rightarrow> bool" where
  "chain a p [] \<longleftrightarrow> p = None"
| "chain a p (k # ks) \<longleftrightarrow> p = Some k \<and> chain a (blink_next (a k)) ks"

text \<open>The slots in use are those of the list, once each; all places are on the screen.\<close>

definition slots_ok :: "mp1_state \<Rightarrow> nat list \<Rightarrow> bool" where
  "slots_ok m ks \<longleftrightarrow> chain (blink_array m) (list_head m) ks \<and> distinct ks \<and>
     set ks = {k. k < SLOTS \<and> location (blink_array m k) \<noteq> 0} \<and> (\<forall>k \<in> set ks. location (blink_array m k) < 80 * 25)"

text \<open>What a structure says, without its pointer, and the list that a state stands for.\<close>

definition payload :: "blink_struct \<Rightarrow> blink_struct" where
  "payload b = b\<lparr>blink_next := None\<rparr>"

definition shows_list :: "mp1_state \<Rightarrow> blink_struct list \<Rightarrow> bool" where
  "shows_list m xs \<longleftrightarrow> (\<exists>ks. slots_ok m ks \<and> xs = map (\<lambda>k. payload (blink_array m k)) ks)"

text \<open>What the operations do to the list.\<close>

primrec spec_tick :: "'w poke \<Rightarrow> blink_struct list \<Rightarrow> 'w \<Rightarrow> (blink_struct list \<times> 'w) option" where
  "spec_tick poke [] w = Some ([], w)"
| "spec_tick poke (x # xs) w = do { (x, w) \<leftarrow> blink_once poke x w; (xs, w) \<leftarrow> spec_tick poke xs w; Some (x # xs, w) }"

definition at_place :: "u16 \<Rightarrow> blink_struct list \<Rightarrow> blink_struct option" where
  "at_place loc xs = find (\<lambda>x. location x = loc) xs"

text \<open>The first one at a place replaced by others.\<close>

definition replace_at :: "u16 \<Rightarrow> blink_struct list \<Rightarrow> blink_struct list \<Rightarrow> blink_struct list" where
  "replace_at loc ys xs = takeWhile (\<lambda>x. location x \<noteq> loc) xs @ ys @ tl (dropWhile (\<lambda>x. location x \<noteq> loc) xs)"

datatype request = Add blink_struct | Remove u16 | Sync u32 | Tick

definition spec_request :: "'w poke \<Rightarrow> request \<Rightarrow> blink_struct list \<Rightarrow> 'w \<Rightarrow> (int \<times> blink_struct list \<times> 'w) option" where
  "spec_request poke r xs w = (case r of
     Add b \<Rightarrow>
       if location b \<ge> 80 * 25 \<or> length xs = SLOTS then Some (-1, xs, w)
       else do { w \<leftarrow> mp1_poke poke (location b) (on_char b) w; Some (0, payload (b\<lparr>blink_status := 1, countdown := on_length b\<rparr>) # xs, w) }
   | Remove loc \<Rightarrow> if at_place loc xs = None then Some (-1, xs, w) else Some (0, replace_at loc [] xs, w)
   | Sync arg \<Rightarrow>
       (case (at_place (ucast (drop_bit 16 arg)) xs, at_place (ucast (arg AND 0xFFFF)) xs) of
          (Some a, Some b) \<Rightarrow> do {
            w \<leftarrow> mp1_poke poke (location b) (off_char b) w;
            Some (0, replace_at (location b) [b\<lparr>on_length := on_length a, off_length := off_length a, countdown := countdown a,
              blink_status := blink_status a\<rparr>] xs, w) }
        | _ \<Rightarrow> Some (-1, xs, w))
   | Tick \<Rightarrow> do { (xs, w) \<leftarrow> spec_tick poke xs w; Some (0, xs, w) })"

definition do_request :: "'w poke \<Rightarrow> request \<Rightarrow> mp1_state \<Rightarrow> 'w \<Rightarrow> (int \<times> mp1_state \<times> 'w) option" where
  "do_request poke r m w = (case r of
     Add b \<Rightarrow> mp1_ioctl_add poke b m w
   | Remove loc \<Rightarrow> do { (r, m) \<leftarrow> mp1_ioctl_remove loc m; Some (r, m, w) }
   | Sync arg \<Rightarrow> mp1_ioctl_sync poke arg m w
   | Tick \<Rightarrow> do { (m, w) \<leftarrow> mp1_rtc_tasklet poke m w; Some (0, m, w) })"

text \<open>Each result of the one is a result of the other, with states that stand for the lists.\<close>

definition implements :: "(int \<times> mp1_state \<times> 'w) option \<Rightarrow> (int \<times> blink_struct list \<times> 'w) option \<Rightarrow> bool" where
  "implements r s \<longleftrightarrow> (case s of None \<Rightarrow> r = None | Some (x, xs, w) \<Rightarrow> (\<exists>m. r = Some (x, m, w) \<and> shows_list m xs))"

section \<open>Lemmas on the list\<close>

lemma set_blink_simps [simp]:
  "blink_array (set_blink k b m) = (blink_array m)(k := b)" "list_head (set_blink k b m) = list_head m"
  by (simp_all add: set_blink_def)

lemma payload_simps [simp]:
  "location (payload b) = location b" "on_char (payload b) = on_char b" "off_char (payload b) = off_char b"
  "on_length (payload b) = on_length b" "off_length (payload b) = off_length b" "countdown (payload b) = countdown b"
  "blink_status (payload b) = blink_status b" "payload (b\<lparr>blink_next := p\<rparr>) = payload b" "payload (payload b) = payload b"
  by (simp_all add: payload_def)

lemma chain_update: "k \<notin> set ks \<Longrightarrow> chain (a(k := b)) p ks = chain a p ks"
  by (induction ks arbitrary: p) auto

lemma find_from_chain:
  "chain (blink_array m) p ks \<Longrightarrow> find_from m loc p = Some (find (\<lambda>k. location (blink_array m k) = loc) ks)"
  by (induction ks arbitrary: p) (simp_all add: find_from.simps)

lemma find_helper_list: "slots_ok m ks \<Longrightarrow> mp1_find_helper m loc = Some (find (\<lambda>k. location (blink_array m k) = loc) ks)"
  by (simp add: mp1_find_helper_def slots_ok_def find_from_chain)

lemma at_place_list:
  "at_place loc (map (\<lambda>k. payload (a k)) ks) = map_option (\<lambda>k. payload (a k)) (find (\<lambda>k. location (a k) = loc) ks)"
  by (induction ks) (simp_all add: at_place_def)

lemma find_split:
  "find P xs = Some x \<Longrightarrow> \<exists>ys zs. xs = ys @ x # zs \<and> P x \<and> (\<forall>y \<in> set ys. \<not> P y)"
proof (induction xs)
  case (Cons a xs)
  show ?case
  proof (cases "P a")
    case True
    with Cons.prems have "a # xs = [] @ x # xs \<and> P x" by simp
    then show ?thesis by fastforce
  next
    case False
    with Cons obtain ys zs where "xs = ys @ x # zs" "P x" "\<forall>y \<in> set ys. \<not> P y" by auto
    with False show ?thesis by (intro exI [of _ "a # ys"] exI [of _ zs]) simp
  qed
qed simp

lemma replace_at_split:
  "location x = loc \<Longrightarrow> \<forall>y \<in> set xs. location y \<noteq> loc \<Longrightarrow> replace_at loc ys (xs @ x # zs) = xs @ ys @ zs"
  by (simp add: replace_at_def)

section \<open>Adding\<close>

lemma malloc_list:
  assumes "slots_ok m ks"
  shows "mp1_malloc m = None \<longleftrightarrow> length ks = SLOTS"
    and "mp1_malloc m = Some k \<Longrightarrow> k < SLOTS \<and> k \<notin> set ks"
proof -
  have s: "set ks = {k. k < SLOTS \<and> location (blink_array m k) \<noteq> 0}" "distinct ks" using assms by (simp_all add: slots_ok_def)
  then have sub: "set ks \<subseteq> {..<SLOTS}" by auto
  have "mp1_malloc m = None \<longleftrightarrow> (\<forall>k < SLOTS. k \<in> set ks)"
    unfolding mp1_malloc_def find_None_iff s(1) by auto
  also have "\<dots> \<longleftrightarrow> set ks = {..<SLOTS}" using sub by auto
  also have "\<dots> \<longleftrightarrow> card (set ks) = SLOTS"
    using card_subset_eq [OF finite_lessThan sub] card_lessThan by metis
  finally show "mp1_malloc m = None \<longleftrightarrow> length ks = SLOTS" using distinct_card [OF s(2)] by simp
  show "k < SLOTS \<and> k \<notin> set ks" if "mp1_malloc m = Some k"
  proof -
    have "k < SLOTS \<and> location (blink_array m k) = 0" using that unfolding mp1_malloc_def find_Some_iff by auto
    then show ?thesis unfolding s(1) by simp
  qed
qed

lemma add_implements:
  assumes "shows_list m xs" "location b \<noteq> 0"
  shows "implements (mp1_ioctl_add poke b m w) (spec_request poke (Add b) xs w)"
proof -
  obtain ks where ks: "slots_ok m ks" "xs = map (\<lambda>k. payload (blink_array m k)) ks"
    using assms(1) by (auto simp: shows_list_def)
  note mal = malloc_list [OF ks(1)]
  show ?thesis
  proof (cases "location b \<ge> 80 * 25 \<or> length ks = SLOTS")
    case True
    then show ?thesis using assms(1) mal(1) ks(2) by (auto simp: mp1_ioctl_add_def spec_request_def implements_def)
  next
    case False
    then obtain k where k: "mp1_malloc m = Some k" using mal(1) by auto
    note fresh = mal(2) [OF k]
    let ?b = "b\<lparr>blink_status := 1, countdown := on_length b\<rparr>"
    let ?m = "set_blink k (?b\<lparr>blink_next := list_head m\<rparr>) m\<lparr>list_head := Some k\<rparr>"
    have "slots_ok ?m (k # ks)"
      using ks(1) fresh assms(2) False unfolding slots_ok_def by (auto simp: chain_update not_le)
    moreover have "map (\<lambda>k. payload (blink_array ?m k)) (k # ks) = payload ?b # xs" using fresh ks(2) by auto
    ultimately have "shows_list ?m (payload ?b # xs)" unfolding shows_list_def by metis
    then show ?thesis
      using False k ks(2) by (cases "mp1_poke poke (location b) (on_char b) w")
        (auto simp: mp1_ioctl_add_def spec_request_def implements_def Let_def set_blink_def)
  qed
qed

section \<open>Removing\<close>

lemma find_prev_chain:
  "(case prev of None \<Rightarrow> list_head m | Some j \<Rightarrow> blink_next (blink_array m j)) = p \<Longrightarrow> chain (blink_array m) p (us @ k # vs) \<Longrightarrow>
    k \<notin> set us \<Longrightarrow> find_prev m k prev = Some (if us = [] then prev else Some (last us))"
proof (induction us arbitrary: prev p)
  case Nil
  then show ?case by (subst find_prev.simps) simp
next
  case (Cons u us)
  then have "find_prev m k (Some u) = Some (if us = [] then Some u else Some (last us))" by simp
  with Cons show ?case by (subst find_prev.simps) simp
qed

lemma chain_unlink:
  "chain a p (us @ j # k # vs) \<Longrightarrow> distinct (us @ j # k # vs) \<Longrightarrow>
    chain (a(j := (a j)\<lparr>blink_next := blink_next (a k)\<rparr>)) p (us @ j # vs)"
  by (induction us arbitrary: p) (auto simp: chain_update)

lemma chain_from: "chain a p (us @ vs) \<Longrightarrow> \<exists>q. chain a q vs"
  by (induction us arbitrary: p) auto

lemma unlink_ok:
  assumes "slots_ok m (us @ k # vs)" "prev = (if us = [] then None else Some (last us))"
  shows "slots_ok (mp1_free k (set_pointer prev (blink_next (blink_array m k)) m)) (us @ vs)"
    and "j \<noteq> k \<Longrightarrow> payload (blink_array (mp1_free k (set_pointer prev (blink_next (blink_array m k)) m)) j) = payload (blink_array m j)"
proof -
  let ?m = "set_pointer prev (blink_next (blink_array m k)) m"
  have m: "chain (blink_array m) (list_head m) (us @ k # vs)" "distinct (us @ k # vs)"
    "set (us @ k # vs) = {k. k < SLOTS \<and> location (blink_array m k) \<noteq> 0}" "\<forall>k \<in> set (us @ k # vs). location (blink_array m k) < 80 * 25"
    using assms(1) unfolding slots_ok_def by blast+
  have p: "payload (blink_array ?m j) = payload (blink_array m j)" for j
    by (simp add: set_pointer_def split: option.split)
  then have l: "location (blink_array ?m j) = location (blink_array m j)" for j by (metis payload_simps(1))
  show "payload (blink_array (mp1_free k ?m) j) = payload (blink_array m j)" if "j \<noteq> k"
    using that p by (simp add: mp1_free_def)
  have "chain (blink_array ?m) (list_head ?m) (us @ vs)"
  proof (cases us rule: rev_cases)
    case Nil
    then show ?thesis using m(1) assms(2) by (simp add: set_pointer_def)
  next
    case (snoc ws j)
    then show ?thesis using chain_unlink [of "blink_array m" "list_head m" ws j k vs] m(1,2) assms(2) by (simp add: set_pointer_def)
  qed
  then have c: "chain (blink_array (mp1_free k ?m)) (list_head (mp1_free k ?m)) (us @ vs)"
    using m(2) by (simp add: mp1_free_def chain_update)
  have "set (us @ vs) = {j. j < SLOTS \<and> location (blink_array (mp1_free k ?m) j) \<noteq> 0}"
    using m(2,3) l by (auto simp: mp1_free_def zero_blink_def)
  moreover have "\<forall>j \<in> set (us @ vs). location (blink_array (mp1_free k ?m) j) < 80 * 25"
    using m(2,4) l by (auto simp: mp1_free_def)
  ultimately show "slots_ok (mp1_free k ?m) (us @ vs)" using m(2) c by (simp add: slots_ok_def)
qed

lemma remove_implements:
  assumes "shows_list m xs"
  shows "implements (do { (r, m) \<leftarrow> mp1_ioctl_remove loc m; Some (r, m, w) }) (spec_request poke (Remove loc) xs w)"
proof -
  obtain ks where ks: "slots_ok m ks" "xs = map (\<lambda>k. payload (blink_array m k)) ks"
    using assms by (auto simp: shows_list_def)
  let ?f = "find (\<lambda>k. location (blink_array m k) = loc) ks"
  have at: "at_place loc xs = map_option (\<lambda>k. payload (blink_array m k)) ?f" unfolding ks(2) by (rule at_place_list)
  show ?thesis
  proof (cases ?f)
    case None
    then show ?thesis
      using at assms by (simp add: implements_def spec_request_def mp1_ioctl_remove_def find_helper_list [OF ks(1)])
  next
    case (Some k)
    then obtain us vs where s: "ks = us @ k # vs" "location (blink_array m k) = loc" "\<forall>j \<in> set us. location (blink_array m j) \<noteq> loc"
      using find_split by fast
    have d: "chain (blink_array m) (list_head m) (us @ k # vs)" "k \<notin> set us" "k \<notin> set vs"
      using ks(1) unfolding s(1) slots_ok_def by simp_all
    let ?prev = "if us = [] then None else Some (last us)"
    let ?m = "mp1_free k (set_pointer ?prev (blink_next (blink_array m k)) m)"
    have "find_prev m k None = Some ?prev" by (rule find_prev_chain [OF _ d(1,2)]) simp
    then have r: "mp1_ioctl_remove loc m = Some (0, ?m)"
      using Some by (simp add: mp1_ioctl_remove_def find_helper_list [OF ks(1)])
    note u = unlink_ok [OF ks(1) [unfolded s(1)] refl]
    have "replace_at loc [] xs = map (\<lambda>k. payload (blink_array m k)) (us @ vs)"
      unfolding ks(2) s(1) map_append list.map by (subst replace_at_split) (use s in auto)
    also have "\<dots> = map (\<lambda>k. payload (blink_array ?m k)) (us @ vs)"
      using d(2,3) u(2) by (intro map_cong refl) (metis UnE set_append)
    finally have "shows_list ?m (replace_at loc [] xs)" using u(1) unfolding shows_list_def by blast
    then show ?thesis using r at Some by (simp add: implements_def spec_request_def)
  qed
qed

section \<open>Synchronising and ticking\<close>

lemma sync_char_off: "sync_char b = off_char b"
proof -
  have "\<not> bit (x AND 1) 7" for x :: byte by (simp add: bit_simps)
  then show ?thesis by (simp add: sync_char_def Let_def)
qed

lemma slots_ok_cong:
  assumes "\<And>k. location (blink_array m' k) = location (blink_array m k) \<and> blink_next (blink_array m' k) = blink_next (blink_array m k)"
    and "list_head m' = list_head m"
  shows "slots_ok m' ks = slots_ok m ks"
proof -
  have "chain (blink_array m') p ks = chain (blink_array m) p ks" for p
    using assms(1) by (induction ks arbitrary: p) simp_all
  then show ?thesis using assms by (simp add: slots_ok_def)
qed

lemma sync_implements:
  assumes "shows_list m xs"
  shows "implements (mp1_ioctl_sync poke arg m w) (spec_request poke (Sync arg) xs w)"
proof -
  obtain ks where ks: "slots_ok m ks" "xs = map (\<lambda>k. payload (blink_array m k)) ks"
    using assms by (auto simp: shows_list_def)
  let ?x = "ucast (drop_bit 16 arg) :: u16" and ?y = "ucast (arg AND 0xFFFF) :: u16"
  note at = at_place_list [of _ "blink_array m" ks, folded ks(2)]
  note fnd = find_helper_list [OF ks(1)]
  show ?thesis
  proof (cases "find (\<lambda>k. location (blink_array m k) = ?x) ks")
    case None
    then show ?thesis using assms at fnd by (simp add: implements_def spec_request_def mp1_ioctl_sync_def)
  next
    case i: (Some i)
    show ?thesis
    proof (cases "find (\<lambda>k. location (blink_array m k) = ?y) ks")
      case None
      then show ?thesis using i assms at fnd by (simp add: implements_def spec_request_def mp1_ioctl_sync_def)
    next
      case j: (Some j)
      then obtain us vs where s: "ks = us @ j # vs" "location (blink_array m j) = ?y" "\<forall>k \<in> set us. location (blink_array m k) \<noteq> ?y"
        using find_split by fast
      have d: "j \<notin> set us" "j \<notin> set vs" using ks(1) unfolding s(1) slots_ok_def by simp_all
      let ?a = "blink_array m i"
      let ?f = "\<lambda>b. b\<lparr>on_length := on_length ?a, off_length := off_length ?a, countdown := countdown ?a, blink_status := blink_status ?a\<rparr>"
      let ?m = "set_blink j (?f (blink_array m j)) m"
      have "slots_ok ?m ks" using ks(1) by (subst slots_ok_cong [where m = m]) auto
      moreover have "replace_at ?y [?f (payload (blink_array m j))] xs = map (\<lambda>k. payload (blink_array ?m k)) ks"
        unfolding ks(2) s(1) map_append list.map
        by (subst replace_at_split) (use s d in \<open>auto simp: payload_def intro!: map_cong\<close>)
      ultimately have "shows_list ?m (replace_at ?y [?f (payload (blink_array m j))] xs)" unfolding shows_list_def by metis
      then show ?thesis
        using i j at fnd s(2)
        by (cases "mp1_poke poke ?y (off_char (blink_array m j)) w")
          (auto simp: implements_def spec_request_def mp1_ioctl_sync_def Let_def sync_char_off)
    qed
  qed
qed

lemma blink_once_fields:
  "blink_once poke b w = Some (b', w') \<Longrightarrow> location b' = location b \<and> blink_next b' = blink_next b"
  by (auto simp: blink_once_def Let_def bind_eq_Some_conv split: if_splits)

lemma blink_once_payload:
  "blink_once poke (payload b) w = map_option (\<lambda>(b, w). (payload b, w)) (blink_once poke b w)"
  by (cases "mp1_poke poke (location b) (off_char b) w"; cases "mp1_poke poke (location b) (on_char b) w")
    (auto simp: blink_once_def Let_def payload_def)

lemma tasklet_list:
  "chain (blink_array m) p ks \<Longrightarrow> distinct ks \<Longrightarrow>
   (case spec_tick poke (map (\<lambda>k. payload (blink_array m k)) ks) w of
      None \<Rightarrow> tasklet_loop poke p m w = None
    | Some (ys, w') \<Rightarrow> \<exists>m'. tasklet_loop poke p m w = Some (m', w') \<and> list_head m' = list_head m \<and>
        ys = map (\<lambda>k. payload (blink_array m' k)) ks \<and> (\<forall>k. k \<notin> set ks \<longrightarrow> blink_array m' k = blink_array m k) \<and>
        (\<forall>k. location (blink_array m' k) = location (blink_array m k) \<and> blink_next (blink_array m' k) = blink_next (blink_array m k)))"
proof (induction ks arbitrary: p m w)
  case Nil
  then show ?case by (simp add: tasklet_loop.simps)
next
  case (Cons k ks)
  then have p: "p = Some k" by simp
  show ?case
  proof (cases "blink_once poke (blink_array m k) w")
    case None
    then show ?thesis by (simp add: p tasklet_loop.simps [of poke "Some k"] blink_once_payload)
  next
    case (Some bw)
    then obtain b w1 where b: "blink_once poke (blink_array m k) w = Some (b, w1)" by (cases bw) auto
    note f = blink_once_fields [OF b]
    let ?m = "set_blink k b m"
    have loop: "tasklet_loop poke p m w = tasklet_loop poke (blink_next b) ?m w1"
      unfolding p by (subst tasklet_loop.simps) (simp add: b)
    have "chain (blink_array ?m) (blink_next b) ks" "distinct ks" using Cons.prems f by (simp_all add: chain_update)
    note IH = Cons.IH [OF this, of w1]
    have same: "map (\<lambda>k. payload (blink_array ?m k)) ks = map (\<lambda>k. payload (blink_array m k)) ks"
      using Cons.prems(2) by auto
    show ?thesis
    proof (cases "spec_tick poke (map (\<lambda>k. payload (blink_array m k)) ks) w1")
      case None
      then show ?thesis using IH [unfolded same None option.case] loop b by (simp add: blink_once_payload)
    next
      case (Some yw)
      then obtain ys w2 where y: "spec_tick poke (map (\<lambda>k. payload (blink_array m k)) ks) w1 = Some (ys, w2)" by (cases yw) auto
      from IH [unfolded same y option.case prod.case] obtain m' where m': "tasklet_loop poke (blink_next b) ?m w1 = Some (m', w2)"
        "list_head m' = list_head m" "ys = map (\<lambda>k. payload (blink_array m' k)) ks" "\<forall>j. j \<notin> set ks \<longrightarrow> blink_array m' j = blink_array ?m j"
        "\<forall>j. location (blink_array m' j) = location (blink_array ?m j) \<and> blink_next (blink_array m' j) = blink_next (blink_array ?m j)"
        by auto
      have "payload (blink_array m' k) = payload b" using m'(4) Cons.prems(2) by simp
      then show ?thesis using y m' loop b f Cons.prems(2) by (auto simp: blink_once_payload)
    qed
  qed
qed

lemma tick_implements:
  assumes "shows_list m xs"
  shows "implements (do { (m, w) \<leftarrow> mp1_rtc_tasklet poke m w; Some (0, m, w) }) (spec_request poke Tick xs w)"
proof -
  obtain ks where ks: "slots_ok m ks" "xs = map (\<lambda>k. payload (blink_array m k)) ks"
    using assms by (auto simp: shows_list_def)
  have "chain (blink_array m) (list_head m) ks" "distinct ks" using ks(1) by (simp_all add: slots_ok_def)
  note t = tasklet_list [OF this, of poke w, folded ks(2)]
  show ?thesis
  proof (cases "spec_tick poke xs w")
    case None
    then show ?thesis using t by (simp add: implements_def spec_request_def mp1_rtc_tasklet_def)
  next
    case (Some yw)
    then obtain ys w' where y: "spec_tick poke xs w = Some (ys, w')" by (cases yw) auto
    with t obtain m' where m': "tasklet_loop poke (list_head m) m w = Some (m', w')" "list_head m' = list_head m"
      "ys = map (\<lambda>k. payload (blink_array m' k)) ks"
      "\<And>k. location (blink_array m' k) = location (blink_array m k) \<and> blink_next (blink_array m' k) = blink_next (blink_array m k)"
      by auto
    have "slots_ok m' ks" using slots_ok_cong [OF m'(4,2)] ks(1) by simp
    then have "shows_list m' ys" using m'(3) unfolding shows_list_def by blast
    then show ?thesis using y m'(1) by (simp add: implements_def spec_request_def mp1_rtc_tasklet_def)
  qed
qed

section \<open>Sequences of requests\<close>

definition mp1_start :: mp1_state where
  "mp1_start = \<lparr>blink_array = \<lambda>_. zero_blink, list_head = None\<rparr>"

primrec do_requests :: "'w poke \<Rightarrow> request list \<Rightarrow> mp1_state \<Rightarrow> 'w \<Rightarrow> (int list \<times> mp1_state \<times> 'w) option" where
  "do_requests poke [] m w = Some ([], m, w)"
| "do_requests poke (q # qs) m w = do { (r, m, w) \<leftarrow> do_request poke q m w; (rs, m, w) \<leftarrow> do_requests poke qs m w; Some (r # rs, m, w) }"

primrec spec_requests :: "'w poke \<Rightarrow> request list \<Rightarrow> blink_struct list \<Rightarrow> 'w \<Rightarrow> (int list \<times> blink_struct list \<times> 'w) option" where
  "spec_requests poke [] xs w = Some ([], xs, w)"
| "spec_requests poke (q # qs) xs w =
     do { (r, xs, w) \<leftarrow> spec_request poke q xs w; (rs, xs, w) \<leftarrow> spec_requests poke qs xs w; Some (r # rs, xs, w) }"

definition on_places :: "request list \<Rightarrow> bool" where
  "on_places qs \<longleftrightarrow> (\<forall>b. Add b \<in> set qs \<longrightarrow> location b \<noteq> 0)"

lemma request_implements:
  assumes "shows_list m xs" "on_places [q]"
  shows "implements (do_request poke q m w) (spec_request poke q xs w)"
  using assms add_implements [OF assms(1)] remove_implements [OF assms(1)] sync_implements [OF assms(1)] tick_implements [OF assms(1)]
  by (cases q) (simp_all add: do_request_def on_places_def)

lemma requests_implement:
  assumes "shows_list m xs" "on_places qs"
  shows "case spec_requests poke qs xs w of None \<Rightarrow> do_requests poke qs m w = None
    | Some (rs, ys, w') \<Rightarrow> \<exists>m'. do_requests poke qs m w = Some (rs, m', w') \<and> shows_list m' ys"
  using assms
proof (induction qs arbitrary: m xs w)
  case Nil
  then show ?case by simp
next
  case (Cons q qs)
  have "on_places [q]" "on_places qs" using Cons.prems(2) by (simp_all add: on_places_def)
  note q = request_implements [OF Cons.prems(1) this(1), of poke w] and IH = Cons.IH [OF _ this(2)]
  show ?case
  proof (cases "spec_request poke q xs w")
    case None
    then show ?thesis using q by (simp add: implements_def)
  next
    case (Some r)
    then obtain x ys w1 where s: "spec_request poke q xs w = Some (x, ys, w1)" by (cases r) auto
    with q obtain m1 where m1: "do_request poke q m w = Some (x, m1, w1)" "shows_list m1 ys" by (auto simp: implements_def)
    show ?thesis using IH [OF m1(2), of w1] s m1(1) by (auto split: option.splits)
  qed
qed

lemma start_shows_list: "shows_list mp1_start []"
  by (auto simp: shows_list_def slots_ok_def mp1_start_def zero_blink_def intro: exI [of _ "[]"])

text \<open>
  C12. The linked list of blinking characters is a list: from the zeroed array, any sequence of additions
  (at places other than the corner of the screen), removals, synchronisations and ticks returns what
  the specification on lists returns and stores the same bytes on the screen, and afterwards the
  pointers lead through exactly the slots in use, once each, to the specified characters.
\<close>

theorem blink_list_refined:
  assumes "on_places qs" "spec_requests poke qs [] w = Some (rs, xs, w')"
  shows "\<exists>m. do_requests poke qs mp1_start w = Some (rs, m, w') \<and> shows_list m xs"
  using requests_implement [OF start_shows_list assms(1), of poke w] assms(2) by simp

definition demo_poke :: "(nat \<Rightarrow> byte) poke" where
  "demo_poke off ch w = Some (w(off := ch))"

definition demo_blink :: "u16 \<Rightarrow> byte \<Rightarrow> blink_struct" where
  "demo_blink loc ch = zero_blink\<lparr>location := loc, on_char := ch, off_char := 0x2D, on_length := 2, off_length := 1\<rparr>"

definition demo_requests :: "request list" where
  "demo_requests = [Add (demo_blink 41 0x41), Add (demo_blink 42 0x42), Tick, Tick, Remove 41, Remove 7, Add (demo_blink 2000 0x43),
     Sync (42 * 0x10000 + 42)]"

theorem blink_list_refined_witness:
  "\<exists>m. do_requests demo_poke demo_requests mp1_start (\<lambda>_. 0) =
      Some ([0, 0, 0, 0, 0, -1, -1, 0], m, (\<lambda>_. 0)(82 := 0x2D, 84 := 0x2D))
    \<and> shows_list m [(demo_blink 42 0x42)\<lparr>countdown := 1, blink_status := 0\<rparr>]"
proof (rule blink_list_refined)
  show "on_places demo_requests" by (auto simp: on_places_def demo_requests_def demo_blink_def)
  show "spec_requests demo_poke demo_requests [] (\<lambda>_. 0) = Some ([0, 0, 0, 0, 0, -1, -1, 0],
      [(demo_blink 42 0x42)\<lparr>countdown := 1, blink_status := 0\<rparr>], (\<lambda>_. 0)(82 := 0x2D, 84 := 0x2D))"
    by (simp add: demo_requests_def spec_request_def demo_blink_def zero_blink_def blink_once_def mp1_poke_def demo_poke_def
        at_place_def replace_at_def payload_def Let_def fun_eq_iff)
qed

section \<open>The corner of the screen\<close>

lemma tasklet_circle: "blink_next (blink_array m k) = Some k \<Longrightarrow> tasklet_loop poke (Some k) m w = None"
proof (rule ccontr)
  assume c: "blink_next (blink_array m k) = Some k" and "tasklet_loop poke (Some k) m w \<noteq> None"
  then obtain r where "tasklet_loop poke (Some k) m w = Some r" by auto
  then have "Some k = Some k \<longrightarrow> blink_next (blink_array m k) = Some k \<longrightarrow> False"
  proof (rule tasklet_loop.raw_induct [where P = "\<lambda>poke p m w r. p = Some k \<longrightarrow> blink_next (blink_array m k) = Some k \<longrightarrow> False", rotated])
    fix loop :: "'a poke \<Rightarrow> nat option \<Rightarrow> mp1_state \<Rightarrow> 'a \<Rightarrow> (mp1_state \<times> 'a) option" and poke p m w r
    assume IH: "\<And>poke p m w r. loop poke p m w = Some r \<Longrightarrow> p = Some k \<longrightarrow> blink_next (blink_array m k) = Some k \<longrightarrow> False"
      and eq: "(case p of None \<Rightarrow> Some (m, w) | Some k \<Rightarrow> blink_once poke (blink_array m k) w \<bind> (\<lambda>(b, w). loop poke (blink_next b) (set_blink k b m) w)) = Some r"
    show "p = Some k \<longrightarrow> blink_next (blink_array m k) = Some k \<longrightarrow> False"
    proof (intro impI)
      assume p: "p = Some k" "blink_next (blink_array m k) = Some k"
      with eq obtain b w' where b: "blink_once poke (blink_array m k) w = Some (b, w')" "loop poke (blink_next b) (set_blink k b m) w' = Some r"
        by (auto simp: bind_eq_Some_conv)
      have "blink_next b = Some k" using blink_once_fields [OF b(1)] p(2) by simp
      then show False using IH [OF b(2)] by simp
    qed
  qed
  then show False using c by simp
qed

text \<open>
  C39. Slot 0 of the screen is also the mark of a free slot: of two characters added at the corner of the
  screen the second takes the slot of the first, which then is its own successor, and the next tick
  never ends.
\<close>

theorem corner_blink_hangs:
  assumes "location a = 0" "location b = 0" "\<And>ch w. poke 0 ch w = Some (p ch w)"
  shows "\<exists>m w1. do_requests poke [Add a, Add b] mp1_start w = Some ([0, 0], m, w1) \<and> mp1_rtc_tasklet poke m w' = None"
proof -
  have m: "mp1_malloc m = Some 0" if "location (blink_array m 0) = 0" for m
  proof -
    have "[0..<SLOTS] = 0 # [Suc 0..<SLOTS]" by (rule upt_conv_Cons) simp
    then show ?thesis using that by (simp add: mp1_malloc_def)
  qed
  have p: "mp1_poke poke 0 ch w = Some (p ch w)" for ch w using assms(3) by (simp add: mp1_poke_def)
  let ?f = "\<lambda>b. b\<lparr>blink_status := 1, countdown := on_length b\<rparr>"
  let ?m1 = "set_blink 0 (?f a\<lparr>blink_next := None\<rparr>) mp1_start\<lparr>list_head := Some 0\<rparr>"
  let ?m2 = "set_blink 0 (?f b\<lparr>blink_next := Some 0\<rparr>) ?m1\<lparr>list_head := Some 0\<rparr>"
  have "do_requests poke [Add a, Add b] mp1_start w = Some ([0, 0], ?m2, p (on_char b) (p (on_char a) w))"
    using assms(1,2) by (simp add: do_request_def mp1_ioctl_add_def m p Let_def mp1_start_def set_blink_def zero_blink_def)
  moreover have "mp1_rtc_tasklet poke ?m2 w' = None" by (simp add: mp1_rtc_tasklet_def tasklet_circle)
  ultimately show ?thesis by blast
qed

theorem corner_blink_hangs_witness:
  "\<exists>m w1. do_requests demo_poke [Add (demo_blink 0 0x41), Add (demo_blink 0 0x42)] mp1_start (\<lambda>_. 0) = Some ([0, 0], m, w1)
    \<and> mp1_rtc_tasklet demo_poke m (\<lambda>_. 0) = None"
  by (rule corner_blink_hangs [of _ _ _ "\<lambda>ch w. w(0 := ch)"]) (simp_all add: demo_blink_def demo_poke_def)

section \<open>The turns\<close>

primrec blink_times :: "nat \<Rightarrow> 'w poke \<Rightarrow> blink_struct \<Rightarrow> 'w \<Rightarrow> (blink_struct \<times> 'w) option" where
  "blink_times 0 poke b w = Some (b, w)"
| "blink_times (Suc n) poke b w = do { (b, w) \<leftarrow> blink_once poke b w; blink_times n poke b w }"

lemma blink_times_add: "blink_times (i + j) poke b w = do { (b, w) \<leftarrow> blink_times i poke b w; blink_times j poke b w }"
proof (induction i arbitrary: b w)
  case (Suc i)
  show ?case by (cases "blink_once poke b w") (auto simp: Suc.IH)
qed simp

lemma countdown_positive:
  fixes c :: u16
  assumes "2 \<le> unat c" "unat c \<le> 0x8000"
  shows "0 < sint (c - 1)" "unat (c - 1) = unat c - 1"
proof -
  have "1 \<le> c" using assms(1) by (simp add: word_le_nat_alt)
  then show u: "unat (c - 1) = unat c - 1" by (simp add: unat_sub_if_size word_le_nat_alt)
  have "uint (c - 1) = int (unat (c - 1))" by simp
  also have "\<dots> = int (unat c) - 1" using u assms(1) by linarith
  finally have i: "uint (c - 1) = int (unat c) - 1" .
  define j where "j = int (unat c) - 1"
  have j: "0 < j" "j < 0x8000" using assms unfolding j_def by linarith+
  then have "signed_take_bit 15 j = j" by (intro signed_take_bit_int_eq_self) simp_all
  then show "0 < sint (c - 1)" unfolding sint_uint i j_def [symmetric] using j(1) by simp
qed

lemma blink_wait:
  "unat (countdown b) = Suc n \<Longrightarrow> n < 0x8000 \<Longrightarrow> blink_times n poke b w = Some (b\<lparr>countdown := 1\<rparr>, w)"
proof (induction n arbitrary: b)
  case 0
  then have "unat (countdown b) = unat (1 :: u16)" by simp
  then have "countdown b = 1" by (rule word_unat_eq_iff [THEN iffD2])
  then show ?case by simp
next
  case (Suc n)
  note c = countdown_positive [of "countdown b", unfolded Suc.prems(1)]
  have "blink_once poke b w = Some (b\<lparr>countdown := countdown b - 1\<rparr>, w)" using c Suc.prems(2) by (simp add: blink_once_def Let_def)
  then show ?case using Suc.IH [of "b\<lparr>countdown := countdown b - 1\<rparr>"] c Suc.prems by simp
qed

text \<open>One turn: the character stays for as many ticks as its countdown says, and is then replaced by the other.\<close>

lemma blink_turn:
  assumes "0 < unat (countdown b)" "unat (countdown b) \<le> 0x8000"
  shows "blink_times (unat (countdown b)) poke b w =
    (if blink_status b AND 1 \<noteq> 0 then do {
       w \<leftarrow> mp1_poke poke (location b) (off_char b) w; Some (b\<lparr>countdown := off_length b, blink_status := blink_status b XOR 1\<rparr>, w) }
     else do {
       w \<leftarrow> mp1_poke poke (location b) (on_char b) w; Some (b\<lparr>countdown := on_length b, blink_status := blink_status b XOR 1\<rparr>, w) })"
proof -
  obtain n where n: "unat (countdown b) = Suc n" using assms(1) gr0_conv_Suc by auto
  have "blink_times (n + 1) poke b w = blink_once poke (b\<lparr>countdown := 1\<rparr>) w"
    using blink_wait [OF n, of poke w] assms(2) n unfolding blink_times_add by (cases "blink_once poke (b\<lparr>countdown := 1\<rparr>) w") auto
  then show ?thesis by (simp add: n blink_once_def Let_def)
qed

text \<open>
  A blinking character keeps its rhythm: from its addition, the on character stays for as many ticks as its
  on length says, the off character then for as many as the off length says, and after both turns
  the structure is what it was; lengths go up to 32768.
\<close>

theorem blink_rhythm:
  assumes "blink_status b = 1" "countdown b = on_length b"
    and "0 < unat (on_length b)" "unat (on_length b) \<le> 0x8000" "0 < unat (off_length b)" "unat (off_length b) \<le> 0x8000"
  shows "blink_times (unat (on_length b)) poke b w =
      do { w \<leftarrow> mp1_poke poke (location b) (off_char b) w; Some (b\<lparr>countdown := off_length b, blink_status := 0\<rparr>, w) }
    \<and> blink_times (unat (on_length b) + unat (off_length b)) poke b w =
      do { w \<leftarrow> mp1_poke poke (location b) (off_char b) w; w \<leftarrow> mp1_poke poke (location b) (on_char b) w; Some (b, w) }"
proof -
  have first: "blink_times (unat (on_length b)) poke b w =
      do { w \<leftarrow> mp1_poke poke (location b) (off_char b) w; Some (b\<lparr>countdown := off_length b, blink_status := 0\<rparr>, w) }"
    using blink_turn [of b poke w] assms(1-4) by simp
  let ?b = "b\<lparr>countdown := off_length b, blink_status := 0\<rparr>"
  have "?b\<lparr>countdown := on_length b, blink_status := 1\<rparr> = b" using assms(1,2) by simp
  then have "blink_times (unat (off_length b)) poke ?b u = do { w \<leftarrow> mp1_poke poke (location b) (on_char b) u; Some (b, w) }" for u
    using blink_turn [of ?b poke u] assms(5,6) by simp
  then show ?thesis unfolding blink_times_add first by simp
qed

theorem blink_rhythm_witness:
  "\<exists>b. blink_times 3 demo_poke b (\<lambda>_. 0) = Some (b, (\<lambda>_. 0)(82 := 0x41))"
proof -
  let ?b = "(demo_blink 41 0x41)\<lparr>blink_status := 1, countdown := 2\<rparr>"
  have "blink_times (unat (on_length ?b) + unat (off_length ?b)) demo_poke ?b (\<lambda>_. 0) =
      do { w \<leftarrow> mp1_poke demo_poke (location ?b) (off_char ?b) (\<lambda>_. 0); w \<leftarrow> mp1_poke demo_poke (location ?b) (on_char ?b) w; Some (?b, w) }"
    by (rule blink_rhythm [THEN conjunct2]) (simp_all add: demo_blink_def)
  then have "blink_times 3 demo_poke ?b (\<lambda>_. 0) = Some (?b, (\<lambda>_. 0)(82 := 0x41))"
    by (simp add: demo_blink_def mp1_poke_def demo_poke_def)
  then show ?thesis by blast
qed

end
