(* ===== verification/Fish.thy ===== *)
theory Fish
  imports Blink UserSpec
begin

text \<open>
  fish/fish.c: the animation.  Two frames of text are read in step, a blinking character is added
  for every place where one of them has something, and the clock drives the blinking.  What a program
  may rely on when it draws to the mapped screen is the locale \<open>screen_program\<close>, an extension of
  the contract of the system calls.
\<close>

section \<open>The code\<close>

abbreviation BLANK :: byte where "BLANK \<equiv> 0x20"

text \<open>The read of one character of a frame, unless its line has ended.\<close>

definition next_char :: "'w user_calls \<Rightarrow> int \<Rightarrow> byte \<Rightarrow> bool \<Rightarrow> 'w \<Rightarrow> (byte \<times> bool \<times> 'w) option" where
  "next_char c fd ch eof w =
     (if ch \<noteq> NEWLINE then do {
        (num_bytes, buf, w) \<leftarrow> ece391_read c fd (\<lambda>_. ch) 1 w;
        if num_bytes = 0 then Some (NEWLINE, True, w) else Some (buf 0, eof, w)
      } else Some (ch, eof, w))"

definition frame_blink :: "nat \<Rightarrow> nat \<Rightarrow> byte \<Rightarrow> byte \<Rightarrow> blink_struct" where
  "frame_blink row col c0 c1 = zero_blink\<lparr>on_length := 15, off_length := 15, on_char := if c0 = NEWLINE then BLANK else c0,
     off_char := if c1 = NEWLINE then BLANK else c1, location := word_of_nat (row * 80 + col + 40)\<rparr>"

partial_function (option) add_row :: "'w user_calls \<Rightarrow> 'w poke \<Rightarrow> int \<Rightarrow> int \<Rightarrow> nat \<Rightarrow> nat \<Rightarrow> byte \<Rightarrow> bool \<Rightarrow> byte \<Rightarrow> bool \<Rightarrow>
    mp1_state \<Rightarrow> 'w \<Rightarrow> (bool \<times> bool \<times> mp1_state \<times> 'w) option" where
  "add_row c poke fd0 fd1 row col c0 eof0 c1 eof1 m w = do {
     (c0, eof0, w) \<leftarrow> next_char c fd0 c0 eof0 w;
     (c1, eof1, w) \<leftarrow> next_char c fd1 c1 eof1 w;
     if c0 = NEWLINE \<and> c1 = NEWLINE then Some (eof0, eof1, m, w)
     else do {
       (_, m, w) \<leftarrow> (if c0 \<noteq> BLANK \<and> c0 \<noteq> NEWLINE \<or> c1 \<noteq> BLANK \<and> c1 \<noteq> NEWLINE
         then mp1_ioctl_add poke (frame_blink row col c0 c1) m w else Some (0, m, w));
       add_row c poke fd0 fd1 row (Suc col) c0 eof0 c1 eof1 m w
     }
   }"

text \<open>The end of a row for one of the frames.\<close>

definition end_row :: "'w user_calls \<Rightarrow> int \<Rightarrow> bool \<Rightarrow> 'w \<Rightarrow> (byte \<times> 'w) option" where
  "end_row c fd eof w =
     (if eof then do { (_, w) \<leftarrow> ece391_close c fd w; Some (NEWLINE, w) } else Some (of_char CHR ''0'', w))"

partial_function (option) add_rows :: "'w user_calls \<Rightarrow> 'w poke \<Rightarrow> int \<Rightarrow> int \<Rightarrow> nat \<Rightarrow> byte \<Rightarrow> bool \<Rightarrow> byte \<Rightarrow> bool \<Rightarrow>
    mp1_state \<Rightarrow> 'w \<Rightarrow> (mp1_state \<times> 'w) option" where
  "add_rows c poke fd0 fd1 row c0 eof0 c1 eof1 m w =
     (if eof0 \<and> eof1 then Some (m, w)
      else do {
        (eof0, eof1, m, w) \<leftarrow> add_row c poke fd0 fd1 row 0 c0 eof0 c1 eof1 m w;
        (c0, w) \<leftarrow> end_row c fd0 eof0 w;
        (c1, w) \<leftarrow> end_row c fd1 eof1 w;
        add_rows c poke fd0 fd1 (Suc row) c0 eof0 c1 eof1 m w
      })"

text \<open>\<open>Inl\<close> is the call of halt with status -1.\<close>

definition add_frames :: "'w user_calls \<Rightarrow> 'w poke \<Rightarrow> carray \<Rightarrow> carray \<Rightarrow> mp1_state \<Rightarrow> 'w \<Rightarrow> ('w + mp1_state \<times> 'w) option" where
  "add_frames c poke f0 f1 m w = do {
     (fd0, w) \<leftarrow> ece391_open c f0 w;
     if fd0 < 0 then Some (Inl w)
     else do {
       (fd1, w) \<leftarrow> ece391_open c f1 w;
       if fd1 < 0 then Some (Inl w)
       else do {
         r \<leftarrow> add_rows c poke fd0 fd1 0 (of_char CHR ''0'') False (of_char CHR ''0'') False m w;
         Some (Inr r)
       }
     }
   }"

text \<open>One wait for the clock and the tick.\<close>

definition fish_tick :: "'w user_calls \<Rightarrow> 'w poke \<Rightarrow> int \<Rightarrow> nat \<Rightarrow> mp1_state \<times> 'w \<Rightarrow> (mp1_state \<times> 'w) option" where
  "fish_tick c poke rtc_fd i mw = do {
     let (m, w) = mw;
     (_, _, w) \<leftarrow> ece391_read c rtc_fd (\<lambda>_. NUL) 4 w;
     mp1_rtc_tasklet poke m w
   }"

text \<open>
  \<open>vmem\<close> is the address of the variable that vidmap fills in, \<open>fetch\<close> reads it, and \<open>poke\<close> stores a
  byte at an offset from its value.
\<close>

definition mp1_set_video_mode :: "'w user_calls \<Rightarrow> ('w \<Rightarrow> nat) \<Rightarrow> nat \<Rightarrow> 'w \<Rightarrow> (nat \<times> 'w) option" where
  "mp1_set_video_mode c fetch vmem w = do {
     (r, w) \<leftarrow> ece391_vidmap c vmem w;
     if r = -1 then Some (0, w) else Some (fetch w, w)
   }"

text \<open>The animation once the screen is mapped.\<close>

definition fish_show :: "'w user_calls \<Rightarrow> 'w poke \<Rightarrow> 'w \<Rightarrow> (int \<times> 'w) option" where
  "fish_show c poke w = do {
     (rtc_fd, w) \<leftarrow> ece391_open c (lit ''rtc'') w;
     r \<leftarrow> add_frames c poke (lit ''frame0.txt'') (lit ''frame1.txt'') mp1_start w;
     case r of Inl w \<Rightarrow> Some (-1, w)
     | Inr (m, w) \<Rightarrow> do {
         (_, w) \<leftarrow> ece391_write c rtc_fd (arr_of (bytes32 32)) 4 w;
         (m, w) \<leftarrow> for_each (fish_tick c poke rtc_fd) [0..<100] (m, w);
         let b = zero_blink\<lparr>on_char := of_char CHR ''I'', off_char := of_char CHR ''M'', on_length := 7, off_length := 6,
           location := 6 * 80 + 60\<rparr>;
         (_, m, w) \<leftarrow> mp1_ioctl_add poke b m w;
         (m, w) \<leftarrow> for_each (fish_tick c poke rtc_fd) [0..<100] (m, w);
         (_, m, w) \<leftarrow> mp1_ioctl_sync poke (push_bit 16 40 OR (6 * 80 + 60)) m w;
         (m, w) \<leftarrow> for_each (fish_tick c poke rtc_fd) [0..<100] (m, w);
         (_, m) \<leftarrow> mp1_ioctl_remove (6 * 80 + 60) m;
         (m, w) \<leftarrow> for_each (fish_tick c poke rtc_fd) [0..<100] (m, w);
         (_, w) \<leftarrow> ece391_close c rtc_fd w;
         Some (0, w)
       }
   }"

definition fish_main :: "'w user_calls \<Rightarrow> ('w \<Rightarrow> nat) \<Rightarrow> (nat \<Rightarrow> 'w poke) \<Rightarrow> nat \<Rightarrow> 'w \<Rightarrow> (int \<times> 'w) option" where
  "fish_main c fetch poke vmem w = do {
     (base, w) \<leftarrow> mp1_set_video_mode c fetch vmem w;
     if base = 0 then Some (-1, w) else fish_show c (poke base) w
   }"

section \<open>What the frames add\<close>

function frame_rows :: "byte list \<Rightarrow> byte list list" where
  "frame_rows bs = takeWhile (\<lambda>b. b \<noteq> NEWLINE) bs #
     (if NEWLINE \<in> set bs then frame_rows (tl (dropWhile (\<lambda>b. b \<noteq> NEWLINE) bs)) else [])"
  by pat_completeness auto
termination
proof (relation "measure length")
  fix bs :: "byte list"
  assume "NEWLINE \<in> set bs"
  then have "dropWhile (\<lambda>b. b \<noteq> NEWLINE) bs \<noteq> []" by (simp add: dropWhile_eq_Nil_conv)
  then show "(tl (dropWhile (\<lambda>b. b \<noteq> NEWLINE) bs), bs) \<in> measure length"
    using length_dropWhile_le [of "\<lambda>b. b \<noteq> NEWLINE" bs] by (cases "dropWhile (\<lambda>b. b \<noteq> NEWLINE) bs") auto
qed simp

declare frame_rows.simps [simp del]

definition visible_char :: "byte \<Rightarrow> bool" where
  "visible_char ch \<longleftrightarrow> ch \<noteq> BLANK \<and> ch \<noteq> NEWLINE"

definition cell_adds :: "nat \<Rightarrow> nat \<Rightarrow> byte \<Rightarrow> byte \<Rightarrow> request list" where
  "cell_adds row col x y = (if visible_char x \<or> visible_char y then [Add (frame_blink row col x y)] else [])"

fun row_adds :: "nat \<Rightarrow> nat \<Rightarrow> byte list \<Rightarrow> byte list \<Rightarrow> request list" where
  "row_adds row col [] [] = []"
| "row_adds row col (x # xs) [] = cell_adds row col x NEWLINE @ row_adds row (Suc col) xs []"
| "row_adds row col [] (y # ys) = cell_adds row col NEWLINE y @ row_adds row (Suc col) [] ys"
| "row_adds row col (x # xs) (y # ys) = cell_adds row col x y @ row_adds row (Suc col) xs ys"

fun frame_adds :: "nat \<Rightarrow> byte list list \<Rightarrow> byte list list \<Rightarrow> request list" where
  "frame_adds row [] [] = []"
| "frame_adds row (l # ls) [] = row_adds row 0 l [] @ frame_adds (Suc row) ls []"
| "frame_adds row [] (k # ks) = row_adds row 0 [] k @ frame_adds (Suc row) [] ks"
| "frame_adds row (l # ls) (k # ks) = row_adds row 0 l k @ frame_adds (Suc row) ls ks"

section \<open>The contract of the mapped screen\<close>

locale screen_program = user_system c ok obs emit
  for c :: "'w user_calls" and ok :: "'w \<Rightarrow> bool" and obs :: "'w \<Rightarrow> 'v user_view" and emit :: "byte \<Rightarrow> 'v \<Rightarrow> 'v" +
  fixes poke :: "'w poke" and draw :: "nat \<Rightarrow> byte \<Rightarrow> 'v \<Rightarrow> 'v"
  assumes poke_draws: "ok w \<Longrightarrow> off < 4000 \<Longrightarrow>
    returns (poke off ch w) (\<lambda>w'. ok w' \<and> obs w' = (obs w)\<lparr>shown := draw off ch (shown (obs w))\<rparr>)"

text \<open>The specification's store, on the screen alone.\<close>

definition drawing :: "(nat \<Rightarrow> byte \<Rightarrow> 'v \<Rightarrow> 'v) \<Rightarrow> 'v poke" where
  "drawing draw off ch v = Some (draw off ch v)"

section \<open>Reading a character\<close>

text \<open>The same on the bytes that are left; what is left of the line, of the file, and whether the file ends.\<close>

definition step_char :: "byte \<Rightarrow> bool \<Rightarrow> byte list \<Rightarrow> byte \<times> bool \<times> byte list" where
  "step_char ch eof r = (if ch = NEWLINE then (NEWLINE, eof, r) else case r of [] \<Rightarrow> (NEWLINE, True, []) | x # t \<Rightarrow> (x, eof, t))"

definition line_left :: "byte \<Rightarrow> byte list \<Rightarrow> byte list" where
  "line_left ch r = (if ch = NEWLINE then [] else takeWhile (\<lambda>b. b \<noteq> NEWLINE) r)"

definition file_left :: "byte \<Rightarrow> byte list \<Rightarrow> byte list" where
  "file_left ch r = (if ch = NEWLINE then r else tl (dropWhile (\<lambda>b. b \<noteq> NEWLINE) r))"

definition ends :: "byte \<Rightarrow> bool \<Rightarrow> byte list \<Rightarrow> bool" where
  "ends ch eof r \<longleftrightarrow> eof \<or> ch \<noteq> NEWLINE \<and> NEWLINE \<notin> set r"

lemma step_char_left:
  assumes "step_char ch eof r = (ch', eof', r')"
  shows "line_left ch r = (if ch' = NEWLINE then [] else ch' # line_left ch' r')"
    "file_left ch r = file_left ch' r'" "ends ch eof r = ends ch' eof' r'" "ch = NEWLINE \<Longrightarrow> r' = r \<and> ch' = NEWLINE \<and> eof' = eof"
  using assms by (auto simp: step_char_def line_left_def file_left_def ends_def split: if_splits list.splits)

lemma row_adds_step:
  "row_adds row col (if x = NEWLINE then [] else x # xs) (if y = NEWLINE then [] else y # ys) =
    (if x = NEWLINE \<and> y = NEWLINE then []
     else cell_adds row col x y @ row_adds row (Suc col) (if x = NEWLINE then [] else xs) (if y = NEWLINE then [] else ys))"
  by simp

lemma spec_requests_append:
  "spec_requests poke (ps @ qs) xs w =
    do { (rs, xs, w) \<leftarrow> spec_requests poke ps xs w; (ts, xs, w) \<leftarrow> spec_requests poke qs xs w; Some (rs @ ts, xs, w) }"
proof (induction ps arbitrary: xs w)
  case Nil
  show ?case by (cases "spec_requests poke qs xs w") auto
next
  case (Cons p ps)
  show ?case
  proof (cases "spec_request poke p xs w")
    case (Some r)
    then obtain x ys u where s: "spec_request poke p xs w = Some (x, ys, u)" by (cases r) auto
    then show ?thesis
      by (cases "spec_requests poke ps ys u") (auto simp: Cons.IH split: bind_splits prod.splits)
  qed simp
qed

lemma shown_update_simps [simp]:
  "desc_of (v\<lparr>shown := x\<rparr>) = desc_of v" "in_use (v\<lparr>shown := x\<rparr>) = in_use v" "std (v\<lparr>shown := x\<rparr>) = std v"
  "set_desc fd d (v\<lparr>shown := x\<rparr>) = (set_desc fd d v)\<lparr>shown := x\<rparr>" "descs (v\<lparr>shown := x\<rparr>) = descs v"
  by (simp_all add: desc_of_def in_use_def fun_eq_iff std_def set_desc_def)

text \<open>The descriptor of a frame after its line has been read.\<close>

definition read_to :: "int \<Rightarrow> byte \<Rightarrow> byte list \<Rightarrow> 'v user_view \<Rightarrow> 'v user_view" where
  "read_to fd ch r v = (if ch = NEWLINE then v else set_desc fd (File r) v)"

lemma read_to_step:
  assumes "nat fd0 \<noteq> nat fd1" "step_char c0 e0 r0 = (c0', e0', r0')" "step_char c1 e1 r1 = (c1', e1', r1')"
  shows "read_to fd1 c1' (file_left c1' r1') (read_to fd0 c0' (file_left c0' r0')
      ((read_to fd1 c1 r1' (read_to fd0 c0 r0' v))\<lparr>shown := x\<rparr>)) =
    (read_to fd1 c1 (file_left c1 r1) (read_to fd0 c0 (file_left c0 r0) v))\<lparr>shown := x\<rparr>"
  using assms(1) step_char_left(2,4) [OF assms(2)] step_char_left(2,4) [OF assms(3)]
  by (auto simp: read_to_def set_desc_def fun_upd_twist file_left_def)

context screen_program
begin

lemma next_char_shows:
  assumes "ok w" "ch \<noteq> NEWLINE \<longrightarrow> desc_of (obs w) fd = File r" "step_char ch eof r = (ch', eof', r')"
  shows "returns (next_char c fd ch eof w) (\<lambda>(a, b, w'). a = ch' \<and> b = eof' \<and> ok w' \<and>
    obs w' = (if ch = NEWLINE then obs w else set_desc fd (File r') (obs w)))"
proof (cases "ch = NEWLINE")
  case True
  then show ?thesis using assms by (simp add: next_char_def step_char_def)
next
  case False
  have "returns (ece391_read c fd (\<lambda>_. ch) 1 w) (\<lambda>(n, b, w'). n = int (length (take 1 r)) \<and> b = over (\<lambda>_. ch) (take 1 r) \<and>
      ok w' \<and> obs w' = set_desc fd (File (drop 1 r)) (obs w))"
    using read_file [OF assms(1), of fd r 1 "take 1 r"] assms(2) False by simp
  then show ?thesis
    using False assms(3) by (cases r) (auto simp: next_char_def step_char_def over_def elim!: returns_mono)
qed

lemma cell_shows:
  assumes "ok w" "shows_list m xs" "on_places (cell_adds row col x y)"
  shows "returns (if x \<noteq> BLANK \<and> x \<noteq> NEWLINE \<or> y \<noteq> BLANK \<and> y \<noteq> NEWLINE
      then mp1_ioctl_add poke (frame_blink row col x y) m w else Some (0, m, w))
    (\<lambda>(r, m', w'). ok w' \<and> (\<exists>rs ys v. spec_requests (drawing draw) (cell_adds row col x y) xs (shown (obs w)) = Some (rs, ys, v) \<and>
      shows_list m' ys \<and> obs w' = (obs w)\<lparr>shown := v\<rparr>))"
proof (cases "visible_char x \<or> visible_char y")
  case False
  then show ?thesis using assms(1,2) by (auto simp: cell_adds_def visible_char_def)
next
  case True
  let ?b = "frame_blink row col x y"
  have "location ?b \<noteq> 0" using assms(3) True by (simp add: on_places_def cell_adds_def)
  note add = add_implements [OF assms(2) this, of poke w]
  show ?thesis
  proof (cases "location ?b \<ge> 80 * 25 \<or> length xs = SLOTS")
    case no: True
    then have "spec_request poke (Add ?b) xs u = Some (-1, xs, u)" "spec_request (drawing draw) (Add ?b) xs v = Some (-1, xs, v)" for u v
      by (auto simp: spec_request_def)
    then show ?thesis using add True assms(1) by (auto simp: implements_def cell_adds_def visible_char_def)
  next
    case yes: False
    then have "2 * unat (location ?b) < 4000" by (simp add: not_le word_less_nat_alt)
    from poke_draws [OF assms(1) this, of "on_char ?b"]
    obtain u where u: "mp1_poke poke (location ?b) (on_char ?b) w = Some u" "ok u"
      "obs u = (obs w)\<lparr>shown := draw (2 * unat (location ?b)) (on_char ?b) (shown (obs w))\<rparr>"
      by (auto simp: mp1_poke_def returns_iff)
    then show ?thesis using add True yes
      by (auto simp: implements_def cell_adds_def visible_char_def spec_request_def mp1_poke_def drawing_def)
  qed
qed

lemma add_row_shows:
  assumes "nat fd0 \<noteq> nat fd1"
    and "ok w" "shows_list m xs" "c0 \<noteq> NEWLINE \<longrightarrow> desc_of (obs w) fd0 = File r0" "c1 \<noteq> NEWLINE \<longrightarrow> desc_of (obs w) fd1 = File r1"
    and "on_places (row_adds row col (line_left c0 r0) (line_left c1 r1))"
  shows "returns (add_row c poke fd0 fd1 row col c0 e0 c1 e1 m w) (\<lambda>(a, b, m', w'). a = ends c0 e0 r0 \<and> b = ends c1 e1 r1 \<and> ok w' \<and>
    (\<exists>rs ys v. spec_requests (drawing draw) (row_adds row col (line_left c0 r0) (line_left c1 r1)) xs (shown (obs w)) = Some (rs, ys, v) \<and>
      shows_list m' ys \<and> obs w' = (read_to fd1 c1 (file_left c1 r1) (read_to fd0 c0 (file_left c0 r0) (obs w)))\<lparr>shown := v\<rparr>))"
  using assms(2-6)
proof (induction "length (line_left c0 r0) + length (line_left c1 r1)" arbitrary: col c0 e0 r0 c1 e1 r1 m xs w rule: less_induct)
  case less
  have ne: "fd0 \<noteq> fd1" using assms(1) by blast
  obtain c0' e0' r0' where s0: "step_char c0 e0 r0 = (c0', e0', r0')" by (cases "step_char c0 e0 r0") auto
  obtain c1' e1' r1' where s1: "step_char c1 e1 r1 = (c1', e1', r1')" by (cases "step_char c1 e1 r1") auto
  note l0 = step_char_left [OF s0] and l1 = step_char_left [OF s1]
  let ?v = "read_to fd1 c1 r1' (read_to fd0 c0 r0' (obs w))"
  have n0: "returns (next_char c fd0 c0 e0 w) (\<lambda>(a, b, w'). a = c0' \<and> b = e0' \<and> ok w' \<and> obs w' = read_to fd0 c0 r0' (obs w))"
    using next_char_shows [OF less.prems(1,3) s0] by (simp add: read_to_def)
  have n1: "returns (next_char c fd1 c1 e1 u) (\<lambda>(a, b, w'). a = c1' \<and> b = e1' \<and> ok w' \<and> obs w' = ?v)"
    if "ok u" "obs u = read_to fd0 c0 r0' (obs w)" for u
    using next_char_shows [OF that(1), of c1 fd1 r1, OF _ s1] that(2) less.prems(3,4) ne by (auto simp: read_to_def)
  have d: "c0' \<noteq> NEWLINE \<longrightarrow> desc_of ?v fd0 = File r0'" "c1' \<noteq> NEWLINE \<longrightarrow> desc_of ?v fd1 = File r1'" "shown ?v = shown (obs w)"
    using less.prems(3,4) ne l0(4) l1(4) by (auto simp: read_to_def)
  let ?adds = "row_adds row col (line_left c0 r0) (line_left c1 r1)"
  have adds: "?adds = (if c0' = NEWLINE \<and> c1' = NEWLINE then []
      else cell_adds row col c0' c1' @ row_adds row (Suc col) (line_left c0' r0') (line_left c1' r1'))"
    unfolding l0(1) l1(1) row_adds_step by (simp add: line_left_def)
  show ?case
  proof (cases "c0' = NEWLINE \<and> c1' = NEWLINE")
    case True
    have "file_left c0 r0 = r0'" "file_left c1 r1 = r1'" "ends c0 e0 r0 = e0'" "ends c1 e1 r1 = e1'"
      using True l0(2,3) l1(2,3) by (simp_all add: file_left_def ends_def)
    then show ?thesis
      using True adds less.prems(2) d(3)
      by (subst add_row.simps) (auto intro!: returns_mono [OF n0] returns_mono [OF n1] simp: user_view.surjective)
  next
    case False
    have places: "on_places (cell_adds row col c0' c1')" "on_places (row_adds row (Suc col) (line_left c0' r0') (line_left c1' r1'))"
      using less.prems(5) adds False by (auto simp: on_places_def)
    have rest: "returns (add_row c poke fd0 fd1 row (Suc col) c0' e0' c1' e1' m' u') (\<lambda>(a, b, m', w'). a = ends c0 e0 r0 \<and> b = ends c1 e1 r1 \<and> ok w' \<and>
        (\<exists>rs ys v. spec_requests (drawing draw) ?adds xs (shown (obs w)) = Some (rs, ys, v) \<and> shows_list m' ys \<and>
          obs w' = (read_to fd1 c1 (file_left c1 r1) (read_to fd0 c0 (file_left c0 r0) (obs w)))\<lparr>shown := v\<rparr>))"
      if u: "ok u'" "spec_requests (drawing draw) (cell_adds row col c0' c1') xs (shown (obs w)) = Some (rs, ys, v)" "shows_list m' ys"
        "obs u' = ?v\<lparr>shown := v\<rparr>" for u' m' rs ys v
    proof -
      have "length (line_left c0' r0') + length (line_left c1' r1') < length (line_left c0 r0) + length (line_left c1 r1)"
        using False l0(1) l1(1) by (auto simp: line_left_def)
      from less.hyps [OF this u(1,3) _ _ places(2), of e0' e1'] d u(4)
      have IH: "returns (add_row c poke fd0 fd1 row (Suc col) c0' e0' c1' e1' m' u') (\<lambda>(a, b, m'', w'). a = ends c0' e0' r0' \<and> b = ends c1' e1' r1' \<and> ok w' \<and>
          (\<exists>rs' ys' v'. spec_requests (drawing draw) (row_adds row (Suc col) (line_left c0' r0') (line_left c1' r1')) ys v = Some (rs', ys', v') \<and>
            shows_list m'' ys' \<and> obs w' = (read_to fd1 c1' (file_left c1' r1') (read_to fd0 c0' (file_left c0' r0') (?v\<lparr>shown := v\<rparr>)))\<lparr>shown := v'\<rparr>))"
        by simp
      note view = read_to_step [OF assms(1) s0 s1, where v = "obs w" and x = v]
      show ?thesis
        using adds False u(2) l0(3) l1(3) by (auto intro!: returns_mono [OF IH] simp: spec_requests_append view)
    qed
    have cell: "returns (if c0' \<noteq> BLANK \<and> c0' \<noteq> NEWLINE \<or> c1' \<noteq> BLANK \<and> c1' \<noteq> NEWLINE
        then mp1_ioctl_add poke (frame_blink row col c0' c1') m u else Some (0, m, u))
      (\<lambda>(r, m', w'). ok w' \<and> (\<exists>rs ys v. spec_requests (drawing draw) (cell_adds row col c0' c1') xs (shown (obs w)) = Some (rs, ys, v) \<and>
        shows_list m' ys \<and> obs w' = ?v\<lparr>shown := v\<rparr>))" if "ok u" "obs u = ?v" for u
      using cell_shows [OF that(1) less.prems(2) places(1)] that(2) d(3) by simp
    have go: "returns (if c0' = NEWLINE \<and> c1' = NEWLINE then Some (e0', e1', m, u)
          else do {
            (_, m, w) \<leftarrow> (if c0' \<noteq> BLANK \<and> c0' \<noteq> NEWLINE \<or> c1' \<noteq> BLANK \<and> c1' \<noteq> NEWLINE
              then mp1_ioctl_add poke (frame_blink row col c0' c1') m u else Some (0, m, u));
            add_row c poke fd0 fd1 row (Suc col) c0' e0' c1' e1' m w
          }) (\<lambda>(a, b, m', w'). a = ends c0 e0 r0 \<and> b = ends c1 e1 r1 \<and> ok w' \<and>
        (\<exists>rs ys v. spec_requests (drawing draw) ?adds xs (shown (obs w)) = Some (rs, ys, v) \<and> shows_list m' ys \<and>
          obs w' = (read_to fd1 c1 (file_left c1 r1) (read_to fd0 c0 (file_left c0 r0) (obs w)))\<lparr>shown := v\<rparr>))"
      if "ok u" "obs u = ?v" for u
      unfolding if_not_P [OF False] returns_bind by (rule returns_mono [OF cell [OF that]], clarify, rule rest)
    show ?thesis
      by (subst add_row.simps, unfold returns_bind, rule returns_mono [OF n0], clarify, unfold returns_bind,
          rule returns_mono [OF n1], assumption, assumption, clarify, rule go)
  qed
qed

end

section \<open>The rows\<close>

abbreviation ZERO :: byte where "ZERO \<equiv> of_char CHR ''0''"

text \<open>The character a frame starts a row with, and the rows it has left.\<close>

definition start_char :: "bool \<Rightarrow> byte" where
  "start_char eof = (if eof then NEWLINE else ZERO)"

definition rows_left :: "bool \<Rightarrow> byte list \<Rightarrow> byte list list" where
  "rows_left eof r = (if eof then [] else frame_rows r)"

lemma rows_left_Nil [simp]: "rows_left eof r = [] \<longleftrightarrow> eof"
  unfolding rows_left_def by (subst frame_rows.simps) simp

lemma rows_left_True [simp]: "rows_left True r = []"
  by (simp add: rows_left_def)

lemma rows_left_step:
  "rows_left eof r = (if eof then []
     else line_left (start_char eof) r # rows_left (ends (start_char eof) eof r) (file_left (start_char eof) r))"
  by (subst (1) rows_left_def, subst frame_rows.simps)
    (auto simp: rows_left_def start_char_def line_left_def file_left_def ends_def)

lemma frame_adds_step:
  assumes "\<not> (e0 \<and> e1)"
  shows "frame_adds row (rows_left e0 r0) (rows_left e1 r1) =
    row_adds row 0 (line_left (start_char e0) r0) (line_left (start_char e1) r1) @
    frame_adds (Suc row) (rows_left (ends (start_char e0) e0 r0) (file_left (start_char e0) r0))
      (rows_left (ends (start_char e1) e1 r1) (file_left (start_char e1) r1))"
proof -
  have fin: "rows_left True r = []" "line_left (start_char True) r = []" "ends (start_char True) True r" for r
    by (simp_all add: rows_left_def line_left_def start_char_def ends_def)
  have cont: "rows_left False r = line_left (start_char False) r # rows_left (ends (start_char False) False r) (file_left (start_char False) r)" for r
    by (subst rows_left_step) simp
  show ?thesis
    using assms by (cases e0; cases e1) (simp_all add: fin cont)
qed

section \<open>Descriptors\<close>

lemma in_use_close:
  assumes "k < 8" "descs v k \<noteq> Closed"
  shows "in_use v = in_use (set_desc (int k) Closed v) + 1"
proof -
  define X where "X = {i. i < 8 \<and> descs (set_desc (int k) Closed v) i \<noteq> Closed}"
  have "{i. i < 8 \<and> descs v i \<noteq> Closed} = insert k X" "k \<notin> X" "finite X" using assms by (auto simp: X_def)
  moreover have "in_use (set_desc (int k) Closed v) = int (card X)" unfolding in_use_def X_def ..
  ultimately show ?thesis by (simp add: in_use_def)
qed

lemma close_above:
  assumes "fd0 < fd1" "desc_of v fd0 \<noteq> Closed"
  shows "desc_of (snd (spec_close fd1 v)) fd0 = desc_of v fd0"
proof (cases "2 \<le> fd1 \<and> desc_of v fd1 \<noteq> Closed")
  case True
  define k where "k = nat fd1"
  have k: "fd1 = int k" using True by (simp add: k_def)
  have "desc_of v (int k) \<noteq> Closed" using True k by blast
  from desc_of_open [OF this] this have o: "fd1 < in_use v" "k < 8" "descs v k \<noteq> Closed" unfolding k by auto
  have "in_use (set_desc fd1 Closed v) = in_use v - 1" using in_use_close [OF o(2,3)] k by simp
  moreover have p: "0 \<le> fd0" "fd0 < in_use v" using desc_of_open [OF assms(2)] by simp_all
  moreover have "nat fd0 \<noteq> k" using assms(1) k p(1) by auto
  ultimately show ?thesis
    using True o(1) assms(1) k by (simp add: spec_close_def desc_of_def)
qed (auto simp: spec_close_def)

lemma close_fields [simp]: "shown (snd (spec_close fd v)) = shown v"
  by (simp add: spec_close_def)

text \<open>No open descriptor above a closed one.\<close>

definition dense :: "'v user_view \<Rightarrow> bool" where
  "dense v \<longleftrightarrow> (\<forall>i < 8. in_use v \<le> int i \<longrightarrow> descs v i = Closed)"

lemma dense_open:
  assumes "dense v" "i < 8"
  shows "descs v i \<noteq> Closed \<longleftrightarrow> int i < in_use v"
proof -
  define X where "X = {i. i < 8 \<and> descs v i \<noteq> Closed}"
  have "X \<subseteq> {..<nat (in_use v)}" using assms(1) by (auto simp: dense_def X_def not_le)
  moreover have "card X = nat (in_use v)" by (simp add: in_use_def X_def)
  ultimately have X: "X = {..<nat (in_use v)}" by (intro card_subset_eq) simp_all
  have "i \<in> X \<longleftrightarrow> descs v i \<noteq> Closed" using assms(2) by (simp add: X_def)
  then show ?thesis unfolding X by auto
qed

lemma next_desc_least:
  assumes "2 \<le> j" "j < 8" "descs v j = Closed"
  shows "next_desc v \<le> j"
proof -
  have "j \<in> set (filter (\<lambda>i. descs v i = Closed) [2..<8])" using assms by (simp del: upt_conv_Cons upt_rec_numeral)
  then obtain x xs where f: "filter (\<lambda>i. descs v i = Closed) [2..<8] = x # xs" "j \<in> set (x # xs)"
    by (metis list.exhaust list.set(1) empty_iff)
  have "sorted (x # xs)" unfolding f(1) [symmetric] by (intro sorted_wrt_filter sorted_upt) 
  then have "x \<le> j" using f(2) by auto
  then show ?thesis by (simp add: next_desc_def f(1) del: upt_conv_Cons upt_rec_numeral)
qed

lemma dense_next:
  assumes "dense v" "std v" "in_use v < 8"
  shows "int (next_desc v) = in_use v" "d \<noteq> Closed \<Longrightarrow> dense (set_desc (int (next_desc v)) d v)"
proof -
  note n = next_desc_free [OF assms(2,3)]
  have "\<not> int (next_desc v) < in_use v" using dense_open [OF assms(1) n(2)] n(3) by blast
  then show e: "int (next_desc v) = in_use v" using n(4) by simp
  assume d: "d \<noteq> Closed"
  show "dense (set_desc (int (next_desc v)) d v)"
    unfolding dense_def opened_desc(1) [OF assms(2,3) d refl]
    using assms(1) e by (auto simp: dense_def)
qed

text \<open>The descriptors other than those of the frames.\<close>

definition others :: "int \<Rightarrow> int \<Rightarrow> 'v user_view \<Rightarrow> 'v user_view \<Rightarrow> bool" where
  "others fd0 fd1 v v' \<longleftrightarrow> (\<forall>i. i \<noteq> nat fd0 \<longrightarrow> i \<noteq> nat fd1 \<longrightarrow> descs v' i = descs v i)"

lemma others_intros:
  "others fd0 fd1 v v" "others fd0 fd1 v v1 \<Longrightarrow> others fd0 fd1 v1 v2 \<Longrightarrow> others fd0 fd1 v v2"
  "others fd0 fd1 v v1 \<Longrightarrow> others fd0 fd1 v (snd (spec_close fd0 v1))" "others fd0 fd1 v v1 \<Longrightarrow> others fd0 fd1 v (snd (spec_close fd1 v1))"
  "others fd0 fd1 v v1 \<Longrightarrow> others fd0 fd1 v (read_to fd0 ch r v1)" "others fd0 fd1 v v1 \<Longrightarrow> others fd0 fd1 v (read_to fd1 ch r v1)"
  "others fd0 fd1 v v1 \<Longrightarrow> others fd0 fd1 v (v1\<lparr>shown := x\<rparr>)"
  by (auto simp: others_def spec_close_def read_to_def)

context screen_program
begin

lemma end_row_shows:
  assumes "ok w" "is_int32 fd"
  shows "returns (end_row c fd eof w) (\<lambda>(ch, w'). ch = start_char eof \<and> ok w' \<and> obs w' = (if eof then snd (spec_close fd (obs w)) else obs w))"
  using close_desc [OF assms] assms(1)
  by (cases "spec_close fd (obs w)") (auto simp: end_row_def start_char_def elim!: returns_mono)

lemma add_rows_shows:
  assumes "fd0 < fd1" "0 \<le> fd0" "fd1 < 8"
    and "ok w" "shows_list m xs" "\<not> e0 \<longrightarrow> desc_of (obs w) fd0 = File r0" "\<not> e1 \<longrightarrow> desc_of (obs w) fd1 = File r1"
    and "on_places (frame_adds row (rows_left e0 r0) (rows_left e1 r1))" "length (rows_left e1 r1) \<le> length (rows_left e0 r0)"
  shows "returns (add_rows c poke fd0 fd1 row (start_char e0) e0 (start_char e1) e1 m w) (\<lambda>(m', w'). ok w' \<and>
    (\<exists>rs ys v. spec_requests (drawing draw) (frame_adds row (rows_left e0 r0) (rows_left e1 r1)) xs (shown (obs w)) = Some (rs, ys, v) \<and>
      shows_list m' ys \<and> shown (obs w') = v) \<and> others fd0 fd1 (obs w) (obs w'))"
  using assms(4-)
proof (induction "length (rows_left e0 r0)" arbitrary: row e0 r0 e1 r1 m xs w rule: less_induct)
  case less
  show ?case
  proof (cases "e0 \<and> e1")
    case True
    then show ?thesis using less.prems(1,2) by (subst add_rows.simps) (auto simp: rows_left_def others_intros)
  next
    case False
    have int: "is_int32 fd0" "is_int32 fd1" "nat fd0 \<noteq> nat fd1" using assms(1-3) by (simp_all add: is_int32_def)
    have e0: "\<not> e0"
    proof
      assume "e0"
      with less.prems(6) have "length (rows_left e1 r1) = 0" by (simp add: rows_left_def)
      with False \<open>e0\<close> show False by simp
    qed
    let ?c0 = "start_char e0" and ?c1 = "start_char e1"
    define f0 f1 where "f0 = ends ?c0 e0 r0" and "f1 = ends ?c1 e1 r1"
    define s0 s1 where "s0 = file_left ?c0 r0" and "s1 = file_left ?c1 r1"
    note step = frame_adds_step [OF False, of row r0 r1, folded f0_def f1_def s0_def s1_def]
    have rows: "rows_left e0 r0 = line_left ?c0 r0 # rows_left f0 s0" "\<not> e1 \<Longrightarrow> rows_left e1 r1 = line_left ?c1 r1 # rows_left f1 s1"
      "e1 \<Longrightarrow> rows_left f1 s1 = []"
      using e0 rows_left_step [of e0 r0] rows_left_step [of e1 r1] by (simp_all add: f0_def f1_def s0_def s1_def rows_left_def ends_def)
    have shorter: "length (rows_left f1 s1) \<le> length (rows_left f0 s0)"
      using less.prems(6) rows by (cases e1) simp_all
    then have f: "f0 \<Longrightarrow> f1" by (cases f0) simp_all
    let ?p0 = "row_adds row 0 (line_left ?c0 r0) (line_left ?c1 r1)" and ?p1 = "frame_adds (Suc row) (rows_left f0 s0) (rows_left f1 s1)"
    have places: "on_places ?p0" "on_places ?p1" using less.prems(5) unfolding step by (auto simp: on_places_def)
    have st: "?c0 \<noteq> NEWLINE \<longrightarrow> desc_of (obs w) fd0 = File r0" "?c1 \<noteq> NEWLINE \<longrightarrow> desc_of (obs w) fd1 = File r1"
      using less.prems(3,4) by (simp_all add: start_char_def)
    note row = add_row_shows [OF int(3) less.prems(1,2) st places(1), of e0 e1, folded f0_def f1_def s0_def s1_def]
    let ?v = "read_to fd1 ?c1 s1 (read_to fd0 ?c0 s0 (obs w))"
    have d: "desc_of ?v fd0 = File s0" "\<not> e1 \<Longrightarrow> desc_of ?v fd1 = File s1"
      using e0 less.prems(3,4) assms(1) by (auto simp: read_to_def start_char_def)
    let ?Q = "\<lambda>(m', w'). ok w' \<and> (\<exists>rs ys v. spec_requests (drawing draw) (?p0 @ ?p1) xs (shown (obs w)) = Some (rs, ys, v) \<and>
      shows_list m' ys \<and> shown (obs w') = v) \<and> others fd0 fd1 (obs w) (obs w')"
    have rest: "returns (add_rows c poke fd0 fd1 (Suc row) (start_char f0) f0 (start_char f1) f1 m' u) ?Q"
      if u: "ok u" "shows_list m' ys" "spec_requests (drawing draw) ?p0 xs (shown (obs w)) = Some (rs, ys, v)" "shown (obs u) = v"
        "\<not> f0 \<longrightarrow> desc_of (obs u) fd0 = File s0" "\<not> f1 \<longrightarrow> desc_of (obs u) fd1 = File s1" "others fd0 fd1 (obs w) (obs u)" for m' u rs ys v
    proof -
      have "length (rows_left f0 s0) < length (rows_left e0 r0)" using rows(1) by simp
      from less.hyps [OF this u(1,2,5,6) places(2) shorter] u(4)
      have IH: "returns (add_rows c poke fd0 fd1 (Suc row) (start_char f0) f0 (start_char f1) f1 m' u) (\<lambda>(m', w'). ok w' \<and>
          (\<exists>rs zs v'. spec_requests (drawing draw) ?p1 ys v = Some (rs, zs, v') \<and> shows_list m' zs \<and> shown (obs w') = v') \<and>
          others fd0 fd1 (obs u) (obs w'))"
        by simp
      show ?thesis
      proof (rule returns_mono [OF IH], clarify, goal_cases)
        case 1
        then show ?case using u(3) others_intros(2) [OF u(7)] by (simp add: spec_requests_append)
      qed
    qed
    have closes: "returns (do { (c0, w) \<leftarrow> end_row c fd0 f0 u; (c1, w) \<leftarrow> end_row c fd1 f1 w; add_rows c poke fd0 fd1 (Suc row) c0 f0 c1 f1 m' w }) ?Q"
      if u: "ok u" "shows_list m' ys" "spec_requests (drawing draw) ?p0 xs (shown (obs w)) = Some (rs, ys, v)" "obs u = ?v\<lparr>shown := v\<rparr>" for m' u rs ys v
    proof -
      have a: "returns (end_row c fd0 f0 u) (\<lambda>(ch, t). ch = start_char f0 \<and> ok t \<and> obs t = (if f0 then snd (spec_close fd0 (obs u)) else obs u))"
        by (rule end_row_shows [OF u(1) int(1)])
      have b: "returns (end_row c fd1 f1 t) (\<lambda>(ch, t'). ch = start_char f1 \<and> ok t' \<and> obs t' = (if f1 then snd (spec_close fd1 (obs t)) else obs t))"
        if "ok t" for t by (rule end_row_shows [OF that int(2)])
      have last: "returns (add_rows c poke fd0 fd1 (Suc row) (start_char f0) f0 (start_char f1) f1 m' t') ?Q"
        if t: "obs t = (if f0 then snd (spec_close fd0 (obs u)) else obs u)" "ok t'" "obs t' = (if f1 then snd (spec_close fd1 (obs t)) else obs t)" for t t'
      proof (rule rest [OF t(2) u(2,3)])
        show "shown (obs t') = v" using t u(4) by simp
        show "\<not> f0 \<longrightarrow> desc_of (obs t') fd0 = File s0" using t u(4) d(1) close_above [OF assms(1), of "obs u"] by auto
        have a: "others fd0 fd1 (obs w) (obs u)" unfolding u(4) by (rule others_intros(7), rule others_intros(6), rule others_intros(5), rule others_intros(1))
        have b: "others fd0 fd1 (obs w) (obs t)" using others_intros(3) [OF a] a by (simp add: t(1))
        show "others fd0 fd1 (obs w) (obs t')" using others_intros(4) [OF b] b by (simp add: t(3))
        have "f1 \<or> \<not> e1" by (auto simp: f1_def ends_def)
        then show "\<not> f1 \<longrightarrow> desc_of (obs t') fd1 = File s1" using t u(4) d(2) f by auto
      qed
      show ?thesis
        by (unfold returns_bind, rule returns_mono [OF a], clarify, unfold returns_bind, rule returns_mono [OF b], assumption, clarify, rule last)
    qed
    show ?thesis
      unfolding step
      by (subst add_rows.simps, unfold if_not_P [OF False] returns_bind, rule returns_mono [OF row], clarify, rule closes)
  qed
qed

end

section \<open>A frame that cannot be read to its end\<close>

context screen_program
begin

lemma add_keeps:
  assumes "mp1_ioctl_add poke b m w = Some (r, m', w')" "ok w"
  shows "ok w' \<and> desc_of (obs w') = desc_of (obs w)"
proof (cases "location b \<ge> 80 * 25")
  case True
  then show ?thesis using assms by (simp add: mp1_ioctl_add_def)
next
  case False
  then have "2 * unat (location b) < 4000" by (simp add: not_le word_less_nat_alt)
  from poke_draws [OF assms(2) this, of "on_char b"] show ?thesis
    using assms False by (auto simp: mp1_ioctl_add_def mp1_poke_def Let_def returns_iff bind_eq_Some_conv split: option.splits)
qed

lemma closed_char:
  assumes "ok w" "is_int32 fd" "desc_of (obs w) fd = Closed" "ch \<noteq> NEWLINE"
  shows "returns (next_char c fd ch eof w) (\<lambda>(a, b, w'). a = ch \<and> b = eof \<and> ok w' \<and> obs w' = obs w)"
  using read_refused [OF assms(1,2), of 1 "\<lambda>_. ch"] assms(3,4) by (auto simp: next_char_def elim!: returns_mono)

text \<open>One frame is at its end and the other's descriptor is refused: the row does not end.\<close>

lemma add_row_hangs:
  assumes "ok w" "is_int32 fd1" "desc_of (obs w) fd1 = Closed" "c1 \<noteq> NEWLINE"
  shows "add_row c poke fd0 fd1 row col NEWLINE e0 c1 e1 m w = None"
proof (rule ccontr)
  let ?bad = "\<lambda>d p fd c0 c1 w. d = c \<and> p = poke \<and> is_int32 fd \<and> ok w \<and> desc_of (obs w) fd = Closed \<and> c0 = NEWLINE \<and> c1 \<noteq> NEWLINE"
  assume "add_row c poke fd0 fd1 row col NEWLINE e0 c1 e1 m w \<noteq> None"
  then obtain r where "add_row c poke fd0 fd1 row col NEWLINE e0 c1 e1 m w = Some r" by auto
  then have "?bad c poke fd1 NEWLINE c1 w \<longrightarrow> False"
  proof (rule add_row.raw_induct [where P = "\<lambda>d p fd0 fd1 row col c0 e0 c1 e1 m w r. ?bad d p fd1 c0 c1 w \<longrightarrow> False", rotated])
    fix loop :: "'w user_calls \<Rightarrow> 'w poke \<Rightarrow> int \<Rightarrow> int \<Rightarrow> nat \<Rightarrow> nat \<Rightarrow> byte \<Rightarrow> bool \<Rightarrow> byte \<Rightarrow> bool \<Rightarrow> mp1_state \<Rightarrow> 'w \<Rightarrow>
        (bool \<times> bool \<times> mp1_state \<times> 'w) option"
      and d p fd0 fd1 row col c0 e0 c1 e1 m w r
    assume IH: "\<And>d p fd0 fd1 row col c0 e0 c1 e1 m w r. loop d p fd0 fd1 row col c0 e0 c1 e1 m w = Some r \<Longrightarrow> ?bad d p fd1 c0 c1 w \<longrightarrow> False"
      and eq: "do {
        (c0, eof0, w) \<leftarrow> next_char d fd0 c0 e0 w;
        (c1, eof1, w) \<leftarrow> next_char d fd1 c1 e1 w;
        if c0 = NEWLINE \<and> c1 = NEWLINE then Some (eof0, eof1, m, w)
        else do {
          (_, m, w) \<leftarrow> (if c0 \<noteq> BLANK \<and> c0 \<noteq> NEWLINE \<or> c1 \<noteq> BLANK \<and> c1 \<noteq> NEWLINE
            then mp1_ioctl_add p (frame_blink row col c0 c1) m w else Some (0, m, w));
          loop d p fd0 fd1 row (Suc col) c0 eof0 c1 eof1 m w
        } } = Some r"
    show "?bad d p fd1 c0 c1 w \<longrightarrow> False"
    proof
      assume b: "?bad d p fd1 c0 c1 w"
      then have "next_char d fd0 c0 e0 w = Some (NEWLINE, e0, w)" by (simp add: next_char_def)
      moreover from b closed_char [of w fd1 c1 e1] obtain u where u: "next_char d fd1 c1 e1 w = Some (c1, e1, u)" "ok u" "obs u = obs w"
        by (auto simp: returns_iff)
      ultimately obtain x m' w' where a: "(if NEWLINE \<noteq> BLANK \<and> NEWLINE \<noteq> NEWLINE \<or> c1 \<noteq> BLANK \<and> c1 \<noteq> NEWLINE
          then mp1_ioctl_add p (frame_blink row col NEWLINE c1) m u else Some (0, m, u)) = Some (x, m', w')"
        and l: "loop d p fd0 fd1 row (Suc col) NEWLINE e0 c1 e1 m' w' = Some r"
        using eq b by (auto simp: bind_eq_Some_conv split: if_splits)
      have "ok w' \<and> desc_of (obs w') fd1 = Closed"
        using a b u(2,3) add_keeps [of "frame_blink row col NEWLINE c1" m u x m' w'] by (auto split: if_splits)
      then show False using IH [OF l] b by blast
    qed
  qed
  then show False using assms by blast
qed

lemma add_rows_hangs:
  assumes "fd0 < fd1" "2 \<le> fd0" "fd1 < 8"
    and "ok w" "shows_list m xs" "desc_of (obs w) fd0 = File r0" "desc_of (obs w) fd1 = File r1" "in_use (obs w) \<le> fd1 + 1"
    and "on_places (frame_adds row (frame_rows r0) (frame_rows r1))" "length (frame_rows r0) < length (frame_rows r1)"
  shows "add_rows c poke fd0 fd1 row ZERO False ZERO False m w = None"
  using assms(4-)
proof (induction "length (frame_rows r0)" arbitrary: row r0 r1 m xs w rule: less_induct)
  case less
  have int: "is_int32 fd0" "is_int32 fd1" "nat fd0 \<noteq> nat fd1" using assms(1-3) by (simp_all add: is_int32_def)
  have rl: "rows_left False r = frame_rows r" "start_char False = ZERO" for r by (simp_all add: rows_left_def start_char_def)
  define f0 f1 where "f0 = ends ZERO False r0" and "f1 = ends ZERO False r1"
  define s0 s1 where "s0 = file_left ZERO r0" and "s1 = file_left ZERO r1"
  note step = frame_adds_step [of False False row r0 r1, unfolded rl, folded f0_def f1_def s0_def s1_def]
  have rows: "frame_rows r0 = line_left ZERO r0 # rows_left f0 s0" "frame_rows r1 = line_left ZERO r1 # rows_left f1 s1"
    using rows_left_step [of False] by (simp_all add: rl f0_def f1_def s0_def s1_def)
  then have shorter: "length (rows_left f0 s0) < length (rows_left f1 s1)" using less.prems(7) by simp
  then have f: "\<not> f1" by (cases f1) simp_all
  let ?p0 = "row_adds row 0 (line_left ZERO r0) (line_left ZERO r1)" and ?p1 = "frame_adds (Suc row) (rows_left f0 s0) (rows_left f1 s1)"
  have places: "on_places ?p0" "on_places ?p1" using less.prems(6) step by (auto simp: on_places_def)
  let ?v = "set_desc fd1 (File s1) (set_desc fd0 (File s0) (obs w))"
  have o: "desc_of (obs w) fd0 \<noteq> Closed" "desc_of (obs w) fd1 \<noteq> Closed" "fd0 \<noteq> fd1" using less.prems(3,4) assms(1) by simp_all
  have u1: "in_use (set_desc fd0 (File s0) (obs w)) = in_use (obs w)" by (rule in_use_set_desc [OF o(1)]) simp
  have "in_use ?v = in_use (set_desc fd0 (File s0) (obs w))" using o by (intro in_use_set_desc) simp_all
  then have v: "desc_of ?v fd0 = File s0" "desc_of ?v fd1 = File s1" "in_use ?v \<le> fd1 + 1" using o u1 less.prems(5) by simp_all
  from add_row_shows [OF int(3) less.prems(1,2) _ _ places(1), of False False] less.prems(3,4)
  obtain m' u rs ys x where row: "add_row c poke fd0 fd1 row 0 ZERO False ZERO False m w = Some (f0, f1, m', u)" "ok u" "shows_list m' ys"
    "obs u = ?v\<lparr>shown := x\<rparr>"
    by (auto simp: returns_iff read_to_def f0_def f1_def s0_def s1_def)
  show ?case
  proof (cases f0)
    case True
    from end_row_shows [OF row(2) int(1), of True] obtain t where t: "end_row c fd0 True u = Some (NEWLINE, t)" "ok t"
      "obs t = snd (spec_close fd0 (obs u))"
      by (auto simp: returns_iff start_char_def)
    define k where "k = nat fd0"
    have k: "fd0 = int k" "k < 8" "descs (obs u) k \<noteq> Closed"
      using desc_of_open [of "obs u" fd0] v(1) row(4) assms(1-3) by (simp_all add: k_def)
    have "spec_close fd0 (obs u) = (0, set_desc fd0 Closed (obs u))" using v(1) row(4) assms(2) by (simp add: spec_close_def)
    then have "in_use (obs t) \<le> fd1" using t(3) in_use_close [OF k(2,3)] v(3) row(4) k(1) by simp
    then have "desc_of (obs t) fd1 = Closed" by (simp add: desc_of_def)
    then have "add_row c poke fd0 fd1 (Suc row) 0 NEWLINE True ZERO False m' t = None" by (intro add_row_hangs [OF t(2) int(2)]) simp_all
    then have "add_rows c poke fd0 fd1 (Suc row) NEWLINE True ZERO False m' t = None" by (subst add_rows.simps) simp
    moreover have "end_row c fd1 False t = Some (ZERO, t)" by (simp add: end_row_def)
    ultimately show ?thesis using row(1) t(1) True f by (subst add_rows.simps) simp
  next
    case False
    have "add_rows c poke fd0 fd1 (Suc row) ZERO False ZERO False m' u = None"
    proof (rule less.hyps [of s0 u m' ys s1])
      show "length (frame_rows s0) < length (frame_rows r0)" using rows(1) False by (simp add: rows_left_def)
      show "on_places (frame_adds (Suc row) (frame_rows s0) (frame_rows s1))" "length (frame_rows s0) < length (frame_rows s1)"
        using places(2) shorter False f by (simp_all add: rows_left_def)
    qed (use row v in simp_all)
    then show ?thesis using row(1) False f by (subst add_rows.simps) (simp add: end_row_def)
  qed
qed

end

section \<open>The frames on the screen\<close>

context screen_program
begin

lemma open_frames:
  assumes "ok w" "std (obs w)" "in_use (obs w) < 7" "cstr n0 = Some nm0" "length nm0 \<le> 1024" "cstr n1 = Some nm1" "length nm1 \<le> 1024"
    and "disk (obs w) nm0 = Some (File b0)" "disk (obs w) nm1 = Some (File b1)"
  obtains fd0 fd1 u w' where "ece391_open c n0 w = Some (fd0, u)" "ece391_open c n1 u = Some (fd1, w')" "ok w'"
    "2 \<le> fd0" "fd0 < fd1" "fd1 < 8" "desc_of (obs w') fd0 = File b0" "desc_of (obs w') fd1 = File b1" "shown (obs w') = shown (obs w)"
    "dense (obs w) \<longrightarrow> in_use (obs w') = fd1 + 1"
    "\<And>i. descs (obs w) i \<noteq> Closed \<Longrightarrow> i \<noteq> nat fd0 \<and> i \<noteq> nat fd1 \<and> descs (obs w') i = descs (obs w) i"
proof -
  let ?v = "obs w"
  define fd0 where "fd0 = int (next_desc ?v)"
  have lt: "in_use ?v < 8" using assms(3) by simp
  note f0 = next_desc_free [OF assms(2) lt]
  from open_name [OF assms(1,4,5)] assms(8) lt obtain u where u: "ece391_open c n0 w = Some (fd0, u)" "ok u" "obs u = set_desc fd0 (File b0) ?v"
    by (auto simp: spec_open_def returns_iff fd0_def)
  have v: "std (obs u)" "in_use (obs u) < 8" "disk (obs u) nm1 = Some (File b1)"
    using assms(2,3,9) f0(1) opened_desc(1) [OF assms(2) lt _ refl, of "File b0"] by (simp_all add: u(3) fd0_def)
  define fd1 where "fd1 = int (next_desc (obs u))"
  note f1 = next_desc_free [OF v(1,2)]
  from open_name [OF u(2) assms(6,7)] v obtain w' where w': "ece391_open c n1 u = Some (fd1, w')" "ok w'" "obs w' = set_desc fd1 (File b1) (obs u)"
    by (auto simp: spec_open_def returns_iff fd1_def)
  have ne: "next_desc (obs u) \<noteq> next_desc ?v" using f1(3) by (auto simp: u(3) fd0_def)
  then have "descs ?v (next_desc (obs u)) = Closed" using f1(3) by (simp add: u(3) fd0_def)
  from next_desc_least [OF f1(1,2) this] ne have less: "fd0 < fd1" by (simp add: fd0_def fd1_def)
  have d0: "desc_of (obs u) fd0 = File b0" unfolding u(3) by (rule opened_desc(2) [OF assms(2) lt]) (simp_all add: fd0_def)
  have "desc_of (obs w') fd0 = File b0" "desc_of (obs w') fd1 = File b1"
    using opened_desc(2,3) [OF v(1,2) _ refl, of "File b1"] d0 less by (simp_all add: w'(3) fd1_def)
  moreover have "in_use (obs w') = fd1 + 1" if "dense ?v"
  proof -
    have "dense (obs u)" using dense_next(2) [OF that assms(2) lt] by (simp add: u(3) fd0_def)
    then show ?thesis
      using dense_next(1) [OF _ v(1,2)] opened_desc(1) [OF v(1,2) _ refl, of "File b1"] by (simp add: w'(3) fd1_def)
  qed
  moreover have "2 \<le> fd0" "fd1 < 8" "shown (obs w') = shown ?v" using f0(1) f1(2) by (simp_all add: fd0_def fd1_def w'(3) u(3))
  moreover have "i \<noteq> nat fd0 \<and> i \<noteq> nat fd1 \<and> descs (obs w') i = descs ?v i" if "descs ?v i \<noteq> Closed" for i
    using that f0(3) \<open>descs ?v (next_desc (obs u)) = Closed\<close> by (auto simp: w'(3) u(3) fd0_def fd1_def)
  ultimately show ?thesis using that [OF u(1) w'(1,2)] less by blast
qed

lemma add_frames_shows:
  assumes "ok w" "std (obs w)" "in_use (obs w) < 7" "cstr n0 = Some nm0" "length nm0 \<le> 1024" "cstr n1 = Some nm1" "length nm1 \<le> 1024"
    and "disk (obs w) nm0 = Some (File b0)" "disk (obs w) nm1 = Some (File b1)" "shows_list m xs"
    and "on_places (frame_adds 0 (frame_rows b0) (frame_rows b1))" "length (frame_rows b1) \<le> length (frame_rows b0)"
  shows "\<exists>m' w' rs ys. add_frames c poke n0 n1 m w = Some (Inr (m', w')) \<and> ok w' \<and> shows_list m' ys \<and>
    spec_requests (drawing draw) (frame_adds 0 (frame_rows b0) (frame_rows b1)) xs (shown (obs w)) = Some (rs, ys, shown (obs w')) \<and>
    (\<forall>i. descs (obs w) i \<noteq> Closed \<longrightarrow> descs (obs w') i = descs (obs w) i)"
proof -
  obtain fd0 fd1 u w1 where o: "ece391_open c n0 w = Some (fd0, u)" "ece391_open c n1 u = Some (fd1, w1)" "ok w1"
    "2 \<le> fd0" "fd0 < fd1" "fd1 < 8" "desc_of (obs w1) fd0 = File b0" "desc_of (obs w1) fd1 = File b1" "shown (obs w1) = shown (obs w)"
    "\<And>i. descs (obs w) i \<noteq> Closed \<Longrightarrow> i \<noteq> nat fd0 \<and> i \<noteq> nat fd1 \<and> descs (obs w1) i = descs (obs w) i"
    by (rule open_frames [OF assms(1-9)]) blast
  have rl: "rows_left False r = frame_rows r" "start_char False = ZERO" for r by (simp_all add: rows_left_def start_char_def)
  have "returns (add_rows c poke fd0 fd1 0 ZERO False ZERO False m w1) (\<lambda>(m', w'). ok w' \<and>
      (\<exists>rs ys v. spec_requests (drawing draw) (frame_adds 0 (frame_rows b0) (frame_rows b1)) xs (shown (obs w1)) = Some (rs, ys, v) \<and>
        shows_list m' ys \<and> shown (obs w') = v) \<and> others fd0 fd1 (obs w1) (obs w'))"
    using add_rows_shows [OF o(5) _ o(6,3) assms(10), of False b0 False b1 0] o(4,7,8) assms(11,12) by (simp add: rl)
  then obtain m' w' where r: "add_rows c poke fd0 fd1 0 ZERO False ZERO False m w1 = Some (m', w')" "ok w'"
    "\<exists>rs ys v. spec_requests (drawing draw) (frame_adds 0 (frame_rows b0) (frame_rows b1)) xs (shown (obs w1)) = Some (rs, ys, v) \<and>
        shows_list m' ys \<and> shown (obs w') = v" "others fd0 fd1 (obs w1) (obs w')"
    by (auto simp: returns_iff)
  have "add_frames c poke n0 n1 m w = Some (Inr (m', w'))" using o(1,2,4,5) r(1) by (simp add: add_frames_def)
  moreover have "descs (obs w') i = descs (obs w) i" if "descs (obs w) i \<noteq> Closed" for i
    using r(4) o(10) [OF that] by (simp add: others_def)
  ultimately show ?thesis using r(2,3) o(9) by auto
qed

lemma add_frames_hangs:
  assumes "ok w" "std (obs w)" "in_use (obs w) < 7" "cstr n0 = Some nm0" "length nm0 \<le> 1024" "cstr n1 = Some nm1" "length nm1 \<le> 1024"
    and "disk (obs w) nm0 = Some (File b0)" "disk (obs w) nm1 = Some (File b1)" "shows_list m xs"
    and "on_places (frame_adds 0 (frame_rows b0) (frame_rows b1))" "length (frame_rows b0) < length (frame_rows b1)" "dense (obs w)"
  shows "add_frames c poke n0 n1 m w = None"
proof -
  obtain fd0 fd1 u w1 where o: "ece391_open c n0 w = Some (fd0, u)" "ece391_open c n1 u = Some (fd1, w1)" "ok w1"
    "2 \<le> fd0" "fd0 < fd1" "fd1 < 8" "desc_of (obs w1) fd0 = File b0" "desc_of (obs w1) fd1 = File b1"
    "dense (obs w) \<longrightarrow> in_use (obs w1) = fd1 + 1"
    by (rule open_frames [OF assms(1-9)]) blast
  have "add_rows c poke fd0 fd1 0 ZERO False ZERO False m w1 = None"
    using add_rows_hangs [OF o(5,4,6,3) assms(10) o(7,8) _ assms(11,12)] o(9) assms(13) by simp
  then show ?thesis using o(1,2,4,5) by (simp add: add_frames_def)
qed

end

end
