(* ===== verification/FishShow.thy ===== *)
theory FishShow
  imports Fish
begin

text \<open>
  fish/fish.c from the mapped screen to the end: the frames, then four times a hundred ticks of the clock with an
  addition, a synchronisation and a removal between them.  What the animation relies on besides the
  screen is a clock that ticks: the locale \<open>animation\<close>, an extension of \<open>screen_program\<close>.
\<close>

section \<open>What the animation asks for\<close>

definition blink_I :: blink_struct where
  "blink_I = zero_blink\<lparr>on_char := of_char CHR ''I'', off_char := of_char CHR ''M'', on_length := 7, off_length := 6,
     location := 6 * 80 + 60\<rparr>"

definition fish_requests :: "byte list \<Rightarrow> byte list \<Rightarrow> request list" where
  "fish_requests b0 b1 = frame_adds 0 (frame_rows b0) (frame_rows b1) @ replicate 100 Tick @ Add blink_I # replicate 100 Tick @
     Sync (push_bit 16 40 OR (6 * 80 + 60)) # replicate 100 Tick @ Remove (6 * 80 + 60) # replicate 100 Tick"

section \<open>The contract with the clock\<close>

locale animation = screen_program c ok obs emit poke draw
  for c :: "'w user_calls" and ok :: "'w \<Rightarrow> bool" and obs :: "'w \<Rightarrow> 'v user_view" and emit :: "byte \<Rightarrow> 'v \<Rightarrow> 'v"
    and poke :: "'w poke" and draw :: "nat \<Rightarrow> byte \<Rightarrow> 'v \<Rightarrow> 'v" +
  assumes clock_ticks: "ok w \<Longrightarrow> desc_of (obs w) fd = Clock \<Longrightarrow>
      returns (ece391_read c fd buf 4 w) (\<lambda>(r, b, w'). ok w' \<and> obs w' = obs w)"
    and clock_set: "ok w \<Longrightarrow> desc_of (obs w) fd = Clock \<Longrightarrow>
      returns (ece391_write c fd (arr_of (bytes32 32)) 4 w) (\<lambda>(r, w'). ok w' \<and> obs w' = obs w)"

section \<open>A request on the screen\<close>

context screen_program
begin

lemma poke_shows:
  assumes "ok w" "loc < 80 * 25"
  shows "returns (mp1_poke poke loc ch w) (\<lambda>w'. ok w' \<and> obs w' = (obs w)\<lparr>shown := draw (2 * unat loc) ch (shown (obs w))\<rparr>)"
proof -
  have "2 * unat loc < 4000" using assms(2) by (simp add: word_less_nat_alt)
  from poke_draws [OF assms(1) this] show ?thesis by (simp add: mp1_poke_def)
qed

lemma drawing_poke [simp]: "mp1_poke (drawing draw) loc ch v = Some (draw (2 * unat loc) ch v)"
  by (simp add: mp1_poke_def drawing_def)

lemma once_shows:
  assumes "ok w" "location x < 80 * 25"
  shows "returns (blink_once poke x w) (\<lambda>(x', w'). ok w' \<and> location x' = location x \<and>
    (\<exists>v. blink_once (drawing draw) x (shown (obs w)) = Some (x', v) \<and> obs w' = (obs w)\<lparr>shown := v\<rparr>))"
proof -
  have p: "returns (mp1_poke poke (location x) ch w) (\<lambda>w'. ok w' \<and> obs w' = (obs w)\<lparr>shown := draw (2 * unat (location x)) ch (shown (obs w))\<rparr>)" for ch
    by (rule poke_shows [OF assms])
  show ?thesis using assms(1) by (auto simp: blink_once_def Let_def intro!: returns_mono [OF p])
qed

lemma spec_tick_shows:
  assumes "ok w" "\<forall>x \<in> set xs. location x < 80 * 25"
  shows "returns (spec_tick poke xs w) (\<lambda>(ys, w'). ok w' \<and>
    (\<exists>v. spec_tick (drawing draw) xs (shown (obs w)) = Some (ys, v) \<and> obs w' = (obs w)\<lparr>shown := v\<rparr>))"
  using assms
proof (induction xs arbitrary: w)
  case Nil
  then show ?case by simp
next
  case (Cons x xs)
  from once_shows [OF Cons.prems(1), of x] Cons.prems(2) obtain y u v where o: "blink_once poke x w = Some (y, u)" "ok u"
    "blink_once (drawing draw) x (shown (obs w)) = Some (y, v)" "obs u = (obs w)\<lparr>shown := v\<rparr>"
    by (auto simp: returns_iff)
  from Cons.IH [OF o(2)] Cons.prems(2) o(4) show ?case by (auto simp: o(1,3) elim!: returns_mono)
qed

lemma request_shows:
  assumes "ok w" "shows_list m xs" "on_places [q]"
  shows "returns (do_request poke q m w) (\<lambda>(r, m', w'). ok w' \<and>
    (\<exists>ys v. spec_request (drawing draw) q xs (shown (obs w)) = Some (r, ys, v) \<and> shows_list m' ys \<and> obs w' = (obs w)\<lparr>shown := v\<rparr>))"
proof -
  have places: "\<forall>x \<in> set xs. location x < 80 * 25"
    using assms(2) by (auto simp: shows_list_def slots_ok_def)
  have "returns (spec_request poke q xs w) (\<lambda>(r, ys, w'). ok w' \<and>
      (\<exists>v. spec_request (drawing draw) q xs (shown (obs w)) = Some (r, ys, v) \<and> obs w' = (obs w)\<lparr>shown := v\<rparr>))"
  proof (cases q)
    case (Add b)
    then show ?thesis using assms(1) poke_shows [OF assms(1), of "location b" "on_char b"]
      by (auto simp: spec_request_def not_le elim!: returns_mono)
  next
    case (Remove loc)
    then show ?thesis using assms(1) by (auto simp: spec_request_def)
  next
    case (Sync arg)
    have "location b < 80 * 25" if "at_place loc xs = Some b" for loc b
      using that places by (auto simp: at_place_def find_Some_iff)
    then show ?thesis using Sync assms(1) poke_shows [OF assms(1)]
      by (auto simp: spec_request_def split: option.split elim!: returns_mono)
  next
    case Tick
    then show ?thesis using spec_tick_shows [OF assms(1) places] by (auto simp: spec_request_def elim!: returns_mono)
  qed
  then obtain r ys w' v where s: "spec_request poke q xs w = Some (r, ys, w')" "ok w'"
    "spec_request (drawing draw) q xs (shown (obs w)) = Some (r, ys, v)" "obs w' = (obs w)\<lparr>shown := v\<rparr>"
    by (auto simp: returns_iff)
  with request_implements [OF assms(2,3), of poke w] show ?thesis by (auto simp: implements_def)
qed

end

section \<open>The animation\<close>

context animation
begin

lemma tick_shows:
  assumes "ok w" "shows_list m xs" "desc_of (obs w) fd = Clock"
  shows "returns (fish_tick c poke fd i (m, w)) (\<lambda>(m', w'). ok w' \<and>
    (\<exists>r ys v. spec_request (drawing draw) Tick xs (shown (obs w)) = Some (r, ys, v) \<and> shows_list m' ys \<and> obs w' = (obs w)\<lparr>shown := v\<rparr>))"
proof -
  obtain r b u where u: "ece391_read c fd (\<lambda>_. NUL) 4 w = Some (r, b, u)" "ok u" "obs u = obs w"
    using clock_ticks [OF assms(1,3), of "\<lambda>_. NUL"] by (auto simp: returns_iff)
  have "on_places [Tick]" by (simp add: on_places_def)
  from request_shows [OF u(2) assms(2) this] u(3) show ?thesis
    by (auto simp: fish_tick_def u(1) do_request_def returns_iff bind_eq_Some_conv)
qed

text \<open>The state of the animation after some requests: the screen and the list are the specification's, the rest of the view is as before.\<close>

definition after :: "request list \<Rightarrow> 'w \<Rightarrow> blink_struct list \<Rightarrow> mp1_state \<times> 'w \<Rightarrow> bool" where
  "after qs w0 xs0 = (\<lambda>(m, w). ok w \<and> (\<exists>rs xs v. spec_requests (drawing draw) qs xs0 (shown (obs w0)) = Some (rs, xs, v) \<and> shows_list m xs \<and>
     obs w = (obs w0)\<lparr>shown := v\<rparr>))"

lemma after_request:
  assumes "after qs w0 xs0 (m, w)" "on_places [q]"
  shows "returns (do_request poke q m w) (\<lambda>(r, m', w'). after (qs @ [q]) w0 xs0 (m', w'))"
proof -
  from assms(1) obtain rs xs v where a: "ok w" "spec_requests (drawing draw) qs xs0 (shown (obs w0)) = Some (rs, xs, v)" "shows_list m xs"
    "obs w = (obs w0)\<lparr>shown := v\<rparr>"
    by (auto simp: after_def)
  from request_shows [OF a(1,3) assms(2)] a(2,4) show ?thesis
    by (auto simp: after_def spec_requests_append elim!: returns_mono)
qed

lemma after_ticks:
  assumes "after qs w0 xs0 mw" "desc_of (obs w0) fd = Clock"
  shows "returns (for_each (fish_tick c poke fd) [0..<n] mw) (after (qs @ replicate n Tick) w0 xs0)"
proof -
  let ?I = "\<lambda>k. after (qs @ replicate k Tick) w0 xs0"
  have "returns (fish_tick c poke fd i mw) (?I (Suc k))" if I: "?I k mw" for i k mw
  proof -
    obtain m w where mw: "mw = (m, w)" by (cases mw)
    obtain rs xs v where a: "ok w" "spec_requests (drawing draw) (qs @ replicate k Tick) xs0 (shown (obs w0)) = Some (rs, xs, v)"
      "shows_list m xs" "obs w = (obs w0)\<lparr>shown := v\<rparr>"
      using I unfolding mw after_def by blast
    have "qs @ replicate (Suc k) Tick = (qs @ replicate k Tick) @ [Tick]" by (simp add: replicate_append_same)
    then show ?thesis
      using tick_shows [OF a(1,3), of fd i] a(2,4) assms(2)
      by (auto simp: mw after_def spec_requests_append simp del: append_assoc replicate.simps elim!: returns_mono)
  qed
  then have "returns (for_each (fish_tick c poke fd) [0..<n] mw) (?I (length [0..<n]))"
    by (intro returns_for_each [of _ ?I]) (use assms(1) in simp_all)
  then show ?thesis by simp
qed

text \<open>A hundred ticks with a request before them.\<close>

lemma after_part:
  assumes "after qs w0 xs0 (m, w)" "on_places [q]" "desc_of (obs w0) fd = Clock"
  shows "returns (do { (_, m, w) \<leftarrow> do_request poke q m w; for_each (fish_tick c poke fd) [0..<100] (m, w) })
    (after (qs @ q # replicate 100 Tick) w0 xs0)"
proof -
  have "returns (for_each (fish_tick c poke fd) [0..<100] mw) (after (qs @ q # replicate 100 Tick) w0 xs0)"
    if "after (qs @ [q]) w0 xs0 mw" for mw
    using after_ticks [OF that assms(3), of 100] by (simp del: upt_rec_numeral upt_conv_Cons)
  with returns_mono [OF after_request [OF assms(1,2)]] show ?thesis
    by (auto simp del: upt_rec_numeral upt_conv_Cons)
qed

lemma blinking_shows:
  assumes "ok w" "shows_list m xs" "desc_of (obs w) fd = Clock"
    and rest: "\<And>mw. after (replicate 100 Tick @ Add blink_I # replicate 100 Tick @ Sync (push_bit 16 40 OR (6 * 80 + 60)) # replicate 100 Tick @
       Remove (6 * 80 + 60) # replicate 100 Tick) w xs mw \<Longrightarrow> returns (k mw) Q"
  shows "returns (do {
       (m, w) \<leftarrow> for_each (fish_tick c poke fd) [0..<100] (m, w);
       (_, m, w) \<leftarrow> mp1_ioctl_add poke blink_I m w;
       (m, w) \<leftarrow> for_each (fish_tick c poke fd) [0..<100] (m, w);
       (_, m, w) \<leftarrow> mp1_ioctl_sync poke (push_bit 16 40 OR (6 * 80 + 60)) m w;
       (m, w) \<leftarrow> for_each (fish_tick c poke fd) [0..<100] (m, w);
       (_, m) \<leftarrow> mp1_ioctl_remove (6 * 80 + 60) m;
       mw \<leftarrow> for_each (fish_tick c poke fd) [0..<100] (m, w);
       k mw
     }) Q"
proof -
  define T where "T = replicate 100 Tick"
  define ticks where "ticks = for_each (fish_tick c poke fd) [0..<100]"
  define S :: u32 where "S = push_bit 16 40 OR (6 * 80 + 60)"
  define R :: u16 where "R = 6 * 80 + 60"
  note part = after_part [where fd = fd, folded T_def ticks_def]
  have "after [] w xs (m, w)" using assms(1,2) by (simp add: after_def)
  from after_ticks [OF this assms(3), of 100, folded T_def ticks_def] obtain m1 w1
    where 1: "ticks (m, w) = Some (m1, w1)" "after T w xs (m1, w1)"
    by (auto simp: returns_iff)
  have places: "on_places [Add blink_I]" "on_places [Sync a]" "on_places [Remove l]" for a l
    by (simp_all add: on_places_def blink_I_def)
  from part [OF 1(2) places(1) assms(3)] obtain r2 m2 w2 m3 w3
    where 2: "mp1_ioctl_add poke blink_I m1 w1 = Some (r2, m2, w2)" "ticks (m2, w2) = Some (m3, w3)"
      "after (T @ Add blink_I # T) w xs (m3, w3)"
    by (auto simp: returns_iff do_request_def bind_eq_Some_conv)
  from part [OF 2(3) places(2) assms(3), of S] obtain r4 m4 w4 m5 w5
    where 3: "mp1_ioctl_sync poke S m3 w3 = Some (r4, m4, w4)" "ticks (m4, w4) = Some (m5, w5)"
      "after ((T @ Add blink_I # T) @ Sync S # T) w xs (m5, w5)"
    by (auto simp: returns_iff do_request_def bind_eq_Some_conv)
  from part [OF 3(3) places(3) assms(3), of R] obtain r6 m6 mw7
    where 4: "mp1_ioctl_remove R m5 = Some (r6, m6)" "ticks (m6, w5) = Some mw7"
      "after (((T @ Add blink_I # T) @ Sync S # T) @ Remove R # T) w xs mw7"
    by (auto simp: returns_iff do_request_def bind_eq_Some_conv)
  show ?thesis
    using rest [folded T_def S_def R_def] 4(3)
    unfolding ticks_def [symmetric] S_def [symmetric] R_def [symmetric] by (simp add: 1 2 3 4)
qed

end

lemma frame_names:
  "cstr (lit ''rtc'') = Some (bytes_of ''rtc'')" "cstr (lit ''frame0.txt'') = Some (bytes_of ''frame0.txt'')"
  "cstr (lit ''frame1.txt'') = Some (bytes_of ''frame1.txt'')" "length (bytes_of ''rtc'') \<le> 1024"
  "length (bytes_of ''frame0.txt'') \<le> 1024" "length (bytes_of ''frame1.txt'') \<le> 1024"
  by (rule cstr_arr_of, simp add: bytes_of_def)+ (simp_all add: bytes_of_def)

lemma desc_of_kept:
  assumes "\<And>i. descs v i \<noteq> Closed \<Longrightarrow> descs v' i = descs v i" "desc_of v fd \<noteq> Closed"
  shows "desc_of v' fd = desc_of v fd"
proof -
  have "{i. i < 8 \<and> descs v i \<noteq> Closed} \<subseteq> {i. i < 8 \<and> descs v' i \<noteq> Closed}" using assms(1) by auto
  then have "in_use v \<le> in_use v'" unfolding in_use_def by (simp add: card_mono)
  then show ?thesis using desc_of_open [OF assms(2)] assms by (simp add: desc_of_def)
qed

context animation
begin

lemma fish_show_shows:
  assumes "ok w" "std (obs w)" "in_use (obs w) < 6" "disk (obs w) (bytes_of ''rtc'') = Some Clock"
    and "disk (obs w) (bytes_of ''frame0.txt'') = Some (File b0)" "disk (obs w) (bytes_of ''frame1.txt'') = Some (File b1)"
    and "on_places (frame_adds 0 (frame_rows b0) (frame_rows b1))" "length (frame_rows b1) \<le> length (frame_rows b0)"
  shows "returns (fish_show c poke w) (\<lambda>(r, w'). r = 0 \<and> ok w' \<and>
    (\<exists>rs xs. spec_requests (drawing draw) (fish_requests b0 b1) [] (shown (obs w)) = Some (rs, xs, shown (obs w'))))"
proof -
  let ?v = "obs w"
  define fd where "fd = int (next_desc ?v)"
  have lt: "in_use ?v < 8" using assms(3) by simp
  note n = next_desc_free [OF assms(2) lt]
  from open_name [OF assms(1) frame_names(1,4)] assms(4) lt obtain u
    where u: "ece391_open c (lit ''rtc'') w = Some (fd, u)" "ok u" "obs u = set_desc fd Clock ?v"
    by (auto simp: spec_open_def returns_iff fd_def)
  have v: "std (obs u)" "in_use (obs u) < 7" "desc_of (obs u) fd = Clock"
    using assms(2,3) n(1) opened_desc(1,2) [OF assms(2) lt _ fd_def, of Clock] by (simp_all add: u(3) fd_def)
  obtain m t rs ys where t: "add_frames c poke (lit ''frame0.txt'') (lit ''frame1.txt'') mp1_start u = Some (Inr (m, t))" "ok t" "shows_list m ys"
    "spec_requests (drawing draw) (frame_adds 0 (frame_rows b0) (frame_rows b1)) [] (shown ?v) = Some (rs, ys, shown (obs t))"
    "\<And>i. descs (obs u) i \<noteq> Closed \<Longrightarrow> descs (obs t) i = descs (obs u) i"
    using add_frames_shows [OF u(2) v(1,2) frame_names(2,5,3,6) _ _ start_shows_list assms(7,8)] assms(5,6) u(3) by auto
  have clock: "desc_of (obs t) fd = Clock" using desc_of_kept [OF t(5)] v(3) by simp
  from clock_set [OF t(2) this] obtain r1 t1 where t1: "ece391_write c fd (arr_of (bytes32 32)) 4 t = Some (r1, t1)" "ok t1" "obs t1 = obs t"
    by (auto simp: returns_iff)
  have "desc_of (obs t1) fd = Clock" using clock t1(3) by simp
  define Z where "Z = replicate 100 Tick @ Add blink_I # replicate 100 Tick @ Sync (push_bit 16 40 OR (6 * 80 + 60)) # replicate 100 Tick @
        Remove (6 * 80 + 60) # replicate 100 Tick"
  note blinking = blinking_shows [OF t1(2) t(3) \<open>desc_of (obs t1) fd = Clock\<close>, folded Z_def]
  have clock_int: "is_int32 fd" using n(2) by (simp add: fd_def is_int32_def)
  show ?thesis
    unfolding fish_show_def u(1) t(1) t1(1) blink_I_def [symmetric] Let_def Option.bind.bind_lunit prod.case sum.case
  proof (rule blinking)
    fix mw
    assume "after Z t1 ys mw"
    then obtain m2 t2 qs zs where a: "mw = (m2, t2)" "ok t2"
      "spec_requests (drawing draw) Z ys (shown (obs t1)) = Some (qs, zs, shown (obs t2))"
      unfolding after_def by (cases mw) auto
    obtain x y where xy: "spec_close fd (obs t2) = (x, y)" by (cases "spec_close fd (obs t2)")
    from close_desc [OF a(2) clock_int] obtain r3 t3 where c: "ece391_close c fd t2 = Some (r3, t3)" "ok t3" "obs t3 = snd (spec_close fd (obs t2))"
      by (auto simp: returns_iff xy)
    have "spec_requests (drawing draw) (fish_requests b0 b1) [] (shown ?v) = Some (rs @ qs, zs, shown (obs t3))"
      unfolding fish_requests_def Z_def [symmetric] spec_requests_append t(4) Option.bind.bind_lunit prod.case
      using a(3) t1(3) c(3) by simp
    then show "returns (case mw of (m, w) \<Rightarrow> do { (_, w) \<leftarrow> ece391_close c fd w; Some (0, w) }) (\<lambda>(r, w'). r = 0 \<and> ok w' \<and>
        (\<exists>rs xs. spec_requests (drawing draw) (fish_requests b0 b1) [] (shown ?v) = Some (rs, xs, shown (obs w'))))"
      using a(1) c(1,2) by simp
  qed
qed

end

section \<open>Frames that fit\<close>

text \<open>Frames of at most 800 bytes never reach the place that wraps around to the corner of the screen.\<close>

lemma row_adds_bound:
  "Add b \<in> set (row_adds row col xs ys) \<Longrightarrow> \<exists>c x y. b = frame_blink row c x y \<and> c < col + max (length xs) (length ys)"
proof (induction row col xs ys rule: row_adds.induct)
  case (2 row col x xs)
  then show ?case by (fastforce simp: cell_adds_def split: if_splits)
next
  case (3 row col y ys)
  then show ?case by (fastforce simp: cell_adds_def split: if_splits)
next
  case (4 row col x xs y ys)
  then show ?case by (fastforce simp: cell_adds_def split: if_splits)
qed simp

definition fits :: "nat \<Rightarrow> nat \<Rightarrow> nat \<Rightarrow> blink_struct \<Rightarrow> bool" where
  "fits row j n b \<longleftrightarrow> (\<exists>r c x y. b = frame_blink r c x y \<and> r < row + j \<and> c < n)"

lemma fits_later: "fits (Suc row) j n b \<Longrightarrow> fits row (Suc j) n b"
  by (auto simp: fits_def)

lemma row_fits:
  assumes "Add b \<in> set (row_adds row 0 xs ys)" "length xs \<le> n" "length ys \<le> n"
  shows "fits row (Suc j) n b"
proof -
  from row_adds_bound [OF assms(1)] obtain c x y where "b = frame_blink row c x y" "c < max (length xs) (length ys)" by auto
  with assms(2,3) show ?thesis unfolding fits_def by (metis add_Suc_right le_add1 le_imp_less_Suc max.bounded_iff order_less_le_trans)
qed

lemma frame_adds_bound:
  assumes "Add b \<in> set (frame_adds row ls ks)" "\<forall>l \<in> set ls \<union> set ks. length l \<le> n"
  shows "fits row (max (length ls) (length ks)) n b"
  using assms
proof (induction row ls ks rule: frame_adds.induct)
  case (2 row l ls)
  then show ?case by (auto intro: row_fits fits_later)
next
  case (3 row k ks)
  then show ?case by (auto intro: row_fits fits_later)
next
  case (4 row l ls k ks)
  then show ?case by (auto intro: row_fits fits_later)
qed simp

lemma frame_rows_bound:
  "length (frame_rows bs) \<le> length bs + 1 \<and> (\<forall>l \<in> set (frame_rows bs). length l \<le> length bs)"
proof (induction bs rule: frame_rows.induct)
  case (1 bs)
  let ?t = "tl (dropWhile (\<lambda>b. b \<noteq> NEWLINE) bs)"
  have l: "length (takeWhile (\<lambda>b. b \<noteq> NEWLINE) bs) \<le> length bs" by (rule length_takeWhile_le)
  show ?case
  proof (cases "NEWLINE \<in> set bs")
    case True
    then have "dropWhile (\<lambda>b. b \<noteq> NEWLINE) bs \<noteq> []" by (simp add: dropWhile_eq_Nil_conv)
    then have "length ?t < length bs"
      using length_dropWhile_le [of "\<lambda>b. b \<noteq> NEWLINE" bs] by (cases "dropWhile (\<lambda>b. b \<noteq> NEWLINE) bs") auto
    then show ?thesis using 1 [OF True] l True by (subst (1 2) frame_rows.simps) force
  next
    case False
    then show ?thesis using l by (subst (1 2) frame_rows.simps) simp
  qed
qed

lemma short_on_places:
  assumes "length b0 \<le> 800" "length b1 \<le> 800"
  shows "on_places (frame_adds 0 (frame_rows b0) (frame_rows b1))"
  unfolding on_places_def
proof (intro allI impI)
  fix b
  assume a: "Add b \<in> set (frame_adds 0 (frame_rows b0) (frame_rows b1))"
  have "\<forall>l \<in> set (frame_rows b0) \<union> set (frame_rows b1). length l \<le> 800"
    using frame_rows_bound [of b0] frame_rows_bound [of b1] assms by fastforce
  from frame_adds_bound [OF a this] obtain r k x y where b: "b = frame_blink r k x y" "r < max (length (frame_rows b0)) (length (frame_rows b1))" "k < 800"
    by (auto simp: fits_def)
  then have "r \<le> 800" using frame_rows_bound [of b0] frame_rows_bound [of b1] assms by linarith
  then have "r * 80 + k + 40 < 65536" "0 < r * 80 + k + 40" using b(3) by simp_all
  then have "(word_of_nat (r * 80 + k + 40) :: u16) \<noteq> 0"
    unfolding word_of_nat_eq_0_iff by (auto dest!: dvd_imp_le)
  then show "location b \<noteq> 0" by (simp add: b(1) frame_blink_def)
qed

context screen_program
begin

lemma fish_show_hangs:
  assumes "ok w" "std (obs w)" "in_use (obs w) < 6" "disk (obs w) (bytes_of ''rtc'') = Some Clock"
    and "disk (obs w) (bytes_of ''frame0.txt'') = Some (File b0)" "disk (obs w) (bytes_of ''frame1.txt'') = Some (File b1)"
    and "on_places (frame_adds 0 (frame_rows b0) (frame_rows b1))" "length (frame_rows b0) < length (frame_rows b1)" "dense (obs w)"
  shows "fish_show c poke w = None"
proof -
  let ?v = "obs w"
  have lt: "in_use ?v < 8" using assms(3) by simp
  note n = next_desc_free [OF assms(2) lt]
  from open_name [OF assms(1) frame_names(1,4)] assms(4) lt obtain u
    where u: "ece391_open c (lit ''rtc'') w = Some (int (next_desc ?v), u)" "ok u" "obs u = set_desc (int (next_desc ?v)) Clock ?v"
    by (auto simp: spec_open_def returns_iff)
  have v: "std (obs u)" "in_use (obs u) < 7" "dense (obs u)"
    using assms(2,3) n(1) opened_desc(1) [OF assms(2) lt _ refl, of Clock] dense_next(2) [OF assms(9,2) lt] by (simp_all add: u(3))
  have "add_frames c poke (lit ''frame0.txt'') (lit ''frame1.txt'') mp1_start u = None"
    using assms(5,6) u(3)
    by (intro add_frames_hangs [OF u(2) v(1,2) frame_names(2,5,3,6) _ _ start_shows_list assms(7,8) v(3)]) simp_all
  then show ?thesis by (simp add: fish_show_def u(1))
qed

end

end
