(* ===== verification/FishKernel.thy ===== *)
theory FishKernel
  imports UserSession FishShow
begin

text \<open>
  The animation on this kernel: the page that vidmap gives is the screen of the program's terminal, and the
  system calls leave the page tables alone, so the contract \<open>screen_program\<close> is kept; a read of rtc
  returns when clock interrupts come, so that \<open>animation\<close> is kept too.
\<close>

section \<open>The mapped screen\<close>

text \<open>The variable that vidmap has filled in, and a store of the program through its own mapping.\<close>

definition kernel_fetch :: "nat \<Rightarrow> 'a kernel_state_scheme \<Rightarrow> nat" where
  "kernel_fetch vmem s = unat (load32 (kmem s) vmem)"

definition kernel_poke :: "nat \<Rightarrow> 'a kernel_state_scheme poke" where
  "kernel_poke base off ch s = (case user_mmu s (base + off) of None \<Rightarrow> None | Some pa \<Rightarrow> Some (s\<lparr>mem := (mem s)(pa := ch)\<rparr>))"

text \<open>The byte of a screen at an offset: character or attribute of a cell.\<close>

definition draw_byte :: "nat \<Rightarrow> byte \<Rightarrow> screen \<Rightarrow> screen" where
  "draw_byte off ch scr = scr\<lparr>cells := (cells scr)[off div 2 :=
     (if even off then (ch, snd (cells scr ! (off div 2))) else (fst (cells scr ! (off div 2)), ch))]\<rparr>"

definition screen_at :: "nat \<Rightarrow> 'a kernel_state_scheme \<Rightarrow> bool" where
  "screen_at base s \<longleftrightarrow> (\<forall>i < 4096. user_mmu s (base + i) = Some (video_base s + i))"

text \<open>Interrupts that leave the page tables alone while a call waits.\<close>

definition steady :: "'a interrupts \<Rightarrow> bool" where
  "steady irq \<longleftrightarrow> (\<forall>n s. paging_of (irq n s) = paging_of s)"

definition mapped :: "'a interrupts \<Rightarrow> nat \<Rightarrow> 'a kernel_state_scheme \<Rightarrow> bool" where
  "mapped irq base s \<longleftrightarrow> steady irq \<and> screen_at base s"

lemma mapped_paging: "paging_of s' = paging_of s \<Longrightarrow> mapped irq base s \<Longrightarrow> mapped irq base s'"
  using paging_cong [of s' s] by (simp add: mapped_def screen_at_def video_base_def)

section \<open>The calls leave the page tables alone\<close>

lemma paging_of_putc [simp]: "paging_of (putc c s) = paging_of s"
  using console_frame_putc [of c s] by (simp add: console_frame_def)

lemma paging_of_vstore [simp]: "paging_of (vstore a bs s) = paging_of s"
  by (induction a bs s rule: vstore.induct) simp_all

lemma paging_of_term_buffer [simp]: "paging_of (s\<lparr>term_buffer := b\<rparr>) = paging_of s"
  by (simp add: paging_of_def)

lemma paging_waits:
  assumes "steady irq" "wait_until ready irq n t = Some u"
  shows "paging_of u = paging_of t"
  by (rule wait_until_inv [OF _ assms(2), where Q = "\<lambda>u. paging_of u = paging_of t"]) (use assms(1) in \<open>simp_all add: steady_def\<close>)

lemma paging_sys_read:
  assumes "steady irq" "sys_read irq fd buf n s = Some (r, u)"
  shows "paging_of u = paging_of s"
proof -
  have rd: "paging_of v = paging_of t" if "read_entry ops = Some rd" "rd irq fd buf n t = Some (r, v)" for ops rd t v
    using that
    by (cases ops) (auto simp: bind_eq_Some_conv file_read_def dir_read_def rtc_read_def terminal_read_def Let_def
        dest!: paging_waits [OF assms(1)] split: if_splits prod.splits option.splits)
  show ?thesis
    using assms(2) by (auto simp: sys_read_def Let_def bind_eq_Some_conv split: if_splits option.splits dest: rd)
qed

lemma paging_sys_write:
  assumes "sys_write irq fd buf n s = Some (r, u)"
  shows "paging_of u = paging_of s"
proof -
  have "paging_of (write_char b i t) = paging_of t" for b i and t :: "'a kernel_state_scheme"
    by (simp add: write_char_def Let_def)
  then have "paging_of (fold (write_char b) xs t) = paging_of t" for b xs and t :: "'a kernel_state_scheme"
    by (rule fold_frame)
  then have wr: "paging_of v = paging_of t" if "write_entry ops = Some wr" "wr irq fd buf n t = Some (r, v)" for ops wr t v
    using that by (cases ops) (auto simp: terminal_write_def rtc_write_def Let_def split: if_splits)
  show ?thesis
    using assms by (auto simp: sys_write_def Let_def bind_eq_Some_conv split: if_splits option.splits dest: wr)
qed

lemma paging_of_upd_pcb [simp]: "paging_of (upd_pcb p f s) = paging_of s"
  by (simp add: upd_pcb_def paging_of_def)

lemma paging_of_file_pcb [simp]: "paging_of (update_file_pcb p s) = paging_of s"
  by (simp add: update_file_pcb_def)

lemma paging_open:
  assumes "open_file name s = Some (r, u)"
  shows "paging_of u = paging_of s"
proof (cases "num_open_descriptors (pcbs s (running_pid s)) \<ge> int NUM_FDS")
  case True
  then show ?thesis using assms by (simp add: open_file_def Let_def)
next
  case False
  with assms obtain k d where "read_dentry_by_name (kmem s) (fs s) name = Some (k, d)"
    by (auto simp: open_file_def Let_def bind_eq_Some_conv)
  with False show ?thesis
    using assms by (cases d; cases "open_ops (the d)") (auto simp: open_file_def Let_def simp del: upd_pcb_twice)
qed

lemma paging_close: "paging_of (snd (close_fd fd s)) = paging_of s"
  by (simp add: close_fd_def Let_def del: upd_pcb_twice)

lemma paging_getargs: "getargs buf n s = Some (r, u) \<Longrightarrow> paging_of u = paging_of s"
  by (auto simp: getargs_def Let_def split: if_splits)

lemma paging_DO_CALL:
  assumes "steady irq" "DO_CALL irq num x y z s = Some (r, u)" "num \<in> {3, 4, 5, 6, 7}"
  shows "paging_of u = paging_of s"
proof -
  have n: "\<not> (sint (word_of_nat num :: u32) < 1 \<or> sint (word_of_nat num :: u32) > 10)" "nat (sint (word_of_nat num :: u32)) = num"
    using assms(3) by auto
  from assms(2) n obtain f t where t: "(syscall_table irq x y z ! num) s = Some (f, t)" "paging_of u = paging_of t"
    by (auto simp: DO_CALL_def syscall_asm_def bind_eq_Some_conv split: flow.split_asm)
  have "num = 3 \<or> num = 4 \<or> num = 5 \<or> num = 6 \<or> num = 7" using assms(3) by auto
  then have "paging_of t = paging_of s"
  proof (elim disjE)
    assume "num = 3"
    then show ?thesis using t(1) paging_sys_read [OF assms(1)] by (auto simp: syscall_table_def bind_eq_Some_conv)
  next
    assume "num = 4"
    then show ?thesis using t(1) paging_sys_write by (auto simp: syscall_table_def bind_eq_Some_conv)
  next
    assume "num = 5"
    then show ?thesis using t(1) paging_open by (auto simp: syscall_table_def bind_eq_Some_conv)
  next
    assume "num = 6"
    then show ?thesis using t(1) paging_close [of "sint x" s] by (simp add: syscall_table_def split_beta)
  next
    assume "num = 7"
    then show ?thesis using t(1) paging_getargs by (auto simp: syscall_table_def bind_eq_Some_conv)
  qed
  then show ?thesis using t(2) by simp
qed

lemma paging_put_buffer [simp]: "paging_of (put_buffer A n buf s) = paging_of s"
  by (simp add: put_buffer_def)


section \<open>A store to the mapped screen\<close>

lemma cells_at_store:
  assumes "off < 4000"
  shows "cells_at (m(base + off := ch)) base = (cells_at m base)[off div 2 :=
    (if even off then (ch, snd (cells_at m base ! (off div 2))) else (fst (cells_at m base ! (off div 2)), ch))]"
proof (rule nth_equalityI)
  fix i
  assume "i < length (cells_at (m(base + off := ch)) base)"
  then have i: "i < 2000" by (simp add: cells_at_def)
  have "off = 2 * (off div 2) \<or> off = 2 * (off div 2) + 1" by presburger
  moreover have "off div 2 < 2000" using assms by simp
  ultimately show "cells_at (m(base + off := ch)) base ! i = (cells_at m base)[off div 2 :=
      (if even off then (ch, snd (cells_at m base ! (off div 2))) else (fst (cells_at m base ! (off div 2)), ch))] ! i"
    using i by (auto simp: cells_at_def nth_list_update simp del: upt_rec_numeral)
qed (simp add: cells_at_def)

lemma kernel_poke_draws:
  assumes "serves s" "mapped irq base s" "off < 4000"
  shows "returns (kernel_poke base off ch s) (\<lambda>s'. serves s' \<and> mapped irq base s' \<and>
    kernel_view s' = (kernel_view s)\<lparr>shown := draw_byte off ch (shown (kernel_view s))\<rparr>)"
proof -
  let ?s = "s\<lparr>mem := (mem s)(video_base s + off := ch)\<rparr>"
  note f = serves_facts [OF assms(1)]
  have "user_mmu s (base + off) = Some (video_base s + off)" using assms(2,3) by (simp add: mapped_def screen_at_def)
  then have p: "kernel_poke base off ch s = Some ?s" by (simp add: kernel_poke_def)
  have same: "same_system s ?s"
    using video_base_bound [OF f(1)] assms(3) by (auto simp: same_system_def agree_kernel_def running_pid_def)
  have scr: "screen_of (sched_term s) (video_base s) ?s = draw_byte off ch (shown (kernel_view s))"
    using cells_at_store [OF assms(3)] by (simp add: screen_of_def draw_byte_def)
  have "screen_ok (shown (kernel_view s))" using assms(1) by (simp add: serves_def)
  then have "screen_ok (draw_byte off ch (shown (kernel_view s)))" by (simp add: screen_ok_def draw_byte_def del: kernel_view_simps)
  then have "serves ?s" using same_system_view(2) [OF assms(1) same] scr by simp
  moreover have "mapped irq base ?s" using assms(2) by (rule mapped_paging [rotated]) simp
  ultimately show ?thesis unfolding p using same_system_view(1) [OF assms(1) same] scr by simp
qed

section \<open>The contract on the kernel\<close>

lemma mapped_call:
  assumes "mapped irq base s" "DO_CALL irq num x y z (put_buffer A n buf s) = Some (r, s')" "num \<in> {3, 4, 5, 6, 7}"
  shows "mapped irq base s'"
proof (rule mapped_paging [OF _ assms(1)])
  show "paging_of s' = paging_of s"
    using assms(1) paging_DO_CALL [OF _ assms(2,3)] by (simp add: mapped_def)
qed

lemma put_nothing [simp]: "put_buffer A 0 buf s = s"
  by (simp add: put_buffer_def)

interpretation kernel_steady: user_system "kernel_calls irq A x y run"
    "\<lambda>s. (serves s \<and> placed A) \<and> mapped irq base s" kernel_view screen_putc
  for irq :: "'a interrupts" and A x y run base
proof (rule kernel.with_invariant, unfold kernel_calls_simps, elim conjE, goal_cases)
  case (1 w fd n buf r w')
  then show ?case using mapped_call [of irq base w 4 _ _ _ A "nat n" buf r w'] by (simp add: kernel_write_def)
next
  case (2 w fd n buf r b w')
  then show ?case using mapped_call [of irq base w 3 _ _ _ A "nat n" buf r w'] by (auto simp: kernel_read_def bind_eq_Some_conv)
next
  case (3 w name nm r w')
  then show ?case using mapped_call [of irq base w 5 _ _ _ A _ name r w'] by (auto simp: kernel_open_def bind_eq_Some_conv)
next
  case (4 w fd r w')
  then show ?case using mapped_call [of irq base w 6 _ _ _ A 0 _ r w'] by (simp add: kernel_close_def)
next
  case (5 w buf r b w')
  then show ?case using mapped_call [of irq base w 7 _ _ _ A "nat 1024" buf r w'] by (auto simp: kernel_getargs_def bind_eq_Some_conv)
next
  case (6 w a r w')
  then show ?case using kernel_vidmap_refused [of w a irq x y] by simp
next
  case (7 w n r w')
  then show ?case using kernel_no_such_call [of n irq A x y run w] by simp
qed

interpretation kernel_screen: screen_program "kernel_calls irq A x y run"
    "\<lambda>s. (serves s \<and> placed A) \<and> mapped irq base s" kernel_view screen_putc "kernel_poke base" draw_byte
  for irq :: "'a interrupts" and A x y run base
  by unfold_locales (auto elim!: returns_mono dest: kernel_poke_draws simp del: kernel_view_simps)

section \<open>The clock\<close>

text \<open>Only clock interrupts come while a call waits.\<close>

definition clock_only :: "device \<Rightarrow> 'a interrupts" where
  "clock_only dev = (\<lambda>_. rtc_handler dev)"

lemma rtc_handler_frame:
  fixes s :: "'a kernel_state_scheme"
  shows "mem (rtc_handler dev s) = mem s" "fs (rtc_handler dev s) = fs s" "pid_arr (rtc_handler dev s) = pid_arr s"
    "pcbs (rtc_handler dev s) = pcbs s" "sched_term (rtc_handler dev s) = sched_term s" "paging_of (rtc_handler dev s) = paging_of s"
    "screen_x (terminals (rtc_handler dev s) k) = screen_x (terminals s k)"
    "screen_y (terminals (rtc_handler dev s) k) = screen_y (terminals s k)"
    "active_pid (terminals (rtc_handler dev s) k) = active_pid (terminals s k)"
  by (simp_all add: rtc_handler_def Let_def upd_term_def send_eoi_def outb_def inb_def paging_of_def)

lemma steady_clock: "steady (clock_only dev)"
  by (simp add: steady_def clock_only_def rtc_handler_frame)

definition clock_passes :: "'a kernel_state_scheme \<Rightarrow> 'a kernel_state_scheme \<Rightarrow> bool" where
  "clock_passes s t \<longleftrightarrow> serves t \<and> kernel_view t = kernel_view s \<and> mem t = mem s \<and> paging_of t = paging_of s"

lemma clock_passes_view:
  assumes "serves s" "same_system s t" "mem t = mem s" "screen_of (sched_term s) (video_base s) t = screen_of (sched_term s) (video_base s) s"
  shows "clock_passes s t"
  using same_system_view [OF assms(1,2)] assms by (simp add: clock_passes_def same_system_def serves_def)

lemma clock_passes_tick:
  assumes "clock_passes s t"
  shows "clock_passes s (rtc_handler dev t)"
proof -
  have "clock_passes t (rtc_handler dev t)"
    using assms by (intro clock_passes_view) (simp_all add: clock_passes_def same_system_def agree_kernel_def running_pid_def screen_of_def rtc_handler_frame)
  then show ?thesis using assms by (simp add: clock_passes_def)
qed

text \<open>Whatever its counter and its period are, the clock of the scheduled terminal ticks after finitely many interrupts.\<close>

lemma clock_wait_ends:
  assumes "sched_term s < 3"
  shows "\<exists>u. wait_until (\<lambda>s. rtc_interrupt_occured (terminals s (sched_term s)) = 1) (\<lambda>_. rtc_handler dev) n s = Some u"
  using assms
proof (induction "nat (counter_freqRate (terminals s (sched_term s)) - rtc_counter (terminals s (sched_term s)))" arbitrary: n s rule: less_induct)
  case less
  let ?t = "terminals s (sched_term s)" and ?s = "rtc_handler dev s"
  note h = rtc_handler_term [OF less.prems, of dev]
  have "\<exists>u. wait_until (\<lambda>s. rtc_interrupt_occured (terminals s (sched_term s)) = 1) (\<lambda>_. rtc_handler dev) (Suc n) ?s = Some u"
  proof (cases "rtc_counter ?t + 1 \<ge> counter_freqRate ?t")
    case True
    then show ?thesis using h by (subst wait_until.simps) (simp add: Let_def)
  next
    case False
    then show ?thesis using h less.prems by (intro less.hyps) (simp_all add: Let_def)
  qed
  then show ?case by (subst wait_until.simps) simp
qed

lemma rtc_read_passes:
  assumes "serves s"
  obtains t where "rtc_read (clock_only dev) s = Some (0, t)" "clock_passes s t"
proof -
  have "sched_term s < 3" using assms by (simp add: serves_def)
  from clock_wait_ends [OF this, of dev 0] obtain u
    where u: "wait_until (\<lambda>s. rtc_interrupt_occured (terminals s (sched_term s)) = 1) (clock_only dev) 0 s = Some u"
    by (auto simp: clock_only_def)
  have "clock_passes s s" using assms by (simp add: clock_passes_def)
  then have p: "clock_passes s u"
    by (intro wait_until_inv [OF _ u, where Q = "clock_passes s"]) (simp_all add: clock_only_def clock_passes_tick)
  let ?t = "upd_term (sched_term u) (\<lambda>t. t\<lparr>rtc_interrupt_occured := 0\<rparr>) u"
  have "clock_passes u ?t"
    using p by (intro clock_passes_view) (simp_all add: clock_passes_def same_system_def agree_kernel_def running_pid_def screen_of_def upd_term_def paging_of_def)
  then have "clock_passes s ?t" using p by (simp add: clock_passes_def)
  moreover have "rtc_read (clock_only dev) s = Some (0, ?t)" using u by (simp add: rtc_read_def)
  ultimately show ?thesis using that by blast
qed

lemma clock_desc: "fd_desc m g f = Clock \<Longrightarrow> fops f = Some rtc_ops"
  by (auto simp: fd_desc_def split: if_splits option.splits file_ops.splits)

lemma kernel_clock_ticks:
  assumes "serves s" "placed A" "desc_of (kernel_view s) fd = Clock"
  shows "returns (kernel_read (clock_only dev) A fd buf 4 s) (\<lambda>(r, b, s'). serves s' \<and> kernel_view s' = kernel_view s)"
proof -
  obtain p u f where u: "u = update_file_pcb p (put_buffer A (nat 4) buf s)" "p = running_pid u"
    "f = file_desc_arr (pcbs u p) (nat fd)" "serves u" "kernel_view u = kernel_view s" "fd_desc (mem u) (fs u) f = Clock"
    "fd_ok (mem u) (fs u) f" "nat fd < 8" "fd < num_open_descriptors (pcbs u p)" "0 \<le> fd" "user_frame u = user_frame s"
    by (rule read_setup [OF assms(1-3), of 4 buf]) simp_all
  obtain t where t: "rtc_read (clock_only dev) u = Some (0, t)" "clock_passes u t" by (rule rtc_read_passes [OF u(4)])
  have v: "serves t" "kernel_view t = kernel_view s" "mem t = mem u" "user_frame t = user_frame s"
    using t(2) u(5,11) paging_cong(5) [of t u] by (simp_all add: clock_passes_def)
  have entry: "Option.bind (fops (file_desc_arr (pcbs u p) (nat fd))) read_entry =
      Some (the (read_entry rtc_ops) :: 'a fd_call)"
    using clock_desc [OF u(6)] u(3) by simp
  have rd: "the (read_entry rtc_ops) (clock_only dev) fd A 4 u = Some (0, vstore A [] t)" using t(1) by simp
  have "returns (kernel_read (clock_only dev) A fd buf 4 s) (\<lambda>(r', b, s'). r' = 0 \<and> b = over buf [] \<and> serves s' \<and> kernel_view s' = kernel_view s)"
    using read_finish [where rd = "the (read_entry rtc_ops)", OF assms(1,2) _ _ u(10,8,1,2,9) entry rd v(1-4)] by simp
  then show ?thesis by (rule returns_mono) auto
qed

lemma kernel_clock_set:
  assumes "serves s" "placed A" "desc_of (kernel_view s) fd = Clock"
  shows "returns (kernel_write irq A fd (arr_of (bytes32 32)) 4 s) (\<lambda>(r, s'). serves s' \<and> kernel_view s' = kernel_view s)"
proof -
  let ?buf = "arr_of (bytes32 32)"
  obtain p u f where u: "u = update_file_pcb p (put_buffer A (nat 4) ?buf s)" "p = running_pid u"
    "f = file_desc_arr (pcbs u p) (nat fd)" "serves u" "kernel_view u = kernel_view s" "fd_desc (mem u) (fs u) f = Clock"
    "fd_ok (mem u) (fs u) f" "nat fd < 8" "fd < num_open_descriptors (pcbs u p)" "0 \<le> fd" "user_frame u = user_frame s"
    by (rule read_setup [OF assms(1-3), of 4 ?buf]) simp_all
  let ?t = "put_buffer A 4 ?buf s"
  have u1: "u = update_file_pcb p ?t" using u(1) by simp
  have "running_pid u = running_pid ?t" "pcbs u = pcbs ?t" unfolding u1 by (simp_all add: running_pid_def)
  then have p: "running_pid ?t = p" "pcbs u = pcbs ?t" using u(2) by simp_all
  obtain r v where v: "rtc_write (Some (load_i32 (kmem u) A)) u = (r, v)" by (cases "rtc_write (Some (load_i32 (kmem u) A)) u")
  have w: "sys_write irq fd A 4 ?t = Some (r, v)"
    using placed_not_null [OF assms(2)] u(9,10) clock_desc [OF u(6)] v unfolding u(3)
    by (simp add: sys_write_def Let_def p u1 [symmetric])
  have "is_int32 fd" using u(8,10) by (simp add: is_int32_def)
  from write_call [OF w this _ _ assms(2)] have call: "DO_CALL irq 4 (word_of_int fd) (word_of_nat A) (word_of_int 4) ?t = Some (r, v\<lparr>iflag := iflag ?t\<rparr>)"
    by simp
  have "clock_passes u v"
    using v u(4) unfolding rtc_write_def option.case Let_def
    by (intro clock_passes_view) (auto simp: same_system_def agree_kernel_def running_pid_def screen_of_def upd_term_def paging_of_def split: if_splits)
  then have "serves v" "kernel_view v = kernel_view s" using u(5) by (simp_all add: clock_passes_def)
  then show ?thesis using call other_variables(3,4) [of v] by (simp add: kernel_write_def)
qed

text \<open>Under these interrupts the animation has all that it relies on.\<close>

interpretation kernel_animation: animation "kernel_calls (clock_only dev) A x y run"
    "\<lambda>s. (serves s \<and> placed A) \<and> mapped (clock_only dev) base s" kernel_view screen_putc "kernel_poke base" draw_byte
  for dev and A x y run base
proof (unfold_locales, goal_cases)
  case (1 w fd buf)
  then have s: "serves w" "placed A" "mapped (clock_only dev) base w" by simp_all
  from kernel_clock_ticks [OF s(1,2), of fd dev buf] 1(2) obtain r b w'
    where c: "kernel_read (clock_only dev) A fd buf 4 w = Some (r, b, w')" "serves w'" "kernel_view w' = kernel_view w"
    by (auto simp: returns_iff simp del: kernel_view_simps)
  have "mapped (clock_only dev) base w'"
    using s(3) c(1) mapped_call [of "clock_only dev" base w 3 _ _ _ A "nat 4" buf r w'] by (auto simp: kernel_read_def bind_eq_Some_conv)
  then show ?case using c s(2) by (simp del: kernel_view_simps)
next
  case (2 w fd)
  then have s: "serves w" "placed A" "mapped (clock_only dev) base w" by simp_all
  from kernel_clock_set [OF s(1,2), of fd "clock_only dev"] 2(2) obtain r w'
    where c: "kernel_write (clock_only dev) A fd (arr_of (bytes32 32)) 4 w = Some (r, w')" "serves w'" "kernel_view w' = kernel_view w"
    by (auto simp: returns_iff simp del: kernel_view_simps)
  have "mapped (clock_only dev) base w'"
    using s(3) c(1) mapped_call [of "clock_only dev" base w 4 _ _ _ A "nat 4" "arr_of (bytes32 32)" r w'] by (simp add: kernel_write_def)
  then show ?case using c s(2) by (simp del: kernel_view_simps)
qed

section \<open>Mapping the screen\<close>

lemma paging_change_view:
  assumes "serves s" "paging_ok s'" "user_frame s' = user_frame s" "video_frame s' = video_frame s" "mem s' = mem s" "fs s' = fs s"
    and "pid_arr s' = pid_arr s" "pcbs s' = pcbs s" "terminals s' = terminals s" "sched_term s' = sched_term s"
  shows "kernel_view s' = kernel_view s" "serves s'"
proof -
  have "lookup s' nm = lookup s nm" for nm using assms(5,6) by (simp add: lookup_def)
  then have e: "newest_pid s' = newest_pid s" "running_pid s' = running_pid s" "video_base s' = video_base s" "lookup s' = lookup s"
    using assms(4,7-10) by (simp_all add: newest_pid_def free_pid_def running_pid_def video_base_def ext)
  show "kernel_view s' = kernel_view s"
    using assms(5-10) e by (simp add: kernel_view_def screen_of_def cong: if_cong)
  then have "shown (kernel_view s') = shown (kernel_view s)" by (rule arg_cong)
  then show "serves s'"
    using assms e unfolding serves_def fs_ok_def by (simp del: kernel_view_simps)
qed

lemma vidmap_done_keeps:
  assumes "paging_ok s"
  shows "video_frame (vidmap_done k s) = video_frame s" "fs (vidmap_done k s) = fs s" "pid_arr (vidmap_done k s) = pid_arr s"
    "pcbs (vidmap_done k s) = pcbs s" "terminals (vidmap_done k s) = terminals s"
  by (simp_all add: vidmap_done_def video_frame_def set_pde_frame4kb_def set_pde_def flush_tlb_def)

lemma video_mode_maps:
  assumes "serves s" "steady irq" "0x8000000 \<le> vmem" "vmem + 4 \<le> 0x8400000" "vidmap_frame s (sched_term s) = video_frame s"
  obtains base s' where "mp1_set_video_mode (kernel_calls irq A x y run) (kernel_fetch vmem) vmem s = Some (base, s')" "base \<noteq> 0"
    "serves s'" "kernel_view s' = kernel_view s" "mapped irq base s'"
proof -
  define k where "k = vmem - 0x8000000"
  have k: "vmem = 0x8000000 + k" "k + 4 \<le> 0x400000" using assms(3,4) by (simp_all add: k_def)
  let ?w = "0x8400000 + 0x1000 * word_of_nat (sched_term s) :: u32"
  let ?s = "(vidmap_done k (cli s))\<lparr>iflag := iflag s\<rparr>"
  note f = serves_facts [OF assms(1)]
  have ok: "paging_ok (cli s)" using f(1) by simp
  note d = vidmap_done_facts [OF ok, of k] vidmap_done_keeps [OF ok, of k]
  have "unat (word_of_nat vmem :: u32) = vmem" using assms(4) by (simp add: unat_of_nat take_bit_nat_eq_self)
  then have call: "kernel_vidmap irq x y vmem s = Some (0, ?s)"
    using vidmap_call [OF f(1) k(2), of "word_of_nat vmem"] by (simp add: kernel_vidmap_def DO_CALL_def k(1))
  let ?m = "s\<lparr>mem := store_bytes (user_frame s * 0x400000 + k) (bytes32 ?w) (mem s)\<rparr>"
  have m: "kernel_view ?m = kernel_view s" "serves ?m" by (rule store_in_frame [OF assms(1)])+
  have s': "kernel_view ?s = kernel_view ?m" "serves ?s"
    using f(1) d by (intro paging_change_view [OF m(2)]; simp)+
  have sched: "sched_term s < 3" using assms(1) by (simp add: serves_def)
  have at: "kmem ?s (0x8000000 + k + i) = mem ?s (user_frame s * 0x400000 + k + i)" if "i < 4" for i
    using mmu_user [OF serves_facts(1) [OF s'(2)], of "0x8000000 + k + i"] k(2) that d f(1) by (simp add: kmem_def vread_def add.assoc)
  have "load32 (kmem ?s) vmem = load32 (mem ?s) (user_frame s * 0x400000 + k)"
    using at [of 0] at [of 1] at [of 2] at [of 3] by (simp add: load32_def k(1) ac_simps)
  also have "\<dots> = ?w" using d f(1) load32_store_bytes32 by simp
  finally have fetch: "kernel_fetch vmem ?s = 0x8400000 + sched_term s * 0x1000"
    using vidmap_page [OF sched] by (simp add: kernel_fetch_def)
  have "screen_at (kernel_fetch vmem ?s) ?s"
    unfolding screen_at_def fetch using user_mmu_vidmap [OF serves_facts(1) [OF s'(2)], of "sched_term s"] sched assms(5) d f(1)
    by (simp add: video_base_def)
  then have "mapped irq (kernel_fetch vmem ?s) ?s" using assms(2) by (simp add: mapped_def)
  moreover have "mp1_set_video_mode (kernel_calls irq A x y run) (kernel_fetch vmem) vmem s = Some (kernel_fetch vmem ?s, ?s)"
    using call by (simp add: mp1_set_video_mode_def)
  ultimately show ?thesis using that s' m fetch by (metis add_eq_0_iff_both_eq_0 zero_neq_numeral)
qed

section \<open>The animation on this kernel\<close>

text \<open>A file of the disk and what it holds.\<close>

definition holds_text :: "'a kernel_state_scheme \<Rightarrow> byte list \<Rightarrow> byte list \<Rightarrow> bool" where
  "holds_text s nm b \<longleftrightarrow> (case lookup s nm of None \<Rightarrow> False
     | Some d \<Rightarrow> filetype d = 2 \<and> file_content (mem s) (fs s) (inode_num d) = b)"

lemma holds_text_disk: "holds_text s nm b \<Longrightarrow> disk (kernel_view s) nm = Some (File b)"
  by (simp add: holds_text_def dentry_desc_def split: option.splits)

lemma clock_disk: "lookup s nm = Some d \<Longrightarrow> filetype d = 0 \<Longrightarrow> disk (kernel_view s) nm = Some Clock"
  by (simp add: dentry_desc_def)

lemma fish_main_mapped:
  assumes "mp1_set_video_mode c fetch vmem s = Some (base, s1)" "base \<noteq> 0"
  shows "fish_main c fetch poke vmem s = fish_show c (poke base) s1"
  using assms by (simp add: fish_main_def)

end
