(* ===== verification/FishRuns.thy ===== *)
theory FishRuns
  imports FishKernel
begin

text \<open>
  The animation (fish/fish.c) on this kernel, from its start to its end, and what happens when the frames do not
  end together.  The theorems are witnessed on two machines
  whose disk holds \<open>rtc\<close> and the frames, the first
  \<open>hello\<close> and the second of 28 bytes, on one line or on two.
\<close>

definition fish_image :: "byte list \<Rightarrow> mem" where
  "fish_image p = store_bytes 0x5000E0 (bytes32 2 @ bytes32 2) (store_bytes 0x5000C0 (bytes_of ''frame1.txt'' @ [0])
     (store_bytes 0x500080 (bytes_of ''frame0.txt'' @ [0]) (store_bytes 0x500060 (bytes32 0 @ bytes32 0)
     (store_bytes 0x500040 (bytes_of ''rtc'' @ [0]) (demo_image p)))))"

definition fish_machine :: "byte list \<Rightarrow> kernel_state" where
  "fish_machine p = (demo_machine p [])\<lparr>mem := fish_image p\<rparr>"

lemma fish_lengths: "length (bytes_of ''rtc'') = 3" "length (bytes_of ''frame0.txt'') = 10" "length (bytes_of ''frame1.txt'') = 10"
  by (simp_all add: bytes_of_def)

lemma fish_far: "0x501000 \<le> a \<Longrightarrow> fish_image p a = demo_image p a"
  by (simp add: fish_image_def store_bytes_outside fish_lengths)

lemma fish_words:
  assumes p: "length p = 28"
  shows "load_i32 (fish_image p) 0x500060 = 0" "load_i32 (fish_image p) 0x500064 = 0"
    "load_i32 (fish_image p) 0x5000A0 = 2" "load_i32 (fish_image p) 0x5000A4 = 1"
    "load_i32 (fish_image p) 0x5000E0 = 2" "load_i32 (fish_image p) 0x5000E4 = 2"
    "0x501000 \<le> a \<Longrightarrow> load_i32 (fish_image p) a = load_i32 (demo_image p) a"
proof -
  show "load_i32 (fish_image p) 0x5000A0 = 2" "load_i32 (fish_image p) 0x5000A4 = 1"
    using image_words(7,8) [OF p] by (simp_all add: load_i32_def load32_def fish_image_def store_bytes_outside fish_lengths)
  show "load_i32 (fish_image p) a = load_i32 (demo_image p) a" if "0x501000 \<le> a"
    using that by (simp add: load_i32_def load32_def fish_far)
qed (simp_all add: load_i32_def load32_def fish_image_def store_bytes_def bytes32_def fish_lengths)

lemma fish_bytes:
  "load_bytes (fish_image p) 0x500040 3 = bytes_of ''rtc''" "fish_image p 0x500043 = NUL"
  "load_bytes (fish_image p) 0x500080 10 = bytes_of ''frame0.txt''" "fish_image p 0x50008A = NUL"
  "load_bytes (fish_image p) 0x5000C0 10 = bytes_of ''frame1.txt''" "fish_image p 0x5000CA = NUL"
  by (simp_all add: fish_image_def load_bytes_def store_bytes_def bytes32_def bytes_of_def upt_conv_Cons)

lemma fish_names:
  "dentry_name (fish_image p) demo_dir 0 = bytes_of ''rtc''" "dentry_name (fish_image p) demo_dir 1 = bytes_of ''frame0.txt''"
  "dentry_name (fish_image p) demo_dir 2 = bytes_of ''frame1.txt''"
proof -
  have n: "length bs = n \<Longrightarrow> load_bytes (fish_image p) (direntry demo_dir i) n = bs \<Longrightarrow>
      (fish_image p) (direntry demo_dir i + n) = NUL \<Longrightarrow> NUL \<notin> set bs \<Longrightarrow> n \<le> 32 \<Longrightarrow> dentry_name (fish_image p) demo_dir i = bs"
    for i n bs by (auto intro: name_in_dir)
  have nul: "NUL \<notin> set (bytes_of ''rtc'')" "NUL \<notin> set (bytes_of ''frame0.txt'')" "NUL \<notin> set (bytes_of ''frame1.txt'')"
    by (simp_all add: bytes_of_def)
  show "dentry_name (fish_image p) demo_dir 0 = bytes_of ''rtc''"
    using fish_bytes nul fish_lengths by (intro n [of _ 3]) (simp_all add: demo_dir_simps)
  show "dentry_name (fish_image p) demo_dir 1 = bytes_of ''frame0.txt''" "dentry_name (fish_image p) demo_dir 2 = bytes_of ''frame1.txt''"
    using fish_bytes nul fish_lengths by (intro n [of _ 10]; simp add: demo_dir_simps)+
qed

lemma fish_inodes:
  assumes p: "length p = 28"
  shows "inode_placed (fish_image p) demo_dir 1" "inode_placed (fish_image p) demo_dir 2"
    "file_content (fish_image p) demo_dir 1 = bytes_of ''hello''" "file_content (fish_image p) demo_dir 2 = p"
proof -
  have i: "inode_length (fish_image p) demo_dir n = inode_length (demo_image p) demo_dir n"
    "data_block_num (fish_image p) demo_dir n 0 = data_block_num (demo_image p) demo_dir n 0" if "n = 1 \<or> n = 2" for n
    using that by (auto simp: inode_length_def data_block_num_def inode_addr_def demo_dir_def addr32_eq fish_words(7) [OF p])
  show "inode_placed (fish_image p) demo_dir 1" "inode_placed (fish_image p) demo_dir 2"
    by (simp_all add: inode_placed_def demo_dir_simps i image_inodes [OF p] block_ok_def) (simp_all add: demo_dir_def)
  have "file_content (fish_image p) demo_dir n = file_content (demo_image p) demo_dir n" if n: "n = 1 \<or> n = 2" for n
  proof -
    have "file_byte (fish_image p) demo_dir n k = file_byte (demo_image p) demo_dir n k" if "k < 28" for k
      using n that by (auto simp: file_byte_def i image_inodes [OF p])
        (simp_all add: data_byte_def demo_dir_def addr32_eq nat_add_distrib fish_far)
    then show ?thesis using n by (auto simp: file_content_def i image_inodes [OF p] simp del: upt_rec_numeral)
  qed
  then show "file_content (fish_image p) demo_dir 1 = bytes_of ''hello''" "file_content (fish_image p) demo_dir 2 = p"
    using image_file [OF p] by simp_all
qed

lemma fish_image_ok:
  assumes p: "length p = 28"
  shows "names_end (fish_image p) demo_dir" "0 \<le> i \<Longrightarrow> i < num_direntries demo_dir \<Longrightarrow> dentry_ok (fish_image p) demo_dir i"
proof -
  have cases: "i = 0 \<or> i = 1 \<or> i = 2" if "0 \<le> i" "i < num_direntries demo_dir" for i
    using that by (auto simp: demo_dir_def)
  have "\<exists>k < 64. (fish_image p) (0x500040 + k) = NUL" "\<exists>k < 64. (fish_image p) (0x500080 + k) = NUL"
    "\<exists>k < 64. (fish_image p) (0x5000C0 + k) = NUL"
    using fish_bytes [of p] by (auto intro: exI [of _ 3] exI [of _ 10])
  then show "names_end (fish_image p) demo_dir" unfolding names_end_def by (metis cases demo_dir_simps(1-3))
  assume "0 \<le> i" "i < num_direntries demo_dir"
  from cases [OF this] show "dentry_ok (fish_image p) demo_dir i"
    using fish_inodes(1,2) [OF p]
    by (auto simp: dentry_ok_def fish_names demo_dir_simps load_dentry_def fish_words [OF p] bytes_of_def)
qed

lemma fish_machine_simps:
  "mem (fish_machine p) = fish_image p" "fs (fish_machine p) = demo_dir" "running_pid (fish_machine p) = 1"
  "sched_term (fish_machine p) = 0" "pcbs (fish_machine p) = pcbs (demo_machine p [])" "newest_pid (fish_machine p) = 1"
  "paging_of (fish_machine p) = paging_of (demo_machine p [])" "terminals (fish_machine p) = terminals (demo_machine p [])"
  using machine_simps(3,4,7) [of p "[]"] by (simp_all add: fish_machine_def machine_simps running_pid_def newest_pid_def free_pid_def)

lemma fish_machine_serves:
  assumes p: "length p = 28"
  shows "serves (fish_machine p)"
proof -
  note pg = paging_cong [OF fish_machine_simps(7) [of p]]
  have "fd_table_ok (pcbs (fish_machine p) 1)" using demo_running_simps(5) by (simp add: fish_machine_simps machine_simps)
  moreover have "fd_ok m g (file_desc_arr (pcbs (fish_machine p) 1) i)" if "i < 8" for m g i
    using that by (simp add: fish_machine_simps machine_simps fd_ok_def) (simp add: demo_running_def build_pcb_fds)
  moreover have "screen_ok (shown (kernel_view (fish_machine p)))"
    by (simp add: fish_machine_simps machine_simps screen_of_def screen_ok_def cells_at_def demo_terminal_def zero_terminal_def)
  ultimately show ?thesis
    using fish_image_ok [OF p] demo_dir_simps(6,7) pg by (simp add: serves_def fs_ok_def fish_machine_simps machine_simps)
qed

lemma fish_machine_disk:
  assumes p: "length p = 28"
  shows "lookup (fish_machine p) (bytes_of ''rtc'') = Some (load_dentry (fish_image p) 0x500040)"
    "filetype (load_dentry (fish_image p) 0x500040) = 0"
    "holds_text (fish_machine p) (bytes_of ''frame0.txt'') (bytes_of ''hello'')" "holds_text (fish_machine p) (bytes_of ''frame1.txt'') p"
proof -
  have l: "lookup (fish_machine p) (bytes_of ''rtc'') = Some (load_dentry (fish_image p) 0x500040)"
    "lookup (fish_machine p) (bytes_of ''frame0.txt'') = Some (load_dentry (fish_image p) 0x500080)"
    "lookup (fish_machine p) (bytes_of ''frame1.txt'') = Some (load_dentry (fish_image p) 0x5000C0)"
    by (simp_all add: lookup_def fish_machine_simps demo_dir_simps fish_names) (simp_all add: bytes_of_def)
  then show "lookup (fish_machine p) (bytes_of ''rtc'') = Some (load_dentry (fish_image p) 0x500040)"
    "filetype (load_dentry (fish_image p) 0x500040) = 0"
    "holds_text (fish_machine p) (bytes_of ''frame0.txt'') (bytes_of ''hello'')" "holds_text (fish_machine p) (bytes_of ''frame1.txt'') p"
    by (simp_all add: holds_text_def fish_machine_simps load_dentry_def fish_words [OF p] fish_inodes [OF p])
qed

lemma fish_machine_fds:
  "num_open_descriptors (pcbs (fish_machine p) 1) = 2" "2 \<le> i \<Longrightarrow> i < 8 \<Longrightarrow> flags (file_desc_arr (pcbs (fish_machine p) 1) i) = 0"
proof -
  show n: "num_open_descriptors (pcbs (fish_machine p) 1) = 2" using demo_running_simps(6) by (simp add: fish_machine_simps machine_simps)
  have "fd_table_ok (pcbs (fish_machine p) 1)" using demo_running_simps(5) by (simp add: fish_machine_simps machine_simps)
  then show "flags (file_desc_arr (pcbs (fish_machine p) 1) i) = 0" if "2 \<le> i" "i < 8" using two_open n that by blast
qed

lemma fish_machine_screen: "vidmap_frame (fish_machine p) (sched_term (fish_machine p)) = video_frame (fish_machine p)"
proof -
  have "paging_of (fish_machine p) = paging_of demo_running" by (simp add: fish_machine_def demo_machine_def paging_of_def)
  then have "paging_of (fish_machine p) = paging_of demo_state" by (simp add: demo_running_def)
  from paging_cong(4,6) [OF this] show ?thesis by (simp add: fish_machine_simps) (simp add: demo_state_def paging_init_frames)
qed

definition one_line :: "byte list" where
  "one_line = bytes_of ''look at the fish on the left''"

definition two_lines :: "byte list" where
  "two_lines = bytes_of ''look at the'' @ [NEWLINE] @ bytes_of ''fish on the left''"

lemma fish_texts:
  "length one_line = 28" "length two_lines = 28" "length (frame_rows (bytes_of ''hello'')) = 1" "length (frame_rows one_line) = 1"
  "length (frame_rows two_lines) = 2"
  by (simp_all add: one_line_def two_lines_def frame_rows.simps bytes_of_def)

section \<open>The animation\<close>

text \<open>
  C11. The animation runs to its end on this kernel: when rtc is the clock and both frames are text files,
  the first with at least as many lines as the second, the program maps the screen, draws the
  frames, lets everything blink for 400 ticks of its virtual clock, of which only clock interrupts
  are needed, and returns 0; the screen is then what the specification on lists of
  blinking characters gives for the frames, the additions, the ticks, the synchronisation and the removal.
\<close>

theorem fish_plays:
  assumes "serves s" "placed A" "0x8000000 \<le> vmem" "vmem + 4 \<le> 0x8400000" "vidmap_frame s (sched_term s) = video_frame s"
    and "num_open_descriptors (pcbs s (running_pid s)) < 6" "lookup s (bytes_of ''rtc'') = Some d" "filetype d = 0"
    and "holds_text s (bytes_of ''frame0.txt'') b0" "holds_text s (bytes_of ''frame1.txt'') b1"
    and "length b0 \<le> 800" "length b1 \<le> 800" "length (frame_rows b1) \<le> length (frame_rows b0)"
  shows "\<exists>s' rs xs. fish_main (kernel_calls (clock_only dev) A x y run) (kernel_fetch vmem) kernel_poke vmem s = Some (0, s') \<and>
    spec_requests (drawing draw_byte) (fish_requests b0 b1) [] (shown (kernel_view s)) = Some (rs, xs, shown (kernel_view s'))"
proof -
  obtain base s1 where m: "mp1_set_video_mode (kernel_calls (clock_only dev) A x y run) (kernel_fetch vmem) vmem s = Some (base, s1)"
    "base \<noteq> 0" "serves s1" "kernel_view s1 = kernel_view s" "mapped (clock_only dev) base s1"
    by (rule video_mode_maps [OF assms(1) steady_clock assms(3-5)])
  have ok: "(serves s1 \<and> placed A) \<and> mapped (clock_only dev) base s1" using m(3,5) assms(2) by simp
  have v: "std (kernel_view s1)" "in_use (kernel_view s1) < 6" "disk (kernel_view s1) (bytes_of ''rtc'') = Some Clock"
    "disk (kernel_view s1) (bytes_of ''frame0.txt'') = Some (File b0)" "disk (kernel_view s1) (bytes_of ''frame1.txt'') = Some (File b1)"
    unfolding m(4) using kernel_std [OF assms(1)] kernel_in_use [OF assms(1)] clock_disk [OF assms(7,8)] assms(6)
      holds_text_disk [OF assms(9)] holds_text_disk [OF assms(10)] by (simp_all del: kernel_view_simps)
  show ?thesis
    using kernel_animation.fish_show_shows [OF ok v short_on_places [OF assms(11,12)] assms(13), of x y run]
    unfolding fish_main_mapped [OF m(1,2)] m(4) returns_iff by blast
qed

theorem fish_plays_witness:
  "\<exists>s' rs xs. fish_main (kernel_calls (clock_only (\<lambda>_ _. 0)) 0x8001000 0 0 (\<lambda>_ _. None)) (kernel_fetch 0x8002000) kernel_poke 0x8002000
      (fish_machine one_line) = Some (0, s') \<and>
    spec_requests (drawing draw_byte) (fish_requests (bytes_of ''hello'') one_line) [] (shown (kernel_view (fish_machine one_line))) =
      Some (rs, xs, shown (kernel_view s'))"
proof (rule fish_plays)
  note p = fish_texts(1)
  show "serves (fish_machine one_line)" by (rule fish_machine_serves [OF p])
  show "vidmap_frame (fish_machine one_line) (sched_term (fish_machine one_line)) = video_frame (fish_machine one_line)"
    by (rule fish_machine_screen)
  show "num_open_descriptors (pcbs (fish_machine one_line) (running_pid (fish_machine one_line))) < 6"
    using fish_machine_fds(1) by (simp add: fish_machine_simps(3))
  show "lookup (fish_machine one_line) (bytes_of ''rtc'') = Some (load_dentry (fish_image one_line) 0x500040)"
    "filetype (load_dentry (fish_image one_line) 0x500040) = 0"
    "holds_text (fish_machine one_line) (bytes_of ''frame0.txt'') (bytes_of ''hello'')"
    "holds_text (fish_machine one_line) (bytes_of ''frame1.txt'') one_line"
    by (rule fish_machine_disk [OF p])+
  show "length (bytes_of ''hello'') \<le> 800" "length one_line \<le> 800" by (simp_all add: fish_texts bytes_of_def)
  show "length (frame_rows one_line) \<le> length (frame_rows (bytes_of ''hello''))" by (simp add: fish_texts)
qed (simp_all add: placed_def)

text \<open>
  C38. When the first frame has fewer lines than the second, and the program has no descriptor open above
  a closed one, the animation never starts: the frame that ends first is closed, and with one open
  descriptor less this kernel refuses the descriptor of the other, whose reads then return -1
  for ever without a line feed and without the end of the file.
\<close>

theorem fish_hangs:
  assumes "serves s" "placed A" "0x8000000 \<le> vmem" "vmem + 4 \<le> 0x8400000" "vidmap_frame s (sched_term s) = video_frame s"
    and "num_open_descriptors (pcbs s (running_pid s)) < 6" "lookup s (bytes_of ''rtc'') = Some d" "filetype d = 0"
    and "\<forall>i \<in> {nat (num_open_descriptors (pcbs s (running_pid s)))..<8}. flags (file_desc_arr (pcbs s (running_pid s)) i) = 0"
    and "holds_text s (bytes_of ''frame0.txt'') b0" "holds_text s (bytes_of ''frame1.txt'') b1"
    and "length b0 \<le> 800" "length b1 \<le> 800" "length (frame_rows b0) < length (frame_rows b1)"
  shows "fish_main (kernel_calls (clock_only dev) A x y run) (kernel_fetch vmem) kernel_poke vmem s = None"
proof -
  obtain base s1 where m: "mp1_set_video_mode (kernel_calls (clock_only dev) A x y run) (kernel_fetch vmem) vmem s = Some (base, s1)"
    "base \<noteq> 0" "serves s1" "kernel_view s1 = kernel_view s" "mapped (clock_only dev) base s1"
    by (rule video_mode_maps [OF assms(1) steady_clock assms(3-5)])
  have ok: "(serves s1 \<and> placed A) \<and> mapped (clock_only dev) base s1" using m(3,5) assms(2) by simp
  have "descs (kernel_view s) i = Closed" if "i < 8" "in_use (kernel_view s) \<le> int i" for i
    using that assms(9) kernel_in_use [OF assms(1)] by (simp add: fd_desc_def)
  then have v: "std (kernel_view s1)" "in_use (kernel_view s1) < 6" "disk (kernel_view s1) (bytes_of ''rtc'') = Some Clock"
    "disk (kernel_view s1) (bytes_of ''frame0.txt'') = Some (File b0)" "disk (kernel_view s1) (bytes_of ''frame1.txt'') = Some (File b1)"
    "dense (kernel_view s1)"
    unfolding m(4) using kernel_std [OF assms(1)] kernel_in_use [OF assms(1)] clock_disk [OF assms(7,8)] assms(6)
      holds_text_disk [OF assms(10)] holds_text_disk [OF assms(11)] by (simp_all add: dense_def del: kernel_view_simps)
  show ?thesis
    unfolding fish_main_mapped [OF m(1,2)]
    by (rule kernel_screen.fish_show_hangs [OF ok v(1-5) short_on_places [OF assms(12,13)] assms(14) v(6)])
qed

theorem fish_hangs_witness:
  "fish_main (kernel_calls (clock_only (\<lambda>_ _. 0)) 0x8001000 0 0 (\<lambda>_ _. None)) (kernel_fetch 0x8002000) kernel_poke 0x8002000
     (fish_machine two_lines) = None"
proof (rule fish_hangs)
  note p = fish_texts(2)
  show "serves (fish_machine two_lines)" by (rule fish_machine_serves [OF p])
  show "vidmap_frame (fish_machine two_lines) (sched_term (fish_machine two_lines)) = video_frame (fish_machine two_lines)"
    by (rule fish_machine_screen)
  show "num_open_descriptors (pcbs (fish_machine two_lines) (running_pid (fish_machine two_lines))) < 6"
    using fish_machine_fds(1) by (simp add: fish_machine_simps(3))
  show "\<forall>i \<in> {nat (num_open_descriptors (pcbs (fish_machine two_lines) (running_pid (fish_machine two_lines))))..<8}.
      flags (file_desc_arr (pcbs (fish_machine two_lines) (running_pid (fish_machine two_lines))) i) = 0"
    using fish_machine_fds by (simp add: fish_machine_simps(3))
  show "lookup (fish_machine two_lines) (bytes_of ''rtc'') = Some (load_dentry (fish_image two_lines) 0x500040)"
    "filetype (load_dentry (fish_image two_lines) 0x500040) = 0"
    "holds_text (fish_machine two_lines) (bytes_of ''frame0.txt'') (bytes_of ''hello'')"
    "holds_text (fish_machine two_lines) (bytes_of ''frame1.txt'') two_lines"
    by (rule fish_machine_disk [OF p])+
  show "length (bytes_of ''hello'') \<le> 800" "length two_lines \<le> 800" by (simp_all add: fish_texts bytes_of_def)
  show "length (frame_rows (bytes_of ''hello'')) < length (frame_rows two_lines)" by (simp add: fish_texts)
qed (simp_all add: placed_def)

end
