(* ===== verification/Segments.thy ===== *)
theory Segments
  imports Idt Boot
begin

text \<open>
  Segment descriptors (x86_desc.h, x86_desc.S), the jump into protected segments (boot.S) and the entries
  that kernel.c builds for the local descriptor table and the task state segment.

  \<open>ldt\<close> and \<open>tss\<close> are the addresses the linker gives to the two tables.
\<close>

section \<open>Descriptors\<close>

type_synonym u64 = "64 word"

text \<open>The bit fields, from the lowest bit up, and the eight bytes they fill.\<close>

record seg_desc_t =
  seg_lim_15_00 :: u16
  base_15_00 :: u16
  base_23_16 :: byte
  seg_type :: "4 word"
  seg_sys :: bit1
  seg_dpl :: "2 word"
  seg_present :: bit1
  seg_lim_19_16 :: "4 word"
  seg_avail :: bit1
  seg_reserved :: bit1
  seg_opsize :: bit1
  seg_granularity :: bit1
  base_31_24 :: byte

definition seg_val :: "seg_desc_t \<Rightarrow> u64" where
  "seg_val d = ucast (seg_lim_15_00 d) OR push_bit 16 (ucast (base_15_00 d)) OR push_bit 32 (ucast (base_23_16 d)) OR
     push_bit 40 (ucast (seg_type d)) OR push_bit 44 (ucast (seg_sys d)) OR push_bit 45 (ucast (seg_dpl d)) OR
     push_bit 47 (ucast (seg_present d)) OR push_bit 48 (ucast (seg_lim_19_16 d)) OR push_bit 52 (ucast (seg_avail d)) OR
     push_bit 53 (ucast (seg_reserved d)) OR push_bit 54 (ucast (seg_opsize d)) OR push_bit 55 (ucast (seg_granularity d)) OR
     push_bit 56 (ucast (base_31_24 d))"

definition seg_of :: "u64 \<Rightarrow> seg_desc_t" where
  "seg_of w = \<lparr>seg_lim_15_00 = ucast w, base_15_00 = ucast (drop_bit 16 w), base_23_16 = ucast (drop_bit 32 w),
     seg_type = ucast (drop_bit 40 w), seg_sys = ucast (drop_bit 44 w), seg_dpl = ucast (drop_bit 45 w),
     seg_present = ucast (drop_bit 47 w), seg_lim_19_16 = ucast (drop_bit 48 w), seg_avail = ucast (drop_bit 52 w),
     seg_reserved = ucast (drop_bit 53 w), seg_opsize = ucast (drop_bit 54 w), seg_granularity = ucast (drop_bit 55 w),
     base_31_24 = ucast (drop_bit 56 w)\<rparr>"

definition SET_LDT_PARAMS :: "u32 \<Rightarrow> u32 \<Rightarrow> seg_desc_t \<Rightarrow> seg_desc_t" where
  "SET_LDT_PARAMS addr lim d =
     d\<lparr>base_31_24 := ucast (drop_bit 24 (addr AND 0xFF000000)), base_23_16 := ucast (drop_bit 16 (addr AND 0x00FF0000)),
       base_15_00 := ucast (addr AND 0x0000FFFF), seg_lim_19_16 := ucast (drop_bit 16 (lim AND 0x000F0000)),
       seg_lim_15_00 := ucast (lim AND 0x0000FFFF)\<rparr>"

definition SET_TSS_PARAMS :: "u32 \<Rightarrow> u32 \<Rightarrow> seg_desc_t \<Rightarrow> seg_desc_t" where
  "SET_TSS_PARAMS addr lim d =
     d\<lparr>base_31_24 := ucast (drop_bit 24 (addr AND 0xFF000000)), base_23_16 := ucast (drop_bit 16 (addr AND 0x00FF0000)),
       base_15_00 := ucast (addr AND 0x0000FFFF), seg_lim_19_16 := ucast (drop_bit 16 (lim AND 0x000F0000)),
       seg_lim_15_00 := ucast (lim AND 0x0000FFFF)\<rparr>"

text \<open>The task state segment, and its bytes: each field in little endian, without gaps.\<close>

record tss_t =
  ts_prev_task_link :: u16
  ts_prev_task_link_pad :: u16
  ts_esp0 :: u32
  ts_ss0 :: u16
  ts_ss0_pad :: u16
  ts_esp1 :: u32
  ts_ss1 :: u16
  ts_ss1_pad :: u16
  ts_esp2 :: u32
  ts_ss2 :: u16
  ts_ss2_pad :: u16
  ts_cr3 :: u32
  ts_eip :: u32
  ts_eflags :: u32
  ts_eax :: u32
  ts_ecx :: u32
  ts_edx :: u32
  ts_ebx :: u32
  ts_esp :: u32
  ts_ebp :: u32
  ts_esi :: u32
  ts_edi :: u32
  ts_es :: u16
  ts_es_pad :: u16
  ts_cs :: u16
  ts_cs_pad :: u16
  ts_ss :: u16
  ts_ss_pad :: u16
  ts_ds :: u16
  ts_ds_pad :: u16
  ts_fs :: u16
  ts_fs_pad :: u16
  ts_gs :: u16
  ts_gs_pad :: u16
  ts_ldt_segment_selector :: u16
  ts_ldt_pad :: u16
  ts_debug_trap :: bit1
  ts_io_pad :: "15 word"
  ts_io_base_addr :: u16

definition bytes16 :: "u16 \<Rightarrow> byte list" where
  "bytes16 w = [ucast w, ucast (drop_bit 8 w)]"

definition tss_bytes :: "tss_t \<Rightarrow> byte list" where
  "tss_bytes t =
     bytes16 (ts_prev_task_link t) @ bytes16 (ts_prev_task_link_pad t) @ bytes32 (ts_esp0 t) @ bytes16 (ts_ss0 t) @
     bytes16 (ts_ss0_pad t) @ bytes32 (ts_esp1 t) @ bytes16 (ts_ss1 t) @ bytes16 (ts_ss1_pad t) @ bytes32 (ts_esp2 t) @
     bytes16 (ts_ss2 t) @ bytes16 (ts_ss2_pad t) @ bytes32 (ts_cr3 t) @ bytes32 (ts_eip t) @ bytes32 (ts_eflags t) @
     bytes32 (ts_eax t) @ bytes32 (ts_ecx t) @ bytes32 (ts_edx t) @ bytes32 (ts_ebx t) @ bytes32 (ts_esp t) @
     bytes32 (ts_ebp t) @ bytes32 (ts_esi t) @ bytes32 (ts_edi t) @ bytes16 (ts_es t) @ bytes16 (ts_es_pad t) @
     bytes16 (ts_cs t) @ bytes16 (ts_cs_pad t) @ bytes16 (ts_ss t) @ bytes16 (ts_ss_pad t) @ bytes16 (ts_ds t) @
     bytes16 (ts_ds_pad t) @ bytes16 (ts_fs t) @ bytes16 (ts_fs_pad t) @ bytes16 (ts_gs t) @ bytes16 (ts_gs_pad t) @
     bytes16 (ts_ldt_segment_selector t) @ bytes16 (ts_ldt_pad t) @
     bytes16 (ucast (ts_debug_trap t) OR push_bit 1 (ucast (ts_io_pad t))) @ bytes16 (ts_io_base_addr t)"

section \<open>The tables and the registers\<close>

abbreviation USER_CS :: u16 where "USER_CS \<equiv> 0x23"
abbreviation USER_DS :: u16 where "USER_DS \<equiv> 0x2B"
abbreviation KERNEL_TSS :: u16 where "KERNEL_TSS \<equiv> 0x30"
abbreviation KERNEL_LDT :: u16 where "KERNEL_LDT \<equiv> 0x38"
abbreviation TSS_SIZE :: u32 where "TSS_SIZE \<equiv> 104"

definition tss_size :: u32 where "tss_size = 104 - 1"
definition ldt_size :: u32 where "ldt_size = 4 * 8 - 1"

definition gdt_words :: "u64 list" where
  "gdt_words = [0, 0, 0x00CF9A000000FFFF, 0x00CF92000000FFFF, 0x00CFFA000000FFFF, 0x00CFF2000000FFFF, 0, 0]"

record segments =
  gdt :: "u64 list"
  gdtr_limit :: u16
  idtr_limit :: u16
  reg_cs :: u16
  reg_ss :: u16
  reg_ds :: u16
  reg_es :: u16
  reg_fs :: u16
  reg_gs :: u16
  ldtr :: u16
  task_register :: u16
  tss_ldt_selector :: u16

text \<open>boot.S, up to the call of entry.\<close>

definition start_segments :: "segments \<Rightarrow> segments" where
  "start_segments g =
     (let g = g\<lparr>gdtr_limit := word_of_nat (8 * length (gdt g)) - 1\<rparr>;
          g = g\<lparr>idtr_limit := word_of_nat (8 * NUM_VEC) - 1\<rparr>;
          g = g\<lparr>reg_cs := KERNEL_CS\<rparr>;
          cx = ucast KERNEL_DS
      in g\<lparr>reg_ss := cx, reg_ds := cx, reg_es := cx, reg_fs := cx, reg_gs := cx\<rparr>)"

text \<open>The two local variables of entry, \<open>d\<close> what they hold before.\<close>

definition the_ldt_desc :: "u32 \<Rightarrow> seg_desc_t \<Rightarrow> seg_desc_t" where
  "the_ldt_desc ldt d =
     (let d = d\<lparr>seg_granularity := 0, seg_opsize := 1, seg_reserved := 0, seg_avail := 0, seg_present := 1, seg_dpl := 0,
                seg_sys := 0, seg_type := 2\<rparr>
      in SET_LDT_PARAMS ldt ldt_size d)"

definition the_tss_desc :: "u32 \<Rightarrow> seg_desc_t \<Rightarrow> seg_desc_t" where
  "the_tss_desc tss d =
     (let d = d\<lparr>seg_granularity := 0, seg_opsize := 0, seg_reserved := 0, seg_avail := 0,
                seg_lim_19_16 := ucast (TSS_SIZE AND 0x000F0000), seg_present := 1, seg_dpl := 0, seg_sys := 0, seg_type := 9,
                seg_lim_15_00 := ucast (TSS_SIZE AND 0x0000FFFF)\<rparr>
      in SET_TSS_PARAMS tss tss_size d)"

definition entry_segments :: "u32 \<Rightarrow> u32 \<Rightarrow> seg_desc_t \<Rightarrow> seg_desc_t \<Rightarrow> segments \<Rightarrow> segments" where
  "entry_segments ldt tss d0 d1 g =
     (let g = g\<lparr>gdt := (gdt g)[7 := seg_val (the_ldt_desc ldt d0)]\<rparr>;
          g = g\<lparr>ldtr := KERNEL_LDT\<rparr>;
          g = g\<lparr>gdt := (gdt g)[6 := seg_val (the_tss_desc tss d1)]\<rparr>;
          g = g\<lparr>tss_ldt_selector := KERNEL_LDT\<rparr>
      in g\<lparr>task_register := KERNEL_TSS\<rparr>)"

section \<open>What the processor reads\<close>

definition selected :: "segments \<Rightarrow> u16 \<Rightarrow> seg_desc_t option" where
  "selected g sel = (if 8 * (unat sel div 8) + 7 \<le> unat (gdtr_limit g) then Some (seg_of (gdt g ! (unat sel div 8))) else None)"

definition seg_base :: "seg_desc_t \<Rightarrow> u32" where
  "seg_base d = ucast (base_15_00 d) OR push_bit 16 (ucast (base_23_16 d)) OR push_bit 24 (ucast (base_31_24 d))"

definition seg_limit :: "seg_desc_t \<Rightarrow> nat" where
  "seg_limit d = (let l = unat (seg_lim_15_00 d) + 0x10000 * unat (seg_lim_19_16 d)
     in if seg_granularity d = 1 then l * 0x1000 + 0xFFF else l)"

text \<open>A segment that changes no address: all 4 GB from 0.\<close>

definition flat :: "seg_desc_t \<Rightarrow> bool" where
  "flat d \<longleftrightarrow> seg_present d = 1 \<and> seg_base d = 0 \<and> seg_limit d = 0xFFFFFFFF"

section \<open>Lemmas\<close>

lemma seg_round_trip: "seg_of (seg_val d) = d"
proof (cases d)
  case (fields l b15 b23 t y p r l19 a v z g b31)
  show ?thesis
    unfolding fields seg_of_def seg_val_def
    by (simp, intro conjI; rule bit_word_eqI) (auto simp: bit_simps dest: bit_imp_le_length)
qed

lemma word_parts:
  fixes w :: u32
  shows "(ucast (drop_bit 24 (w AND 0xFF000000)) :: byte) = ucast (drop_bit 24 w)"
    "(ucast (drop_bit 16 (w AND 0x00FF0000)) :: byte) = ucast (drop_bit 16 w)"
    "(ucast (w AND 0x0000FFFF) :: u16) = ucast w"
    "(ucast (drop_bit 16 (w AND 0x000F0000)) :: 4 word) = ucast (drop_bit 16 w)"
proof -
  have m: "(0xFF000000 :: u32) = push_bit 24 (mask 8)" "(0x00FF0000 :: u32) = push_bit 16 (mask 8)" "(0x0000FFFF :: u32) = mask 16"
    "(0x000F0000 :: u32) = push_bit 16 (mask 4)"
    by (simp_all add: mask_eq_exp_minus_1)
  show "(ucast (drop_bit 24 (w AND 0xFF000000)) :: byte) = ucast (drop_bit 24 w)"
    "(ucast (drop_bit 16 (w AND 0x00FF0000)) :: byte) = ucast (drop_bit 16 w)"
    "(ucast (w AND 0x0000FFFF) :: u16) = ucast w"
    "(ucast (drop_bit 16 (w AND 0x000F0000)) :: 4 word) = ucast (drop_bit 16 w)"
    unfolding m by (rule bit_word_eqI, auto simp: bit_simps dest: bit_imp_le_length)+
qed

lemma seg_params_base:
  "seg_base (SET_LDT_PARAMS addr lim d) = addr" "seg_base (SET_TSS_PARAMS addr lim d) = addr"
proof -
  have "(ucast (ucast addr :: u16) OR push_bit 16 (ucast (ucast (drop_bit 16 addr) :: byte)) OR
      push_bit 24 (ucast (ucast (drop_bit 24 addr) :: byte)) :: u32) = addr"
  proof (rule bit_word_eqI)
    fix n
    assume "n < LENGTH(32)"
    moreover have "n < 16 \<or> 16 \<le> n \<and> n < 24 \<or> 24 \<le> n" by linarith
    ultimately show "bit (ucast (ucast addr :: u16) OR push_bit 16 (ucast (ucast (drop_bit 16 addr) :: byte)) OR
        push_bit 24 (ucast (ucast (drop_bit 24 addr) :: byte)) :: u32) n = bit addr n"
      by (elim disjE) (auto simp: bit_simps)
  qed
  then show "seg_base (SET_LDT_PARAMS addr lim d) = addr" "seg_base (SET_TSS_PARAMS addr lim d) = addr"
    unfolding SET_LDT_PARAMS_def SET_TSS_PARAMS_def seg_base_def word_parts by simp_all
qed

text \<open>The state in which entry leaves the segments, whatever was on its stack and in the registers.\<close>

definition entered :: "u32 \<Rightarrow> u32 \<Rightarrow> seg_desc_t \<Rightarrow> seg_desc_t \<Rightarrow> segments \<Rightarrow> segments" where
  "entered ldt tss d0 d1 g = entry_segments ldt tss d0 d1 (start_segments (g\<lparr>gdt := gdt_words\<rparr>))"

lemma entered_selected:
  "selected (entered ldt tss d0 d1 g) KERNEL_CS = Some (seg_of 0x00CF9A000000FFFF)"
  "selected (entered ldt tss d0 d1 g) (ucast KERNEL_DS) = Some (seg_of 0x00CF92000000FFFF)"
  "selected (entered ldt tss d0 d1 g) USER_CS = Some (seg_of 0x00CFFA000000FFFF)"
  "selected (entered ldt tss d0 d1 g) USER_DS = Some (seg_of 0x00CFF2000000FFFF)"
  "selected (entered ldt tss d0 d1 g) KERNEL_TSS = Some (the_tss_desc tss d1)"
  "selected (entered ldt tss d0 d1 g) KERNEL_LDT = Some (the_ldt_desc ldt d0)"
  by (simp_all add: selected_def entered_def entry_segments_def start_segments_def Let_def gdt_words_def seg_round_trip)

text \<open>
  The structure has the size of the segment, and the processor finds the kernel's stack in it where it looks for
  it: the stack pointer at byte 4, the stack segment at byte 8, the local table's selector at byte 96.
\<close>

lemma tss_layout:
  "length (tss_bytes t) = unat tss_size + 1" "load_bytes (arr_of (tss_bytes t)) 4 4 = bytes32 (ts_esp0 t)"
  "load_bytes (arr_of (tss_bytes t)) 8 2 = bytes16 (ts_ss0 t)" "load_bytes (arr_of (tss_bytes t)) 96 2 = bytes16 (ts_ldt_segment_selector t)"
  by (simp_all add: tss_bytes_def tss_size_def bytes16_def bytes32_def load_bytes_def arr_of_def)

definition flat_selector :: "segments \<Rightarrow> u16 \<Rightarrow> 4 word \<Rightarrow> bool" where
  "flat_selector g sel typ \<longleftrightarrow>
     (\<exists>d. selected g sel = Some d \<and> flat d \<and> seg_sys d = 1 \<and> seg_type d = typ \<and> unat (seg_dpl d) = unat sel mod 4)"

definition system_selector :: "segments \<Rightarrow> u16 \<Rightarrow> 4 word \<Rightarrow> u32 \<Rightarrow> nat \<Rightarrow> bool" where
  "system_selector g sel typ base n \<longleftrightarrow>
     (\<exists>d. selected g sel = Some d \<and> seg_present d = 1 \<and> seg_sys d = 0 \<and> seg_type d = typ \<and> seg_dpl d = 0 \<and>
       seg_base d = base \<and> seg_limit d + 1 = n)"

text \<open>
  C30. Segmentation changes no address: with the tables that boot.S loads and entry completes, the code
  and data selectors of the kernel and of the programs name present segments of all 4 GB from 0,
  executable for the code selectors and writable for the others, each with the privilege its selector
  requests, and the kernel runs on its own two; the task register names a present, available 32-bit task
  state segment at \<open>tss\<close> with its 104 bytes, the local table's selector a local descriptor table of four
  entries at \<open>ldt\<close>; and all of this does not depend on what the stack held for entry's two local
  descriptors.
\<close>

theorem segments_flat:
  "flat_selector (entered ldt tss d0 d1 g) KERNEL_CS 0xA \<and> flat_selector (entered ldt tss d0 d1 g) (ucast KERNEL_DS) 0x2
   \<and> flat_selector (entered ldt tss d0 d1 g) USER_CS 0xA \<and> flat_selector (entered ldt tss d0 d1 g) USER_DS 0x2
   \<and> reg_cs (entered ldt tss d0 d1 g) = KERNEL_CS \<and> reg_ss (entered ldt tss d0 d1 g) = ucast KERNEL_DS
   \<and> reg_ds (entered ldt tss d0 d1 g) = ucast KERNEL_DS
   \<and> system_selector (entered ldt tss d0 d1 g) (task_register (entered ldt tss d0 d1 g)) 9 tss 104
   \<and> system_selector (entered ldt tss d0 d1 g) (ldtr (entered ldt tss d0 d1 g)) 2 ldt (8 * 4)"
proof (intro conjI)
  show "flat_selector (entered ldt tss d0 d1 g) KERNEL_CS 0xA" "flat_selector (entered ldt tss d0 d1 g) (ucast KERNEL_DS) 0x2"
    "flat_selector (entered ldt tss d0 d1 g) USER_CS 0xA" "flat_selector (entered ldt tss d0 d1 g) USER_DS 0x2"
    using entered_selected(1-4) by (simp_all add: flat_selector_def flat_def seg_base_def seg_limit_def seg_of_def)
  show "reg_cs (entered ldt tss d0 d1 g) = KERNEL_CS" "reg_ss (entered ldt tss d0 d1 g) = ucast KERNEL_DS"
    "reg_ds (entered ldt tss d0 d1 g) = ucast KERNEL_DS"
    by (simp_all add: entered_def entry_segments_def start_segments_def Let_def)
  have r: "task_register (entered ldt tss d0 d1 g) = KERNEL_TSS" "ldtr (entered ldt tss d0 d1 g) = KERNEL_LDT"
    by (simp_all add: entered_def entry_segments_def Let_def)
  show "system_selector (entered ldt tss d0 d1 g) (task_register (entered ldt tss d0 d1 g)) 9 tss 104"
    unfolding r system_selector_def entered_selected
    by (simp add: the_tss_desc_def seg_params_base Let_def) (simp add: SET_TSS_PARAMS_def seg_limit_def tss_size_def)
  show "system_selector (entered ldt tss d0 d1 g) (ldtr (entered ldt tss d0 d1 g)) 2 ldt (8 * 4)"
    unfolding r system_selector_def entered_selected
    by (simp add: the_ldt_desc_def seg_params_base Let_def) (simp add: SET_LDT_PARAMS_def seg_limit_def ldt_size_def)
qed

end
