(* ===== verification/Entry.thy ===== *)
theory Entry
  imports Boot
begin

text \<open>
  The first part of entry (kernel.c, multiboot.h): the check of the boot loader's magic number, the report
  of what it passes, and the address of the file system, the first module.

  Paging is off and the structures are read from physical memory.  The output is the list of the
  calls of clear and printf with their arguments; what they leave on the screen is cleared again before the shell
  starts.  The second part of entry is \<open>boot\<close>.
\<close>

section \<open>The structures of the boot loader\<close>

record elf_section_header_table_t =
  elf_num :: u32
  elf_size :: u32
  elf_addr :: u32
  elf_shndx :: u32

record multiboot_info_t =
  mb_flags :: u32
  mem_lower :: u32
  mem_upper :: u32
  boot_device :: u32
  cmdline :: u32
  mods_count :: u32
  mods_addr :: u32
  elf_sec :: elf_section_header_table_t
  mmap_length :: u32
  mmap_addr :: u32

record module_t =
  mod_start :: u32
  mod_end :: u32
  mod_string :: u32
  mod_reserved :: u32

record memory_map_t =
  map_size :: u32
  base_addr_low :: u32
  base_addr_high :: u32
  length_low :: u32
  length_high :: u32
  map_type :: u32

abbreviation MULTIBOOT_BOOTLOADER_MAGIC :: u32 where "MULTIBOOT_BOOTLOADER_MAGIC \<equiv> 0x2BADB002"

text \<open>The word at an offset of a structure.\<close>

definition field :: "mem \<Rightarrow> u32 \<Rightarrow> u32 \<Rightarrow> u32" where
  "field m a off = load32 m (unat (a + off))"

definition load_elf :: "mem \<Rightarrow> u32 \<Rightarrow> elf_section_header_table_t" where
  "load_elf m a = \<lparr>elf_num = field m a 0, elf_size = field m a 4, elf_addr = field m a 8, elf_shndx = field m a 12\<rparr>"

definition load_info :: "mem \<Rightarrow> u32 \<Rightarrow> multiboot_info_t" where
  "load_info m a = \<lparr>mb_flags = field m a 0, mem_lower = field m a 4, mem_upper = field m a 8, boot_device = field m a 12,
     cmdline = field m a 16, mods_count = field m a 20, mods_addr = field m a 24, elf_sec = load_elf m (a + 28),
     mmap_length = field m a 44, mmap_addr = field m a 48\<rparr>"

definition load_module :: "mem \<Rightarrow> u32 \<Rightarrow> module_t" where
  "load_module m a = \<lparr>mod_start = field m a 0, mod_end = field m a 4, mod_string = field m a 8, mod_reserved = field m a 12\<rparr>"

definition load_map :: "mem \<Rightarrow> u32 \<Rightarrow> memory_map_t" where
  "load_map m a = \<lparr>map_size = field m a 0, base_addr_low = field m a 4, base_addr_high = field m a 8, length_low = field m a 12,
     length_high = field m a 16, map_type = field m a 20\<rparr>"

section \<open>The report\<close>

text \<open>A call of clear, and one of printf: the format and the words of its arguments.\<close>

datatype print = Clear | Print "byte list" "u32 list"

definition CHECK_FLAG :: "u32 \<Rightarrow> nat \<Rightarrow> bool" where
  "CHECK_FLAG fl b \<longleftrightarrow> fl AND push_bit b 1 \<noteq> 0"

abbreviation line_fmt :: "string \<Rightarrow> byte list" where
  "line_fmt s \<equiv> bytes_of s @ [0x0A]"

text \<open>The characters of the module are signed.\<close>

definition show_module :: "mem \<Rightarrow> nat \<Rightarrow> module_t \<Rightarrow> print list" where
  "show_module m count md =
     [Print (line_fmt ''Module %d loaded at address: 0x%#x'') [word_of_nat count, mod_start md],
      Print (line_fmt ''Module %d ends at address: 0x%#x'') [word_of_nat count, mod_end md],
      Print (line_fmt ''First few bytes of module:'') []] @
     map (\<lambda>i. Print (bytes_of ''0x%x '') [scast (m (unat (mod_start md + word_of_nat i)))]) [0..<16] @
     [Print (line_fmt '''') []]"

definition show_modules :: "mem \<Rightarrow> multiboot_info_t \<Rightarrow> print list" where
  "show_modules m mbi =
     concat (map (\<lambda>k. show_module m k (load_module m (mods_addr mbi + 16 * word_of_nat k))) [0..<unat (mods_count mbi)])"

definition show_map :: "memory_map_t \<Rightarrow> print" where
  "show_map e = Print (line_fmt ''    size = 0x%x, base_addr = 0x%#x%#x'' @ line_fmt ''    type = 0x%x,  length    = 0x%#x%#x'')
     [map_size e, base_addr_high e, base_addr_low e, map_type e, length_high e, length_low e]"

text \<open>The walk through the memory map; the next entry is at the size of this one and four more.\<close>

partial_function (option) show_maps :: "mem \<Rightarrow> u32 \<Rightarrow> u32 \<Rightarrow> print list option" where
  "show_maps m mmap end =
     (if mmap < end then do {
        let e = load_map m mmap;
        ps \<leftarrow> show_maps m (mmap + map_size e + 4) end;
        Some (show_map e # ps)
      } else Some [])"

text \<open>
  How the report ends: entry returns at once, or goes on with the address of the file system, which is
  \<open>None\<close> when nothing has been stored in the variable.
\<close>

datatype outcome = Refused | Starts "u32 option"

definition show_flags :: "multiboot_info_t \<Rightarrow> print list" where
  "show_flags mbi =
     [Print (line_fmt ''flags = 0x%#x'') [mb_flags mbi]] @
     (if CHECK_FLAG (mb_flags mbi) 0
      then [Print (line_fmt ''mem_lower = %uKB, mem_upper = %uKB'') [mem_lower mbi, mem_upper mbi]] else []) @
     (if CHECK_FLAG (mb_flags mbi) 1 then [Print (line_fmt ''boot_device = 0x%#x'') [boot_device mbi]] else []) @
     (if CHECK_FLAG (mb_flags mbi) 2 then [Print (line_fmt ''cmdline = %s'') [cmdline mbi]] else [])"

definition show_elf :: "multiboot_info_t \<Rightarrow> print list" where
  "show_elf mbi =
     (if CHECK_FLAG (mb_flags mbi) 5
      then let s = elf_sec mbi in
        [Print (line_fmt ''elf_sec: num = %u, size = 0x%#x, addr = 0x%#x, shndx = 0x%#x'') [elf_num s, elf_size s, elf_addr s, elf_shndx s]]
      else [])"

definition show_memory :: "mem \<Rightarrow> multiboot_info_t \<Rightarrow> print list option" where
  "show_memory m mbi =
     (if CHECK_FLAG (mb_flags mbi) 6 then do {
        ps \<leftarrow> show_maps m (mmap_addr mbi) (mmap_addr mbi + mmap_length mbi);
        Some (Print (line_fmt ''mmap_addr = 0x%#x, mmap_length = 0x%x'') [mmap_addr mbi, mmap_length mbi] # ps)
      } else Some [])"

definition entry_report :: "mem \<Rightarrow> u32 \<Rightarrow> u32 \<Rightarrow> (print list \<times> outcome) option" where
  "entry_report m magic addr =
     (if magic \<noteq> MULTIBOOT_BOOTLOADER_MAGIC then Some ([Clear, Print (line_fmt ''Invalid magic number: 0x%#x'') [magic]], Refused)
      else
        let mbi = load_info m addr;
            ps = Clear # show_flags mbi;
            modules = CHECK_FLAG (mb_flags mbi) 3;
            filesys_start = (if modules then Some (mod_start (load_module m (mods_addr mbi))) else None);
            ps = ps @ (if modules then show_modules m mbi else [])
        in if CHECK_FLAG (mb_flags mbi) 4 \<and> CHECK_FLAG (mb_flags mbi) 5
           then Some (ps @ [Print (line_fmt ''Both bits 4 and 5 are set.'') []], Refused)
           else do {
             maps \<leftarrow> show_memory m mbi;
             Some (ps @ show_elf mbi @ maps, Starts filesys_start)
           })"

section \<open>A memory map\<close>

text \<open>The entries that lie one behind the other from \<open>a\<close> up to \<open>e\<close>.\<close>

primrec map_at :: "mem \<Rightarrow> u32 \<Rightarrow> memory_map_t list \<Rightarrow> u32 \<Rightarrow> bool" where
  "map_at m a [] e \<longleftrightarrow> a = e"
| "map_at m a (x # xs) e \<longleftrightarrow> a < e \<and> load_map m a = x \<and> map_at m (a + map_size x + 4) xs e"

lemma show_maps_list: "map_at m a xs e \<Longrightarrow> show_maps m a e = Some (map show_map xs)"
  by (induction xs arbitrary: a) (subst show_maps.simps; simp)+

section \<open>A report by example\<close>

text \<open>One module, and a memory map of one entry.\<close>

definition boot_mem :: mem where
  "boot_mem = store_bytes 0x10000 (concat (map bytes32 [0x48, 0, 0, 0, 0, 1, 0x10100, 0, 0, 0, 0, 24, 0x10200]))
     (store_bytes 0x10100 (concat (map bytes32 [0x500000, 0x510000, 0, 0]))
     (store_bytes 0x10200 (concat (map bytes32 [20, 0, 0, 0x9FC00, 0, 1])) (\<lambda>_. 0)))"

lemma load32_words:
  assumes "i < length ws"
  shows "load32 (store_bytes a (concat (map bytes32 ws)) m) (a + 4 * i) = ws ! i"
proof -
  have l: "length (concat (map bytes32 vs)) = 4 * length vs" for vs by (induction vs) simp_all
  have n: "concat (map bytes32 vs) ! (4 * j + k) = bytes32 (vs ! j) ! k" if "j < length vs" "k < 4" for vs j k
    using that
  proof (induction vs arbitrary: j)
    case (Cons v vs)
    then show ?case by (cases j) (simp_all add: nth_append)
  qed simp
  show ?thesis
  proof (rule load32_bytes32, rule nth_equalityI)
    fix k
    assume "k < length (load_bytes (store_bytes a (concat (map bytes32 ws)) m) (a + 4 * i) 4)"
    then have k: "k < 4" by simp
    have "4 * i + k < 4 * length ws" using assms k by simp
    then show "load_bytes (store_bytes a (concat (map bytes32 ws)) m) (a + 4 * i) 4 ! k = bytes32 (ws ! i) ! k"
      using n [OF assms k] k by (simp add: nth_load_bytes store_bytes_def l add.assoc)
  qed simp
qed

lemma load32_other:
  "b + 4 \<le> a \<or> a + length bs \<le> b \<Longrightarrow> load32 (store_bytes a bs m) b = load32 m b"
  by (auto simp: load32_def store_bytes_outside)

lemma boot_mem_words:
  "i < 13 \<Longrightarrow> load32 boot_mem (0x10000 + 4 * i) = [0x48, 0, 0, 0, 0, 1, 0x10100, 0, 0, 0, 0, 24, 0x10200] ! i"
  "i < 4 \<Longrightarrow> load32 boot_mem (0x10100 + 4 * i) = [0x500000, 0x510000, 0, 0] ! i"
  "i < 6 \<Longrightarrow> load32 boot_mem (0x10200 + 4 * i) = [20, 0, 0, 0x9FC00, 0, 1] ! i"
proof -
  show "load32 boot_mem (0x10000 + 4 * i) = [0x48, 0, 0, 0, 0, 1, 0x10100, 0, 0, 0, 0, 24, 0x10200] ! i" if "i < 13"
    unfolding boot_mem_def using that by (intro load32_words) simp
  show "load32 boot_mem (0x10100 + 4 * i) = [0x500000, 0x510000, 0, 0] ! i" if "i < 4"
    unfolding boot_mem_def using that by (subst load32_other, simp, intro load32_words) simp
  show "load32 boot_mem (0x10200 + 4 * i) = [20, 0, 0, 0x9FC00, 0, 1] ! i" if "i < 6"
    unfolding boot_mem_def using that by (subst load32_other, simp, subst load32_other, simp, intro load32_words) simp
qed

lemma boot_mem_info:
  "mb_flags (load_info boot_mem 0x10000) = 0x48" "mods_count (load_info boot_mem 0x10000) = 1" "mods_addr (load_info boot_mem 0x10000) = 0x10100"
  "mmap_length (load_info boot_mem 0x10000) = 24" "mmap_addr (load_info boot_mem 0x10000) = 0x10200"
  "load_map boot_mem 0x10200 = \<lparr>map_size = 20, base_addr_low = 0, base_addr_high = 0, length_low = 0x9FC00, length_high = 0, map_type = 1\<rparr>"
  "load32 boot_mem 0x10100 = 0x500000"
  using boot_mem_words(1) [of 0] boot_mem_words(1) [of 5] boot_mem_words(1) [of 6] boot_mem_words(1) [of 11] boot_mem_words(1) [of 12]
    boot_mem_words(2) [of 0] boot_mem_words(3) [of 0] boot_mem_words(3) [of 1] boot_mem_words(3) [of 2] boot_mem_words(3) [of 3]
    boot_mem_words(3) [of 4] boot_mem_words(3) [of 5]
  by (simp_all add: load_info_def load_map_def field_def)

section \<open>The file system of the boot loader\<close>

text \<open>
  entry finds the file system: when the boot loader identifies itself, does not claim both
  symbol tables, passes modules and a memory map whose entries lie one behind the other, the report
  ends, names every module and every entry of the map in order, and entry goes on with the
  file system at the first module; with a wrong magic number, or with both tables, it returns.
\<close>

theorem entry_finds_file_system:
  assumes "magic = MULTIBOOT_BOOTLOADER_MAGIC" "mbi = load_info m addr" "CHECK_FLAG (mb_flags mbi) 3"
    and "CHECK_FLAG (mb_flags mbi) 6" "map_at m (mmap_addr mbi) xs (mmap_addr mbi + mmap_length mbi)"
  shows "entry_report m magic addr =
      (if CHECK_FLAG (mb_flags mbi) 4 \<and> CHECK_FLAG (mb_flags mbi) 5
       then Some (Clear # show_flags mbi @ show_modules m mbi @ [Print (line_fmt ''Both bits 4 and 5 are set.'') []], Refused)
       else Some (Clear # show_flags mbi @ show_modules m mbi @ show_elf mbi @
         Print (line_fmt ''mmap_addr = 0x%#x, mmap_length = 0x%x'') [mmap_addr mbi, mmap_length mbi] # map show_map xs,
         Starts (Some (load32 m (unat (mods_addr mbi))))))
    \<and> (other \<noteq> MULTIBOOT_BOOTLOADER_MAGIC \<longrightarrow>
      entry_report m other addr = Some ([Clear, Print (line_fmt ''Invalid magic number: 0x%#x'') [other]], Refused))"
  using assms show_maps_list [OF assms(5)]
  by (simp add: entry_report_def Let_def show_memory_def load_module_def field_def)

theorem entry_finds_file_system_witness:
  "\<exists>ps. entry_report boot_mem MULTIBOOT_BOOTLOADER_MAGIC 0x10000 = Some (ps, Starts (Some 0x500000)) \<and> length ps = 24"
proof -
  have "CHECK_FLAG 0x48 3" "CHECK_FLAG 0x48 6" "\<not> CHECK_FLAG 0x48 4" "\<not> CHECK_FLAG 0x48 0" "\<not> CHECK_FLAG 0x48 1" "\<not> CHECK_FLAG 0x48 2"
     "\<not> CHECK_FLAG 0x48 5" by (simp_all add: CHECK_FLAG_def)
  note flags = this
  from entry_finds_file_system [of _ "load_info boot_mem 0x10000" boot_mem "0x10000" "[load_map boot_mem 0x10200]" 0]
  show ?thesis using flags by (simp add: boot_mem_info show_flags_def show_modules_def show_module_def show_elf_def)
qed

text \<open>
  Without modules the address of the file system is whatever the variable held: the flag is
  tested for the report only.
\<close>

theorem no_module_no_file_system:
  assumes "\<not> CHECK_FLAG (mb_flags (load_info m addr)) 3" "\<not> CHECK_FLAG (mb_flags (load_info m addr)) 4"
    and "\<not> CHECK_FLAG (mb_flags (load_info m addr)) 6"
  shows "\<exists>ps. entry_report m MULTIBOOT_BOOTLOADER_MAGIC addr = Some (ps, Starts None)"
  using assms by (simp add: entry_report_def Let_def show_memory_def)

end
