(* ===== verification/KernelTests.thy ===== *)
theory KernelTests
  imports Idt UserSpec
begin

text \<open>
  The kernel's own tests (tests.c): those of the interrupt descriptor table, of paging, of the terminal and of the
  clock.  No call of them is left in launch\_tests; the rest of the file is in comments.

  \<open>name\<close>, \<open>file\<close> and \<open>line\<close> are the arguments of the header every test prints, the addresses
  of two strings and a number.
\<close>

section \<open>The tests\<close>

abbreviation (input) PASS :: int where "PASS \<equiv> 1"
abbreviation (input) FAIL :: int where "FAIL \<equiv> 0"

definition header_fmt :: "byte list" where
  "header_fmt = bytes_of ''[TEST %s] Running %s at %s:%d'' @ [0x0A]"

definition TEST_HEADER :: "carray \<Rightarrow> u32 \<Rightarrow> u32 \<Rightarrow> u32 \<Rightarrow> 'a console_state_scheme \<Rightarrow> (int \<times> 'a console_state_scheme) option" where
  "TEST_HEADER junk name file line s = printf junk (arr_of header_fmt) (\<lambda>i. if i < 4 then [name, name, file, line] ! i else 0) s"

text \<open>idt\_test: gates 0 to 30, without the ones that stand for no exception.\<close>

definition idt_step :: "carray \<Rightarrow> (nat \<Rightarrow> idt_desc_t) \<Rightarrow> nat \<Rightarrow> int \<times> 'a console_state_scheme \<Rightarrow> (int \<times> 'a console_state_scheme) option" where
  "idt_step junk idt i rs = (case rs of (r, s) \<Rightarrow>
     if i = 9 \<or> i = 15 \<or> 22 \<le> i \<and> i \<le> 27 then Some (r, s)
     else if offset_15_00 (idt i) = 0 \<and> offset_31_16 (idt i) = 0 then do {
       (_, s) \<leftarrow> printf junk (arr_of (bytes_of ''%d <----'')) (\<lambda>_. word_of_nat i) s;
       Some (FAIL, s)
     }
     else Some (r, s))"

definition idt_test :: "carray \<Rightarrow> u32 \<Rightarrow> u32 \<Rightarrow> u32 \<Rightarrow> (nat \<Rightarrow> idt_desc_t) \<Rightarrow> 'a console_state_scheme \<Rightarrow>
    (int \<times> 'a console_state_scheme) option" where
  "idt_test junk name file line idt s = do {
     (_, s) \<leftarrow> TEST_HEADER junk name file line s;
     for_each (idt_step junk idt) [0..<31] (PASS, s)
   }"

text \<open>
  A read by the kernel, and what a test comes to: a result, or an exception, whose vector is the
  left value and whose handler does not return to the test.
\<close>

definition deref :: "'a console_state_scheme \<Rightarrow> nat \<Rightarrow> byte option" where
  "deref s a = map_option (mem s) (mmu s a)"

definition deref_int :: "'a console_state_scheme \<Rightarrow> nat \<Rightarrow> u32 option" where
  "deref_int s a = (if \<forall>i \<in> {..<4}. mmu s (a + i) \<noteq> None then Some (load32 (vread s) a) else None)"

abbreviation (input) PAGE_FAULT :: nat where "PAGE_FAULT \<equiv> 14"

definition deref_step :: "carray \<Rightarrow> byte list \<Rightarrow> nat \<Rightarrow> nat + 'a console_state_scheme \<Rightarrow> (nat + 'a console_state_scheme) option" where
  "deref_step junk fmt i r = (case r of Inl v \<Rightarrow> Some (Inl v)
     | Inr s \<Rightarrow> (case deref s i of None \<Rightarrow> Some (Inl PAGE_FAULT)
         | Some b \<Rightarrow> do { (_, s) \<leftarrow> printf junk (arr_of fmt) (\<lambda>k. if k = 0 then word_of_nat i else scast b) s; Some (Inr s) }))"

definition deref_fmt :: "string \<Rightarrow> byte list" where
  "deref_fmt x = bytes_of ''deref '' @ bytes_of x @ bytes_of '': %x %d'' @ [0x0A]"

definition pageTesting :: "carray \<Rightarrow> u32 \<Rightarrow> u32 \<Rightarrow> u32 \<Rightarrow> 'a console_state_scheme \<Rightarrow> (nat + int \<times> 'a console_state_scheme) option" where
  "pageTesting junk name file line s = do {
     (_, s) \<leftarrow> TEST_HEADER junk name file line s;
     r \<leftarrow> for_each (deref_step junk (deref_fmt ''i'')) [0x400000..<0x400000 + 4 * 0x100000] (Inr s);
     r \<leftarrow> for_each (deref_step junk (deref_fmt ''j'')) [0xB8000..<0xB8000 + 0x1000] r;
     Some (map_sum id (\<lambda>s. (PASS, s)) r)
   }"

definition page_fault_test :: "carray \<Rightarrow> u32 \<Rightarrow> u32 \<Rightarrow> u32 \<Rightarrow> 'a console_state_scheme \<Rightarrow> (nat + int \<times> 'a console_state_scheme) option" where
  "page_fault_test junk name file line s = do {
     (_, s) \<leftarrow> TEST_HEADER junk name file line s;
     case deref_int s (0x400000 - 1) of None \<Rightarrow> Some (Inl PAGE_FAULT)
     | Some x \<Rightarrow> do { (_, s) \<leftarrow> printf junk (arr_of (bytes_of ''%x'')) (\<lambda>_. x) s; Some (Inr (0, s)) }
   }"

definition null_dereferenceTest :: "carray \<Rightarrow> u32 \<Rightarrow> u32 \<Rightarrow> u32 \<Rightarrow> 'a console_state_scheme \<Rightarrow> (nat + int \<times> 'a console_state_scheme) option" where
  "null_dereferenceTest junk name file line s = do {
     (_, s) \<leftarrow> TEST_HEADER junk name file line s;
     case deref_int s 0 of None \<Rightarrow> Some (Inl PAGE_FAULT) | Some x \<Rightarrow> Some (Inr (PASS, s))
   }"

text \<open>
  Exceptions that a test raises itself: a division by zero, which the processor reports by vector 0, and
  two \<open>int\<close> instructions, which go through the table.
\<close>

abbreviation (input) DIVIDE_ERROR :: nat where "DIVIDE_ERROR \<equiv> 0"

definition div0_test :: "carray \<Rightarrow> u32 \<Rightarrow> u32 \<Rightarrow> u32 \<Rightarrow> 'a console_state_scheme \<Rightarrow> (nat + int \<times> 'a console_state_scheme) option" where
  "div0_test junk name file line s = do {
     (_, s) \<leftarrow> TEST_HEADER junk name file line s;
     let y = 0;
     let x = 1;
     if y = (0 :: int) then Some (Inl DIVIDE_ERROR)
     else do { (_, s) \<leftarrow> printf junk (arr_of (bytes_of ''%d'')) (\<lambda>_. word_of_int (x div y)) s; Some (Inr (0, s)) }
   }"

definition assertion_failure :: "(asm_entry \<Rightarrow> u32) \<Rightarrow> (nat \<Rightarrow> idt_desc_t) \<Rightarrow> 'a environment \<Rightarrow>
    'a kernel_state_scheme \<Rightarrow> (flow \<times> 'a kernel_state_scheme) option" where
  "assertion_failure link idt env s = interrupt link idt env 30 s"

definition assertionCheck :: "(asm_entry \<Rightarrow> u32) \<Rightarrow> (nat \<Rightarrow> idt_desc_t) \<Rightarrow> 'a environment \<Rightarrow> carray \<Rightarrow> u32 \<Rightarrow> u32 \<Rightarrow> u32 \<Rightarrow>
    'a kernel_state_scheme \<Rightarrow> (flow \<times> 'a kernel_state_scheme) option" where
  "assertionCheck link idt env junk name file line s = do {
     (_, s) \<leftarrow> TEST_HEADER junk name file line s;
     (f, s) \<leftarrow> assertion_failure link idt env s;
     Some (case f of Ret _ \<Rightarrow> Ret 0 | _ \<Rightarrow> f, s)
   }"

definition syscall_test :: "(asm_entry \<Rightarrow> u32) \<Rightarrow> (nat \<Rightarrow> idt_desc_t) \<Rightarrow> 'a environment \<Rightarrow>
    'a kernel_state_scheme \<Rightarrow> (flow \<times> 'a kernel_state_scheme) option" where
  "syscall_test link idt env s = do {
     (f, s) \<leftarrow> interrupt link idt env 0x80 s;
     Some (case f of Ret _ \<Rightarrow> Ret PASS | _ \<Rightarrow> f, s)
   }"

text \<open>The tests whose bodies are in comments but for the header, such as test\_dentry.\<close>

definition file_ops_w_pcb :: "carray \<Rightarrow> u32 \<Rightarrow> u32 \<Rightarrow> u32 \<Rightarrow> 'a console_state_scheme \<Rightarrow> (int \<times> 'a console_state_scheme) option" where
  "file_ops_w_pcb junk name file line s = do {
     (_, s) \<leftarrow> TEST_HEADER junk name file line s;
     Some (PASS, s)
   }"

text \<open>The two tests that go on for ever; \<open>buf\<close> is the address of the first one's buffer.\<close>

partial_function (option) terminal_loop :: "'a interrupts \<Rightarrow> nat \<Rightarrow> 'a kernel_state_scheme \<Rightarrow> (int \<times> 'a kernel_state_scheme) option" where
  "terminal_loop irq buf s = do {
     (chars_read, s) \<leftarrow> terminal_read irq buf 128 s;
     let (_, s) = terminal_write (Some buf) chars_read s;
     terminal_loop irq buf s
   }"

definition terminal_test :: "'a interrupts \<Rightarrow> nat \<Rightarrow> 'a kernel_state_scheme \<Rightarrow> (int \<times> 'a kernel_state_scheme) option" where
  "terminal_test irq buf s = terminal_loop irq buf s"

partial_function (option) rtc_loop :: "(nat \<Rightarrow> 'a console_state_scheme \<Rightarrow> 'a console_state_scheme) \<Rightarrow> carray \<Rightarrow> 'a console_state_scheme \<Rightarrow>
    (int \<times> 'a console_state_scheme) option" where
  "rtc_loop irq junk s = do {
     (_, s) \<leftarrow> rtc_read irq s;
     (_, s) \<leftarrow> printf junk (arr_of (bytes_of ''1'' @ [0x0A])) (\<lambda>_. 0) s;
     rtc_loop irq junk s
   }"

definition rtc_customTest :: "(nat \<Rightarrow> 'a console_state_scheme \<Rightarrow> 'a console_state_scheme) \<Rightarrow> carray \<Rightarrow> u32 \<Rightarrow> u32 \<Rightarrow> u32 \<Rightarrow>
    'a console_state_scheme \<Rightarrow> (int \<times> 'a console_state_scheme) option" where
  "rtc_customTest irq junk name file line s = do {
     (_, s) \<leftarrow> TEST_HEADER junk name file line s;
     let (_, s) = rtc_write (Some 512) s;
     rtc_loop irq junk s
   }"

section \<open>Output\<close>

text \<open>A state that differs from \<open>s\<close> in the screen of its terminal only, which is \<open>c\<close>.\<close>

definition printed :: "'a console_state_scheme \<Rightarrow> screen \<Rightarrow> 'a console_state_scheme \<Rightarrow> bool" where
  "printed s c t \<longleftrightarrow> screen_ok c \<and> (\<exists>out. t = show_screen (sched_term s) (video_base s) c out s)"

lemma screen_puts_ok: "screen_ok c \<Longrightarrow> screen_ok (screen_puts bs c)"
  by (induction bs arbitrary: c) (simp_all add: screen_puts_def screen_putc_ok)

lemma printf_printed:
  assumes "paging_ok s" "printed s c t" "\<forall>p \<in> set ps. piece_ok s p" "fmt = concat (map format_of ps)" "at_pos ws 0 (concat (map args_of ps))"
  shows "returns (printf junk (arr_of fmt) ws t) (\<lambda>(r, t'). printed s (screen_puts (concat (map render ps)) c) t')"
proof -
  obtain out where t: "screen_ok c" "t = show_screen (sched_term s) (video_base s) c out s" using assms(2) by (auto simp: printed_def)
  have "at_pos (arr_of fmt) 0 (concat (map format_of ps))" "arr_of fmt (0 + length (concat (map format_of ps))) = NUL"
    using assms(4) by (simp_all add: at_pos_def)
  from printf_pieces [OF assms(1) t(1) refl refl assms(3) video_base_bounds [OF assms(1)] this(1) assms(5) this(2), of junk out]
  show ?thesis
    using t by (auto simp: printf_def printed_def intro: screen_puts_ok)
qed

text \<open>The header, whose strings lie in the kernel's data.\<close>

definition header_text :: "byte list \<Rightarrow> byte list \<Rightarrow> u32 \<Rightarrow> byte list" where
  "header_text nm fl line = bytes_of ''[TEST '' @ nm @ bytes_of ''] Running '' @ nm @ bytes_of '' at '' @ fl @ bytes_of '':'' @
     render (Signed line) @ [0x0A]"

lemma plain_pieces:
  "concat (map format_of (map Lit bs)) = bs" "concat (map render (map Lit bs)) = bs" "concat (map args_of (map Lit bs)) = []"
  "(\<forall>p \<in> set (map Lit bs). piece_ok s p) \<longleftrightarrow> (\<forall>b \<in> set bs. b \<noteq> NUL \<and> b \<noteq> 0x25)"
  by (induction bs) auto

lemma header_shows:
  assumes "paging_ok s" "printed s c t" "string_at s (unat name) nm" "string_at s (unat file) fl"
  shows "returns (TEST_HEADER junk name file line t) (\<lambda>(r, t'). printed s (screen_puts (header_text nm fl line) c) t')"
proof -
  let ?ps = "map Lit (bytes_of ''[TEST '') @ [Str name nm] @ map Lit (bytes_of ''] Running '') @ [Str name nm] @
    map Lit (bytes_of '' at '') @ [Str file fl] @ map Lit (bytes_of '':'') @ [Signed line, Lit 0x0A]"
  have lits: "\<forall>b \<in> set (bytes_of ''[TEST ''). b \<noteq> NUL \<and> b \<noteq> 0x25" "\<forall>b \<in> set (bytes_of ''] Running ''). b \<noteq> NUL \<and> b \<noteq> 0x25"
    "\<forall>b \<in> set (bytes_of '' at ''). b \<noteq> NUL \<and> b \<noteq> 0x25" "\<forall>b \<in> set (bytes_of '':''). b \<noteq> NUL \<and> b \<noteq> 0x25"
    by (simp_all add: bytes_of_def)
  have ok: "\<forall>p \<in> set ?ps. piece_ok s p"
    unfolding set_append ball_Un plain_pieces(4) using assms(3,4) lits by simp
  have fmt: "header_fmt = concat (map format_of ?ps)"
    unfolding map_append concat_append plain_pieces(1) by (simp add: header_fmt_def) (simp add: bytes_of_def)
  have ws: "at_pos (\<lambda>i. if i < 4 then [name, name, file, line] ! i else 0) 0 (concat (map args_of ?ps))"
    unfolding map_append concat_append plain_pieces(3) by (simp add: at_pos_def)
  have "concat (map render ?ps) = header_text nm fl line"
    unfolding map_append concat_append plain_pieces(2) by (simp add: header_text_def del: render.simps) simp
  with printf_printed [OF assms(1,2) ok fmt ws, of junk] show ?thesis by (simp only: TEST_HEADER_def)
qed

section \<open>The interrupt descriptor table\<close>

definition missing :: "(nat \<Rightarrow> idt_desc_t) \<Rightarrow> nat \<Rightarrow> bool" where
  "missing idt i \<longleftrightarrow> \<not> (i = 9 \<or> i = 15 \<or> 22 \<le> i \<and> i \<le> 27) \<and> offset_15_00 (idt i) = 0 \<and> offset_31_16 (idt i) = 0"

definition missing_text :: "nat \<Rightarrow> byte list" where
  "missing_text i = numeral_of 10 i @ bytes_of '' <----''"

lemma missing_shows:
  assumes "paging_ok s" "printed s c t" "i < 31"
  shows "returns (printf junk (arr_of (bytes_of ''%d <----'')) (\<lambda>_. word_of_nat i) t)
    (\<lambda>(r, t'). printed s (screen_puts (missing_text i) c) t')"
proof -
  let ?ps = "Signed (word_of_nat i) # map Lit (bytes_of '' <----'')"
  have ok: "\<forall>p \<in> set ?ps. piece_ok s p" by (simp add: bytes_of_def)
  have fmt: "bytes_of ''%d <----'' = concat (map format_of ?ps)"
    unfolding list.map concat.simps plain_pieces(1) by (simp add: bytes_of_def)
  have ws: "at_pos (\<lambda>_. word_of_nat i) 0 (concat (map args_of ?ps))"
    unfolding list.map concat.simps plain_pieces(3) by (simp add: at_pos_def)
  have "sint (word_of_nat i :: u32) = int i" using assms(3) by (simp add: sint_unat unat_of_nat take_bit_nat_eq_self)
  then have "concat (map render ?ps) = missing_text i"
    unfolding list.map concat.simps plain_pieces(2) by (simp add: missing_text_def)
  with printf_printed [OF assms(1,2) ok fmt ws, of junk] show ?thesis by simp
qed

lemma idt_steps_show:
  assumes "paging_ok s" "\<forall>i \<in> set is. i < 31" "printed s c t"
  shows "returns (for_each (idt_step junk idt) is (r, t)) (\<lambda>(r', t').
    r' = (if \<exists>i \<in> set is. missing idt i then FAIL else r) \<and>
    printed s (screen_puts (concat (map missing_text (filter (missing idt) is))) c) t')"
  using assms(2,3)
proof (induction "is" arbitrary: r c t)
  case Nil
  then show ?case by (simp add: screen_puts_def)
next
  case (Cons i "is")
  have puts: "screen_puts (bs @ bs') c = screen_puts bs' (screen_puts bs c)" for bs bs' by (simp add: screen_puts_def)
  show ?case
  proof (cases "missing idt i")
    case True
    then have step: "idt_step junk idt i (r, t) = do {
       (_, s) \<leftarrow> printf junk (arr_of (bytes_of ''%d <----'')) (\<lambda>_. word_of_nat i) t; Some (FAIL, s) }"
      by (auto simp: idt_step_def missing_def)
    from missing_shows [OF assms(1) Cons.prems(2), of i junk] Cons.prems(1) obtain x t1
      where t1: "printf junk (arr_of (bytes_of ''%d <----'')) (\<lambda>_. word_of_nat i) t = Some (x, t1)"
        "printed s (screen_puts (missing_text i) c) t1"
      by (auto simp: returns_iff)
    with Cons.IH [OF _ t1(2), of FAIL] Cons.prems(1) step True show ?thesis
      by (simp add: puts split: if_splits)
  next
    case False
    then have "idt_step junk idt i (r, t) = Some (r, t)" by (auto simp: idt_step_def missing_def)
    with Cons.IH [OF _ Cons.prems(2), of r] Cons.prems(1) False show ?thesis by simp
  qed
qed

lemma missing_init:
  assumes "0 \<notin> range link" "\<forall>v < 256. gate_offset (idt0 v) = 0" "i < 31"
  shows "missing (init_idt link idt0) i \<longleftrightarrow> i \<in> {20, 21, 28, 29, 30}"
proof -
  have zero: "offset_15_00 g = 0 \<and> offset_31_16 g = 0 \<longleftrightarrow> gate_offset g = 0" for g
  proof -
    have "ucast (gate_offset g) = offset_15_00 g" "ucast (drop_bit 16 (gate_offset g)) = offset_31_16 g"
      unfolding gate_offset_def by (rule bit_word_eqI, auto simp: bit_simps dest: bit_imp_le_length)+
    then show ?thesis by (metis drop_bit_of_0 gate_offset_def or.right_neutral push_bit_of_0 unsigned_0)
  qed
  have "gate_offset (init_idt link idt0 i) = 0 \<longleftrightarrow> map_of idt_entries i = None"
    using init_idt_simps(5) [of i link idt0] assms by (auto split: option.splits)
  moreover have "i \<in> {9, 15} \<union> {20..30} \<longleftrightarrow> map_of idt_entries i = None"
    using assms(3) by (auto simp: idt_entries_def) presburger
  ultimately show ?thesis using assms(3) unfolding missing_def zero by auto
qed

lemma missing_texts:
  "concat (map missing_text [20, 21, 28, 29, 30]) = bytes_of ''20 <----21 <----28 <----29 <----30 <----''"
proof -
  have small: "digits 10 2 = [2]" "digits 10 3 = [3]" by (subst digits.simps, simp)+
  then have "digits 10 20 = [2, 0]" "digits 10 21 = [2, 1]" "digits 10 28 = [2, 8]" "digits 10 29 = [2, 9]" "digits 10 30 = [3, 0]"
    by (subst digits.simps, simp)+
  then show ?thesis
    by (simp add: missing_text_def numeral_of_def digit_byte_def itoa_lookup_def bytes_of_def)
qed

lemma missing_gates:
  assumes "0 \<notin> range link" "\<forall>v < 256. gate_offset (idt0 v) = 0"
  shows "filter (missing (init_idt link idt0)) [0..<31] = [20, 21, 28, 29, 30]"
proof -
  have "filter (missing (init_idt link idt0)) [0..<31] = filter (\<lambda>i. i \<in> {20, 21, 28, 29, 30}) [0..<31]"
    using missing_init [OF assms] by (intro filter_cong) (simp_all del: upt_rec_numeral)
  also have "\<dots> = [20, 21, 28, 29, 30]" by (simp add: upt_rec)
  finally show ?thesis .
qed

text \<open>
  C33. The kernel fails its own test of the interrupt descriptor table: on the table that init\_idt makes of
  a zeroed one, idt\_test reports the gates 20, 21, 28, 29 and 30, which it counts among the
  exceptions and for which init\_idt has no handler, and returns FAIL.
\<close>

theorem idt_test_fails:
  assumes "paging_ok s" "screen_ok (screen_of k b s)" "k = sched_term s" "b = video_base s"
    and "string_at s (unat name) nm" "string_at s (unat file) fl" "0 \<notin> range link" "\<forall>v \<in> {..<256}. gate_offset (idt0 v) = 0"
  shows "\<exists>out. idt_test junk name file line (init_idt link idt0) s =
    Some (FAIL, show_screen k b (screen_puts (header_text nm fl line @ bytes_of ''20 <----21 <----28 <----29 <----30 <----'')
      (screen_of k b s)) out s)"
proof -
  let ?c = "screen_of k b s"
  have "printed s ?c s" using assms(2-4) show_screen_of [of k b s] unfolding printed_def by metis
  from header_shows [OF assms(1) this assms(5,6), of junk line] obtain x t
    where t: "TEST_HEADER junk name file line s = Some (x, t)" "printed s (screen_puts (header_text nm fl line) ?c) t"
    by (auto simp: returns_iff)
  have v: "\<forall>v < 256. gate_offset (idt0 v) = 0" using assms(8) by simp
  have "\<exists>i \<in> set [0..<31]. missing (init_idt link idt0) i"
    using missing_gates [OF assms(7) v] by (metis filter_False list.distinct(1))
  with idt_steps_show [OF assms(1) _ t(2), of "[0..<31]" junk "init_idt link idt0" PASS] obtain t'
    where "for_each (idt_step junk (init_idt link idt0)) [0..<31] (PASS, t) = Some (FAIL, t')"
      "printed s (screen_puts (bytes_of ''20 <----21 <----28 <----29 <----30 <----'') (screen_puts (header_text nm fl line) ?c)) t'"
    unfolding missing_gates [OF assms(7) v] missing_texts by (auto simp: returns_iff simp del: upt_rec_numeral)
  then show ?thesis using t(1) assms(3,4) by (auto simp: idt_test_def printed_def screen_puts_def simp del: upt_rec_numeral)
qed

text \<open>A state with two strings in the kernel's data.\<close>

definition demo_test_state :: console_state where
  "demo_test_state = boot_console_state\<lparr>mem := (\<lambda>a. if a = 0x410000 then 0x69 else if a = 0x410010 then 0x74 else 0)\<rparr>"

lemma demo_test_state:
  "paging_ok demo_test_state" "video_base demo_test_state = 0xB8000" "sched_term demo_test_state = 0"
  "screen_ok (screen_of 0 0xB8000 demo_test_state)"
  "string_at demo_test_state 0x410000 [0x69]" "string_at demo_test_state 0x410010 [0x74]"
proof -
  show "paging_ok demo_test_state" "video_base demo_test_state = 0xB8000" "sched_term demo_test_state = 0"
    using boot_console by (simp_all add: demo_test_state_def video_base_def)
  show "screen_ok (screen_of 0 0xB8000 demo_test_state)"
    by (simp add: screen_ok_def screen_of_def demo_test_state_def boot_console zero_terminal_def)
  show "string_at demo_test_state 0x410000 [0x69]" "string_at demo_test_state 0x410010 [0x74]"
    by (simp_all add: string_at_def demo_test_state_def load_bytes_def)
qed

theorem idt_test_fails_witness:
  "\<exists>out. idt_test (\<lambda>_. 0xAA) 0x410000 0x410010 46 (init_idt demo_link (\<lambda>_. zero_gate)) demo_test_state =
    Some (FAIL, show_screen 0 0xB8000 (screen_puts (header_text [0x69] [0x74] 46 @ bytes_of ''20 <----21 <----28 <----29 <----30 <----'')
      (screen_of 0 0xB8000 demo_test_state)) out demo_test_state)"
proof -
  have gates: "\<forall>v \<in> {..<256}. gate_offset ((\<lambda>_. zero_gate) v) = 0" by (simp add: gate_offset_def zero_gate_def)
  have strings: "string_at demo_test_state (unat (0x410000 :: u32)) [0x69]" "string_at demo_test_state (unat (0x410010 :: u32)) [0x74]"
    using demo_test_state(5,6) by simp_all
  show ?thesis
    by (rule idt_test_fails [OF demo_test_state(1,4) demo_test_state(3) [symmetric] demo_test_state(2) [symmetric] strings
      demo_link_nonzero gates])
qed

text \<open>
  The assertion of the tests raises interrupt 30, which is among the gates without a handler: after the header the processor
  goes on at address 0.
\<close>

theorem assertion_has_no_handler:
  assumes "gate_offset (idt0 30) = 0" "0 \<notin> range link"
  shows "assertion_failure link (init_idt link idt0) env s = None"
    and "assertionCheck link (init_idt link idt0) env junk name file line s = None"
proof -
  have "map_of idt_entries 30 = None" by (simp add: idt_entries_def)
  then have "gate_offset (init_idt link idt0 30) = 0" using assms(1) by (simp add: init_idt_simps)
  moreover have "entry_at link 0 = None" using assms(2) by (auto simp: entry_at_def find_None_iff)
  ultimately have none: "interrupt link (init_idt link idt0) env 30 t = None" for t by (simp add: interrupt_def)
  then show "assertion_failure link (init_idt link idt0) env s = None" by (simp add: assertion_failure_def)
  show "assertionCheck link (init_idt link idt0) env junk name file line s = None"
    using none by (simp add: assertionCheck_def assertion_failure_def bind_eq_None_conv split_beta)
qed

section \<open>Paging\<close>

lemma printed_mmu: "printed s c t \<Longrightarrow> mmu t = mmu s"
  by (auto simp: printed_def)

lemma deref_shows:
  assumes "paging_ok s" "printed s c t" "mmu s i \<noteq> None" "\<forall>b \<in> set (bytes_of x). b \<noteq> NUL \<and> b \<noteq> 0x25"
  shows "returns (deref_step junk (deref_fmt x) i (Inr t)) (\<lambda>r. \<exists>c' t'. r = Inr t' \<and> printed s c' t')"
proof -
  obtain b where b: "deref t i = Some b" using assms(3) printed_mmu [OF assms(2)] by (auto simp: deref_def)
  let ?ps = "map Lit (bytes_of ''deref '') @ map Lit (bytes_of x) @ map Lit (bytes_of '': '') @ [Hex (word_of_nat i), Lit 0x20, Signed (scast b), Lit 0x0A]"
  have lits: "\<forall>b \<in> set (bytes_of ''deref ''). b \<noteq> NUL \<and> b \<noteq> 0x25" "\<forall>b \<in> set (bytes_of '': ''). b \<noteq> NUL \<and> b \<noteq> 0x25"
    by (simp_all add: bytes_of_def)
  have ok: "\<forall>p \<in> set ?ps. piece_ok s p"
    unfolding set_append ball_Un plain_pieces(4) using assms(4) lits by simp
  have fmt: "deref_fmt x = concat (map format_of ?ps)"
    unfolding map_append concat_append plain_pieces(1) by (simp add: deref_fmt_def) (simp add: bytes_of_def)
  have ws: "at_pos (\<lambda>k. if k = 0 then word_of_nat i else scast b) 0 (concat (map args_of ?ps))"
    unfolding map_append concat_append plain_pieces(3) by (auto simp: at_pos_def less_Suc_eq)
  from printf_printed [OF assms(1,2) ok fmt ws, of junk] show ?thesis
    by (auto simp: deref_step_def b returns_iff)
qed

lemma derefs_show:
  assumes "paging_ok s" "\<forall>i \<in> set is. mmu s i \<noteq> None" "\<forall>b \<in> set (bytes_of x). b \<noteq> NUL \<and> b \<noteq> 0x25" "printed s c t"
  shows "returns (for_each (deref_step junk (deref_fmt x)) is (Inr t)) (\<lambda>r. \<exists>c' t'. r = Inr t' \<and> printed s c' t')"
  using assms(2,4)
proof (induction "is" arbitrary: c t)
  case (Cons i "is")
  have i: "mmu s i \<noteq> None" and js: "\<forall>i \<in> set is. mmu s i \<noteq> None" using Cons.prems(1) by simp_all
  from deref_shows [OF assms(1) Cons.prems(2) i assms(3), of junk] obtain c1 t1
    where t1: "deref_step junk (deref_fmt x) i (Inr t) = Some (Inr t1)" "printed s c1 t1"
    by (auto simp: returns_iff)
  with Cons.IH [OF js t1(2)] show ?case by simp
qed auto

text \<open>
  The tests of paging: all bytes of the kernel's page and of the video page can be read, so that pageTesting
  passes (its comments expect the last read of each page to fault), and the reads of
  page\_fault\_test and null\_dereferenceTest are page faults.
\<close>

theorem page_tests:
  assumes "paging_ok s" "screen_ok (screen_of (sched_term s) (video_base s) s)" "string_at s (unat name) nm" "string_at s (unat file) fl"
  shows "(\<exists>t c. pageTesting junk name file line s = Some (Inr (PASS, t)) \<and> printed s c t)
    \<and> page_fault_test junk name file line s = Some (Inl PAGE_FAULT)
    \<and> null_dereferenceTest junk name file line s = Some (Inl PAGE_FAULT)"
proof -
  have "printed s (screen_of (sched_term s) (video_base s) s) s" using assms(2) show_screen_of [of "sched_term s" "video_base s" s] unfolding printed_def by metis
  from header_shows [OF assms(1) this assms(3,4), of junk line] obtain x t c
    where t: "TEST_HEADER junk name file line s = Some (x, t)" "printed s c t"
    by (auto simp: returns_iff)
  have names: "\<forall>b \<in> set (bytes_of ''i''). b \<noteq> NUL \<and> b \<noteq> 0x25" "\<forall>b \<in> set (bytes_of ''j''). b \<noteq> NUL \<and> b \<noteq> 0x25"
    by (simp_all add: bytes_of_def)
  have kernel: "\<forall>i \<in> set [0x400000..<0x400000 + 4 * 0x100000]. mmu s i \<noteq> None"
    using mmu_kernel [OF assms(1)] by (simp del: upt_rec_numeral)
  have video: "\<forall>i \<in> set [0xB8000..<0xB8000 + 0x1000]. mmu s i \<noteq> None"
    using mmu_video_mem [OF assms(1)] by (simp del: upt_rec_numeral)
  obtain c1 t1 where t1: "for_each (deref_step junk (deref_fmt ''i'')) [0x400000..<0x400000 + 4 * 0x100000] (Inr t) = Some (Inr t1)" "printed s c1 t1"
    using derefs_show [OF assms(1) kernel names(1) t(2), of junk] by (auto simp: returns_iff simp del: upt_rec_numeral)
  obtain c2 t2 where t2: "for_each (deref_step junk (deref_fmt ''j'')) [0xB8000..<0xB8000 + 0x1000] (Inr t1) = Some (Inr t2)" "printed s c2 t2"
    using derefs_show [OF assms(1) video names(2) t1(2), of junk] by (auto simp: returns_iff simp del: upt_rec_numeral)
  have "pageTesting junk name file line s = Some (Inr (PASS, t2))"
    unfolding pageTesting_def t(1) t1(1) t2(1) Option.bind.bind_lunit prod.case by simp
  moreover have "mmu t 0 = None" "mmu t 0x3FFFFF = None"
    using mmu_low [OF assms(1)] printed_mmu [OF t(2)] by simp_all
  then have "deref_int t 0 = None" "deref_int t (0x400000 - 1) = None"
    by (auto simp: deref_int_def intro: bexI [of _ 0])
  ultimately show ?thesis
    using t t2(2) by (auto simp: page_fault_test_def null_dereferenceTest_def)
qed

section \<open>The tests that do not end\<close>

lemma terminal_loop_runs: "terminal_loop irq buf s = None"
proof -
  have False if "terminal_loop irq buf s = Some r" for irq :: "'a interrupts" and buf s r
    using that
    by (rule terminal_loop.raw_induct [where P = "\<lambda>_ _ _ _. False", rotated]) (auto simp: bind_eq_Some_conv split_beta Let_def)
  then show ?thesis by (cases "terminal_loop irq buf s") auto
qed

lemma rtc_loop_runs: "rtc_loop irq junk s = None"
proof -
  have False if "rtc_loop irq junk s = Some r" for irq :: "nat \<Rightarrow> 'a console_state_scheme \<Rightarrow> 'a console_state_scheme" and junk s r
    using that
    by (rule rtc_loop.raw_induct [where P = "\<lambda>_ _ _ _. False", rotated]) (auto simp: bind_eq_Some_conv split_beta Let_def)
  then show ?thesis by (cases "rtc_loop irq junk s") auto
qed

lemma endless_tests: "terminal_test irq buf s = None" "rtc_customTest irq' junk name file line s' = None"
  by (simp_all add: terminal_test_def rtc_customTest_def terminal_loop_runs rtc_loop_runs split_beta Let_def bind_eq_None_conv)

end
